(* ===== verification/Kici_Prelude.thy ===== *)
theory Kici_Prelude
  imports Complex_Main "HOL-Library.Sublist"
begin

text \<open>
  Shared vocabulary of the development: the insertion-ordered \<open>Set\<close> and \<open>Map\<close> of the
  source language as lists, the writer that collects the effects of a handler in the order
  in which the code performs them, and the lemma collections that the component theories
  extend.
\<close>

section \<open>Lemma collections\<close>


section \<open>Names\<close>

type_synonym run_id = string
type_synonym job_id = string
type_synonym agent_id = string
type_synonym instance_id = string
type_synonym millis = int

section \<open>Insertion-ordered sets\<close>

text \<open>
  A \<open>Set\<close> of the source iterates in insertion order and adding a present element changes
  nothing. It is a list without duplicates.
\<close>

definition js_add :: "'a \<Rightarrow> 'a list \<Rightarrow> 'a list" where
  "js_add x xs = (if x \<in> set xs then xs else xs @ [x])"

lemma set_js_add [simp]: "set (js_add x xs) = insert x (set xs)"
  by (auto simp: js_add_def)

lemma distinct_js_add [simp]: "distinct (js_add x xs) = distinct xs"
  by (auto simp: js_add_def)

lemma length_js_add: "length (js_add x xs) = (if x \<in> set xs then length xs else Suc (length xs))"
  by (simp add: js_add_def)

definition js_set :: "'a list \<Rightarrow> 'a list" where
  "js_set xs = fold js_add xs []"

lemma set_fold_js_add: "set (fold js_add xs acc) = set acc \<union> set xs"
  by (induction xs arbitrary: acc) auto

lemma distinct_fold_js_add: "distinct acc \<Longrightarrow> distinct (fold js_add xs acc)"
  by (induction xs arbitrary: acc) auto

lemma set_js_set [simp]: "set (js_set xs) = set xs"
  by (simp add: js_set_def set_fold_js_add)

lemma distinct_js_set [simp]: "distinct (js_set xs)"
  by (simp add: js_set_def distinct_fold_js_add)

section \<open>Insertion-ordered maps\<close>

text \<open>
  A \<open>Map\<close> of the source is an association list with distinct keys. Setting a present key
  keeps its position; setting a new key appends.
\<close>

fun amap_set :: "'k \<Rightarrow> 'v \<Rightarrow> ('k \<times> 'v) list \<Rightarrow> ('k \<times> 'v) list" where
  "amap_set k v [] = [(k, v)]"
| "amap_set k v ((k', v') # m) = (if k' = k then (k, v) # m else (k', v') # amap_set k v m)"

definition amap_delete :: "'k \<Rightarrow> ('k \<times> 'v) list \<Rightarrow> ('k \<times> 'v) list" where
  "amap_delete k m = filter (\<lambda>e. fst e \<noteq> k) m"

abbreviation amap_keys :: "('k \<times> 'v) list \<Rightarrow> 'k list" where
  "amap_keys m \<equiv> map fst m"

lemma map_of_amap_set [simp]: "map_of (amap_set k v m) = (map_of m)(k \<mapsto> v)"
  by (induction m) (auto simp: fun_eq_iff)

lemma map_of_amap_delete [simp]: "map_of (amap_delete k m) = (map_of m)(k := None)"
  by (induction m) (auto simp: amap_delete_def fun_eq_iff)

lemma amap_set_in: "(k, v) \<in> set (amap_set k v m)"
  by (induction k v m rule: amap_set.induct) auto

lemma fst_set_amap_set [simp]: "fst ` set (amap_set k v m) = insert k (fst ` set m)"
  by (induction k v m rule: amap_set.induct) (simp_all add: insert_commute)

lemma distinct_amap_set [simp]:
  "distinct (amap_keys m) \<Longrightarrow> distinct (amap_keys (amap_set k v m))"
  by (induction k v m rule: amap_set.induct) auto

lemma fst_set_amap_delete [simp]: "fst ` set (amap_delete k m) = fst ` set m - {k}"
  by (auto simp: amap_delete_def)

lemma distinct_amap_delete [simp]:
  "distinct (amap_keys m) \<Longrightarrow> distinct (amap_keys (amap_delete k m))"
  by (simp add: amap_delete_def distinct_map_filter)

lemma map_of_eq_Some_distinct:
  "distinct (amap_keys m) \<Longrightarrow> (map_of m k = Some v) = ((k, v) \<in> set m)"
  by simp

lemma in_set_amap_set_distinct:
  assumes "distinct (amap_keys m)"
  shows "((k', v') \<in> set (amap_set k v m)) =
    (if k' = k then v' = v else (k', v') \<in> set m)"
proof -
  have "((k', v') \<in> set (amap_set k v m)) = (map_of (amap_set k v m) k' = Some v')"
    using assms by (intro map_of_eq_Some_iff [symmetric] distinct_amap_set)
  also have "\<dots> = (if k' = k then v' = v else (k', v') \<in> set m)"
    using assms by (auto simp: fun_upd_def)
  finally show ?thesis .
qed

section \<open>Tables\<close>

text \<open>
  A database table is the list of its rows. \<open>update_where\<close> is an UPDATE with a WHERE clause,
  \<open>order_by\<close> a SELECT ordered by a column (rows that tie keep their table order, which the
  database does not promise).
\<close>

definition update_where :: "('r \<Rightarrow> bool) \<Rightarrow> ('r \<Rightarrow> 'r) \<Rightarrow> 'r list \<Rightarrow> 'r list" where
  "update_where P f rows = map (\<lambda>r. if P r then f r else r) rows"

definition order_by :: "('r \<Rightarrow> 'k::linorder) \<Rightarrow> ('r \<Rightarrow> bool) \<Rightarrow> 'r list \<Rightarrow> 'r list" where
  "order_by k P rows = sort_key k (filter P rows)"

lemma set_order_by [simp]: "set (order_by k P rows) = {r \<in> set rows. P r}"
  by (auto simp: order_by_def)

lemma length_order_by [simp]: "length (order_by k P rows) = length (filter P rows)"
  by (simp add: order_by_def)

lemma filter_order_by: "filter Q (order_by k P rows) = order_by k (\<lambda>r. P r \<and> Q r) rows"
  by (simp add: order_by_def filter_sort conj_commute)

lemma notin_image_iff: "k \<notin> f ` A \<longleftrightarrow> (\<forall>x \<in> A. f x \<noteq> k)"
  by auto

lemma order_by_cong:
  "(\<And>r. r \<in> set rows \<Longrightarrow> P r = Q r) \<Longrightarrow> order_by k P rows = order_by k Q rows"
  by (simp add: order_by_def cong: filter_cong)

lemma filter_update_off:
  assumes "\<And>r. P r \<Longrightarrow> \<not> Q (f r)"
  shows "filter Q (update_where P f rows) = filter (\<lambda>r. Q r \<and> \<not> P r) rows"
  using assms by (induction rows) (auto simp: update_where_def)

lemma filter_update_same:
  assumes "\<And>r. r \<in> set rows \<Longrightarrow> P r \<Longrightarrow> \<not> Q r \<and> \<not> Q (f r)"
  shows "filter Q (update_where P f rows) = filter Q rows"
  using assms by (induction rows) (auto simp: update_where_def)

lemma map_update_same:
  assumes "\<And>r. g (f r) = g r"
  shows "map g (update_where P f rows) = map g rows"
  using assms by (simp add: update_where_def)

lemma set_update_where:
  "set (update_where P f rows) = (\<lambda>r. if P r then f r else r) ` set rows"
  by (simp add: update_where_def)

lemma bex_update_where:
  "(\<exists>x \<in> set (update_where P f rows). Q x) \<longleftrightarrow> (\<exists>r \<in> set rows. Q (if P r then f r else r))"
  by (induction rows) (simp_all add: update_where_def)

lemma ball_update_where:
  "(\<forall>x \<in> set (update_where P f rows). Q x) \<longleftrightarrow> (\<forall>r \<in> set rows. Q (if P r then f r else r))"
  by (induction rows) (simp_all add: update_where_def)

section \<open>Handlers with effects\<close>

text \<open>
  A handler takes the state and returns the new state with the effects it performed, oldest
  first. \<open>andThen\<close> runs a second handler on the state the first one left.
\<close>

definition andThen :: "'s \<times> 'e list \<Rightarrow> ('s \<Rightarrow> 's \<times> 'e list) \<Rightarrow> 's \<times> 'e list" where
  "andThen r f = (let (s, es) = r; (s', es') = f s in (s', es @ es'))"

definition emit :: "'e \<Rightarrow> 's \<Rightarrow> 's \<times> 'e list" where
  "emit e s = (s, [e])"

definition quiet :: "('s \<Rightarrow> 's) \<Rightarrow> 's \<Rightarrow> 's \<times> 'e list" where
  "quiet f s = (f s, [])"

lemma fst_andThen [simp]: "fst (andThen r f) = fst (f (fst r))"
  by (simp add: andThen_def split: prod.split)

lemma snd_andThen [simp]: "snd (andThen r f) = snd r @ snd (f (fst r))"
  by (simp add: andThen_def split: prod.split)

lemma fst_emit [simp]: "fst (emit e s) = s"
  by (simp add: emit_def)

lemma snd_emit [simp]: "snd (emit e s) = [e]"
  by (simp add: emit_def)

lemma fst_quiet [simp]: "fst (quiet f s) = f s"
  by (simp add: quiet_def)

lemma snd_quiet [simp]: "snd (quiet f s) = []"
  by (simp add: quiet_def)

section \<open>Majorities\<close>

text \<open>Two sets that each hold more than half of a finite set meet.\<close>

lemma majorities_meet:
  assumes "finite U" "A \<subseteq> U" "B \<subseteq> U" "card U < card A + card B"
  shows "A \<inter> B \<noteq> {}"
proof
  assume "A \<inter> B = {}"
  then have "card (A \<union> B) = card A + card B"
    using assms by (intro card_Un_disjoint) (auto intro: finite_subset)
  moreover have "card (A \<union> B) \<le> card U"
    using assms by (intro card_mono) auto
  ultimately show False using assms(4) by linarith
qed

section \<open>Optional lists\<close>

text \<open>\<open>v ?? []\<close>.\<close>

definition opt_list :: "'a list option \<Rightarrow> 'a list" where
  "opt_list v = (case v of None \<Rightarrow> [] | Some xs \<Rightarrow> xs)"

lemma opt_list_Nil_iff: "opt_list v = [] \<longleftrightarrow> v = None \<or> v = Some []"
  by (auto simp: opt_list_def split: option.splits)

section \<open>Loops that may raise\<close>

text \<open>
  A function that may throw returns a sum, the left side being the exception. These are the
  array methods and loops of the source over such functions: the first exception ends the
  loop, and so does the first element that decides the answer.
\<close>

fun some_err :: "('a \<Rightarrow> 'e + bool) \<Rightarrow> 'a list \<Rightarrow> 'e + bool" where
  "some_err f [] = Inr False"
| "some_err f (x # xs) =
     (case f x of Inl e \<Rightarrow> Inl e | Inr b \<Rightarrow> if b then Inr True else some_err f xs)"

fun all_err :: "('a \<Rightarrow> 'e + bool) \<Rightarrow> 'a list \<Rightarrow> 'e + bool" where
  "all_err f [] = Inr True"
| "all_err f (x # xs) =
     (case f x of Inl e \<Rightarrow> Inl e | Inr b \<Rightarrow> if b then all_err f xs else Inr False)"

fun filter_err :: "('a \<Rightarrow> 'e + bool) \<Rightarrow> 'a list \<Rightarrow> 'e + 'a list" where
  "filter_err f [] = Inr []"
| "filter_err f (x # xs) =
     (case f x of
        Inl e \<Rightarrow> Inl e
      | Inr b \<Rightarrow> (case filter_err f xs of Inl e \<Rightarrow> Inl e | Inr ys \<Rightarrow> Inr (if b then x # ys else ys)))"

fun map_err :: "('a \<Rightarrow> 'e + 'b) \<Rightarrow> 'a list \<Rightarrow> 'e + 'b list" where
  "map_err f [] = Inr []"
| "map_err f (x # xs) =
     (case f x of
        Inl e \<Rightarrow> Inl e
      | Inr y \<Rightarrow> (case map_err f xs of Inl e \<Rightarrow> Inl e | Inr ys \<Rightarrow> Inr (y # ys)))"

lemma some_err_total: "\<forall>x \<in> set xs. f x = Inr (g x) \<Longrightarrow> some_err f xs = Inr (\<exists>x \<in> set xs. g x)"
  by (induction xs) auto

lemma all_err_total: "\<forall>x \<in> set xs. f x = Inr (g x) \<Longrightarrow> all_err f xs = Inr (\<forall>x \<in> set xs. g x)"
  by (induction xs) auto

lemma filter_err_total: "\<forall>x \<in> set xs. f x = Inr (g x) \<Longrightarrow> filter_err f xs = Inr (filter g xs)"
  by (induction xs) auto

lemma some_err_False_iff: "some_err f xs = Inr False \<longleftrightarrow> (\<forall>x \<in> set xs. f x = Inr False)"
  by (induction xs) (auto split: sum.splits)

lemma all_err_True_iff: "all_err f xs = Inr True \<longleftrightarrow> (\<forall>x \<in> set xs. f x = Inr True)"
  by (induction xs) (auto split: sum.splits)

lemma map_err_Inr_iff: "map_err f xs = Inr ys \<longleftrightarrow> list_all2 (\<lambda>x y. f x = Inr y) xs ys"
proof (induction xs arbitrary: ys)
  case (Cons x xs)
  show ?case by (auto split: sum.splits simp: list_all2_Cons1 Cons.IH [symmetric])
qed auto

lemma some_err_cong [fundef_cong]:
  "xs = ys \<Longrightarrow> (\<And>x. x \<in> set ys \<Longrightarrow> f x = g x) \<Longrightarrow> some_err f xs = some_err g ys"
  by (induction ys arbitrary: xs) (auto split: sum.splits)

section \<open>Transition systems\<close>

text \<open>The states that a machine reaches from its initial states.\<close>

inductive reach :: "('s \<Rightarrow> bool) \<Rightarrow> ('s \<Rightarrow> 's \<Rightarrow> bool) \<Rightarrow> 's \<Rightarrow> bool"
  for ini :: "'s \<Rightarrow> bool" and stp :: "'s \<Rightarrow> 's \<Rightarrow> bool" where
  reach_init: "ini s \<Longrightarrow> reach ini stp s"
| reach_step: "reach ini stp s \<Longrightarrow> stp s t \<Longrightarrow> reach ini stp t"

text \<open>
  The contract of an inductive invariant: the initial states have it and every step keeps
  it. Each component with a step relation interprets this locale on its own machine.
\<close>

locale inductive_invariant =
  fixes ini :: "'s \<Rightarrow> bool" and stp :: "'s \<Rightarrow> 's \<Rightarrow> bool" and inv :: "'s \<Rightarrow> bool"
  assumes init_inv: "ini s \<Longrightarrow> inv s"
    and step_inv: "inv s \<Longrightarrow> stp s t \<Longrightarrow> inv t"
begin

lemma reach_inv: "reach ini stp s \<Longrightarrow> inv s"
  by (induction rule: reach.induct) (blast intro: init_inv step_inv)+

lemma run_inv: "stp\<^sup>*\<^sup>* s t \<Longrightarrow> inv s \<Longrightarrow> inv t"
  by (induction rule: rtranclp_induct) (blast intro: step_inv)+

end

text \<open>
  A forward simulation: under an invariant of the detailed machine, each of its steps is a
  step of the abstract machine (or no step) on the abstraction of its state. Whatever holds
  of the reachable abstract states then holds of the reachable detailed ones.
\<close>

locale simulation = inductive_invariant ini stp inv
  for ini :: "'s \<Rightarrow> bool" and stp :: "'s \<Rightarrow> 's \<Rightarrow> bool" and inv :: "'s \<Rightarrow> bool" +
  fixes aini :: "'a \<Rightarrow> bool" and astp :: "'a \<Rightarrow> 'a \<Rightarrow> bool" and abs :: "'s \<Rightarrow> 'a"
  assumes init_sim: "ini s \<Longrightarrow> aini (abs s)"
    and step_sim: "inv s \<Longrightarrow> stp s t \<Longrightarrow> astp (abs s) (abs t) \<or> abs t = abs s"
begin

lemma reach_sim: "reach ini stp s \<Longrightarrow> reach aini astp (abs s)"
proof (induction rule: reach.induct)
  case (reach_init s)
  then show ?case by (blast intro: reach.reach_init init_sim)
next
  case (reach_step s t)
  from step_sim [OF reach_inv [OF reach_step.hyps(1)] reach_step.hyps(2)]
  have "astp (abs s) (abs t) \<or> abs t = abs s" .
  with reach_step.IH show ?case by (metis reach.reach_step)
qed

end

end
