(* ===== verification/Raft.thy ===== *)
theory Raft
  imports Kici_Prelude
begin

text \<open>
  Leader election of one coordinator: the class \<open>RaftNode\<close> of
  \<open>packages/orchestrator/src/cluster/raft.ts\<close> and its store \<open>RaftStateStore\<close> of
  \<open>cluster/raft-state.ts\<close>.

  The fields of the class are the record \<open>raft_node\<close>, the constructor's constants the
  record \<open>raft_config\<close>. What a handler reads from outside (the clock, the number of
  connected coordinator peers, \<open>Math.random()\<close>) is the record \<open>raft_env\<close>; what it does
  outside (broadcasts, saves, the two leadership callbacks) is the list of effects it
  returns, oldest first. A timer is the timeout it was armed with, or None when cleared.
  Log output is not modelled.
\<close>

section \<open>The persisted state\<close>

record raft_persistent =
  rp_currentTerm :: nat
  rp_votedFor :: "instance_id option"
  rp_leaderId :: "instance_id option"

text \<open>The table \<open>raft_state\<close>: one row per cluster id, shared by every coordinator.\<close>

type_synonym raft_table = "string \<rightharpoonup> raft_persistent"

definition store_load :: "string \<Rightarrow> raft_table \<Rightarrow> raft_persistent" where
  "store_load cid t = (case t cid of
     None \<Rightarrow> \<lparr>rp_currentTerm = 0, rp_votedFor = None, rp_leaderId = None\<rparr>
   | Some row \<Rightarrow> row)"

definition store_save :: "string \<Rightarrow> raft_persistent \<Rightarrow> raft_table \<Rightarrow> raft_table" where
  "store_save cid st t = t(cid \<mapsto> st)"

definition saveUnlessNewerTerm :: "string \<Rightarrow> raft_persistent \<Rightarrow> raft_table \<Rightarrow> raft_table" where
  "saveUnlessNewerTerm cid st t = (case t cid of
     None \<Rightarrow> t(cid \<mapsto> st)
   | Some row \<Rightarrow> if rp_currentTerm row \<le> rp_currentTerm st then t(cid \<mapsto> st) else t)"

definition updateLeader :: "string \<Rightarrow> instance_id \<Rightarrow> nat \<Rightarrow> raft_table \<Rightarrow> raft_table" where
  "updateLeader cid l term t = (case t cid of
     None \<Rightarrow> t(cid \<mapsto> \<lparr>rp_currentTerm = term, rp_votedFor = None, rp_leaderId = Some l\<rparr>)
   | Some row \<Rightarrow> t(cid \<mapsto> row\<lparr>rp_currentTerm := term, rp_leaderId := Some l\<rparr>))"

section \<open>Messages, node state, environment\<close>

datatype raft_role = Follower | Candidate | Leader

datatype raft_msg =
    VoteRequest (mterm: nat) (candidateId: instance_id) (lastLogIndex: nat) (lastLogTerm: nat)
  | VoteResponse (mterm: nat) (voteGranted: bool) (voterId: instance_id)
  | AppendEntries (mterm: nat) (mleaderId: instance_id)

datatype raft_effect =
    Broadcast raft_msg
  | Save raft_persistent
  | SaveUnlessNewerTerm raft_persistent
  | OnBecomeLeader
  | OnLoseLeadership

record raft_config =
  instanceId :: instance_id
  electionTimeoutMinMs :: millis
  electionTimeoutMaxMs :: millis
  leaderHeartbeatMs :: millis
  gracePeriodMs :: millis

record raft_node =
  startedAt :: millis
  currentTerm :: nat
  votedFor :: "instance_id option"
  leaderId :: "instance_id option"
  role :: raft_role
  stopped :: bool
  electionTimer :: "real option"
  leaderHeartbeatTimer :: "millis option"
  votesReceived :: "instance_id list"
  consecutiveUnansweredElections :: nat

text \<open>\<open>peers\<close> is \<open>peerRegistry.getConnectedCoordinatorPeerCount()\<close>; \<open>rnd\<close> is \<open>Math.random()\<close>.\<close>

record raft_env =
  now :: millis
  peers :: nat
  rnd :: real

type_synonym raft_step = "raft_node \<times> raft_effect list"

definition raft_default_config :: "instance_id \<Rightarrow> raft_config" where
  "raft_default_config i = \<lparr>instanceId = i, electionTimeoutMinMs = 5000,
     electionTimeoutMaxMs = 10000, leaderHeartbeatMs = 2000, gracePeriodMs = 0\<rparr>"

definition raft_init :: raft_node where
  "raft_init = \<lparr>startedAt = 0, currentTerm = 0, votedFor = None, leaderId = None,
     role = Follower, stopped = False, electionTimer = None, leaderHeartbeatTimer = None,
     votesReceived = [], consecutiveUnansweredElections = 0\<rparr>"

definition persistent_of :: "raft_node \<Rightarrow> raft_persistent" where
  "persistent_of s = \<lparr>rp_currentTerm = currentTerm s, rp_votedFor = votedFor s,
     rp_leaderId = leaderId s\<rparr>"

section \<open>Timers\<close>

definition clearElectionTimer :: "raft_node \<Rightarrow> raft_node" where
  "clearElectionTimer s = s\<lparr>electionTimer := None\<rparr>"

definition resetElectionTimer :: "raft_config \<Rightarrow> raft_env \<Rightarrow> raft_node \<Rightarrow> raft_node" where
  "resetElectionTimer c e s =
     (let s = clearElectionTimer s in
      if stopped s then s
      else s\<lparr>electionTimer := Some (real_of_int (electionTimeoutMinMs c)
               + rnd e * real_of_int (electionTimeoutMaxMs c - electionTimeoutMinMs c))\<rparr>)"

definition clearLeaderHeartbeat :: "raft_node \<Rightarrow> raft_node" where
  "clearLeaderHeartbeat s = s\<lparr>leaderHeartbeatTimer := None\<rparr>"

section \<open>Becoming leader, stepping down\<close>

definition sendHeartbeat :: "raft_config \<Rightarrow> raft_node \<Rightarrow> raft_step" where
  "sendHeartbeat c s = emit (Broadcast (AppendEntries (currentTerm s) (instanceId c))) s"

definition startLeaderHeartbeat :: "raft_config \<Rightarrow> raft_node \<Rightarrow> raft_step" where
  "startLeaderHeartbeat c s =
     andThen (sendHeartbeat c (clearLeaderHeartbeat s))
       (quiet (\<lambda>s. s\<lparr>leaderHeartbeatTimer := Some (leaderHeartbeatMs c)\<rparr>))"

definition becomeLeader :: "raft_config \<Rightarrow> raft_node \<Rightarrow> raft_step" where
  "becomeLeader c s =
     (if stopped s then (s, [])
      else
        let s = clearElectionTimer (s\<lparr>role := Leader, leaderId := Some (instanceId c),
                  consecutiveUnansweredElections := 0\<rparr>)
        in andThen (andThen (startLeaderHeartbeat c s) (\<lambda>s. emit (Save (persistent_of s)) s))
             (emit OnBecomeLeader))"

text \<open>The second argument is the optional \<open>newLeaderId\<close>.\<close>

definition stepDown ::
  "raft_config \<Rightarrow> raft_env \<Rightarrow> nat \<Rightarrow> instance_id option \<Rightarrow> raft_node \<Rightarrow> raft_step" where
  "stepDown c e newTerm newLeaderId s =
     (if stopped s then (s, [])
      else
        let wasLeader = (role s = Leader);
            s = s\<lparr>currentTerm := newTerm, votedFor := None, role := Follower,
                  consecutiveUnansweredElections := 0\<rparr>;
            s = (case newLeaderId of None \<Rightarrow> s | Some l \<Rightarrow> s\<lparr>leaderId := Some l\<rparr>);
            s = resetElectionTimer c e (clearLeaderHeartbeat s)
        in (s, Save (persistent_of s) # (if wasLeader then [OnLoseLeadership] else [])))"

definition checkMajority :: "raft_config \<Rightarrow> raft_env \<Rightarrow> raft_node \<Rightarrow> raft_step" where
  "checkMajority c e s =
     (if role s \<noteq> Candidate then (s, [])
      else
        let clusterSize = peers e + 1;
            majority = clusterSize div 2 + 1
        in if majority \<le> length (votesReceived s) then becomeLeader c s else (s, []))"

section \<open>Elections\<close>

definition graceActive :: "raft_config \<Rightarrow> raft_env \<Rightarrow> raft_node \<Rightarrow> bool" where
  "graceActive c e s \<longleftrightarrow> 0 < gracePeriodMs c \<and> now e - startedAt s < gracePeriodMs c"

definition startElection :: "raft_config \<Rightarrow> raft_env \<Rightarrow> raft_node \<Rightarrow> raft_step" where
  "startElection c e s =
     (if stopped s then (s, [])
      else
        let s = s\<lparr>currentTerm := currentTerm s + 1, votedFor := Some (instanceId c),
                  role := Candidate, votesReceived := [instanceId c]\<rparr>
        in andThen (emit (Save (persistent_of s)) s)
          (\<lambda>s.
            if peers e = 0 then
              (if graceActive c e s then quiet (resetElectionTimer c e) s else becomeLeader c s)
            else if 2 \<le> consecutiveUnansweredElections s then
              becomeLeader c (s\<lparr>consecutiveUnansweredElections := 0\<rparr>)
            else
              let s = s\<lparr>consecutiveUnansweredElections := consecutiveUnansweredElections s + 1\<rparr>
              in andThen
                   (andThen (emit (Broadcast (VoteRequest (currentTerm s) (instanceId c) 0 0)) s)
                     (checkMajority c e))
                   (quiet (resetElectionTimer c e))))"

section \<open>Lifecycle and peer events\<close>

definition raft_start :: "raft_config \<Rightarrow> raft_env \<Rightarrow> raft_persistent \<Rightarrow> raft_node \<Rightarrow> raft_node" where
  "raft_start c e st s =
     resetElectionTimer c e
       (s\<lparr>currentTerm := rp_currentTerm st, votedFor := rp_votedFor st,
          leaderId := rp_leaderId st, role := Follower, stopped := False, startedAt := now e\<rparr>)"

definition raft_stop :: "raft_node \<Rightarrow> raft_step" where
  "raft_stop s =
     (if stopped s then (s, [])
      else
        let wasLeader = (role s = Leader);
            s = clearLeaderHeartbeat (clearElectionTimer (s\<lparr>stopped := True\<rparr>));
            s = s\<lparr>role := Follower\<rparr>;
            s = (if wasLeader then s\<lparr>leaderId := None\<rparr> else s)
        in (s, (if wasLeader then [OnLoseLeadership] else []) @ [SaveUnlessNewerTerm (persistent_of s)]))"

definition isLeader :: "raft_node \<Rightarrow> bool" where
  "isLeader s \<longleftrightarrow> role s = Leader"

definition handlePeerLeaving ::
  "raft_config \<Rightarrow> raft_env \<Rightarrow> instance_id \<Rightarrow> raft_node \<Rightarrow> raft_step" where
  "handlePeerLeaving c e p s =
     (if stopped s then (s, [])
      else if role s = Leader then (s, [])
      else if leaderId s = Some p then
        startElection c e
          (clearElectionTimer (s\<lparr>leaderId := None, consecutiveUnansweredElections := 0\<rparr>))
      else (s, []))"

definition onPeerDisconnected :: "raft_config \<Rightarrow> raft_env \<Rightarrow> raft_node \<Rightarrow> raft_node" where
  "onPeerDisconnected c e s =
     (if stopped s then s
      else if role s \<noteq> Leader \<and> peers e = 0 then
        (if graceActive c e s then resetElectionTimer c e s
         else (clearElectionTimer s)\<lparr>electionTimer := Some 500\<rparr>)
      else s)"

section \<open>Message handlers\<close>

definition handleVoteRequest ::
  "raft_config \<Rightarrow> raft_env \<Rightarrow> nat \<Rightarrow> instance_id \<Rightarrow> raft_node \<Rightarrow> raft_step \<times> raft_msg" where
  "handleVoteRequest c e term cand s =
     (if stopped s then ((s, []), VoteResponse (currentTerm s) False (instanceId c))
      else
        let r = (if currentTerm s < term then stepDown c e term None s else (s, []));
            s = fst r;
            granted = (currentTerm s \<le> term \<and> (votedFor s = None \<or> votedFor s = Some cand));
            r = (if granted
                 then andThen r (\<lambda>s.
                        let s = s\<lparr>votedFor := Some cand\<rparr>
                        in andThen (emit (Save (persistent_of s)) s) (quiet (resetElectionTimer c e)))
                 else r)
        in (r, VoteResponse (currentTerm (fst r)) granted (instanceId c)))"

definition handleVoteResponse ::
  "raft_config \<Rightarrow> raft_env \<Rightarrow> nat \<Rightarrow> bool \<Rightarrow> instance_id \<Rightarrow> raft_node \<Rightarrow> raft_step" where
  "handleVoteResponse c e term granted voter s =
     (if stopped s then (s, [])
      else if currentTerm s < term then stepDown c e term None s
      else if role s \<noteq> Candidate \<or> term \<noteq> currentTerm s then (s, [])
      else
        let s = s\<lparr>consecutiveUnansweredElections := 0\<rparr>
        in if granted then checkMajority c e (s\<lparr>votesReceived := js_add voter (votesReceived s)\<rparr>)
           else (s, []))"

definition handleAppendEntries ::
  "raft_config \<Rightarrow> raft_env \<Rightarrow> nat \<Rightarrow> instance_id \<Rightarrow> raft_node \<Rightarrow> raft_step" where
  "handleAppendEntries c e term l s =
     (if stopped s then (s, [])
      else
        let s = s\<lparr>consecutiveUnansweredElections := 0\<rparr>
        in if currentTerm s \<le> term then
             (if currentTerm s < term \<or> role s \<noteq> Follower then stepDown c e term (Some l) s
              else quiet (resetElectionTimer c e) (s\<lparr>leaderId := Some l\<rparr>))
           else (s, []))"

end
