(* ===== verification/RaftElection.thy ===== *)
theory RaftElection
  imports Raft
begin

text \<open>
  The election as an abstract protocol over a fixed set of members: what a member does to
  its term, its vote, its role and the votes it counted, and the ballots the protocol has
  ever seen. Nothing here mentions timers, stores or callbacks. Election safety is proved at
  this level; \<open>RaftCluster\<close> shows that the handlers of \<open>Raft\<close> refine it.

  The protocol allows one move that textbook Raft does not have: a candidate or leader that
  hears a leader of its own term forgets its vote of that term (\<open>stepDown\<close> clears
  \<open>votedFor\<close> without raising the term). The proof therefore cannot rest on one vote per
  member and term; it shows that a member whose vote helped to elect a leader never
  forgets that vote.
\<close>

record view =
  v_term :: nat
  v_vote :: "instance_id option"
  v_role :: raft_role
  v_votes :: "instance_id set"

type_synonym packet = "instance_id \<times> raft_msg"
type_synonym ballot = "instance_id \<times> nat \<times> instance_id"

definition majority :: "instance_id set \<Rightarrow> nat" where
  "majority U = card U div 2 + 1"

definition denials :: "packet set" where
  "denials = {(j, VoteResponse t False v) |j t v. True}"

definition beats :: "instance_id \<Rightarrow> nat \<Rightarrow> packet set" where
  "beats i t = {(j, AppendEntries t i) |j. j \<noteq> i}"

definition requests :: "instance_id \<Rightarrow> nat \<Rightarrow> packet set" where
  "requests i t = {(j, VoteRequest t i 0 0) |j. j \<noteq> i}"

text \<open>One move of member \<open>i\<close>: the messages addressed to it, its view before and after, what it sends.\<close>

inductive move ::
  "instance_id set \<Rightarrow> instance_id \<Rightarrow> raft_msg set \<Rightarrow> view \<Rightarrow> view \<Rightarrow> packet set \<Rightarrow> bool"
  for U :: "instance_id set" and i :: instance_id and inbox :: "raft_msg set" where
  keep: "v_term w' = v_term w \<Longrightarrow> v_vote w' = v_vote w \<Longrightarrow> v_votes w' = v_votes w \<Longrightarrow>
    v_role w' = v_role w \<or> v_role w' = Follower \<Longrightarrow>
    sent \<subseteq> denials \<union> (if v_role w = Leader then beats i (v_term w) else {}) \<Longrightarrow>
    move U i inbox w w' sent"
| elect: "v_term w' = Suc (v_term w) \<Longrightarrow> v_vote w' = Some i \<Longrightarrow> v_votes w' = {i} \<Longrightarrow>
    v_role w' = Candidate \<or> (v_role w' = Leader \<and> majority U \<le> 1) \<Longrightarrow>
    sent \<subseteq> requests i (v_term w') \<union> (if v_role w' = Leader then beats i (v_term w') else {}) \<Longrightarrow>
    move U i inbox w w' sent"
| newer: "v_term w < v_term w' \<Longrightarrow> v_vote w' = None \<Longrightarrow> v_role w' = Follower \<Longrightarrow>
    sent \<subseteq> denials \<Longrightarrow> move U i inbox w w' sent"
| forget: "v_term w' = v_term w \<Longrightarrow> v_role w \<noteq> Follower \<Longrightarrow> AppendEntries (v_term w) l \<in> inbox \<Longrightarrow>
    v_vote w' = None \<Longrightarrow> v_role w' = Follower \<Longrightarrow> sent \<subseteq> denials \<Longrightarrow> move U i inbox w w' sent"
| grant: "v_term w < v_term w' \<and> v_role w' = Follower \<or>
      v_term w' = v_term w \<and> v_role w' = v_role w \<and> (v_vote w = None \<or> v_vote w = Some c) \<Longrightarrow>
    v_vote w' = Some c \<Longrightarrow> v_votes w' = v_votes w \<Longrightarrow>
    sent \<subseteq> {(c, VoteResponse (v_term w') True i)} \<Longrightarrow>
    move U i inbox w w' sent"
| tally: "v_role w = Candidate \<Longrightarrow> VoteResponse (v_term w) True v \<in> inbox \<Longrightarrow>
    v_term w' = v_term w \<Longrightarrow> v_vote w' = v_vote w \<Longrightarrow> v_votes w' = insert v (v_votes w) \<Longrightarrow>
    v_role w' = Candidate \<or> (v_role w' = Leader \<and> majority U \<le> card (v_votes w')) \<Longrightarrow>
    sent \<subseteq> (if v_role w' = Leader then beats i (v_term w') else {}) \<Longrightarrow>
    move U i inbox w w' sent"

record election =
  views :: "instance_id \<Rightarrow> view"
  wire :: "packet set"
  ballots :: "ballot set"

text \<open>
  The wire keeps every message, so a message may be delivered late, twice or never. The
  ballots record who ever voted for whom in which term; no member reads them.
\<close>

definition new_ballots :: "instance_id \<Rightarrow> view \<Rightarrow> ballot set" where
  "new_ballots i w = {(i, v_term w, c) |c. v_vote w = Some c}"

inductive election_step :: "instance_id set \<Rightarrow> election \<Rightarrow> election \<Rightarrow> bool"
  for U :: "instance_id set" where
  member: "i \<in> U \<Longrightarrow> move U i {m. (i, m) \<in> wire el} (views el i) w' sent \<Longrightarrow>
    election_step U el
      \<lparr>views = (views el)(i := w'), wire = wire el \<union> sent,
       ballots = ballots el \<union> new_ballots i w'\<rparr>"

definition election_init :: "instance_id set \<Rightarrow> election \<Rightarrow> bool" where
  "election_init U el \<longleftrightarrow>
     finite U \<and> (\<forall>i. v_vote (views el i) = None \<and> v_role (views el i) = Follower) \<and> wire el = {} \<and> ballots el = {}"

section \<open>The invariant\<close>

definition won :: "instance_id set \<Rightarrow> ballot set \<Rightarrow> instance_id \<Rightarrow> nat \<Rightarrow> bool" where
  "won U B l t \<longleftrightarrow> majority U \<le> card {v \<in> U. (v, t, l) \<in> B}"

text \<open>A member that forgot its own vote in term \<open>t\<close>: some other member had already won the term.\<close>

definition switched :: "instance_id set \<Rightarrow> ballot set \<Rightarrow> instance_id \<Rightarrow> nat \<Rightarrow> bool" where
  "switched U B v t \<longleftrightarrow> (v, t, v) \<in> B \<and> (\<exists>l. l \<noteq> v \<and> won U B l t)"

text \<open>The win of \<open>l\<close> in term \<open>t\<close> rests on a majority that voted for nobody else in that term.\<close>

definition settled :: "instance_id set \<Rightarrow> ballot set \<Rightarrow> instance_id \<Rightarrow> nat \<Rightarrow> bool" where
  "settled U B l t \<longleftrightarrow>
     majority U \<le> card {v \<in> U. (v, t, l) \<in> B \<and> (\<forall>c. (v, t, c) \<in> B \<longrightarrow> c = l)}"

definition ballots_inv :: "instance_id set \<Rightarrow> election \<Rightarrow> bool" where
  "ballots_inv U el \<longleftrightarrow>
     (\<forall>v t c. (v, t, c) \<in> ballots el \<longrightarrow> v \<in> U \<and> t \<le> v_term (views el v)) \<and>
     (\<forall>v c. v \<in> U \<longrightarrow> v_vote (views el v) = Some c \<longrightarrow> (v, v_term (views el v), c) \<in> ballots el) \<and>
     (\<forall>v c. (v, v_term (views el v), c) \<in> ballots el \<longrightarrow>
        v_vote (views el v) = Some c \<or> switched U (ballots el) v (v_term (views el v))) \<and>
     (\<forall>v t c c'. (v, t, c) \<in> ballots el \<longrightarrow> (v, t, c') \<in> ballots el \<longrightarrow> c \<noteq> c' \<longrightarrow>
        switched U (ballots el) v t)"

definition wire_inv :: "instance_id set \<Rightarrow> election \<Rightarrow> bool" where
  "wire_inv U el \<longleftrightarrow>
     (\<forall>j t v. (j, VoteResponse t True v) \<in> wire el \<longrightarrow> (v, t, j) \<in> ballots el) \<and>
     (\<forall>j t l. (j, AppendEntries t l) \<in> wire el \<longrightarrow> l \<noteq> j \<and> won U (ballots el) l t)"

definition role_inv :: "instance_id set \<Rightarrow> election \<Rightarrow> bool" where
  "role_inv U el \<longleftrightarrow>
     (\<forall>i \<in> U. v_role (views el i) \<noteq> Follower \<longrightarrow>
        v_vote (views el i) = Some i \<and>
        (\<forall>v \<in> v_votes (views el i). (v, v_term (views el i), i) \<in> ballots el)) \<and>
     (\<forall>i \<in> U. v_role (views el i) = Leader \<longrightarrow> majority U \<le> card (v_votes (views el i)))"

definition settled_inv :: "instance_id set \<Rightarrow> election \<Rightarrow> bool" where
  "settled_inv U el \<longleftrightarrow> (\<forall>l t. won U (ballots el) l t \<longrightarrow> settled U (ballots el) l t)"

definition election_inv :: "instance_id set \<Rightarrow> election \<Rightarrow> bool" where
  "election_inv U el \<longleftrightarrow> ballots_inv U el \<and> wire_inv U el \<and> role_inv U el \<and> settled_inv U el"

lemma ballots_invD:
  assumes "ballots_inv U el"
  shows ballots_inv_term: "(v, t, c) \<in> ballots el \<Longrightarrow> v \<in> U \<and> t \<le> v_term (views el v)"
    and ballots_inv_vote: "v \<in> U \<Longrightarrow> v_vote (views el v) = Some c \<Longrightarrow>
      (v, v_term (views el v), c) \<in> ballots el"
    and ballots_inv_kept: "(v, v_term (views el v), c) \<in> ballots el \<Longrightarrow>
      v_vote (views el v) = Some c \<or> switched U (ballots el) v (v_term (views el v))"
    and ballots_inv_twice: "(v, t, c) \<in> ballots el \<Longrightarrow> (v, t, c') \<in> ballots el \<Longrightarrow> c \<noteq> c' \<Longrightarrow>
      switched U (ballots el) v t"
  using assms unfolding ballots_inv_def by blast+

section \<open>Counting\<close>

lemma won_mono: "finite U \<Longrightarrow> B \<subseteq> B' \<Longrightarrow> won U B l t \<Longrightarrow> won U B' l t"
  unfolding won_def by (erule order_trans, rule card_mono) auto

lemma switched_mono: "finite U \<Longrightarrow> B \<subseteq> B' \<Longrightarrow> switched U B v t \<Longrightarrow> switched U B' v t"
  unfolding switched_def using won_mono by blast

lemma two_majorities: "card U < majority U + majority U"
  by (simp add: majority_def)

lemma settled_unique:
  assumes "finite U" "settled U B l t" "won U B l' t"
  shows "l' = l"
proof -
  let ?M = "{v \<in> U. (v, t, l) \<in> B \<and> (\<forall>c. (v, t, c) \<in> B \<longrightarrow> c = l)}"
  let ?N = "{v \<in> U. (v, t, l') \<in> B}"
  have "card U < card ?M + card ?N"
    using assms(2,3) two_majorities [of U] by (simp add: settled_def won_def)
  then have "?M \<inter> ?N \<noteq> {}"
    using assms(1) by (intro majorities_meet [of U]) auto
  then show ?thesis by blast
qed

section \<open>What a move can do\<close>

lemma move_term: "move U i inbox w w' sent \<Longrightarrow> v_term w \<le> v_term w'"
  by (erule move.cases) auto

lemma move_casts:
  "move U i inbox w w' sent \<Longrightarrow> v_vote w' = Some c \<Longrightarrow>
   v_term w < v_term w' \<or>
   v_term w' = v_term w \<and> (v_vote w = None \<or> v_vote w = Some c)"
  by (erule move.cases) auto

lemma move_keeps_vote:
  "move U i inbox w w' sent \<Longrightarrow> v_term w' = v_term w \<Longrightarrow> v_vote w = Some c \<Longrightarrow>
   v_vote w' = Some c \<or>
   v_vote w' = None \<and> v_role w \<noteq> Follower \<and> (\<exists>l. AppendEntries (v_term w) l \<in> inbox)"
  by (erule move.cases) auto

lemma move_response:
  "move U i inbox w w' sent \<Longrightarrow> (j, VoteResponse t True v) \<in> sent \<Longrightarrow>
   v = i \<and> t = v_term w' \<and> v_vote w' = Some j"
  by (erule move.cases) (auto simp: denials_def beats_def requests_def split: if_splits)

lemma move_request:
  "move U i inbox w w' sent \<Longrightarrow> (j, VoteRequest t k a b) \<in> sent \<Longrightarrow> k = i \<and> j \<noteq> i"
  by (erule move.cases) (auto simp: denials_def beats_def requests_def split: if_splits)

lemma move_beat:
  "move U i inbox w w' sent \<Longrightarrow> (j, AppendEntries t l) \<in> sent \<Longrightarrow>
   l = i \<and> j \<noteq> i \<and> t = v_term w' \<and>
   (v_role w' = Leader \<or> v_role w = Leader \<and> v_term w' = v_term w)"
  by (erule move.cases) (auto simp: denials_def beats_def requests_def split: if_splits)

lemma move_role:
  "move U i inbox w w' sent \<Longrightarrow> v_role w' \<noteq> Follower \<Longrightarrow>
   v_votes w' = {i} \<and> v_vote w' = Some i \<and> v_term w' = Suc (v_term w) \<and>
     (v_role w' = Leader \<longrightarrow> majority U \<le> 1) \<or>
   v_term w' = v_term w \<and> v_role w \<noteq> Follower \<and> (v_vote w = Some i \<longrightarrow> v_vote w' = Some i) \<and>
     (\<forall>v \<in> v_votes w'. v \<in> v_votes w \<or> VoteResponse (v_term w) True v \<in> inbox) \<and>
     (v_role w' = Leader \<longrightarrow>
        majority U \<le> card (v_votes w') \<or> v_role w = Leader \<and> v_votes w' = v_votes w)"
  by (erule move.cases) auto

section \<open>Every step keeps the invariant\<close>

definition moved :: "instance_id \<Rightarrow> view \<Rightarrow> packet set \<Rightarrow> election \<Rightarrow> election" where
  "moved i w' sent el =
     \<lparr>views = (views el)(i := w'), wire = wire el \<union> sent,
      ballots = ballots el \<union> new_ballots i w'\<rparr>"

lemma moved_simps [simp]:
  "views (moved i w' sent el) = (views el)(i := w')"
  "wire (moved i w' sent el) = wire el \<union> sent"
  "ballots (moved i w' sent el) = ballots el \<union> new_ballots i w'"
  by (simp_all add: moved_def)

lemma in_new_ballots: "(v, t, c) \<in> new_ballots i w \<longleftrightarrow> v = i \<and> t = v_term w \<and> v_vote w = Some c"
  by (auto simp: new_ballots_def)

text \<open>
  A member that already has a ballot in the term it stays in either repeats it or has
  switched; and it can only have switched after somebody else won the term.
\<close>

lemma move_ballots:
  assumes fin: "finite U" and inv: "election_inv U el" and i: "i \<in> U"
    and mv: "move U i {m. (i, m) \<in> wire el} (views el i) w' sent"
    and old: "(i, v_term w', c) \<in> ballots el"
  shows "v_vote w' = Some c \<or> switched U (ballots el) i (v_term w')"
proof -
  let ?w = "views el i"
  have "v_term w' \<le> v_term ?w"
    using inv old by (auto simp: election_inv_def ballots_inv_def)
  with move_term [OF mv] have same: "v_term w' = v_term ?w" by simp
  have "v_vote ?w = Some c \<or> switched U (ballots el) i (v_term w')"
    using inv old same by (auto simp: election_inv_def ballots_inv_def)
  then show ?thesis
  proof
    assume "v_vote ?w = Some c"
    with move_keeps_vote [OF mv same] consider "v_vote w' = Some c"
      | l where "v_role ?w \<noteq> Follower" "(i, AppendEntries (v_term ?w) l) \<in> wire el" by auto
    then show ?thesis
    proof cases
      case 2
      then have "v_vote ?w = Some i" and "l \<noteq> i" and "won U (ballots el) l (v_term ?w)"
        using inv i by (auto simp: election_inv_def role_inv_def wire_inv_def)
      moreover from this(1) have "(i, v_term ?w, i) \<in> ballots el"
        using inv i by (auto simp: election_inv_def ballots_inv_def)
      ultimately show ?thesis using same by (auto simp: switched_def)
    qed simp
  qed simp
qed

lemma moved_ballots_inv:
  assumes fin: "finite U" and inv: "election_inv U el" and i: "i \<in> U"
    and mv: "move U i {m. (i, m) \<in> wire el} (views el i) w' sent"
  shows "ballots_inv U (moved i w' sent el)"
proof -
  let ?B = "ballots el" and ?B' = "ballots el \<union> new_ballots i w'"
  have bi: "ballots_inv U el" using inv by (simp add: election_inv_def)
  note mono = switched_mono [OF fin, of ?B ?B']
  note old = move_ballots [OF fin inv i mv]
  have terms: "v \<in> U \<and> t \<le> v_term (((views el)(i := w')) v)" if "(v, t, c) \<in> ?B'" for v t c
    using that bi i move_term [OF mv]
    by (fastforce simp: in_new_ballots ballots_inv_def)
  have votes: "(v, v_term (((views el)(i := w')) v), c) \<in> ?B'"
    if "v \<in> U" "v_vote (((views el)(i := w')) v) = Some c" for v c
    using that bi by (auto simp: in_new_ballots ballots_inv_def)
  have kept: "v_vote (((views el)(i := w')) v) = Some c \<or>
      switched U ?B' v (v_term (((views el)(i := w')) v))"
    if "(v, v_term (((views el)(i := w')) v), c) \<in> ?B'" for v c
  proof (cases "v = i \<and> (i, v_term w', c) \<notin> ballots el")
    case False
    then show ?thesis
      using that ballots_inv_kept [OF bi, of v c] old [of c] mono
      by (cases "v = i") (auto simp: in_new_ballots)
  qed (use that in \<open>auto simp: in_new_ballots\<close>)
  have twice: "switched U ?B' v t" if "(v, t, c) \<in> ?B'" "(v, t, c') \<in> ?B'" "c \<noteq> c'" for v t c c'
  proof (cases "(v, t, c) \<in> ?B \<and> (v, t, c') \<in> ?B")
    case True
    with that(3) bi mono show ?thesis by (auto simp: ballots_inv_def)
  next
    case False
    with that have "v = i \<and> t = v_term w' \<and>
        (v_vote w' = Some c \<and> (v, t, c') \<in> ?B \<or> v_vote w' = Some c' \<and> (v, t, c) \<in> ?B)"
      by (auto simp: in_new_ballots)
    with old [of c] old [of c'] that(3) mono show ?thesis by auto
  qed
  show ?thesis
    unfolding ballots_inv_def moved_simps using terms votes kept twice by blast
qed

lemma moved_role_inv:
  assumes inv: "election_inv U el" and i: "i \<in> U"
    and mv: "move U i {m. (i, m) \<in> wire el} (views el i) w' sent"
  shows "role_inv U (moved i w' sent el)"
proof -
  have ri: "role_inv U el" and wi: "wire_inv U el"
    using inv by (simp_all add: election_inv_def)
  have self: "v_vote w' = Some i \<and> (\<forall>v \<in> v_votes w'. (v, v_term w', i) \<in> ballots el \<union> new_ballots i w')"
    if "v_role w' \<noteq> Follower"
    using move_role [OF mv that] ri wi i
    by (auto simp: role_inv_def wire_inv_def in_new_ballots)
  have leader: "majority U \<le> card (v_votes w')" if "v_role w' = Leader"
    using move_role [OF mv] that ri i by (auto simp: role_inv_def)
  show ?thesis
    using self leader ri by (auto simp: role_inv_def)
qed

text \<open>A leader has won its term: the votes it counted are ballots cast for it.\<close>

lemma leader_won:
  assumes "finite U" "ballots_inv U el" "role_inv U el" "i \<in> U" "v_role (views el i) = Leader"
  shows "won U (ballots el) i (v_term (views el i))"
proof -
  have "v_votes (views el i) \<subseteq> {v \<in> U. (v, v_term (views el i), i) \<in> ballots el}"
    using assms ballots_inv_term [OF assms(2)] by (fastforce simp: role_inv_def)
  then have "card (v_votes (views el i)) \<le> card {v \<in> U. (v, v_term (views el i), i) \<in> ballots el}"
    using assms(1) by (intro card_mono) auto
  moreover have "majority U \<le> card (v_votes (views el i))"
    using assms by (auto simp: role_inv_def)
  ultimately show ?thesis by (simp add: won_def)
qed

lemma moved_wire_inv:
  assumes fin: "finite U" and inv: "election_inv U el" and i: "i \<in> U"
    and mv: "move U i {m. (i, m) \<in> wire el} (views el i) w' sent"
  shows "wire_inv U (moved i w' sent el)"
proof -
  let ?B' = "ballots el \<union> new_ballots i w'"
  have wi: "wire_inv U el" using inv by (simp add: election_inv_def)
  have won': "won U ?B' i (v_term w')"
    if "v_role w' = Leader \<or> v_role (views el i) = Leader \<and> v_term w' = v_term (views el i)"
  proof (cases "v_role w' = Leader")
    case True
    then show ?thesis
      using leader_won [OF fin moved_ballots_inv [OF fin inv i mv] moved_role_inv [OF inv i mv] i] by simp
  next
    case False
    with that leader_won [OF fin _ _ i, of el] inv have "won U (ballots el) i (v_term w')"
      by (simp add: election_inv_def)
    then show ?thesis using won_mono [OF fin, of "ballots el" ?B'] by simp
  qed
  have resp: "(v, t, j) \<in> ?B'" if "(j, VoteResponse t True v) \<in> wire el \<union> sent" for j t v
    using that wi move_response [OF mv] by (auto simp: wire_inv_def in_new_ballots)
  have beat: "l \<noteq> j \<and> won U ?B' l t" if "(j, AppendEntries t l) \<in> wire el \<union> sent" for j t l
  proof (cases "(j, AppendEntries t l) \<in> wire el")
    case True
    with wi have "l \<noteq> j \<and> won U (ballots el) l t" by (auto simp: wire_inv_def)
    then show ?thesis using won_mono [OF fin, of "ballots el" ?B'] by simp
  next
    case False
    with that move_beat [OF mv] won' show ?thesis by blast
  qed
  show ?thesis using resp beat by (auto simp: wire_inv_def)
qed

lemma moved_settled_inv:
  assumes fin: "finite U" and inv: "election_inv U el" and i: "i \<in> U"
    and mv: "move U i {m. (i, m) \<in> wire el} (views el i) w' sent"
  shows "settled_inv U (moved i w' sent el)"
proof -
  let ?B = "ballots el" and ?B' = "ballots el \<union> new_ballots i w'"
  have si: "settled_inv U el" and bi: "ballots_inv U el"
    using inv by (simp_all add: election_inv_def)
  have "settled U ?B' l t" if new: "won U ?B' l t" for l t
  proof (cases "\<exists>k. won U ?B k t")
    case True
    then obtain k where k: "won U ?B k t" by blast
    with si have sk: "settled U ?B k t" by (auto simp: settled_inv_def)
    have uniq: "k' = k" if "won U ?B k' t" for k'
      using settled_unique [OF fin sk that] .
    let ?M = "{v \<in> U. (v, t, k) \<in> ?B \<and> (\<forall>c. (v, t, c) \<in> ?B \<longrightarrow> c = k)}"
    have "c = k" if "v \<in> ?M" "(v, t, c) \<in> ?B'" for v c
    proof (cases "(v, t, c) \<in> ?B")
      case False
      with that have v: "v = i" "t = v_term w'" "v_vote w' = Some c" by (auto simp: in_new_ballots)
      with that move_ballots [OF fin inv i mv, of k]
      have "v_vote w' = Some k \<or> switched U ?B i t" by auto
      moreover have "\<not> switched U ?B i t"
        using that v uniq by (auto simp: switched_def)
      ultimately show ?thesis using v by simp
    qed (use that in auto)
    then have "?M \<subseteq> {v \<in> U. (v, t, k) \<in> ?B' \<and> (\<forall>c. (v, t, c) \<in> ?B' \<longrightarrow> c = k)}" by auto
    then have "card ?M \<le> card {v \<in> U. (v, t, k) \<in> ?B' \<and> (\<forall>c. (v, t, c) \<in> ?B' \<longrightarrow> c = k)}"
      using fin by (intro card_mono) auto
    with sk have sk': "settled U ?B' k t" by (simp add: settled_def)
    with settled_unique [OF fin sk' new] show ?thesis by simp
  next
    case False
    have "c = c'" if "(v, t, c) \<in> ?B'" "(v, t, c') \<in> ?B'" for v c c'
    proof (rule ccontr)
      assume "c \<noteq> c'"
      have none: "\<not> switched U ?B v t" for v using False by (auto simp: switched_def)
      show False
      proof (cases "(v, t, c) \<in> ?B \<and> (v, t, c') \<in> ?B")
        case True
        with \<open>c \<noteq> c'\<close> none ballots_inv_twice [OF bi, of v t c c'] show False by blast
      next
        case False
        with that move_ballots [OF fin inv i mv] none \<open>c \<noteq> c'\<close> show False
          by (auto simp: in_new_ballots)
      qed
    qed
    then have "{v \<in> U. (v, t, l) \<in> ?B'} = {v \<in> U. (v, t, l) \<in> ?B' \<and> (\<forall>c. (v, t, c) \<in> ?B' \<longrightarrow> c = l)}"
      by blast
    with new show ?thesis by (simp only: won_def settled_def)
  qed
  then show ?thesis by (simp add: settled_inv_def)
qed

lemma election_step_inv:
  assumes "finite U" "election_inv U el" "election_step U el el'"
  shows "election_inv U el'"
  using assms(3)
proof cases
  case (member i w' sent)
  then have "el' = moved i w' sent el" by (simp add: moved_def)
  with member assms show ?thesis
    unfolding election_inv_def [of U el']
    by (simp add: moved_ballots_inv moved_wire_inv moved_role_inv moved_settled_inv)
qed

lemma election_init_inv:
  assumes "election_init U el"
  shows "election_inv U el"
proof -
  have "0 < majority U" by (simp add: majority_def)
  then show ?thesis
    using assms
    by (auto simp: election_inv_def election_init_def ballots_inv_def wire_inv_def role_inv_def
        settled_inv_def won_def)
qed

interpretation election: inductive_invariant "election_init U" "election_step U"
    "\<lambda>el. finite U \<and> election_inv U el" for U
  by unfold_locales (auto simp: election_init_inv election_step_inv election_init_def)

text \<open>Election safety of the protocol: one leader per term.\<close>

lemma election_inv_one_leader:
  assumes "finite U" "election_inv U el" "i \<in> U" "j \<in> U"
    and "v_role (views el i) = Leader" "v_role (views el j) = Leader"
    and "v_term (views el i) = v_term (views el j)"
  shows "i = j"
proof -
  have wi: "won U (ballots el) i (v_term (views el i))" and wj: "won U (ballots el) j (v_term (views el i))"
    using assms leader_won [of U el i] leader_won [of U el j] by (simp_all add: election_inv_def)
  from wi assms(2) have "settled U (ballots el) i (v_term (views el i))"
    by (auto simp: election_inv_def settled_inv_def)
  from settled_unique [OF assms(1) this wj] show ?thesis by simp
qed

end
