(* ===== verification/RaftCluster.thy ===== *)
theory RaftCluster
  imports RaftElection
begin

text \<open>
  The coordinators as a cluster: every event a node can see (\<open>raft_event\<close>), the node
  invariant, the cluster step relation over the handlers of \<open>Raft\<close>, and the simulation that
  carries election safety from \<open>RaftElection\<close> to the code.

  The cluster step keeps every node connected to all the others
  (\<open>getConnectedCoordinatorPeerCount()\<close> is the number of the other members) and leaves out
  two things the code does on purpose: the forced self-election after two unanswered
  elections, and a restart. Both are modelled as events; the last section shows what they do
  to the guarantee.
\<close>

section \<open>Events of one node\<close>

datatype raft_event =
    ElectionTimeout
  | HeartbeatTick
  | PeerLeaving instance_id
  | PeerDisconnected
  | GotVoteRequest nat instance_id
  | GotVoteResponse nat bool instance_id
  | GotAppendEntries nat instance_id
  | StopNode
  | StartNode raft_persistent

text \<open>A timer event needs its timer; a start follows the construction or a stop.\<close>

fun raft_enabled :: "raft_event \<Rightarrow> raft_node \<Rightarrow> bool" where
  "raft_enabled ElectionTimeout s = (electionTimer s \<noteq> None)"
| "raft_enabled HeartbeatTick s = (leaderHeartbeatTimer s \<noteq> None)"
| "raft_enabled (StartNode _) s = stopped s"
| "raft_enabled _ s = True"

fun raft_react ::
  "raft_config \<Rightarrow> raft_env \<Rightarrow> raft_event \<Rightarrow> raft_node \<Rightarrow> raft_step \<times> raft_msg list" where
  "raft_react c e ElectionTimeout s = (startElection c e s, [])"
| "raft_react c e HeartbeatTick s = (sendHeartbeat c s, [])"
| "raft_react c e (PeerLeaving p) s = (handlePeerLeaving c e p s, [])"
| "raft_react c e PeerDisconnected s = (quiet (onPeerDisconnected c e) s, [])"
| "raft_react c e (GotVoteRequest t i) s =
     (let (r, m) = handleVoteRequest c e t i s in (r, [m]))"
| "raft_react c e (GotVoteResponse t g v) s = (handleVoteResponse c e t g v s, [])"
| "raft_react c e (GotAppendEntries t l) s = (handleAppendEntries c e t l s, [])"
| "raft_react c e StopNode s = (raft_stop s, [])"
| "raft_react c e (StartNode st) s = (quiet (raft_start c e st) s, [])"

definition raft_next :: "raft_config \<Rightarrow> raft_env \<Rightarrow> raft_event \<Rightarrow> raft_node \<Rightarrow> raft_node" where
  "raft_next c e ev s = fst (fst (raft_react c e ev s))"

lemmas raft_handler_defs =
  startElection_def becomeLeader_def stepDown_def checkMajority_def startLeaderHeartbeat_def
  sendHeartbeat_def handlePeerLeaving_def onPeerDisconnected_def handleVoteRequest_def
  handleVoteResponse_def handleAppendEntries_def raft_stop_def raft_start_def
  resetElectionTimer_def clearElectionTimer_def clearLeaderHeartbeat_def

section \<open>The node invariant\<close>

definition raft_node_inv :: "raft_config \<Rightarrow> raft_node \<Rightarrow> bool" where
  "raft_node_inv c s \<longleftrightarrow>
     distinct (votesReceived s) \<and>
     (leaderHeartbeatTimer s \<noteq> None \<longleftrightarrow> role s = Leader) \<and>
     (role s \<noteq> Follower \<longrightarrow> \<not> stopped s \<and> votedFor s = Some (instanceId c)) \<and>
     (role s = Leader \<longrightarrow> leaderId s = Some (instanceId c)) \<and>
     (electionTimer s \<noteq> None \<longleftrightarrow> \<not> stopped s \<and> role s \<noteq> Leader)"

text \<open>A node never receives its own vote request: a broadcast goes to the peers.\<close>

fun foreign :: "raft_config \<Rightarrow> raft_event \<Rightarrow> bool" where
  "foreign c (GotVoteRequest t i) = (i \<noteq> instanceId c)"
| "foreign c _ = True"

lemma raft_start_inv:
  "leaderHeartbeatTimer s = None \<Longrightarrow> distinct (votesReceived s) \<Longrightarrow> raft_node_inv c (raft_start c e st s)"
  by (simp add: raft_node_inv_def raft_start_def resetElectionTimer_def clearElectionTimer_def)

lemma startElection_inv:
  "\<not> stopped s \<Longrightarrow> leaderHeartbeatTimer s = None \<Longrightarrow> raft_node_inv c (fst (startElection c e s))"
  by (auto simp: raft_node_inv_def raft_handler_defs Let_def split: if_splits)

lemma stepDown_inv:
  "raft_node_inv c s \<Longrightarrow> raft_node_inv c (fst (stepDown c e t l s))"
  by (auto simp: raft_node_inv_def raft_handler_defs Let_def split: if_splits option.splits)

lemma checkMajority_inv:
  "raft_node_inv c s \<Longrightarrow> raft_node_inv c (fst (checkMajority c e s))"
  by (auto simp: raft_node_inv_def checkMajority_def becomeLeader_def startLeaderHeartbeat_def
      sendHeartbeat_def clearLeaderHeartbeat_def clearElectionTimer_def Let_def)

lemma handleVoteRequest_inv:
  assumes "raft_node_inv c s" "i \<noteq> instanceId c"
  shows "raft_node_inv c (fst (fst (handleVoteRequest c e t i s)))"
proof -
  define r where "r = (if currentTerm s < t then stepDown c e t None s else (s, []))"
  have "raft_node_inv c (fst r)"
    using assms(1) stepDown_inv by (simp add: r_def)
  then show ?thesis
    using assms
    by (auto simp: handleVoteRequest_def Let_def r_def [symmetric] raft_node_inv_def
        resetElectionTimer_def clearElectionTimer_def)
qed

lemma handleVoteResponse_inv:
  assumes "raft_node_inv c s"
  shows "raft_node_inv c (fst (handleVoteResponse c e t g v s))"
proof -
  have "raft_node_inv c (s\<lparr>consecutiveUnansweredElections := 0\<rparr>)"
    and "raft_node_inv c (s\<lparr>consecutiveUnansweredElections := 0, votesReceived := js_add v (votesReceived s)\<rparr>)"
    using assms by (simp_all add: raft_node_inv_def)
  then show ?thesis
    using assms by (simp add: handleVoteResponse_def Let_def stepDown_inv checkMajority_inv)
qed

lemma handleAppendEntries_inv:
  assumes "raft_node_inv c s"
  shows "raft_node_inv c (fst (handleAppendEntries c e t l s))"
proof -
  have "raft_node_inv c (s\<lparr>consecutiveUnansweredElections := 0\<rparr>)"
    using assms by (simp add: raft_node_inv_def)
  then show ?thesis
    using assms stepDown_inv
    by (auto simp: handleAppendEntries_def Let_def raft_node_inv_def
        resetElectionTimer_def clearElectionTimer_def)
qed

lemma raft_react_inv:
  assumes "raft_node_inv c s" "raft_enabled ev s" "foreign c ev"
  shows "raft_node_inv c (raft_next c e ev s)"
proof (cases ev)
  case (StartNode st)
  with assms have "leaderHeartbeatTimer s = None" "distinct (votesReceived s)"
    by (auto simp: raft_node_inv_def)
  with StartNode raft_start_inv show ?thesis by (simp add: raft_next_def)
next
  case ElectionTimeout
  with assms have "\<not> stopped s" "leaderHeartbeatTimer s = None"
    by (auto simp: raft_node_inv_def)
  with ElectionTimeout startElection_inv show ?thesis by (simp add: raft_next_def)
next
  case (PeerLeaving p)
  with assms show ?thesis
    by (auto simp: raft_next_def handlePeerLeaving_def clearElectionTimer_def raft_node_inv_def [of c s]
        intro!: startElection_inv)
next
  case (GotVoteRequest t i)
  with assms handleVoteRequest_inv [of c s i e t] show ?thesis
    by (simp add: raft_next_def split: prod.split) (metis fst_conv)
next
  case (GotVoteResponse t g v)
  with assms handleVoteResponse_inv show ?thesis by (simp add: raft_next_def)
next
  case (GotAppendEntries t l)
  with assms handleAppendEntries_inv show ?thesis by (simp add: raft_next_def)
qed (use assms in \<open>auto simp: raft_next_def raft_node_inv_def onPeerDisconnected_def raft_stop_def
        sendHeartbeat_def resetElectionTimer_def clearElectionTimer_def clearLeaderHeartbeat_def
        Let_def\<close>)

section \<open>The handlers refine the protocol\<close>

definition view_of :: "raft_node \<Rightarrow> view" where
  "view_of s = \<lparr>v_term = currentTerm s, v_vote = votedFor s, v_role = role s,
     v_votes = set (votesReceived s)\<rparr>"

lemma view_of_simps [simp]:
  "v_term (view_of s) = currentTerm s" "v_vote (view_of s) = votedFor s"
  "v_role (view_of s) = role s" "v_votes (view_of s) = set (votesReceived s)"
  by (simp_all add: view_of_def)

text \<open>A broadcast reaches every other member; a reply goes back to the node that asked.\<close>

definition broadcasts :: "instance_id set \<Rightarrow> instance_id \<Rightarrow> raft_effect list \<Rightarrow> packet set" where
  "broadcasts U i es = {(j, m) |j m. j \<in> U \<and> j \<noteq> i \<and> Broadcast m \<in> set es}"

definition replies :: "raft_event \<Rightarrow> raft_msg list \<Rightarrow> packet set" where
  "replies ev ms = (case ev of GotVoteRequest t c \<Rightarrow> {c} \<times> set ms | _ \<Rightarrow> {})"

definition packets ::
  "instance_id set \<Rightarrow> instance_id \<Rightarrow> raft_event \<Rightarrow> raft_step \<times> raft_msg list \<Rightarrow> packet set" where
  "packets U i ev out = broadcasts U i (snd (fst out)) \<union> replies ev (snd out)"

lemma replies_Nil [simp]: "replies ev [] = {}"
  by (cases ev) (auto simp: replies_def)

lemma packets_no_reply [simp]: "packets U i ev (r, []) = broadcasts U i (snd r)"
  by (simp add: packets_def)

definition forced :: "raft_event \<Rightarrow> raft_node \<Rightarrow> bool" where
  "forced ev s \<longleftrightarrow> ev = ElectionTimeout \<and> 2 \<le> consecutiveUnansweredElections s"

fun received :: "raft_event \<Rightarrow> raft_msg \<Rightarrow> bool" where
  "received (GotVoteRequest t c) m = (\<exists>a b. m = VoteRequest t c a b)"
| "received (GotVoteResponse t g v) m = (m = VoteResponse t g v)"
| "received (GotAppendEntries t l) m = (m = AppendEntries t l)"
| "received _ m = False"

fun is_message :: "raft_event \<Rightarrow> bool" where
  "is_message (GotVoteRequest _ _) = True"
| "is_message (GotVoteResponse _ _ _) = True"
| "is_message (GotAppendEntries _ _) = True"
| "is_message _ = False"

lemma stepDown_moves:
  assumes "currentTerm s < t \<or> t = currentTerm s \<and> role s \<noteq> Follower \<and> AppendEntries t k \<in> inbox"
    and "\<not> stopped s"
  shows "move U i inbox (view_of s) (view_of (fst (stepDown c e t l s))) (broadcasts U i (snd (stepDown c e t l s)))"
proof (cases "currentTerm s < t")
  case True
  with assms show ?thesis
    by (intro move.newer)
       (auto simp: stepDown_def Let_def broadcasts_def resetElectionTimer_def clearElectionTimer_def
          clearLeaderHeartbeat_def split: option.splits if_splits)
next
  case False
  with assms show ?thesis
    by (intro move.forget [where l = k])
       (auto simp: stepDown_def Let_def broadcasts_def resetElectionTimer_def clearElectionTimer_def
          clearLeaderHeartbeat_def split: option.splits if_splits)
qed

lemma becomeLeader_simps:
  assumes "\<not> stopped s"
  shows "currentTerm (fst (becomeLeader c s)) = currentTerm s"
    "votedFor (fst (becomeLeader c s)) = votedFor s"
    "role (fst (becomeLeader c s)) = Leader"
    "votesReceived (fst (becomeLeader c s)) = votesReceived s"
    "Broadcast m \<in> set (snd (becomeLeader c s)) \<longleftrightarrow> m = AppendEntries (currentTerm s) (instanceId c)"
  using assms
  by (auto simp: becomeLeader_def startLeaderHeartbeat_def sendHeartbeat_def clearElectionTimer_def
      clearLeaderHeartbeat_def Let_def)

lemma startElection_moves:
  assumes "finite U" "i \<in> U" "instanceId c = i" "peers e = card U - 1"
    and "\<not> stopped s" "consecutiveUnansweredElections s < 2"
  shows "move U i inbox (view_of s) (view_of (fst (startElection c e s)))
    (broadcasts U i (snd (startElection c e s)))"
proof -
  have "card U \<noteq> 0" using assms by auto
  then have "peers e = 0 \<Longrightarrow> majority U \<le> 1" "\<not> (peers e + 1) div 2 + 1 \<le> Suc 0 \<or> peers e = 0"
    using assms(4) by (auto simp: majority_def)
  then show ?thesis
    using assms
    by (intro move.elect)
       (auto simp: startElection_def Let_def checkMajority_def becomeLeader_simps broadcasts_def
          resetElectionTimer_def clearElectionTimer_def requests_def beats_def split: if_splits)
qed

lemma handleVoteRequest_moves:
  assumes "instanceId c = i"
  shows "move U i inbox (view_of s) (view_of (fst (fst (handleVoteRequest c e t k s))))
    (broadcasts U i (snd (fst (handleVoteRequest c e t k s))) \<union> {(k, snd (handleVoteRequest c e t k s))})"
proof (cases "stopped s \<or> \<not> (currentTerm s < t \<or> currentTerm s \<le> t \<and> (votedFor s = None \<or> votedFor s = Some k))")
  case True
  then show ?thesis
    by (intro move.keep) (auto simp: handleVoteRequest_def Let_def broadcasts_def denials_def)
next
  case False
  then show ?thesis
    using assms
    by (intro move.grant [where c = k])
       (auto simp: handleVoteRequest_def Let_def stepDown_def broadcasts_def resetElectionTimer_def
          clearElectionTimer_def clearLeaderHeartbeat_def)
qed

lemma handleVoteResponse_moves:
  assumes "finite U" "i \<in> U" "instanceId c = i" "peers e = card U - 1" "distinct (votesReceived s)"
    and "VoteResponse t g v \<in> inbox"
  shows "move U i inbox (view_of s) (view_of (fst (handleVoteResponse c e t g v s)))
    (broadcasts U i (snd (handleVoteResponse c e t g v s)))"
proof (cases "stopped s \<or> (\<not> currentTerm s < t \<and> (role s \<noteq> Candidate \<or> t \<noteq> currentTerm s \<or> \<not> g))")
  case True
  then show ?thesis
    by (intro move.keep) (auto simp: handleVoteResponse_def Let_def broadcasts_def)
next
  case live: False
  show ?thesis
  proof (cases "currentTerm s < t")
    case True
    with live show ?thesis by (simp add: handleVoteResponse_def stepDown_moves)
  next
    case False
    have "card U \<noteq> 0" using assms by auto
    then have quorum: "(peers e + 1) div 2 + 1 = majority U"
      using assms(4) by (simp add: majority_def)
    have "length (js_add v (votesReceived s)) = card (insert v (set (votesReceived s)))"
      using assms(5) distinct_card [of "js_add v (votesReceived s)"] by simp
    with False live assms(3,6) quorum show ?thesis
      by (intro move.tally [where v = v])
         (auto simp: handleVoteResponse_def Let_def checkMajority_def becomeLeader_simps
            broadcasts_def beats_def split: if_splits)
  qed
qed

lemma handleAppendEntries_moves:
  assumes "AppendEntries t l \<in> inbox"
  shows "move U i inbox (view_of s) (view_of (fst (handleAppendEntries c e t l s)))
    (broadcasts U i (snd (handleAppendEntries c e t l s)))"
proof (cases "\<not> stopped s \<and> (currentTerm s < t \<or> t = currentTerm s \<and> role s \<noteq> Follower)")
  case True
  let ?s = "s\<lparr>consecutiveUnansweredElections := 0\<rparr>"
  have "move U i inbox (view_of ?s) (view_of (fst (stepDown c e t (Some l) ?s)))
      (broadcasts U i (snd (stepDown c e t (Some l) ?s)))"
    using True assms by (intro stepDown_moves [where k = l]) auto
  moreover have "view_of ?s = view_of s" by (simp add: view_of_def)
  moreover have "handleAppendEntries c e t l s = stepDown c e t (Some l) ?s"
    using True by (auto simp: handleAppendEntries_def Let_def)
  ultimately show ?thesis by simp
next
  case False
  then show ?thesis
    by (intro move.keep)
       (auto simp: handleAppendEntries_def Let_def broadcasts_def resetElectionTimer_def
          clearElectionTimer_def)
qed

lemma raft_react_moves:
  assumes "finite U" "i \<in> U" "instanceId c = i" "peers e = card U - 1"
    and "raft_node_inv c s" "raft_enabled ev s" "\<not> forced ev s" "\<forall>st. ev \<noteq> StartNode st"
    and "is_message ev \<Longrightarrow> \<exists>m \<in> inbox. received ev m"
  shows "move U i inbox (view_of s) (view_of (raft_next c e ev s)) (packets U i ev (raft_react c e ev s))"
proof (cases ev)
  case ElectionTimeout
  with assms startElection_moves show ?thesis
    by (auto simp: raft_next_def forced_def raft_node_inv_def)
next
  case HeartbeatTick
  with assms show ?thesis
    by (intro move.keep)
       (auto simp: raft_next_def sendHeartbeat_def raft_node_inv_def broadcasts_def beats_def)
next
  case (PeerLeaving p)
  show ?thesis
  proof (cases "\<not> stopped s \<and> role s \<noteq> Leader \<and> leaderId s = Some p")
    case True
    let ?s = "clearElectionTimer (s\<lparr>leaderId := None, consecutiveUnansweredElections := 0\<rparr>)"
    have "view_of ?s = view_of s" by (simp add: view_of_def clearElectionTimer_def)
    moreover have "handlePeerLeaving c e p s = startElection c e ?s"
      using True by (simp add: handlePeerLeaving_def)
    moreover have "move U i inbox (view_of ?s) (view_of (fst (startElection c e ?s)))
        (broadcasts U i (snd (startElection c e ?s)))"
      using True assms by (intro startElection_moves) (auto simp: clearElectionTimer_def)
    ultimately show ?thesis using PeerLeaving by (simp add: raft_next_def)
  next
    case False
    with PeerLeaving show ?thesis
      by (intro move.keep) (auto simp: raft_next_def handlePeerLeaving_def broadcasts_def)
  qed
next
  case PeerDisconnected
  then show ?thesis
    by (intro move.keep)
       (auto simp: raft_next_def onPeerDisconnected_def broadcasts_def resetElectionTimer_def
          clearElectionTimer_def Let_def)
next
  case (GotVoteRequest t k)
  with handleVoteRequest_moves [OF assms(3), of U inbox s e t k] show ?thesis
    by (simp add: raft_next_def packets_def replies_def split_beta)
next
  case (GotVoteResponse t g v)
  with assms handleVoteResponse_moves [of U i c e s t g v inbox] show ?thesis
    by (auto simp: raft_next_def raft_node_inv_def)
next
  case (GotAppendEntries t l)
  with assms(9) handleAppendEntries_moves [of t l inbox] show ?thesis
    by (auto simp: raft_next_def)
next
  case StopNode
  then show ?thesis
    by (intro move.keep)
       (auto simp: raft_next_def raft_stop_def broadcasts_def clearElectionTimer_def
          clearLeaderHeartbeat_def Let_def)
qed (use assms(8) in simp)

section \<open>The cluster\<close>

record raft_cluster =
  nodes :: "instance_id \<Rightarrow> raft_node"
  cwire :: "packet set"
  history :: "ballot set"

text \<open>Node \<open>i\<close> reacts to an event. The \<open>history\<close> of votes is written, never read.\<close>

definition advance ::
  "instance_id set \<Rightarrow> (instance_id \<Rightarrow> raft_config) \<Rightarrow> raft_env \<Rightarrow> instance_id \<Rightarrow> raft_event \<Rightarrow>
   raft_cluster \<Rightarrow> raft_cluster" where
  "advance U cf e i ev cl =
     \<lparr>nodes = (nodes cl)(i := raft_next (cf i) e ev (nodes cl i)),
      cwire = cwire cl \<union> packets U i ev (raft_react (cf i) e ev (nodes cl i)),
      history = history cl \<union> new_ballots i (view_of (raft_next (cf i) e ev (nodes cl i)))\<rparr>"

inductive cluster_step ::
  "instance_id set \<Rightarrow> (instance_id \<Rightarrow> raft_config) \<Rightarrow> raft_cluster \<Rightarrow> raft_cluster \<Rightarrow> bool"
  for U :: "instance_id set" and cf :: "instance_id \<Rightarrow> raft_config" where
  internal: "i \<in> U \<Longrightarrow> peers e = card U - 1 \<Longrightarrow> \<not> is_message ev \<Longrightarrow> (\<forall>st. ev \<noteq> StartNode st) \<Longrightarrow>
    raft_enabled ev (nodes cl i) \<Longrightarrow> \<not> forced ev (nodes cl i) \<Longrightarrow>
    cluster_step U cf cl (advance U cf e i ev cl)"
| deliver: "i \<in> U \<Longrightarrow> peers e = card U - 1 \<Longrightarrow> (i, m) \<in> cwire cl \<Longrightarrow> received ev m \<Longrightarrow>
    cluster_step U cf cl (advance U cf e i ev cl)"

definition cluster_init ::
  "instance_id set \<Rightarrow> (instance_id \<Rightarrow> raft_config) \<Rightarrow> raft_cluster \<Rightarrow> bool" where
  "cluster_init U cf cl \<longleftrightarrow>
     finite U \<and> (\<forall>i \<in> U. instanceId (cf i) = i) \<and>
     (\<forall>i. \<exists>e. nodes cl i = raft_start (cf i) e (store_load ''default'' Map.empty) raft_init) \<and>
     cwire cl = {} \<and> history cl = {}"

definition cluster_inv ::
  "instance_id set \<Rightarrow> (instance_id \<Rightarrow> raft_config) \<Rightarrow> raft_cluster \<Rightarrow> bool" where
  "cluster_inv U cf cl \<longleftrightarrow>
     finite U \<and> (\<forall>i \<in> U. instanceId (cf i) = i) \<and>
     (\<forall>i \<in> U. raft_node_inv (cf i) (nodes cl i)) \<and>
     (\<forall>j t k a b. (j, VoteRequest t k a b) \<in> cwire cl \<longrightarrow> k \<noteq> j)"

definition abs_cluster :: "raft_cluster \<Rightarrow> election" where
  "abs_cluster cl = \<lparr>views = view_of \<circ> nodes cl, wire = cwire cl, ballots = history cl\<rparr>"

lemma received_is_message: "received ev m \<Longrightarrow> is_message ev"
  by (cases ev) auto

lemma advance_moves:
  assumes inv: "cluster_inv U cf cl" and i: "i \<in> U" and e: "peers e = card U - 1"
    and en: "raft_enabled ev (nodes cl i)" "\<not> forced ev (nodes cl i)" "\<forall>st. ev \<noteq> StartNode st"
    and msg: "is_message ev \<longrightarrow> (\<exists>m. (i, m) \<in> cwire cl \<and> received ev m)"
  shows "move U i {m. (i, m) \<in> cwire cl} (view_of (nodes cl i))
      (view_of (raft_next (cf i) e ev (nodes cl i))) (packets U i ev (raft_react (cf i) e ev (nodes cl i)))"
    and "cluster_inv U cf (advance U cf e i ev cl)"
proof -
  show mv: "move U i {m. (i, m) \<in> cwire cl} (view_of (nodes cl i))
      (view_of (raft_next (cf i) e ev (nodes cl i))) (packets U i ev (raft_react (cf i) e ev (nodes cl i)))"
    using assms by (intro raft_react_moves) (auto simp: cluster_inv_def)
  have "foreign (cf i) ev"
    using inv i msg by (cases ev) (auto simp: cluster_inv_def, blast)
  then have "raft_node_inv (cf i) (raft_next (cf i) e ev (nodes cl i))"
    using inv i en(1) by (intro raft_react_inv) (auto simp: cluster_inv_def)
  moreover have "k \<noteq> j" if "(j, VoteRequest t k a b) \<in> packets U i ev (raft_react (cf i) e ev (nodes cl i))"
    for j t k a b
    using move_request [OF mv that] by blast
  ultimately show "cluster_inv U cf (advance U cf e i ev cl)"
    using inv by (auto simp: cluster_inv_def advance_def)
qed

lemma cluster_step_advance:
  assumes "cluster_step U cf cl cl'"
  shows "\<exists>i e ev. cl' = advance U cf e i ev cl \<and> i \<in> U \<and> peers e = card U - 1 \<and>
    raft_enabled ev (nodes cl i) \<and> \<not> forced ev (nodes cl i) \<and> (\<forall>st. ev \<noteq> StartNode st) \<and>
    (is_message ev \<longrightarrow> (\<exists>m. (i, m) \<in> cwire cl \<and> received ev m))"
  using assms
proof cases
  case (deliver i e m ev)
  moreover have "raft_enabled ev (nodes cl i) \<and> \<not> forced ev (nodes cl i) \<and> (\<forall>st. ev \<noteq> StartNode st)"
    using deliver by (cases ev) (auto simp: forced_def)
  ultimately show ?thesis by blast
qed blast

lemma cluster_init_node:
  assumes "cluster_init U cf cl"
  shows "raft_node_inv (cf i) (nodes cl i) \<and> votedFor (nodes cl i) = None \<and> role (nodes cl i) = Follower"
proof -
  obtain e where e: "nodes cl i = raft_start (cf i) e (store_load ''default'' Map.empty) raft_init"
    using assms unfolding cluster_init_def by metis
  have "raft_node_inv (cf i) (nodes cl i)"
    unfolding e by (rule raft_start_inv) (simp_all add: raft_init_def)
  then show ?thesis
    by (simp add: e raft_start_def store_load_def resetElectionTimer_def clearElectionTimer_def)
qed

lemma cluster_step_sim:
  assumes inv: "cluster_inv U cf cl" and st: "cluster_step U cf cl cl'"
  shows "cluster_inv U cf cl' \<and> election_step U (abs_cluster cl) (abs_cluster cl')"
proof -
  from st obtain i e ev where adv: "cl' = advance U cf e i ev cl" and i: "i \<in> U"
    and rest: "peers e = card U - 1"
    "raft_enabled ev (nodes cl i)" "\<not> forced ev (nodes cl i)" "\<forall>st. ev \<noteq> StartNode st"
    "is_message ev \<longrightarrow> (\<exists>m. (i, m) \<in> cwire cl \<and> received ev m)"
    using cluster_step_advance by blast
  note moves = advance_moves [OF inv i rest]
  have "abs_cluster cl' = \<lparr>views = (views (abs_cluster cl))(i := view_of (raft_next (cf i) e ev (nodes cl i))),
      wire = wire (abs_cluster cl) \<union> packets U i ev (raft_react (cf i) e ev (nodes cl i)),
      ballots = ballots (abs_cluster cl) \<union> new_ballots i (view_of (raft_next (cf i) e ev (nodes cl i)))\<rparr>"
    by (simp add: abs_cluster_def adv advance_def fun_upd_comp)
  with election_step.member [of i U "abs_cluster cl"] moves(1) i
  have "election_step U (abs_cluster cl) (abs_cluster cl')"
    by (simp add: abs_cluster_def)
  with moves(2) adv show ?thesis by simp
qed

interpretation raft: simulation "cluster_init U cf" "cluster_step U cf" "cluster_inv U cf"
    "election_init U" "election_step U" abs_cluster for U cf
proof unfold_locales
  show "cluster_inv U cf cl" if "cluster_init U cf cl" for cl
    using cluster_init_node [OF that] that by (auto simp: cluster_inv_def cluster_init_def)
  show "cluster_inv U cf cl'" if "cluster_inv U cf cl" "cluster_step U cf cl cl'" for cl cl'
    using cluster_step_sim [OF that] by simp
  show "election_init U (abs_cluster cl)" if "cluster_init U cf cl" for cl
    using cluster_init_node [OF that] that
    by (auto simp: election_init_def cluster_init_def abs_cluster_def)
  show "election_step U (abs_cluster cl) (abs_cluster cl') \<or> abs_cluster cl' = abs_cluster cl"
    if "cluster_inv U cf cl" "cluster_step U cf cl cl'" for cl cl'
    using cluster_step_sim [OF that] by simp
qed

section \<open>Properties\<close>

text \<open>
  C1. Election safety: in every reachable state of a fully connected cluster in which no node
  forces its own election and no node restarts, two leaders of the same term are the same
  node; messages may be delayed, duplicated, reordered or lost, and nodes may stop.
\<close>

theorem raft_election_safety:
  assumes "reach (cluster_init U cf) (cluster_step U cf) cl" "i \<in> U" "j \<in> U"
    and "isLeader (nodes cl i)" "isLeader (nodes cl j)"
    and "currentTerm (nodes cl i) = currentTerm (nodes cl j)"
  shows "i = j"
proof -
  have "finite U \<and> election_inv U (abs_cluster cl)"
    by (rule election.reach_inv [OF raft.reach_sim [OF assms(1)]])
  then show ?thesis
    using assms(2-) by (intro election_inv_one_leader [of U "abs_cluster cl" i j])
      (auto simp: abs_cluster_def isLeader_def)
qed

text \<open>A run of three coordinators in which one is elected, for the witness.\<close>

abbreviation trio :: "instance_id set" where
  "trio \<equiv> {''a'', ''b'', ''c''}"

abbreviation trio_env :: raft_env where
  "trio_env \<equiv> \<lparr>now = 0, peers = 2, rnd = 0\<rparr>"

definition trio_start :: raft_cluster where
  "trio_start =
     \<lparr>nodes = \<lambda>i. raft_start (raft_default_config i) trio_env (store_load ''default'' Map.empty) raft_init,
      cwire = {}, history = {}\<rparr>"

abbreviation trio_do :: "instance_id \<Rightarrow> raft_event \<Rightarrow> raft_cluster \<Rightarrow> raft_cluster" where
  "trio_do \<equiv> advance trio raft_default_config trio_env"

lemmas trio_eval =
  trio_start_def advance_def raft_next_def packets_def broadcasts_def replies_def
  raft_handler_defs forced_def isLeader_def raft_default_config_def raft_init_def store_load_def
  persistent_of_def andThen_def emit_def quiet_def Let_def js_add_def

lemma trio_start_reach: "reach (cluster_init trio raft_default_config) st trio_start"
  by (rule reach.reach_init) (auto simp: cluster_init_def trio_start_def raft_default_config_def)

lemma trio_internal:
  assumes "reach ini (cluster_step trio raft_default_config) cl" "i \<in> trio"
    and "\<not> is_message ev" "\<forall>st. ev \<noteq> StartNode st" "raft_enabled ev (nodes cl i)" "\<not> forced ev (nodes cl i)"
  shows "reach ini (cluster_step trio raft_default_config) (trio_do i ev cl)"
  using assms by (intro reach.reach_step [OF assms(1) cluster_step.internal]) auto

lemma trio_deliver:
  assumes "reach ini (cluster_step trio raft_default_config) cl" "i \<in> trio"
    and "(i, m) \<in> cwire cl" "received ev m"
  shows "reach ini (cluster_step trio raft_default_config) (trio_do i ev cl)"
  using assms by (intro reach.reach_step [OF assms(1) cluster_step.deliver]) auto

definition trio_elected :: raft_cluster where
  "trio_elected =
     trio_do ''a'' (GotVoteResponse 1 True ''b'')
       (trio_do ''b'' (GotVoteRequest 1 ''a'') (trio_do ''a'' ElectionTimeout trio_start))"

lemma trio_elected_reach:
  "reach (cluster_init trio raft_default_config) (cluster_step trio raft_default_config) trio_elected"
  unfolding trio_elected_def
proof (rule trio_deliver [where m = "VoteResponse 1 True ''b''"],
    rule trio_deliver [where m = "VoteRequest 1 ''a'' 0 0"], rule trio_internal, rule trio_start_reach)
qed (simp_all add: trio_eval)

theorem raft_election_safety_witness:
  "{j \<in> trio. isLeader (nodes trio_elected j) \<and>
      currentTerm (nodes trio_elected j) = currentTerm (nodes trio_elected ''a'')} = {''a''}"
proof -
  have l: "isLeader (nodes trio_elected ''a'')"
    by (simp add: trio_elected_def trio_eval)
  have "j = ''a''" if "j \<in> trio" "isLeader (nodes trio_elected j)"
      "currentTerm (nodes trio_elected j) = currentTerm (nodes trio_elected ''a'')" for j
    using raft_election_safety [OF trio_elected_reach that(1) _ that(2) l that(3)] by simp
  with l show ?thesis by blast
qed

section \<open>Runs of one node\<close>

text \<open>A timer that is not armed does not fire: a disabled event changes nothing.\<close>

fun raft_run :: "raft_config \<Rightarrow> (raft_env \<times> raft_event) list \<Rightarrow> raft_node \<Rightarrow> raft_step" where
  "raft_run c [] s = (s, [])"
| "raft_run c ((e, ev) # xs) s =
     (if raft_enabled ev s then andThen (fst (raft_react c e ev s)) (raft_run c xs)
      else raft_run c xs s)"

text \<open>
  The leader-only services: started by \<open>onBecomeLeader\<close>, stopped by \<open>onLoseLeadership\<close>. None
  when a callback arrives twice in a row.
\<close>

fun serving :: "bool \<Rightarrow> raft_effect list \<Rightarrow> bool option" where
  "serving b [] = Some b"
| "serving b (OnBecomeLeader # es) = (if b then None else serving True es)"
| "serving b (OnLoseLeadership # es) = (if b then serving False es else None)"
| "serving b (_ # es) = serving b es"

lemma serving_append: "serving b (xs @ ys) = (case serving b xs of None \<Rightarrow> None | Some b' \<Rightarrow> serving b' ys)"
  by (induction b xs rule: serving.induct) auto

lemma stepDown_serving:
  "\<not> stopped s \<Longrightarrow> serving (isLeader s) (snd (stepDown c e t l s)) = Some False"
  by (auto simp: stepDown_def isLeader_def Let_def)

lemma becomeLeader_serving:
  "\<not> stopped s \<Longrightarrow> serving False (snd (becomeLeader c s)) = Some True"
  by (simp add: becomeLeader_def startLeaderHeartbeat_def sendHeartbeat_def Let_def)

lemma stepDown_follows: "\<not> stopped s \<Longrightarrow> \<not> isLeader (fst (stepDown c e t l s))"
  by (auto simp: stepDown_def isLeader_def resetElectionTimer_def clearElectionTimer_def
      clearLeaderHeartbeat_def Let_def split: option.split)

lemma startElection_serving:
  "\<not> stopped s \<Longrightarrow> role s \<noteq> Leader \<Longrightarrow>
   serving False (snd (startElection c e s)) = Some (isLeader (fst (startElection c e s)))"
  by (auto simp: startElection_def checkMajority_def becomeLeader_serving becomeLeader_simps
      isLeader_def serving_append Let_def resetElectionTimer_def clearElectionTimer_def)

lemma checkMajority_serving:
  "\<not> stopped s \<Longrightarrow> role s = Candidate \<Longrightarrow>
   serving False (snd (checkMajority c e s)) = Some (isLeader (fst (checkMajority c e s)))"
  by (auto simp: checkMajority_def becomeLeader_serving becomeLeader_simps isLeader_def Let_def)

lemma raft_react_serving:
  assumes inv: "raft_node_inv c s" and en: "raft_enabled ev s"
  shows "serving (isLeader s) (snd (fst (raft_react c e ev s))) = Some (isLeader (raft_next c e ev s))"
proof (cases ev)
  case ElectionTimeout
  with inv en startElection_serving [of s c e] show ?thesis
    by (auto simp: raft_next_def raft_node_inv_def isLeader_def)
next
  case (PeerLeaving p)
  with startElection_serving [of "clearElectionTimer (s\<lparr>leaderId := None, consecutiveUnansweredElections := 0\<rparr>)" c e]
  show ?thesis
    by (auto simp: raft_next_def handlePeerLeaving_def isLeader_def clearElectionTimer_def)
next
  case (GotVoteRequest t k)
  show ?thesis
  proof (cases "\<not> stopped s \<and> currentTerm s < t")
    case True
    with stepDown_serving [of s c e t None] stepDown_follows [of s c e t None] GotVoteRequest
    show ?thesis
      by (auto simp: raft_next_def handleVoteRequest_def serving_append isLeader_def Let_def
          resetElectionTimer_def clearElectionTimer_def)
  next
    case False
    with GotVoteRequest show ?thesis
      by (auto simp: raft_next_def handleVoteRequest_def isLeader_def Let_def
          resetElectionTimer_def clearElectionTimer_def)
  qed
next
  case (GotVoteResponse t g v)
  with stepDown_serving [of s c e t None] stepDown_follows [of s c e t None]
    checkMajority_serving [of "s\<lparr>consecutiveUnansweredElections := 0, votesReceived := js_add v (votesReceived s)\<rparr>" c e]
  show ?thesis
    by (auto simp: raft_next_def handleVoteResponse_def isLeader_def Let_def)
next
  case (GotAppendEntries t l)
  let ?s = "s\<lparr>consecutiveUnansweredElections := 0\<rparr>"
  have "isLeader ?s = isLeader s" by (simp add: isLeader_def)
  with GotAppendEntries stepDown_serving [of ?s c e t "Some l"] stepDown_follows [of ?s c e t "Some l"]
  show ?thesis
    by (auto simp: raft_next_def handleAppendEntries_def Let_def)
      (auto simp: isLeader_def resetElectionTimer_def clearElectionTimer_def)
next
  case (StartNode st)
  with inv en show ?thesis
    by (auto simp: raft_next_def raft_node_inv_def isLeader_def raft_start_def
        resetElectionTimer_def clearElectionTimer_def)
qed (auto simp: raft_next_def raft_stop_def onPeerDisconnected_def sendHeartbeat_def isLeader_def
    resetElectionTimer_def clearElectionTimer_def clearLeaderHeartbeat_def Let_def)

lemma raft_run_inv:
  assumes "raft_node_inv c s" "\<forall>(e, ev) \<in> set xs. foreign c ev"
  shows "raft_node_inv c (fst (raft_run c xs s)) \<and>
    serving (isLeader s) (snd (raft_run c xs s)) = Some (isLeader (fst (raft_run c xs s)))"
  using assms
proof (induction xs arbitrary: s)
  case (Cons x xs)
  obtain e ev where x: "x = (e, ev)" by (cases x)
  show ?case
  proof (cases "raft_enabled ev s")
    case True
    with Cons.prems x have "raft_node_inv c (raft_next c e ev s)"
      by (intro raft_react_inv) auto
    with Cons.IH [of "raft_next c e ev s"] Cons.prems x True raft_react_serving [OF Cons.prems(1) True, of e]
    show ?thesis by (simp add: raft_next_def serving_append)
  next
    case False
    with Cons x show ?thesis by simp
  qed
qed simp

text \<open>
  A node that has been started keeps its invariant through every sequence of timer,
  message, peer, stop and restart events: it has its election timer armed exactly while it
  runs and is not leader, its heartbeat timer exactly while it is leader, a candidate or
  leader has voted for itself, a stopped node is a follower, and no vote is counted twice.
\<close>

theorem raft_run_node_inv:
  assumes "\<forall>(e, ev) \<in> set xs. foreign c ev"
  shows "raft_node_inv c (fst (raft_run c xs (raft_start c e0 st raft_init)))"
  using assms raft_run_inv raft_start_inv [of raft_init c e0 st] by (simp add: raft_init_def)

text \<open>
  The leader-only services run exactly while the node is leader: over any sequence of
  events the callbacks \<open>onBecomeLeader\<close> and \<open>onLoseLeadership\<close> alternate, and the last one
  says whether the node is leader.
\<close>

theorem raft_leadership_callbacks:
  assumes "\<forall>(e, ev) \<in> set xs. foreign c ev"
  shows "serving False (snd (raft_run c xs (raft_start c e0 st raft_init))) =
    Some (isLeader (fst (raft_run c xs (raft_start c e0 st raft_init))))"
proof -
  let ?s = "raft_start c e0 st raft_init"
  have "raft_node_inv c ?s" and "\<not> isLeader ?s"
    using raft_start_inv [of raft_init c e0 st]
    by (auto simp: raft_init_def isLeader_def raft_start_def resetElectionTimer_def clearElectionTimer_def)
  with raft_run_inv [OF this(1) assms] show ?thesis by simp
qed

abbreviation solo_events :: "(raft_env \<times> raft_event) list" where
  "solo_events \<equiv>
     [(trio_env\<lparr>peers := 0\<rparr>, ElectionTimeout), (trio_env, HeartbeatTick),
      (trio_env, GotAppendEntries 4 ''b''), (trio_env, StopNode)]"

theorem raft_run_node_inv_witness:
  "raft_node_inv (raft_default_config ''a'')
     (fst (raft_run (raft_default_config ''a'') solo_events
       (raft_start (raft_default_config ''a'') trio_env (persistent_of raft_init) raft_init)))"
  by (rule raft_run_node_inv) simp

theorem raft_leadership_callbacks_witness:
  "serving False (snd (raft_run (raft_default_config ''a'') (take 1 solo_events)
       (raft_start (raft_default_config ''a'') trio_env (persistent_of raft_init) raft_init))) = Some True"
proof -
  have "isLeader (fst (raft_run (raft_default_config ''a'') (take 1 solo_events)
       (raft_start (raft_default_config ''a'') trio_env (persistent_of raft_init) raft_init)))"
    by (simp add: trio_eval graceActive_def)
  with raft_leadership_callbacks [of "take 1 solo_events" "raft_default_config ''a''" trio_env "persistent_of raft_init"]
  show ?thesis by simp
qed

lemma raft_react_stopped:
  assumes "stopped s" "leaderHeartbeatTimer s = None" "electionTimer s = None"
    and "raft_enabled ev s" "\<forall>st. ev \<noteq> StartNode st"
  shows "fst (raft_react c e ev s) = (s, []) \<and> (\<forall>m \<in> set (snd (raft_react c e ev s)). \<not> voteGranted m)"
  using assms
  by (cases ev)
    (auto simp: handlePeerLeaving_def onPeerDisconnected_def quiet_def handleVoteRequest_def
      raft_stop_def handleVoteResponse_def handleAppendEntries_def)

text \<open>
  A stop is final: after it, until the next start, no event changes the node, nothing is
  broadcast or saved, and a vote request is answered with a refusal.
\<close>

theorem raft_stopped_ignores:
  assumes "raft_node_inv c s" "raft_enabled ev (fst (raft_stop s))" "\<forall>st. ev \<noteq> StartNode st"
  shows "fst (raft_react c e ev (fst (raft_stop s))) = (fst (raft_stop s), []) \<and>
    (\<forall>m \<in> set (snd (raft_react c e ev (fst (raft_stop s)))). \<not> voteGranted m)"
proof (rule raft_react_stopped)
  show "stopped (fst (raft_stop s))" "leaderHeartbeatTimer (fst (raft_stop s)) = None"
    "electionTimer (fst (raft_stop s)) = None"
    using assms(1)
    by (auto simp: raft_stop_def raft_node_inv_def clearElectionTimer_def clearLeaderHeartbeat_def Let_def)
qed (use assms in auto)

theorem raft_stopped_ignores_witness:
  "fst (raft_react (raft_default_config ''a'') trio_env (GotVoteRequest 9 ''b'')
      (fst (raft_stop (nodes trio_elected ''a'')))) = (fst (raft_stop (nodes trio_elected ''a'')), [])"
proof -
  have inv: "raft_node_inv (raft_default_config ''a'') (nodes trio_elected ''a'')"
    using raft.reach_inv [OF trio_elected_reach] by (simp add: cluster_inv_def)
  show ?thesis
    using raft_stopped_ignores [OF inv, of "GotVoteRequest 9 ''b''" trio_env] by simp
qed

text \<open>
  Between starts a node's term never goes down, and within a term it changes its vote in
  one way only: a candidate or leader that hears the leader of its own term forgets it.
\<close>

theorem raft_vote_stability:
  assumes "raft_enabled ev s" "\<forall>st. ev \<noteq> StartNode st"
  shows "currentTerm s < currentTerm (raft_next c e ev s) \<or>
    currentTerm (raft_next c e ev s) = currentTerm s \<and>
      (votedFor s = None \<or> votedFor (raft_next c e ev s) = votedFor s \<or>
       votedFor (raft_next c e ev s) = None \<and> role s \<noteq> Follower \<and>
         (\<exists>l. ev = GotAppendEntries (currentTerm s) l))"
  using assms
  by (cases ev;
      auto simp: raft_next_def startElection_def stepDown_def checkMajority_def becomeLeader_def
        startLeaderHeartbeat_def sendHeartbeat_def handlePeerLeaving_def onPeerDisconnected_def
        handleVoteRequest_def handleVoteResponse_def handleAppendEntries_def raft_stop_def
        resetElectionTimer_def clearElectionTimer_def clearLeaderHeartbeat_def Let_def
        split: if_splits option.splits)

theorem raft_vote_stability_witness:
  "votedFor (raft_next (raft_default_config ''a'') trio_env (GotVoteRequest 1 ''b'') (nodes trio_elected ''a''))
     = Some ''a''"
proof -
  let ?s = "nodes trio_elected ''a''"
  let ?s' = "raft_next (raft_default_config ''a'') trio_env (GotVoteRequest 1 ''b'') ?s"
  have "currentTerm ?s = 1" "votedFor ?s = Some ''a''" "currentTerm ?s' = 1"
    by (simp_all add: trio_elected_def trio_eval)
  with raft_vote_stability [of "GotVoteRequest 1 ''b''" ?s "raft_default_config ''a''" trio_env]
  show ?thesis by simp
qed

section \<open>Where the guarantee ends\<close>

text \<open>
  The cluster with the safety valve: a node whose last two elections nobody answered elects
  itself although its peers are connected.
\<close>

inductive open_step ::
  "instance_id set \<Rightarrow> (instance_id \<Rightarrow> raft_config) \<Rightarrow> raft_cluster \<Rightarrow> raft_cluster \<Rightarrow> bool"
  for U :: "instance_id set" and cf :: "instance_id \<Rightarrow> raft_config" where
  regular: "cluster_step U cf cl cl' \<Longrightarrow> open_step U cf cl cl'"
| valve: "i \<in> U \<Longrightarrow> peers e = card U - 1 \<Longrightarrow> raft_enabled ElectionTimeout (nodes cl i) \<Longrightarrow>
    open_step U cf cl (advance U cf e i ElectionTimeout cl)"

definition valve_run :: raft_cluster where
  "valve_run =
     (trio_do ''b'' ElectionTimeout ^^ 3) ((trio_do ''a'' ElectionTimeout ^^ 3) trio_start)"

lemma valve_timeout:
  assumes "reach ini (open_step trio raft_default_config) cl" "i \<in> trio" "electionTimer (nodes cl i) \<noteq> None"
  shows "reach ini (open_step trio raft_default_config) (trio_do i ElectionTimeout cl)"
  using assms by (intro reach.reach_step [OF assms(1) open_step.valve]) auto

text \<open>
  The safety valve gives up election safety: with every coordinator connected and every
  message merely delayed, three timeouts at each of two nodes make both of them leader of
  term 3.
\<close>

theorem raft_valve_two_leaders:
  "reach (cluster_init trio raft_default_config) (open_step trio raft_default_config) valve_run \<and>
   isLeader (nodes valve_run ''a'') \<and> isLeader (nodes valve_run ''b'') \<and>
   currentTerm (nodes valve_run ''a'') = 3 \<and> currentTerm (nodes valve_run ''b'') = 3"
proof -
  have "reach (cluster_init trio raft_default_config) (open_step trio raft_default_config) valve_run"
    unfolding valve_run_def numeral_3_eq_3 funpow.simps o_def id_apply
    by (intro valve_timeout trio_start_reach) (simp_all add: trio_eval)
  then show ?thesis
    by (simp add: valve_run_def numeral_3_eq_3 trio_eval)
qed

text \<open>
  Restart. All coordinators share one row of \<open>raft_state\<close>, and a save overwrites it whatever
  term and whatever node it came from. Below, \<open>a\<close> votes for \<open>b\<close> in term 1 and its save is
  followed by the save of \<open>c\<close>, which started its own election of term 1; then \<open>a\<close> crashes
  and starts again from the row.
\<close>

definition saved :: "raft_effect list \<Rightarrow> raft_table \<Rightarrow> raft_table" where
  "saved es t = fold (\<lambda>ef t. case ef of
       Save st \<Rightarrow> store_save ''default'' st t
     | SaveUnlessNewerTerm st \<Rightarrow> saveUnlessNewerTerm ''default'' st t
     | _ \<Rightarrow> t) es t"

definition crash_vote1 :: "raft_step \<times> raft_msg" where
  "crash_vote1 = handleVoteRequest (raft_default_config ''a'') trio_env 1 ''b'' (nodes trio_start ''a'')"

definition crash_row :: raft_table where
  "crash_row =
     saved (snd (startElection (raft_default_config ''c'') trio_env (nodes trio_start ''c'')))
       (saved (snd (fst crash_vote1)) Map.empty)"

definition crash_restarted :: raft_node where
  "crash_restarted =
     raft_start (raft_default_config ''a'') trio_env (store_load ''default'' crash_row) raft_init"

text \<open>
  A crash and restart lets one node vote twice in one term: the vote it recovers is the
  one another coordinator saved last, so \<open>a\<close> grants term 1 to \<open>b\<close>, restarts, and grants the
  same term to \<open>c\<close>.
\<close>

theorem raft_restart_double_vote:
  "snd crash_vote1 = VoteResponse 1 True ''a'' \<and>
   snd (handleVoteRequest (raft_default_config ''a'') trio_env 1 ''c'' crash_restarted)
     = VoteResponse 1 True ''a'' \<and>
   rp_votedFor (store_load ''default'' crash_row) = Some ''c''"
  by (simp add: crash_restarted_def crash_row_def crash_vote1_def saved_def store_save_def trio_eval)

end
