(* ===== verification/Js_Strings.thy ===== *)
theory Js_Strings
  imports Kici_Prelude "HOL-Library.Multiset"
begin

text \<open>
  The string operations of the source language that the components use. A string is the
  list of its code units, restricted to the code units below 256; on those the operations
  below are exact (case folding and white space included). Numbers in decimal notation are
  exact for every natural number; the source rounds above \<open>2^53\<close>.
\<close>

section \<open>Decimal numbers\<close>

definition is_digit :: "char \<Rightarrow> bool" where
  "is_digit c \<longleftrightarrow> 48 \<le> (of_char c :: nat) \<and> (of_char c :: nat) \<le> 57"

definition digit_char :: "nat \<Rightarrow> char" where
  "digit_char d = char_of (48 + d)"

definition digit_val :: "char \<Rightarrow> nat" where
  "digit_val c = of_char c - 48"

fun dec :: "nat \<Rightarrow> string" where
  "dec n = (if n < 10 then [digit_char n] else dec (n div 10) @ [digit_char (n mod 10)])"

declare dec.simps [simp del]

definition undec :: "string \<Rightarrow> nat" where
  "undec s = foldl (\<lambda>a c. 10 * a + digit_val c) 0 s"

definition all_digits :: "string \<Rightarrow> bool" where
  "all_digits s \<longleftrightarrow> s \<noteq> [] \<and> list_all is_digit s"

lemma of_char_digit: "d < 10 \<Longrightarrow> of_char (digit_char d) = 48 + d"
  by (simp add: digit_char_def)

lemma digit_val_char: "d < 10 \<Longrightarrow> digit_val (digit_char d) = d"
  by (simp add: digit_val_def of_char_digit)

lemma is_digit_char: "d < 10 \<Longrightarrow> is_digit (digit_char d)"
  by (simp add: is_digit_def of_char_digit)

lemma dec_nonempty [simp]: "dec n \<noteq> []"
  by (subst dec.simps) simp

lemma list_all_dec: "list_all is_digit (dec n)"
proof (induction n rule: dec.induct)
  case (1 n)
  then show ?case by (subst dec.simps) (auto simp: is_digit_char)
qed

lemma all_digits_dec [simp]: "all_digits (dec n)"
  by (simp add: all_digits_def list_all_dec)

lemma undec_dec [simp]: "undec (dec n) = n"
proof (induction n rule: dec.induct)
  case (1 n)
  show ?case
  proof (cases "n < 10")
    case True
    then show ?thesis by (subst dec.simps) (simp add: undec_def digit_val_char)
  next
    case False
    with 1 have "undec (dec (n div 10)) = n div 10" by simp
    with False show ?thesis
      by (subst dec.simps) (simp add: undec_def digit_val_char)
  qed
qed

lemma dec_inj: "dec m = dec n \<Longrightarrow> m = n"
  by (metis undec_dec)

lemma digit_not_in_dec: "\<not> is_digit c \<Longrightarrow> c \<notin> set (dec n)"
  using list_all_dec [of n] by (auto simp: list_all_iff)

section \<open>Prefixes, slices, joining, splitting\<close>

definition startsWith :: "string \<Rightarrow> string \<Rightarrow> bool" where
  "startsWith s p \<longleftrightarrow> take (length p) s = p"

definition endsWith :: "string \<Rightarrow> string \<Rightarrow> bool" where
  "endsWith s p \<longleftrightarrow> startsWith (rev s) (rev p)"

lemma startsWith_append [simp]: "startsWith (p @ s) p"
  by (simp add: startsWith_def)

lemma startsWith_iff: "startsWith s p \<longleftrightarrow> (\<exists>r. s = p @ r)"
  by (metis append_eq_conv_conj append_take_drop_id startsWith_def)

fun join :: "string \<Rightarrow> string list \<Rightarrow> string" where
  "join sep [] = []"
| "join sep [s] = s"
| "join sep (s # t # r) = s @ sep @ join sep (t # r)"

text \<open>\<open>s.includes(t)\<close>.\<close>

fun str_includes :: "string \<Rightarrow> string \<Rightarrow> bool" where
  "str_includes [] t = (t = [])"
| "str_includes (c # s) t = (startsWith (c # s) t \<or> str_includes s t)"

text \<open>\<open>s.split(sep)\<close> for a separator of one character.\<close>

fun js_split :: "char \<Rightarrow> string \<Rightarrow> string list" where
  "js_split sep [] = [[]]"
| "js_split sep (c # s) =
     (if c = sep then [] # js_split sep s
      else case js_split sep s of [] \<Rightarrow> [[c]] | t # ts \<Rightarrow> (c # t) # ts)"

lemma js_split_chars: "set s \<subseteq> insert sep (\<Union> (set ` set (js_split sep s)))"
proof (induction sep s rule: js_split.induct)
  case (2 sep c s)
  then show ?case by (cases "js_split sep s") auto
qed simp

section \<open>Case folding and trimming\<close>

definition lower_char :: "char \<Rightarrow> char" where
  "lower_char c = (let n = (of_char c :: nat) in
     if 65 \<le> n \<and> n \<le> 90 \<or> 192 \<le> n \<and> n \<le> 222 \<and> n \<noteq> 215 then char_of (n + 32) else c)"

definition toLowerCase :: "string \<Rightarrow> string" where
  "toLowerCase s = map lower_char s"

definition is_space :: "char \<Rightarrow> bool" where
  "is_space c \<longleftrightarrow> (let n = (of_char c :: nat) in 9 \<le> n \<and> n \<le> 13 \<or> n = 32 \<or> n = 160)"

definition trim :: "string \<Rightarrow> string" where
  "trim s = rev (dropWhile is_space (rev (dropWhile is_space s)))"

lemma of_char_lower:
  "(of_char (lower_char c) :: nat) =
    (let n = of_char c in if 65 \<le> n \<and> n \<le> 90 \<or> 192 \<le> n \<and> n \<le> 222 \<and> n \<noteq> 215 then n + 32 else n)"
  by (auto simp: lower_char_def Let_def)

lemma lower_char_idem [simp]: "lower_char (lower_char c) = lower_char c"
proof -
  have "of_char (lower_char (lower_char c)) = (of_char (lower_char c) :: nat)"
    by (auto simp: of_char_lower Let_def)
  then show ?thesis by (metis char_of_char)
qed

lemma is_space_lower [simp]: "is_space (lower_char c) = is_space c"
  by (auto simp: is_space_def of_char_lower Let_def)

lemma toLowerCase_idem [simp]: "toLowerCase (toLowerCase s) = toLowerCase s"
  by (simp add: toLowerCase_def)

lemma trim_lower: "trim (toLowerCase s) = toLowerCase (trim s)"
  by (simp add: trim_def toLowerCase_def dropWhile_map rev_map comp_def)

lemma trim_idem [simp]: "trim (trim s) = trim s"
proof -
  define t where "t = dropWhile is_space s"
  define u where "u = dropWhile is_space (rev t)"
  have u: "u = [] \<or> \<not> is_space (hd u)"
    using hd_dropWhile [of is_space "rev t"] by (auto simp: u_def)
  obtain w where w: "rev t = w @ u"
    by (metis takeWhile_dropWhile_id u_def)
  then have t: "t = rev u @ rev w" by (metis rev_append rev_rev_ident)
  have ht: "t = [] \<or> \<not> is_space (hd t)"
    using hd_dropWhile [of is_space s] by (auto simp: t_def)
  have "dropWhile is_space (rev u) = rev u"
  proof (cases u)
    case (Cons c cs)
    then have "hd (rev u) = hd t" using t by (simp add: hd_append)
    with ht t Cons show ?thesis by (cases "rev u") auto
  qed simp
  moreover have "dropWhile is_space u = u" using u by (cases u) auto
  ultimately show ?thesis by (simp add: trim_def t_def [symmetric] u_def [symmetric])
qed

section \<open>Untyped values\<close>

text \<open>
  A value of type \<open>unknown\<close>. Numbers are the integers (what matrices, inputs and step data
  carry); an object lists its own enumerable properties in the order of \<open>Object.entries\<close>.
\<close>

datatype js =
    JUndef | JNull | JBool bool | JNum int | JStr string | JArr "js list" | JObj "(string \<times> js) list"

definition dec_int :: "int \<Rightarrow> string" where
  "dec_int i = (if i < 0 then ''-'' @ dec (nat (- i)) else dec (nat i))"

definition nullish :: "js \<Rightarrow> bool" where
  "nullish v \<longleftrightarrow> v = JUndef \<or> v = JNull"

definition js_get :: "(string \<times> js) list \<Rightarrow> string \<Rightarrow> js" where
  "js_get obj k = (case map_of obj k of None \<Rightarrow> JUndef | Some v \<Rightarrow> v)"

text \<open>
  The order of an object's own properties: array-index keys first, ascending, then the
  others as they were defined. \<open>js_object\<close> is \<open>Object.fromEntries\<close>; a later entry
  overwrites an earlier one of the same key.
\<close>

definition is_index_key :: "string \<Rightarrow> bool" where
  "is_index_key k \<longleftrightarrow> all_digits k \<and> dec (undec k) = k \<and> undec k < 4294967295"

definition js_order :: "(string \<times> 'v) list \<Rightarrow> (string \<times> 'v) list" where
  "js_order m = sort_key (\<lambda>e. undec (fst e)) (filter (\<lambda>e. is_index_key (fst e)) m)
     @ filter (\<lambda>e. \<not> is_index_key (fst e)) m"

definition js_object :: "(string \<times> 'v) list \<Rightarrow> (string \<times> 'v) list" where
  "js_object es = js_order (fold (\<lambda>(k, v). amap_set k v) es [])"

lemma set_js_order [simp]: "set (js_order m) = set m"
  by (auto simp: js_order_def)

lemma distinct_js_order: "distinct (map fst m) \<Longrightarrow> distinct (map fst (js_order m))"
proof -
  assume d: "distinct (map fst m)"
  have "mset (map fst (js_order m)) = mset (map fst m)"
    unfolding js_order_def
    by (simp add: multiset_partition [symmetric] image_mset_union [symmetric] del: image_mset_union)
  then show ?thesis using d by (metis mset_eq_imp_distinct_iff)
qed

lemma distinct_fold_amap_set:
  "distinct (map fst m) \<Longrightarrow> distinct (map fst (fold (\<lambda>(k, v). amap_set k v) es m))"
  by (induction es arbitrary: m) (auto split: prod.split)

lemma distinct_js_object: "distinct (map fst (js_object es))"
  by (simp add: js_object_def distinct_js_order distinct_fold_amap_set)

lemma map_of_perm_distinct:
  "set m = set m' \<Longrightarrow> distinct (map fst m) \<Longrightarrow> distinct (map fst m') \<Longrightarrow> map_of m = map_of m'"
  by (metis map_of_eqI map_of_eq_Some_iff option.exhaust set_map ext)

lemma map_of_js_order: "distinct (map fst m) \<Longrightarrow> map_of (js_order m) = map_of m"
  by (rule map_of_perm_distinct) (auto simp: distinct_js_order)

lemma map_of_fold_amap_set:
  "map_of (fold (\<lambda>(k, v). amap_set k v) es m) = map_of m ++ map_of (rev es)"
  by (induction es arbitrary: m) (auto simp: map_add_def fun_eq_iff split: option.split)

lemma map_of_js_object: "map_of (js_object es) = map_of (rev es)"
proof -
  have "map_of (js_object es) = map_of (fold (\<lambda>(k, v). amap_set k v) es [])"
    unfolding js_object_def by (rule map_of_js_order) (simp add: distinct_fold_amap_set)
  then show ?thesis by (simp add: map_of_fold_amap_set)
qed

section \<open>Sorting by a comparison the locale gives\<close>

text \<open>
  \<open>xs.sort((a, b) => key(a).localeCompare(key(b)))\<close>. The collation is a parameter \<open>le\<close>: "sorts
  not after". The sort of the source is stable, which insertion from the right is too.
\<close>

fun ins_by :: "('a \<Rightarrow> 'a \<Rightarrow> bool) \<Rightarrow> 'a \<Rightarrow> 'a list \<Rightarrow> 'a list" where
  "ins_by le x [] = [x]"
| "ins_by le x (y # ys) = (if le x y then x # y # ys else y # ins_by le x ys)"

definition sort_by :: "('a \<Rightarrow> 'a \<Rightarrow> bool) \<Rightarrow> 'a list \<Rightarrow> 'a list" where
  "sort_by le xs = foldr (ins_by le) xs []"

lemma set_ins_by [simp]: "set (ins_by le x ys) = insert x (set ys)"
  by (induction ys) auto

lemma length_ins_by [simp]: "length (ins_by le x ys) = Suc (length ys)"
  by (induction ys) auto

lemma distinct_ins_by [simp]: "distinct (ins_by le x ys) = (x \<notin> set ys \<and> distinct ys)"
  by (induction ys) auto

lemma sort_by_simps [simp]:
  "sort_by le [] = []" "sort_by le (x # xs) = ins_by le x (sort_by le xs)"
  by (simp_all add: sort_by_def)

lemma set_sort_by [simp]: "set (sort_by le xs) = set xs"
  by (induction xs) auto

lemma length_sort_by [simp]: "length (sort_by le xs) = length xs"
  by (induction xs) auto

lemma distinct_sort_by [simp]: "distinct (sort_by le xs) = distinct xs"
  by (induction xs) auto

lemma mset_ins_by [simp]: "mset (ins_by le x ys) = add_mset x (mset ys)"
  by (induction ys) auto

lemma mset_sort_by [simp]: "mset (sort_by le xs) = mset xs"
  by (induction xs) auto

lemma distinct_map_sort_by [simp]: "distinct (map f (sort_by le xs)) = distinct (map f xs)"
  by (metis mset_eq_imp_distinct_iff mset_map mset_sort_by)

lemma sort_by_Nil_iff [simp]: "sort_by le xs = [] \<longleftrightarrow> xs = []"
  by (metis length_0_conv length_sort_by)

text \<open>The contract of a collation: a total preorder.\<close>

locale collation =
  fixes le :: "'a \<Rightarrow> 'a \<Rightarrow> bool"
  assumes total: "le x y \<or> le y x"
    and trans: "le x y \<Longrightarrow> le y z \<Longrightarrow> le x z"
begin

lemma sorted_ins_by: "sorted_wrt le ys \<Longrightarrow> sorted_wrt le (ins_by le x ys)"
proof (induction ys)
  case (Cons y ys)
  then show ?case using total [of x y] trans by auto
qed simp

lemma sorted_sort_by: "sorted_wrt le (sort_by le xs)"
  by (induction xs) (auto simp: sorted_ins_by)

end

section \<open>The default order of strings\<close>

text \<open>\<open>xs.sort()\<close> without a comparison orders strings by their code units.\<close>

fun code_unit_le :: "string \<Rightarrow> string \<Rightarrow> bool" where
  "code_unit_le [] t = True"
| "code_unit_le (c # s) [] = False"
| "code_unit_le (c # s) (d # t) =
     ((of_char c :: nat) < of_char d \<or> c = d \<and> code_unit_le s t)"

lemma code_unit_le_total: "code_unit_le s t \<or> code_unit_le t s"
proof (induction s t rule: code_unit_le.induct)
  case (3 c s d t)
  have "(of_char c :: nat) < of_char d \<or> c = d \<or> (of_char d :: nat) < of_char c"
    by (metis linorder_less_linear of_char_eq_iff)
  with 3 show ?case by auto
qed simp_all

lemma code_unit_le_trans: "code_unit_le s t \<Longrightarrow> code_unit_le t u \<Longrightarrow> code_unit_le s u"
proof (induction s t arbitrary: u rule: code_unit_le.induct)
  case (3 c s d t)
  then show ?case by (cases u) auto
qed simp_all

interpretation code_units: collation code_unit_le
  by unfold_locales (rule code_unit_le_total, erule (1) code_unit_le_trans)

end
