(* ===== verification/Statuses.thy ===== *)
theory Statuses
  imports Js_Strings
begin

text \<open>
  The status vocabulary of runs, jobs and steps, and how a stored step is placed in the
  timeline of its job: \<open>packages/engine/src/protocol/messages/execution-status.ts\<close>, with the
  clamp of free text from \<open>bounded-text.ts\<close>. The message schemas of the file are not
  modelled.
\<close>

section \<open>Enumerations\<close>

datatype run_status =
  RPending | RRunning | RSuccess | RFailed | RCancelled | RCancelling | RHeld

datatype job_status =
  JPending | JQueued | JRunning | JRecovering | JCancelling | JSuccess | JFailed | JCancelled
  | JSkipped | JTimedOutStale | JDriftDropped | JUnroutable

datatype step_status = SRunning | SSuccess | SFailed | SSkipped | SPending | SCancelled

definition ExecutionRunStatus :: "run_status list" where
  "ExecutionRunStatus = [RPending, RRunning, RSuccess, RFailed, RCancelled, RCancelling, RHeld]"

definition ExecutionJobStatus :: "job_status list" where
  "ExecutionJobStatus = [JPending, JQueued, JRunning, JRecovering, JCancelling, JSuccess, JFailed,
     JCancelled, JSkipped, JTimedOutStale, JDriftDropped, JUnroutable]"

fun run_status_name :: "run_status \<Rightarrow> string" where
  "run_status_name RPending = ''pending''"
| "run_status_name RRunning = ''running''"
| "run_status_name RSuccess = ''success''"
| "run_status_name RFailed = ''failed''"
| "run_status_name RCancelled = ''cancelled''"
| "run_status_name RCancelling = ''cancelling''"
| "run_status_name RHeld = ''held''"

fun job_status_name :: "job_status \<Rightarrow> string" where
  "job_status_name JPending = ''pending''"
| "job_status_name JQueued = ''queued''"
| "job_status_name JRunning = ''running''"
| "job_status_name JRecovering = ''recovering''"
| "job_status_name JCancelling = ''cancelling''"
| "job_status_name JSuccess = ''success''"
| "job_status_name JFailed = ''failed''"
| "job_status_name JCancelled = ''cancelled''"
| "job_status_name JSkipped = ''skipped''"
| "job_status_name JTimedOutStale = ''timed_out_stale''"
| "job_status_name JDriftDropped = ''drift_dropped''"
| "job_status_name JUnroutable = ''unroutable''"

definition statusOptionsForLevel :: "bool \<Rightarrow> string list" where
  "statusOptionsForLevel isJob =
     (if isJob then map job_status_name ExecutionJobStatus
      else map run_status_name ExecutionRunStatus)"

definition TERMINAL_RUN_STATES :: "run_status list" where
  "TERMINAL_RUN_STATES = [RSuccess, RFailed, RCancelled]"

definition TERMINAL_JOB_STATES :: "job_status list" where
  "TERMINAL_JOB_STATES =
     [JSuccess, JFailed, JCancelled, JSkipped, JTimedOutStale, JDriftDropped, JUnroutable]"

definition TERMINAL_STEP_STATES :: "step_status list" where
  "TERMINAL_STEP_STATES = [SSuccess, SFailed, SSkipped, SCancelled]"

text \<open>\<open>TerminalJobStatus\<close>: every status but the five excluded ones.\<close>

definition TerminalJobStatus :: "job_status list" where
  "TerminalJobStatus =
     filter (\<lambda>s. s \<notin> {JPending, JQueued, JRunning, JRecovering, JCancelling}) ExecutionJobStatus"

lemma job_status_exhausted: "s \<in> set ExecutionJobStatus"
  by (cases s) (simp_all add: ExecutionJobStatus_def)

lemma job_status_name_inj: "job_status_name s = job_status_name t \<Longrightarrow> s = t"
  by (cases s; cases t) simp_all

lemma terminal_job_type: "TerminalJobStatus = TERMINAL_JOB_STATES"
  by (simp add: TerminalJobStatus_def TERMINAL_JOB_STATES_def ExecutionJobStatus_def)

section \<open>Init steps and setup steps\<close>

definition INIT_STEP_TYPE_PREFIX :: string where
  "INIT_STEP_TYPE_PREFIX = ''init:''"

definition INIT_STEP_INDEX_BASE :: int where
  "INIT_STEP_INDEX_BASE = 1000000"

definition UNTYPED_STEP_TYPE :: string where
  "UNTYPED_STEP_TYPE = ''step''"

definition isSetupStepType :: "string option \<Rightarrow> bool" where
  "isSetupStepType t \<longleftrightarrow> t = Some ''container:build''"

definition stepTypeOf :: "(string \<times> js) list option \<Rightarrow> string option" where
  "stepTypeOf data = (case data of
     None \<Rightarrow> None
   | Some d \<Rightarrow>
       let v = js_get d ''stepType''; v = (if nullish v then js_get d ''step_type'' else v)
       in (case v of JStr s \<Rightarrow> if s \<noteq> [] then Some s else None | _ \<Rightarrow> None))"

definition initStepType :: "nat \<Rightarrow> string" where
  "initStepType n = INIT_STEP_TYPE_PREFIX @ dec n"

definition initStepIndex :: "string option \<Rightarrow> nat option" where
  "initStepIndex t = (case t of
     None \<Rightarrow> None
   | Some s \<Rightarrow>
       if \<not> startsWith s INIT_STEP_TYPE_PREFIX then None
       else let rest = drop (length INIT_STEP_TYPE_PREFIX) s
            in if all_digits rest then Some (undec rest) else None)"

definition initStepLabel :: "nat \<Rightarrow> string" where
  "initStepLabel n = ''init['' @ dec n @ '']''"

text \<open>The expression \<open>/^init\[(\d+)\]$/\<close>: the digits between the brackets, if that is all there is.\<close>

definition init_label_match :: "string \<Rightarrow> string option" where
  "init_label_match s =
     (if startsWith s ''init['' \<and> endsWith s '']'' \<and> all_digits (butlast (drop 5 s))
      then Some (butlast (drop 5 s)) else None)"

definition parseInitStepRef :: "string \<Rightarrow> nat option" where
  "parseInitStepRef r = (case init_label_match r of
     Some ds \<Rightarrow> Some (undec ds)
   | None \<Rightarrow> initStepIndex (Some r))"

section \<open>The phase of a stored step\<close>

datatype step_phase = SetupPhase | InitPhase | StepsPhase

record step_ref =
  stepIndex :: int
  stepType :: "string option"
  stepName :: "string option"

definition stepInitIndex :: "step_ref \<Rightarrow> nat option" where
  "stepInitIndex st = (case initStepIndex (stepType st) of
     Some n \<Rightarrow> Some n
   | None \<Rightarrow>
       if stepType st \<noteq> None \<and> stepType st \<noteq> Some UNTYPED_STEP_TYPE then None
       else let position = stepIndex st - INIT_STEP_INDEX_BASE
            in if 0 \<le> position \<and> stepName st = Some (initStepType (nat position))
               then Some (nat position) else None)"

definition stepPhase :: "step_ref \<Rightarrow> step_phase" where
  "stepPhase st =
     (if isSetupStepType (stepType st) then SetupPhase
      else if stepInitIndex st \<noteq> None then InitPhase
      else StepsPhase)"

definition stepClassification :: "step_ref \<Rightarrow> step_phase \<times> nat option" where
  "stepClassification st = (stepPhase st, stepInitIndex st)"

fun phase_rank :: "step_phase \<Rightarrow> int" where
  "phase_rank SetupPhase = 0"
| "phase_rank InitPhase = 1"
| "phase_rank StepsPhase = 2"

definition compareStepsByPhase :: "step_ref \<Rightarrow> step_ref \<Rightarrow> int" where
  "compareStepsByPhase a b =
     (let byPhase = phase_rank (stepPhase a) - phase_rank (stepPhase b)
      in if byPhase \<noteq> 0 then byPhase else stepIndex a - stepIndex b)"

section \<open>Clamping free text\<close>

text \<open>
  Text is a list of UTF-16 code units here: the marker begins with U+2026, and the cut must
  not split a surrogate pair.
\<close>

type_synonym utf16 = "nat list"

definition TRUNCATION_MARKER :: utf16 where
  "TRUNCATION_MARKER = 8230 # map of_char '' (truncated)''"

definition KEEP_END_TRUNCATION_MARKER :: utf16 where
  "KEEP_END_TRUNCATION_MARKER = 8230 # map of_char '' (truncated) ''"

definition truncateReasonText :: "utf16 \<Rightarrow> int \<Rightarrow> utf16" where
  "truncateReasonText t mx =
     (if mx \<le> 0 then []
      else if int (length t) \<le> mx then t
      else if mx \<le> int (length TRUNCATION_MARKER) then take (nat mx) TRUNCATION_MARKER
      else
        let cut = nat mx - length TRUNCATION_MARKER;
            c = t ! (cut - 1);
            cut = (if 55296 \<le> c \<and> c \<le> 56319 then cut - 1 else cut)
        in take cut t @ TRUNCATION_MARKER)"

definition truncateReasonTextKeepEnd :: "utf16 \<Rightarrow> int \<Rightarrow> utf16" where
  "truncateReasonTextKeepEnd t mx =
     (if mx \<le> 0 then []
      else if int (length t) \<le> mx then t
      else if mx \<le> int (length KEEP_END_TRUNCATION_MARKER)
        then take (nat mx) KEEP_END_TRUNCATION_MARKER
      else
        let start = length t - (nat mx - length KEEP_END_TRUNCATION_MARKER);
            c = t ! start;
            start = (if 56320 \<le> c \<and> c \<le> 57343 then start + 1 else start)
        in KEEP_END_TRUNCATION_MARKER @ drop start t)"

definition STATUS_FREE_TEXT_MAX :: int where
  "STATUS_FREE_TEXT_MAX = 2000"

definition clampStatusFreeText :: "utf16 \<Rightarrow> utf16" where
  "clampStatusFreeText t = truncateReasonText t STATUS_FREE_TEXT_MAX"

section \<open>Properties\<close>

lemma init_label_match_label: "init_label_match (initStepLabel n) = Some (dec n)"
  by (simp add: init_label_match_def initStepLabel_def startsWith_def endsWith_def)

lemma initStepIndex_type: "initStepIndex (Some (initStepType n)) = Some n"
  by (simp add: initStepIndex_def initStepType_def INIT_STEP_TYPE_PREFIX_def startsWith_def)

lemma initStepType_inj: "initStepType m = initStepType n \<longleftrightarrow> m = n"
  using dec_inj by (auto simp: initStepType_def)

lemma init_label_match_type: "init_label_match (initStepType n) = None"
  by (simp add: init_label_match_def initStepType_def INIT_STEP_TYPE_PREFIX_def startsWith_def)

text \<open>
  Both spellings of the n-th init command are read back as n; and a stored step is the
  init step n when its type says so, or when it has no type and both its index and its name
  say so.
\<close>

theorem init_step_roundtrip:
  "parseInitStepRef (initStepLabel n) = Some n \<and>
   parseInitStepRef (initStepType n) = Some n \<and>
   stepInitIndex \<lparr>stepIndex = i, stepType = Some (initStepType n), stepName = nm\<rparr> = Some n \<and>
   (stepInitIndex \<lparr>stepIndex = i, stepType = None, stepName = Some (initStepType n)\<rparr> =
      (if i = INIT_STEP_INDEX_BASE + int n then Some n else None))"
  by (auto simp: parseInitStepRef_def init_label_match_label init_label_match_type
      initStepIndex_type stepInitIndex_def initStepIndex_def [of None] initStepType_inj Let_def)

text \<open>
  The display comparator orders steps by phase and then by index: it is antisymmetric and
  transitive, and a setup or init step comes before every real step whatever their indices.
\<close>

theorem compareStepsByPhase_order:
  "(compareStepsByPhase a b < 0 \<longleftrightarrow>
      phase_rank (stepPhase a) < phase_rank (stepPhase b) \<or>
      stepPhase a = stepPhase b \<and> stepIndex a < stepIndex b) \<and>
   sgn (compareStepsByPhase a b) = - sgn (compareStepsByPhase b a) \<and>
   \<not> (compareStepsByPhase a b \<le> 0 \<and> compareStepsByPhase b c \<le> 0 \<and> 0 < compareStepsByPhase a c)"
proof -
  have inj: "phase_rank p = phase_rank q \<longleftrightarrow> p = q" for p q
    by (cases p; cases q) simp_all
  show ?thesis
    unfolding compareStepsByPhase_def Let_def
    by (auto simp: inj sgn_if)
qed

interpretation step_order: collation "\<lambda>a b. compareStepsByPhase a b \<le> 0"
  by unfold_locales (auto simp: compareStepsByPhase_def Let_def split: if_splits)

lemma steps_in_display_order:
  "sorted_wrt (\<lambda>a b. phase_rank (stepPhase a) \<le> phase_rank (stepPhase b))
     (sort_by (\<lambda>a b. compareStepsByPhase a b \<le> 0) steps)"
  by (rule sorted_wrt_mono_rel [OF _ step_order.sorted_sort_by])
    (auto simp: compareStepsByPhase_def Let_def split: if_splits)

lemma length_marker [simp]: "length TRUNCATION_MARKER = 13" "length KEEP_END_TRUNCATION_MARKER = 14"
  by (simp_all add: TRUNCATION_MARKER_def KEEP_END_TRUNCATION_MARKER_def)

text \<open>
  Clamping never exceeds its bound, leaves text within the bound alone, keeps the start
  (or, for the other variant, the end) of longer text with the marker in place of the rest,
  drops at most one code unit to keep a surrogate pair whole, and is idempotent.
\<close>

theorem truncateReasonText_clamps:
  "int (length (truncateReasonText t mx)) \<le> max 0 mx \<and>
   int (length (truncateReasonTextKeepEnd t mx)) \<le> max 0 mx \<and>
   truncateReasonText (truncateReasonText t mx) mx = truncateReasonText t mx \<and>
   (truncateReasonText t mx = t \<or> mx \<le> 13 \<or>
     (\<exists>k \<in> {nat mx - 14, nat mx - 13}. truncateReasonText t mx = take k t @ TRUNCATION_MARKER)) \<and>
   (truncateReasonTextKeepEnd t mx = t \<or> mx \<le> 14 \<or>
     (\<exists>k \<in> {nat mx - 15, nat mx - 14}.
        truncateReasonTextKeepEnd t mx = KEEP_END_TRUNCATION_MARKER @ drop (length t - k) t))"
proof -
  have len: "int (length (truncateReasonText t mx)) \<le> max 0 mx" for t
    by (auto simp: truncateReasonText_def Let_def)
  moreover have "int (length (truncateReasonTextKeepEnd t mx)) \<le> max 0 mx"
    by (auto simp: truncateReasonTextKeepEnd_def Let_def)
  moreover have "truncateReasonText (truncateReasonText t mx) mx = truncateReasonText t mx"
  proof (cases "mx \<le> 0")
    case True
    then show ?thesis by (simp add: truncateReasonText_def)
  next
    case False
    with len [of t] have "int (length (truncateReasonText t mx)) \<le> mx" by simp
    with False show ?thesis by (simp add: truncateReasonText_def [of "truncateReasonText t mx"])
  qed
  moreover have "truncateReasonText t mx = t \<or> mx \<le> 13 \<or>
     (\<exists>k \<in> {nat mx - 14, nat mx - 13}. truncateReasonText t mx = take k t @ TRUNCATION_MARKER)"
    by (auto simp: truncateReasonText_def Let_def)
  moreover have "truncateReasonTextKeepEnd t mx = t \<or> mx \<le> 14 \<or>
     (\<exists>k \<in> {nat mx - 15, nat mx - 14}.
        truncateReasonTextKeepEnd t mx = KEEP_END_TRUNCATION_MARKER @ drop (length t - k) t)"
  proof -
    have "Suc (length t - (nat mx - 14)) = length t - (nat mx - 15)"
      if "14 < mx" "mx < int (length t)" using that by arith
    then show ?thesis by (auto simp: truncateReasonTextKeepEnd_def Let_def)
  qed
  ultimately show ?thesis by blast
qed

end
