(* ===== verification/Concurrency.thy ===== *)
theory Concurrency
  imports Statuses
begin

text \<open>
  Concurrency groups: the arbiter \<open>ConcurrencyQueueManager\<close>
  (\<open>packages/orchestrator/src/concurrency/queue-manager.ts\<close>), the registry of parked agents
  (\<open>waiters.ts\<close>), the dispatch on a slot release (\<open>dispatch-next-queued.ts\<close>), and the two
  places that drive them: \<open>onConcurrencyReport\<close> in \<open>app.ts\<close> and the release on run completion
  in \<open>orchestrator-core.ts\<close>.

  A transaction is a function on the database: the advisory lock of \<open>lockScope\<close> makes the
  arbitration transactions of one scope run one after the other. Interleavings of whole
  transactions are the step relation at the end.
\<close>

section \<open>The table\<close>

datatype slot_status = SlotActive | SlotQueued | SlotCompleted | SlotCancelled

record cg_row =
  cg_id :: nat
  groupKey :: string
  routingKey :: string
  runId :: run_id
  jobId :: job_id
  slotStatus :: slot_status
  created_at :: nat
  completed_at :: "nat option"

record cg_db =
  cg_rows :: "cg_row list"
  run_state :: "run_id \<rightharpoonup> run_status"

text \<open>
  The partial unique index on \<open>(routing_key, group_key, run_id) WHERE status = 'active'\<close>: an
  UPDATE that would break it raises and rolls its transaction back.
\<close>

datatype pg_error = UniqueViolation

type_synonym 'a pg = "pg_error + 'a"

definition in_scope :: "string \<Rightarrow> string \<Rightarrow> cg_row \<Rightarrow> bool" where
  "in_scope g r row \<longleftrightarrow> groupKey row = g \<and> routingKey row = r"

definition is_active :: "string \<Rightarrow> string \<Rightarrow> cg_row \<Rightarrow> bool" where
  "is_active g r row \<longleftrightarrow> in_scope g r row \<and> slotStatus row = SlotActive"

definition is_queued :: "string \<Rightarrow> string \<Rightarrow> cg_row \<Rightarrow> bool" where
  "is_queued g r row \<longleftrightarrow> in_scope g r row \<and> slotStatus row = SlotQueued"

definition active_rows :: "string \<Rightarrow> string \<Rightarrow> cg_db \<Rightarrow> cg_row list" where
  "active_rows g r db = order_by created_at (is_active g r) (cg_rows db)"

definition queued_rows :: "string \<Rightarrow> string \<Rightarrow> cg_db \<Rightarrow> cg_row list" where
  "queued_rows g r db = order_by created_at (is_queued g r) (cg_rows db)"

definition run_finished :: "cg_db \<Rightarrow> run_id \<Rightarrow> bool" where
  "run_finished db run \<longleftrightarrow> (case run_state db run of None \<Rightarrow> False | Some st \<Rightarrow> st \<in> set TERMINAL_RUN_STATES)"

definition finish :: "slot_status \<Rightarrow> nat \<Rightarrow> cg_row \<Rightarrow> cg_row" where
  "finish st t row = row\<lparr>slotStatus := st, completed_at := Some t\<rparr>"

section \<open>Transactions\<close>

definition activeRunIds :: "string \<Rightarrow> string \<Rightarrow> nat \<Rightarrow> cg_db \<Rightarrow> run_id list \<times> cg_db" where
  "activeRunIds g r t db =
     (let rows = active_rows g r db in
      if rows = [] then ([], db)
      else
        let leaked = filter (\<lambda>row. run_finished db (runId row)) rows in
        if leaked = [] then (map runId rows, db)
        else
          (map runId (filter (\<lambda>row. \<not> run_finished db (runId row)) rows),
           db\<lparr>cg_rows := update_where (\<lambda>row. cg_id row \<in> set (map cg_id leaked))
                          (finish SlotCompleted t) (cg_rows db)\<rparr>))"

definition acquireSlot ::
  "string \<Rightarrow> string \<Rightarrow> run_id \<Rightarrow> job_id \<Rightarrow> int \<Rightarrow> nat \<Rightarrow> nat \<Rightarrow> cg_db \<Rightarrow> bool \<times> cg_db" where
  "acquireSlot g r run job mx newId t db =
     (if \<exists>row \<in> set (cg_rows db). is_active g r row \<and> runId row = run then (True, db)
      else
        let (active, db) = activeRunIds g r t db in
        if mx \<le> int (length active) then (False, db)
        else (True, db\<lparr>cg_rows := cg_rows db @
          [\<lparr>cg_id = newId, groupKey = g, routingKey = r, runId = run, jobId = job,
            slotStatus = SlotActive, created_at = t, completed_at = None\<rparr>]\<rparr>))"

definition markCompleted :: "run_id \<Rightarrow> string \<Rightarrow> string \<Rightarrow> nat \<Rightarrow> cg_db \<Rightarrow> cg_db" where
  "markCompleted run g r t db =
     db\<lparr>cg_rows := update_where (\<lambda>row. is_active g r row \<and> runId row = run)
                    (finish SlotCompleted t) (cg_rows db)\<rparr>"

definition releaseSlot :: "string \<Rightarrow> string \<Rightarrow> run_id \<Rightarrow> nat \<Rightarrow> cg_db \<Rightarrow> cg_db" where
  "releaseSlot g r run t db = markCompleted run g r t db"

definition getActiveRuns :: "string \<Rightarrow> string \<Rightarrow> nat \<Rightarrow> cg_db \<Rightarrow> run_id list \<times> cg_db" where
  "getActiveRuns g r t db = activeRunIds g r t db"

definition getOldestRun :: "string \<Rightarrow> string \<Rightarrow> nat \<Rightarrow> cg_db \<Rightarrow> run_id option \<times> cg_db" where
  "getOldestRun g r t db =
     (let (active, db) = getActiveRuns g r t db
      in (case active of [] \<Rightarrow> None | run # _ \<Rightarrow> Some run, db))"

definition enqueue :: "string \<Rightarrow> string \<Rightarrow> run_id \<Rightarrow> job_id \<Rightarrow> nat \<Rightarrow> nat \<Rightarrow> cg_db \<Rightarrow> cg_db" where
  "enqueue g r run job newId t db = db\<lparr>cg_rows := cg_rows db @
     [\<lparr>cg_id = newId, groupKey = g, routingKey = r, runId = run, jobId = job,
       slotStatus = SlotQueued, created_at = t, completed_at = None\<rparr>]\<rparr>"

definition promoteOldestQueued :: "string \<Rightarrow> string \<Rightarrow> cg_db \<Rightarrow> (cg_row option \<times> cg_db) pg" where
  "promoteOldestQueued g r db =
     (case queued_rows g r db of
        [] \<Rightarrow> Inr (None, db)
      | row # _ \<Rightarrow>
          if \<exists>row' \<in> set (cg_rows db). is_active g r row' \<and> runId row' = runId row
          then Inl UniqueViolation
          else Inr (Some row, db\<lparr>cg_rows := update_where (\<lambda>row'. cg_id row' = cg_id row)
                 (\<lambda>row'. row'\<lparr>slotStatus := SlotActive\<rparr>) (cg_rows db)\<rparr>))"

definition dequeueNext :: "string \<Rightarrow> string \<Rightarrow> cg_db \<Rightarrow> (cg_row option \<times> cg_db) pg" where
  "dequeueNext g r db = promoteOldestQueued g r db"

definition cancelQueued :: "run_id \<Rightarrow> nat \<Rightarrow> cg_db \<Rightarrow> cg_db" where
  "cancelQueued run t db =
     db\<lparr>cg_rows := update_where (\<lambda>row. runId row = run \<and> slotStatus row = SlotQueued)
                    (finish SlotCancelled t) (cg_rows db)\<rparr>"

definition onJobComplete ::
  "string \<Rightarrow> string \<Rightarrow> run_id \<Rightarrow> nat \<Rightarrow> cg_db \<Rightarrow> (cg_row option \<times> cg_db) pg" where
  "onJobComplete g r run t db = promoteOldestQueued g r (markCompleted run g r t db)"

section \<open>Waiters\<close>

record waiter =
  w_runId :: run_id
  w_jobId :: job_id
  w_agentId :: agent_id

type_synonym waiters = "(string \<times> waiter list) list"

definition scopeKey :: "string \<Rightarrow> string \<Rightarrow> string" where
  "scopeKey g r = r @ [CHR 0x00] @ g"

definition waiters_of :: "string \<Rightarrow> string \<Rightarrow> waiters \<Rightarrow> waiter list" where
  "waiters_of g r w = (case map_of w (scopeKey g r) of None \<Rightarrow> [] | Some l \<Rightarrow> l)"

definition register :: "string \<Rightarrow> string \<Rightarrow> waiter \<Rightarrow> waiters \<Rightarrow> waiters" where
  "register g r e w = amap_set (scopeKey g r) (waiters_of g r w @ [e]) w"

fun remove_first :: "('a \<Rightarrow> bool) \<Rightarrow> 'a list \<Rightarrow> 'a list" where
  "remove_first P [] = []"
| "remove_first P (x # xs) = (if P x then xs else x # remove_first P xs)"

definition popByRunId :: "string \<Rightarrow> string \<Rightarrow> run_id \<Rightarrow> waiters \<Rightarrow> waiter option \<times> waiters" where
  "popByRunId g r run w =
     (case map_of w (scopeKey g r) of
        None \<Rightarrow> (None, w)
      | Some l \<Rightarrow>
          (case find (\<lambda>e. w_runId e = run) l of
             None \<Rightarrow> (None, w)
           | Some e \<Rightarrow>
               let l' = remove_first (\<lambda>e. w_runId e = run) l
               in (Some e, if l' = [] then amap_delete (scopeKey g r) w
                           else amap_set (scopeKey g r) l' w)))"

fun dropForAgent :: "agent_id \<Rightarrow> waiters \<Rightarrow> waiter list \<times> waiters" where
  "dropForAgent a [] = ([], [])"
| "dropForAgent a ((k, l) # w) =
     (let remaining = filter (\<lambda>e. w_agentId e \<noteq> a) l;
          (dropped, w') = dropForAgent a w
      in (filter (\<lambda>e. w_agentId e = a) l @ dropped,
          if remaining = [] then w' else (k, remaining) # w'))"

definition waiters_size :: "waiters \<Rightarrow> nat" where
  "waiters_size w = sum_list (map (\<lambda>e. length (snd e)) w)"

section \<open>Dispatch on a slot release\<close>

datatype cc_msg =
    AckProceed agent_id run_id job_id
  | JobCancel agent_id run_id job_id string

record coord =
  cdb :: cg_db
  cwaiters :: waiters
  sent :: "cc_msg list"

text \<open>
  How \<open>tryDispatchNextQueued\<close> ends: nothing queued, an agent woken, the iteration cap, or
  an error of the database that it does not catch. The loop gets its dependencies as
  arguments, as the source passes \<open>deps\<close>; \<open>wake\<close> pops the waiter and tells whom it woke.
\<close>

datatype 'x dispatched = NothingQueued | Woken 'x | CapHit | Raised pg_error

definition MAX_ITERATIONS :: nat where
  "MAX_ITERATIONS = 32"

fun dispatch_loop ::
  "('db \<Rightarrow> ('row option \<times> 'db) pg) \<Rightarrow> ('row \<Rightarrow> 'db \<Rightarrow> 'db) \<Rightarrow>
   ('row \<Rightarrow> 'w \<Rightarrow> 'x option \<times> 'w) \<Rightarrow> nat \<Rightarrow> 'db \<Rightarrow> 'w \<Rightarrow> 'x dispatched \<times> 'db \<times> 'w" where
  "dispatch_loop deq done_row wake 0 db w = (CapHit, db, w)"
| "dispatch_loop deq done_row wake (Suc n) db w =
     (case deq db of
        Inl e \<Rightarrow> (Raised e, db, w)
      | Inr (None, db) \<Rightarrow> (NothingQueued, db, w)
      | Inr (Some row, db) \<Rightarrow>
          (case wake row w of
             (Some x, w) \<Rightarrow> (Woken x, db, w)
           | (None, w) \<Rightarrow> dispatch_loop deq done_row wake n (done_row row db) w))"

lemma dispatch_loop_numeral [simp]:
  "dispatch_loop deq done_row wake (numeral k) db w =
     (case deq db of
        Inl e \<Rightarrow> (Raised e, db, w)
      | Inr (None, db) \<Rightarrow> (NothingQueued, db, w)
      | Inr (Some row, db) \<Rightarrow>
          (case wake row w of
             (Some x, w) \<Rightarrow> (Woken x, db, w)
           | (None, w) \<Rightarrow> dispatch_loop deq done_row wake (pred_numeral k) (done_row row db) w))"
  by (simp add: numeral_eq_Suc)

definition wakeWaiter ::
  "(agent_id \<Rightarrow> bool) \<Rightarrow> string \<Rightarrow> string \<Rightarrow> cg_row \<Rightarrow> waiters \<Rightarrow> waiter option \<times> waiters" where
  "wakeWaiter has_ws g r row w =
     (case popByRunId g r (runId row) w of
        (None, w) \<Rightarrow> (None, w)
      | (Some e, w) \<Rightarrow> (if has_ws (w_agentId e) then Some e else None, w))"

definition tryDispatchNextQueued ::
  "(agent_id \<Rightarrow> bool) \<Rightarrow> string \<Rightarrow> string \<Rightarrow> nat \<Rightarrow> coord \<Rightarrow> waiter dispatched \<times> coord" where
  "tryDispatchNextQueued has_ws g r t c =
     (let (out, db, w) = dispatch_loop (dequeueNext g r) (\<lambda>row. markCompleted (runId row) g r t)
                           (wakeWaiter has_ws g r) MAX_ITERATIONS (cdb c) (cwaiters c);
          msgs = (case out of Woken e \<Rightarrow> [AckProceed (w_agentId e) (w_runId e) (w_jobId e)] | _ \<Rightarrow> [])
      in (out, c\<lparr>cdb := db, cwaiters := w, sent := sent c @ msgs\<rparr>))"

definition onConcurrencyAgentDisconnect :: "agent_id \<Rightarrow> nat \<Rightarrow> coord \<Rightarrow> coord" where
  "onConcurrencyAgentDisconnect a t c =
     (let (dropped, w) = dropForAgent a (cwaiters c)
      in c\<lparr>cdb := fold (\<lambda>e. cancelQueued (w_runId e) t) dropped (cdb c), cwaiters := w\<rparr>)"

section \<open>A report from an agent\<close>

text \<open>
  The execution context of the run, the job queue's dispatched jobs of a run and the agent of
  a job are the environment. \<open>newId\<close> and \<open>t\<close> are the id the table generates and the time.
\<close>

record conc_cfg =
  cfg_max :: "int option"
  cfg_cancelInProgress :: "bool option"

record exec_ctx =
  ctx_routingKey :: string
  ctx_concurrency :: "conc_cfg option"

record conc_env =
  env_context :: "run_id \<Rightarrow> exec_ctx option"
  env_dispatchedJobs :: "run_id \<Rightarrow> job_id list"
  env_agentForJob :: "job_id \<Rightarrow> agent_id option"
  env_has_ws :: "agent_id \<Rightarrow> bool"

datatype report_ack = Proceed | Wait string

definition opt_default :: "'a \<Rightarrow> 'a option \<Rightarrow> 'a" where
  "opt_default d v = (case v of None \<Rightarrow> d | Some x \<Rightarrow> x)"

definition cancel_messages :: "conc_env \<Rightarrow> string \<Rightarrow> run_id \<Rightarrow> cc_msg list" where
  "cancel_messages env g run = concat (map (\<lambda>job.
     case env_agentForJob env job of
       Some a \<Rightarrow> if env_has_ws env a
                 then [JobCancel a run job (''Superseded by run in concurrency group '' @ [CHR 0x27] @ g @ [CHR 0x27])]
                 else []
     | None \<Rightarrow> []) (env_dispatchedJobs env run))"

definition supersede :: "conc_env \<Rightarrow> string \<Rightarrow> string \<Rightarrow> nat \<Rightarrow> run_id list \<Rightarrow> coord \<Rightarrow> coord" where
  "supersede env g r t runs c = fold (\<lambda>run c.
     c\<lparr>cdb := releaseSlot g r run t (cdb c), sent := sent c @ cancel_messages env g run\<rparr>) runs c"

definition onConcurrencyReport ::
  "conc_env \<Rightarrow> agent_id \<Rightarrow> string \<Rightarrow> run_id \<Rightarrow> job_id \<Rightarrow> nat \<Rightarrow> nat \<Rightarrow> coord \<Rightarrow>
   (pg_error + report_ack) \<times> coord" where
  "onConcurrencyReport env a g run job newId t c =
     (let ctx = env_context env run;
          r = (case ctx of None \<Rightarrow> [] | Some x \<Rightarrow> ctx_routingKey x);
          cfg = (case ctx of None \<Rightarrow> None | Some x \<Rightarrow> ctx_concurrency x);
          mx = opt_default 1 (case cfg of None \<Rightarrow> None | Some x \<Rightarrow> cfg_max x);
          cip = opt_default True (case cfg of None \<Rightarrow> None | Some x \<Rightarrow> cfg_cancelInProgress x)
      in if cip then
           let (active, db) = getActiveRuns g r t (cdb c);
               superseded = filter (\<lambda>x. x \<noteq> run) active;
               c = supersede env g r t superseded (c\<lparr>cdb := db\<rparr>);
               (_, db) = acquireSlot g r run job mx newId t (cdb c);
               c = c\<lparr>cdb := db\<rparr>
           in if superseded = [] then (Inr Proceed, c)
              else (case tryDispatchNextQueued (env_has_ws env) g r t c of
                      (Raised e, c) \<Rightarrow> (Inl e, c)
                    | (_, c) \<Rightarrow> (Inr Proceed, c))
         else
           let (acquired, db) = acquireSlot g r run job mx newId t (cdb c)
           in if acquired then (Inr Proceed, c\<lparr>cdb := db\<rparr>)
              else (Inr (Wait (''Queued in concurrency group '' @ [CHR 0x27] @ g @ [CHR 0x27])),
                    c\<lparr>cdb := enqueue g r run job newId t db,
                      cwaiters := register g r \<lparr>w_runId = run, w_jobId = job, w_agentId = a\<rparr>
                                    (cwaiters c)\<rparr>))"

text \<open>The release when a run completes; the first error ends it (the source logs it).\<close>

fun release_entries ::
  "(agent_id \<Rightarrow> bool) \<Rightarrow> run_id \<Rightarrow> nat \<Rightarrow> (string \<times> string) list \<Rightarrow> coord \<Rightarrow> coord" where
  "release_entries has_ws run t [] c = c"
| "release_entries has_ws run t ((g, r) # es) c =
     (case tryDispatchNextQueued has_ws g r t (c\<lparr>cdb := releaseSlot g r run t (cdb c)\<rparr>) of
        (Raised e, c) \<Rightarrow> c
      | (_, c) \<Rightarrow> release_entries has_ws run t es c)"

definition releaseRunSlots :: "(agent_id \<Rightarrow> bool) \<Rightarrow> run_id \<Rightarrow> nat \<Rightarrow> coord \<Rightarrow> coord" where
  "releaseRunSlots has_ws run t c =
     release_entries has_ws run t
       (map (\<lambda>row. (groupKey row, routingKey row))
          (filter (\<lambda>row. runId row = run \<and> slotStatus row = SlotActive) (cg_rows (cdb c)))) c"


section \<open>The table stays well formed\<close>

definition cg_ok :: "cg_db \<Rightarrow> bool" where
  "cg_ok db \<longleftrightarrow> distinct (map cg_id (cg_rows db)) \<and>
     (\<forall>g r. distinct (map runId (filter (is_active g r) (cg_rows db))))"

definition activeCount :: "string \<Rightarrow> string \<Rightarrow> cg_db \<Rightarrow> nat" where
  "activeCount g r db = length (filter (is_active g r) (cg_rows db))"

definition within_cap :: "(string \<Rightarrow> string \<Rightarrow> nat) \<Rightarrow> cg_db \<Rightarrow> bool" where
  "within_cap cap db \<longleftrightarrow> cg_ok db \<and> (\<forall>g r. activeCount g r db \<le> cap g r)"

lemma finish_simps [simp]:
  "cg_id (finish st t row) = cg_id row" "slotStatus (finish st t row) = st"
  "runId (finish st t row) = runId row" "groupKey (finish st t row) = groupKey row"
  "routingKey (finish st t row) = routingKey row"
  by (simp_all add: finish_def)

lemma is_active_finish [simp]: "st \<noteq> SlotActive \<Longrightarrow> \<not> is_active g r (finish st t row)"
  by (simp add: is_active_def)

lemma is_queued_finish [simp]: "st \<noteq> SlotQueued \<Longrightarrow> \<not> is_queued g r (finish st t row)"
  by (simp add: is_queued_def)

lemma is_active_not_queued: "is_active g r row \<Longrightarrow> \<not> is_queued g' r' row"
  by (simp add: is_active_def is_queued_def)

text \<open>Taking rows out of the active set keeps a table within its cap.\<close>

lemma distinct_map_filter_weaken:
  "distinct (map f (filter P xs)) \<Longrightarrow> distinct (map f (filter (\<lambda>x. P x \<and> Q x) xs))"
  by (induction xs) (auto split: if_splits)

lemma length_filter_weaken: "length (filter (\<lambda>x. P x \<and> Q x) xs) \<le> length (filter P xs)"
  by (induction xs) auto

lemma finish_within_cap:
  assumes "within_cap cap db" "st \<noteq> SlotActive"
  shows "within_cap cap (db\<lparr>cg_rows := update_where P (finish st t) (cg_rows db)\<rparr>)"
proof -
  have "filter (is_active g r) (update_where P (finish st t) (cg_rows db)) =
      filter (\<lambda>x. is_active g r x \<and> \<not> P x) (cg_rows db)" for g r
    using assms(2) by (intro filter_update_off) simp
  moreover have "length (filter (\<lambda>x. is_active g r x \<and> \<not> P x) (cg_rows db)) \<le> cap g r" for g r
    using assms(1) length_filter_weaken [of "is_active g r" "\<lambda>x. \<not> P x" "cg_rows db"]
    by (auto simp: within_cap_def activeCount_def intro: order.trans)
  ultimately show ?thesis
    using assms(1)
    by (simp add: within_cap_def cg_ok_def activeCount_def map_update_same distinct_map_filter_weaken)
qed

lemma markCompleted_within_cap: "within_cap cap db \<Longrightarrow> within_cap cap (markCompleted run g r t db)"
  unfolding markCompleted_def by (rule finish_within_cap) simp_all

lemma releaseSlot_within_cap: "within_cap cap db \<Longrightarrow> within_cap cap (releaseSlot g r run t db)"
  by (simp add: releaseSlot_def markCompleted_within_cap)

lemma cancelQueued_within_cap: "within_cap cap db \<Longrightarrow> within_cap cap (cancelQueued run t db)"
  unfolding cancelQueued_def by (rule finish_within_cap) simp_all

lemma activeRunIds_within_cap: "within_cap cap db \<Longrightarrow> within_cap cap (snd (activeRunIds g r t db))"
  by (simp add: activeRunIds_def Let_def finish_within_cap)

text \<open>What reconciliation returns is what is active afterwards.\<close>

lemma activeRunIds_rows:
  "cg_rows (snd (activeRunIds g r t db)) =
     update_where (\<lambda>row. cg_id row \<in> cg_id ` {x \<in> set (cg_rows db). is_active g r x \<and> run_finished db (runId x)})
       (finish SlotCompleted t) (cg_rows db)"
proof -
  have "update_where (\<lambda>row. False) f rows = rows" for f :: "cg_row \<Rightarrow> cg_row" and rows
    by (simp add: update_where_def)
  then show ?thesis
    by (auto simp: activeRunIds_def Let_def active_rows_def filter_empty_conv Collect_conj_eq
        simp flip: set_empty intro!: arg_cong [where f = "\<lambda>P. update_where P _ _"])
qed

lemma activeRunIds_list:
  "fst (activeRunIds g r t db) = map runId (filter (\<lambda>x. \<not> run_finished db (runId x)) (active_rows g r db))"
  by (auto simp: activeRunIds_def Let_def filter_empty_conv intro!: arg_cong [where f = "map runId"]
      filter_id_conv [THEN iffD2, symmetric])

lemma active_after_reconcile:
  assumes "distinct (map cg_id (cg_rows db))"
  shows "filter (is_active g r) (cg_rows (snd (activeRunIds g r t db))) =
    filter (\<lambda>x. is_active g r x \<and> \<not> run_finished db (runId x)) (cg_rows db)"
proof -
  have "filter (is_active g r) (cg_rows (snd (activeRunIds g r t db))) =
      filter (\<lambda>x. is_active g r x \<and>
        cg_id x \<notin> cg_id ` {y \<in> set (cg_rows db). is_active g r y \<and> run_finished db (runId y)}) (cg_rows db)"
    unfolding activeRunIds_rows by (rule filter_update_off) simp
  also have "\<dots> = filter (\<lambda>x. is_active g r x \<and> \<not> run_finished db (runId x)) (cg_rows db)"
    using assms by (intro filter_cong) (auto simp: distinct_map inj_on_def)
  finally show ?thesis .
qed

lemma length_activeRunIds:
  "distinct (map cg_id (cg_rows db)) \<Longrightarrow>
    length (fst (activeRunIds g r t db)) = activeCount g r (snd (activeRunIds g r t db))"
  by (simp add: activeRunIds_list active_after_reconcile activeCount_def active_rows_def
      order_by_def filter_sort conj_commute)

lemma set_activeRunIds:
  "set (fst (activeRunIds g r t db)) =
    {runId x |x. x \<in> set (cg_rows db) \<and> is_active g r x \<and> \<not> run_finished db (runId x)}"
  by (auto simp: activeRunIds_list active_rows_def)

lemma ids_reconcile [simp]:
  "map cg_id (cg_rows (snd (activeRunIds g r t db))) = map cg_id (cg_rows db)"
  by (simp add: activeRunIds_rows map_update_same)

lemma set_ids_reconcile [simp]:
  "cg_id ` set (cg_rows (snd (activeRunIds g r t db))) = cg_id ` set (cg_rows db)"
  by (metis ids_reconcile set_map)

text \<open>Every branch of an acquisition.\<close>

lemma acquireSlot_held:
  "\<exists>row \<in> set (cg_rows db). is_active g r row \<and> runId row = run \<Longrightarrow>
    acquireSlot g r run job mx newId t db = (True, db)"
  by (simp add: acquireSlot_def)

lemma acquireSlot_full:
  assumes "\<not> (\<exists>row \<in> set (cg_rows db). is_active g r row \<and> runId row = run)"
    "mx \<le> int (length (fst (activeRunIds g r t db)))"
  shows "acquireSlot g r run job mx newId t db = (False, snd (activeRunIds g r t db))"
  using assms by (auto simp: acquireSlot_def split: prod.split)

lemma acquireSlot_free:
  assumes "\<not> (\<exists>row \<in> set (cg_rows db). is_active g r row \<and> runId row = run)"
    "int (length (fst (activeRunIds g r t db))) < mx"
  shows "acquireSlot g r run job mx newId t db =
    (True, (snd (activeRunIds g r t db))\<lparr>cg_rows := cg_rows (snd (activeRunIds g r t db)) @
       [\<lparr>cg_id = newId, groupKey = g, routingKey = r, runId = run, jobId = job,
         slotStatus = SlotActive, created_at = t, completed_at = None\<rparr>]\<rparr>)"
  using assms by (auto simp: acquireSlot_def split: prod.split)

lemma in_scope_unique: "in_scope g r row \<Longrightarrow> in_scope g' r' row \<longleftrightarrow> g' = g \<and> r' = r"
  by (auto simp: in_scope_def)

lemma acquireSlot_within_cap:
  assumes ok: "within_cap cap db" and new: "newId \<notin> cg_id ` set (cg_rows db)"
  shows "within_cap cap (snd (acquireSlot g r run job (int (cap g r)) newId t db))"
proof -
  define db1 where "db1 = snd (activeRunIds g r t db)"
  have ok1: "within_cap cap db1" unfolding db1_def by (rule activeRunIds_within_cap [OF ok])
  have d: "distinct (map cg_id (cg_rows db))" using ok by (simp add: within_cap_def cg_ok_def)
  consider "\<exists>row \<in> set (cg_rows db). is_active g r row \<and> runId row = run"
    | "\<not> (\<exists>row \<in> set (cg_rows db). is_active g r row \<and> runId row = run)"
        "int (cap g r) \<le> int (length (fst (activeRunIds g r t db)))"
    | "\<not> (\<exists>row \<in> set (cg_rows db). is_active g r row \<and> runId row = run)"
        "int (length (fst (activeRunIds g r t db))) < int (cap g r)"
    by linarith
  then show ?thesis
  proof cases
    case 1
    then show ?thesis by (simp add: acquireSlot_held ok)
  next
    case 2
    from acquireSlot_full [OF this] ok1 show ?thesis by (simp add: db1_def)
  next
    case 3
    have "activeCount g r db1 < cap g r"
      using 3(2) by (simp add: length_activeRunIds [OF d] db1_def)
    moreover have "newId \<notin> cg_id ` set (cg_rows db1)"
      using new by (simp add: db1_def)
    moreover have "run \<notin> runId ` set (filter (is_active g r) (cg_rows db1))"
      using 3(1) by (auto simp: db1_def active_after_reconcile [OF d])
    ultimately show ?thesis
      using ok1 unfolding acquireSlot_free [OF 3] db1_def [symmetric]
      by (auto simp: within_cap_def cg_ok_def activeCount_def is_active_def in_scope_def)
  qed
qed


lemma enqueue_within_cap:
  assumes "within_cap cap db" "newId \<notin> cg_id ` set (cg_rows db)"
  shows "within_cap cap (enqueue g r run job newId t db)"
  using assms by (auto simp: within_cap_def cg_ok_def activeCount_def enqueue_def is_active_def)

text \<open>An UPDATE of one row, found by its id.\<close>

lemma update_one_split:
  assumes "row \<in> set rows" "distinct (map k rows)"
  obtains xs ys where "rows = xs @ row # ys"
    "update_where (\<lambda>x. k x = k row) f rows = xs @ f row # ys"
proof -
  from assms(1) obtain xs ys where s: "rows = xs @ row # ys" by (auto dest: split_list)
  have "map (\<lambda>x. if k x = k row then f x else x) zs = zs" if "k row \<notin> k ` set zs" for zs
    using that by (induction zs) auto
  then have "update_where (\<lambda>x. k x = k row) f rows = xs @ f row # ys"
    using assms(2) s by (auto simp: update_where_def)
  with s that show ?thesis by blast
qed

lemma promoteOldestQueued_cases:
  assumes "promoteOldestQueued g r db = Inr (x, db')"
  obtains "x = None" "db' = db" "queued_rows g r db = []"
  | row rest where "x = Some row" "queued_rows g r db = row # rest"
      "\<forall>y \<in> set (cg_rows db). is_active g r y \<longrightarrow> runId y \<noteq> runId row"
      "db' = db\<lparr>cg_rows := update_where (\<lambda>y. cg_id y = cg_id row)
                 (\<lambda>y. y\<lparr>slotStatus := SlotActive\<rparr>) (cg_rows db)\<rparr>"
  using assms by (auto simp: promoteOldestQueued_def split: list.splits if_splits)

lemma queued_head:
  "queued_rows g r db = row # rest \<Longrightarrow> row \<in> set (cg_rows db) \<and> is_queued g r row"
  by (metis (no_types, lifting) list.set_intros(1) mem_Collect_eq queued_rows_def set_order_by)

lemma promote_ok:
  assumes "cg_ok db" "promoteOldestQueued g r db = Inr (x, db')"
  shows "cg_ok db' \<and> activeCount g' r' db' \<le> activeCount g' r' db + (if g' = g \<and> r' = r then 1 else 0)"
  using assms(2)
proof (cases rule: promoteOldestQueued_cases)
  case 1
  with assms show ?thesis by simp
next
  case (2 row rest)
  note q = queued_head [OF 2(2)]
  have d: "distinct (map cg_id (cg_rows db))" using assms(1) by (simp add: cg_ok_def)
  obtain xs ys where s: "cg_rows db = xs @ row # ys" "cg_rows db' = xs @ row\<lparr>slotStatus := SlotActive\<rparr> # ys"
    using update_one_split [OF q [THEN conjunct1] d] 2(4) by (metis cg_db.select_convs(1) cg_db.update_convs(1) cg_db.surjective)
  have a: "is_active h k (row\<lparr>slotStatus := SlotActive\<rparr>) \<longleftrightarrow> h = g \<and> k = r" for h k
    using q by (auto simp: is_active_def is_queued_def in_scope_def)
  have na: "\<not> is_active h k row" for h k using q by (auto simp: is_active_def is_queued_def)
  have "distinct (map runId (filter (is_active h k) (xs @ ys)))" for h k
    using assms(1) na by (simp add: cg_ok_def s)
  moreover have "runId row \<notin> runId ` set (filter (is_active g r) (xs @ ys))"
    using 2(3) by (auto simp: s)
  ultimately show ?thesis
    using d by (auto simp: cg_ok_def activeCount_def s a na)
qed

lemma markCompleted_frees:
  assumes "cg_ok db" "row \<in> set (cg_rows db)" "is_active g r row"
  shows "activeCount g r db = Suc (activeCount g r (markCompleted (runId row) g r t db))"
proof -
  have f: "filter (is_active g r) (cg_rows (markCompleted (runId row) g r t db)) =
      filter (\<lambda>x. is_active g r x \<and> \<not> (is_active g r x \<and> runId x = runId row)) (cg_rows db)"
    by (simp add: markCompleted_def filter_update_off)
  let ?A = "filter (is_active g r) (cg_rows db)"
  have in_A: "row \<in> set ?A" and d: "distinct (map runId ?A)"
    using assms by (simp_all add: cg_ok_def)
  from in_A obtain xs ys where s: "?A = xs @ row # ys" by (meson split_list)
  have s2: "runId row \<notin> runId ` set (xs @ ys)" using d unfolding s by auto
  have keep: "filter (\<lambda>x. runId x \<noteq> runId row) zs = zs" if "runId row \<notin> runId ` set zs" for zs
    using that by (induction zs) auto
  have "length (filter (\<lambda>x. runId x \<noteq> runId row) ?A) = length (xs @ ys)"
    using s2 keep [of xs] keep [of ys] unfolding s by (simp add: image_Un)
  moreover have "filter (\<lambda>x. is_active g r x \<and> \<not> (is_active g r x \<and> runId x = runId row)) (cg_rows db) =
      filter (\<lambda>x. runId x \<noteq> runId row) ?A"
    by (auto intro: filter_cong simp: conj_commute)
  ultimately show ?thesis using s by (simp add: activeCount_def f)
qed

lemma onJobComplete_within_cap:
  assumes ok: "within_cap cap db" and row: "row \<in> set (cg_rows db)" "is_active g r row" "runId row = run"
    and p: "onJobComplete g r run t db = Inr (x, db')"
  shows "within_cap cap db'"
proof -
  let ?m = "markCompleted run g r t db"
  have m: "within_cap cap ?m" by (rule markCompleted_within_cap [OF ok])
  have "cg_ok ?m" "cg_ok db" using m ok by (simp_all add: within_cap_def)
  note pr = promote_ok [OF \<open>cg_ok ?m\<close> p [unfolded onJobComplete_def]]
  have room: "Suc (activeCount g r ?m) \<le> cap g r"
    using markCompleted_frees [OF \<open>cg_ok db\<close> row(1,2), of t] ok
    by (simp add: within_cap_def row(3)) metis
  have "activeCount g' r' db' \<le> cap g' r'" for g' r'
  proof (cases "g' = g \<and> r' = r")
    case True
    then show ?thesis using pr [of g r] room by simp
  next
    case False
    then have "activeCount g' r' db' \<le> activeCount g' r' ?m" using pr [of g' r'] by (simp split: if_splits)
    also have "\<dots> \<le> cap g' r'" using m by (simp add: within_cap_def)
    finally show ?thesis .
  qed
  then show ?thesis using pr by (simp add: within_cap_def)
qed


section \<open>Interleavings of transactions\<close>

text \<open>
  The transactions that the coordinators of a cluster run, in any order; the database gives
  every insert a fresh id, the cap of a scope is the same for every report, and
  \<open>onJobComplete\<close> is called for a run that holds a slot.
\<close>

inductive cg_step :: "(string \<Rightarrow> string \<Rightarrow> nat) \<Rightarrow> cg_db \<Rightarrow> cg_db \<Rightarrow> bool"
  for cap :: "string \<Rightarrow> string \<Rightarrow> nat" where
  st_acquire: "newId \<notin> cg_id ` set (cg_rows db) \<Longrightarrow>
    cg_step cap db (snd (acquireSlot g r run job (int (cap g r)) newId t db))"
| st_enqueue: "newId \<notin> cg_id ` set (cg_rows db) \<Longrightarrow>
    cg_step cap db (enqueue g r run job newId t db)"
| st_release: "cg_step cap db (releaseSlot g r run t db)"
| st_complete: "row \<in> set (cg_rows db) \<Longrightarrow> is_active g r row \<Longrightarrow>
    onJobComplete g r (runId row) t db = Inr (x, db') \<Longrightarrow> cg_step cap db db'"
| st_cancel: "cg_step cap db (cancelQueued run t db)"
| st_reconcile: "cg_step cap db (snd (getActiveRuns g r t db))"
| st_run: "cg_step cap db (db\<lparr>run_state := f\<rparr>)"

definition cg_init :: "cg_db \<Rightarrow> bool" where
  "cg_init db \<longleftrightarrow> cg_rows db = []"

lemma cg_step_within_cap: "cg_step cap db db' \<Longrightarrow> within_cap cap db \<Longrightarrow> within_cap cap db'"
proof (induction rule: cg_step.induct)
  case (st_run db f)
  then show ?case by (simp add: within_cap_def cg_ok_def activeCount_def)
qed (auto intro: acquireSlot_within_cap enqueue_within_cap releaseSlot_within_cap
    onJobComplete_within_cap cancelQueued_within_cap activeRunIds_within_cap simp: getActiveRuns_def)

interpretation cg: inductive_invariant cg_init "cg_step cap" "within_cap cap"
proof unfold_locales
  show "within_cap cap db" if "cg_init db" for db
    using that by (simp add: cg_init_def within_cap_def cg_ok_def activeCount_def)
qed (blast intro: cg_step_within_cap)


definition demo_row :: "nat \<Rightarrow> run_id \<Rightarrow> slot_status \<Rightarrow> cg_row" where
  "demo_row n run st = \<lparr>cg_id = n, groupKey = ''deploy'', routingKey = ''rk'', runId = run,
     jobId = ''j'', slotStatus = st, created_at = n, completed_at = None\<rparr>"

definition demo_db :: "cg_row list \<Rightarrow> cg_db" where
  "demo_db rows = \<lparr>cg_rows = rows, run_state = (\<lambda>_. None)\<rparr>"

lemmas cg_eval = demo_db_def demo_row_def acquireSlot_def activeRunIds_def active_rows_def
  queued_rows_def order_by_def is_active_def is_queued_def in_scope_def releaseSlot_def
  markCompleted_def finish_def update_where_def dequeueNext_def promoteOldestQueued_def
  enqueue_def activeCount_def run_finished_def getActiveRuns_def


text \<open>
  An acquisition tells the truth: afterwards the run holds a slot of the scope exactly when
  the answer is yes; a refusal means that the cap is reached by runs that are not finished,
  and a run that already holds a slot changes nothing.
\<close>

theorem acquireSlot_spec:
  assumes "cg_ok db"
  shows "case acquireSlot g r run job mx newId t db of (yes, db') \<Rightarrow>
    (yes \<longleftrightarrow> run \<in> runId ` set (active_rows g r db')) \<and>
    (yes \<or> mx \<le> int (activeCount g r db')) \<and>
    (yes \<or> (\<forall>x \<in> set (active_rows g r db'). \<not> run_finished db (runId x))) \<and>
    (run \<notin> runId ` set (active_rows g r db) \<or> yes \<and> db' = db)"
proof -
  have d: "distinct (map cg_id (cg_rows db))" using assms by (simp add: cg_ok_def)
  have sub: "{x \<in> set (cg_rows (snd (activeRunIds g r t db))). is_active g r x} =
      {x \<in> set (cg_rows db). is_active g r x \<and> \<not> run_finished db (runId x)}"
    using arg_cong [OF active_after_reconcile [OF d], of set g r t] by simp
  consider (held) "\<exists>row \<in> set (cg_rows db). is_active g r row \<and> runId row = run"
    | (full) "\<not> (\<exists>row \<in> set (cg_rows db). is_active g r row \<and> runId row = run)"
        "mx \<le> int (length (fst (activeRunIds g r t db)))"
    | (free) "\<not> (\<exists>row \<in> set (cg_rows db). is_active g r row \<and> runId row = run)"
        "int (length (fst (activeRunIds g r t db))) < mx"
    by linarith
  then show ?thesis
  proof cases
    case held
    then show ?thesis by (auto simp: acquireSlot_held [OF held] active_rows_def)
  next
    case full
    then show ?thesis
      using sub by (auto simp: acquireSlot_full [OF full] active_rows_def length_activeRunIds [OF d])
  next
    case free
    let ?new = "\<lparr>cg_id = newId, groupKey = g, routingKey = r, runId = run, jobId = job,
            slotStatus = SlotActive, created_at = t, completed_at = None\<rparr>"
    have "?new \<in> set (active_rows g r (snd (acquireSlot g r run job mx newId t db)))"
      by (simp add: acquireSlot_free [OF free] active_rows_def is_active_def in_scope_def)
    then have "run \<in> runId ` set (active_rows g r (snd (acquireSlot g r run job mx newId t db)))"
      by (rule rev_image_eqI) simp
    moreover have "run \<notin> runId ` set (active_rows g r db)"
      using free(1) by (auto simp: active_rows_def)
    ultimately show ?thesis by (simp add: acquireSlot_free [OF free])
  qed
qed

lemma acquireSlot_spec_witness:
  "(case acquireSlot ''deploy'' ''rk'' ''B'' ''j'' 1 1 5 (demo_db [demo_row 0 ''A'' SlotActive]) of (yes, db') \<Rightarrow>
     (yes \<longleftrightarrow> ''B'' \<in> runId ` set (active_rows ''deploy'' ''rk'' db'))) \<and>
   fst (acquireSlot ''deploy'' ''rk'' ''B'' ''j'' 1 1 5 (demo_db [demo_row 0 ''A'' SlotActive])) = False"
proof -
  have "cg_ok (demo_db [demo_row 0 ''A'' SlotActive])"
    by (simp add: cg_ok_def demo_db_def)
  from acquireSlot_spec [OF this, where g = "''deploy''" and r = "''rk''" and run = "''B''"
      and job = "''j''" and mx = 1 and newId = 1 and t = 5]
  show ?thesis by (auto simp: cg_eval)
qed


section \<open>Who is woken\<close>

text \<open>
  What the dispatch loop needs of its dependencies: a first-in first-out queue whose head
  \<open>deq\<close> moves into the active set, \<open>done_row\<close> taking it out again, and a registry in which
  waking one key leaves the others.
\<close>

locale slot_queue =
  fixes deq :: "'db \<Rightarrow> ('row option \<times> 'db) pg"
    and done_row :: "'row \<Rightarrow> 'db \<Rightarrow> 'db"
    and wake :: "'row \<Rightarrow> 'w \<Rightarrow> 'x option \<times> 'w"
    and key :: "'row \<Rightarrow> 'k"
    and queue :: "'db \<Rightarrow> 'row list"
    and active :: "'db \<Rightarrow> 'k set"
    and alive :: "'w \<Rightarrow> 'row \<Rightarrow> 'x option"
    and ok :: "'db \<Rightarrow> bool"
  assumes ok_distinct: "ok db \<Longrightarrow> distinct (map key (queue db))"
    and deq_empty: "ok db \<Longrightarrow> queue db = [] \<Longrightarrow> deq db = Inr (None, db)"
    and deq_next: "ok db \<Longrightarrow> queue db = row # rows \<Longrightarrow>
      \<exists>db'. deq db = Inr (Some row, db') \<and> queue db' = rows \<and>
        active db' = insert (key row) (active db) \<and>
        ok (done_row row db') \<and> queue (done_row row db') = rows \<and>
        active (done_row row db') = active db"
    and wake_alive: "fst (wake row w) = alive w row"
    and wake_other: "key row' \<noteq> key row \<Longrightarrow> alive (snd (wake row w)) row' = alive w row'"
begin

lemma dispatch_loop_wakes:
  "ok db \<Longrightarrow>
   (case dispatch_loop deq done_row wake n db w of (out, db', w') \<Rightarrow>
      let dead = takeWhile (\<lambda>row. alive w row = None) (queue db) in
      if n \<le> length dead then out = CapHit \<and> queue db' = drop n (queue db) \<and> active db' = active db
      else case drop (length dead) (queue db) of
          [] \<Rightarrow> out = NothingQueued \<and> queue db' = [] \<and> active db' = active db
        | row # rest \<Rightarrow> out = Woken (the (alive w row)) \<and> alive w row \<noteq> None \<and> queue db' = rest \<and>
            active db' = insert (key row) (active db))"
proof (induction n arbitrary: db w)
  case 0
  then show ?case by simp
next
  case (Suc n)
  show ?case
  proof (cases "queue db")
    case Nil
    then show ?thesis using deq_empty [OF Suc.prems Nil] by simp
  next
    case (Cons row rows)
    obtain db' where db': "deq db = Inr (Some row, db')" "queue db' = rows"
      "active db' = insert (key row) (active db)" "ok (done_row row db')"
      "queue (done_row row db') = rows" "active (done_row row db') = active db"
      using deq_next [OF Suc.prems Cons] by blast
    obtain m w' where wk: "wake row w = (m, w')" by (cases "wake row w") auto
    have m: "m = alive w row" using wake_alive [of row w] wk by simp
    show ?thesis
    proof (cases "alive w row")
      case (Some x)
      then show ?thesis using db' wk m Cons by simp
    next
      case None
      have same: "alive w' row' = alive w row'" if "row' \<in> set rows" for row'
      proof -
        have "key row' \<noteq> key row" using ok_distinct [OF Suc.prems] Cons that
          by (metis distinct.simps(2) image_eqI list.simps(9) set_map)
        from wake_other [OF this, of w] wk show ?thesis by simp
      qed
      have tw: "takeWhile (\<lambda>row. alive w' row = None) rows = takeWhile (\<lambda>row. alive w row = None) rows"
        by (rule takeWhile_cong) (simp_all add: same)
      have in_rows: "drop k rows = r # rest \<Longrightarrow> r \<in> set rows" for k r rest
        by (metis in_set_dropD list.set_intros(1))
      show ?thesis
        using Suc.IH [OF db'(4), of w'] db' wk m Cons None
        by (auto simp: tw Let_def same [OF in_rows] split: list.split_asm list.split prod.split if_splits)
    qed
  qed
qed

end

definition aliveWaiter :: "(agent_id \<Rightarrow> bool) \<Rightarrow> string \<Rightarrow> string \<Rightarrow> waiters \<Rightarrow> cg_row \<Rightarrow> waiter option" where
  "aliveWaiter has_ws g r w row =
     (case find (\<lambda>e. w_runId e = runId row) (waiters_of g r w) of
        Some e \<Rightarrow> if has_ws (w_agentId e) then Some e else None
      | None \<Rightarrow> None)"

definition activeRuns :: "string \<Rightarrow> string \<Rightarrow> cg_db \<Rightarrow> run_id set" where
  "activeRuns g r db = runId ` set (filter (is_active g r) (cg_rows db))"

text \<open>A queue in which every run waits once, and none that holds a slot waits.\<close>

definition queue_ok :: "string \<Rightarrow> string \<Rightarrow> cg_db \<Rightarrow> bool" where
  "queue_ok g r db \<longleftrightarrow> distinct (map cg_id (cg_rows db)) \<and>
     distinct (map runId (queued_rows g r db)) \<and>
     (\<forall>row \<in> set (queued_rows g r db). runId row \<notin> activeRuns g r db)"

lemma popByRunId_other:
  assumes "run' \<noteq> run"
  shows "find (\<lambda>e. w_runId e = run') (waiters_of g r (snd (popByRunId g r run w))) =
    find (\<lambda>e. w_runId e = run') (waiters_of g r w)"
proof -
  have rem: "find (\<lambda>e. w_runId e = run') (remove_first (\<lambda>e. w_runId e = run) l) =
      find (\<lambda>e. w_runId e = run') l" for l
    using assms by (induction l) auto
  show ?thesis
    by (auto simp: popByRunId_def waiters_of_def Let_def rem split: option.split)
      (metis rem find.simps(1))
qed

lemma wakeWaiter_alive: "fst (wakeWaiter has_ws g r row w) = aliveWaiter has_ws g r w row"
  by (auto simp: wakeWaiter_def aliveWaiter_def popByRunId_def waiters_of_def Let_def split: option.splits)

lemma wakeWaiter_other:
  "runId row' \<noteq> runId row \<Longrightarrow>
    aliveWaiter has_ws g r (snd (wakeWaiter has_ws g r row w)) row' = aliveWaiter has_ws g r w row'"
  using popByRunId_other [of "runId row'" "runId row" g r w]
  by (auto simp: aliveWaiter_def wakeWaiter_def split: prod.split option.split)

lemma promote_next:
  assumes ok: "queue_ok g r db" and q: "queued_rows g r db = row # rows"
  shows "\<exists>db'. dequeueNext g r db = Inr (Some row, db') \<and> queued_rows g r db' = rows \<and>
    activeRuns g r db' = insert (runId row) (activeRuns g r db) \<and>
    queue_ok g r (markCompleted (runId row) g r t db') \<and>
    queued_rows g r (markCompleted (runId row) g r t db') = rows \<and>
    activeRuns g r (markCompleted (runId row) g r t db') = activeRuns g r db"
proof -
  let ?act = "\<lambda>y. y\<lparr>slotStatus := SlotActive\<rparr>"
  define db' where "db' = db\<lparr>cg_rows := update_where (\<lambda>y. cg_id y = cg_id row) ?act (cg_rows db)\<rparr>"
  define db2 where "db2 = markCompleted (runId row) g r t db'"
  have d: "distinct (map cg_id (cg_rows db))" using ok by (simp add: queue_ok_def)
  note hd = queued_head [OF q]
  have free: "runId row \<notin> activeRuns g r db" using ok q by (simp add: queue_ok_def)
  have "runId y \<in> activeRuns g r db" if "y \<in> set (cg_rows db)" "is_active g r y" for y
    using that by (simp add: activeRuns_def)
  with free have "\<not> (\<exists>y \<in> set (cg_rows db). is_active g r y \<and> runId y = runId row)" by force
  then have deq: "dequeueNext g r db = Inr (Some row, db')"
    using q by (simp add: dequeueNext_def promoteOldestQueued_def db'_def)
  have "mset (map cg_id (row # rows)) = mset (map cg_id (filter (is_queued g r) (cg_rows db)))"
    unfolding q [symmetric] queued_rows_def order_by_def by simp
  then have dq: "distinct (map cg_id (row # rows))"
    using d by (metis distinct_map_filter mset_eq_imp_distinct_iff)
  have "queued_rows g r db' = order_by created_at (\<lambda>x. is_queued g r x \<and> cg_id x \<noteq> cg_id row) (cg_rows db)"
    by (simp add: db'_def queued_rows_def order_by_def filter_update_off is_queued_def)
  also have "\<dots> = filter (\<lambda>x. cg_id x \<noteq> cg_id row) (row # rows)"
    unfolding q [symmetric] queued_rows_def by (simp add: filter_order_by)
  also have "\<dots> = rows" using dq by (simp add: filter_id_conv notin_image_iff)
  finally have q': "queued_rows g r db' = rows" .
  have act': "activeRuns g r db' = insert (runId row) (activeRuns g r db)"
  proof -
    obtain xs ys where "cg_rows db = xs @ row # ys" "cg_rows db' = xs @ ?act row # ys"
      using update_one_split [OF hd [THEN conjunct1] d] unfolding db'_def
      by (metis cg_db.select_convs(1) cg_db.update_convs(1) cg_db.surjective)
    moreover have "is_active g r (?act row)" "\<not> is_active g r row"
      using hd by (auto simp: is_active_def is_queued_def in_scope_def)
    ultimately show ?thesis by (simp add: activeRuns_def)
  qed
  have "filter (is_queued g r) (cg_rows db2) = filter (is_queued g r) (cg_rows db')"
    unfolding db2_def markCompleted_def
    by (simp, rule filter_update_same) (simp add: is_active_def is_queued_def)
  then have q2: "queued_rows g r db2 = rows"
    using q' by (simp add: queued_rows_def order_by_def)
  have act2: "activeRuns g r db2 = activeRuns g r db"
  proof -
    have "activeRuns g r db2 = activeRuns g r db' - {runId row}"
      by (auto simp: activeRuns_def db2_def markCompleted_def filter_update_off)
    then show ?thesis using act' free by simp
  qed
  have "map cg_id (cg_rows db2) = map cg_id (cg_rows db)"
    by (simp add: db2_def db'_def markCompleted_def map_update_same)
  then have "queue_ok g r db2"
    using ok d q q2 act2 by (simp add: queue_ok_def)
  with deq q' act' q2 act2 show ?thesis unfolding db2_def by blast
qed

interpretation slots: slot_queue "dequeueNext g r" "\<lambda>row. markCompleted (runId row) g r t"
  "wakeWaiter has_ws g r" runId "queued_rows g r" "activeRuns g r" "aliveWaiter has_ws g r" "queue_ok g r"
proof unfold_locales
  show "dequeueNext g r db = Inr (None, db)" if "queue_ok g r db" "queued_rows g r db = []" for db
    using that by (simp add: dequeueNext_def promoteOldestQueued_def)
qed (simp_all add: queue_ok_def [THEN iffD1] promote_next wakeWaiter_alive wakeWaiter_other)


lemma sent_dispatch:
  "sent (snd (tryDispatchNextQueued has_ws g r t c)) = sent c @
     (case fst (tryDispatchNextQueued has_ws g r t c) of
        Woken e \<Rightarrow> [AckProceed (w_agentId e) (w_runId e) (w_jobId e)] | _ \<Rightarrow> [])"
  by (simp add: tryDispatchNextQueued_def Let_def split: prod.split)

text \<open>
  A slot release hands the slot to the oldest queued run whose agent is still connected:
  that run becomes the only new holder, its agent gets the one acknowledgement that is sent,
  every queued row before it is completed and the rows behind it stay queued. Without a live
  waiter the queue is emptied and nobody holds the slot. Only 32 dead rows ahead stop it.
\<close>

theorem dispatch_wakes_oldest_live:
  assumes "queue_ok g r (cdb c)"
  shows "case tryDispatchNextQueued has_ws g r t c of (out, c') \<Rightarrow>
    let q = queued_rows g r (cdb c);
        dead = takeWhile (\<lambda>row. aliveWaiter has_ws g r (cwaiters c) row = None) q
    in if 32 \<le> length dead
       then out = CapHit \<and> queued_rows g r (cdb c') = drop 32 q \<and>
            activeRuns g r (cdb c') = activeRuns g r (cdb c) \<and> sent c' = sent c
       else (case drop (length dead) q of
           [] \<Rightarrow> out = NothingQueued \<and> queued_rows g r (cdb c') = [] \<and>
                 activeRuns g r (cdb c') = activeRuns g r (cdb c) \<and> sent c' = sent c
         | row # rest \<Rightarrow>
             (\<exists>e. aliveWaiter has_ws g r (cwaiters c) row = Some e \<and> out = Woken e \<and>
                sent c' = sent c @ [AckProceed (w_agentId e) (w_runId e) (w_jobId e)]) \<and>
             queued_rows g r (cdb c') = rest \<and>
             activeRuns g r (cdb c') = insert (runId row) (activeRuns g r (cdb c)))"
  using slots.dispatch_loop_wakes [OF assms, where t = t and has_ws = has_ws and n = 32 and w = "cwaiters c"]
  by (auto simp: tryDispatchNextQueued_def MAX_ITERATIONS_def Let_def
      split: prod.split prod.split_asm list.split list.split_asm if_splits)

definition demo_waiter :: "run_id \<Rightarrow> agent_id \<Rightarrow> waiter" where
  "demo_waiter run a = \<lparr>w_runId = run, w_jobId = ''j'', w_agentId = a\<rparr>"

definition demo_coord :: "cg_row list \<Rightarrow> waiter list \<Rightarrow> coord" where
  "demo_coord rows ws = \<lparr>cdb = demo_db rows, cwaiters = [(scopeKey ''deploy'' ''rk'', ws)], sent = []\<rparr>"

lemma dispatch_wakes_oldest_live_witness:
  "sent (snd (tryDispatchNextQueued (\<lambda>a. a = ''a2'') ''deploy'' ''rk'' 9
      (demo_coord [demo_row 0 ''A'' SlotQueued, demo_row 1 ''B'' SlotQueued]
         [demo_waiter ''A'' ''a1'', demo_waiter ''B'' ''a2'']))) = [AckProceed ''a2'' ''B'' ''j'']"
proof -
  let ?c = "demo_coord [demo_row 0 ''A'' SlotQueued, demo_row 1 ''B'' SlotQueued]
         [demo_waiter ''A'' ''a1'', demo_waiter ''B'' ''a2'']"
  have q: "queued_rows ''deploy'' ''rk'' (cdb ?c) = [demo_row 0 ''A'' SlotQueued, demo_row 1 ''B'' SlotQueued]"
    by (simp add: demo_coord_def cg_eval)
  have "queue_ok ''deploy'' ''rk'' (cdb ?c)"
    unfolding queue_ok_def q by (simp add: demo_coord_def activeRuns_def cg_eval)
  from dispatch_wakes_oldest_live [OF this, where has_ws = "\<lambda>a. a = ''a2''" and t = 9, unfolded q]
  show ?thesis
    by (auto simp: aliveWaiter_def demo_coord_def waiters_of_def demo_waiter_def demo_row_def
        split: prod.splits)
qed

text \<open>
  The release in two transactions, as the run-completion path performs it, breaks the cap
  of one: when another run acquires between the release and the promotion, both the promoted
  and the acquiring run are active. Released and promoted in the single transaction of
  \<open>onJobComplete\<close>, the same acquisition is refused.
\<close>

theorem split_release_exceeds_cap:
  "let db = demo_db [demo_row 0 ''A'' SlotActive, demo_row 1 ''B'' SlotQueued];
       (yes, db1) = acquireSlot ''deploy'' ''rk'' ''C'' ''j'' 1 2 5 (releaseSlot ''deploy'' ''rk'' ''A'' 4 db)
   in activeCount ''deploy'' ''rk'' db = 1 \<and> yes \<and>
      (case dequeueNext ''deploy'' ''rk'' db1 of
         Inr (Some row, db2) \<Rightarrow> runId row = ''B'' \<and> activeCount ''deploy'' ''rk'' db2 = 2 | _ \<Rightarrow> False) \<and>
      (case onJobComplete ''deploy'' ''rk'' ''A'' 4 db of
         Inr (Some row, db2) \<Rightarrow> runId row = ''B'' \<and> activeCount ''deploy'' ''rk'' db2 = 1 \<and>
           \<not> fst (acquireSlot ''deploy'' ''rk'' ''C'' ''j'' 1 2 5 db2) | _ \<Rightarrow> False)"
  by (simp add: cg_eval onJobComplete_def Let_def)

definition demo_env :: "bool \<Rightarrow> conc_env" where
  "demo_env cip = \<lparr>env_context = (\<lambda>_. Some \<lparr>ctx_routingKey = ''rk'', ctx_concurrency =
       Some \<lparr>cfg_max = Some 1, cfg_cancelInProgress = Some cip\<rparr>\<rparr>),
     env_dispatchedJobs = (\<lambda>_. []), env_agentForJob = (\<lambda>_. None), env_has_ws = (\<lambda>_. True)\<rparr>"

text \<open>
  A report that supersedes the active run of a group of cap one while another run is queued
  there leaves two active runs: the dispatch after the acquisition promotes the queued run
  without looking at the cap, and both agents are told to proceed.
\<close>

theorem supersede_then_promote_overfills:
  "let c = demo_coord [demo_row 0 ''A'' SlotActive, demo_row 1 ''B'' SlotQueued] [demo_waiter ''B'' ''a2''];
       (ack, c') = onConcurrencyReport (demo_env True) ''a3'' ''deploy'' ''C'' ''j'' 2 5 c
   in ack = Inr Proceed \<and> sent c' = [AckProceed ''a2'' ''B'' ''j''] \<and>
      activeRuns ''deploy'' ''rk'' (cdb c') = {''B'', ''C''}"
  by (simp add: onConcurrencyReport_def demo_coord_def demo_env_def opt_default_def supersede_def
      cancel_messages_def tryDispatchNextQueued_def MAX_ITERATIONS_def wakeWaiter_def popByRunId_def
      demo_waiter_def activeRuns_def cg_eval Let_def insert_commute del: set_filter)

text \<open>
  A queued row whose run already holds a slot of the scope, which a second job of the run
  leaves when it reports while the first is queued, blocks the scope: once it is the oldest,
  every dispatch raises the unique violation and changes nothing.
\<close>

theorem second_queued_job_blocks:
  assumes "queued_rows g r (cdb c) = row # rows" "runId row \<in> activeRuns g r (cdb c)"
  shows "tryDispatchNextQueued has_ws g r t c = (Raised UniqueViolation, c)"
proof -
  have "\<exists>y \<in> set (cg_rows (cdb c)). is_active g r y \<and> runId y = runId row"
    using assms(2) by (auto simp: activeRuns_def)
  then have "dequeueNext g r (cdb c) = Inl UniqueViolation"
    using assms(1) by (simp add: dequeueNext_def promoteOldestQueued_def)
  then show ?thesis by (simp add: tryDispatchNextQueued_def MAX_ITERATIONS_def Let_def)
qed

text \<open>
  The scenario: two holders, two jobs of run R report and queue, run D queues behind them.
  The first completion promotes one job of R, the second completion raises and D stays queued.
\<close>

definition demo_coord3 :: coord where
  "demo_coord3 = (
     let env = (demo_env False)\<lparr>env_context := (\<lambda>_. Some \<lparr>ctx_routingKey = ''rk'', ctx_concurrency =
           Some \<lparr>cfg_max = Some 2, cfg_cancelInProgress = Some False\<rparr>\<rparr>)\<rparr>;
         report = (\<lambda>a run n c. snd (onConcurrencyReport env a ''deploy'' run ''j'' n n c));
         c = demo_coord [demo_row 0 ''A'' SlotActive, demo_row 1 ''A2'' SlotActive] [];
         c = report ''a3'' ''D'' 4 (report ''a2'' ''R'' 3 (report ''a1'' ''R'' 2 c));
         c = releaseRunSlots (\<lambda>_. True) ''A'' 5 c
     in c\<lparr>cdb := releaseSlot ''deploy'' ''rk'' ''A2'' 6 (cdb c)\<rparr>)"

lemma demo_coord3_rows: "cg_rows (cdb demo_coord3) =
    [(demo_row 0 ''A'' SlotCompleted)\<lparr>completed_at := Some 5\<rparr>,
     (demo_row 1 ''A2'' SlotCompleted)\<lparr>completed_at := Some 6\<rparr>,
     (demo_row 2 ''R'' SlotActive), demo_row 3 ''R'' SlotQueued, demo_row 4 ''D'' SlotQueued]"
  by code_simp

lemma second_queued_job_blocks_witness:
  "tryDispatchNextQueued (\<lambda>_. True) ''deploy'' ''rk'' 6 demo_coord3 = (Raised UniqueViolation, demo_coord3)"
proof (rule second_queued_job_blocks)
  show "queued_rows ''deploy'' ''rk'' (cdb demo_coord3) = demo_row 3 ''R'' SlotQueued # [demo_row 4 ''D'' SlotQueued]"
    unfolding queued_rows_def demo_coord3_rows by (simp add: cg_eval)
  show "runId (demo_row 3 ''R'' SlotQueued) \<in> activeRuns ''deploy'' ''rk'' (cdb demo_coord3)"
    unfolding activeRuns_def demo_coord3_rows by (simp add: cg_eval del: set_filter)
qed

end
