(* ===== verification/Matrix.thy ===== *)
theory Matrix
  imports Js_Strings
begin

text \<open>
  Matrices: validation, expansion into combinations, includes and excludes, and the suffix
  that names a combination (\<open>packages/engine/src/matrix/expand.ts\<close>, \<open>format.ts\<close>).

  An object lists its own properties in the order of \<open>Object.entries\<close>. The collation of
  \<open>localeCompare\<close> belongs to the host, so it is the parameter \<open>le\<close> ("sorts not after"). An
  error carries what its message is made of instead of the text.
\<close>

section \<open>Types\<close>

type_synonym matrix_values = "(string \<times> string option) list"
type_synonym dimension = "string \<times> string list"

datatype normalized_matrix = NArray "string list" | NObject "dimension list"

datatype element_place = InValues nat | InDimension string nat

datatype matrix_error =
    BadElement element_place js
  | BadDimension string js
  | BadMatrix js

section \<open>Validation\<close>

fun coerceElement :: "element_place \<Rightarrow> js \<Rightarrow> matrix_error + string" where
  "coerceElement pl (JStr s) = Inr s"
| "coerceElement pl (JNum n) = Inr (dec_int n)"
| "coerceElement pl (JBool b) = Inr (if b then ''true'' else ''false'')"
| "coerceElement pl v = Inl (BadElement pl v)"

fun coerceElements :: "(nat \<Rightarrow> element_place) \<Rightarrow> nat \<Rightarrow> js list \<Rightarrow> matrix_error + string list" where
  "coerceElements pl i [] = Inr []"
| "coerceElements pl i (v # vs) =
     (case coerceElement (pl i) v of
        Inl e \<Rightarrow> Inl e
      | Inr s \<Rightarrow> (case coerceElements pl (Suc i) vs of Inl e \<Rightarrow> Inl e | Inr ss \<Rightarrow> Inr (s # ss)))"

fun coerceDimensions :: "(string \<times> js) list \<Rightarrow> matrix_error + dimension list" where
  "coerceDimensions [] = Inr []"
| "coerceDimensions ((name, JArr vs) # ds) =
     (case coerceElements (InDimension name) 0 vs of
        Inl e \<Rightarrow> Inl e
      | Inr ss \<Rightarrow> (case coerceDimensions ds of Inl e \<Rightarrow> Inl e | Inr r \<Rightarrow> Inr ((name, ss) # r)))"
| "coerceDimensions ((name, v) # ds) = Inl (BadDimension name v)"

definition by_name :: "(string \<Rightarrow> string \<Rightarrow> bool) \<Rightarrow> string \<times> 'a \<Rightarrow> string \<times> 'a \<Rightarrow> bool" where
  "by_name le a b = le (fst a) (fst b)"

fun normalizeMatrixInput :: "(string \<Rightarrow> string \<Rightarrow> bool) \<Rightarrow> js \<Rightarrow> matrix_error + normalized_matrix" where
  "normalizeMatrixInput le (JArr vs) =
     (case coerceElements InValues 0 vs of Inl e \<Rightarrow> Inl e | Inr ss \<Rightarrow> Inr (NArray ss))"
| "normalizeMatrixInput le (JObj ps) =
     (case coerceDimensions ps of
        Inl e \<Rightarrow> Inl e
      | Inr dims \<Rightarrow> Inr (NObject (sort_by (by_name le) dims)))"
| "normalizeMatrixInput le v = Inl (BadMatrix v)"

section \<open>Expansion\<close>

definition cartesianProduct :: "'a list list \<Rightarrow> 'a list list" where
  "cartesianProduct sets =
     (if [] \<in> set sets then []
      else foldl (\<lambda>acc xs. concat (map (\<lambda>tuple. map (\<lambda>v. tuple @ [v]) xs) acc)) [[]] sets)"

definition expandSingleDimension :: "string list \<Rightarrow> matrix_values list" where
  "expandSingleDimension vs = map (\<lambda>v. [(''value'', Some v)]) vs"

definition expandMultiDimension :: "(string \<Rightarrow> string \<Rightarrow> bool) \<Rightarrow> dimension list \<Rightarrow> matrix_values list" where
  "expandMultiDimension le dims =
     (if dims = [] then []
      else
        let dims = sort_by (by_name le) dims
        in map (\<lambda>combo. js_object (zip (map fst dims) (map Some combo)))
             (cartesianProduct (map snd dims)))"

definition expandMatrix :: "(string \<Rightarrow> string \<Rightarrow> bool) \<Rightarrow> js \<Rightarrow> matrix_error + matrix_values list" where
  "expandMatrix le input =
     (case normalizeMatrixInput le input of
        Inl e \<Rightarrow> Inl e
      | Inr (NArray vs) \<Rightarrow> Inr (expandSingleDimension vs)
      | Inr (NObject dims) \<Rightarrow> Inr (expandMultiDimension le (js_object dims)))"

definition matrixCombinationCount :: "(string \<Rightarrow> string \<Rightarrow> bool) \<Rightarrow> js \<Rightarrow> matrix_error + nat" where
  "matrixCombinationCount le input =
     (case normalizeMatrixInput le input of
        Inl e \<Rightarrow> Inl e
      | Inr (NArray vs) \<Rightarrow> Inr (length vs)
      | Inr (NObject dims) \<Rightarrow>
          if dims = [] then Inr 0 else Inr (foldl (\<lambda>acc d. acc * length (snd d)) 1 dims))"

section \<open>Identity of combinations\<close>

definition hex_digit :: "nat \<Rightarrow> char" where
  "hex_digit d = (if d < 10 then char_of (48 + d) else char_of (87 + d))"

definition json_char :: "char \<Rightarrow> string" where
  "json_char c = (let n = (of_char c :: nat) in
     if c = CHR 0x22 then [CHR 0x5C, CHR 0x22]
     else if c = CHR 0x5C then [CHR 0x5C, CHR 0x5C]
     else if n = 8 then [CHR 0x5C, CHR ''b'']
     else if n = 9 then [CHR 0x5C, CHR ''t'']
     else if n = 10 then [CHR 0x5C, CHR ''n'']
     else if n = 12 then [CHR 0x5C, CHR ''f'']
     else if n = 13 then [CHR 0x5C, CHR ''r'']
     else if n < 32 then CHR 0x5C # ''u00'' @ [hex_digit (n div 16), hex_digit (n mod 16)]
     else [c])"

definition json_string :: "string \<Rightarrow> string" where
  "json_string s = [CHR 0x22] @ concat (map json_char s) @ [CHR 0x22]"

definition defined_entries :: "matrix_values \<Rightarrow> (string \<times> string) list" where
  "defined_entries m = [(k, v). (k, Some v) \<leftarrow> m]"

definition combinationKey :: "(string \<Rightarrow> string \<Rightarrow> bool) \<Rightarrow> matrix_values \<Rightarrow> string" where
  "combinationKey le combo =
     ''['' @ join '','' (map (\<lambda>(k, v). ''['' @ json_string k @ '','' @ json_string v @ '']'')
        (sort_by (by_name le) (defined_entries combo))) @ '']''"

fun findDuplicate_from :: "('m \<Rightarrow> 'k) \<Rightarrow> 'k list \<Rightarrow> 'm list \<Rightarrow> 'm option" where
  "findDuplicate_from keyOf seen [] = None"
| "findDuplicate_from keyOf seen (c # cs) =
     (if keyOf c \<in> set seen then Some c else findDuplicate_from keyOf (js_add (keyOf c) seen) cs)"

definition findDuplicateCombination :: "(matrix_values \<Rightarrow> string) \<Rightarrow> matrix_values list \<Rightarrow> matrix_values option" where
  "findDuplicateCombination keyOf combos = findDuplicate_from keyOf [] combos"

section \<open>Includes and excludes\<close>

text \<open>Reading a property: a missing one and one that holds \<open>undefined\<close> read the same.\<close>

definition lookup :: "matrix_values \<Rightarrow> string \<Rightarrow> string option" where
  "lookup m k = (case map_of m k of None \<Rightarrow> None | Some v \<Rightarrow> v)"

definition excluded_by :: "(string \<times> string) list \<Rightarrow> matrix_values \<Rightarrow> bool" where
  "excluded_by excl combo \<longleftrightarrow> excl \<noteq> [] \<and> (\<forall>(k, v) \<in> set excl. lookup combo k = Some v)"

definition same_combination :: "(string \<times> string) list \<Rightarrow> matrix_values \<Rightarrow> bool" where
  "same_combination incl combo \<longleftrightarrow>
     length incl = length combo \<and> (\<forall>(k, v) \<in> set incl. lookup combo k = Some v)"

fun add_includes ::
  "(string \<Rightarrow> string \<Rightarrow> bool) \<Rightarrow> (string \<times> string) list list \<Rightarrow> matrix_values list \<Rightarrow> matrix_values list" where
  "add_includes le [] result = result"
| "add_includes le (incl # incls) result =
     (if incl = [] then add_includes le incls result
      else if \<exists>combo \<in> set result. same_combination incl combo then add_includes le incls result
      else add_includes le incls
        (result @ [js_object (map (\<lambda>(k, v). (k, Some v)) (sort_by (by_name le) incl))]))"

definition applyIncludeExclude ::
  "(string \<Rightarrow> string \<Rightarrow> bool) \<Rightarrow> matrix_values list \<Rightarrow> (string \<times> string) list list option \<Rightarrow>
   (string \<times> string) list list option \<Rightarrow> matrix_values list" where
  "applyIncludeExclude le expanded incl excl =
     (let result = (case excl of
            None \<Rightarrow> expanded
          | Some es \<Rightarrow> filter (\<lambda>combo. \<not> (\<exists>e \<in> set es. excluded_by e combo)) expanded)
      in (case incl of None \<Rightarrow> result | Some is \<Rightarrow> add_includes le is result))"

section \<open>Names of combinations\<close>

definition formatMatrixSuffix :: "matrix_values \<Rightarrow> string" where
  "formatMatrixSuffix m =
     (let defined = defined_entries m
      in case defined of
           [(k, v)] \<Rightarrow> if k = ''value'' then v else join '', '' (map snd defined)
         | _ \<Rightarrow> join '', '' (map snd defined))"

definition formatExpandedJobName :: "string \<Rightarrow> matrix_values \<Rightarrow> string" where
  "formatExpandedJobName base m = base @ '' ('' @ formatMatrixSuffix m @ '')''"


section \<open>Products\<close>

lemma product_step:
  "foldl (\<lambda>acc xs. concat (map (\<lambda>tuple. map (\<lambda>v. tuple @ [v]) xs) acc)) acc sets =
    concat (map (\<lambda>t. map (\<lambda>r. t @ r) (product_lists sets)) acc)"
proof (induction sets arbitrary: acc)
  case Nil
  then show ?case by (induction acc) simp_all
next
  case (Cons xs sets)
  have "concat (concat (map h acc)) = concat (map (\<lambda>t. concat (h t)) acc)"
    for h :: "'a list \<Rightarrow> 'a list list list" and acc
    by (induction acc) simp_all
  moreover have "((@) (t @ [x])) = (\<lambda>r. t @ x # r)" for t and x :: 'a by (simp add: fun_eq_iff)
  ultimately show ?case by (simp add: Cons.IH map_concat comp_def)
qed

lemma product_lists_empty: "[] \<in> set sets \<Longrightarrow> product_lists sets = []"
  by (induction sets) auto

lemma cartesianProduct_eq: "cartesianProduct sets = product_lists sets"
  unfolding cartesianProduct_def product_step by (simp add: product_lists_empty map_idI)

lemma length_product_lists: "length (product_lists sets) = prod_list (map length sets)"
  by (induction sets) (simp_all add: length_concat comp_def sum_list_triv)

lemma foldl_mult: "foldl (\<lambda>acc d. acc * f d) (a :: nat) ds = a * prod_list (map f ds)"
  by (induction ds arbitrary: a) (simp_all add: algebra_simps)

lemma prod_list_mset: "mset xs = mset ys \<Longrightarrow> prod_list (xs :: nat list) = prod_list ys"
  by (metis prod_mset_prod_list)

section \<open>Sizes\<close>

text \<open>An object has each of its keys once.\<close>

fun js_wf :: "js \<Rightarrow> bool" where
  "js_wf (JObj ps) \<longleftrightarrow> distinct (map fst ps)"
| "js_wf v \<longleftrightarrow> True"

lemma coerceDimensions_names:
  "coerceDimensions ps = Inr dims \<Longrightarrow> map fst dims = map fst ps"
  by (induction ps arbitrary: dims rule: coerceDimensions.induct) (auto split: sum.splits)

lemma mset_js_object:
  assumes "distinct (map fst es)"
  shows "mset (js_object es) = mset es"
proof -
  have "map_of (js_object es) = map_of es"
    unfolding map_of_js_object using assms by (intro map_of_perm_distinct) (simp_all add: rev_map [symmetric])
  then have "set (js_object es) = set es"
    using assms distinct_js_object [of es] map_of_inject_set by blast
  then show ?thesis
    using assms distinct_js_object [of es] by (meson distinct_map set_eq_iff_mset_eq_distinct)
qed


lemma expandMultiDimension_length:
  assumes "dims \<noteq> []"
  shows "length (expandMultiDimension le dims) = prod_list (map (length \<circ> snd) dims)"
proof -
  have "mset (map (length \<circ> snd) (sort_by (by_name le) dims)) = mset (map (length \<circ> snd) dims)" by simp
  from prod_list_mset [OF this] show ?thesis
    using assms by (simp add: expandMultiDimension_def Let_def cartesianProduct_eq length_product_lists comp_def)
qed

text \<open>
  C3. The count that guards the expansion is exact: for every well-formed value it is the
  number of combinations that the expansion builds, and both reject the same values with the
  same error.
\<close>

theorem matrixCombinationCount_exact:
  assumes "js_wf v"
  shows "matrixCombinationCount le v = map_sum id length (expandMatrix le v)"
proof (cases "normalizeMatrixInput le v")
  case (Inl e)
  then show ?thesis by (simp add: matrixCombinationCount_def expandMatrix_def)
next
  case (Inr nm)
  show ?thesis
  proof (cases nm)
    case (NArray vs)
    with Inr show ?thesis
      by (simp add: matrixCombinationCount_def expandMatrix_def expandSingleDimension_def)
  next
    case (NObject dims)
    with Inr obtain ps ds where v: "v = JObj ps" "coerceDimensions ps = Inr ds" "dims = sort_by (by_name le) ds"
      by (cases v) (auto split: sum.splits)
    have "distinct (map fst dims)"
      using assms v coerceDimensions_names [OF v(2)] by simp
    then have m: "mset (js_object dims) = mset dims" by (rule mset_js_object)
    show ?thesis
    proof (cases "dims = []")
      case True
      with m Inr NObject show ?thesis
        by (simp add: matrixCombinationCount_def expandMatrix_def expandMultiDimension_def)
    next
      case False
      with m have ne: "js_object dims \<noteq> []" by auto
      have "mset (map (length \<circ> snd) (js_object dims)) = mset (map (length \<circ> snd) dims)" using m by simp
      from prod_list_mset [OF this] False Inr NObject show ?thesis
        using foldl_mult [of "\<lambda>d. length (snd d)" 1 dims]
        by (simp add: matrixCombinationCount_def expandMatrix_def expandMultiDimension_length [OF ne] comp_def)
    qed
  qed
qed

definition demo_le :: "string \<Rightarrow> string \<Rightarrow> bool" where
  "demo_le a b \<longleftrightarrow> length a \<le> length b"

lemma matrixCombinationCount_exact_witness:
  "matrixCombinationCount demo_le (JObj [(''node'', JArr [JNum 18, JNum 20]), (''os'', JArr [JStr ''linux''])]) = Inr 2 \<and>
   map_sum id length (expandMatrix demo_le (JObj [(''node'', JArr [JNum 18, JNum 20]), (''os'', JArr [JStr ''linux''])])) = Inr 2"
proof -
  let ?v = "JObj [(''node'', JArr [JNum 18, JNum 20]), (''os'', JArr [JStr ''linux''])]"
  have "matrixCombinationCount demo_le ?v = Inr 2" by (simp add: matrixCombinationCount_def)
  moreover have "js_wf ?v" by simp
  note matrixCombinationCount_exact [OF this, of demo_le]
  ultimately show ?thesis by metis
qed


section \<open>Which combinations\<close>

lemma map_of_js_object_distinct: "distinct (map fst es) \<Longrightarrow> map_of (js_object es) = map_of es"
  unfolding map_of_js_object by (intro map_of_perm_distinct) (simp_all add: rev_map [symmetric])

text \<open>A choice function of the dimensions, as a row of the product.\<close>

lemma product_row_choice:
  assumes "distinct (map fst ds)"
  shows "(\<lambda>c. map_of (zip (map fst ds) (map Some c))) ` {c. list_all2 (\<lambda>x vs. x \<in> set vs) c (map snd ds)} =
    {m. dom m = fst ` set ds \<and> (\<forall>(n, vs) \<in> set ds. \<exists>x \<in> set vs. m n = Some (Some x))}" (is "?L = ?R")
proof
  show "?L \<subseteq> ?R"
  proof
    fix m assume "m \<in> ?L"
    then obtain c where c: "m = map_of (zip (map fst ds) (map Some c))" "list_all2 (\<lambda>x vs. x \<in> set vs) c (map snd ds)"
      by blast
    from c(2) have len: "length c = length ds" by (simp add: list_all2_lengthD)
    have "dom m = fst ` set ds" unfolding c(1) using len by (simp add: dom_map_of_zip)
    moreover have "\<exists>x \<in> set vs. m n = Some (Some x)" if "(n, vs) \<in> set ds" for n vs
    proof -
      from that obtain i where i: "i < length ds" "ds ! i = (n, vs)" by (auto simp: in_set_conv_nth)
      then have "m n = Some (Some (c ! i))"
        unfolding c(1) using assms len
        by (intro map_of_eq_Some_distinct [THEN iffD2]) (auto simp: in_set_zip intro!: exI [of _ i])
      moreover have "c ! i \<in> set vs" using c(2) i by (auto simp: list_all2_conv_all_nth)
      ultimately show ?thesis by blast
    qed
    ultimately show "m \<in> ?R" by auto
  qed
next
  show "?R \<subseteq> ?L"
  proof
    fix m assume m: "m \<in> ?R"
    define c where "c = map (\<lambda>d. the (the (m (fst d)))) ds"
    have val: "m n = Some (Some (the (the (m n)))) \<and> the (the (m n)) \<in> set vs" if "(n, vs) \<in> set ds" for n vs
      using m that by force
    have "list_all2 (\<lambda>x vs. x \<in> set vs) c (map snd ds)"
      using val by (auto simp: c_def list_all2_conv_all_nth)
    moreover have z: "zip (map fst ds) (map Some c) = map (\<lambda>d. (fst d, Some (the (the (m (fst d)))))) ds"
      by (simp add: c_def zip_map_map zip_same_conv_map)
    have "m = map_of (zip (map fst ds) (map Some c))"
    proof
      fix n
      show "m n = map_of (zip (map fst ds) (map Some c)) n"
      proof (cases "n \<in> fst ` set ds")
        case True
        then obtain vs where vs: "(n, vs) \<in> set ds" by auto
        have "(n, Some (the (the (m n)))) \<in> set (zip (map fst ds) (map Some c))"
          unfolding z using vs by force
        then have "map_of (zip (map fst ds) (map Some c)) n = Some (Some (the (the (m n))))"
          using assms by (intro map_of_eq_Some_distinct [THEN iffD2]) (simp_all add: c_def)
        with val [OF vs] show ?thesis by simp
      next
        case False
        then have "m n = None" using m by auto
        moreover have "map_of (zip (map fst ds) (map Some c)) n = None"
          using False unfolding z by (simp add: map_of_eq_None_iff image_image)
        ultimately show ?thesis by simp
      qed
    qed
    ultimately show "m \<in> ?L" by blast
  qed
qed

text \<open>
  The expansion of an object matrix is the set of all choices: a combination assigns to every
  dimension one of its (coerced) values, and every such assignment is there. A matrix with
  no dimension expands to nothing.
\<close>

theorem expandMatrix_all_choices:
  assumes "distinct (map fst ps)" "coerceDimensions ps = Inr dims"
  shows "\<exists>combos. expandMatrix le (JObj ps) = Inr combos \<and>
    map_of ` set combos = (if dims = [] then {} else
      {m. dom m = fst ` set dims \<and> (\<forall>(n, vs) \<in> set dims. \<exists>x \<in> set vs. m n = Some (Some x))})"
proof -
  define ds where "ds = sort_by (by_name le) (js_object (sort_by (by_name le) dims))"
  have d: "distinct (map fst (sort_by (by_name le) dims))"
    using assms coerceDimensions_names [OF assms(2)] by simp
  have "mset ds = mset dims" using mset_js_object [OF d] by (simp add: ds_def)
  then have ds: "set ds = set dims" "distinct (map fst ds)" "ds = [] \<longleftrightarrow> dims = []"
    using d by (metis set_mset_mset, metis distinct_map_sort_by mset_eq_imp_distinct_iff mset_map, metis mset_zero_iff)
  have len: "length c = length ds" if "list_all2 (\<lambda>x vs. x \<in> set vs) c (map snd ds)" for c
    using that by (simp add: list_all2_lengthD)
  define combos where "combos = expandMultiDimension le (js_object (sort_by (by_name le) dims))"
  have ne: "js_object (sort_by (by_name le) dims) = [] \<longleftrightarrow> dims = []"
    using mset_js_object [OF d] by (metis mset_sort_by mset_zero_iff)
  have "map_of ` set combos = (if dims = [] then {} else
      (\<lambda>c. map_of (zip (map fst ds) (map Some c))) ` {c. list_all2 (\<lambda>x vs. x \<in> set vs) c (map snd ds)})"
    unfolding combos_def expandMultiDimension_def ne Let_def ds_def [symmetric] cartesianProduct_eq
    using ds(2) by (auto simp: product_lists_set image_image map_of_js_object_distinct len)
  with product_row_choice [OF ds(2)] show ?thesis
    using assms(2) by (simp add: expandMatrix_def combos_def ds(1))
qed

lemma expandMatrix_all_choices_witness:
  "\<exists>combos. expandMatrix demo_le (JObj [(''os'', JArr [JStr ''linux'', JStr ''mac''])]) = Inr combos \<and>
    map_of ` set combos = {m. dom m = {''os''} \<and> (m ''os'' = Some (Some ''linux'') \<or> m ''os'' = Some (Some ''mac''))}"
proof -
  have "distinct (map fst [(''os'', JArr [JStr ''linux'', JStr ''mac''])])" by simp
  from expandMatrix_all_choices [OF this, of "[(''os'', [''linux'', ''mac''])]" demo_le]
  show ?thesis by simp
qed

section \<open>Duplicates, includes and excludes\<close>

lemma findDuplicate_from_None:
  "findDuplicate_from keyOf seen cs = None \<longleftrightarrow>
     distinct (map keyOf cs) \<and> set seen \<inter> keyOf ` set cs = {}"
  by (induction keyOf seen cs rule: findDuplicate_from.induct) auto

lemma findDuplicate_from_Some:
  "findDuplicate_from keyOf seen cs = Some c \<Longrightarrow>
     \<exists>xs ys. cs = xs @ c # ys \<and> keyOf c \<in> set seen \<union> keyOf ` set xs \<and>
       distinct (map keyOf xs) \<and> set seen \<inter> keyOf ` set xs = {}"
proof (induction keyOf seen cs rule: findDuplicate_from.induct)
  case (2 keyOf seen x cs)
  show ?case
  proof (cases "keyOf x \<in> set seen")
    case True
    with 2(2) show ?thesis by (intro exI [of _ "[]"] exI [of _ cs]) simp
  next
    case False
    with 2 obtain xs ys where "cs = xs @ c # ys" "keyOf c \<in> set (js_add (keyOf x) seen) \<union> keyOf ` set xs"
      "distinct (map keyOf xs)" "set (js_add (keyOf x) seen) \<inter> keyOf ` set xs = {}" by auto
    with False show ?thesis by (intro exI [of _ "x # xs"] exI [of _ ys]) auto
  qed
qed simp

lemma findDuplicateCombination_None:
  "findDuplicateCombination keyOf cs = None \<longleftrightarrow> distinct (map keyOf cs)"
  by (simp add: findDuplicateCombination_def findDuplicate_from_None)


declare add_includes.simps [simp del]

definition include_combo :: "(string \<Rightarrow> string \<Rightarrow> bool) \<Rightarrow> (string \<times> string) list \<Rightarrow> matrix_values" where
  "include_combo le incl = js_object (map (\<lambda>(k, v). (k, Some v)) (sort_by (by_name le) incl))"

lemma add_includes_simps [simp]:
  "add_includes le [] result = result"
  "add_includes le (incl # incls) result =
     (if incl = [] \<or> (\<exists>combo \<in> set result. same_combination incl combo) then add_includes le incls result
      else add_includes le incls (result @ [include_combo le incl]))"
  by (simp_all add: include_combo_def add_includes.simps)

lemma include_combo_same:
  assumes "distinct (map fst incl)"
  shows "same_combination incl (include_combo le incl)"
proof -
  let ?es = "map (\<lambda>(k, v). (k, Some v)) (sort_by (by_name le) incl)"
  have "map fst ?es = map fst (sort_by (by_name le) incl)" by auto
  then have d: "distinct (map fst ?es)" using assms by (metis distinct_map_sort_by)
  have "length (include_combo le incl) = length incl"
    using arg_cong [OF mset_js_object [OF d], of size] by (simp add: include_combo_def)
  moreover have "lookup (include_combo le incl) k = Some v" if "(k, v) \<in> set incl" for k v
  proof -
    have "(k, Some v) \<in> set ?es" using that by force
    then have "map_of ?es k = Some (Some v)" using d by simp
    then show ?thesis by (simp add: lookup_def include_combo_def map_of_js_object_distinct [OF d])
  qed
  ultimately show ?thesis by (auto simp: same_combination_def)
qed

lemma add_includes_extends: "\<exists>extra. add_includes le incls result = result @ extra \<and>
    (\<forall>m \<in> set extra. \<exists>incl \<in> set incls. incl \<noteq> [] \<and> m = include_combo le incl)"
proof (induction incls arbitrary: result)
  case (Cons incl incls)
  show ?case
  proof (cases "incl = [] \<or> (\<exists>combo \<in> set result. same_combination incl combo)")
    case True
    with Cons [of result] show ?thesis by auto
  next
    case False
    with Cons [of "result @ [include_combo le incl]"] show ?thesis by auto
  qed
qed simp

lemma add_includes_present:
  assumes "\<forall>incl \<in> set incls. distinct (map fst incl)" "incl \<in> set incls" "incl \<noteq> []"
  shows "\<exists>combo \<in> set (add_includes le incls result). same_combination incl combo"
  using assms
proof (induction incls arbitrary: result)
  case (Cons i incls)
  have keep: "\<exists>combo \<in> set (add_includes le incls r). same_combination incl combo"
    if "\<exists>combo \<in> set r. same_combination incl combo" for r
    using add_includes_extends [of le incls r] that by auto
  show ?case
  proof (cases "incl \<in> set incls")
    case True
    with Cons show ?thesis by simp
  next
    case False
    then have "i = incl" using Cons.prems by simp
    then show ?thesis
      using Cons.prems include_combo_same [of incl le]
        keep [of result] keep [of "result @ [include_combo le incl]"] by auto
  qed
qed simp

text \<open>
  Excludes remove exactly the combinations that agree with a non-empty exclude on all of its
  dimensions, the others stay in order; what follows them comes from non-empty includes, and
  every non-empty include is a combination of the result. An empty exclude removes nothing
  and an empty include adds nothing.
\<close>

theorem applyIncludeExclude_spec:
  assumes "\<forall>i \<in> set incls. distinct (map fst i)"
  shows "\<exists>extra. applyIncludeExclude le expanded (Some incls) (Some excls) =
      filter (\<lambda>combo. \<forall>e \<in> set excls. e = [] \<or> (\<exists>(k, v) \<in> set e. lookup combo k \<noteq> Some v)) expanded @ extra \<and>
    (\<forall>m \<in> set extra. \<exists>i \<in> set incls. i \<noteq> [] \<and> same_combination i m) \<and>
    (\<forall>i \<in> set incls. i = [] \<or> (\<exists>m \<in> set (applyIncludeExclude le expanded (Some incls) (Some excls)).
       same_combination i m))"
proof -
  let ?kept = "filter (\<lambda>combo. \<not> (\<exists>e \<in> set excls. excluded_by e combo)) expanded"
  have kept: "?kept = filter (\<lambda>combo. \<forall>e \<in> set excls. e = [] \<or> (\<exists>(k, v) \<in> set e. lookup combo k \<noteq> Some v)) expanded"
    by (rule filter_cong) (auto simp: excluded_by_def)
  obtain extra where e: "add_includes le incls ?kept = ?kept @ extra"
    "\<forall>m \<in> set extra. \<exists>i \<in> set incls. i \<noteq> [] \<and> m = include_combo le i"
    using add_includes_extends by blast
  have r: "applyIncludeExclude le expanded (Some incls) (Some excls) = add_includes le incls ?kept"
    by (simp add: applyIncludeExclude_def Let_def)
  have "\<forall>m \<in> set extra. \<exists>i \<in> set incls. i \<noteq> [] \<and> same_combination i m"
    using e(2) assms include_combo_same by fast
  moreover have "\<forall>i \<in> set incls. i = [] \<or> (\<exists>m \<in> set (add_includes le incls ?kept). same_combination i m)"
    using add_includes_present [OF assms] by blast
  ultimately show ?thesis unfolding r kept [symmetric] using e(1) by blast
qed

lemma applyIncludeExclude_spec_witness:
  "applyIncludeExclude demo_le [[(''os'', Some ''linux'')], [(''os'', Some ''mac'')]]
     (Some [[(''os'', ''win'')], []]) (Some [[(''os'', ''mac'')], []]) = [[(''os'', Some ''linux'')], [(''os'', Some ''win'')]] \<and>
   {m \<in> set (applyIncludeExclude demo_le [[(''os'', Some ''linux'')], [(''os'', Some ''mac'')]]
     (Some [[(''os'', ''win'')], []]) (Some [[(''os'', ''mac'')], []])). same_combination [(''os'', ''win'')] m} \<noteq> {}"
proof -
  have "\<forall>i \<in> set [[(''os'', ''win'')], []]. distinct (map fst i)" by simp
  from applyIncludeExclude_spec [OF this, of demo_le "[[(''os'', Some ''linux'')], [(''os'', Some ''mac'')]]"
      "[[(''os'', ''mac'')], []]"]
  have "\<exists>m \<in> set (applyIncludeExclude demo_le [[(''os'', Some ''linux'')], [(''os'', Some ''mac'')]]
     (Some [[(''os'', ''win'')], []]) (Some [[(''os'', ''mac'')], []])). same_combination [(''os'', ''win'')] m"
    by (elim exE conjE) simp
  moreover have "applyIncludeExclude demo_le [[(''os'', Some ''linux'')], [(''os'', Some ''mac'')]]
     (Some [[(''os'', ''win'')], []]) (Some [[(''os'', ''mac'')], []]) = [[(''os'', Some ''linux'')], [(''os'', Some ''win'')]]"
    by code_simp
  ultimately show ?thesis by blast
qed

end
