(* ===== verification/Fanout.thy ===== *)
theory Fanout
  imports Matrix Statuses
begin

text \<open>
  Fan-out: lock jobs become dispatchable children, one per matrix combination or per target
  host (\<open>packages/engine/src/fanout/materialize.ts\<close>). An error carries the job, the cause
  and what its message is made of.
\<close>

section \<open>Types\<close>

definition MAX_FANOUT_JOBS :: nat where
  "MAX_FANOUT_JOBS = 256"

definition MAX_MATRIX_MATERIALIZATION :: nat where
  "MAX_MATRIX_MATERIALIZATION = 100000"

datatype variant_kind = VMatrix | VHost

datatype fanout_cause = CauseError | NarrowedEmpty

datatype fanout_reason =
    NoValues
  | TooLarge nat
  | BadShape matrix_error
  | ZeroCombinations
  | TooManyCombinations nat
  | DuplicateCombination matrix_values
  | NoHosts
  | TooManyHosts nat nat

datatype fanout_error = FanoutError (fe_jobName: string) (fe_reason: fanout_reason) (fe_cause: fanout_cause)

text \<open>A matrix of the lock file is dynamic, or static with a value of any shape.\<close>

datatype lock_matrix = DynamicMatrix | StaticMatrix js

text \<open>An entry of \<open>needs\<close>: a name, a name with a status set, or a group with one.\<close>

datatype need =
    NeedName string
  | NeedJob string "job_status list option"
  | NeedGroup string "job_status list option"

record lock_job =
  lj_name :: string
  lj_matrix :: "lock_matrix option"
  lj_include :: "(string \<times> string) list list option"
  lj_exclude :: "(string \<times> string) list list option"
  lj_needs :: "need list option"
  lj_dependsOnGroups :: "string list option"

text \<open>An absent \<open>connectedInstanceId\<close> is \<open>None\<close>, a null one \<open>Some None\<close>.\<close>

record host_agent =
  ha_agentId :: agent_id
  ha_host :: string
  ha_labels :: "string list"
  ha_connectedInstanceId :: "instance_id option option"
  ha_needsBringup :: bool

record materialized =
  mj_lockJob :: lock_job
  mj_baseName :: string
  mj_expandedName :: string
  mj_variantKind :: "variant_kind option"
  mj_variantValues :: "matrix_values option"
  mj_pendingDynamicMatrix :: bool
  mj_pinnedAgentId :: "agent_id option"
  mj_host :: "string option"
  mj_agent :: "host_agent option"
  mj_connectedInstanceId :: "instance_id option option"
  mj_needsBringup :: bool
  mj_fanoutIndex :: "nat option"
  mj_fanoutTotal :: "nat option"

record fanout_result =
  fr_jobs :: "materialized list"
  fr_expansionMap :: "(string \<times> string list) list"

definition plain_job :: "lock_job \<Rightarrow> string \<Rightarrow> materialized" where
  "plain_job lj expanded = \<lparr>mj_lockJob = lj, mj_baseName = lj_name lj, mj_expandedName = expanded,
     mj_variantKind = None, mj_variantValues = None, mj_pendingDynamicMatrix = False,
     mj_pinnedAgentId = None, mj_host = None, mj_agent = None, mj_connectedInstanceId = None,
     mj_needsBringup = False, mj_fanoutIndex = None, mj_fanoutTotal = None\<rparr>"

section \<open>Positions\<close>

text \<open>\<open>rank\<close> maps each child, an object of its own, to its place in the sorted copy.\<close>

definition position :: "'a list \<Rightarrow> 'a \<Rightarrow> nat" where
  "position xs x = length (takeWhile (\<lambda>y. y \<noteq> x) xs)"

definition rank_order :: "(string \<Rightarrow> string \<Rightarrow> bool) \<Rightarrow> (materialized \<Rightarrow> string) \<Rightarrow> materialized list \<Rightarrow> nat list" where
  "rank_order le keyOf children =
     map fst (sort_by (\<lambda>a b. le (keyOf (snd a)) (keyOf (snd b))) (zip [0..<length children] children))"

definition assignFanoutPositions ::
  "(string \<Rightarrow> string \<Rightarrow> bool) \<Rightarrow> (materialized \<Rightarrow> string) \<Rightarrow> materialized list \<Rightarrow> materialized list" where
  "assignFanoutPositions le keyOf children =
     (if length children \<le> 1 then children
      else map (\<lambda>(i, c). c\<lparr>mj_fanoutIndex := Some (position (rank_order le keyOf children) i),
                            mj_fanoutTotal := Some (length children)\<rparr>)
             (zip [0..<length children] children))"

text \<open>\<open>expandedName.slice(baseName.length + 2, -1)\<close>.\<close>

definition variantLabelOf :: "materialized \<Rightarrow> string" where
  "variantLabelOf c = drop (length (mj_baseName c) + 2) (butlast (mj_expandedName c))"

section \<open>Envelopes\<close>

record envelope =
  ev_name :: string
  ev_baseJobName :: string
  ev_matrixValues :: "matrix_values option"
  ev_pinnedAgentId :: "agent_id option"
  ev_host :: "string option"
  ev_agent :: "host_agent option"
  ev_connectedInstanceId :: "instance_id option option"
  ev_fanoutIndex :: "nat option"
  ev_fanoutTotal :: "nat option"

definition fanoutEnvelopeFields :: "materialized \<Rightarrow> envelope \<Rightarrow> envelope" where
  "fanoutEnvelopeFields m e =
     (if mj_fanoutTotal m \<noteq> None
      then e\<lparr>ev_fanoutIndex := mj_fanoutIndex m, ev_fanoutTotal := mj_fanoutTotal m\<rparr> else e)"

definition base_envelope :: "materialized \<Rightarrow> envelope" where
  "base_envelope m = \<lparr>ev_name = mj_expandedName m, ev_baseJobName = mj_baseName m,
     ev_matrixValues = None, ev_pinnedAgentId = None, ev_host = None, ev_agent = None,
     ev_connectedInstanceId = None, ev_fanoutIndex = None, ev_fanoutTotal = None\<rparr>"

definition matrixEnvelopeFields :: "materialized \<Rightarrow> envelope" where
  "matrixEnvelopeFields m =
     fanoutEnvelopeFields m ((base_envelope m)\<lparr>ev_matrixValues := mj_variantValues m\<rparr>)"

definition nonempty :: "string option \<Rightarrow> string option" where
  "nonempty v = (if v = Some [] then None else v)"

definition hostEnvelopeFields :: "materialized \<Rightarrow> envelope" where
  "hostEnvelopeFields m =
     fanoutEnvelopeFields m ((base_envelope m)\<lparr>ev_pinnedAgentId := nonempty (mj_pinnedAgentId m),
       ev_host := nonempty (mj_host m), ev_agent := mj_agent m,
       ev_connectedInstanceId := mj_connectedInstanceId m\<rparr>)"

section \<open>Materialization\<close>

definition matrix_child :: "lock_job \<Rightarrow> matrix_values \<Rightarrow> materialized" where
  "matrix_child lj v = (plain_job lj (formatExpandedJobName (lj_name lj) v))
     \<lparr>mj_variantKind := Some VMatrix, mj_variantValues := Some v\<rparr>"

definition guarded_children ::
  "(string \<Rightarrow> string \<Rightarrow> bool) \<Rightarrow> lock_job \<Rightarrow> matrix_values list \<Rightarrow> fanout_error + materialized list" where
  "guarded_children le lj combos =
     (if combos = [] then Inl (FanoutError (lj_name lj) ZeroCombinations CauseError)
      else if MAX_FANOUT_JOBS < length combos
        then Inl (FanoutError (lj_name lj) (TooManyCombinations (length combos)) CauseError)
      else case findDuplicateCombination (formatExpandedJobName (lj_name lj)) combos of
          Some d \<Rightarrow> Inl (FanoutError (lj_name lj) (DuplicateCombination d) CauseError)
        | None \<Rightarrow> Inr (assignFanoutPositions le variantLabelOf (map (matrix_child lj) combos)))"

definition materializeResolvedMatrix ::
  "(string \<Rightarrow> string \<Rightarrow> bool) \<Rightarrow> lock_job \<Rightarrow> matrix_values list \<Rightarrow> fanout_error + fanout_result" where
  "materializeResolvedMatrix le lj combos =
     (case guarded_children le lj combos of
        Inl e \<Rightarrow> Inl e
      | Inr jobs \<Rightarrow> Inr \<lparr>fr_jobs = jobs, fr_expansionMap = [(lj_name lj, map mj_expandedName jobs)]\<rparr>)"

definition host_child :: "lock_job \<Rightarrow> host_agent \<Rightarrow> materialized" where
  "host_child lj a = (plain_job lj (lj_name lj @ '' ('' @ ha_host a @ '')''))
     \<lparr>mj_variantKind := Some VHost, mj_pinnedAgentId := Some (ha_agentId a), mj_host := Some (ha_host a),
      mj_agent := Some a,
      mj_connectedInstanceId := Some (case ha_connectedInstanceId a of None \<Rightarrow> None | Some v \<Rightarrow> v),
      mj_needsBringup := ha_needsBringup a\<rparr>"

definition materializeResolvedHosts ::
  "(string \<Rightarrow> string \<Rightarrow> bool) \<Rightarrow> lock_job \<Rightarrow> host_agent list \<Rightarrow> nat \<Rightarrow> fanout_error + fanout_result" where
  "materializeResolvedHosts le lj agents maxHosts =
     (if agents = [] then Inl (FanoutError (lj_name lj) NoHosts CauseError)
      else if maxHosts < length agents
        then Inl (FanoutError (lj_name lj) (TooManyHosts (length agents) maxHosts) CauseError)
      else
        let jobs = assignFanoutPositions le (\<lambda>c. case mj_pinnedAgentId c of None \<Rightarrow> [] | Some a \<Rightarrow> a)
                     (map (host_child lj) agents)
        in Inr \<lparr>fr_jobs = jobs, fr_expansionMap = [(lj_name lj, map mj_expandedName jobs)]\<rparr>)"

fun js_truthy :: "js \<Rightarrow> bool" where
  "js_truthy JUndef = False"
| "js_truthy JNull = False"
| "js_truthy (JBool b) = b"
| "js_truthy (JNum n) = (n \<noteq> 0)"
| "js_truthy (JStr s) = (s \<noteq> [])"
| "js_truthy (JArr vs) = True"
| "js_truthy (JObj ps) = True"

definition static_combinations ::
  "(string \<Rightarrow> string \<Rightarrow> bool) \<Rightarrow> lock_job \<Rightarrow> js \<Rightarrow> fanout_error + matrix_values list" where
  "static_combinations le lj values =
     (if \<not> js_truthy values then Inl (FanoutError (lj_name lj) NoValues CauseError)
      else case matrixCombinationCount le values of
          Inl e \<Rightarrow> Inl (FanoutError (lj_name lj) (BadShape e) CauseError)
        | Inr rawCount \<Rightarrow>
            if MAX_MATRIX_MATERIALIZATION < rawCount
            then Inl (FanoutError (lj_name lj) (TooLarge rawCount) CauseError)
            else case expandMatrix le values of
                Inl e \<Rightarrow> Inl (FanoutError (lj_name lj) (BadShape e) CauseError)
              | Inr expanded \<Rightarrow> Inr (applyIncludeExclude le expanded (lj_include lj) (lj_exclude lj)))"

definition job_children ::
  "(string \<Rightarrow> string \<Rightarrow> bool) \<Rightarrow> lock_job \<Rightarrow> fanout_error + materialized list" where
  "job_children le lj =
     (case lj_matrix lj of
        None \<Rightarrow> Inr [plain_job lj (lj_name lj)]
      | Some DynamicMatrix \<Rightarrow> Inr [(plain_job lj (lj_name lj))\<lparr>mj_pendingDynamicMatrix := True\<rparr>]
      | Some (StaticMatrix values) \<Rightarrow>
          (case static_combinations le lj values of
             Inl e \<Rightarrow> Inl e
           | Inr combos \<Rightarrow> guarded_children le lj combos))"

fun materialize_from ::
  "(string \<Rightarrow> string \<Rightarrow> bool) \<Rightarrow> lock_job list \<Rightarrow> fanout_result \<Rightarrow> fanout_error + fanout_result" where
  "materialize_from le [] res = Inr res"
| "materialize_from le (lj # ljs) res =
     (case job_children le lj of
        Inl e \<Rightarrow> Inl e
      | Inr children \<Rightarrow> materialize_from le ljs
          \<lparr>fr_jobs = fr_jobs res @ children,
           fr_expansionMap = amap_set (lj_name lj) (map mj_expandedName children) (fr_expansionMap res)\<rparr>)"

definition materializeFanout ::
  "(string \<Rightarrow> string \<Rightarrow> bool) \<Rightarrow> lock_job list \<Rightarrow> fanout_error + fanout_result" where
  "materializeFanout le ljs = materialize_from le ljs \<lparr>fr_jobs = [], fr_expansionMap = []\<rparr>"


section \<open>Positions are ranks\<close>

lemma position_nth: "distinct xs \<Longrightarrow> i < length xs \<Longrightarrow> position xs (xs ! i) = i"
proof (induction xs arbitrary: i)
  case (Cons x xs)
  show ?case
  proof (cases i)
    case (Suc j)
    with Cons.prems have "xs ! j \<noteq> x" by (metis distinct.simps(2) length_Cons not_less_eq nth_mem)
    with Cons Suc show ?thesis by (simp add: position_def)
  qed (simp add: position_def)
qed simp

lemma position_less: "x \<in> set xs \<Longrightarrow> position xs x < length xs"
  by (induction xs) (auto simp: position_def)

lemma nth_position: "x \<in> set xs \<Longrightarrow> xs ! position xs x = x"
  by (induction xs) (auto simp: position_def)

lemma mset_rank_order: "mset (rank_order le keyOf cs) = mset [0..<length cs]"
proof -
  have "mset (map fst (sort_by r z)) = mset (map fst z)" for r and z :: "(nat \<times> materialized) list"
    by simp
  then show ?thesis by (simp add: rank_order_def del: mset_map mset_upt)
qed

lemma rank_order_perm:
  "distinct (rank_order le keyOf cs)" "set (rank_order le keyOf cs) = {..<length cs}"
  "length (rank_order le keyOf cs) = length cs"
  using mset_rank_order [of le keyOf cs]
  by (metis distinct_upt mset_eq_imp_distinct_iff, metis atLeast_upt mset_eq_setD,
      metis length_upt diff_zero mset_eq_length)

text \<open>The collation of the keys orders the children.\<close>

lemma collation_key: "collation le \<Longrightarrow> collation (\<lambda>a b. le (k a) (k b))"
  unfolding collation_def by blast

lemma rank_order_sorted:
  assumes "collation le" "i < length cs" "j < length cs"
    "position (rank_order le keyOf cs) i < position (rank_order le keyOf cs) j"
  shows "le (keyOf (cs ! i)) (keyOf (cs ! j))"
proof -
  let ?r = "\<lambda>a b. le (keyOf (snd a)) (keyOf (snd b))"
  let ?s = "sort_by ?r (zip [0..<length cs] cs)"
  let ?p = "position (rank_order le keyOf cs)"
  have "sorted_wrt ?r ?s" by (rule collation.sorted_sort_by) (rule collation_key [OF assms(1)])
  have in_set: "i \<in> set (rank_order le keyOf cs)" "j \<in> set (rank_order le keyOf cs)"
    using assms(2,3) by (simp_all add: rank_order_perm(2))
  have bound: "?p j < length ?s"
    using position_less [OF in_set(2)] by (simp add: rank_order_def)
  have entry: "snd (?s ! ?p k) = cs ! k" if "k \<in> set (rank_order le keyOf cs)" for k
  proof -
    have lt: "?p k < length ?s" using position_less [OF that] by (simp add: rank_order_def)
    have "fst (?s ! ?p k) = k"
      using nth_position [OF that] lt by (simp add: rank_order_def)
    moreover have "?s ! ?p k \<in> set (zip [0..<length cs] cs)" using nth_mem [OF lt] by simp
    ultimately show ?thesis by (auto simp: in_set_zip)
  qed
  from \<open>sorted_wrt ?r ?s\<close> assms(4) bound have "?r (?s ! ?p i) (?s ! ?p j)"
    by (simp add: sorted_wrt_iff_nth_less)
  then show ?thesis by (simp only: entry [OF in_set(1)] entry [OF in_set(2)])
qed

lemma length_assign [simp]: "length (assignFanoutPositions le keyOf cs) = length cs"
  by (simp add: assignFanoutPositions_def)

lemma nth_assign:
  "1 < length cs \<Longrightarrow> i < length cs \<Longrightarrow> assignFanoutPositions le keyOf cs ! i =
    (cs ! i)\<lparr>mj_fanoutIndex := Some (position (rank_order le keyOf cs) i), mj_fanoutTotal := Some (length cs)\<rparr>"
  by (simp add: assignFanoutPositions_def)

lemma map_assign:
  assumes "\<And>c x y. f (c\<lparr>mj_fanoutIndex := x, mj_fanoutTotal := y\<rparr>) = f c"
  shows "map f (assignFanoutPositions le keyOf cs) = map f cs"
  by (rule nth_equalityI) (auto simp: nth_assign assms assignFanoutPositions_def)

text \<open>
  The positions of a fan-out: a single child gets none; several children keep their order
  and get every index from zero up exactly once, with the total, and a smaller index never
  belongs to a key that sorts after.
\<close>

theorem assignFanoutPositions_ranks:
  assumes "collation le" "1 < length cs"
  shows "assignFanoutPositions le keyOf [c] = [c] \<and>
    map mj_expandedName (assignFanoutPositions le keyOf cs) = map mj_expandedName cs \<and>
    mset (map mj_fanoutIndex (assignFanoutPositions le keyOf cs)) = mset (map Some [0..<length cs]) \<and>
    (\<forall>c \<in> set (assignFanoutPositions le keyOf cs). mj_fanoutTotal c = Some (length cs)) \<and>
    (\<forall>i < length cs. \<forall>j < length cs.
       the (mj_fanoutIndex (assignFanoutPositions le keyOf cs ! i)) <
       the (mj_fanoutIndex (assignFanoutPositions le keyOf cs ! j)) \<longrightarrow>
       le (keyOf (cs ! i)) (keyOf (cs ! j)))"
proof -
  let ?p = "position (rank_order le keyOf cs)"
  have idx: "map mj_fanoutIndex (assignFanoutPositions le keyOf cs) = map (\<lambda>i. Some (?p i)) [0..<length cs]"
    using assms(2) by (intro nth_equalityI) (simp_all add: nth_assign)
  have inj: "inj_on ?p {..<length cs}"
    using nth_position [of _ "rank_order le keyOf cs"] by (metis inj_on_inverseI rank_order_perm(2))
  have "?p ` {..<length cs} = {..<length cs}"
    using position_less [of _ "rank_order le keyOf cs"] inj
    by (intro endo_inj_surj) (auto simp: rank_order_perm)
  then have "mset (map ?p [0..<length cs]) = mset [0..<length cs]"
    using inj by (subst set_eq_iff_mset_eq_distinct [symmetric]) (auto simp: distinct_map atLeast0LessThan)
  then have "mset (map Some (map ?p [0..<length cs])) = mset (map Some [0..<length cs])"
    by (simp only: mset_map)
  then have "mset (map mj_fanoutIndex (assignFanoutPositions le keyOf cs)) = mset (map Some [0..<length cs])"
    unfolding idx by (simp only: map_map comp_def)
  moreover have "\<forall>c \<in> set (assignFanoutPositions le keyOf cs). mj_fanoutTotal c = Some (length cs)"
    using assms(2) by (auto simp: in_set_conv_nth nth_assign)
  moreover have "le (keyOf (cs ! i)) (keyOf (cs ! j))"
    if "i < length cs" "j < length cs"
      "the (mj_fanoutIndex (assignFanoutPositions le keyOf cs ! i)) <
       the (mj_fanoutIndex (assignFanoutPositions le keyOf cs ! j))" for i j
    using rank_order_sorted [OF assms(1) that(1,2), of keyOf] that assms(2) by (simp add: nth_assign)
  moreover have "assignFanoutPositions le keyOf [c] = [c]" by (simp add: assignFanoutPositions_def)
  moreover have "map mj_expandedName (assignFanoutPositions le keyOf cs) = map mj_expandedName cs"
    by (rule map_assign) simp
  ultimately show ?thesis by blast
qed


lemma demo_le_collation: "collation demo_le"
  by unfold_locales (auto simp: demo_le_def)

lemma assignFanoutPositions_ranks_witness:
  "mset (map mj_fanoutIndex (assignFanoutPositions demo_le variantLabelOf
      (map (matrix_child \<lparr>lj_name = ''b'', lj_matrix = None, lj_include = None, lj_exclude = None, lj_needs = None, lj_dependsOnGroups = None\<rparr>)
         [[(''value'', Some ''long'')], [(''value'', Some ''x'')]]))) = {#Some 0, Some 1#}"
  using assignFanoutPositions_ranks [OF demo_le_collation, of "map (matrix_child \<lparr>lj_name = ''b'',
      lj_matrix = None, lj_include = None, lj_exclude = None, lj_needs = None, lj_dependsOnGroups = None\<rparr>) [[(''value'', Some ''long'')], [(''value'', Some ''x'')]]"
      variantLabelOf undefined]
  by (simp add: upt_rec)

section \<open>Children\<close>

lemma variantLabelOf_matrix_child [simp]:
  "variantLabelOf (matrix_child lj v) = formatMatrixSuffix v"
  by (simp add: variantLabelOf_def matrix_child_def plain_job_def formatExpandedJobName_def butlast_append)

lemma matrix_child_simps [simp]:
  "mj_lockJob (matrix_child lj v) = lj" "mj_baseName (matrix_child lj v) = lj_name lj"
  "mj_expandedName (matrix_child lj v) = formatExpandedJobName (lj_name lj) v"
  "mj_variantValues (matrix_child lj v) = Some v" "mj_variantKind (matrix_child lj v) = Some VMatrix"
  by (simp_all add: matrix_child_def plain_job_def)

lemma map_variantLabelOf_assign:
  "map variantLabelOf (assignFanoutPositions le keyOf cs) = map variantLabelOf cs"
  by (rule map_assign) (simp add: variantLabelOf_def)

lemma guarded_children_ok:
  "guarded_children le lj combos = Inr cs \<longleftrightarrow>
     combos \<noteq> [] \<and> length combos \<le> MAX_FANOUT_JOBS \<and>
     distinct (map (formatExpandedJobName (lj_name lj)) combos) \<and>
     cs = assignFanoutPositions le variantLabelOf (map (matrix_child lj) combos)"
  by (auto simp: guarded_children_def findDuplicateCombination_None [symmetric] split: option.splits)

lemma formatExpandedJobName_inj:
  "formatExpandedJobName b v = formatExpandedJobName b w \<longleftrightarrow> formatMatrixSuffix v = formatMatrixSuffix w"
  by (simp add: formatExpandedJobName_def)

text \<open>
  The resolved combinations of a dynamic matrix are accepted exactly when there are between
  1 and 256 and no two render the same name; the children are then the combinations in
  order, and the label cut out of a child's name is the suffix of its combination.
\<close>

theorem materializeResolvedMatrix_accepts:
  "((\<exists>res. materializeResolvedMatrix le lj combos = Inr res) \<longleftrightarrow>
      1 \<le> length combos \<and> length combos \<le> 256 \<and>
      distinct (map (formatExpandedJobName (lj_name lj)) combos)) \<and>
   (case materializeResolvedMatrix le lj combos of
      Inl e \<Rightarrow> fe_jobName e = lj_name lj \<and> fe_cause e = CauseError
    | Inr res \<Rightarrow> map mj_variantValues (fr_jobs res) = map Some combos \<and>
        map variantLabelOf (fr_jobs res) = map formatMatrixSuffix combos \<and>
        map_of (fr_expansionMap res) (lj_name lj) = Some (map mj_expandedName (fr_jobs res)))"
proof -
  have "map mj_variantValues (assignFanoutPositions le variantLabelOf (map (matrix_child lj) combos)) = map Some combos"
    "map variantLabelOf (assignFanoutPositions le variantLabelOf (map (matrix_child lj) combos)) = map formatMatrixSuffix combos"
    by (simp_all add: map_assign map_variantLabelOf_assign comp_def)
  moreover have one: "1 \<le> length combos \<longleftrightarrow> combos \<noteq> []" by (cases combos) simp_all
  have "(\<exists>cs. guarded_children le lj combos = Inr cs) \<longleftrightarrow> 1 \<le> length combos \<and> length combos \<le> 256 \<and>
      distinct (map (formatExpandedJobName (lj_name lj)) combos)"
    unfolding one by (simp add: guarded_children_ok MAX_FANOUT_JOBS_def)
  moreover have "fe_jobName e = lj_name lj \<and> fe_cause e = CauseError" if "guarded_children le lj combos = Inl e" for e
    using that by (auto simp: guarded_children_def split: if_splits option.splits)
  moreover have "cs = assignFanoutPositions le variantLabelOf (map (matrix_child lj) combos)"
    if "guarded_children le lj combos = Inr cs" for cs
    using that by (simp add: guarded_children_ok)
  ultimately show ?thesis
    by (cases "guarded_children le lj combos") (auto simp: materializeResolvedMatrix_def)
qed

text \<open>
  The hosts of a \<open>runsOnAll\<close> job are accepted exactly when there is one and no more than the
  configured maximum; child i is pinned to agent i and named after its host, and two children
  share a name exactly when two agents share a host (nothing refuses that).
\<close>

theorem materializeResolvedHosts_accepts:
  "((\<exists>res. materializeResolvedHosts le lj agents mx = Inr res) \<longleftrightarrow> agents \<noteq> [] \<and> length agents \<le> mx) \<and>
   (case materializeResolvedHosts le lj agents mx of
      Inl e \<Rightarrow> fe_jobName e = lj_name lj
    | Inr res \<Rightarrow> map mj_pinnedAgentId (fr_jobs res) = map (Some \<circ> ha_agentId) agents \<and>
        map mj_agent (fr_jobs res) = map Some agents \<and>
        map variantLabelOf (fr_jobs res) = map ha_host agents \<and>
        (distinct (map mj_expandedName (fr_jobs res)) \<longleftrightarrow> distinct (map ha_host agents)))"
proof -
  let ?k = "\<lambda>c. case mj_pinnedAgentId c of None \<Rightarrow> [] | Some a \<Rightarrow> a"
  let ?cs = "assignFanoutPositions le ?k (map (host_child lj) agents)"
  have "map mj_pinnedAgentId ?cs = map (Some \<circ> ha_agentId) agents" "map mj_agent ?cs = map Some agents"
    by (simp_all add: map_assign host_child_def plain_job_def)
  moreover have "map variantLabelOf ?cs = map ha_host agents"
    by (simp add: map_variantLabelOf_assign) (simp add: variantLabelOf_def host_child_def plain_job_def butlast_append)
  moreover have names: "map mj_expandedName ?cs = map ((\<lambda>h. lj_name lj @ '' ('' @ h @ '')'') \<circ> ha_host) agents"
    by (simp add: map_assign host_child_def plain_job_def)
  have "distinct (map mj_expandedName ?cs) \<longleftrightarrow> distinct (map ha_host agents)"
    unfolding names by (auto simp: distinct_map inj_on_def)
  ultimately show ?thesis
    by (auto simp: materializeResolvedHosts_def Let_def split: if_splits)
qed


section \<open>A whole lock file\<close>

lemma materialize_from_groups:
  "materialize_from le ljs r0 = Inr r \<Longrightarrow>
   \<exists>groups. list_all2 (\<lambda>lj cs. job_children le lj = Inr cs) ljs groups \<and>
     fr_jobs r = fr_jobs r0 @ concat groups \<and>
     (distinct (map lj_name ljs) \<longrightarrow>
       (\<forall>n. n \<notin> lj_name ` set ljs \<longrightarrow> map_of (fr_expansionMap r) n = map_of (fr_expansionMap r0) n) \<and>
       list_all2 (\<lambda>lj cs. map_of (fr_expansionMap r) (lj_name lj) = Some (map mj_expandedName cs)) ljs groups)"
proof (induction ljs arbitrary: r0)
  case (Cons lj ljs)
  then obtain cs where cs: "job_children le lj = Inr cs"
    "materialize_from le ljs \<lparr>fr_jobs = fr_jobs r0 @ cs,
       fr_expansionMap = amap_set (lj_name lj) (map mj_expandedName cs) (fr_expansionMap r0)\<rparr> = Inr r"
    by (auto split: sum.splits)
  from Cons.IH [OF cs(2)] obtain groups where
    "list_all2 (\<lambda>lj cs. job_children le lj = Inr cs) ljs groups" "fr_jobs r = fr_jobs r0 @ cs @ concat groups"
    "distinct (map lj_name ljs) \<longrightarrow>
       (\<forall>n. n \<notin> lj_name ` set ljs \<longrightarrow> map_of (fr_expansionMap r) n =
          ((map_of (fr_expansionMap r0))(lj_name lj \<mapsto> map mj_expandedName cs)) n) \<and>
       list_all2 (\<lambda>lj cs. map_of (fr_expansionMap r) (lj_name lj) = Some (map mj_expandedName cs)) ljs groups"
    by auto
  with cs(1) show ?case by (intro exI [of _ "cs # groups"]) auto
qed simp

lemma job_children_shape:
  assumes "job_children le lj = Inr cs"
  shows "cs \<noteq> [] \<and> length cs \<le> 256 \<and> distinct (map mj_expandedName cs) \<and>
    (\<forall>c \<in> set cs. mj_lockJob c = lj \<and> mj_baseName c = lj_name lj \<and>
      (case mj_variantValues c of
         None \<Rightarrow> mj_expandedName c = lj_name lj
       | Some v \<Rightarrow> mj_expandedName c = formatExpandedJobName (lj_name lj) v \<and>
           variantLabelOf c = formatMatrixSuffix v))"
proof -
  have fanned: ?thesis if "guarded_children le lj combos = Inr cs" for combos
  proof -
    from that have g: "combos \<noteq> []" "length combos \<le> 256"
      "distinct (map (formatExpandedJobName (lj_name lj)) combos)"
      "cs = assignFanoutPositions le variantLabelOf (map (matrix_child lj) combos)"
      by (simp_all add: guarded_children_ok MAX_FANOUT_JOBS_def)
    let ?f = "\<lambda>c. (mj_lockJob c, mj_baseName c, mj_expandedName c, mj_variantValues c, variantLabelOf c)"
    have f: "map ?f cs = map ?f (map (matrix_child lj) combos)"
      unfolding g(4) by (rule map_assign) (simp add: variantLabelOf_def)
    have "map mj_expandedName cs = map (formatExpandedJobName (lj_name lj)) combos"
      unfolding g(4) by (simp add: map_assign comp_def)
    moreover have "?f c \<in> set (map ?f (map (matrix_child lj) combos))" if "c \<in> set cs" for c
      using that unfolding f [symmetric] by simp
    then have "\<exists>v. ?f c = ?f (matrix_child lj v)" if "c \<in> set cs" for c
      using that by fastforce
    moreover have "cs \<noteq> []" "length cs \<le> 256" using g(1,2,4) by (metis length_assign length_map length_0_conv, simp)
    ultimately show ?thesis using g(3) by fastforce
  qed
  show ?thesis
  proof (cases "\<exists>combos. guarded_children le lj combos = Inr cs")
    case True
    then show ?thesis using fanned by blast
  next
    case False
    with assms show ?thesis
      by (auto simp: job_children_def plain_job_def split: option.splits lock_matrix.splits sum.splits)
  qed
qed

text \<open>
  C4. When a lock file with distinct job names is materialized, its children are those of its jobs
  in order: every job has between 1 and 256 children, their names are distinct, each child
  keeps its job and is named either after the job or after its combination, and the
  expansion map lists exactly the children's names under the job's name.
\<close>

theorem materializeFanout_children:
  assumes "materializeFanout le ljs = Inr res" "distinct (map lj_name ljs)"
  shows "\<exists>groups. fr_jobs res = concat groups \<and>
    list_all2 (\<lambda>lj cs.
      map_of (fr_expansionMap res) (lj_name lj) = Some (map mj_expandedName cs) \<and>
      1 \<le> length cs \<and> length cs \<le> 256 \<and> distinct (map mj_expandedName cs) \<and>
      (\<forall>c \<in> set cs. mj_lockJob c = lj \<and> mj_baseName c = lj_name lj \<and>
        (case mj_variantValues c of
           None \<Rightarrow> mj_expandedName c = lj_name lj
         | Some v \<Rightarrow> mj_expandedName c = formatExpandedJobName (lj_name lj) v \<and>
             variantLabelOf c = formatMatrixSuffix v))) ljs groups"
proof -
  from materialize_from_groups [OF assms(1) [unfolded materializeFanout_def]] assms(2)
  obtain groups where g: "list_all2 (\<lambda>lj cs. job_children le lj = Inr cs) ljs groups" "fr_jobs res = concat groups"
    "list_all2 (\<lambda>lj cs. map_of (fr_expansionMap res) (lj_name lj) = Some (map mj_expandedName cs)) ljs groups"
    by auto
  have one: "1 \<le> length cs \<longleftrightarrow> cs \<noteq> []" for cs :: "materialized list" by (cases cs) simp_all
  show ?thesis
    using g(1,3) unfolding list_all2_conv_all_nth one
    by (intro exI [of _ groups]) (auto simp: g(2) list_all2_conv_all_nth dest: job_children_shape)
qed


definition demo_job :: "string \<Rightarrow> lock_matrix option \<Rightarrow> lock_job" where
  "demo_job n m = \<lparr>lj_name = n, lj_matrix = m, lj_include = None, lj_exclude = None, lj_needs = None, lj_dependsOnGroups = None\<rparr>"

lemma demo_plain: "job_children demo_le (demo_job n None) = Inr [plain_job (demo_job n None) n]"
  "lj_name (demo_job n m) = n" "mj_expandedName (plain_job lj n) = n"
  by (simp_all add: job_children_def demo_job_def plain_job_def)

lemma demo_children: "job_children demo_le (demo_job ''t'' (Some (StaticMatrix (JArr [JStr ''a'', JStr ''b''])))) =
   Inr (assignFanoutPositions demo_le variantLabelOf
     (map (matrix_child (demo_job ''t'' (Some (StaticMatrix (JArr [JStr ''a'', JStr ''b''])))))
        [[(''value'', Some ''a'')], [(''value'', Some ''b'')]]))"
  by (simp add: job_children_def demo_job_def static_combinations_def matrixCombinationCount_def
      MAX_MATRIX_MATERIALIZATION_def expandMatrix_def expandSingleDimension_def applyIncludeExclude_def
      guarded_children_def MAX_FANOUT_JOBS_def findDuplicateCombination_def formatExpandedJobName_def
      formatMatrixSuffix_def defined_entries_def)

lemma materializeFanout_children_witness:
  "\<exists>res groups. materializeFanout demo_le
      [demo_job ''b'' None, demo_job ''t'' (Some (StaticMatrix (JArr [JStr ''a'', JStr ''b''])))] = Inr res \<and>
    fr_jobs res = concat groups \<and> map length groups = [1, 2]"
proof -
  let ?ljs = "[demo_job ''b'' None, demo_job ''t'' (Some (StaticMatrix (JArr [JStr ''a'', JStr ''b''])))]"
  obtain res where res: "materializeFanout demo_le ?ljs = Inr res" "map_of (fr_expansionMap res) ''b'' = Some [''b'']"
    "map_of (fr_expansionMap res) ''t'' = Some [''t (a)'', ''t (b)'']"
    by (simp add: materializeFanout_def demo_children demo_plain map_assign
        formatExpandedJobName_def formatMatrixSuffix_def defined_entries_def)
  have "distinct (map lj_name ?ljs)" by (simp add: demo_job_def)
  from materializeFanout_children [OF res(1) this] obtain groups where g: "fr_jobs res = concat groups"
    "list_all2 (\<lambda>lj cs. map_of (fr_expansionMap res) (lj_name lj) = Some (map mj_expandedName cs)) ?ljs groups"
    by (auto simp: list_all2_conv_all_nth)
  from g(2) have "map length groups = [1, 2]"
    using res(2,3) by (auto simp: list_all2_Cons1 demo_job_def dest: arg_cong [where f = length])
  then show ?thesis by (intro exI conjI) (rule res(1), rule g(1))
qed

end
