(* ===== verification/Needs.thy ===== *)
theory Needs
  imports Fanout
begin

text \<open>
  Dispatch gated by \<open>needs\<close> (\<open>packages/orchestrator/src/pipeline/needs-scheduler.ts\<close>) and rolling
  waves of a bounded fan-out (\<open>wave-scheduler.ts\<close>). Both read the tables \<open>execution_jobs\<close> and
  \<open>execution_job_needs\<close>; a query returns rows in table order where the code asks for none.
  A JSON column holds what \<open>JSON.parse\<close> makes of it, \<open>None\<close> when it raises.
\<close>

section \<open>Tables\<close>

record job_row =
  jr_run :: run_id
  jr_name :: string
  jr_status :: job_status
  jr_satisfied :: bool
  jr_readyAt :: "nat option"
  jr_base :: "string option"
  jr_waveGated :: bool
  jr_variantLabel :: "string option"
  jr_waveMaxParallel :: "int option"
  jr_waveFailFast :: "bool option"

record need_edge =
  ed_run :: run_id
  ed_job :: string
  ed_upstream :: string
  ed_runOn :: "js option"

record sched_db =
  sd_jobs :: "job_row list"
  sd_edges :: "need_edge list"

datatype sched_result = Dispatch string | Skip string string

fun result_job :: "sched_result \<Rightarrow> string" where
  "result_job (Dispatch j) = j"
| "result_job (Skip j r) = j"

section \<open>Helpers\<close>

definition SUCCESS_ONLY_RUN_ON :: "job_status list" where
  "SUCCESS_ONLY_RUN_ON = [JSuccess]"

definition runOn_json :: "job_status list \<Rightarrow> js option" where
  "runOn_json st = Some (JArr (map (JStr \<circ> job_status_name) st))"

definition parseRunOn :: "js option \<Rightarrow> js set" where
  "parseRunOn v = (case v of
     Some (JArr vs) \<Rightarrow> if vs \<noteq> [] then set vs else JStr ` job_status_name ` set SUCCESS_ONLY_RUN_ON
   | _ \<Rightarrow> JStr ` job_status_name ` set SUCCESS_ONLY_RUN_ON)"

definition runs_on :: "js option \<Rightarrow> job_status \<Rightarrow> bool" where
  "runs_on v st \<longleftrightarrow> JStr (job_status_name st) \<in> parseRunOn v"

definition upstream_unmet :: "string \<Rightarrow> job_status \<Rightarrow> string" where
  "upstream_unmet up st = ''upstream_unmet: '' @ up @ '' ('' @ job_status_name st @ '')''"

definition edges_of_job :: "run_id \<Rightarrow> string \<Rightarrow> sched_db \<Rightarrow> need_edge list" where
  "edges_of_job run j db = filter (\<lambda>e. ed_run e = run \<and> ed_job e = j) (sd_edges db)"

definition edges_of_upstream :: "run_id \<Rightarrow> string \<Rightarrow> sched_db \<Rightarrow> need_edge list" where
  "edges_of_upstream run up db = filter (\<lambda>e. ed_run e = run \<and> ed_upstream e = up) (sd_edges db)"

text \<open>\<open>new Map(rows.map(...))\<close>: of two rows with one name the later one counts.\<close>

definition status_of :: "run_id \<Rightarrow> sched_db \<Rightarrow> string \<Rightarrow> job_status option" where
  "status_of run db = map_of (rev (map (\<lambda>r. (jr_name r, jr_status r))
     (filter (\<lambda>r. jr_run r = run) (sd_jobs db))))"

datatype upstream_check = Unsatisfied | SatisfiedDispatch | SatisfiedSkip string

fun check_edges :: "(string \<Rightarrow> job_status option) \<Rightarrow> need_edge list \<Rightarrow> upstream_check" where
  "check_edges statusOf [] = SatisfiedDispatch"
| "check_edges statusOf (e # es) =
     (case statusOf (ed_upstream e) of
        None \<Rightarrow> Unsatisfied
      | Some st \<Rightarrow>
          if st \<notin> set TERMINAL_JOB_STATES then Unsatisfied
          else if \<not> runs_on (ed_runOn e) st then SatisfiedSkip (upstream_unmet (ed_upstream e) st)
          else check_edges statusOf es)"

definition checkAllUpstreamsSatisfied :: "sched_db \<Rightarrow> run_id \<Rightarrow> string \<Rightarrow> upstream_check" where
  "checkAllUpstreamsSatisfied db run j = check_edges (status_of run db) (edges_of_job run j db)"

section \<open>Edges\<close>

text \<open>\<open>ON CONFLICT DO NOTHING\<close> on the primary key \<open>(run_id, job_name, upstream_name)\<close>.\<close>

definition insert_edge :: "need_edge \<Rightarrow> need_edge list \<Rightarrow> need_edge list" where
  "insert_edge e es =
     (if \<exists>x \<in> set es. ed_run x = ed_run e \<and> ed_job x = ed_job e \<and> ed_upstream x = ed_upstream e
      then es else es @ [e])"

fun concrete_needs :: "(string \<times> string list) list \<Rightarrow> need list \<Rightarrow> (string \<times> js option) list" where
  "concrete_needs em [] = []"
| "concrete_needs em (NeedGroup g st # ns) = concrete_needs em ns"
| "concrete_needs em (NeedName n # ns) =
     map (\<lambda>up. (up, runOn_json SUCCESS_ONLY_RUN_ON)) (case map_of em n of None \<Rightarrow> [n] | Some l \<Rightarrow> l)
     @ concrete_needs em ns"
| "concrete_needs em (NeedJob n st # ns) =
     map (\<lambda>up. (up, runOn_json (case st of None \<Rightarrow> SUCCESS_ONLY_RUN_ON | Some s \<Rightarrow> s)))
       (case map_of em n of None \<Rightarrow> [n] | Some l \<Rightarrow> l)
     @ concrete_needs em ns"

definition job_needs :: "(string \<times> string list) list \<Rightarrow> materialized \<Rightarrow> (string \<times> js option) list" where
  "job_needs em m = concrete_needs em (case lj_needs (mj_lockJob m) of None \<Rightarrow> [] | Some ns \<Rightarrow> ns)"

definition is_root :: "(string \<times> string list) list \<Rightarrow> materialized \<Rightarrow> bool" where
  "is_root em m \<longleftrightarrow> job_needs em m = [] \<and>
     (case lj_dependsOnGroups (mj_lockJob m) of None \<Rightarrow> True | Some gs \<Rightarrow> gs = [])"

definition mark_ready :: "nat \<Rightarrow> job_row \<Rightarrow> job_row" where
  "mark_ready t r = r\<lparr>jr_satisfied := True, jr_readyAt := Some t\<rparr>"

definition insertEdgesForRun ::
  "run_id \<Rightarrow> materialized list \<Rightarrow> (string \<times> string list) list \<Rightarrow> nat \<Rightarrow> sched_db \<Rightarrow> sched_db" where
  "insertEdgesForRun run jobs em t db =
     (let rows = concat (map (\<lambda>m. map (\<lambda>(up, ro).
            \<lparr>ed_run = run, ed_job = mj_expandedName m, ed_upstream = up, ed_runOn = ro\<rparr>) (job_needs em m)) jobs);
          roots = map mj_expandedName (filter (is_root em) jobs)
      in db\<lparr>sd_edges := fold insert_edge rows (sd_edges db),
            sd_jobs := update_where (\<lambda>r. jr_run r = run \<and> jr_name r \<in> set roots) (mark_ready t) (sd_jobs db)\<rparr>)"

section \<open>Scheduling\<close>

text \<open>The claim: an UPDATE with \<open>needs_satisfied = false\<close>; its row count tells who won.\<close>

definition claim_job :: "run_id \<Rightarrow> string \<Rightarrow> nat \<Rightarrow> sched_db \<Rightarrow> nat \<times> sched_db" where
  "claim_job run j t db =
     (let P = (\<lambda>r. jr_run r = run \<and> jr_name r = j \<and> \<not> jr_satisfied r)
      in (length (filter P (sd_jobs db)), db\<lparr>sd_jobs := update_where P (mark_ready t) (sd_jobs db)\<rparr>))"

fun evaluate_edges ::
  "run_id \<Rightarrow> string \<Rightarrow> job_status \<Rightarrow> nat \<Rightarrow> string list \<Rightarrow> need_edge list \<Rightarrow> sched_db \<Rightarrow> sched_result list \<times> sched_db" where
  "evaluate_edges run up st t seen [] db = ([], db)"
| "evaluate_edges run up st t seen (e # es) db =
     (if ed_job e \<in> set seen then evaluate_edges run up st t seen es db
      else
        let seen = js_add (ed_job e) seen;
            (here, db) =
              (if \<not> runs_on (ed_runOn e) st then ([Skip (ed_job e) (upstream_unmet up st)], db)
               else (case checkAllUpstreamsSatisfied db run (ed_job e) of
                   Unsatisfied \<Rightarrow> ([], db)
                 | SatisfiedSkip reason \<Rightarrow> ([Skip (ed_job e) reason], db)
                 | SatisfiedDispatch \<Rightarrow>
                     (case claim_job run (ed_job e) t db of
                        (updated, db) \<Rightarrow> (if updated = 0 then [] else [Dispatch (ed_job e)], db))));
            (rest, db) = evaluate_edges run up st t seen es db
        in (here @ rest, db))"

definition evaluateDownstreams ::
  "run_id \<Rightarrow> string \<Rightarrow> job_status \<Rightarrow> nat \<Rightarrow> sched_db \<Rightarrow> sched_result list \<times> sched_db" where
  "evaluateDownstreams run up st t db = evaluate_edges run up st t [] (edges_of_upstream run up db) db"

fun recomputeNeedsSatisfied ::
  "run_id \<Rightarrow> string list \<Rightarrow> nat \<Rightarrow> sched_db \<Rightarrow> sched_result list \<times> sched_db" where
  "recomputeNeedsSatisfied run [] t db = ([], db)"
| "recomputeNeedsSatisfied run (j # js) t db =
     (let (here, db) =
            (case checkAllUpstreamsSatisfied db run j of
               Unsatisfied \<Rightarrow> ([], db)
             | SatisfiedSkip reason \<Rightarrow> ([Skip j reason], db)
             | SatisfiedDispatch \<Rightarrow> ([Dispatch j], snd (claim_job run j t db)));
          (rest, db) = recomputeNeedsSatisfied run js t db
      in (here @ rest, db))"

definition resolveGroupEdges ::
  "run_id \<Rightarrow> string list \<Rightarrow> (string \<times> job_status list option) list \<Rightarrow> nat \<Rightarrow> sched_db \<Rightarrow> sched_db" where
  "resolveGroupEdges run members deps t db =
     (let rows = concat (map (\<lambda>(j, ro). map (\<lambda>m.
            \<lparr>ed_run = run, ed_job = j, ed_upstream = m,
             ed_runOn = runOn_json (case ro of None \<Rightarrow> SUCCESS_ONLY_RUN_ON | Some s \<Rightarrow> s)\<rparr>) members) deps);
          db = db\<lparr>sd_edges := fold insert_edge rows (sd_edges db)\<rparr>
      in snd (recomputeNeedsSatisfied run (map fst deps) t db))"

definition checkSchedulerInvariant :: "run_id \<Rightarrow> sched_db \<Rightarrow> string list" where
  "checkSchedulerInvariant run db =
     map jr_name (filter (\<lambda>r. jr_run r = run \<and> \<not> jr_satisfied r \<and> jr_status r = JPending \<and>
       (let edges = edges_of_job run (jr_name r) db;
            ups = filter (\<lambda>u. jr_run u = run \<and> jr_name u \<in> set (map ed_upstream edges)) (sd_jobs db)
        in edges = [] \<or> \<not> length ups < length edges \<and> (\<forall>u \<in> set ups. jr_status u \<in> set TERMINAL_JOB_STATES)))
       (sd_jobs db))"

section \<open>Failure propagation\<close>

definition first_status :: "run_id \<Rightarrow> sched_db \<Rightarrow> string \<Rightarrow> job_status option" where
  "first_status run db j = map_option jr_status (find (\<lambda>r. jr_run r = run \<and> jr_name r = j) (sd_jobs db))"

definition propagates :: "run_id \<Rightarrow> sched_db \<Rightarrow> string \<Rightarrow> need_edge \<Rightarrow> bool" where
  "propagates run db cur e \<longleftrightarrow>
     (case first_status run db cur of None \<Rightarrow> True | Some st \<Rightarrow> \<not> runs_on (ed_runOn e) st)"

definition hop :: "run_id \<Rightarrow> sched_db \<Rightarrow> string \<Rightarrow> string list \<Rightarrow> string list" where
  "hop run db cur visited =
     map ed_job (filter (\<lambda>e. ed_job e \<notin> set visited \<and> propagates run db cur e) (edges_of_upstream run cur db))"

lemma hop_jobs: "set (hop run db cur visited) \<subseteq> ed_job ` set (sd_edges db)"
  by (auto simp: hop_def edges_of_upstream_def)

function propagation_loop ::
  "run_id \<Rightarrow> sched_db \<Rightarrow> string list \<Rightarrow> string list \<Rightarrow> string list \<Rightarrow> string list" where
  "propagation_loop run db visited targets [] = targets"
| "propagation_loop run db visited targets (cur # queue) =
     (if cur \<in> set visited then propagation_loop run db visited targets queue
      else
        let visited = js_add cur visited; found = hop run db cur visited
        in propagation_loop run db visited (targets @ found) (queue @ found))"
  by pat_completeness auto

termination
proof (relation "measures [\<lambda>(run, db, visited, targets, queue).
      card ((set queue \<union> ed_job ` set (sd_edges db)) - set visited),
    \<lambda>(run, db, visited, targets, queue). length queue]", goal_cases)
  case 1
  show ?case by simp
next
  case (2 run db visited targets cur queue)
  have "(set queue \<union> ed_job ` set (sd_edges db)) - set visited =
      (set (cur # queue) \<union> ed_job ` set (sd_edges db)) - set visited"
    using 2 by auto
  then show ?case by simp
next
  case (3 run db visited targets cur queue visited' found)
  have "(set (queue @ found) \<union> ed_job ` set (sd_edges db)) - set visited' \<subset>
      (set (cur # queue) \<union> ed_job ` set (sd_edges db)) - set visited"
    using 3 hop_jobs [of run db cur visited'] by auto
  then show ?case by (auto intro: psubset_card_mono)
qed

definition getFailurePropagationTargets :: "run_id \<Rightarrow> string \<Rightarrow> sched_db \<Rightarrow> string list" where
  "getFailurePropagationTargets run failed db = propagation_loop run db [] [] [failed]"

section \<open>Waves\<close>

datatype wave_result =
    Release string string int bool
  | SkipRemaining "string list"
  | Noop

definition wave_key :: "job_row \<Rightarrow> string" where
  "wave_key c = (case jr_variantLabel c of None \<Rightarrow> jr_name c | Some l \<Rightarrow> l)"

definition wave_children :: "run_id \<Rightarrow> string \<Rightarrow> sched_db \<Rightarrow> job_row list" where
  "wave_children run base db = filter (\<lambda>r. jr_run r = run \<and> jr_base r = Some base) (sd_jobs db)"

definition wave_inFlight :: "job_row list \<Rightarrow> nat" where
  "wave_inFlight children =
     length (filter (\<lambda>c. \<not> jr_waveGated c \<and> jr_status c \<notin> set TERMINAL_JOB_STATES) children)"

definition evaluateWave ::
  "(string \<Rightarrow> string \<Rightarrow> bool) \<Rightarrow> run_id \<Rightarrow> string \<Rightarrow> job_status \<Rightarrow> sched_db \<Rightarrow> wave_result" where
  "evaluateWave le run base st db =
     (let children = wave_children run base db
      in case find (\<lambda>c. jr_waveMaxParallel c \<noteq> None) children of
           None \<Rightarrow> Noop
         | Some policy \<Rightarrow>
             let maxParallel = the (jr_waveMaxParallel policy);
                 failFast = (case jr_waveFailFast policy of None \<Rightarrow> False | Some b \<Rightarrow> b);
                 held = sort_by (\<lambda>a b. le (wave_key a) (wave_key b)) (filter jr_waveGated children)
             in if failFast \<and> st \<noteq> JSuccess
                then (if held = [] then Noop else SkipRemaining (map jr_name held))
                else (case held of
                    [] \<Rightarrow> Noop
                  | h # _ \<Rightarrow>
                      if maxParallel \<le> int (wave_inFlight children) then Noop
                      else Release (jr_name h) base maxParallel failFast))"


text \<open>The write of \<open>runWaveSchedulerHook\<close> for a released child (\<open>execution-tracker.ts\<close>).\<close>

definition clear_gate :: "run_id \<Rightarrow> string \<Rightarrow> sched_db \<Rightarrow> sched_db" where
  "clear_gate run j db = db\<lparr>sd_jobs := update_where (\<lambda>r. jr_run r = run \<and> jr_name r = j)
     (\<lambda>r. r\<lparr>jr_waveGated := False\<rparr>) (sd_jobs db)\<rparr>"

section \<open>Claims\<close>

definition unclaimed :: "run_id \<Rightarrow> string \<Rightarrow> sched_db \<Rightarrow> bool" where
  "unclaimed run j db \<longleftrightarrow> (\<exists>r \<in> set (sd_jobs db). jr_run r = run \<and> jr_name r = j \<and> \<not> jr_satisfied r)"

lemma mark_ready_simps [simp]:
  "jr_run (mark_ready t r) = jr_run r" "jr_name (mark_ready t r) = jr_name r"
  "jr_status (mark_ready t r) = jr_status r" "jr_satisfied (mark_ready t r)"
  by (simp_all add: mark_ready_def)

lemma status_of_update:
  assumes "\<And>r. jr_run (f r) = jr_run r \<and> jr_name (f r) = jr_name r \<and> jr_status (f r) = jr_status r"
  shows "status_of run (db\<lparr>sd_jobs := update_where P f (sd_jobs db)\<rparr>) = status_of run db"
proof -
  have "map (\<lambda>r. (jr_name r, jr_status r)) (filter (\<lambda>r. jr_run r = run) (update_where P f rows)) =
      map (\<lambda>r. (jr_name r, jr_status r)) (filter (\<lambda>r. jr_run r = run) rows)" for rows
    using assms by (induction rows) (auto simp: update_where_def)
  then show ?thesis by (simp add: status_of_def)
qed

lemma claim_job_facts:
  assumes "claim_job run j t db = (n, db')"
  shows "sd_edges db' = sd_edges db" "status_of run' db' = status_of run' db"
    "unclaimed run' i db' \<longleftrightarrow> unclaimed run' i db \<and> (run', i) \<noteq> (run, j)"
    "n \<noteq> 0 \<longleftrightarrow> unclaimed run j db"
proof -
  note d = assms [unfolded claim_job_def Let_def]
  show "sd_edges db' = sd_edges db" using d by auto
  have "status_of run' (db\<lparr>sd_jobs := update_where (\<lambda>r. jr_run r = run \<and> jr_name r = j \<and> \<not> jr_satisfied r)
      (mark_ready t) (sd_jobs db)\<rparr>) = status_of run' db"
    by (rule status_of_update) simp
  then show "status_of run' db' = status_of run' db" using d by auto
  show "unclaimed run' i db' \<longleftrightarrow> unclaimed run' i db \<and> (run', i) \<noteq> (run, j)"
  proof -
    have "db' = db\<lparr>sd_jobs := update_where (\<lambda>r. jr_run r = run \<and> jr_name r = j \<and> \<not> jr_satisfied r)
        (mark_ready t) (sd_jobs db)\<rparr>" using d by simp
    then have "unclaimed run' i db' \<longleftrightarrow> (\<exists>r \<in> set (sd_jobs db). let r' =
        (if jr_run r = run \<and> jr_name r = j \<and> \<not> jr_satisfied r then mark_ready t r else r)
        in jr_run r' = run' \<and> jr_name r' = i \<and> \<not> jr_satisfied r')"
      by (simp add: unclaimed_def bex_update_where)
    moreover have "(let r' = (if jr_run r = run \<and> jr_name r = j \<and> \<not> jr_satisfied r then mark_ready t r else r)
        in jr_run r' = run' \<and> jr_name r' = i \<and> \<not> jr_satisfied r') \<longleftrightarrow>
        (jr_run r = run' \<and> jr_name r = i \<and> \<not> jr_satisfied r) \<and> (run', i) \<noteq> (run, j)" for r
      by (auto simp: Let_def)
    ultimately show ?thesis by (simp add: unclaimed_def) blast
  qed
  show "n \<noteq> 0 \<longleftrightarrow> unclaimed run j db"
    using d by (auto simp: unclaimed_def filter_empty_conv)
qed

lemma check_same:
  "sd_edges db' = sd_edges db \<Longrightarrow> status_of run db' = status_of run db \<Longrightarrow>
    checkAllUpstreamsSatisfied db' run j = checkAllUpstreamsSatisfied db run j"
  by (simp add: checkAllUpstreamsSatisfied_def edges_of_job_def)

lemma check_edges_dispatch:
  "check_edges s es = SatisfiedDispatch \<longleftrightarrow> (\<forall>e \<in> set es. \<exists>st. s (ed_upstream e) = Some st \<and>
     st \<in> set TERMINAL_JOB_STATES \<and> runs_on (ed_runOn e) st)"
  by (induction es) (auto split: option.split)

text \<open>One evaluation: what it leaves alone, and what each result means.\<close>

lemma evaluate_edges_facts:
  "evaluate_edges run up st t seen es db = (rs, db') \<Longrightarrow>
   sd_edges db' = sd_edges db \<and> (\<forall>run'. status_of run' db' = status_of run' db) \<and>
   (\<forall>run' j. unclaimed run' j db' \<longrightarrow> unclaimed run' j db) \<and>
   (\<forall>j. Dispatch j \<in> set rs \<longrightarrow> checkAllUpstreamsSatisfied db run j = SatisfiedDispatch \<and>
      unclaimed run j db \<and> \<not> unclaimed run j db') \<and>
   distinct (map result_job rs) \<and> result_job ` set rs \<inter> set seen = {}"
proof (induction es arbitrary: seen db rs db')
  case (Cons e es)
  show ?case
  proof (cases "ed_job e \<in> set seen")
    case True
    with Cons show ?thesis by simp
  next
    case False
    let ?j = "ed_job e"
    obtain here db1 where h: "(if \<not> runs_on (ed_runOn e) st then ([Skip ?j (upstream_unmet up st)], db)
               else (case checkAllUpstreamsSatisfied db run ?j of
                   Unsatisfied \<Rightarrow> ([], db)
                 | SatisfiedSkip reason \<Rightarrow> ([Skip ?j reason], db)
                 | SatisfiedDispatch \<Rightarrow>
                     (case claim_job run ?j t db of
                        (updated, db) \<Rightarrow> (if updated = 0 then [] else [Dispatch ?j], db)))) = (here, db1)" by force
    obtain rest db2 where r: "evaluate_edges run up st t (js_add ?j seen) es db1 = (rest, db2)" by force
    have res: "rs = here @ rest" "db' = db2"
      using Cons.prems False unfolding evaluate_edges.simps Let_def h by (simp_all add: r)
    obtain n dbc where c: "claim_job run ?j t db = (n, dbc)" by force
    note cf = claim_job_facts [OF c]
    consider "here \<in> {[], [Skip ?j (upstream_unmet up st)]} \<or> (\<exists>w. here = [Skip ?j w])" "db1 = db"
      | "checkAllUpstreamsSatisfied db run ?j = SatisfiedDispatch" "n = 0" "here = []" "db1 = dbc"
      | "checkAllUpstreamsSatisfied db run ?j = SatisfiedDispatch" "n \<noteq> 0" "here = [Dispatch ?j]" "db1 = dbc"
      using h c by (auto split: if_splits upstream_check.splits)
    then have "sd_edges db1 = sd_edges db \<and> (\<forall>run'. status_of run' db1 = status_of run' db) \<and>
      (\<forall>run' i. unclaimed run' i db1 \<longrightarrow> unclaimed run' i db) \<and> map result_job here \<in> {[], [?j]} \<and>
      (\<forall>i. Dispatch i \<in> set here \<longrightarrow> i = ?j \<and> checkAllUpstreamsSatisfied db run i = SatisfiedDispatch \<and>
        unclaimed run i db \<and> \<not> unclaimed run i db1)"
    proof cases
      case 1
      then show ?thesis by auto
    next
      case 2
      then show ?thesis by (simp add: cf(1,2,3))
    next
      case 3
      then show ?thesis using cf(4) by (simp add: cf(1,2,3))
    qed
    then have h1: "sd_edges db1 = sd_edges db" "\<And>run'. status_of run' db1 = status_of run' db"
      "\<And>run' i. unclaimed run' i db1 \<Longrightarrow> unclaimed run' i db" "map result_job here \<in> {[], [?j]}"
      "\<And>i. Dispatch i \<in> set here \<Longrightarrow> i = ?j \<and> checkAllUpstreamsSatisfied db run i = SatisfiedDispatch \<and>
        unclaimed run i db \<and> \<not> unclaimed run i db1"
      by blast+
    note ih = Cons.IH [OF r]
    have chk: "checkAllUpstreamsSatisfied db1 run i = checkAllUpstreamsSatisfied db run i" for i
      by (rule check_same) (simp_all add: h1)
    have "distinct (map result_job rs) \<and> result_job ` set rs \<inter> set seen = {}"
      using ih h1(4) False unfolding res by auto
    moreover have "checkAllUpstreamsSatisfied db run j = SatisfiedDispatch \<and> unclaimed run j db \<and> \<not> unclaimed run j db'"
      if "Dispatch j \<in> set rs" for j
    proof (cases "Dispatch j \<in> set here")
      case True
      from h1(5) [OF this] ih show ?thesis unfolding res by blast
    next
      case False
      with that have "Dispatch j \<in> set rest" unfolding res by simp
      with ih h1(3) show ?thesis unfolding res chk by blast
    qed
    ultimately show ?thesis using ih h1(1,2,3) unfolding res by auto
  qed
qed simp


text \<open>
  C6. A job is dispatched on an upstream's completion only when every edge of it is satisfied: the
  upstream is terminal in a status the edge runs on, and nobody had claimed the job; after
  the evaluation it is claimed. No job gets two results.
\<close>

theorem evaluateDownstreams_sound:
  assumes "evaluateDownstreams run up st t db = (rs, db')" "Dispatch j \<in> set rs"
  shows "(\<forall>e \<in> set (edges_of_job run j db). \<exists>s. status_of run db (ed_upstream e) = Some s \<and>
      s \<in> set TERMINAL_JOB_STATES \<and> runs_on (ed_runOn e) s) \<and>
    unclaimed run j db \<and> \<not> unclaimed run j db' \<and> distinct (map result_job rs)"
  using evaluate_edges_facts [OF assms(1) [unfolded evaluateDownstreams_def]] assms(2)
  by (simp add: checkAllUpstreamsSatisfied_def check_edges_dispatch)

definition demo_jr :: "string \<Rightarrow> job_status \<Rightarrow> bool \<Rightarrow> job_row" where
  "demo_jr n st sat = \<lparr>jr_run = ''r'', jr_name = n, jr_status = st, jr_satisfied = sat, jr_readyAt = None,
     jr_base = None, jr_waveGated = False, jr_variantLabel = None, jr_waveMaxParallel = None,
     jr_waveFailFast = None\<rparr>"

definition demo_edge :: "string \<Rightarrow> string \<Rightarrow> need_edge" where
  "demo_edge j up = \<lparr>ed_run = ''r'', ed_job = j, ed_upstream = up, ed_runOn = runOn_json [JSuccess]\<rparr>"

definition demo_sched :: sched_db where
  "demo_sched = \<lparr>sd_jobs = [demo_jr ''a'' JSuccess True, demo_jr ''b'' JSuccess True, demo_jr ''c'' JPending False],
     sd_edges = [demo_edge ''c'' ''a'', demo_edge ''c'' ''b'']\<rparr>"

lemma evaluateDownstreams_sound_witness:
  "Dispatch ''c'' \<in> set (fst (evaluateDownstreams ''r'' ''a'' JSuccess 5 demo_sched)) \<and>
   unclaimed ''r'' ''c'' demo_sched \<and>
   \<not> unclaimed ''r'' ''c'' (snd (evaluateDownstreams ''r'' ''a'' JSuccess 5 demo_sched))"
proof -
  have d: "Dispatch ''c'' \<in> set (fst (evaluateDownstreams ''r'' ''a'' JSuccess 5 demo_sched))"
    by (simp add: evaluateDownstreams_def edges_of_upstream_def demo_sched_def demo_edge_def demo_jr_def
        runs_on_def parseRunOn_def runOn_json_def checkAllUpstreamsSatisfied_def edges_of_job_def status_of_def
        TERMINAL_JOB_STATES_def claim_job_def)
  obtain rs db' where e: "evaluateDownstreams ''r'' ''a'' JSuccess 5 demo_sched = (rs, db')" by force
  from evaluateDownstreams_sound [OF e] d e show ?thesis by simp
qed

section \<open>At most one dispatch\<close>

text \<open>
  What happens to the rows of a run: statuses change in any way, and the completion of a job is
  evaluated (by whichever coordinator). The evaluations of one job claim it one at a time.
\<close>

datatype sched_event =
    StatusChange "run_id \<Rightarrow> string \<Rightarrow> job_status \<Rightarrow> job_status"
  | Completed run_id string job_status nat

fun dispatches :: "sched_event list \<Rightarrow> sched_db \<Rightarrow> (run_id \<times> sched_result) list" where
  "dispatches [] db = []"
| "dispatches (StatusChange f # es) db =
     dispatches es (db\<lparr>sd_jobs := map (\<lambda>r. r\<lparr>jr_status := f (jr_run r) (jr_name r) (jr_status r)\<rparr>) (sd_jobs db)\<rparr>)"
| "dispatches (Completed run up st t # es) db =
     (let (rs, db) = evaluateDownstreams run up st t db in map (Pair run) rs @ dispatches es db)"

lemma count_list_map: "count_list rs x \<le> count_list (map f rs) (f x)"
  by (induction rs) auto

lemma count_list_distinct: "distinct xs \<Longrightarrow> count_list xs x \<le> 1"
  by (induction xs) auto

lemma count_dispatch_distinct: "distinct (map result_job rs) \<Longrightarrow> count_list rs (Dispatch j) \<le> 1"
  by (meson count_list_map count_list_distinct order.trans)

lemma dispatches_le_unclaimed:
  "count_list (dispatches es db) (run, Dispatch j) \<le> (if unclaimed run j db then 1 else 0)"
proof (induction es db rule: dispatches.induct)
  case (2 f es db)
  let ?db = "db\<lparr>sd_jobs := map (\<lambda>r. r\<lparr>jr_status := f (jr_run r) (jr_name r) (jr_status r)\<rparr>) (sd_jobs db)\<rparr>"
  have "unclaimed run j ?db = unclaimed run j db" by (simp add: unclaimed_def)
  with 2 show ?case by simp
next
  case (3 run' up st t es db)
  obtain rs db' where e: "evaluateDownstreams run' up st t db = (rs, db')" by force
  note f = evaluate_edges_facts [OF e [unfolded evaluateDownstreams_def]]
  have ih: "count_list (dispatches es db') (run, Dispatch j) \<le> (if unclaimed run j db' then 1 else 0)"
    using 3 [OF e [symmetric] refl] by simp
  have c: "count_list (map (Pair run') rs) (run, Dispatch j) = (if run' = run then count_list rs (Dispatch j) else 0)"
    by (induction rs) auto
  show ?case
  proof (cases "run' = run \<and> Dispatch j \<in> set rs")
    case True
    then have "unclaimed run j db" "\<not> unclaimed run j db'" using f by blast+
    moreover have "count_list rs (Dispatch j) \<le> 1" using count_dispatch_distinct [of rs j] f True by simp
    ultimately show ?thesis using e c ih True by simp
  next
    case False
    then have "count_list (map (Pair run') rs) (run, Dispatch j) = 0"
      unfolding c by (auto simp: count_list_0_iff)
    moreover have "unclaimed run j db' \<longrightarrow> unclaimed run j db" using f by blast
    ultimately show ?thesis using e ih by (auto split: if_splits)
  qed
qed simp

text \<open>
  However often and in whatever order the completions of a job's upstreams are evaluated, and
  whatever statuses change in between, the job is handed to dispatch at most once.
\<close>

theorem dispatched_at_most_once:
  "count_list (dispatches es db) (run, Dispatch j) \<le> 1"
  using dispatches_le_unclaimed [of es db run j] by (simp split: if_splits)


section \<open>What a failure reaches\<close>

definition fails_over :: "run_id \<Rightarrow> sched_db \<Rightarrow> (string \<times> string) set" where
  "fails_over run db = {(a, ed_job e) |a e. e \<in> set (sd_edges db) \<and> ed_run e = run \<and> ed_upstream e = a \<and>
     propagates run db a e}"

lemma set_hop: "set (hop run db cur visited) = {b. (cur, b) \<in> fails_over run db} - set visited"
  by (auto simp: hop_def edges_of_upstream_def fails_over_def)

lemma propagation_loop_reach:
  assumes "set (f # targets) = set visited \<union> set queue" "f \<in> set visited" "f \<notin> set targets"
    "\<forall>a \<in> set visited. \<forall>b. (a, b) \<in> fails_over run db \<longrightarrow> b \<in> set visited \<union> set queue"
    "set queue \<union> set visited \<subseteq> (fails_over run db)\<^sup>* `` {f}"
  shows "set (propagation_loop run db visited targets queue) = (fails_over run db)\<^sup>+ `` {f} - {f}"
  using assms
proof (induction run db visited targets queue rule: propagation_loop.induct)
  case (1 run db visited targets)
  let ?R = "fails_over run db"
  have "?R\<^sup>* `` {f} \<subseteq> set visited"
  proof -
    have "b \<in> set visited" if "(f, b) \<in> ?R\<^sup>*" for b
      using that by (induction rule: rtrancl_induct) (use 1 in auto)
    then show ?thesis by blast
  qed
  with 1 have "insert f (set targets) = ?R\<^sup>* `` {f}" by auto
  then have "set targets = ?R\<^sup>* `` {f} - {f}" using 1(3) by auto
  moreover have "?R\<^sup>* `` {f} - {f} = ?R\<^sup>+ `` {f} - {f}"
    by (auto intro: trancl_into_rtrancl dest: rtranclD)
  ultimately show ?case by simp
next
  case (2 run db visited targets cur queue)
  let ?R = "fails_over run db"
  show ?case
  proof (cases "cur \<in> set visited")
    case True
    have "set (propagation_loop run db visited targets queue) = ?R\<^sup>+ `` {f} - {f}"
      using 2(1) [OF True] 2(3-7) True by (auto simp: insert_absorb)
    with True show ?thesis by simp
  next
    case False
    let ?v = "js_add cur visited" and ?h = "hop run db cur (js_add cur visited)"
    have h: "set ?h = {b. (cur, b) \<in> ?R} - set ?v" by (rule set_hop)
    have cur: "(f, cur) \<in> ?R\<^sup>*" using 2(7) by auto
    have a1: "set (f # targets @ ?h) = set ?v \<union> set (queue @ ?h)" using 2(3) by auto
    have a2: "f \<in> set ?v" "f \<notin> set (targets @ ?h)" using 2(4,5) h by auto
    have a3: "\<forall>a \<in> set ?v. \<forall>b. (a, b) \<in> ?R \<longrightarrow> b \<in> set ?v \<union> set (queue @ ?h)" using 2(6) h by auto
    have a4: "set (queue @ ?h) \<union> set ?v \<subseteq> ?R\<^sup>* `` {f}"
      using 2(7) cur h by (auto intro: rtrancl.rtrancl_into_rtrancl)
    from 2(2) [OF False refl refl a1 a2 a3 a4] False show ?thesis by (simp add: Let_def)
  qed
qed

text \<open>
  C7. The cascade of a failed job terminates with exactly the jobs that the failure reaches over
  edges whose status set its upstream misses, the failed job itself excluded.
\<close>

theorem getFailurePropagationTargets_reach:
  "set (getFailurePropagationTargets run failed db) = (fails_over run db)\<^sup>+ `` {failed} - {failed}"
proof -
  let ?h = "hop run db failed [failed]"
  have e: "getFailurePropagationTargets run failed db = propagation_loop run db [failed] ?h ?h"
    by (simp add: getFailurePropagationTargets_def js_add_def Let_def)
  show ?thesis unfolding e
    by (rule propagation_loop_reach) (auto simp: set_hop)
qed

text \<open>
  The check of a job's upstreams depends on the order in which the database returns the edges,
  which the query does not fix: with a failed and a running upstream the job is skipped when
  the failed one comes first, and unsatisfied when the running one does.
\<close>

theorem upstream_check_order_dependent:
  "let jobs = [demo_jr ''a'' JFailed True, demo_jr ''b'' JRunning True, demo_jr ''c'' JPending False] in
   checkAllUpstreamsSatisfied \<lparr>sd_jobs = jobs, sd_edges = [demo_edge ''c'' ''a'', demo_edge ''c'' ''b'']\<rparr> ''r'' ''c''
     = SatisfiedSkip ''upstream_unmet: a (failed)'' \<and>
   checkAllUpstreamsSatisfied \<lparr>sd_jobs = jobs, sd_edges = [demo_edge ''c'' ''b'', demo_edge ''c'' ''a'']\<rparr> ''r'' ''c''
     = Unsatisfied"
  by (simp add: checkAllUpstreamsSatisfied_def edges_of_job_def status_of_def demo_jr_def demo_edge_def
      TERMINAL_JOB_STATES_def runs_on_def parseRunOn_def runOn_json_def upstream_unmet_def Let_def)

section \<open>Waves stay within their bound\<close>

lemma wave_children_clear:
  "wave_children run base (clear_gate run j db) =
     map (\<lambda>r. if jr_name r = j then r\<lparr>jr_waveGated := False\<rparr> else r) (wave_children run base db)"
proof -
  have "filter (\<lambda>r. jr_run r = run \<and> jr_base r = Some base) (update_where (\<lambda>r. jr_run r = run \<and> jr_name r = j)
      (\<lambda>r. r\<lparr>jr_waveGated := False\<rparr>) rows) =
    map (\<lambda>r. if jr_name r = j then r\<lparr>jr_waveGated := False\<rparr> else r)
      (filter (\<lambda>r. jr_run r = run \<and> jr_base r = Some base) rows)" for rows
    by (induction rows) (auto simp: update_where_def)
  then show ?thesis by (simp add: wave_children_def clear_gate_def)
qed

lemma inFlight_clear:
  assumes "distinct (map jr_name cs)"
  shows "wave_inFlight (map (\<lambda>r. if jr_name r = j then r\<lparr>jr_waveGated := False\<rparr> else r) cs) \<le> Suc (wave_inFlight cs)"
proof -
  have same: "map (\<lambda>r. if jr_name r = j then r\<lparr>jr_waveGated := False\<rparr> else r) xs = xs"
    if "j \<notin> jr_name ` set xs" for xs
    using that by (induction xs) auto
  show ?thesis
  proof (cases "j \<in> jr_name ` set cs")
    case False
    from same [OF this] show ?thesis by simp
  next
    case True
    then obtain c xs ys where s: "cs = xs @ c # ys" "jr_name c = j" by (metis imageE split_list)
    then have "j \<notin> jr_name ` set xs" "j \<notin> jr_name ` set ys" using assms by auto
    with same [of xs] same [of ys] show ?thesis by (simp add: s wave_inFlight_def)
  qed
qed

text \<open>
  A wave releases a child only under the bound: it is a held child of the base whose label
  sorts first, the wave is not failing fast, and with its gate cleared at most \<open>maxParallel\<close>
  children are in flight. A failing-fast wave skips all its held children and releases none.
\<close>

theorem evaluateWave_bounded:
  assumes "collation le" "distinct (map jr_name (wave_children run base db))"
  shows "case evaluateWave le run base st db of
      Release j b mx ff \<Rightarrow> b = base \<and> \<not> (ff \<and> st \<noteq> JSuccess) \<and>
        int (wave_inFlight (wave_children run base (clear_gate run j db))) \<le> mx \<and>
        (\<exists>h \<in> set (wave_children run base db). jr_name h = j \<and> jr_waveGated h \<and>
          (\<forall>c \<in> set (wave_children run base db). jr_waveGated c \<longrightarrow> le (wave_key h) (wave_key c)))
    | SkipRemaining js \<Rightarrow> st \<noteq> JSuccess \<and> js \<noteq> [] \<and>
        set js = {jr_name c |c. c \<in> set (wave_children run base db) \<and> jr_waveGated c}
    | Noop \<Rightarrow> True"
proof -
  let ?cs = "wave_children run base db"
  let ?le = "\<lambda>a b. le (wave_key a) (wave_key b)"
  have coll: "collation ?le" by (rule collation_key [OF assms(1)])
  have first: "?le h c" if "sort_by ?le xs = h # rest" "c \<in> set xs" for h rest c and xs :: "job_row list"
  proof -
    have "sorted_wrt ?le (h # rest)" using collation.sorted_sort_by [OF coll, of xs] that(1) by simp
    moreover have "c \<in> set (h # rest)" using that set_sort_by [of ?le xs] by metis
    ultimately show ?thesis using collation.total [OF coll, of h h] by auto
  qed
  have mem: "h \<in> set xs" if "sort_by ?le xs = h # rest" for h rest and xs :: "job_row list"
    using that set_sort_by [of ?le xs] by (metis list.set_intros(1))
  have bound: "int (wave_inFlight (wave_children run base (clear_gate run j db))) \<le> mx"
    if "int (wave_inFlight ?cs) < mx" for j mx
    using inFlight_clear [OF assms(2), of j] that unfolding wave_children_clear by linarith
  show ?thesis
    unfolding evaluateWave_def Let_def
    by (auto split: option.splits list.splits simp: bound first)
      (use mem first in fastforce)+
qed


definition demo_child :: "string \<Rightarrow> bool \<Rightarrow> job_status \<Rightarrow> job_row" where
  "demo_child n gated st = (demo_jr n st True)\<lparr>jr_base := Some ''t'', jr_waveGated := gated,
     jr_variantLabel := Some n, jr_waveMaxParallel := Some 2\<rparr>"

lemma evaluateWave_bounded_witness:
  "wave_inFlight (wave_children ''r'' ''t'' (clear_gate ''r'' ''bb''
     \<lparr>sd_jobs = [demo_child ''a'' False JSuccess, demo_child ''bb'' True JPending, demo_child ''c'' False JRunning],
      sd_edges = []\<rparr>)) \<le> 2"
proof -
  let ?db = "\<lparr>sd_jobs = [demo_child ''a'' False JSuccess, demo_child ''bb'' True JPending, demo_child ''c'' False JRunning],
      sd_edges = []\<rparr>"
  have r: "evaluateWave demo_le ''r'' ''t'' JSuccess ?db = Release ''bb'' ''t'' 2 False"
    by (simp add: evaluateWave_def wave_children_def demo_child_def demo_jr_def wave_inFlight_def TERMINAL_JOB_STATES_def)
  have d: "distinct (map jr_name (wave_children ''r'' ''t'' ?db))"
    by (simp add: wave_children_def demo_child_def demo_jr_def)
  from evaluateWave_bounded [OF demo_le_collation d, of JSuccess] r show ?thesis by simp
qed

section \<open>Fanned upstreams\<close>

lemma set_insert_edge: "set es \<subseteq> set (insert_edge e es)"
  by (auto simp: insert_edge_def)

lemma insert_edge_present:
  "\<exists>x \<in> set (insert_edge e es). ed_run x = ed_run e \<and> ed_job x = ed_job e \<and> ed_upstream x = ed_upstream e"
  by (auto simp: insert_edge_def)

lemma fold_insert_edge_subset: "set es \<subseteq> set (fold insert_edge rows es)"
  by (induction rows arbitrary: es) (simp, metis fold_simps(2) set_insert_edge subset_trans)

lemma fold_insert_edge_present:
  "e \<in> set rows \<Longrightarrow>
    \<exists>x \<in> set (fold insert_edge rows es). ed_run x = ed_run e \<and> ed_job x = ed_job e \<and> ed_upstream x = ed_upstream e"
proof (induction rows arbitrary: es)
  case (Cons r rows)
  show ?case
  proof (cases "e \<in> set rows")
    case True
    with Cons.IH show ?thesis by simp
  next
    case False
    with Cons.prems have "e = r" by simp
    then show ?thesis
      using insert_edge_present [of r es] fold_insert_edge_subset [of "insert_edge r es" rows] by auto
  qed
qed simp

lemma concrete_needs_name:
  "NeedName n \<in> set ns \<Longrightarrow> map_of em n = Some children \<Longrightarrow> c \<in> set children \<Longrightarrow>
    (c, runOn_json SUCCESS_ONLY_RUN_ON) \<in> set (concrete_needs em ns)"
  by (induction em ns rule: concrete_needs.induct) auto

text \<open>
  A job that needs a fanned job by name waits for every child of it: after the edges of a run
  are written there is an edge to each child, and the check lets the job be dispatched only
  when each child is in a terminal status.
\<close>

theorem needs_wait_for_every_child:
  assumes "m \<in> set jobs" "lj_needs (mj_lockJob m) = Some ns" "NeedName n \<in> set ns"
    "map_of em n = Some children" "c \<in> set children"
  shows "c \<in> ed_upstream ` set (edges_of_job run (mj_expandedName m) (insertEdgesForRun run jobs em t db)) \<and>
    (checkAllUpstreamsSatisfied (insertEdgesForRun run jobs em t db) run (mj_expandedName m) \<noteq> SatisfiedDispatch \<or>
     (\<exists>s \<in> set TERMINAL_JOB_STATES. status_of run (insertEdgesForRun run jobs em t db) c = Some s))"
proof -
  let ?db = "insertEdgesForRun run jobs em t db"
  let ?e = "\<lparr>ed_run = run, ed_job = mj_expandedName m, ed_upstream = c, ed_runOn = runOn_json SUCCESS_ONLY_RUN_ON\<rparr>"
  have "(c, runOn_json SUCCESS_ONLY_RUN_ON) \<in> set (job_needs em m)"
    using concrete_needs_name [OF assms(3,4,5)] assms(2) by (simp add: job_needs_def)
  then have "?e \<in> set (concat (map (\<lambda>m. map (\<lambda>(up, ro).
            \<lparr>ed_run = run, ed_job = mj_expandedName m, ed_upstream = up, ed_runOn = ro\<rparr>) (job_needs em m)) jobs))"
    using assms(1) by force
  from fold_insert_edge_present [OF this, of "sd_edges db"]
  obtain x where x: "x \<in> set (sd_edges ?db)" "ed_run x = run" "ed_job x = mj_expandedName m" "ed_upstream x = c"
    by (auto simp: insertEdgesForRun_def Let_def)
  then have e: "x \<in> set (edges_of_job run (mj_expandedName m) ?db)" by (simp add: edges_of_job_def)
  moreover have "\<exists>s \<in> set TERMINAL_JOB_STATES. status_of run ?db c = Some s"
    if "checkAllUpstreamsSatisfied ?db run (mj_expandedName m) = SatisfiedDispatch"
    using that e x(4) unfolding checkAllUpstreamsSatisfied_def check_edges_dispatch by blast
  ultimately show ?thesis using x(4) by blast
qed

lemma needs_wait_for_every_child_witness:
  "''t (b)'' \<in> ed_upstream ` set (edges_of_job ''r'' ''d'' (insertEdgesForRun ''r''
     [plain_job ((demo_job ''d'' None)\<lparr>lj_needs := Some [NeedName ''t'']\<rparr>) ''d'']
     [(''t'', [''t (a)'', ''t (b)''])] 1 \<lparr>sd_jobs = [], sd_edges = []\<rparr>))"
proof -
  let ?m = "plain_job ((demo_job ''d'' None)\<lparr>lj_needs := Some [NeedName ''t'']\<rparr>) ''d''"
  have "?m \<in> set [?m]" by simp
  moreover have "lj_needs (mj_lockJob ?m) = Some [NeedName ''t'']" by (simp add: plain_job_def)
  moreover have "NeedName ''t'' \<in> set [NeedName ''t'']" by simp
  moreover have "map_of [(''t'', [''t (a)'', ''t (b)''])] ''t'' = Some [''t (a)'', ''t (b)'']" by simp
  moreover have "''t (b)'' \<in> set [''t (a)'', ''t (b)'']" by simp
  ultimately have "''t (b)'' \<in> ed_upstream ` set (edges_of_job ''r'' (mj_expandedName ?m) (insertEdgesForRun ''r''
     [?m] [(''t'', [''t (a)'', ''t (b)''])] 1 \<lparr>sd_jobs = [], sd_edges = []\<rparr>))"
    by (rule needs_wait_for_every_child [THEN conjunct1])
  then show ?thesis by (simp add: plain_job_def)
qed

end
