(* ===== verification/Dag.thy ===== *)
theory Dag
  imports Kici_Prelude
begin

text \<open>
  The dependency check of a workflow's jobs (\<open>packages/sdk/src/validation/dag.ts\<close>): self
  references, missing dependencies, then Kahn's algorithm with the queue and the in-degree
  map of the code, and the peeling of sinks that reports a cycle.
\<close>

section \<open>The algorithm\<close>

record dag_node =
  node_id :: string
  node_needs :: "string list"

datatype dag_result =
    Valid "string list"
  | Cycle "string list"
  | SelfReference string
  | MissingDependency string string

type_synonym adjacency = "(string \<times> string list) list"
type_synonym degrees = "(string \<times> int) list"

definition nodeIds :: "dag_node list \<Rightarrow> string list" where
  "nodeIds nodes = js_set (map node_id nodes)"

definition adjacent :: "adjacency \<Rightarrow> string \<Rightarrow> string list" where
  "adjacent adj x = (case map_of adj x of None \<Rightarrow> [] | Some l \<Rightarrow> l)"

definition degree :: "degrees \<Rightarrow> string \<Rightarrow> int" where
  "degree deg x = (case map_of deg x of None \<Rightarrow> 0 | Some d \<Rightarrow> d)"

fun missing_in :: "string list \<Rightarrow> dag_node list \<Rightarrow> (string \<times> string) option" where
  "missing_in ids [] = None"
| "missing_in ids (n # ns) =
     (case find (\<lambda>d. d \<notin> set ids) (node_needs n) of
        Some d \<Rightarrow> Some (node_id n, d)
      | None \<Rightarrow> missing_in ids ns)"

text \<open>The two loops that fill \<open>adjacencyList\<close> and \<open>inDegree\<close>.\<close>

definition empty_graph :: "dag_node list \<Rightarrow> adjacency \<times> degrees" where
  "empty_graph nodes = (fold (\<lambda>n. amap_set (node_id n) []) nodes [],
                        fold (\<lambda>n. amap_set (node_id n) 0) nodes [])"

definition add_edge :: "string \<Rightarrow> string \<Rightarrow> adjacency \<times> degrees \<Rightarrow> adjacency \<times> degrees" where
  "add_edge x dep g = (amap_set dep (adjacent (fst g) dep @ [x]) (fst g),
                       amap_set x (degree (snd g) x + 1) (snd g))"

definition build_graph :: "dag_node list \<Rightarrow> adjacency \<times> degrees" where
  "build_graph nodes =
     fold (\<lambda>n. fold (add_edge (node_id n)) (node_needs n)) nodes (empty_graph nodes)"

fun relax :: "string list \<Rightarrow> degrees \<Rightarrow> string list \<Rightarrow> degrees \<times> string list" where
  "relax [] deg queue = (deg, queue)"
| "relax (x # xs) deg queue =
     (let newDegree = degree deg x - 1
      in relax xs (amap_set x newDegree deg) (if newDegree = 0 then queue @ [x] else queue))"

definition positives :: "degrees \<Rightarrow> nat" where
  "positives deg = length (filter (\<lambda>e. 0 < snd e) deg)"

lemma positives_set:
  "positives (amap_set x (degree deg x - 1) deg) + (if degree deg x = 1 then 1 else 0) \<le> positives deg"
  by (induction deg) (auto simp: positives_def degree_def split: option.splits)

lemma relax_measure:
  "relax xs deg queue = (deg', queue') \<Longrightarrow> length queue' + positives deg' \<le> length queue + positives deg"
proof (induction xs deg queue arbitrary: deg' queue' rule: relax.induct)
  case (2 x xs deg queue)
  from 2(1) [OF refl] 2(2) positives_set [of x deg] show ?case
    by (fastforce simp: Let_def split: if_splits)
qed simp

function kahn :: "adjacency \<Rightarrow> string list \<Rightarrow> degrees \<Rightarrow> string list \<Rightarrow> string list \<times> degrees" where
  "kahn adj [] deg order = (order, deg)"
| "kahn adj (x # queue) deg order =
     (case relax (adjacent adj x) deg queue of
        (deg, queue) \<Rightarrow> kahn adj queue deg (order @ [x]))"
  by pat_completeness auto

termination
  by (relation "measure (\<lambda>(adj, queue, deg, order). length queue + positives deg)")
    (auto dest: relax_measure relax_measure [OF sym])

fun peel_pass :: "adjacency \<Rightarrow> string list \<Rightarrow> string list \<Rightarrow> string list" where
  "peel_pass adj [] residual = residual"
| "peel_pass adj (x # xs) residual =
     (if \<exists>y \<in> set (adjacent adj x). y \<in> set residual then peel_pass adj xs residual
      else peel_pass adj xs (removeAll x residual))"

lemma peel_pass_length: "length (peel_pass adj xs residual) \<le> length residual"
  by (induction adj xs residual rule: peel_pass.induct)
    (auto intro: order.trans [OF _ length_removeAll_less_eq])

function peel :: "adjacency \<Rightarrow> string list \<Rightarrow> string list" where
  "peel adj residual =
     (let residual' = peel_pass adj residual residual
      in if length residual' = length residual then residual else peel adj residual')"
  by pat_completeness auto

termination
  by (relation "measure (\<lambda>(adj, residual). length residual)")
    (auto simp: peel_pass_length order.not_eq_order_implies_strict)

declare peel.simps [simp del]

definition validateDag :: "dag_node list \<Rightarrow> dag_result" where
  "validateDag nodes =
     (if nodes = [] then Valid []
      else case find (\<lambda>n. node_id n \<in> set (node_needs n)) nodes of
          Some n \<Rightarrow> SelfReference (node_id n)
        | None \<Rightarrow>
            (case missing_in (nodeIds nodes) nodes of
               Some (x, d) \<Rightarrow> MissingDependency x d
             | None \<Rightarrow>
                 let (adj, deg) = build_graph nodes;
                     queue = map fst (filter (\<lambda>e. snd e = 0) deg);
                     (order, deg) = kahn adj queue deg []
                 in if length order \<noteq> length nodes
                    then Cycle (peel adj (map fst (filter (\<lambda>e. 0 < snd e) deg)))
                    else Valid order))"


section \<open>The graph\<close>

definition needs_of :: "dag_node list \<Rightarrow> string \<Rightarrow> string list" where
  "needs_of nodes x = concat (map node_needs (filter (\<lambda>n. node_id n = x) nodes))"

definition ids_of :: "dag_node list \<Rightarrow> string set" where
  "ids_of nodes = node_id ` set nodes"

lemma degree_set [simp]: "degree (amap_set x d deg) y = (if y = x then d else degree deg y)"
  by (simp add: degree_def)

lemma adjacent_set [simp]: "adjacent (amap_set x l adj) y = (if y = x then l else adjacent adj y)"
  by (simp add: adjacent_def)

lemma degree_adjacent_Nil [simp]: "degree [] x = 0" "adjacent [] x = []"
  by (simp_all add: degree_def adjacent_def)

lemma add_edges:
  "degree (snd (fold (add_edge i) ds g)) x = degree (snd g) x + (if x = i then int (length ds) else 0) \<and>
   count_list (adjacent (fst (fold (add_edge i) ds g)) d) x =
     count_list (adjacent (fst g) d) x + (if x = i then count_list ds d else 0) \<and>
   (i \<in> fst ` set (snd g) \<longrightarrow> fst ` set (snd (fold (add_edge i) ds g)) = fst ` set (snd g)) \<and>
   (distinct (map fst (snd g)) \<longrightarrow> distinct (map fst (snd (fold (add_edge i) ds g))))"
  by (induction ds arbitrary: g) (auto simp: add_edge_def insert_absorb)

lemma add_nodes:
  assumes "node_id ` set ns \<subseteq> fst ` set (snd g)"
  shows "degree (snd (fold (\<lambda>n. fold (add_edge (node_id n)) (node_needs n)) ns g)) x =
      degree (snd g) x + int (length (needs_of ns x)) \<and>
    count_list (adjacent (fst (fold (\<lambda>n. fold (add_edge (node_id n)) (node_needs n)) ns g)) d) x =
      count_list (adjacent (fst g) d) x + count_list (needs_of ns x) d \<and>
    fst ` set (snd (fold (\<lambda>n. fold (add_edge (node_id n)) (node_needs n)) ns g)) = fst ` set (snd g) \<and>
    (distinct (map fst (snd g)) \<longrightarrow>
      distinct (map fst (snd (fold (\<lambda>n. fold (add_edge (node_id n)) (node_needs n)) ns g))))"
  using assms
proof (induction ns arbitrary: g)
  case (Cons n ns)
  note e = add_edges [of "node_id n" "node_needs n" g]
  have "node_id n \<in> fst ` set (snd g)" using Cons.prems by simp
  then have k: "fst ` set (snd (fold (add_edge (node_id n)) (node_needs n) g)) = fst ` set (snd g)" using e by blast
  then show ?case using Cons.IH [of "fold (add_edge (node_id n)) (node_needs n) g"] Cons.prems e
    by (auto simp: needs_of_def)
qed (simp add: needs_of_def)

lemma empty_graph_facts:
  "degree (snd (empty_graph nodes)) x = 0 \<and> adjacent (fst (empty_graph nodes)) d = [] \<and>
   fst ` set (snd (empty_graph nodes)) = ids_of nodes \<and> distinct (map fst (snd (empty_graph nodes)))"
proof -
  have "degree (fold (\<lambda>n. amap_set (node_id n) 0) ns deg) x = 0" if "degree deg x = 0" for ns :: "dag_node list" and deg
    using that by (induction ns arbitrary: deg) simp_all
  moreover have "adjacent (fold (\<lambda>n. amap_set (node_id n) []) ns adj) d = []" if "adjacent adj d = []" for ns :: "dag_node list" and adj
    using that by (induction ns arbitrary: adj) simp_all
  moreover have "fst ` set (fold (\<lambda>n. amap_set (node_id n) 0) ns deg) = node_id ` set ns \<union> fst ` set deg \<and>
      (distinct (map fst deg) \<longrightarrow> distinct (map fst (fold (\<lambda>n. amap_set (node_id n) 0) ns deg)))" for ns :: "dag_node list" and deg :: degrees
    by (induction ns arbitrary: deg) auto
  ultimately show ?thesis by (simp add: empty_graph_def ids_of_def)
qed

lemma build_graph_facts:
  assumes "build_graph nodes = (adj, deg)"
  shows "degree deg x = int (length (needs_of nodes x))"
    "count_list (adjacent adj d) x = count_list (needs_of nodes x) d"
    "fst ` set deg = ids_of nodes" "distinct (map fst deg)"
  using add_nodes [of nodes "empty_graph nodes" x d] empty_graph_facts [of nodes x d] assms
  by (simp_all add: build_graph_def ids_of_def)

lemma adjacent_iff:
  assumes "build_graph nodes = (adj, deg)"
  shows "x \<in> set (adjacent adj d) \<longleftrightarrow> d \<in> set (needs_of nodes x)"
  using build_graph_facts(2) [OF assms, of d x] by (metis count_list_0_iff)

section \<open>Kahn's algorithm\<close>

lemma relax_degree:
  "relax xs deg queue = (deg', queue') \<Longrightarrow> degree deg' x = degree deg x - int (count_list xs x)"
  by (induction xs deg queue arbitrary: deg' queue' rule: relax.induct) (simp_all add: Let_def)

lemma relax_queue:
  "relax xs deg queue = (deg', queue') \<Longrightarrow>
   \<exists>news. queue' = queue @ news \<and> distinct news \<and>
     set news = {x. 0 < degree deg x \<and> degree deg x \<le> int (count_list xs x)}"
proof (induction xs deg queue arbitrary: deg' queue' rule: relax.induct)
  case (2 y ys deg queue)
  let ?deg = "amap_set y (degree deg y - 1) deg"
  let ?q = "if degree deg y - 1 = 0 then queue @ [y] else queue"
  have r: "relax ys ?deg ?q = (deg', queue')" using 2(2) by (simp add: Let_def)
  obtain news where n: "queue' = ?q @ news" "distinct news"
    "set news = {x. 0 < degree ?deg x \<and> degree ?deg x \<le> int (count_list ys x)}"
    using 2(1) [OF refl r] by blast
  let ?S = "{x. 0 < degree deg x \<and> degree deg x \<le> int (count_list (y # ys) x)}"
  have x: "x \<in> ?S \<longleftrightarrow> x \<in> set news \<or> x = y \<and> degree deg y = 1" for x
    by (cases "x = y") (auto simp: n(3))
  have y: "degree deg y = 1 \<Longrightarrow> y \<notin> set news" by (simp add: n(3))
  show ?case
  proof (cases "degree deg y = 1")
    case True
    then have "queue' = queue @ y # news" using n(1) by simp
    moreover have "set (y # news) = ?S" using x True by auto
    moreover have "distinct (y # news)" using n(2) y True by simp
    ultimately show ?thesis by blast
  next
    case False
    then have "queue' = queue @ news" using n(1) by simp
    moreover have "set news = ?S" using x False by auto
    ultimately show ?thesis using n(2) by blast
  qed
qed auto

text \<open>
  Between two rounds of the loop: the degree of a node counts its needs that are not sorted
  yet, the nodes of degree zero are those sorted or queued, and every sorted node comes
  after all it needs.
\<close>

definition kahn_inv :: "dag_node list \<Rightarrow> string list \<Rightarrow> degrees \<Rightarrow> string list \<Rightarrow> bool" where
  "kahn_inv nodes queue deg order \<longleftrightarrow>
     distinct (order @ queue) \<and> set (order @ queue) \<subseteq> ids_of nodes \<and>
     (\<forall>x \<in> ids_of nodes. degree deg x = int (length (filter (\<lambda>d. d \<notin> set order) (needs_of nodes x))) \<and>
        (degree deg x = 0 \<longleftrightarrow> x \<in> set (order @ queue))) \<and>
     (\<forall>x \<in> set order. \<exists>xs ys. order = xs @ x # ys \<and> set (needs_of nodes x) \<subseteq> set xs)"

lemma filter_split_count:
  "c \<notin> S \<Longrightarrow> length (filter (\<lambda>d. d \<notin> S) ds) = length (filter (\<lambda>d. d \<notin> insert c S) ds) + count_list ds c"
  by (induction ds) auto

lemma kahn_step:
  assumes g: "build_graph nodes = (adj, deg0)" and inv: "kahn_inv nodes (c # queue) deg order"
    and r: "relax (adjacent adj c) deg queue = (deg', queue')"
    and closed: "\<forall>x d. d \<in> set (needs_of nodes x) \<longrightarrow> x \<in> ids_of nodes"
  shows "kahn_inv nodes queue' deg' (order @ [c])"
proof -
  let ?N = "needs_of nodes"
  note cnt = build_graph_facts(2) [OF g]
  obtain news where news: "queue' = queue @ news" "distinct news"
    "set news = {x. 0 < degree deg x \<and> degree deg x \<le> int (count_list (adjacent adj c) x)}"
    using relax_queue [OF r] by blast
  have d: "distinct (order @ c # queue)" "set (order @ c # queue) \<subseteq> ids_of nodes"
    and deg: "\<And>x. x \<in> ids_of nodes \<Longrightarrow> degree deg x = int (length (filter (\<lambda>d. d \<notin> set order) (?N x)))"
    and zero: "\<And>x. x \<in> ids_of nodes \<Longrightarrow> degree deg x = 0 \<longleftrightarrow> x \<in> set (order @ c # queue)"
    and top: "\<And>x. x \<in> set order \<Longrightarrow> \<exists>xs ys. order = xs @ x # ys \<and> set (?N x) \<subseteq> set xs"
    using inv by (auto simp: kahn_inv_def)
  have c: "c \<notin> set order" "c \<in> ids_of nodes" using d by auto
  have deg': "degree deg' x = int (length (filter (\<lambda>d. d \<notin> set (order @ [c])) (?N x)))" if "x \<in> ids_of nodes" for x
    using relax_degree [OF r, of x] deg [OF that] filter_split_count [OF c(1), of "?N x"] by (simp add: cnt)
  have news_ids: "set news \<subseteq> ids_of nodes"
  proof
    fix x assume "x \<in> set news"
    then have "0 < count_list (?N x) c" by (auto simp: news(3) cnt)
    then have "c \<in> set (?N x)" by (metis count_list_0_iff less_irrefl)
    then show "x \<in> ids_of nodes" using closed by blast
  qed
  have news_zero: "x \<in> set news \<longleftrightarrow> degree deg x \<noteq> 0 \<and> degree deg' x = 0" if "x \<in> ids_of nodes" for x
    using relax_degree [OF r, of x] deg [OF that] deg' [OF that] by (auto simp: news(3))
  have keep_zero: "degree deg' x = 0" if "x \<in> ids_of nodes" "degree deg x = 0" for x
    using relax_degree [OF r, of x] deg' [OF that(1)] that(2) by simp
  have "set news \<inter> set (order @ c # queue) = {}" using news_zero zero news_ids by blast
  then have "distinct ((order @ [c]) @ queue')" using d(1) news(1,2) by auto
  moreover have "set ((order @ [c]) @ queue') \<subseteq> ids_of nodes" using d(2) news_ids news(1) by auto
  moreover have "degree deg' x = 0 \<longleftrightarrow> x \<in> set ((order @ [c]) @ queue')" if "x \<in> ids_of nodes" for x
    using news_zero [OF that] zero [OF that] keep_zero [OF that] news(1) by auto
  moreover have "\<exists>xs ys. order @ [c] = xs @ x # ys \<and> set (?N x) \<subseteq> set xs" if "x \<in> set (order @ [c])" for x
  proof (cases "x = c")
    case True
    have "filter (\<lambda>d. d \<notin> set order) (?N c) = []" using zero [OF c(2)] deg [OF c(2)] by simp
    then have "set (?N c) \<subseteq> set order" by (auto simp: filter_empty_conv)
    with True show ?thesis by blast
  next
    case False
    with that top [of x] show ?thesis by (metis append.assoc append_Cons empty_iff insert_iff list.set set_append UnE)
  qed
  ultimately show ?thesis using deg' by (simp add: kahn_inv_def)
qed

lemma kahn_invariant:
  "kahn adj queue deg order = (order', deg') \<Longrightarrow> build_graph nodes = (adj, deg0) \<Longrightarrow>
    kahn_inv nodes queue deg order \<Longrightarrow> \<forall>x d. d \<in> set (needs_of nodes x) \<longrightarrow> x \<in> ids_of nodes \<Longrightarrow>
    kahn_inv nodes [] deg' order'"
proof (induction adj queue deg order arbitrary: order' deg' rule: kahn.induct)
  case (2 adj x queue deg order)
  obtain deg1 queue1 where r: "relax (adjacent adj x) deg queue = (deg1, queue1)" by force
  from 2(2) r have "kahn adj queue1 deg1 (order @ [x]) = (order', deg')" by simp
  from 2(1) [OF r [symmetric] this 2(3) kahn_step [OF 2(3,4) r 2(5)] 2(5)] show ?case .
qed simp


lemma needs_of_iff: "d \<in> set (needs_of nodes x) \<longleftrightarrow> (\<exists>n \<in> set nodes. node_id n = x \<and> d \<in> set (node_needs n))"
  by (auto simp: needs_of_def)

lemma needs_of_ids: "\<forall>x d. d \<in> set (needs_of nodes x) \<longrightarrow> x \<in> ids_of nodes"
  by (auto simp: needs_of_iff ids_of_def)

lemma degree_entry: "distinct (map fst deg) \<Longrightarrow> (x, d) \<in> set deg \<Longrightarrow> degree deg x = d"
  by (simp add: degree_def)

lemma degree_filter:
  assumes "distinct (map fst deg)"
  shows "set (map fst (filter (\<lambda>e. P (snd e)) deg)) = {x \<in> fst ` set deg. P (degree deg x)}"
  using assms by (auto simp: degree_entry image_iff)

lemma relax_keys:
  "relax xs deg queue = (deg', queue') \<Longrightarrow> fst ` set deg' = fst ` set deg \<union> set xs \<and>
     (distinct (map fst deg) \<longrightarrow> distinct (map fst deg'))"
  by (induction xs deg queue arbitrary: deg' queue' rule: relax.induct) (auto simp: Let_def)

lemma kahn_keys:
  "kahn adj queue deg order = (order', deg') \<Longrightarrow> \<forall>x. set (adjacent adj x) \<subseteq> fst ` set deg \<Longrightarrow>
     fst ` set deg' = fst ` set deg \<and> (distinct (map fst deg) \<longrightarrow> distinct (map fst deg'))"
proof (induction adj queue deg order arbitrary: order' deg' rule: kahn.induct)
  case (2 adj x queue deg order)
  obtain deg1 queue1 where r: "relax (adjacent adj x) deg queue = (deg1, queue1)" by force
  from 2(2) r have k: "kahn adj queue1 deg1 (order @ [x]) = (order', deg')" by simp
  have f: "fst ` set deg1 = fst ` set deg" "distinct (map fst deg) \<longrightarrow> distinct (map fst deg1)"
    using relax_keys [OF r] 2(3) by blast+
  from 2(1) [OF r [symmetric] k] 2(3) f show ?case by simp
qed simp

lemma kahn_result:
  assumes g: "build_graph nodes = (adj, deg)"
    and k: "kahn adj (map fst (filter (\<lambda>e. snd e = 0) deg)) deg [] = (order, deg')"
  shows "kahn_inv nodes [] deg' order"
    "set (map fst (filter (\<lambda>e. 0 < snd e) deg')) = ids_of nodes - set order"
proof -
  note b = build_graph_facts [OF g]
  let ?q = "map fst (filter (\<lambda>e. snd e = 0) deg)"
  have "set ?q = {x \<in> ids_of nodes. degree deg x = 0}"
    using degree_filter [OF b(4), of "\<lambda>d. d = 0"] by (simp add: b(3))
  moreover have "distinct ?q" using b(4) by (simp add: distinct_map_filter)
  ultimately have "kahn_inv nodes ?q deg []" by (auto simp: kahn_inv_def b(1))
  from kahn_invariant [OF k g this needs_of_ids] show inv: "kahn_inv nodes [] deg' order" .
  have "\<forall>x. set (adjacent adj x) \<subseteq> fst ` set deg"
    by (intro allI subsetI) (metis adjacent_iff [OF g] b(3) needs_of_ids)
  from kahn_keys [OF k this] have d: "fst ` set deg' = ids_of nodes" "distinct (map fst deg')"
    using b(3,4) by simp_all
  show "set (map fst (filter (\<lambda>e. 0 < snd e) deg')) = ids_of nodes - set order"
    unfolding degree_filter [OF d(2), of "\<lambda>d. 0 < d"] d(1)
    using inv by (auto simp: kahn_inv_def)
qed

section \<open>Orders and cycles\<close>

definition topological :: "dag_node list \<Rightarrow> string list \<Rightarrow> bool" where
  "topological nodes order \<longleftrightarrow> distinct order \<and> set order = ids_of nodes \<and>
     (\<forall>n \<in> set nodes. \<forall>d \<in> set (node_needs n). \<exists>xs ys. order = xs @ node_id n # ys \<and> d \<in> set xs)"

definition needs_edges :: "dag_node list \<Rightarrow> (string \<times> string) set" where
  "needs_edges nodes = {(d, x). d \<in> set (needs_of nodes x)}"

lemma topological_iff:
  "topological nodes order \<longleftrightarrow> distinct order \<and> set order = ids_of nodes \<and>
     (\<forall>x d. d \<in> set (needs_of nodes x) \<longrightarrow> (\<exists>xs ys. order = xs @ x # ys \<and> d \<in> set xs))"
  unfolding topological_def needs_of_iff by blast

lemma missing_in_None: "missing_in ids ns = None \<longleftrightarrow> (\<forall>n \<in> set ns. set (node_needs n) \<subseteq> set ids)"
  by (induction ns) (auto simp: find_None_iff find_Some_iff split: option.splits dest: nth_mem)

text \<open>In a list that puts every job after what it needs, no jobs wait for each other.\<close>

lemma ordered_not_waiting:
  assumes "distinct L" "\<forall>x \<in> set L. \<exists>xs ys. L = xs @ x # ys \<and> set (N x) \<subseteq> set xs"
    "\<forall>x \<in> R. \<exists>d \<in> R. d \<in> set (N x)"
  shows "R \<inter> set L = {}"
proof (rule ccontr)
  assume "R \<inter> set L \<noteq> {}"
  then have "\<exists>x \<in> set L. x \<in> R" by blast
  then obtain xs x ys where s: "L = xs @ x # ys" "x \<in> R" "\<forall>z \<in> set xs. z \<notin> R"
    using split_list_first_prop [of L "\<lambda>x. x \<in> R"] by blast
  from assms(3) s(2) obtain d where d: "d \<in> R" "d \<in> set (N x)" by blast
  have "x \<in> set L" using s(1) by simp
  with assms(2) obtain xs' ys' where s': "L = xs' @ x # ys'" "set (N x) \<subseteq> set xs'" by blast
  have "xs' = xs" using s(1) s'(1) assms(1)
    by (metis append_Cons_eq_iff distinct.simps(2) distinct_append not_distinct_conv_prefix)
  with s(3) d s'(2) show False by blast
qed

lemma topological_closed:
  assumes "topological nodes L" "\<forall>x \<in> R. \<exists>d \<in> R. d \<in> set (needs_of nodes x)"
  shows "R \<inter> ids_of nodes = {}"
proof -
  have d: "distinct L" "set L = ids_of nodes" using assms(1) by (simp_all add: topological_def)
  have "\<exists>xs ys. L = xs @ x # ys \<and> set (needs_of nodes x) \<subseteq> set xs" if x: "x \<in> set L" for x
  proof -
    obtain xs ys where s: "L = xs @ x # ys" using x by (meson split_list)
    have "d \<in> set xs" if "d \<in> set (needs_of nodes x)" for d
    proof -
      obtain xs' ys' where "L = xs' @ x # ys'" "d \<in> set xs'"
        using assms(1) \<open>d \<in> set (needs_of nodes x)\<close> unfolding topological_iff by blast
      then show ?thesis using s d(1)
        by (metis append_Cons_eq_iff distinct.simps(2) distinct_append not_distinct_conv_prefix)
    qed
    with s show ?thesis by blast
  qed
  with ordered_not_waiting [OF d(1), of "needs_of nodes" R] assms(2) d(2) show ?thesis by blast
qed

lemma topological_acyclic: "topological nodes L \<Longrightarrow> (x, x) \<notin> (needs_edges nodes)\<^sup>+"
proof
  assume t: "topological nodes L" and c: "(x, x) \<in> (needs_edges nodes)\<^sup>+"
  let ?R = "{y. (y, y) \<in> (needs_edges nodes)\<^sup>+}"
  have "\<exists>d \<in> ?R. d \<in> set (needs_of nodes y)" if "y \<in> ?R" for y
  proof -
    from that obtain d where d: "(y, d) \<in> (needs_edges nodes)\<^sup>*" "(d, y) \<in> needs_edges nodes"
      by (auto dest: tranclD2)
    then have "(d, d) \<in> (needs_edges nodes)\<^sup>+" by (meson rtrancl_into_trancl2)
    with d(2) show ?thesis by (auto simp: needs_edges_def)
  qed
  then have "?R \<inter> ids_of nodes = {}" by (intro topological_closed [OF t]) blast
  moreover have "x \<in> ids_of nodes"
    using c needs_of_ids [of nodes] by (auto simp: needs_edges_def dest: tranclD2)
  ultimately show False using c by blast
qed


section \<open>Peeling\<close>

lemma peel_pass_subset: "set (peel_pass adj xs r) \<subseteq> set r"
  by (induction adj xs r rule: peel_pass.induct) auto

lemma peel_pass_fix:
  "length (peel_pass adj xs r) = length r \<Longrightarrow> x \<in> set xs \<Longrightarrow> x \<in> set r \<Longrightarrow>
    \<exists>y \<in> set (adjacent adj x). y \<in> set r"
proof (induction adj xs r rule: peel_pass.induct)
  case (2 adj z zs r)
  show ?case
  proof (cases "\<exists>y \<in> set (adjacent adj z). y \<in> set r")
    case True
    with 2 show ?thesis by auto
  next
    case False
    then have l: "length (peel_pass adj zs (removeAll z r)) = length r" using 2(3) by simp
    have "z \<notin> set r"
    proof
      assume "z \<in> set r"
      then have "length (removeAll z r) < length r" by (rule length_removeAll_less)
      with l peel_pass_length [of adj zs "removeAll z r"] show False by simp
    qed
    with 2(2) [OF False] 2(4,5) l False show ?thesis by (auto simp: removeAll_id)
  qed
qed simp

lemma peel_pass_keeps:
  "S \<subseteq> set r \<Longrightarrow> \<forall>x \<in> S. \<exists>y \<in> set (adjacent adj x). y \<in> S \<Longrightarrow> S \<subseteq> set (peel_pass adj xs r)"
proof (induction adj xs r rule: peel_pass.induct)
  case (2 adj z zs r)
  show ?case
  proof (cases "\<exists>y \<in> set (adjacent adj z). y \<in> set r")
    case True
    with 2 show ?thesis by simp
  next
    case False
    then have "z \<notin> S" using 2(3,4) by blast
    with 2(3) have "S \<subseteq> set (removeAll z r)" by auto
    with 2(2) [OF False _ 2(4)] False show ?thesis by simp
  qed
qed simp

lemma peel_pass_pred:
  "\<forall>x \<in> set r. \<exists>d \<in> set r. x \<in> set (adjacent adj d) \<Longrightarrow> r \<noteq> [] \<Longrightarrow>
   (\<forall>x \<in> set (peel_pass adj xs r). \<exists>d \<in> set (peel_pass adj xs r). x \<in> set (adjacent adj d)) \<and>
   peel_pass adj xs r \<noteq> []"
proof (induction adj xs r rule: peel_pass.induct)
  case (2 adj z zs r)
  show ?case
  proof (cases "\<exists>y \<in> set (adjacent adj z). y \<in> set r")
    case True
    with 2 show ?thesis by simp
  next
    case False
    have p: "\<forall>x \<in> set (removeAll z r). \<exists>d \<in> set (removeAll z r). x \<in> set (adjacent adj d)"
      using 2(3) False by fastforce
    have "removeAll z r \<noteq> []"
    proof
      assume "removeAll z r = []"
      then have "set r \<subseteq> {z}" by (metis Diff_eq_empty_iff list.set(1) set_removeAll)
      moreover have "set r \<noteq> {}" using 2(4) by simp
      ultimately have "set r = {z}" by (simp add: subset_singleton_iff)
      with 2(3) False show False by simp
    qed
    with 2(2) [OF False p] False show ?thesis by simp
  qed
qed simp

lemma peel_facts:
  shows "set (peel adj r) \<subseteq> set r"
    and "\<forall>x \<in> set (peel adj r). \<exists>y \<in> set (adjacent adj x). y \<in> set (peel adj r)"
    and "S \<subseteq> set r \<Longrightarrow> \<forall>x \<in> S. \<exists>y \<in> set (adjacent adj x). y \<in> S \<Longrightarrow> S \<subseteq> set (peel adj r)"
    and "\<forall>x \<in> set r. \<exists>d \<in> set r. x \<in> set (adjacent adj d) \<Longrightarrow> r \<noteq> [] \<Longrightarrow>
      (\<forall>x \<in> set (peel adj r). \<exists>d \<in> set (peel adj r). x \<in> set (adjacent adj d)) \<and> peel adj r \<noteq> []"
proof (induction adj r rule: peel.induct)
  case (1 adj r)
  let ?p = "peel_pass adj r r"
  {
    case 1
    show ?case using "1.IH"(1) peel_pass_subset [of adj r r] by (subst peel.simps) (auto simp: Let_def)
  next
    case 2
    show ?case
    proof (cases "length ?p = length r")
      case True
      then show ?thesis using peel_pass_fix [of adj r r] by (subst (1 2) peel.simps) (simp add: Let_def)
    next
      case False
      then show ?thesis using "1.IH"(2) [OF refl False] by (subst (1 2) peel.simps) (simp add: Let_def)
    qed
  next
    case 3
    then show ?case using "1.IH"(3) peel_pass_keeps [of S r adj r] by (subst peel.simps) (auto simp: Let_def)
  next
    case 4
    show ?case
    proof (cases "length ?p = length r")
      case True
      then show ?thesis using 4 by (subst (1 2 3) peel.simps) (simp add: Let_def)
    next
      case False
      from peel_pass_pred [OF 4] "1.IH"(4) [OF refl False] False show ?thesis
        by (subst (1 2 3) peel.simps) (simp add: Let_def)
    qed
  }
qed


section \<open>What the validation promises\<close>

lemma validate_cases:
  assumes d: "distinct (map node_id nodes)"
    and no_self: "find (\<lambda>n. node_id n \<in> set (node_needs n)) nodes = None"
    and no_missing: "missing_in (nodeIds nodes) nodes = None"
  obtains (order) L where "validateDag nodes = Valid L" "topological nodes L"
  | (cycle) adj r where "validateDag nodes = Cycle (peel adj r)" "r \<noteq> []"
      "\<forall>x y. y \<in> set (adjacent adj x) \<longleftrightarrow> x \<in> set (needs_of nodes y)" "set r \<subseteq> ids_of nodes"
      "\<forall>x \<in> set r. \<exists>d \<in> set r. d \<in> set (needs_of nodes x)"
      "\<forall>R. (\<forall>x \<in> R. \<exists>d \<in> R. d \<in> set (needs_of nodes x)) \<longrightarrow> R \<inter> ids_of nodes \<subseteq> set r"
proof (cases "nodes = []")
  case True
  then show thesis by (intro order [of "[]"]) (simp_all add: validateDag_def topological_def ids_of_def)
next
  case False
  obtain adj deg where g: "build_graph nodes = (adj, deg)" by force
  obtain L deg' where k: "kahn adj (map fst (filter (\<lambda>e. snd e = 0) deg)) deg [] = (L, deg')" by force
  let ?r = "map fst (filter (\<lambda>e. 0 < snd e) deg')"
  have v: "validateDag nodes = (if length L \<noteq> length nodes then Cycle (peel adj ?r) else Valid L)"
    using False by (simp add: validateDag_def no_self no_missing g k)
  note inv = kahn_result(1) [OF g k] and r = kahn_result(2) [OF g k]
  have L: "distinct L" "set L \<subseteq> ids_of nodes" using inv by (simp_all add: kahn_inv_def)
  have top: "\<exists>xs ys. L = xs @ x # ys \<and> set (needs_of nodes x) \<subseteq> set xs" if "x \<in> set L" for x
    using inv that by (simp add: kahn_inv_def)
  have card: "length nodes = card (ids_of nodes)" "length L = card (set L)"
    using d L(1) by (simp_all add: ids_of_def distinct_card flip: set_map)
  have ids: "set (nodeIds nodes) = ids_of nodes" by (simp add: nodeIds_def ids_of_def)
  show thesis
  proof (cases "set L = ids_of nodes")
    case True
    then have "topological nodes L"
      unfolding topological_iff using L(1) top needs_of_ids by (metis subsetD)
    with v card True show thesis by (intro order) simp_all
  next
    case False
    then have ne: "set L \<subset> ids_of nodes" using L(2) by blast
    moreover have "finite (ids_of nodes)" by (simp add: ids_of_def)
    ultimately have "card (set L) < card (ids_of nodes)" by (simp add: psubset_card_mono)
    then have A1: "validateDag nodes = Cycle (peel adj ?r)" using v card by simp
    have A2: "?r \<noteq> []" using r ne by (metis DiffI empty_iff list.set(1) psubsetE subsetI)
    have "\<exists>d \<in> set ?r. d \<in> set (needs_of nodes x)" if "x \<in> set ?r" for x
    proof -
      have x: "x \<in> ids_of nodes" "x \<notin> set L" using that r by blast+
      then have "filter (\<lambda>d. d \<notin> set L) (needs_of nodes x) \<noteq> []"
        using inv by (fastforce simp: kahn_inv_def)
      then obtain e where e: "e \<in> set (needs_of nodes x)" "e \<notin> set L" by (auto simp: filter_empty_conv)
      then have "e \<in> ids_of nodes"
        using no_missing unfolding missing_in_None ids needs_of_iff by blast
      with e r show ?thesis by blast
    qed
    then have A5: "\<forall>x \<in> set ?r. \<exists>d \<in> set ?r. d \<in> set (needs_of nodes x)" by blast
    have A6: "\<forall>R. (\<forall>x \<in> R. \<exists>d \<in> R. d \<in> set (needs_of nodes x)) \<longrightarrow> R \<inter> ids_of nodes \<subseteq> set ?r"
      using ordered_not_waiting [OF L(1), of "needs_of nodes"] top r by blast
    have A3: "\<forall>x y. y \<in> set (adjacent adj x) \<longleftrightarrow> x \<in> set (needs_of nodes y)"
      using adjacent_iff [OF g] by blast
    have A4: "set ?r \<subseteq> ids_of nodes" using r by blast
    show thesis by (rule cycle [OF A1 A2 A3 A4 A5 A6])
  qed
qed

lemma self_reference_cyclic:
  assumes "n \<in> set nodes" "node_id n \<in> set (node_needs n)"
  shows "\<not> topological nodes L"
proof -
  have "(node_id n, node_id n) \<in> needs_edges nodes"
    using assms unfolding needs_edges_def needs_of_iff by blast
  then show ?thesis using topological_acyclic by blast
qed

lemma missing_unordered:
  assumes "missing_in (nodeIds nodes) nodes \<noteq> None"
  shows "\<not> topological nodes L"
proof
  assume t: "topological nodes L"
  from assms obtain n d where n: "n \<in> set nodes" "d \<in> set (node_needs n)" "d \<notin> ids_of nodes"
    unfolding missing_in_None by (auto simp: nodeIds_def ids_of_def)
  then obtain xs ys where "L = xs @ node_id n # ys" "d \<in> set xs" using t unfolding topological_def by blast
  then have "d \<in> set L" by simp
  with t n(3) show False by (simp add: topological_def)
qed

lemma stuck_unordered:
  assumes "r \<noteq> []" "set r \<subseteq> ids_of nodes" "\<forall>x \<in> set r. \<exists>d \<in> set r. d \<in> set (needs_of nodes x)"
  shows "\<not> topological nodes L"
  using topological_closed [of nodes L "set r"] assms by (metis inf.absorb1 set_empty)

lemma validate_total:
  assumes "distinct (map node_id nodes)"
  shows "(\<exists>L. validateDag nodes = Valid L \<and> topological nodes L) \<or>
    (\<forall>L. validateDag nodes \<noteq> Valid L) \<and> (\<forall>L. \<not> topological nodes L)"
proof (cases "find (\<lambda>n. node_id n \<in> set (node_needs n)) nodes")
  case (Some n)
  then have n: "n \<in> set nodes" "node_id n \<in> set (node_needs n)" by (auto simp: find_Some_iff)
  have "validateDag nodes = SelfReference (node_id n)" using Some n(1) by (auto simp: validateDag_def)
  with self_reference_cyclic [OF n] show ?thesis by simp
next
  case no_self: None
  show ?thesis
  proof (cases "missing_in (nodeIds nodes) nodes")
    case (Some p)
    then have "validateDag nodes = MissingDependency (fst p) (snd p)"
      using no_self by (auto simp: validateDag_def split: prod.split)
    with missing_unordered [of nodes] Some show ?thesis by simp
  next
    case None
    from validate_cases [OF assms no_self None] show ?thesis
    proof cases
      case (1 L)
      then show ?thesis by blast
    next
      case (2 adj r)
      with stuck_unordered [of r nodes] show ?thesis by simp
    qed
  qed
qed

text \<open>
  C5. The validation of jobs with distinct names is sound and complete: a returned order lists every
  job once and after all that it needs, and one is returned whenever such an order exists.
\<close>

theorem validateDag_correct:
  assumes "distinct (map node_id nodes)"
  shows "(\<forall>L. validateDag nodes = Valid L \<longrightarrow> topological nodes L) \<and>
    ((\<exists>L. validateDag nodes = Valid L) \<longleftrightarrow> (\<exists>L. topological nodes L))"
  using validate_total [OF assms] by auto

definition demo_dag :: "(string \<times> string list) list \<Rightarrow> dag_node list" where
  "demo_dag = map (\<lambda>(i, ns). \<lparr>node_id = i, node_needs = ns\<rparr>)"

lemma validateDag_correct_witness:
  "topological (demo_dag [(''test'', [''build'']), (''build'', []), (''ship'', [''test'', ''build''])])
     [''build'', ''test'', ''ship'']"
proof -
  let ?n = "demo_dag [(''test'', [''build'']), (''build'', []), (''ship'', [''test'', ''build''])]"
  have "validateDag ?n = Valid [''build'', ''test'', ''ship'']" by code_simp
  moreover have "distinct (map node_id ?n)" by (simp add: demo_dag_def)
  ultimately show ?thesis using validateDag_correct [of ?n] by blast
qed

text \<open>
  A reported cycle is not empty, every reported job needs a reported job and is needed by one,
  and every job that lies on a cycle is reported.
\<close>

theorem validateDag_cycle:
  assumes "distinct (map node_id nodes)" "validateDag nodes = Cycle ns"
  shows "ns \<noteq> [] \<and> set ns \<subseteq> ids_of nodes \<and>
    (\<forall>x \<in> set ns. (\<exists>d \<in> set ns. (d, x) \<in> needs_edges nodes) \<and> (\<exists>y \<in> set ns. (x, y) \<in> needs_edges nodes)) \<and>
    {x. (x, x) \<in> (needs_edges nodes)\<^sup>+} \<subseteq> set ns"
proof -
  let ?C = "{x. (x, x) \<in> (needs_edges nodes)\<^sup>+}"
  have C: "\<exists>y \<in> ?C. (x, y) \<in> needs_edges nodes" "\<exists>d \<in> ?C. (d, x) \<in> needs_edges nodes" if "x \<in> ?C" for x
  proof -
    from that obtain y where "(x, y) \<in> needs_edges nodes" "(y, x) \<in> (needs_edges nodes)\<^sup>*" by (auto dest: tranclD)
    then show "\<exists>y \<in> ?C. (x, y) \<in> needs_edges nodes" by (meson mem_Collect_eq rtrancl_into_trancl1)
    from that obtain d where "(x, d) \<in> (needs_edges nodes)\<^sup>*" "(d, x) \<in> needs_edges nodes" by (auto dest: tranclD2)
    then show "\<exists>d \<in> ?C. (d, x) \<in> needs_edges nodes" by (meson mem_Collect_eq rtrancl_into_trancl2)
  qed
  have no_self: "find (\<lambda>n. node_id n \<in> set (node_needs n)) nodes = None"
    and no_missing: "missing_in (nodeIds nodes) nodes = None"
    using assms(2) by (auto simp: validateDag_def split: if_splits option.splits prod.splits)
  from validate_cases [OF assms(1) no_self no_missing] show ?thesis
  proof cases
    case (1 L)
    with assms(2) show ?thesis by simp
  next
    case (2 adj r)
    have ns: "ns = peel adj r" using 2(1) assms(2) by simp
    have edge: "(x, y) \<in> needs_edges nodes \<longleftrightarrow> y \<in> set (adjacent adj x)" for x y
      using 2(3) by (simp add: needs_edges_def)
    have pred: "\<forall>x \<in> set r. \<exists>d \<in> set r. x \<in> set (adjacent adj d)" using 2(3,5) by blast
    have "?C \<subseteq> ids_of nodes"
      using needs_of_ids [of nodes] by (fastforce simp: needs_edges_def dest: tranclD2)
    moreover have "\<forall>x \<in> ?C. \<exists>d \<in> ?C. d \<in> set (needs_of nodes x)"
      using C(2) by (simp add: needs_edges_def)
    ultimately have "?C \<subseteq> set r" using 2(6) by blast
    with C(1) have "?C \<subseteq> set (peel adj r)" by (intro peel_facts(3)) (auto simp: edge)
    with peel_facts(1,2) [of adj r] peel_facts(4) [OF pred 2(2)] 2(4) show ?thesis
      unfolding ns edge by blast
  qed
qed


lemma validateDag_cycle_witness:
  "validateDag (demo_dag [(''a'', [''b'']), (''b'', [''a'']), (''c'', [''b''])]) = Cycle [''a'', ''b''] \<and>
   {x. (x, x) \<in> (needs_edges (demo_dag [(''a'', [''b'']), (''b'', [''a'']), (''c'', [''b''])]))\<^sup>+} \<subseteq> {''a'', ''b''}"
proof -
  let ?n = "demo_dag [(''a'', [''b'']), (''b'', [''a'']), (''c'', [''b''])]"
  have v: "validateDag ?n = Cycle [''a'', ''b'']" by code_simp
  have "distinct (map node_id ?n)" by (simp add: demo_dag_def)
  from validateDag_cycle [OF this v] v show ?thesis by simp
qed

text \<open>
  The report is not exact: a job between two cycles, which lies on none, is reported too.
\<close>

theorem cycle_report_includes_between:
  "let nodes = demo_dag [(''a'', [''b'']), (''b'', [''a'']), (''c'', [''b'']), (''d'', [''c'', ''e'']), (''e'', [''d''])]
   in validateDag nodes = Cycle [''a'', ''b'', ''c'', ''d'', ''e''] \<and> (''c'', ''c'') \<notin> (needs_edges nodes)\<^sup>+"
proof -
  let ?n = "demo_dag [(''a'', [''b'']), (''b'', [''a'']), (''c'', [''b'']), (''d'', [''c'', ''e'']), (''e'', [''d''])]"
  have v: "validateDag ?n = Cycle [''a'', ''b'', ''c'', ''d'', ''e'']" by code_simp
  have edge: "(x, y) \<in> needs_edges ?n \<Longrightarrow> x \<in> {''c'', ''d'', ''e''} \<Longrightarrow> y \<in> {''d'', ''e''}" for x y
    by (auto simp: needs_edges_def needs_of_iff demo_dag_def)
  have "y \<in> {''d'', ''e''}" if "(''c'', y) \<in> (needs_edges ?n)\<^sup>+" for y
    using that by (induction rule: trancl_induct) (auto dest: edge)
  then have "(''c'', ''c'') \<notin> (needs_edges ?n)\<^sup>+" by blast
  with v show ?thesis by (simp add: Let_def)
qed

end
