(* ===== verification/Labels.thy ===== *)
theory Labels
  imports Js_Strings
begin

text \<open>
  Runner labels and their matchers: \<open>packages/engine/src/labels-canonical.ts\<close>,
  \<open>labels-match.ts\<close>, \<open>labels/compile.ts\<close> and \<open>regex-flags.ts\<close>.

  The engine of regular expressions belongs to the host: it is the parameter \<open>rx\<close>, whether
  the expression with a source and flags finds a match in a string. The cache of compiled
  expressions is transparent, since \<open>g\<close> and \<open>y\<close> are stripped before compiling. The glob
  library and the check for catastrophic patterns are parameters too.
\<close>

section \<open>Canonical labels\<close>

definition canonicalizeLabel :: "string \<Rightarrow> string" where
  "canonicalizeLabel raw = toLowerCase (trim raw)"

definition canonicalizeLabels :: "string list \<Rightarrow> string list" where
  "canonicalizeLabels raw = map canonicalizeLabel raw"

definition canonicalizeLabelSet :: "string list \<Rightarrow> string list" where
  "canonicalizeLabelSet raw = js_set (map canonicalizeLabel raw)"

lemma canonicalizeLabel_idem [simp]: "canonicalizeLabel (canonicalizeLabel s) = canonicalizeLabel s"
  by (simp add: canonicalizeLabel_def trim_lower)

lemma canonicalizeLabels_idem [simp]:
  "canonicalizeLabels (canonicalizeLabels ls) = canonicalizeLabels ls"
  by (simp add: canonicalizeLabels_def)

section \<open>Flags\<close>

definition stripStatefulRegexFlags :: "string option \<Rightarrow> string" where
  "stripStatefulRegexFlags flags =
     filter (\<lambda>c. c \<noteq> CHR ''g'' \<and> c \<noteq> CHR ''y'') (case flags of None \<Rightarrow> [] | Some f \<Rightarrow> f)"

definition normalizeRegexFlags :: "string option \<Rightarrow> string option" where
  "normalizeRegexFlags flags =
     (let f = stripStatefulRegexFlags flags in if f = [] then None else Some f)"

section \<open>Matchers\<close>

datatype label_matcher = Exact string | Regex string string

type_synonym regex_engine = "string \<Rightarrow> string \<Rightarrow> string \<Rightarrow> bool"

definition compileRegexMatcher :: "regex_engine \<Rightarrow> string \<Rightarrow> string \<Rightarrow> string \<Rightarrow> bool" where
  "compileRegexMatcher rx source flags = rx source (stripStatefulRegexFlags (Some flags))"

fun matcherMatches :: "regex_engine \<Rightarrow> label_matcher \<Rightarrow> string \<Rightarrow> bool" where
  "matcherMatches rx (Exact v) label \<longleftrightarrow> label = v"
| "matcherMatches rx (Regex source flags) label \<longleftrightarrow> compileRegexMatcher rx source flags label"

fun canonicalizeMatcher :: "label_matcher \<Rightarrow> label_matcher" where
  "canonicalizeMatcher (Exact v) = Exact (canonicalizeLabel v)"
| "canonicalizeMatcher (Regex source flags) =
     (let f = stripStatefulRegexFlags (Some flags)
      in Regex source (if CHR ''i'' \<in> set f then f else f @ ''i''))"

fun matcherSatisfiedBy :: "regex_engine \<Rightarrow> label_matcher \<Rightarrow> string set \<Rightarrow> bool" where
  "matcherSatisfiedBy rx (Exact v) labels \<longleftrightarrow> v \<in> labels"
| "matcherSatisfiedBy rx (Regex source flags) labels \<longleftrightarrow>
     (\<exists>label \<in> labels. compileRegexMatcher rx source flags label)"

record host_target_value =
  tv_include :: "label_matcher list"
  tv_exclude :: "label_matcher list"

definition hostSatisfiesTarget :: "regex_engine \<Rightarrow> string set \<Rightarrow> host_target_value list \<Rightarrow> bool" where
  "hostSatisfiesTarget rx labels vals \<longleftrightarrow>
     (\<forall>v \<in> set vals.
        (\<forall>m \<in> set (tv_include v). matcherSatisfiedBy rx (canonicalizeMatcher m) labels) \<and>
        \<not> (\<exists>m \<in> set (tv_exclude v). matcherSatisfiedBy rx (canonicalizeMatcher m) labels))"

text \<open>
  A matcher of a lock file may be a plain string (a lock of an older compiler), which has no
  kind: partitioning raises then.
\<close>

datatype lock_matcher = Kinded label_matcher | Unkinded js

fun partitionMatchers :: "lock_matcher list \<Rightarrow> js + string list \<times> label_matcher list" where
  "partitionMatchers [] = Inr ([], [])"
| "partitionMatchers (Unkinded v # ms) = Inl v"
| "partitionMatchers (Kinded (Exact v) # ms) =
     (case partitionMatchers ms of Inl e \<Rightarrow> Inl e | Inr (ex, re) \<Rightarrow> Inr (canonicalizeLabel v # ex, re))"
| "partitionMatchers (Kinded (Regex s f) # ms) =
     (case partitionMatchers ms of
        Inl e \<Rightarrow> Inl e
      | Inr (ex, re) \<Rightarrow> Inr (ex, canonicalizeMatcher (Regex s f) # re))"

fun formatLabelMatcher :: "label_matcher \<Rightarrow> string" where
  "formatLabelMatcher (Exact v) = v"
| "formatLabelMatcher (Regex source flags) = ''/'' @ source @ ''/'' @ flags"

definition formatLabelMatchers :: "label_matcher list \<Rightarrow> string \<Rightarrow> string" where
  "formatLabelMatchers ms sep = join sep (map formatLabelMatcher ms)"

section \<open>Author selectors\<close>

text \<open>
  What an author writes. \<open>glob\<close> is what the glob library answers on a string: \<open>None\<close> for no
  glob, \<open>Some None\<close> for an invalid one, else a source and flags; \<open>safe\<close> is the check for
  catastrophic patterns.
\<close>

datatype selector_el = SelString string | SelRegExp string string

datatype 's one_or_many = One 's | Many "'s list"

datatype compile_error = UnsafeRegex string string string | InvalidGlob string string

record glob_env =
  glob :: "string \<Rightarrow> (string \<times> string) option option"
  safe :: "string \<Rightarrow> string \<Rightarrow> bool"

definition checked_regex :: "glob_env \<Rightarrow> string \<Rightarrow> string \<Rightarrow> string \<Rightarrow> compile_error + label_matcher" where
  "checked_regex env source fl ctx =
     (let flags = stripStatefulRegexFlags (Some fl)
      in if safe env source flags then Inr (Regex source flags) else Inl (UnsafeRegex source flags ctx))"

fun toLabelMatcher :: "glob_env \<Rightarrow> selector_el \<Rightarrow> string \<Rightarrow> compile_error + label_matcher" where
  "toLabelMatcher env (SelRegExp source fl) ctx = checked_regex env source fl ctx"
| "toLabelMatcher env (SelString el) ctx =
     (case glob env el of
        None \<Rightarrow> Inr (Exact el)
      | Some None \<Rightarrow> Inl (InvalidGlob ctx el)
      | Some (Some (source, fl)) \<Rightarrow> checked_regex env source fl ctx)"

fun toLabelMatchers :: "glob_env \<Rightarrow> selector_el list \<Rightarrow> string \<Rightarrow> compile_error + label_matcher list" where
  "toLabelMatchers env [] ctx = Inr []"
| "toLabelMatchers env (el # els) ctx =
     (case toLabelMatcher env el ctx of
        Inl e \<Rightarrow> Inl e
      | Inr m \<Rightarrow> (case toLabelMatchers env els ctx of Inl e \<Rightarrow> Inl e | Inr ms \<Rightarrow> Inr (m # ms)))"

fun asArray :: "'s one_or_many \<Rightarrow> 's list" where
  "asArray (One v) = [v]"
| "asArray (Many vs) = vs"

datatype runs_on_pick = PickDeterministic | PickAny

datatype runs_on_input =
    RunsOn "selector_el one_or_many"
  | RunsOnSelector "selector_el one_or_many" "selector_el one_or_many option" "runs_on_pick option"

text \<open>An empty string is a falsy \<open>exclude\<close>.\<close>

definition exclude_list :: "selector_el one_or_many option \<Rightarrow> selector_el list" where
  "exclude_list ex = (case ex of None \<Rightarrow> [] | Some v \<Rightarrow> if v = One (SelString []) then [] else asArray v)"

fun normalizeRunsOnToMatchers ::
  "glob_env \<Rightarrow> runs_on_input \<Rightarrow> string \<Rightarrow> compile_error + label_matcher list \<times> label_matcher list" where
  "normalizeRunsOnToMatchers env (RunsOn sel) ctx =
     (case toLabelMatchers env (asArray sel) ctx of Inl e \<Rightarrow> Inl e | Inr ms \<Rightarrow> Inr (ms, []))"
| "normalizeRunsOnToMatchers env (RunsOnSelector labels ex pick) ctx =
     (case toLabelMatchers env (asArray labels) ctx of
        Inl e \<Rightarrow> Inl e
      | Inr incl \<Rightarrow>
          (case toLabelMatchers env (exclude_list ex) ctx of
             Inl e \<Rightarrow> Inl e | Inr excl \<Rightarrow> Inr (incl, excl)))"

fun runsOnPickFromInput :: "runs_on_input \<Rightarrow> runs_on_pick" where
  "runsOnPickFromInput (RunsOn sel) = PickDeterministic"
| "runsOnPickFromInput (RunsOnSelector labels ex pick) =
     (case pick of None \<Rightarrow> PickDeterministic | Some p \<Rightarrow> p)"

datatype runs_on_all_input =
    AllOne selector_el
  | AllList "selector_el list"
  | AllGroups "selector_el list list" "selector_el list option"

fun split_entries ::
  "glob_env \<Rightarrow> selector_el list \<Rightarrow> string \<Rightarrow> compile_error + label_matcher list \<times> label_matcher list" where
  "split_entries env [] ctx = Inr ([], [])"
| "split_entries env (el # els) ctx =
     (let negated = (case el of SelString (c # s) \<Rightarrow> if c = CHR ''!'' then Some s else None | _ \<Rightarrow> None)
      in case toLabelMatcher env (case negated of Some s \<Rightarrow> SelString s | None \<Rightarrow> el) ctx of
           Inl e \<Rightarrow> Inl e
         | Inr m \<Rightarrow>
             (case split_entries env els ctx of
                Inl e \<Rightarrow> Inl e
              | Inr (incl, excl) \<Rightarrow>
                  Inr (if negated = None then (m # incl, excl) else (incl, m # excl))))"

fun toLabelGroups :: "glob_env \<Rightarrow> selector_el list list \<Rightarrow> string \<Rightarrow> compile_error + label_matcher list list" where
  "toLabelGroups env [] ctx = Inr []"
| "toLabelGroups env (g # gs) ctx =
     (case toLabelMatchers env g ctx of
        Inl e \<Rightarrow> Inl e
      | Inr ms \<Rightarrow> (case toLabelGroups env gs ctx of Inl e \<Rightarrow> Inl e | Inr r \<Rightarrow> Inr (ms # r)))"

fun normalizeRunsOnAllToMatchers ::
  "glob_env \<Rightarrow> runs_on_all_input \<Rightarrow> string \<Rightarrow> compile_error + label_matcher list list \<times> label_matcher list" where
  "normalizeRunsOnAllToMatchers env (AllOne el) ctx =
     (case toLabelMatcher env el ctx of Inl e \<Rightarrow> Inl e | Inr m \<Rightarrow> Inr ([[m]], []))"
| "normalizeRunsOnAllToMatchers env (AllList els) ctx =
     (case split_entries env els ctx of
        Inl e \<Rightarrow> Inl e
      | Inr (incl, excl) \<Rightarrow> Inr (if incl = [] then [] else [incl], excl))"
| "normalizeRunsOnAllToMatchers env (AllGroups gs ex) ctx =
     (case toLabelGroups env gs ctx of
        Inl e \<Rightarrow> Inl e
      | Inr groups \<Rightarrow>
          (case toLabelMatchers env (case ex of None \<Rightarrow> [] | Some els \<Rightarrow> els) ctx of
             Inl e \<Rightarrow> Inl e | Inr excl \<Rightarrow> Inr (groups, excl)))"

fun assertMatchersSafe :: "glob_env \<Rightarrow> label_matcher list \<Rightarrow> string \<Rightarrow> compile_error option" where
  "assertMatchersSafe env [] ctx = None"
| "assertMatchersSafe env (Exact v # ms) ctx = assertMatchersSafe env ms ctx"
| "assertMatchersSafe env (Regex source flags # ms) ctx =
     (if safe env source flags then assertMatchersSafe env ms ctx else Some (UnsafeRegex source flags ctx))"

section \<open>Folding\<close>

lemma strip_flags_idem [simp]:
  "stripStatefulRegexFlags (Some (stripStatefulRegexFlags f)) = stripStatefulRegexFlags f"
  by (simp add: stripStatefulRegexFlags_def)

lemma canonicalizeMatcher_idem [simp]: "canonicalizeMatcher (canonicalizeMatcher m) = canonicalizeMatcher m"
proof (cases m)
  case (Regex s f)
  have "stripStatefulRegexFlags (Some (stripStatefulRegexFlags (Some f) @ ''i'')) = stripStatefulRegexFlags (Some f) @ ''i''"
    by (simp add: stripStatefulRegexFlags_def)
  with Regex show ?thesis by (simp add: Let_def)
qed simp

text \<open>What a compiled selector may contain: nothing that the check refuses, and no stateful flag.\<close>

lemma checked_regex_safe:
  "checked_regex env s f ctx = Inr m \<Longrightarrow> assertMatchersSafe env [m] ctx' = None \<and> (\<forall>c \<in> {CHR ''g'', CHR ''y''}.
     \<forall>s' f'. m = Regex s' f' \<longrightarrow> c \<notin> set f')"
  by (auto simp: checked_regex_def Let_def stripStatefulRegexFlags_def split: if_splits)

lemma assertMatchersSafe_append:
  "assertMatchersSafe env (xs @ ys) ctx = None \<longleftrightarrow>
     assertMatchersSafe env xs ctx = None \<and> assertMatchersSafe env ys ctx = None"
  by (induction env xs ctx rule: assertMatchersSafe.induct) auto

lemma toLabelMatcher_safe:
  "toLabelMatcher env el ctx = Inr m \<Longrightarrow> assertMatchersSafe env [m] ctx' = None"
  by (cases el) (auto split: option.splits dest: checked_regex_safe)

lemma toLabelMatchers_safe:
  "toLabelMatchers env els ctx = Inr ms \<Longrightarrow> assertMatchersSafe env ms ctx' = None \<and> length ms = length els"
proof (induction els arbitrary: ms)
  case (Cons el els)
  then obtain m r where m: "toLabelMatcher env el ctx = Inr m" "toLabelMatchers env els ctx = Inr r" "ms = m # r"
    by (auto split: sum.splits)
  with toLabelMatcher_safe [OF m(1), of ctx'] Cons.IH [OF m(2)]
    assertMatchersSafe_append [of env "[m]" r ctx'] show ?case by simp
qed simp

end
