(* ===== verification/JobQueue.thy ===== *)
theory JobQueue
  imports Labels
begin

text \<open>
  The ephemeral job queue of a worker: \<open>packages/orchestrator/src/worker/in-memory-job-queue.ts\<close>.
  A job keeps the fields that the queue reads; everything else of its input travels as the
  payload. Methods that do nothing or answer a constant are left out.
\<close>

section \<open>State\<close>

datatype queue_status = QPending | QDispatched

record 'p queued_job =
  qj_id :: job_id
  qj_runId :: run_id
  qj_runsOnLabels :: "string list"
  qj_excludeLabels :: "string list"
  qj_runsOnPatterns :: "label_matcher list"
  qj_excludePatterns :: "label_matcher list"
  qj_pinnedAgentId :: "agent_id option"
  qj_status :: queue_status
  qj_payload :: 'p

record 'p queue_input =
  in_jobId :: "job_id option"
  in_runId :: run_id
  in_runsOnLabels :: "string list"
  in_excludeLabels :: "string list option"
  in_runsOnPatterns :: "label_matcher list option"
  in_excludePatterns :: "label_matcher list option"
  in_pinnedAgentId :: "agent_id option"
  in_payload :: 'p

record 'p mem_queue =
  mq_jobs :: "(job_id \<times> 'p queued_job) list"
  mq_dispatched :: "(job_id \<times> 'p queued_job) list"
  mq_attempts :: "(job_id \<times> nat) list"
  mq_stopped :: "job_id list"

definition empty_queue :: "'p mem_queue" where
  "empty_queue = \<lparr>mq_jobs = [], mq_dispatched = [], mq_attempts = [], mq_stopped = []\<rparr>"

definition orElse :: "'a option \<Rightarrow> 'a \<Rightarrow> 'a" where
  "orElse v d = (case v of None \<Rightarrow> d | Some x \<Rightarrow> x)"

section \<open>The gate\<close>

definition patterns_ok :: "regex_engine \<Rightarrow> 'p queued_job \<Rightarrow> string set \<Rightarrow> bool" where
  "patterns_ok rx job labels \<longleftrightarrow>
     (\<forall>p \<in> set (qj_runsOnPatterns job). matcherSatisfiedBy rx p labels) \<and>
     \<not> (\<exists>p \<in> set (qj_excludePatterns job). matcherSatisfiedBy rx p labels)"

definition matchesGate :: "regex_engine \<Rightarrow> 'p queued_job \<Rightarrow> string list \<Rightarrow> string list \<Rightarrow> bool" where
  "matchesGate rx job agentLabels mandatory =
     (let labels = canonicalizeLabels agentLabels; gate = canonicalizeLabels mandatory
      in if \<not> (qj_runsOnLabels job = [] \<or> (\<forall>l \<in> set (qj_runsOnLabels job). l \<in> set labels)) then False
         else if \<exists>l \<in> set (qj_excludeLabels job). l \<in> set labels then False
         else if gate \<noteq> [] \<and> \<not> (\<forall>m \<in> set gate. m \<in> set (qj_runsOnLabels job)) then False
         else patterns_ok rx job (set labels))"

section \<open>Operations\<close>

definition stop_run :: "run_id \<Rightarrow> job_id option \<Rightarrow> 'p mem_queue \<Rightarrow> (job_id list \<times> job_id list) \<times> 'p mem_queue" where
  "stop_run run jobId q =
     (let hit = (\<lambda>j. qj_runId j = run \<and> (jobId = None \<or> Some (qj_id j) = jobId));
          pending = map qj_id (filter hit (map snd (mq_jobs q)));
          dispatched = map qj_id (filter hit (map snd (mq_dispatched q)))
      in ((pending, dispatched), q\<lparr>mq_stopped := fold js_add (pending @ dispatched) (mq_stopped q)\<rparr>))"

definition isPending :: "job_id \<Rightarrow> 'p mem_queue \<Rightarrow> bool" where
  "isPending j q \<longleftrightarrow>
     (case map_of (mq_jobs q) j of None \<Rightarrow> False | Some job \<Rightarrow> qj_status job = QPending) \<and> j \<notin> set (mq_stopped q)"

definition input_id :: "job_id \<Rightarrow> 'p queue_input \<Rightarrow> job_id" where
  "input_id uuid i = orElse (in_jobId i) uuid"

definition enqueue_job :: "job_id \<Rightarrow> 'p queue_input \<Rightarrow> 'p mem_queue \<Rightarrow> job_id \<times> 'p mem_queue" where
  "enqueue_job uuid i q =
     (let j = input_id uuid i
      in (j, q\<lparr>mq_jobs := amap_set j
            \<lparr>qj_id = j, qj_runId = in_runId i,
             qj_runsOnLabels = canonicalizeLabels (in_runsOnLabels i),
             qj_excludeLabels = canonicalizeLabels (orElse (in_excludeLabels i) []),
             qj_runsOnPatterns = map canonicalizeMatcher (orElse (in_runsOnPatterns i) []),
             qj_excludePatterns = map canonicalizeMatcher (orElse (in_excludePatterns i) []),
             qj_pinnedAgentId = in_pinnedAgentId i, qj_status = QPending, qj_payload = in_payload i\<rparr>
            (mq_jobs q)\<rparr>))"

definition insertDispatched :: "job_id \<Rightarrow> 'p queue_input \<Rightarrow> job_id \<times> bool" where
  "insertDispatched uuid i = (input_id uuid i, True)"

text \<open>Handing a job out: it moves from \<open>jobs\<close> to \<open>dispatched\<close>.\<close>

definition hand_out :: "job_id \<Rightarrow> 'p queued_job \<Rightarrow> 'p mem_queue \<Rightarrow> 'p queued_job option \<times> 'p mem_queue" where
  "hand_out j job q =
     (Some (job\<lparr>qj_status := QDispatched\<rparr>),
      q\<lparr>mq_jobs := amap_delete j (mq_jobs q),
        mq_dispatched := amap_set j (job\<lparr>qj_status := QDispatched\<rparr>) (mq_dispatched q)\<rparr>)"

definition claimable :: "'p mem_queue \<Rightarrow> job_id \<times> 'p queued_job \<Rightarrow> bool" where
  "claimable q e \<longleftrightarrow> qj_status (snd e) = QPending \<and> fst e \<notin> set (mq_stopped q)"

definition hand_out_first ::
  "(job_id \<times> 'p queued_job \<Rightarrow> bool) \<Rightarrow> 'p mem_queue \<Rightarrow> 'p queued_job option \<times> 'p mem_queue" where
  "hand_out_first P q =
     (case find (\<lambda>e. claimable q e \<and> P e) (mq_jobs q) of
        None \<Rightarrow> (None, q)
      | Some (j, job) \<Rightarrow> hand_out j job q)"

definition dequeueForLabels ::
  "regex_engine \<Rightarrow> string list \<Rightarrow> string list \<Rightarrow> ('p queued_job \<Rightarrow> bool) option \<Rightarrow> 'p mem_queue \<Rightarrow>
   'p queued_job option \<times> 'p mem_queue" where
  "dequeueForLabels rx agentLabels mandatory canServe q =
     hand_out_first (\<lambda>e. matchesGate rx (snd e) agentLabels mandatory \<and>
        (case canServe of None \<Rightarrow> True | Some f \<Rightarrow> f (snd e))) q"

definition dequeueById ::
  "regex_engine \<Rightarrow> job_id \<Rightarrow> string list \<Rightarrow> string list \<Rightarrow> 'p mem_queue \<Rightarrow> 'p queued_job option \<times> 'p mem_queue" where
  "dequeueById rx j agentLabels mandatory q =
     (case map_of (mq_jobs q) j of
        None \<Rightarrow> (None, q)
      | Some job \<Rightarrow>
          if j \<in> set (mq_stopped q) then (None, q)
          else if qj_status job \<noteq> QPending then (None, q)
          else if \<not> matchesGate rx job agentLabels mandatory then (None, q)
          else hand_out j job q)"

definition dequeueByPinnedAgent ::
  "regex_engine \<Rightarrow> agent_id \<Rightarrow> string list option \<Rightarrow> 'p mem_queue \<Rightarrow> 'p queued_job option \<times> 'p mem_queue" where
  "dequeueByPinnedAgent rx agent agentLabels q =
     hand_out_first (\<lambda>e. qj_pinnedAgentId (snd e) = Some agent \<and>
        (case agentLabels of None \<Rightarrow> True
         | Some ls \<Rightarrow> patterns_ok rx (snd e) (set (canonicalizeLabelSet ls)))) q"

definition getPendingJobs :: "'p mem_queue \<Rightarrow> 'p queued_job list" where
  "getPendingJobs q =
     filter (\<lambda>j. qj_status j = QPending \<and> qj_id j \<notin> set (mq_stopped q)) (map snd (mq_jobs q))"

definition getDepth :: "'p mem_queue \<Rightarrow> nat" where
  "getDepth q =
     length (filter (\<lambda>j. qj_status j = QPending \<and> qj_id j \<notin> set (mq_stopped q)) (map snd (mq_jobs q)))"

definition listPending :: "int \<Rightarrow> 'p mem_queue \<Rightarrow> 'p queued_job list" where
  "listPending limit q = take (nat (max 0 limit)) (getPendingJobs q)"

definition markFailed :: "job_id \<Rightarrow> 'p mem_queue \<Rightarrow> 'p mem_queue" where
  "markFailed j q = q\<lparr>mq_dispatched := amap_delete j (mq_dispatched q), mq_jobs := amap_delete j (mq_jobs q),
     mq_attempts := amap_delete j (mq_attempts q), mq_stopped := removeAll j (mq_stopped q)\<rparr>"

definition markCompleted_job :: "job_id \<Rightarrow> 'p mem_queue \<Rightarrow> 'p mem_queue" where
  "markCompleted_job j q = q\<lparr>mq_dispatched := amap_delete j (mq_dispatched q),
     mq_attempts := amap_delete j (mq_attempts q), mq_stopped := removeAll j (mq_stopped q)\<rparr>"

definition requeue :: "job_id \<Rightarrow> bool option \<Rightarrow> 'p mem_queue \<Rightarrow> nat option \<times> 'p mem_queue" where
  "requeue j countAttempt q =
     (case map_of (mq_dispatched q) j of
        None \<Rightarrow> (None, q)
      | Some job \<Rightarrow>
          if j \<in> set (mq_stopped q) then (None, markFailed j q)
          else
            let count = orElse (map_of (mq_attempts q) j) 0 + (if countAttempt = Some False then 0 else 1)
            in (Some count, q\<lparr>mq_dispatched := amap_delete j (mq_dispatched q),
                  mq_jobs := amap_set j (job\<lparr>qj_status := QPending\<rparr>) (mq_jobs q),
                  mq_attempts := amap_set j count (mq_attempts q)\<rparr>))"

definition getFullJobById :: "job_id \<Rightarrow> 'p mem_queue \<Rightarrow> 'p queued_job option" where
  "getFullJobById j q =
     (case map_of (mq_jobs q) j of Some job \<Rightarrow> Some job | None \<Rightarrow> map_of (mq_dispatched q) j)"

section \<open>The queue stays well formed\<close>

text \<open>
  Both maps list a job under its own id and in the status of the map, no job is in both, and
  only a job in one of them carries a stop mark.
\<close>

definition lists_own :: "queue_status \<Rightarrow> (job_id \<times> 'p queued_job) list \<Rightarrow> bool" where
  "lists_own st m \<longleftrightarrow> distinct (amap_keys m) \<and>
     (\<forall>j job. map_of m j = Some job \<longrightarrow> qj_id job = j \<and> qj_status job = st)"

definition queue_inv :: "'p mem_queue \<Rightarrow> bool" where
  "queue_inv q \<longleftrightarrow> lists_own QPending (mq_jobs q) \<and> lists_own QDispatched (mq_dispatched q) \<and>
     fst ` set (mq_jobs q) \<inter> fst ` set (mq_dispatched q) = {} \<and>
     set (mq_stopped q) \<subseteq> fst ` set (mq_jobs q) \<union> fst ` set (mq_dispatched q)"

lemma lists_own_set [intro]:
  "lists_own st m \<Longrightarrow> qj_id job = j \<Longrightarrow> qj_status job = st \<Longrightarrow> lists_own st (amap_set j job m)"
  by (simp add: lists_own_def)

lemma lists_own_delete [intro]: "lists_own st m \<Longrightarrow> lists_own st (amap_delete j m)"
  by (simp add: lists_own_def)

lemma lists_ownD: "lists_own st m \<Longrightarrow> map_of m j = Some job \<Longrightarrow> qj_id job = j \<and> qj_status job = st"
  by (simp add: lists_own_def)

lemma map_of_key: "map_of m j = Some v \<Longrightarrow> j \<in> fst ` set m"
  by (metis domI dom_map_of_conv_image_fst)

lemma queue_inv_empty: "queue_inv empty_queue"
  by (simp add: queue_inv_def empty_queue_def lists_own_def)

lemma hand_out_inv:
  assumes "queue_inv q" "map_of (mq_jobs q) j = Some job"
  shows "queue_inv (snd (hand_out j job q))"
proof -
  have "qj_id job = j" using assms by (auto simp: queue_inv_def dest: lists_ownD)
  with assms(1) map_of_key [OF assms(2)] show ?thesis
    unfolding queue_inv_def hand_out_def by auto
qed

lemma hand_out_first_cases:
  obtains "hand_out_first P q = (None, q)" "\<forall>e \<in> set (mq_jobs q). \<not> (claimable q e \<and> P e)"
  | xs j job ys where "hand_out_first P q = hand_out j job q" "mq_jobs q = xs @ (j, job) # ys"
      "claimable q (j, job)" "P (j, job)" "\<forall>e \<in> set xs. \<not> (claimable q e \<and> P e)"
proof (cases "find (\<lambda>e. claimable q e \<and> P e) (mq_jobs q)")
  case None
  then have "\<forall>e \<in> set (mq_jobs q). \<not> (claimable q e \<and> P e)" by (simp only: find_None_iff) blast
  moreover have "hand_out_first P q = (None, q)" using None by (simp add: hand_out_first_def)
  ultimately show thesis by (intro that(1))
next
  case (Some e)
  then obtain i where i: "i < length (mq_jobs q)" "claimable q (mq_jobs q ! i) \<and> P (mq_jobs q ! i)"
    "e = mq_jobs q ! i" "\<forall>j < i. \<not> (claimable q (mq_jobs q ! j) \<and> P (mq_jobs q ! j))"
    by (auto simp: find_Some_iff)
  obtain j job where e: "e = (j, job)" by (cases e)
  have n: "mq_jobs q ! i = (j, job)" using i(3) e by simp
  have c: "mq_jobs q = take i (mq_jobs q) @ (j, job) # drop (Suc i) (mq_jobs q)"
    using id_take_nth_drop [OF i(1)] by (simp only: n)
  have f: "\<forall>e \<in> set (take i (mq_jobs q)). \<not> (claimable q e \<and> P e)"
  proof
    fix e assume "e \<in> set (take i (mq_jobs q))"
    then obtain k where "k < i" "e = mq_jobs q ! k" by (auto simp: in_set_conv_nth)
    with i(4) show "\<not> (claimable q e \<and> P e)" by blast
  qed
  have h: "hand_out_first P q = hand_out j job q" using Some by (simp add: hand_out_first_def e)
  show thesis by (rule that(2) [OF h c _ _ f]) (use i(2) n in simp_all)
qed

lemma hand_out_first_inv:
  assumes "queue_inv q"
  shows "queue_inv (snd (hand_out_first P q))"
proof (cases rule: hand_out_first_cases [of P q])
  case 1
  with assms show ?thesis by simp
next
  case (2 xs j job ys)
  have "map_of (mq_jobs q) j = Some job"
    by (rule map_of_eq_Some_distinct [THEN iffD2]) (use assms 2(2) in \<open>simp_all add: queue_inv_def lists_own_def\<close>)
  with hand_out_inv [OF assms this] 2(1) show ?thesis by simp
qed

lemma dequeue_inv:
  assumes "queue_inv q"
  shows "queue_inv (snd (dequeueForLabels rx al ml cs q))"
    "queue_inv (snd (dequeueByPinnedAgent rx a als q))"
    "queue_inv (snd (dequeueById rx j al ml q))"
  using assms
  by (simp_all add: dequeueForLabels_def dequeueByPinnedAgent_def dequeueById_def hand_out_first_inv
      hand_out_inv split: option.split)

lemma enqueue_inv:
  assumes "queue_inv q" "input_id uuid i \<notin> fst ` set (mq_dispatched q)"
  shows "queue_inv (snd (enqueue_job uuid i q))"
  using assms unfolding enqueue_job_def Let_def queue_inv_def by auto

lemma stop_ids:
  assumes "lists_own st m"
  shows "set (map qj_id (filter hit (map snd m))) \<subseteq> fst ` set m"
proof -
  have "qj_id job \<in> fst ` set m" if "(j, job) \<in> set m" for j job
    using that assms by (force simp: lists_own_def)
  then show ?thesis by auto
qed

lemma stop_inv:
  assumes "queue_inv q"
  shows "queue_inv (snd (stop_run run jobId q))"
proof -
  let ?hit = "\<lambda>j. qj_runId j = run \<and> (jobId = None \<or> Some (qj_id j) = jobId)"
  define A where "A = map qj_id (filter ?hit (map snd (mq_jobs q)))"
  define B where "B = map qj_id (filter ?hit (map snd (mq_dispatched q)))"
  have "set A \<subseteq> fst ` set (mq_jobs q)" "set B \<subseteq> fst ` set (mq_dispatched q)"
    unfolding A_def B_def using assms stop_ids unfolding queue_inv_def by blast+
  moreover have "snd (stop_run run jobId q) = q\<lparr>mq_stopped := fold js_add (A @ B) (mq_stopped q)\<rparr>"
    by (simp add: stop_run_def Let_def A_def B_def)
  ultimately show ?thesis using assms by (auto simp: queue_inv_def set_fold_js_add)
qed

lemma markFailed_inv: "queue_inv q \<Longrightarrow> queue_inv (markFailed j q)"
  unfolding markFailed_def queue_inv_def by auto

lemma markCompleted_inv: "queue_inv q \<Longrightarrow> queue_inv (markCompleted_job j q)"
  unfolding markCompleted_job_def queue_inv_def by auto

lemma requeue_inv:
  assumes "queue_inv q"
  shows "queue_inv (snd (requeue j ca q))"
proof (cases "map_of (mq_dispatched q) j")
  case None
  with assms show ?thesis by (simp add: requeue_def)
next
  case (Some job)
  show ?thesis
  proof (cases "j \<in> set (mq_stopped q)")
    case True
    with Some markFailed_inv [OF assms, of j] show ?thesis by (simp add: requeue_def)
  next
    case False
    have "qj_id job = j" using assms Some by (auto simp: queue_inv_def dest: lists_ownD)
    with Some False assms map_of_key [OF Some] show ?thesis
      unfolding queue_inv_def by (auto simp: requeue_def Let_def)
  qed
qed


text \<open>
  The operations of a worker in any order. A job id that the coordinator chose is enqueued
  only while no agent runs it, which is how the coordinator reroutes.
\<close>

inductive queue_step :: "regex_engine \<Rightarrow> 'p mem_queue \<Rightarrow> 'p mem_queue \<Rightarrow> bool"
  for rx :: regex_engine where
  qs_enqueue: "input_id uuid i \<notin> fst ` set (mq_dispatched q) \<Longrightarrow> queue_step rx q (snd (enqueue_job uuid i q))"
| qs_labels: "queue_step rx q (snd (dequeueForLabels rx al ml cs q))"
| qs_id: "queue_step rx q (snd (dequeueById rx j al ml q))"
| qs_pinned: "queue_step rx q (snd (dequeueByPinnedAgent rx a als q))"
| qs_requeue: "queue_step rx q (snd (requeue j ca q))"
| qs_failed: "queue_step rx q (markFailed j q)"
| qs_completed: "queue_step rx q (markCompleted_job j q)"
| qs_stop: "queue_step rx q (snd (stop_run run jobId q))"

interpretation job_queue: inductive_invariant "\<lambda>q. q = empty_queue" "queue_step rx" queue_inv
proof unfold_locales
  show "queue_inv q'" if "queue_inv q" "queue_step rx q q'" for q q' :: "'p mem_queue"
    using that(2,1) by (induction rule: queue_step.induct)
      (auto intro: enqueue_inv dequeue_inv requeue_inv markFailed_inv markCompleted_inv stop_inv)
qed (simp add: queue_inv_empty)


definition demo_input :: "job_id \<Rightarrow> string list \<Rightarrow> unit queue_input" where
  "demo_input j ls = \<lparr>in_jobId = Some j, in_runId = ''r'', in_runsOnLabels = ls, in_excludeLabels = None,
     in_runsOnPatterns = None, in_excludePatterns = None, in_pinnedAgentId = None, in_payload = ()\<rparr>"

definition no_regex :: regex_engine where
  "no_regex s f l = False"


section \<open>Claims\<close>

lemma matchesGate_iff:
  "matchesGate rx job al ml \<longleftrightarrow>
     set (qj_runsOnLabels job) \<subseteq> canonicalizeLabel ` set al \<and>
     set (qj_excludeLabels job) \<inter> canonicalizeLabel ` set al = {} \<and>
     canonicalizeLabel ` set ml \<subseteq> set (qj_runsOnLabels job) \<and>
     patterns_ok rx job (canonicalizeLabel ` set al)"
  by (auto simp: matchesGate_def Let_def canonicalizeLabels_def)

text \<open>
  A claim by labels hands out the first waiting job, in the order of arrival, that is not
  stopped, passes the gate and that the agent can serve: its labels are among the agent's, none
  it excludes is, the mandatory labels are among its labels and its patterns agree. When there
  is none the queue does not change, and the answer is the same however the agent spells the
  case of its labels.
\<close>

theorem dequeueForLabels_first_eligible:
  "let ok = (\<lambda>(j, job). qj_status job = QPending \<and> j \<notin> set (mq_stopped q) \<and>
         set (qj_runsOnLabels job) \<subseteq> canonicalizeLabel ` set al \<and>
         set (qj_excludeLabels job) \<inter> canonicalizeLabel ` set al = {} \<and>
         canonicalizeLabel ` set ml \<subseteq> set (qj_runsOnLabels job) \<and>
         patterns_ok rx job (canonicalizeLabel ` set al) \<and>
         (case cs of None \<Rightarrow> True | Some f \<Rightarrow> f job))
   in (case filter ok (mq_jobs q) of
         [] \<Rightarrow> dequeueForLabels rx al ml cs q = (None, q)
       | (j, job) # _ \<Rightarrow> fst (dequeueForLabels rx al ml cs q) = Some (job\<lparr>qj_status := QDispatched\<rparr>) \<and>
           mq_jobs (snd (dequeueForLabels rx al ml cs q)) = amap_delete j (mq_jobs q) \<and>
           map_of (mq_dispatched (snd (dequeueForLabels rx al ml cs q))) j = Some (job\<lparr>qj_status := QDispatched\<rparr>)) \<and>
      dequeueForLabels rx (canonicalizeLabels al) (canonicalizeLabels ml) cs q = dequeueForLabels rx al ml cs q"
proof -
  define ok where "ok = (\<lambda>e. claimable q e \<and> matchesGate rx (snd e) al ml \<and>
        (case cs of None \<Rightarrow> True | Some f \<Rightarrow> f (snd e)))"
  have ok: "(\<lambda>(j, job). qj_status job = QPending \<and> j \<notin> set (mq_stopped q) \<and>
         set (qj_runsOnLabels job) \<subseteq> canonicalizeLabel ` set al \<and>
         set (qj_excludeLabels job) \<inter> canonicalizeLabel ` set al = {} \<and>
         canonicalizeLabel ` set ml \<subseteq> set (qj_runsOnLabels job) \<and>
         patterns_ok rx job (canonicalizeLabel ` set al) \<and>
         (case cs of None \<Rightarrow> True | Some f \<Rightarrow> f job)) = ok"
    by (rule ext) (auto simp: ok_def claimable_def matchesGate_iff split: option.splits)
  have same: "dequeueForLabels rx (canonicalizeLabels al) (canonicalizeLabels ml) cs q = dequeueForLabels rx al ml cs q"
    by (simp add: dequeueForLabels_def matchesGate_iff canonicalizeLabels_def image_image)
  show ?thesis
  proof (cases rule: hand_out_first_cases [of "\<lambda>e. matchesGate rx (snd e) al ml \<and>
        (case cs of None \<Rightarrow> True | Some f \<Rightarrow> f (snd e))" q])
    case 1
    then have "filter ok (mq_jobs q) = []" unfolding filter_empty_conv ok_def by blast
    with 1(1) same show ?thesis unfolding ok by (simp add: dequeueForLabels_def Let_def)
  next
    case (2 xs j job ys)
    then have "filter ok xs = []" unfolding filter_empty_conv ok_def by blast
    moreover have "ok (j, job)" using 2(3,4) by (simp add: ok_def)
    ultimately have "filter ok (mq_jobs q) = (j, job) # filter ok ys" using 2(2) by simp
    with 2(1) same show ?thesis unfolding ok by (simp add: dequeueForLabels_def hand_out_def Let_def)
  qed
qed

text \<open>
  The completion of a job that waits (it was requeued, then its run was stopped, then a late
  report of the first agent arrives) takes its stop mark away and leaves it in the queue, so
  the next agent gets a job of a stopped run.
\<close>

theorem late_completion_unstops:
  "let q = snd (enqueue_job ''u'' (demo_input ''j1'' [''linux'']) empty_queue);
       q = snd (dequeueForLabels no_regex [''linux''] [] None q);
       q = snd (requeue ''j1'' None q);
       q = snd (stop_run ''r'' None q)
   in fst (dequeueForLabels no_regex [''linux''] [] None q) = None \<and>
      map_option qj_id (fst (dequeueForLabels no_regex [''linux''] [] None (markCompleted_job ''j1'' q))) = Some ''j1''"
  by code_simp

end
