(* ===== verification/Content.thy ===== *)
theory Content
  imports Labels
begin

text \<open>
  Queries over texts, payloads and files: \<open>text-match.ts\<close>, \<open>jsonpath-matcher.ts\<close> and
  \<open>content-requirements.ts\<close> of \<open>packages/engine/src/trigger/\<close>, and the filter that applies them
  to the workflows of a delivery, \<open>packages/orchestrator/src/pipeline/content-filter.ts\<close>.

  Parameters, in the record \<open>match_env\<close>: the glob library (two configurations), the host's
  regular expressions (\<open>None\<close> where the constructor raises), the check for catastrophic patterns,
  the JSONPath library and the parsers of JSON and YAML. An exception is the left side of a sum.
  Reasons shown to people are represented by the data they print.
\<close>

section \<open>What the host and the libraries provide\<close>

record match_env =
  me_glob :: "string \<Rightarrow> (string \<Rightarrow> bool) option"
  me_repo_glob :: "string \<Rightarrow> (string \<Rightarrow> bool) option"
  me_regex :: "string \<Rightarrow> string \<Rightarrow> (string \<Rightarrow> bool) option"
  me_safe :: "string \<Rightarrow> string \<Rightarrow> bool"
  me_jsonpath :: "string \<Rightarrow> js \<Rightarrow> js list option"
  me_parse_json :: "string \<Rightarrow> string + js"
  me_parse_yaml :: "string \<Rightarrow> string + js"

datatype match_error =
    BadGlob string | BadRegex string string | ReDoS string string | BadJsonPath string
  | NotText js

section \<open>Regular expressions written as text\<close>

text \<open>
  \<open>/^\/(.+)\/([flags]*)$/\<close>: the closing slash is the last one, since no flag is a slash; the dot
  matches no line terminator.
\<close>

definition line_end :: "char \<Rightarrow> bool" where
  "line_end c \<longleftrightarrow> c = CHR 0x0A \<or> c = CHR 0x0D"

definition unwrap_regex :: "string \<Rightarrow> string \<Rightarrow> (string \<times> string) option" where
  "unwrap_regex allowed s =
     (case s of
        [] \<Rightarrow> None
      | c # r \<Rightarrow>
          (let flags = rev (takeWhile (\<lambda>d. d \<noteq> CHR ''/'') (rev r));
               rest = dropWhile (\<lambda>d. d \<noteq> CHR ''/'') (rev r);
               pat = rev (tl rest)
           in if c = CHR ''/'' \<and> rest \<noteq> [] \<and> pat \<noteq> [] \<and> \<not> list_ex line_end pat
                 \<and> list_all (\<lambda>d. d \<in> set allowed) flags
              then Some (pat, flags) else None))"

text \<open>\<open>assertSafeRegex\<close>: compiles the expression, then checks it.\<close>

definition assertSafeRegex :: "match_env \<Rightarrow> string \<Rightarrow> string \<Rightarrow> match_error + (string \<Rightarrow> bool)" where
  "assertSafeRegex env pat flags =
     (case me_regex env pat flags of
        None \<Rightarrow> Inl (BadRegex pat flags)
      | Some test \<Rightarrow> if me_safe env pat flags then Inr test else Inl (ReDoS pat flags))"

section \<open>Text matching\<close>

record lock_text_match =
  tm_contains :: "string list option"
  tm_notContains :: "string list option"
  tm_matches :: "string list option"
  tm_notMatches :: "string list option"
  tm_ignoreCase :: "bool option"

datatype 'r verdict = Pass | Fail | Indeterminate 'r

definition compileSafeRegex :: "match_env \<Rightarrow> string \<Rightarrow> (string \<Rightarrow> bool) option" where
  "compileSafeRegex env source =
     (let w = unwrap_regex ''dgimsuvy'' source;
          pat = (case w of Some (p, f) \<Rightarrow> p | None \<Rightarrow> source);
          flags = stripStatefulRegexFlags (case w of Some (p, f) \<Rightarrow> Some f | None \<Rightarrow> Some [])
      in case me_regex env pat flags of
           None \<Rightarrow> None
         | Some test \<Rightarrow> if me_safe env pat flags then Some test else None)"

definition textMatchHasQuery :: "lock_text_match \<Rightarrow> bool" where
  "textMatchHasQuery m \<longleftrightarrow>
     opt_list (tm_contains m) \<noteq> [] \<or> opt_list (tm_notContains m) \<noteq> []
     \<or> opt_list (tm_matches m) \<noteq> [] \<or> opt_list (tm_notMatches m) \<noteq> []"

definition describe_key :: "string \<Rightarrow> string list option \<Rightarrow> string list" where
  "describe_key key v =
     (if opt_list v = [] then [] else [key @ '': ['' @ join '', '' (opt_list v) @ '']''])"

definition describeTextMatch :: "lock_text_match \<Rightarrow> string" where
  "describeTextMatch m =
     (let parts = describe_key ''contains'' (tm_contains m) @ describe_key ''notContains'' (tm_notContains m)
            @ describe_key ''matches'' (tm_matches m) @ describe_key ''notMatches'' (tm_notMatches m)
            @ (if tm_ignoreCase m = Some True then [''ignoreCase''] else [])
      in if parts = [] then ''(no query)'' else join ''; '' parts)"

fun evaluateRegexes :: "match_env \<Rightarrow> string \<Rightarrow> string list \<Rightarrow> bool \<Rightarrow> string verdict" where
  "evaluateRegexes env text [] expectMatch = Pass"
| "evaluateRegexes env text (source # sources) expectMatch =
     (case compileSafeRegex env source of
        None \<Rightarrow> Indeterminate source
      | Some test \<Rightarrow>
          if test text \<noteq> expectMatch then Fail else evaluateRegexes env text sources expectMatch)"

definition evaluateTextMatch :: "match_env \<Rightarrow> string \<Rightarrow> lock_text_match \<Rightarrow> string verdict" where
  "evaluateTextMatch env text m =
     (let ci = (\<lambda>s. if tm_ignoreCase m = Some True then toLowerCase s else s);
          haystack = ci text
      in if \<not> list_all (\<lambda>needle. str_includes haystack (ci needle)) (opt_list (tm_contains m)) then Fail
         else if list_ex (\<lambda>needle. str_includes haystack (ci needle)) (opt_list (tm_notContains m)) then Fail
         else case evaluateRegexes env text (opt_list (tm_matches m)) True of
                Pass \<Rightarrow> evaluateRegexes env text (opt_list (tm_notMatches m)) False
              | r \<Rightarrow> r)"

section \<open>Queries over a payload\<close>

text \<open>
  \<open>===\<close> between a value found in a document and an expected one: two arrays or two objects are
  different ones, whatever they hold.
\<close>

fun strict_eq :: "js \<Rightarrow> js \<Rightarrow> bool" where
  "strict_eq (JArr xs) v = False"
| "strict_eq (JObj m) v = False"
| "strict_eq u v = (u = v)"

fun valueEquals :: "match_env \<Rightarrow> js \<Rightarrow> js \<Rightarrow> match_error + bool" where
  "valueEquals env (JStr result) (JStr expected) =
     (case unwrap_regex ''gimsuy'' expected of
        None \<Rightarrow> Inr (result = expected)
      | Some (pat, flags) \<Rightarrow>
          (case assertSafeRegex env pat flags of Inl e \<Rightarrow> Inl e | Inr test \<Rightarrow> Inr (test result)))"
| "valueEquals env result expected = Inr (strict_eq result expected)"

definition matchValue :: "match_env \<Rightarrow> js list \<Rightarrow> js \<Rightarrow> match_error + bool" where
  "matchValue env results expected =
     (case expected of
        JArr es \<Rightarrow> some_err (\<lambda>r. some_err (\<lambda>e. valueEquals env r e) es) results
      | _ \<Rightarrow> some_err (\<lambda>r. valueEquals env r expected) results)"

definition json_path :: "match_env \<Rightarrow> string \<Rightarrow> js \<Rightarrow> match_error + js list" where
  "json_path env path doc =
     (case me_jsonpath env path doc of None \<Rightarrow> Inl (BadJsonPath path) | Some rs \<Rightarrow> Inr rs)"

definition matchJsonPath :: "match_env \<Rightarrow> js \<Rightarrow> (string \<times> js) list \<Rightarrow> match_error + bool" where
  "matchJsonPath env payload mtch =
     all_err (\<lambda>(path, expected).
       case json_path env path payload of
         Inl e \<Rightarrow> Inl e
       | Inr results \<Rightarrow> if results = [] then Inr False else matchValue env results expected) mtch"

definition matchJsonPathNot ::
  "match_env \<Rightarrow> js \<Rightarrow> (string \<times> js) list option \<Rightarrow> match_error + bool" where
  "matchJsonPathNot env payload nots =
     all_err (\<lambda>(path, expected).
       case json_path env path payload of
         Inl e \<Rightarrow> Inl e
       | Inr results \<Rightarrow>
           if results = [] then Inr True
           else (case matchValue env results expected of Inl e \<Rightarrow> Inl e | Inr b \<Rightarrow> Inr (\<not> b)))
       (opt_list nots)"

section \<open>Requirements on a file\<close>

datatype content_format = FmtJson | FmtYaml | FmtText | FmtAuto

record content_requirement =
  rq_file :: string
  rq_format :: "content_format option"
  rq_exists :: "string list option"
  rq_match :: "(string \<times> js) list option"
  rq_not :: "(string \<times> js) list option"
  rq_contains :: "string list option"
  rq_notContains :: "string list option"
  rq_matches :: "string list option"
  rq_notMatches :: "string list option"
  rq_ignoreCase :: "bool option"
  rq_absent :: "bool option"

record file_entry =
  fe_present :: bool
  fe_bytes :: "string option"

datatype content_reason = TooLarge string | BadText string string | Unparsable string content_format string

definition resolveContentFormat :: "string \<Rightarrow> content_format option \<Rightarrow> content_format" where
  "resolveContentFormat file fmt =
     (if fmt \<noteq> None \<and> fmt \<noteq> Some FmtAuto then the fmt
      else let lower = toLowerCase file
           in if endsWith lower ''.json'' then FmtJson
              else if endsWith lower ''.yaml'' \<or> endsWith lower ''.yml'' then FmtYaml
              else FmtText)"

definition utf8ByteLength :: "string \<Rightarrow> nat" where
  "utf8ByteLength s = sum_list (map (\<lambda>c. if of_char c < (128 :: nat) then 1 else 2) s)"

definition MAX_CONTENT_BYTES :: nat where
  "MAX_CONTENT_BYTES = 1024 * 1024"

fun parseForFormat :: "match_env \<Rightarrow> string \<Rightarrow> content_format \<Rightarrow> string + js" where
  "parseForFormat env bytes FmtJson = me_parse_json env bytes"
| "parseForFormat env bytes FmtYaml = me_parse_yaml env bytes"
| "parseForFormat env bytes _ = Inr (JStr bytes)"

definition pathExists :: "match_env \<Rightarrow> js \<Rightarrow> string \<Rightarrow> match_error + bool" where
  "pathExists env doc path =
     (case json_path env path doc of Inl e \<Rightarrow> Inl e | Inr rs \<Rightarrow> Inr (rs \<noteq> []))"

text \<open>
  An object or an array is its own root; everything else becomes the empty object.
\<close>

fun asJsonRoot :: "js \<Rightarrow> js" where
  "asJsonRoot (JObj m) = JObj m"
| "asJsonRoot (JArr xs) = JArr xs"
| "asJsonRoot _ = JObj []"

definition evaluateOne ::
  "match_env \<Rightarrow> content_requirement \<Rightarrow> file_entry option \<Rightarrow> match_error + content_reason verdict" where
  "evaluateOne env req entry =
     (let present = (case entry of None \<Rightarrow> False | Some e \<Rightarrow> fe_present e);
          bytes = (case entry of None \<Rightarrow> [] | Some e \<Rightarrow> (case fe_bytes e of None \<Rightarrow> [] | Some b \<Rightarrow> b))
      in if rq_absent req = Some True then Inr (if present then Fail else Pass)
         else if \<not> present then Inr Fail
         else if MAX_CONTENT_BYTES < utf8ByteLength bytes then Inr (Indeterminate (TooLarge (rq_file req)))
         else case evaluateTextMatch env bytes
                \<lparr>tm_contains = rq_contains req, tm_notContains = rq_notContains req,
                 tm_matches = rq_matches req, tm_notMatches = rq_notMatches req,
                 tm_ignoreCase = rq_ignoreCase req\<rparr> of
           Indeterminate source \<Rightarrow> Inr (Indeterminate (BadText (rq_file req) source))
         | Fail \<Rightarrow> Inr Fail
         | Pass \<Rightarrow>
             if opt_list (rq_exists req) = [] \<and> opt_list (rq_match req) = [] \<and> opt_list (rq_not req) = []
             then Inr Pass
             else (let fmt = resolveContentFormat (rq_file req) (rq_format req)
                   in case parseForFormat env bytes fmt of
                        Inl reason \<Rightarrow> Inr (Indeterminate (Unparsable (rq_file req) fmt reason))
                      | Inr parsed \<Rightarrow>
                          (case all_err (pathExists env parsed) (opt_list (rq_exists req)) of
                             Inl e \<Rightarrow> Inl e
                           | Inr False \<Rightarrow> Inr Fail
                           | Inr True \<Rightarrow>
                               (case matchJsonPath env (asJsonRoot parsed) (opt_list (rq_match req)) of
                                  Inl e \<Rightarrow> Inl e
                                | Inr False \<Rightarrow> Inr Fail
                                | Inr True \<Rightarrow>
                                    (case matchJsonPathNot env (asJsonRoot parsed) (rq_not req) of
                                       Inl e \<Rightarrow> Inl e
                                     | Inr b \<Rightarrow> Inr (if b then Pass else Fail))))))"

fun evaluateContentRequirements ::
  "match_env \<Rightarrow> content_requirement list \<Rightarrow> (string \<Rightarrow> file_entry option)
    \<Rightarrow> match_error + content_reason verdict" where
  "evaluateContentRequirements env [] files = Inr Pass"
| "evaluateContentRequirements env (req # reqs) files =
     (case evaluateOne env req (files (rq_file req)) of
        Inr Pass \<Rightarrow> evaluateContentRequirements env reqs files
      | r \<Rightarrow> r)"

section \<open>Filtering the workflows of a delivery\<close>

record 'w content_candidate =
  cc_name :: string
  cc_requires :: "content_requirement list option"
  cc_workflow :: 'w

datatype drop_reason =
    NoFetcher | FetchFailed string string | NoBytes string | NotSatisfied | Evaluation content_reason

record dropped_candidate =
  dc_name :: string
  dc_reason :: drop_reason
  dc_indeterminate :: bool

definition requirementNeedsBytes :: "content_requirement \<Rightarrow> bool" where
  "requirementNeedsBytes req \<longleftrightarrow>
     rq_absent req \<noteq> Some True \<and>
     (opt_list (rq_matches req) \<noteq> [] \<or> opt_list (rq_notMatches req) \<noteq> []
      \<or> opt_list (rq_contains req) \<noteq> [] \<or> opt_list (rq_notContains req) \<noteq> []
      \<or> opt_list (rq_exists req) \<noteq> [] \<or> opt_list (rq_match req) \<noteq> [] \<or> opt_list (rq_not req) \<noteq> [])"

definition distinctRequiredPaths :: "'w content_candidate list \<Rightarrow> string list" where
  "distinctRequiredPaths cands =
     js_set (concat (map (\<lambda>c. map rq_file (opt_list (cc_requires c))) cands))"

text \<open>What a fetch of a path answered: an error message, or what the repository has.\<close>

type_synonym fetched = "string \<Rightarrow> string + file_entry"

text \<open>The two maps the loop over the distinct paths fills.\<close>

fun fetch_files ::
  "fetched \<Rightarrow> string list \<Rightarrow> (string \<rightharpoonup> file_entry) \<times> (string \<rightharpoonup> string)
     \<Rightarrow> (string \<rightharpoonup> file_entry) \<times> (string \<rightharpoonup> string)" where
  "fetch_files get [] (files, errored) = (files, errored)"
| "fetch_files get (path # paths) (files, errored) =
     fetch_files get paths
       (case get path of
          Inr entry \<Rightarrow> (files(path \<mapsto> entry), errored)
        | Inl err \<Rightarrow> (files, errored(path \<mapsto> err)))"

fun unreadable ::
  "content_requirement list \<Rightarrow> (string \<rightharpoonup> file_entry) \<Rightarrow> (string \<rightharpoonup> string) \<Rightarrow> drop_reason option" where
  "unreadable [] files errored = None"
| "unreadable (req # reqs) files errored =
     (case errored (rq_file req) of
        Some err \<Rightarrow> Some (FetchFailed (rq_file req) err)
      | None \<Rightarrow>
          if requirementNeedsBytes req
             \<and> (case files (rq_file req) of None \<Rightarrow> False | Some e \<Rightarrow> fe_present e \<and> fe_bytes e = None)
          then Some (NoBytes (rq_file req))
          else unreadable reqs files errored)"

definition verdictForCandidate ::
  "match_env \<Rightarrow> content_requirement list \<Rightarrow> (string \<rightharpoonup> file_entry) \<Rightarrow> (string \<rightharpoonup> string)
    \<Rightarrow> match_error + drop_reason verdict" where
  "verdictForCandidate env reqs files errored =
     (case unreadable reqs files errored of
        Some reason \<Rightarrow> Inr (Indeterminate reason)
      | None \<Rightarrow>
          (case evaluateContentRequirements env reqs files of
             Inl e \<Rightarrow> Inl e
           | Inr Pass \<Rightarrow> Inr Pass
           | Inr Fail \<Rightarrow> Inr Fail
           | Inr (Indeterminate r) \<Rightarrow> Inr (Indeterminate (Evaluation r))))"

fun sift ::
  "(content_requirement list \<Rightarrow> match_error + drop_reason verdict) \<Rightarrow> 'w content_candidate list
    \<Rightarrow> match_error + 'w content_candidate list \<times> dropped_candidate list" where
  "sift judge [] = Inr ([], [])"
| "sift judge (c # cs) =
     (case (if opt_list (cc_requires c) = [] then Inr Pass else judge (opt_list (cc_requires c))) of
        Inl e \<Rightarrow> Inl e
      | Inr v \<Rightarrow>
          (case sift judge cs of
             Inl e \<Rightarrow> Inl e
           | Inr (survivors, dropped) \<Rightarrow>
               Inr (case v of
                      Pass \<Rightarrow> (c # survivors, dropped)
                    | Fail \<Rightarrow> (survivors, \<lparr>dc_name = cc_name c, dc_reason = NotSatisfied,
                                          dc_indeterminate = False\<rparr> # dropped)
                    | Indeterminate r \<Rightarrow> (survivors, \<lparr>dc_name = cc_name c, dc_reason = r,
                                          dc_indeterminate = True\<rparr> # dropped))))"

text \<open>\<open>None\<close>: the provider has no fetcher, or the deployment no cache.\<close>

definition filterByContentRequirements ::
  "match_env \<Rightarrow> 'w content_candidate list \<Rightarrow> fetched option
    \<Rightarrow> match_error + 'w content_candidate list \<times> dropped_candidate list" where
  "filterByContentRequirements env cands fetcher =
     (if \<not> list_ex (\<lambda>c. opt_list (cc_requires c) \<noteq> []) cands then Inr (cands, [])
      else case fetcher of
             None \<Rightarrow> sift (\<lambda>reqs. Inr (Indeterminate NoFetcher)) cands
           | Some get \<Rightarrow>
               (case fetch_files get (distinctRequiredPaths cands) (Map.empty, Map.empty) of
                  (files, errored) \<Rightarrow> sift (\<lambda>reqs. verdictForCandidate env reqs files errored) cands))"

section \<open>What a requirement asks\<close>

text \<open>The meaning of a text query, of a payload query and of a requirement, apart from the order in
  which the code asks them.\<close>

definition text_holds :: "match_env \<Rightarrow> lock_text_match \<Rightarrow> string \<Rightarrow> bool" where
  "text_holds env m text \<longleftrightarrow>
     (let ci = (\<lambda>s. if tm_ignoreCase m = Some True then toLowerCase s else s) in
        (\<forall>n \<in> set (opt_list (tm_contains m)). str_includes (ci text) (ci n))
      \<and> (\<forall>n \<in> set (opt_list (tm_notContains m)). \<not> str_includes (ci text) (ci n))
      \<and> (\<forall>r \<in> set (opt_list (tm_matches m)). \<exists>t. compileSafeRegex env r = Some t \<and> t text)
      \<and> (\<forall>r \<in> set (opt_list (tm_notMatches m)). \<exists>t. compileSafeRegex env r = Some t \<and> \<not> t text))"

definition query_hits :: "match_env \<Rightarrow> js \<Rightarrow> string \<Rightarrow> js \<Rightarrow> bool" where
  "query_hits env doc path expected \<longleftrightarrow>
     (\<exists>rs. me_jsonpath env path doc = Some rs \<and> rs \<noteq> [] \<and> matchValue env rs expected = Inr True)"

definition query_misses :: "match_env \<Rightarrow> js \<Rightarrow> string \<Rightarrow> js \<Rightarrow> bool" where
  "query_misses env doc path expected \<longleftrightarrow>
     (\<exists>rs. me_jsonpath env path doc = Some rs \<and> (rs \<noteq> [] \<longrightarrow> matchValue env rs expected = Inr False))"

definition document_holds :: "match_env \<Rightarrow> content_requirement \<Rightarrow> js \<Rightarrow> bool" where
  "document_holds env req doc \<longleftrightarrow>
     (\<forall>p \<in> set (opt_list (rq_exists req)). \<exists>rs. me_jsonpath env p doc = Some rs \<and> rs \<noteq> [])
     \<and> (\<forall>(p, v) \<in> set (opt_list (rq_match req)). query_hits env (asJsonRoot doc) p v)
     \<and> (\<forall>(p, v) \<in> set (opt_list (rq_not req)). query_misses env (asJsonRoot doc) p v)"

definition requirement_text :: "content_requirement \<Rightarrow> lock_text_match" where
  "requirement_text req =
     \<lparr>tm_contains = rq_contains req, tm_notContains = rq_notContains req, tm_matches = rq_matches req,
      tm_notMatches = rq_notMatches req, tm_ignoreCase = rq_ignoreCase req\<rparr>"

definition requirement_holds :: "match_env \<Rightarrow> content_requirement \<Rightarrow> file_entry \<Rightarrow> bool" where
  "requirement_holds env req entry \<longleftrightarrow>
     (if rq_absent req = Some True then \<not> fe_present entry
      else fe_present entry
        \<and> (let bytes = (case fe_bytes entry of None \<Rightarrow> [] | Some b \<Rightarrow> b) in
             utf8ByteLength bytes \<le> MAX_CONTENT_BYTES
           \<and> text_holds env (requirement_text req) bytes
           \<and> (opt_list (rq_exists req) = [] \<and> opt_list (rq_match req) = [] \<and> opt_list (rq_not req) = []
              \<or> (\<exists>doc. parseForFormat env bytes (resolveContentFormat (rq_file req) (rq_format req)) = Inr doc
                     \<and> document_holds env req doc))))"

lemma evaluateRegexes_Pass_iff:
  "evaluateRegexes env text rs b = Pass \<longleftrightarrow>
     (\<forall>r \<in> set rs. \<exists>t. compileSafeRegex env r = Some t \<and> t text = b)"
  by (induction rs) (auto split: option.splits)

lemma verdict_then_Pass_iff:
  "(case v of Pass \<Rightarrow> w | Fail \<Rightarrow> Fail | Indeterminate r \<Rightarrow> Indeterminate r) = Pass \<longleftrightarrow> v = Pass \<and> w = Pass"
  by (simp split: verdict.splits)

lemma evaluateTextMatch_Pass_iff: "evaluateTextMatch env text m = Pass \<longleftrightarrow> text_holds env m text"
  by (simp add: evaluateTextMatch_def text_holds_def Let_def list_all_iff list_ex_iff
      verdict_then_Pass_iff evaluateRegexes_Pass_iff)

lemma json_path_Inr_iff [simp]: "json_path env p doc = Inr rs \<longleftrightarrow> me_jsonpath env p doc = Some rs"
  by (simp add: json_path_def split: option.splits)

lemma pathExists_True_iff:
  "pathExists env doc p = Inr True \<longleftrightarrow> (\<exists>rs. me_jsonpath env p doc = Some rs \<and> rs \<noteq> [])"
  by (auto simp: pathExists_def json_path_def split: option.splits)

lemma matchJsonPath_True_iff:
  "matchJsonPath env doc q = Inr True \<longleftrightarrow> (\<forall>(p, v) \<in> set q. query_hits env doc p v)"
  by (auto simp: matchJsonPath_def all_err_True_iff query_hits_def json_path_def split: option.splits)
     (fastforce split: option.splits if_splits)+

lemma matchJsonPathNot_True_iff:
  "matchJsonPathNot env doc q = Inr True \<longleftrightarrow> (\<forall>(p, v) \<in> set (opt_list q). query_misses env doc p v)"
  by (auto simp: matchJsonPathNot_def all_err_True_iff query_misses_def json_path_def split: option.splits)
     (fastforce split: option.splits if_splits sum.splits)+

lemma if_Pass_Fail [simp]: "(if b then Pass else Fail) = Pass \<longleftrightarrow> b" "(if b then Fail else Pass) = Pass \<longleftrightarrow> \<not> b"
  by simp_all

lemma all_err_then_iff:
  "(case v of Inl e \<Rightarrow> Inl e | Inr True \<Rightarrow> w | Inr False \<Rightarrow> Inr Fail) = Inr Pass
     \<longleftrightarrow> v = Inr True \<and> w = Inr Pass"
  by (simp split: sum.splits bool.splits)

lemma all_err_last_iff:
  "(case v of Inl e \<Rightarrow> Inl e | Inr b \<Rightarrow> Inr (if b then Pass else Fail)) = Inr Pass \<longleftrightarrow> v = Inr True"
  by (simp split: sum.splits)

lemmas verdict_chain = all_err_then_iff all_err_last_iff all_err_True_iff pathExists_True_iff
  matchJsonPath_True_iff matchJsonPathNot_True_iff

lemma document_chain:
  "(case all_err (pathExists env doc) (opt_list (rq_exists req)) of
      Inl e \<Rightarrow> Inl e
    | Inr True \<Rightarrow>
        (case matchJsonPath env (asJsonRoot doc) (opt_list (rq_match req)) of
           Inl e \<Rightarrow> Inl e
         | Inr True \<Rightarrow>
             (case matchJsonPathNot env (asJsonRoot doc) (rq_not req) of
                Inl e \<Rightarrow> Inl e | Inr b \<Rightarrow> Inr (if b then Pass else Fail))
         | Inr False \<Rightarrow> Inr Fail)
    | Inr False \<Rightarrow> Inr Fail) = Inr Pass \<longleftrightarrow> document_holds env req doc"
  by (simp only: verdict_chain document_holds_def)

lemma parse_then_iff:
  "(case v of Inl e \<Rightarrow> Inr (Indeterminate (r e)) | Inr d \<Rightarrow> w d) = Inr Pass \<longleftrightarrow> (\<exists>d. v = Inr d \<and> w d = Inr Pass)"
  by (simp split: sum.splits)

lemma text_then_iff:
  "(case v of Pass \<Rightarrow> w | Fail \<Rightarrow> Inr Fail | Indeterminate r \<Rightarrow> Inr (Indeterminate (q r))) = Inr Pass
     \<longleftrightarrow> v = Pass \<and> w = Inr Pass"
  by (simp split: verdict.splits)

lemma evaluateOne_Pass_iff:
  "evaluateOne env req (Some entry) = Inr Pass \<longleftrightarrow> requirement_holds env req entry"
  by (simp add: evaluateOne_def requirement_holds_def requirement_text_def Let_def text_then_iff
      evaluateTextMatch_Pass_iff parse_then_iff document_chain) blast

lemma evaluateContentRequirements_Pass_iff:
  "evaluateContentRequirements env reqs files = Inr Pass
     \<longleftrightarrow> (\<forall>req \<in> set reqs. evaluateOne env req (files (rq_file req)) = Inr Pass)"
  by (induction env reqs files rule: evaluateContentRequirements.induct)
     (auto split: sum.splits verdict.splits)

lemma unreadable_None_iff:
  "unreadable reqs files errored = None \<longleftrightarrow>
     (\<forall>req \<in> set reqs. errored (rq_file req) = None \<and>
        \<not> (requirementNeedsBytes req
           \<and> (case files (rq_file req) of None \<Rightarrow> False | Some e \<Rightarrow> fe_present e \<and> fe_bytes e = None)))"
  by (induction reqs) (auto split: option.splits if_splits)

lemma fetch_files_lookup:
  "fetch_files get ps (files, errored) = (f, e) \<Longrightarrow>
     f p = (if p \<in> set ps then (case get p of Inr en \<Rightarrow> Some en | Inl _ \<Rightarrow> files p) else files p) \<and>
     e p = (if p \<in> set ps then (case get p of Inl m \<Rightarrow> Some m | Inr _ \<Rightarrow> errored p) else errored p)"
proof (induction ps arbitrary: files errored)
  case (Cons q ps)
  then show ?case by (cases "get q") (auto split: sum.splits if_splits)
qed simp

lemma sift_split:
  "sift judge cs = Inr (sv, dr) \<Longrightarrow>
     sv = filter (\<lambda>c. opt_list (cc_requires c) = [] \<or> judge (opt_list (cc_requires c)) = Inr Pass) cs \<and>
     map dc_name dr = map cc_name
       (filter (\<lambda>c. \<not> (opt_list (cc_requires c) = [] \<or> judge (opt_list (cc_requires c)) = Inr Pass)) cs)"
proof (induction cs arbitrary: sv dr)
  case (Cons c cs)
  from Cons.prems obtain v where v: "(if opt_list (cc_requires c) = [] then Inr Pass
      else judge (opt_list (cc_requires c))) = Inr v" by (auto split: sum.splits)
  from Cons.prems v obtain sv' dr' where rest: "sift judge cs = Inr (sv', dr')"
    by (auto split: sum.splits)
  from Cons.IH [OF rest] Cons.prems v rest show ?case
    by (cases v) (auto split: if_splits)
qed simp

text \<open>What admits a candidate: nothing to check, or every required file was read and holds.\<close>

definition admitted :: "match_env \<Rightarrow> fetched option \<Rightarrow> 'w content_candidate \<Rightarrow> bool" where
  "admitted env fetcher c \<longleftrightarrow>
     (\<forall>req \<in> set (opt_list (cc_requires c)). \<exists>get entry.
        fetcher = Some get \<and> get (rq_file req) = Inr entry
        \<and> \<not> (requirementNeedsBytes req \<and> fe_present entry \<and> fe_bytes entry = None)
        \<and> requirement_holds env req entry)"

lemma verdictForCandidate_Pass_iff:
  assumes "fetch_files get (distinctRequiredPaths cs) (Map.empty, Map.empty) = (files, errored)"
    and "c \<in> set cs"
  shows "verdictForCandidate env (opt_list (cc_requires c)) files errored = Inr Pass
           \<longleftrightarrow> admitted env (Some get) c"
proof -
  have look: "files p = (case get p of Inr en \<Rightarrow> Some en | Inl _ \<Rightarrow> None)"
      "errored p = (case get p of Inl m \<Rightarrow> Some m | Inr _ \<Rightarrow> None)"
    if "p \<in> rq_file ` set (opt_list (cc_requires c))" for p
    using fetch_files_lookup [OF assms(1), of p] that assms(2)
    by (auto simp: distinctRequiredPaths_def split: if_splits)
  have "verdictForCandidate env (opt_list (cc_requires c)) files errored = Inr Pass \<longleftrightarrow>
      unreadable (opt_list (cc_requires c)) files errored = None
      \<and> evaluateContentRequirements env (opt_list (cc_requires c)) files = Inr Pass"
    by (auto simp: verdictForCandidate_def split: option.splits sum.splits verdict.splits)
  also have "\<dots> \<longleftrightarrow> admitted env (Some get) c"
    unfolding unreadable_None_iff evaluateContentRequirements_Pass_iff admitted_def ball_conj_distrib [symmetric]
  proof (rule ball_cong [OF refl], goal_cases)
    case (1 req)
    then have "rq_file req \<in> rq_file ` set (opt_list (cc_requires c))" by simp
    from look [OF this] show ?case
      by (cases "get (rq_file req)") (auto simp: evaluateOne_Pass_iff)
  qed
  finally show ?thesis .
qed

section \<open>The filter admits exactly the candidates whose requirements hold\<close>

text \<open>
  When the content filter returns, the survivors are, in their order, exactly the
  candidates without requirements and those for which every required file was fetched, with
  its bytes where the requirement reads them, and meets what the requirement asks (absence,
  the size limit, every text query, a parse in the resolved format and every payload query);
  every other candidate is reported as dropped, in order. Without a fetcher only the
  candidates without requirements survive.
\<close>

theorem filterByContentRequirements_admits:
  assumes "filterByContentRequirements env cands fetcher = Inr (survivors, dropped)"
  shows "survivors = filter (admitted env fetcher) cands \<and>
         map dc_name dropped = map cc_name (filter (\<lambda>c. \<not> admitted env fetcher c) cands)"
proof (cases "list_ex (\<lambda>c. opt_list (cc_requires c) \<noteq> []) cands")
  case False
  then have "c \<in> set cands \<Longrightarrow> admitted env fetcher c" for c
    by (simp add: list_ex_iff admitted_def)
  with False assms show ?thesis by (simp add: filterByContentRequirements_def)
next
  case True
  note some_requires = True
  show ?thesis
  proof (cases fetcher)
    case None
    have adm: "admitted env fetcher = (\<lambda>c :: 'a content_candidate. opt_list (cc_requires c) = [])"
      using None by (auto simp: admitted_def fun_eq_iff neq_Nil_conv)
    from some_requires None assms
    have "sift (\<lambda>reqs. Inr (Indeterminate NoFetcher)) cands = Inr (survivors, dropped)"
      by (simp add: filterByContentRequirements_def)
    from sift_split [OF this] show ?thesis by (simp add: adm)
  next
    case (Some get)
    obtain files errored where ff: "fetch_files get (distinctRequiredPaths cands) (Map.empty, Map.empty) = (files, errored)"
      by (cases "fetch_files get (distinctRequiredPaths cands) (Map.empty, Map.empty)")
    from some_requires Some assms ff
    have "sift (\<lambda>reqs. verdictForCandidate env reqs files errored) cands = Inr (survivors, dropped)"
      by (simp add: filterByContentRequirements_def)
    note split = sift_split [OF this]
    have "(opt_list (cc_requires c) = [] \<or> verdictForCandidate env (opt_list (cc_requires c)) files errored = Inr Pass)
        = admitted env fetcher c" if "c \<in> set cands" for c
      using verdictForCandidate_Pass_iff [OF ff that, of env] Some by (auto simp: admitted_def)
    with split show ?thesis by (auto intro!: filter_cong arg_cong [where f = "map cc_name"])
  qed
qed

definition plain_requirement :: "string \<Rightarrow> content_requirement" where
  "plain_requirement file =
     \<lparr>rq_file = file, rq_format = None, rq_exists = None, rq_match = None, rq_not = None, rq_contains = None,
      rq_notContains = None, rq_matches = None, rq_notMatches = None, rq_ignoreCase = None, rq_absent = None\<rparr>"

text \<open>A host without any library, and one whose check refuses every expression.\<close>

definition demo_env :: match_env where
  "demo_env = \<lparr>me_glob = (\<lambda>p. Some (\<lambda>s. s = p)), me_repo_glob = (\<lambda>p. Some (\<lambda>s. s = p)),
     me_regex = (\<lambda>p f. Some (\<lambda>s. s = p)), me_safe = (\<lambda>p f. p \<noteq> ''(a+)+''),
     me_jsonpath = (\<lambda>p d. Some [JStr p]), me_parse_json = (\<lambda>s. Inr (JStr s)), me_parse_yaml = (\<lambda>s. Inl ''bad'')\<rparr>"

definition demo_files :: fetched where
  "demo_files p = (if p = ''a.txt'' then Inr \<lparr>fe_present = True, fe_bytes = Some ''Hello''\<rparr>
                   else if p = ''b.txt'' then Inr \<lparr>fe_present = False, fe_bytes = None\<rparr> else Inl ''503'')"

definition demo_candidates :: "unit content_candidate list" where
  "demo_candidates =
     [\<lparr>cc_name = ''w1'', cc_requires = Some [plain_requirement ''a.txt'' \<lparr>rq_contains := Some [''ell'']\<rparr>], cc_workflow = ()\<rparr>,
      \<lparr>cc_name = ''w2'', cc_requires = Some [plain_requirement ''b.txt''], cc_workflow = ()\<rparr>,
      \<lparr>cc_name = ''w3'', cc_requires = None, cc_workflow = ()\<rparr>,
      \<lparr>cc_name = ''w4'', cc_requires = Some [plain_requirement ''c.txt''], cc_workflow = ()\<rparr>]"

lemmas content_eval = filterByContentRequirements_def demo_candidates_def demo_files_def demo_env_def
  plain_requirement_def distinctRequiredPaths_def verdictForCandidate_def evaluateOne_def
  evaluateTextMatch_def requirementNeedsBytes_def opt_list_def js_set_def js_add_def
  utf8ByteLength_def MAX_CONTENT_BYTES_def startsWith_def Let_def

theorem filterByContentRequirements_admits_witness:
  "map cc_name (filter (admitted demo_env (Some demo_files)) demo_candidates) = [''w1'', ''w3'']"
proof -
  have "\<exists>dr. filterByContentRequirements demo_env demo_candidates (Some demo_files)
      = Inr ([demo_candidates ! 0, demo_candidates ! 2], dr)"
    by (simp add: content_eval)
  then obtain dr where "filterByContentRequirements demo_env demo_candidates (Some demo_files)
      = Inr ([demo_candidates ! 0, demo_candidates ! 2], dr)" ..
  from filterByContentRequirements_admits [OF this, THEN conjunct1, symmetric] show ?thesis
    by (simp only:) (simp add: demo_candidates_def)
qed

text \<open>
  An expression the check refuses is indeterminate among the text queries, yet as the value of a
  payload query it raises: the filter then answers for no candidate, not even for those that
  require nothing.
\<close>

lemma unsafe_text_query_indeterminate:
  "evaluateOne demo_env (plain_requirement ''a.txt'' \<lparr>rq_matches := Some [''/(a+)+/'']\<rparr>)
     (Some \<lparr>fe_present = True, fe_bytes = Some ''Hello''\<rparr>) = Inr (Indeterminate (BadText ''a.txt'' ''/(a+)+/''))"
  by (simp add: content_eval compileSafeRegex_def unwrap_regex_def line_end_def)

lemma unsafe_payload_query_raises:
  "filterByContentRequirements demo_env
     [\<lparr>cc_name = ''plain'', cc_requires = None, cc_workflow = ()\<rparr>,
      \<lparr>cc_name = ''strict'', cc_requires = Some [plain_requirement ''a.txt''
         \<lparr>rq_format := Some FmtJson, rq_match := Some [(''$.a'', JStr ''/(a+)+/'')]\<rparr>], cc_workflow = ()\<rparr>]
     (Some demo_files) = Inl (ReDoS ''(a+)+'' [])"
  by (simp add: content_eval matchJsonPath_def json_path_def matchValue_def unwrap_regex_def line_end_def
      assertSafeRegex_def resolveContentFormat_def pathExists_def)

text \<open>The two dialects of written expressions differ: a payload query takes no \<open>v\<close> or \<open>d\<close> flag and
  then compares the text itself.\<close>

lemma payload_query_flag_dialect:
  "unwrap_regex ''dgimsuvy'' ''/a/v'' = Some (''a'', ''v'') \<and>
   valueEquals demo_env (JStr ''a'') (JStr ''/a/v'') = Inr False"
  by (simp add: unwrap_regex_def line_end_def)

end
