(* ===== verification/Trace.thy ===== *)
theory Trace
  imports Content
begin

text \<open>
  What a delivery's event carries and what matching records about it: \<open>SimulatedEvent\<close> of
  \<open>packages/engine/src/trigger/types.ts\<close>, the git range of \<open>diff-range.ts\<close> and the decision trace
  of \<open>decision-trace.ts\<close>.

  A traced text is its characters, or its first characters followed by the ellipsis, or one of
  the two constants that stand for an unavailable diff (they use characters above 255).
\<close>

section \<open>Events\<close>

datatype changed_files_status = Fetched | Unavailable | Skipped

record sim_event =
  ev_type :: string
  ev_action :: "string option"
  ev_payload :: "(string \<times> js) list"
  ev_targetBranch :: string
  ev_sourceBranch :: "string option"
  ev_changedFiles :: "string list option"
  ev_changedFilesStatus :: "changed_files_status option"
  ev_baseBranch :: "string option"
  ev_defaultBranch :: "string option"
  ev_commitMessage :: "string option"
  ev_sourceRepo :: "string option"

section \<open>The range of a diff\<close>

datatype diff_range =
    TwoDot string string | NewBranch string string | Deleted | PrRange string | NoRange

definition isZeroSha :: "string \<Rightarrow> bool" where
  "isZeroSha sha \<longleftrightarrow> sha \<noteq> [] \<and> list_all (\<lambda>c. c = CHR ''0'') sha"

fun nonEmptyString :: "js \<Rightarrow> string option" where
  "nonEmptyString (JStr (c # s)) = Some (c # s)"
| "nonEmptyString _ = None"

definition defaultBranchOf :: "sim_event \<Rightarrow> string option" where
  "defaultBranchOf ev =
     (case ev_defaultBranch ev of
        Some (c # s) \<Rightarrow> Some (c # s)
      | _ \<Rightarrow> (case js_get (ev_payload ev) ''repository'' of
                JObj repository \<Rightarrow> nonEmptyString (js_get repository ''default_branch'')
              | _ \<Rightarrow> None))"

definition resolveDiffRange :: "sim_event \<Rightarrow> diff_range" where
  "resolveDiffRange ev =
     (if ev_type ev = ''pull_request''
      then (let base = (case ev_baseBranch ev of None \<Rightarrow> ev_targetBranch ev | Some b \<Rightarrow> b)
            in if base \<noteq> [] then PrRange base else NoRange)
      else if ev_type ev \<noteq> ''push'' then NoRange
      else case (nonEmptyString (js_get (ev_payload ev) ''before''),
                 nonEmptyString (js_get (ev_payload ev) ''after'')) of
             (Some before, Some after) \<Rightarrow>
               if isZeroSha after then Deleted
               else if \<not> isZeroSha before then TwoDot before after
               else (case defaultBranchOf ev of
                       None \<Rightarrow> NoRange
                     | Some db \<Rightarrow> if db = ev_targetBranch ev then NoRange else NewBranch db after)
           | _ \<Rightarrow> NoRange)"

fun isDeferrableRange :: "diff_range \<Rightarrow> bool" where
  "isDeferrableRange (TwoDot _ _) = True"
| "isDeferrableRange (NewBranch _ _) = True"
| "isDeferrableRange (PrRange _) = True"
| "isDeferrableRange _ = False"

text \<open>Only a push or a pull request has a range to defer to.\<close>

lemma deferrable_event:
  "isDeferrableRange (resolveDiffRange ev) \<Longrightarrow> ev_type ev \<in> {''pull_request'', ''push''}"
  by (auto simp: resolveDiffRange_def split: if_splits)

section \<open>Trace entries\<close>

datatype trace_text = Whole string | Clamped string | DecidedOnAgent | Conservative

record trace_entry =
  te_check :: string
  te_pattern :: trace_text
  te_value :: trace_text
  te_passed :: bool
  te_reason :: "trace_text option"

definition TRACE_TEXT_MAX :: nat where
  "TRACE_TEXT_MAX = 200"

fun truncateTraceText :: "trace_text \<Rightarrow> trace_text" where
  "truncateTraceText (Whole s) = (if TRACE_TEXT_MAX < length s then Clamped (take TRACE_TEXT_MAX s) else Whole s)"
| "truncateTraceText t = t"

definition createTraceEntry ::
  "string \<Rightarrow> string \<Rightarrow> trace_text \<Rightarrow> bool \<Rightarrow> trace_text option \<Rightarrow> trace_entry" where
  "createTraceEntry check pat val passed reason =
     \<lparr>te_check = check, te_pattern = truncateTraceText (Whole pat), te_value = truncateTraceText val,
      te_passed = passed, te_reason = map_option truncateTraceText reason\<rparr>"

datatype trace_check = RepoFilter | ContentRequirements | GlobalFilter | CommitMessage | Dispatch

fun trace_check_label :: "trace_check \<Rightarrow> string" where
  "trace_check_label RepoFilter = ''repo''"
| "trace_check_label ContentRequirements = ''requires''"
| "trace_check_label GlobalFilter = ''filter''"
| "trace_check_label CommitMessage = ''commitMessage''"
| "trace_check_label Dispatch = ''dispatch''"

definition verdictFor :: "bool \<Rightarrow> bool \<Rightarrow> string" where
  "verdictFor passed indeterminate =
     (if indeterminate then ''indeterminate'' else if passed then ''matched'' else ''excluded'')"

definition createContentRequirementsTraceEntry ::
  "string list \<Rightarrow> bool \<Rightarrow> bool \<Rightarrow> string option \<Rightarrow> trace_entry" where
  "createContentRequirementsTraceEntry files passed indeterminate reason =
     createTraceEntry (trace_check_label ContentRequirements)
       (if files \<noteq> [] then join '', '' files else ''(no files)'')
       (Whole (verdictFor passed indeterminate)) passed (map_option Whole reason)"

definition createGlobalFilterTraceEntry :: "bool \<Rightarrow> bool \<Rightarrow> string option \<Rightarrow> trace_entry" where
  "createGlobalFilterTraceEntry run indeterminate reason =
     createTraceEntry (trace_check_label GlobalFilter) ''filter(context) === true''
       (Whole (verdictFor run indeterminate)) run (map_option Whole reason)"

definition createDispatchFailureTraceEntry :: "string \<Rightarrow> trace_entry" where
  "createDispatchFailureTraceEntry reason =
     createTraceEntry (trace_check_label Dispatch) ''jobs materialize'' (Whole ''excluded'') False
       (Some (Whole reason))"

section \<open>JSON text\<close>

definition hex_digit :: "nat \<Rightarrow> char" where
  "hex_digit d = (if d < 10 then char_of (48 + d) else char_of (87 + d))"

definition json_char :: "char \<Rightarrow> string" where
  "json_char c =
     (let n = (of_char c :: nat) in
        if n = 34 \<or> n = 92 then [CHR 0x5C, c]
        else if n = 8 then CHR 0x5C # ''b'' else if n = 9 then CHR 0x5C # ''t''
        else if n = 10 then CHR 0x5C # ''n'' else if n = 12 then CHR 0x5C # ''f''
        else if n = 13 then CHR 0x5C # ''r''
        else if n < 32 then CHR 0x5C # ''u00'' @ [hex_digit (n div 16), hex_digit (n mod 16)]
        else [c])"

definition json_quote :: "string \<Rightarrow> string" where
  "json_quote s = CHR 0x22 # concat (map json_char s) @ [CHR 0x22]"

text \<open>\<open>JSON.stringify\<close> of a lock-file value.\<close>

fun json_stringify :: "js \<Rightarrow> string" where
  "json_stringify JUndef = ''null''"
| "json_stringify JNull = ''null''"
| "json_stringify (JBool b) = (if b then ''true'' else ''false'')"
| "json_stringify (JNum i) = dec_int i"
| "json_stringify (JStr s) = json_quote s"
| "json_stringify (JArr vs) = ''['' @ join '','' (map json_stringify vs) @ '']''"
| "json_stringify (JObj m) =
     ''{'' @ join '','' (map (\<lambda>(k, v). json_quote k @ '':'' @ json_stringify v) m) @ ''}''"

text \<open>
  The message of an event in a reason. A long message is shown by its first \<open>TRACE_TEXT_MAX\<close>
  characters and an ellipsis, which the entry's own clamp then cuts off again.
\<close>

definition createCommitMessageTraceEntry ::
  "lock_text_match \<Rightarrow> string option \<Rightarrow> bool \<Rightarrow> bool \<Rightarrow> string option \<Rightarrow> trace_entry" where
  "createCommitMessageTraceEntry m text passed indeterminate reason =
     (let shown = (case text of None \<Rightarrow> ''(absent)'' | Some t \<Rightarrow> take TRACE_TEXT_MAX t)
      in createTraceEntry (trace_check_label CommitMessage) (describeTextMatch m)
           (Whole (verdictFor passed indeterminate)) passed
           (Some (Whole (case reason of None \<Rightarrow> ''message: '' @ json_quote shown | Some r \<Rightarrow> r))))"

section \<open>Workflow decisions\<close>

text \<open>\<open>PathsDeferred s\<close> is \<open>s\<close> followed by the suffix for paths left to the agent.\<close>

datatype summary = Plain string | PathsDeferred string

record workflow_decision =
  wd_workflowName :: string
  wd_matched :: bool
  wd_matchedTrigger :: "nat option"
  wd_checks :: "trace_entry list"
  wd_summary :: summary
  wd_deferredPaths :: "string list list option"

definition createWorkflowDecision ::
  "string \<Rightarrow> bool \<Rightarrow> trace_entry list \<Rightarrow> nat option \<Rightarrow> summary option \<Rightarrow> workflow_decision" where
  "createWorkflowDecision name matched checks trigger sm =
     \<lparr>wd_workflowName = name, wd_matched = matched, wd_matchedTrigger = trigger, wd_checks = checks,
      wd_summary = (case sm of
          Some s \<Rightarrow> s
        | None \<Rightarrow> Plain (if matched then ''Trigger conditions met'' else ''No matching trigger'')),
      wd_deferredPaths = None\<rparr>"

text \<open>
  A summary that the reason of a failed check replaces is that reason, which may be clamped.
\<close>

datatype final_summary = Own summary | Reason trace_text | ExcludedBy string

definition appendChecks :: "workflow_decision \<Rightarrow> trace_entry list \<Rightarrow> workflow_decision \<times> final_summary" where
  "appendChecks d entries =
     (let failed = find (\<lambda>e. \<not> te_passed e) entries
      in (d\<lparr>wd_matched := wd_matched d \<and> failed = None, wd_checks := wd_checks d @ entries\<rparr>,
          case failed of
            None \<Rightarrow> Own (wd_summary d)
          | Some e \<Rightarrow> (case te_reason e of Some r \<Rightarrow> Reason r | None \<Rightarrow> ExcludedBy (te_check e))))"

lemma appendChecks_matched:
  "wd_matched (fst (appendChecks d es)) \<longleftrightarrow> wd_matched d \<and> (\<forall>e \<in> set es. te_passed e)"
  by (auto simp: appendChecks_def Let_def find_None_iff)

section \<open>Bounded entries\<close>

fun trace_length :: "trace_text \<Rightarrow> nat" where
  "trace_length (Whole s) = length s"
| "trace_length (Clamped s) = Suc (length s)"
| "trace_length DecidedOnAgent = 32"
| "trace_length Conservative = 38"

definition bounded_entry :: "trace_entry \<Rightarrow> bool" where
  "bounded_entry e \<longleftrightarrow> trace_length (te_pattern e) \<le> 201 \<and> trace_length (te_value e) \<le> 201
     \<and> (case te_reason e of None \<Rightarrow> True | Some r \<Rightarrow> trace_length r \<le> 201)"

text \<open>A text that fits or that the clamp cut.\<close>

fun proper_text :: "trace_text \<Rightarrow> bool" where
  "proper_text (Clamped s) = (length s = TRACE_TEXT_MAX)"
| "proper_text t = True"

lemma truncateTraceText_bound: "proper_text t \<Longrightarrow> trace_length (truncateTraceText t) \<le> 201"
  by (cases t) (simp_all add: TRACE_TEXT_MAX_def)

lemma createTraceEntry_bounded:
  assumes "proper_text val" "\<And>r. reason = Some r \<Longrightarrow> proper_text r"
  shows "bounded_entry (createTraceEntry check pat val passed reason)"
  using assms truncateTraceText_bound [of "Whole pat"]
  by (auto simp: createTraceEntry_def bounded_entry_def truncateTraceText_bound
      simp del: truncateTraceText.simps split: option.splits)

lemma createTraceEntry_bounded_cases [simp]:
  "proper_text val \<Longrightarrow> bounded_entry (createTraceEntry c p val b None)"
  "proper_text val \<Longrightarrow> proper_text r \<Longrightarrow> bounded_entry (createTraceEntry c p val b (Some r))"
  by (auto intro: createTraceEntry_bounded)

lemma createTraceEntry_passed [simp]: "te_passed (createTraceEntry c p v b r) = b"
  by (simp add: createTraceEntry_def)

lemma commit_entry [simp]:
  "bounded_entry (createCommitMessageTraceEntry m t b i r)"
  "te_passed (createCommitMessageTraceEntry m t b i r) = b"
  by (auto simp: createCommitMessageTraceEntry_def Let_def intro!: createTraceEntry_bounded)

end
