(* ===== verification/Triggers.thy ===== *)
theory Triggers
  imports Trace
begin

text \<open>
  The trigger matcher: \<open>packages/engine/src/trigger/matcher.ts\<close>, \<open>compiled-matchers.ts\<close> and
  \<open>event-buckets.ts\<close>, over the trigger types of \<open>types.ts\<close>.

  A \<open>match...Trigger\<close> function of the source is a sequence of checks, each of which appends its
  trace entry and returns \<open>false\<close> at once when it fails. Here it is the list of these checks,
  run by \<open>run_steps\<close>, which stops at the first check that fails or raises. The memo of compiled
  patterns is transparent, so a compiled pattern is what the host makes of its source.
  A payload field that the code casts to a string is a string, missing or null; another kind of
  value there is the error \<open>NotText\<close> (as is a missing field where the code would raise).
\<close>

section \<open>Patterns\<close>

datatype pattern_type = GlobPattern | RegexPattern

record branch_pattern =
  bp_type :: pattern_type
  bp_pattern :: string
  bp_flags :: "string option"

definition getCompiledRegex ::
  "match_env \<Rightarrow> string \<Rightarrow> string option \<Rightarrow> match_error + (string \<Rightarrow> bool)" where
  "getCompiledRegex env pat flags = assertSafeRegex env pat (stripStatefulRegexFlags flags)"

definition getGlobMatcher :: "match_env \<Rightarrow> string \<Rightarrow> match_error + (string \<Rightarrow> bool)" where
  "getGlobMatcher env pat = (case me_glob env pat of None \<Rightarrow> Inl (BadGlob pat) | Some f \<Rightarrow> Inr f)"

definition getRepoGlobMatcher :: "match_env \<Rightarrow> string \<Rightarrow> match_error + (string \<Rightarrow> bool)" where
  "getRepoGlobMatcher env pat = (case me_repo_glob env pat of None \<Rightarrow> Inl (BadGlob pat) | Some f \<Rightarrow> Inr f)"

definition negated :: "string \<Rightarrow> bool" where
  "negated p \<longleftrightarrow> startsWith p ''!''"

definition splitStringPatterns :: "string list \<Rightarrow> string list \<times> string list" where
  "splitStringPatterns ps = (filter (\<lambda>p. \<not> negated p) ps, map tl (filter negated ps))"

definition splitBranchPatterns :: "branch_pattern list \<Rightarrow> branch_pattern list \<times> branch_pattern list" where
  "splitBranchPatterns ps =
     (filter (\<lambda>p. \<not> negated (bp_pattern p)) ps,
      map (\<lambda>p. p\<lparr>bp_pattern := tl (bp_pattern p)\<rparr>) (filter (\<lambda>p. negated (bp_pattern p)) ps))"

definition apply_matcher :: "match_error + (string \<Rightarrow> bool) \<Rightarrow> string \<Rightarrow> match_error + bool" where
  "apply_matcher m s = (case m of Inl e \<Rightarrow> Inl e | Inr f \<Rightarrow> Inr (f s))"

definition matchBranchPattern :: "match_env \<Rightarrow> branch_pattern \<Rightarrow> string \<Rightarrow> match_error + bool" where
  "matchBranchPattern env p branch =
     (if bp_type p = GlobPattern then apply_matcher (getGlobMatcher env (bp_pattern p)) branch
      else apply_matcher (getCompiledRegex env (bp_pattern p) (bp_flags p)) branch)"

definition matchRepoPattern :: "match_env \<Rightarrow> branch_pattern \<Rightarrow> string \<Rightarrow> match_error + bool" where
  "matchRepoPattern env p repo =
     (if bp_type p = GlobPattern then apply_matcher (getRepoGlobMatcher env (bp_pattern p)) repo
      else apply_matcher (getCompiledRegex env (bp_pattern p) (bp_flags p)) repo)"

definition matchAnyBranch :: "match_env \<Rightarrow> branch_pattern list \<Rightarrow> string \<Rightarrow> match_error + bool" where
  "matchAnyBranch env ps branch =
     (if ps = [] then Inr True else some_err (\<lambda>p. matchBranchPattern env p branch) ps)"

definition some_glob :: "match_env \<Rightarrow> string list \<Rightarrow> string \<Rightarrow> match_error + bool" where
  "some_glob env pats file = some_err (\<lambda>pat. apply_matcher (getGlobMatcher env pat) file) pats"

definition matchPathPatterns ::
  "match_env \<Rightarrow> string list \<Rightarrow> string list \<Rightarrow> changed_files_status option \<Rightarrow> match_error + bool" where
  "matchPathPatterns env paths changedFiles status =
     (if paths = [] then Inr True
      else if status = Some Unavailable then Inr True
      else if changedFiles = [] then Inr False
      else (case splitStringPatterns paths of (incl, excl) \<Rightarrow>
        (case (if excl = [] then Inr changedFiles
               else filter_err (\<lambda>file. case some_glob env excl file of Inl e \<Rightarrow> Inl e | Inr b \<Rightarrow> Inr (\<not> b))
                      changedFiles) of
           Inl e \<Rightarrow> Inl e
         | Inr relevantFiles \<Rightarrow>
             if excl \<noteq> [] \<and> relevantFiles = [] then Inr False
             else if incl = [] then Inr True
             else some_err (some_glob env incl) relevantFiles)))"

definition matchRepoPatterns :: "match_env \<Rightarrow> branch_pattern list \<Rightarrow> string \<Rightarrow> match_error + bool" where
  "matchRepoPatterns env repos sourceRepo =
     (if repos = [] then Inr True
      else (case splitBranchPatterns repos of (incl, excl) \<Rightarrow>
        (case some_err (\<lambda>p. matchRepoPattern env p sourceRepo) excl of
           Inl e \<Rightarrow> Inl e
         | Inr True \<Rightarrow> Inr False
         | Inr False \<Rightarrow>
             if incl = [] then Inr True
             else some_err (\<lambda>p. matchRepoPattern env p sourceRepo) incl)))"

section \<open>Checks\<close>

text \<open>The outcome of some checks: the trace, whether all passed, the paths left to the agent.\<close>

type_synonym outcome = "match_error + trace_entry list \<times> bool \<times> string list option"

fun run_steps :: "outcome list \<Rightarrow> outcome" where
  "run_steps [] = Inr ([], True, None)"
| "run_steps (Inl e # ss) = Inl e"
| "run_steps (Inr (ts, ok, note) # ss) =
     (if \<not> ok then Inr (ts, False, note)
      else case run_steps ss of
             Inl e \<Rightarrow> Inl e
           | Inr (us, r, note') \<Rightarrow> Inr (ts @ us, r, if note' = None then note else note'))"

definition no_check :: outcome where
  "no_check = Inr ([], True, None)"

definition check :: "string \<Rightarrow> string \<Rightarrow> string \<Rightarrow> bool \<Rightarrow> outcome" where
  "check name pat val matches = Inr ([createTraceEntry name pat (Whole val) matches None], matches, None)"

definition check_err :: "string \<Rightarrow> string \<Rightarrow> string \<Rightarrow> match_error + bool \<Rightarrow> outcome" where
  "check_err name pat val r = (case r of Inl e \<Rightarrow> Inl e | Inr matches \<Rightarrow> check name pat val matches)"

definition check_text :: "string \<Rightarrow> string \<Rightarrow> match_error + string \<Rightarrow> (string \<Rightarrow> bool) \<Rightarrow> outcome" where
  "check_text name pat val f = (case val of Inl e \<Rightarrow> Inl e | Inr v \<Rightarrow> check name pat v (f v))"

text \<open>\<open>(v as string) ?? ''\<close>, and a cast without a default.\<close>

fun text_or_empty :: "js \<Rightarrow> match_error + string" where
  "text_or_empty (JStr s) = Inr s"
| "text_or_empty JUndef = Inr []"
| "text_or_empty JNull = Inr []"
| "text_or_empty v = Inl (NotText v)"

fun text_required :: "js \<Rightarrow> match_error + string" where
  "text_required (JStr s) = Inr s"
| "text_required v = Inl (NotText v)"

fun js_field :: "js \<Rightarrow> string \<Rightarrow> js" where
  "js_field (JObj m) k = js_get m k"
| "js_field _ k = JUndef"

definition payload_text :: "sim_event \<Rightarrow> string \<Rightarrow> match_error + string" where
  "payload_text ev k = text_or_empty (js_get (ev_payload ev) k)"

definition event_action :: "sim_event \<Rightarrow> string" where
  "event_action ev = (case ev_action ev of None \<Rightarrow> [] | Some a \<Rightarrow> a)"

definition check_event_type :: "string \<Rightarrow> sim_event \<Rightarrow> outcome" where
  "check_event_type t ev = check ''event type'' t (ev_type ev) (ev_type ev = t)"

definition check_action :: "string \<Rightarrow> string list \<Rightarrow> sim_event \<Rightarrow> outcome" where
  "check_action name allowed ev =
     (if allowed = [] then no_check
      else check name (join ''|'' allowed) (event_action ev) (event_action ev \<in> set allowed))"

definition check_branches :: "match_env \<Rightarrow> string \<Rightarrow> branch_pattern list \<Rightarrow> string \<Rightarrow> outcome" where
  "check_branches env name ps branch =
     (if ps = [] then no_check
      else check_err name (join ''|'' (map bp_pattern ps)) branch (matchAnyBranch env ps branch))"

text \<open>A list filter on a text of the payload; an empty list declares no filter.\<close>

definition check_member :: "string \<Rightarrow> string list \<Rightarrow> match_error + string \<Rightarrow> outcome" where
  "check_member name allowed val =
     (if allowed = [] then no_check else check_text name (join ''|'' allowed) val (\<lambda>v. v \<in> set allowed))"

text \<open>An optional exact filter; the empty string declares none.\<close>

definition check_exact :: "string \<Rightarrow> string option \<Rightarrow> match_error + string \<Rightarrow> outcome" where
  "check_exact name expected val =
     (case expected of
        Some (c # s) \<Rightarrow> check_text name (c # s) val (\<lambda>v. v = c # s)
      | _ \<Rightarrow> no_check)"

section \<open>Filters shared by several triggers\<close>

definition evaluateRepoFilter :: "match_env \<Rightarrow> branch_pattern list option \<Rightarrow> sim_event \<Rightarrow> outcome" where
  "evaluateRepoFilter env repos ev =
     (if opt_list repos = [] then no_check
      else case ev_sourceRepo ev of
             Some (c # repo) \<Rightarrow>
               (case splitBranchPatterns (opt_list repos) of (incl, excl) \<Rightarrow>
                  check_err (trace_check_label RepoFilter)
                    (''include:['' @ join '','' (map bp_pattern incl) @ ''] exclude:[''
                       @ join '','' (map bp_pattern excl) @ '']'')
                    (c # repo) (matchRepoPatterns env (opt_list repos) (c # repo)))
           | _ \<Rightarrow> check (trace_check_label RepoFilter) ''required'' ''(missing)'' False)"

definition evaluateCommitMessageFilter ::
  "match_env \<Rightarrow> lock_text_match option \<Rightarrow> sim_event \<Rightarrow> outcome" where
  "evaluateCommitMessageFilter env mt ev =
     (case mt of
        None \<Rightarrow> no_check
      | Some m \<Rightarrow>
          (case ev_commitMessage ev of
             None \<Rightarrow>
               Inr ([createCommitMessageTraceEntry m None False True
                       (Some ''no commit message in payload (provider carries none for this event)'')], False, None)
           | Some text \<Rightarrow>
               (case evaluateTextMatch env text m of
                  Pass \<Rightarrow> Inr ([createCommitMessageTraceEntry m (Some text) True False None], True, None)
                | Fail \<Rightarrow> Inr ([createCommitMessageTraceEntry m (Some text) False False None], False, None)
                | Indeterminate src \<Rightarrow>
                    Inr ([createCommitMessageTraceEntry m (Some text) False True
                            (Some (''unsafe or invalid regex: '' @ src))], False, None))))"

definition checkTriggerPaths :: "match_env \<Rightarrow> string list \<Rightarrow> sim_event \<Rightarrow> outcome" where
  "checkTriggerPaths env paths ev =
     (if paths = [] then no_check
      else
        (let changedFiles = opt_list (ev_changedFiles ev);
             unavailable = (ev_changedFilesStatus ev = Some Unavailable);
             deferrable = (unavailable \<and> isDeferrableRange (resolveDiffRange ev));
             val = (if \<not> unavailable then Whole (''['' @ join '', '' changedFiles @ '']'')
                    else if deferrable then DecidedOnAgent else Conservative)
         in case splitStringPatterns paths of (incl, excl) \<Rightarrow>
              (case matchPathPatterns env paths changedFiles (ev_changedFilesStatus ev) of
                 Inl e \<Rightarrow> Inl e
               | Inr matches \<Rightarrow>
                   Inr ([createTraceEntry ''paths''
                           (''include: ['' @ join '', '' incl @ ''] exclude: ['' @ join '', '' excl @ '']'')
                           val matches None],
                        matches, if deferrable then Some paths else None))))"

section \<open>Triggers of the forges\<close>

record pr_trigger =
  pr_events :: "string list"
  pr_targetBranches :: "branch_pattern list"
  pr_sourceBranches :: "branch_pattern list"
  pr_paths :: "string list"
  pr_repos :: "branch_pattern list option"
  pr_commitMessage :: "lock_text_match option"

definition source_branch_check :: "match_env \<Rightarrow> branch_pattern list \<Rightarrow> sim_event \<Rightarrow> outcome" where
  "source_branch_check env ps ev =
     (if ps = [] then no_check
      else case ev_sourceBranch ev of
             Some (c # s) \<Rightarrow> check_branches env ''source branch'' ps (c # s)
           | _ \<Rightarrow> Inr ([createTraceEntry ''source branch'' (join ''|'' (map bp_pattern ps)) (Whole ''(missing)'') False
                     (Some (Whole ''Event has no sourceBranch but trigger requires source branch filtering''))],
                     False, None))"

definition matchPrTrigger :: "match_env \<Rightarrow> pr_trigger \<Rightarrow> sim_event \<Rightarrow> outcome" where
  "matchPrTrigger env t ev = run_steps
     [check_event_type ''pull_request'' ev,
      check_action ''action'' (pr_events t) ev,
      check_branches env ''target branch'' (pr_targetBranches t) (ev_targetBranch ev),
      source_branch_check env (pr_sourceBranches t) ev,
      checkTriggerPaths env (pr_paths t) ev,
      evaluateCommitMessageFilter env (pr_commitMessage t) ev,
      evaluateRepoFilter env (pr_repos t) ev]"

record push_trigger =
  pu_branches :: "branch_pattern list"
  pu_paths :: "string list"
  pu_repos :: "branch_pattern list option"
  pu_commitMessage :: "lock_text_match option"

definition matchPushTrigger :: "match_env \<Rightarrow> push_trigger \<Rightarrow> sim_event \<Rightarrow> outcome" where
  "matchPushTrigger env t ev = run_steps
     [check_event_type ''push'' ev,
      check_branches env ''branch'' (pu_branches t) (ev_targetBranch ev),
      checkTriggerPaths env (pu_paths t) ev,
      evaluateCommitMessageFilter env (pu_commitMessage t) ev,
      evaluateRepoFilter env (pu_repos t) ev]"

record tag_trigger =
  tg_patterns :: "branch_pattern list"
  tg_repos :: "branch_pattern list option"
  tg_commitMessage :: "lock_text_match option"

definition matchTagTrigger :: "match_env \<Rightarrow> tag_trigger \<Rightarrow> sim_event \<Rightarrow> outcome" where
  "matchTagTrigger env t ev = run_steps
     [check_event_type ''tag'' ev,
      check_branches env ''tag pattern'' (tg_patterns t) (ev_targetBranch ev),
      evaluateCommitMessageFilter env (tg_commitMessage t) ev,
      evaluateRepoFilter env (tg_repos t) ev]"

datatype comment_source = SourceIssue | SourcePr

record comment_trigger =
  cm_actions :: "string list"
  cm_source :: "comment_source option"
  cm_bodyMatch :: "branch_pattern option"
  cm_repos :: "branch_pattern list option"

text \<open>\<open>issue && 'pull_request' in issue\<close>: the operator raises on a truthy scalar.\<close>

fun has_pull_request :: "js \<Rightarrow> match_error + bool" where
  "has_pull_request (JObj m) = Inr (''pull_request'' \<in> fst ` set m)"
| "has_pull_request (JArr vs) = Inr False"
| "has_pull_request v =
     (if v \<in> {JUndef, JNull, JBool False, JNum 0, JStr []} then Inr False else Inl (NotText v))"

definition comment_source_check :: "comment_source option \<Rightarrow> sim_event \<Rightarrow> outcome" where
  "comment_source_check src ev =
     (case src of
        None \<Rightarrow> no_check
      | Some s \<Rightarrow>
          (case has_pull_request (js_get (ev_payload ev) ''issue'') of
             Inl e \<Rightarrow> Inl e
           | Inr isFromPr \<Rightarrow>
               check ''source'' (if s = SourceIssue then ''issue'' else ''pr'')
                 (if isFromPr then ''pr'' else ''issue'') (isFromPr = (s = SourcePr))))"

definition body_check :: "match_env \<Rightarrow> branch_pattern option \<Rightarrow> sim_event \<Rightarrow> outcome" where
  "body_check env bm ev =
     (case bm of
        None \<Rightarrow> no_check
      | Some p \<Rightarrow>
          (case text_or_empty (js_field (js_get (ev_payload ev) ''comment'') ''body'') of
             Inl e \<Rightarrow> Inl e
           | Inr body \<Rightarrow>
               check_err (if bp_type p = GlobPattern then ''bodyMatch (glob)'' else ''bodyMatch (regex)'')
                 (bp_pattern p) body (matchBranchPattern env p body)))"

definition matchCommentTrigger :: "match_env \<Rightarrow> comment_trigger \<Rightarrow> sim_event \<Rightarrow> outcome" where
  "matchCommentTrigger env t ev = run_steps
     [check_event_type ''comment'' ev,
      check_action ''action'' (cm_actions t) ev,
      comment_source_check (cm_source t) ev,
      body_check env (cm_bodyMatch t) ev,
      evaluateRepoFilter env (cm_repos t) ev]"

record review_trigger =
  rv_actions :: "string list"
  rv_states :: "string list"
  rv_repos :: "branch_pattern list option"

definition matchReviewTrigger :: "match_env \<Rightarrow> review_trigger \<Rightarrow> sim_event \<Rightarrow> outcome" where
  "matchReviewTrigger env t ev = run_steps
     [check_event_type ''review'' ev,
      check_action ''action'' (rv_actions t) ev,
      check_member ''state'' (rv_states t) (text_or_empty (js_field (js_get (ev_payload ev) ''review'') ''state'')),
      evaluateRepoFilter env (rv_repos t) ev]"

record review_comment_trigger =
  rc_actions :: "string list"
  rc_repos :: "branch_pattern list option"

definition matchReviewCommentTrigger :: "match_env \<Rightarrow> review_comment_trigger \<Rightarrow> sim_event \<Rightarrow> outcome" where
  "matchReviewCommentTrigger env t ev = run_steps
     [check_event_type ''review_comment'' ev,
      check_action ''action'' (rc_actions t) ev,
      evaluateRepoFilter env (rc_repos t) ev]"

record release_trigger =
  rl_actions :: "string list"
  rl_repos :: "branch_pattern list option"

definition matchReleaseTrigger :: "match_env \<Rightarrow> release_trigger \<Rightarrow> sim_event \<Rightarrow> outcome" where
  "matchReleaseTrigger env t ev = run_steps
     [check_event_type ''release'' ev,
      check_action ''action'' (rl_actions t) ev,
      evaluateRepoFilter env (rl_repos t) ev]"

record dispatch_trigger =
  dp_types :: "string list"
  dp_repos :: "branch_pattern list option"

definition matchDispatchTrigger :: "match_env \<Rightarrow> dispatch_trigger \<Rightarrow> sim_event \<Rightarrow> outcome" where
  "matchDispatchTrigger env t ev = run_steps
     [check_event_type ''dispatch'' ev,
      check_action ''dispatch type'' (dp_types t) ev,
      evaluateRepoFilter env (dp_repos t) ev]"

text \<open>A creation or deletion reads the kind of reference and its name without a default.\<close>

definition ref_pattern_check :: "match_env \<Rightarrow> branch_pattern list \<Rightarrow> sim_event \<Rightarrow> outcome" where
  "ref_pattern_check env ps ev =
     (if ps = [] then no_check
      else case text_required (js_get (ev_payload ev) ''ref'') of
             Inl e \<Rightarrow> Inl e
           | Inr ref \<Rightarrow> check_branches env ''ref pattern'' ps ref)"

record create_trigger =
  cr_refTypes :: "string list"
  cr_patterns :: "branch_pattern list"
  cr_repos :: "branch_pattern list option"

definition matchCreateTrigger :: "match_env \<Rightarrow> create_trigger \<Rightarrow> sim_event \<Rightarrow> outcome" where
  "matchCreateTrigger env t ev = run_steps
     [check_event_type ''create'' ev,
      check_member ''ref type'' (cr_refTypes t) (text_required (js_get (ev_payload ev) ''ref_type'')),
      ref_pattern_check env (cr_patterns t) ev,
      evaluateRepoFilter env (cr_repos t) ev]"

record delete_trigger =
  dl_refTypes :: "string list"
  dl_patterns :: "branch_pattern list"
  dl_repos :: "branch_pattern list option"

definition matchDeleteTrigger :: "match_env \<Rightarrow> delete_trigger \<Rightarrow> sim_event \<Rightarrow> outcome" where
  "matchDeleteTrigger env t ev = run_steps
     [check_event_type ''delete'' ev,
      check_member ''ref type'' (dl_refTypes t) (text_required (js_get (ev_payload ev) ''ref_type'')),
      ref_pattern_check env (dl_patterns t) ev,
      evaluateRepoFilter env (dl_repos t) ev]"

definition context_check :: "match_env \<Rightarrow> string list \<Rightarrow> sim_event \<Rightarrow> outcome" where
  "context_check env contexts ev =
     (if contexts = [] then no_check
      else case payload_text ev ''context'' of
             Inl e \<Rightarrow> Inl e
           | Inr ctx \<Rightarrow> check_err ''context'' (join ''|'' contexts) ctx (some_glob env contexts ctx))"

record status_trigger =
  st_contexts :: "string list"
  st_states :: "string list"
  st_repos :: "branch_pattern list option"

definition matchStatusTrigger :: "match_env \<Rightarrow> status_trigger \<Rightarrow> sim_event \<Rightarrow> outcome" where
  "matchStatusTrigger env t ev = run_steps
     [check_event_type ''status'' ev,
      context_check env (st_contexts t) ev,
      check_member ''state'' (st_states t) (payload_text ev ''state''),
      evaluateRepoFilter env (st_repos t) ev]"

record workflow_run_trigger =
  wr_actions :: "string list"
  wr_workflows :: "string list"
  wr_conclusions :: "string list"
  wr_repos :: "branch_pattern list option"

definition matchWorkflowRunTrigger :: "match_env \<Rightarrow> workflow_run_trigger \<Rightarrow> sim_event \<Rightarrow> outcome" where
  "matchWorkflowRunTrigger env t ev = run_steps
     [check_event_type ''workflow_run'' ev,
      check_action ''action'' (wr_actions t) ev,
      check_member ''workflow name'' (wr_workflows t) (text_or_empty (js_field (js_get (ev_payload ev) ''workflow_run'') ''name'')),
      check_member ''conclusion'' (wr_conclusions t) (text_or_empty (js_field (js_get (ev_payload ev) ''workflow_run'') ''conclusion'')),
      evaluateRepoFilter env (wr_repos t) ev]"

record fork_trigger =
  fk_repos :: "branch_pattern list option"

definition matchForkTrigger :: "match_env \<Rightarrow> fork_trigger \<Rightarrow> sim_event \<Rightarrow> outcome" where
  "matchForkTrigger env t ev = run_steps
     [check_event_type ''fork'' ev,
      evaluateRepoFilter env (fk_repos t) ev]"

record star_trigger =
  sr_actions :: "string list"
  sr_repos :: "branch_pattern list option"

definition matchStarTrigger :: "match_env \<Rightarrow> star_trigger \<Rightarrow> sim_event \<Rightarrow> outcome" where
  "matchStarTrigger env t ev = run_steps
     [check_event_type ''star'' ev,
      check_action ''action'' (sr_actions t) ev,
      evaluateRepoFilter env (sr_repos t) ev]"

record watch_trigger =
  wt_actions :: "string list"
  wt_repos :: "branch_pattern list option"

definition matchWatchTrigger :: "match_env \<Rightarrow> watch_trigger \<Rightarrow> sim_event \<Rightarrow> outcome" where
  "matchWatchTrigger env t ev = run_steps
     [check_event_type ''watch'' ev,
      check_action ''action'' (wt_actions t) ev,
      evaluateRepoFilter env (wt_repos t) ev]"

record webhook_trigger =
  wh_events :: "string list"
  wh_actions :: "string list"
  wh_repos :: "branch_pattern list option"

definition matchWebhookTrigger :: "match_env \<Rightarrow> webhook_trigger \<Rightarrow> sim_event \<Rightarrow> outcome" where
  "matchWebhookTrigger env t ev = run_steps
     [check ''event type'' (join ''|'' (wh_events t)) (ev_type ev) (ev_type ev \<in> set (wh_events t)),
      check_action ''action'' (wh_actions t) ev,
      evaluateRepoFilter env (wh_repos t) ev]"

section \<open>Triggers of the system itself\<close>

text \<open>The payload queries; an empty one declares no filter.\<close>

definition jsonpath_check :: "match_env \<Rightarrow> (string \<times> js) list option \<Rightarrow> js \<Rightarrow> outcome" where
  "jsonpath_check env mt doc =
     (if opt_list mt = [] then no_check
      else check_err ''jsonpath match'' (json_stringify (JObj (opt_list mt))) ''(payload)''
             (matchJsonPath env doc (opt_list mt)))"

definition jsonpath_not_check :: "match_env \<Rightarrow> (string \<times> js) list option \<Rightarrow> js \<Rightarrow> outcome" where
  "jsonpath_not_check env nt doc =
     (if opt_list nt = [] then no_check
      else check_err ''jsonpath not'' (json_stringify (JObj (opt_list nt))) ''(payload)''
             (matchJsonPathNot env doc nt))"

definition inner_payload :: "sim_event \<Rightarrow> js" where
  "inner_payload ev =
     (let v = js_get (ev_payload ev) ''payload'' in if nullish v then JObj [] else v)"

record kici_event_trigger =
  ke_eventName :: string
  ke_match :: "(string \<times> js) list option"
  ke_not :: "(string \<times> js) list option"
  ke_source :: "string option"

definition matchKiciEventTrigger :: "match_env \<Rightarrow> kici_event_trigger \<Rightarrow> sim_event \<Rightarrow> outcome" where
  "matchKiciEventTrigger env t ev = run_steps
     [check_event_type ''kici_event'' ev,
      check_text ''event name'' (ke_eventName t) (payload_text ev ''eventName'') (\<lambda>v. v = ke_eventName t),
      jsonpath_check env (ke_match t) (inner_payload ev),
      jsonpath_not_check env (ke_not t) (inner_payload ev),
      check_exact ''source'' (ke_source t) (payload_text ev ''sourceRepo'')]"

record workflow_complete_trigger =
  wf_name :: "string option"
  wf_status :: "string list option"
  wf_source :: "string option"

definition matchWorkflowCompleteTrigger :: "workflow_complete_trigger \<Rightarrow> sim_event \<Rightarrow> outcome" where
  "matchWorkflowCompleteTrigger t ev = run_steps
     [check_event_type ''workflow_complete'' ev,
      check_exact ''workflow name'' (wf_name t) (payload_text ev ''workflowName''),
      check_member ''status'' (opt_list (wf_status t)) (payload_text ev ''status''),
      check_exact ''source'' (wf_source t) (payload_text ev ''sourceRepo'')]"

record failed_batch_trigger =
  fb_accumulateFor :: nat
  fb_name :: "string option"
  fb_source :: "string option"

text \<open>A failed completion feeds the batch; the synthetic event of a window dispatches it.\<close>

definition failed_batch_type_checks :: "sim_event \<Rightarrow> outcome list" where
  "failed_batch_type_checks ev =
     (if ev_type ev = ''workflow_complete''
      then [check_text ''status'' ''failed'' (payload_text ev ''status'') (\<lambda>v. v = ''failed''),
            check ''event type'' ''workflows_failed_batch'' (ev_type ev) True]
      else if ev_type ev \<noteq> ''workflows_failed_batch''
      then [check ''event type'' ''workflow_complete|workflows_failed_batch'' (ev_type ev) False]
      else [check ''event type'' ''workflows_failed_batch'' (ev_type ev) True])"

definition matchWorkflowsFailedBatchTrigger :: "failed_batch_trigger \<Rightarrow> sim_event \<Rightarrow> outcome" where
  "matchWorkflowsFailedBatchTrigger t ev = run_steps
     (failed_batch_type_checks ev @
      [check_exact ''workflow name'' (fb_name t) (payload_text ev ''workflowName''),
       check_exact ''source'' (fb_source t) (payload_text ev ''sourceRepo'')])"

record job_complete_trigger =
  jc_workflow :: "string option"
  jc_job :: "string option"
  jc_status :: "string list option"
  jc_source :: "string option"

definition matchJobCompleteTrigger :: "job_complete_trigger \<Rightarrow> sim_event \<Rightarrow> outcome" where
  "matchJobCompleteTrigger t ev = run_steps
     [check_event_type ''job_complete'' ev,
      check_exact ''workflow name'' (jc_workflow t) (payload_text ev ''workflowName''),
      check_exact ''job name'' (jc_job t) (payload_text ev ''jobName''),
      check_member ''status'' (opt_list (jc_status t)) (payload_text ev ''status''),
      check_exact ''source'' (jc_source t) (payload_text ev ''sourceRepo'')]"

record generic_webhook_trigger =
  gw_source :: string
  gw_events :: "string list option"
  gw_match :: "(string \<times> js) list option"
  gw_not :: "(string \<times> js) list option"

text \<open>The event type of the payload, or else the action of the event.\<close>

definition generic_event_type :: "sim_event \<Rightarrow> match_error + string" where
  "generic_event_type ev =
     (let v = js_get (ev_payload ev) ''eventType''
      in if nullish v then Inr (event_action ev) else text_required v)"

definition matchGenericWebhookTrigger :: "match_env \<Rightarrow> generic_webhook_trigger \<Rightarrow> sim_event \<Rightarrow> outcome" where
  "matchGenericWebhookTrigger env t ev = run_steps
     [check_event_type ''generic_webhook'' ev,
      check_text ''source'' (gw_source t) (payload_text ev ''source'') (\<lambda>v. v = gw_source t),
      check_member ''event type filter'' (opt_list (gw_events t)) (generic_event_type ev),
      jsonpath_check env (gw_match t) (JObj (ev_payload ev)),
      jsonpath_not_check env (gw_not t) (JObj (ev_payload ev))]"

record schedule_trigger =
  sc_cronExpression :: string
  sc_timezone :: string

definition matchScheduleTrigger :: "schedule_trigger \<Rightarrow> sim_event \<Rightarrow> outcome" where
  "matchScheduleTrigger t ev = run_steps
     [check_event_type ''schedule'' ev,
      check_text ''cron expression'' (sc_cronExpression t) (payload_text ev ''cronExpression'')
        (\<lambda>v. v = sc_cronExpression t)]"

record lifecycle_trigger =
  lc_events :: "string list"
  lc_sources :: "string list option"

definition matchLifecycleTrigger :: "lifecycle_trigger \<Rightarrow> sim_event \<Rightarrow> outcome" where
  "matchLifecycleTrigger t ev = run_steps
     [check_event_type ''lifecycle'' ev,
      check_text ''lifecycle event'' (join ''|'' (lc_events t)) (payload_text ev ''lifecycleEvent'')
        (\<lambda>v. v \<in> set (lc_events t)),
      check_member ''source'' (opt_list (lc_sources t)) (payload_text ev ''sourceRepo'')]"

section \<open>Any trigger\<close>

text \<open>\<open>OtherTrigger\<close> is an entry whose type the code does not know.\<close>

datatype lock_trigger =
    PrTrigger pr_trigger
  | PushTrigger push_trigger
  | TagTrigger tag_trigger
  | CommentTrigger comment_trigger
  | ReviewTrigger review_trigger
  | ReviewCommentTrigger review_comment_trigger
  | ReleaseTrigger release_trigger
  | DispatchTTrigger dispatch_trigger
  | CreateTrigger create_trigger
  | DeleteTrigger delete_trigger
  | StatusTrigger status_trigger
  | WorkflowRunTrigger workflow_run_trigger
  | ForkTrigger fork_trigger
  | StarTrigger star_trigger
  | WatchTrigger watch_trigger
  | WebhookTrigger webhook_trigger
  | KiciEventTrigger kici_event_trigger
  | WorkflowCompleteTrigger workflow_complete_trigger
  | FailedBatchTrigger failed_batch_trigger
  | JobCompleteTrigger job_complete_trigger
  | GenericWebhookTrigger generic_webhook_trigger
  | ScheduleTrigger schedule_trigger
  | LifecycleTrigger lifecycle_trigger
  | OtherTrigger string

fun trigger_type :: "lock_trigger \<Rightarrow> string" where
  "trigger_type (PrTrigger t) = ''pr''"
| "trigger_type (PushTrigger t) = ''push''"
| "trigger_type (TagTrigger t) = ''tag''"
| "trigger_type (CommentTrigger t) = ''comment''"
| "trigger_type (ReviewTrigger t) = ''review''"
| "trigger_type (ReviewCommentTrigger t) = ''review_comment''"
| "trigger_type (ReleaseTrigger t) = ''release''"
| "trigger_type (DispatchTTrigger t) = ''dispatch''"
| "trigger_type (CreateTrigger t) = ''create''"
| "trigger_type (DeleteTrigger t) = ''delete''"
| "trigger_type (StatusTrigger t) = ''status''"
| "trigger_type (WorkflowRunTrigger t) = ''workflow_run''"
| "trigger_type (ForkTrigger t) = ''fork''"
| "trigger_type (StarTrigger t) = ''star''"
| "trigger_type (WatchTrigger t) = ''watch''"
| "trigger_type (WebhookTrigger t) = ''webhook''"
| "trigger_type (KiciEventTrigger t) = ''kici_event''"
| "trigger_type (WorkflowCompleteTrigger t) = ''workflow_complete''"
| "trigger_type (FailedBatchTrigger t) = ''workflows_failed_batch''"
| "trigger_type (JobCompleteTrigger t) = ''job_complete''"
| "trigger_type (GenericWebhookTrigger t) = ''generic_webhook''"
| "trigger_type (ScheduleTrigger t) = ''schedule''"
| "trigger_type (LifecycleTrigger t) = ''lifecycle''"
| "trigger_type (OtherTrigger ty) = ty"

fun matchTrigger :: "match_env \<Rightarrow> lock_trigger \<Rightarrow> sim_event \<Rightarrow> outcome" where
  "matchTrigger env (PrTrigger t) ev = matchPrTrigger env t ev"
| "matchTrigger env (PushTrigger t) ev = matchPushTrigger env t ev"
| "matchTrigger env (TagTrigger t) ev = matchTagTrigger env t ev"
| "matchTrigger env (CommentTrigger t) ev = matchCommentTrigger env t ev"
| "matchTrigger env (ReviewTrigger t) ev = matchReviewTrigger env t ev"
| "matchTrigger env (ReviewCommentTrigger t) ev = matchReviewCommentTrigger env t ev"
| "matchTrigger env (ReleaseTrigger t) ev = matchReleaseTrigger env t ev"
| "matchTrigger env (DispatchTTrigger t) ev = matchDispatchTrigger env t ev"
| "matchTrigger env (CreateTrigger t) ev = matchCreateTrigger env t ev"
| "matchTrigger env (DeleteTrigger t) ev = matchDeleteTrigger env t ev"
| "matchTrigger env (StatusTrigger t) ev = matchStatusTrigger env t ev"
| "matchTrigger env (WorkflowRunTrigger t) ev = matchWorkflowRunTrigger env t ev"
| "matchTrigger env (ForkTrigger t) ev = matchForkTrigger env t ev"
| "matchTrigger env (StarTrigger t) ev = matchStarTrigger env t ev"
| "matchTrigger env (WatchTrigger t) ev = matchWatchTrigger env t ev"
| "matchTrigger env (WebhookTrigger t) ev = matchWebhookTrigger env t ev"
| "matchTrigger env (KiciEventTrigger t) ev = matchKiciEventTrigger env t ev"
| "matchTrigger env (WorkflowCompleteTrigger t) ev = matchWorkflowCompleteTrigger t ev"
| "matchTrigger env (FailedBatchTrigger t) ev = matchWorkflowsFailedBatchTrigger t ev"
| "matchTrigger env (JobCompleteTrigger t) ev = matchJobCompleteTrigger t ev"
| "matchTrigger env (GenericWebhookTrigger t) ev = matchGenericWebhookTrigger env t ev"
| "matchTrigger env (ScheduleTrigger t) ev = matchScheduleTrigger t ev"
| "matchTrigger env (LifecycleTrigger t) ev = matchLifecycleTrigger t ev"
| "matchTrigger env (OtherTrigger ty) ev = Inr ([], False, None)"

section \<open>The decision on a workflow\<close>

text \<open>The part of \<open>LockWorkflow\<close> that matching reads; \<open>None\<close> is a null entry.\<close>

record trigger_workflow =
  tw_name :: string
  tw_triggers :: "lock_trigger option list"

text \<open>
  The loop over the triggers: \<open>i\<close> is the index, \<open>first\<close> the first trigger that matched with its
  paths left to the agent (index, trace, type), \<open>paths\<close> those lists and \<open>acc\<close> the traces of the
  triggers that did not match.
\<close>

fun match_loop ::
  "match_env \<Rightarrow> string \<Rightarrow> sim_event \<Rightarrow> nat \<Rightarrow> lock_trigger option list
    \<Rightarrow> (nat \<times> trace_entry list \<times> string) option \<Rightarrow> string list list \<Rightarrow> trace_entry list
    \<Rightarrow> match_error + workflow_decision" where
  "match_loop env name ev i [] first paths acc = Inr
     (case first of
        Some (j, ts, ty) \<Rightarrow>
          (createWorkflowDecision name True ts (Some j)
             (Some (PathsDeferred (''Matched trigger '' @ dec (j + 1) @ '' ('' @ ty @ '')''))))
             \<lparr>wd_deferredPaths := Some paths\<rparr>
      | None \<Rightarrow> createWorkflowDecision name False acc None (Some (Plain ''No triggers matched'')))"
| "match_loop env name ev i (None # ts) first paths acc = match_loop env name ev (i + 1) ts first paths acc"
| "match_loop env name ev i (Some t # ts) first paths acc =
     (case matchTrigger env t ev of
        Inl e \<Rightarrow> Inl e
      | Inr (us, True, None) \<Rightarrow>
          Inr (createWorkflowDecision name True us (Some i)
                 (Some (Plain (''Matched trigger '' @ dec (i + 1) @ '' ('' @ trigger_type t @ '')''))))
      | Inr (us, True, Some ps) \<Rightarrow>
          match_loop env name ev (i + 1) ts
            (if first = None then Some (i, us, trigger_type t) else first) (paths @ [ps]) acc
      | Inr (us, False, note) \<Rightarrow> match_loop env name ev (i + 1) ts first paths (acc @ us))"

definition matchWorkflowTriggers ::
  "match_env \<Rightarrow> trigger_workflow \<Rightarrow> sim_event \<Rightarrow> match_error + workflow_decision" where
  "matchWorkflowTriggers env w ev =
     (if tw_triggers w = []
      then Inr (createWorkflowDecision (tw_name w) False [] None (Some (Plain ''No triggers defined'')))
      else match_loop env (tw_name w) ev 0 (tw_triggers w) None [] [])"

definition matchAllWorkflows ::
  "match_env \<Rightarrow> trigger_workflow list \<Rightarrow> sim_event \<Rightarrow> match_error + workflow_decision list" where
  "matchAllWorkflows env ws ev = map_err (\<lambda>w. matchWorkflowTriggers env w ev) ws"

section \<open>Buckets by event type\<close>

text \<open>The events a trigger can match: those of the table, or the ones a webhook trigger names.\<close>

fun trigger_event_types :: "lock_trigger \<Rightarrow> string list" where
  "trigger_event_types (PrTrigger t) = [''pull_request'']"
| "trigger_event_types (PushTrigger t) = [''push'']"
| "trigger_event_types (TagTrigger t) = [''tag'']"
| "trigger_event_types (CommentTrigger t) = [''comment'']"
| "trigger_event_types (ReviewTrigger t) = [''review'']"
| "trigger_event_types (ReviewCommentTrigger t) = [''review_comment'']"
| "trigger_event_types (ReleaseTrigger t) = [''release'']"
| "trigger_event_types (DispatchTTrigger t) = [''dispatch'']"
| "trigger_event_types (CreateTrigger t) = [''create'']"
| "trigger_event_types (DeleteTrigger t) = [''delete'']"
| "trigger_event_types (StatusTrigger t) = [''status'']"
| "trigger_event_types (WorkflowRunTrigger t) = [''workflow_run'']"
| "trigger_event_types (ForkTrigger t) = [''fork'']"
| "trigger_event_types (StarTrigger t) = [''star'']"
| "trigger_event_types (WatchTrigger t) = [''watch'']"
| "trigger_event_types (WebhookTrigger t) = wh_events t"
| "trigger_event_types (KiciEventTrigger t) = [''kici_event'']"
| "trigger_event_types (WorkflowCompleteTrigger t) = [''workflow_complete'']"
| "trigger_event_types (FailedBatchTrigger t) = [''workflow_complete'', ''workflows_failed_batch'']"
| "trigger_event_types (JobCompleteTrigger t) = [''job_complete'']"
| "trigger_event_types (GenericWebhookTrigger t) = [''generic_webhook'']"
| "trigger_event_types (ScheduleTrigger t) = [''schedule'']"
| "trigger_event_types (LifecycleTrigger t) = [''lifecycle'']"
| "trigger_event_types (OtherTrigger ty) = []"

type_synonym buckets = "(string \<times> trigger_workflow list) list"

definition bucket_add ::
  "string \<Rightarrow> trigger_workflow \<Rightarrow> string list \<times> buckets \<Rightarrow> string list \<times> buckets" where
  "bucket_add eventType w sb =
     (case sb of (seen, buckets) \<Rightarrow>
        if eventType \<in> set seen then (seen, buckets)
        else (js_add eventType seen,
              amap_set eventType
                ((case map_of buckets eventType of None \<Rightarrow> [] | Some arr \<Rightarrow> arr) @ [w]) buckets))"

definition bucket_trigger ::
  "trigger_workflow \<Rightarrow> lock_trigger option \<Rightarrow> string list \<times> buckets \<Rightarrow> string list \<times> buckets" where
  "bucket_trigger w t sb =
     (case t of None \<Rightarrow> sb | Some tr \<Rightarrow> fold (\<lambda>evt. bucket_add evt w) (trigger_event_types tr) sb)"

definition bucket_workflow :: "trigger_workflow \<Rightarrow> buckets \<Rightarrow> buckets" where
  "bucket_workflow w buckets = snd (fold (bucket_trigger w) (tw_triggers w) ([], buckets))"

definition prepareEventBuckets :: "trigger_workflow list \<Rightarrow> buckets" where
  "prepareEventBuckets ws = fold bucket_workflow ws []"

definition matchWorkflowsForEvent ::
  "match_env \<Rightarrow> trigger_workflow list \<Rightarrow> sim_event \<Rightarrow> match_error + workflow_decision list" where
  "matchWorkflowsForEvent env ws ev =
     map_err (\<lambda>w. matchWorkflowTriggers env w ev)
       (case map_of (prepareEventBuckets ws) (ev_type ev) of None \<Rightarrow> [] | Some arr \<Rightarrow> arr)"

section \<open>Truthful traces\<close>

text \<open>
  A truthful outcome: every entry is bounded; when all checks passed so did every entry, and
  otherwise exactly the last entry failed.
\<close>

definition truthful :: "outcome \<Rightarrow> bool" where
  "truthful r \<longleftrightarrow>
     (case r of
        Inl e \<Rightarrow> True
      | Inr (ts, ok, note) \<Rightarrow>
          (\<forall>e \<in> set ts. bounded_entry e) \<and>
          (if ok then \<forall>e \<in> set ts. te_passed e
           else ts \<noteq> [] \<and> \<not> te_passed (last ts) \<and> (\<forall>e \<in> set (butlast ts). te_passed e)))"

named_theorems truthful_checks \<open>each check of the matcher is truthful\<close>

lemma run_steps_truthful: "list_all truthful ss \<Longrightarrow> truthful (run_steps ss)"
proof (induction ss rule: run_steps.induct)
  case (3 ts ok nt ss)
  show ?case
  proof (cases ok)
    case False
    with "3.prems" show ?thesis by (simp add: truthful_def)
  next
    case True
    from "3.prems" True have ts: "\<forall>e \<in> set ts. bounded_entry e \<and> te_passed e"
      by (simp add: truthful_def)
    from "3.IH" "3.prems" True have "truthful (run_steps ss)" by simp
    with ts True show ?thesis
      by (cases "run_steps ss") (auto simp: truthful_def butlast_append
        split: if_splits)
  qed
qed (simp_all add: truthful_def)

lemma truthful_check [truthful_checks]: "truthful (check n p v b)"
  by (simp add: truthful_def check_def)

lemma truthful_no_check [truthful_checks]: "truthful no_check"
  by (simp add: truthful_def no_check_def)

lemma truthful_error [truthful_checks]: "truthful (Inl e)"
  by (simp add: truthful_def)

lemma truthful_check_err [truthful_checks]: "truthful (check_err n p v r)"
  by (simp add: check_err_def truthful_checks split: sum.split)

lemma truthful_check_text [truthful_checks]: "truthful (check_text n p v f)"
  by (simp add: check_text_def truthful_checks split: sum.split)

lemma truthful_shared [truthful_checks]:
  "truthful (check_event_type ty ev)" "truthful (check_action n allowed ev)"
  "truthful (check_branches env n ps b)" "truthful (check_member n allowed val)"
  "truthful (check_exact n ex val)"
  by (simp_all add: check_event_type_def check_action_def check_branches_def check_member_def
      check_exact_def truthful_checks split: option.split list.split)

lemma truthful_filters [truthful_checks]:
  "truthful (evaluateRepoFilter env repos ev)" "truthful (source_branch_check env ps ev)"
  "truthful (comment_source_check src ev)" "truthful (body_check env bm ev)"
  "truthful (ref_pattern_check env ps ev)" "truthful (context_check env cs ev)"
  "truthful (jsonpath_check env mt doc)" "truthful (jsonpath_not_check env mt doc)"
  by (simp_all add: evaluateRepoFilter_def source_branch_check_def comment_source_check_def
      body_check_def ref_pattern_check_def context_check_def jsonpath_check_def jsonpath_not_check_def
      truthful_checks split: option.split list.split sum.split prod.split)
     (auto simp: truthful_def)

lemma truthful_commit [truthful_checks]: "truthful (evaluateCommitMessageFilter env mt ev)"
  by (simp add: evaluateCommitMessageFilter_def truthful_checks split: option.split verdict.split)
     (auto simp: truthful_def)

lemma truthful_single [truthful_checks]:
  "proper_text v \<Longrightarrow> truthful (Inr ([createTraceEntry c p v b None], b, note))"
  by (simp add: truthful_def)

lemma truthful_paths [truthful_checks]: "truthful (checkTriggerPaths env paths ev)"
  by (simp add: checkTriggerPaths_def Let_def truthful_checks split: sum.split prod.split)

lemmas trigger_defs = matchPrTrigger_def matchPushTrigger_def matchTagTrigger_def matchCommentTrigger_def
  matchReviewTrigger_def matchReviewCommentTrigger_def matchReleaseTrigger_def matchDispatchTrigger_def
  matchCreateTrigger_def matchDeleteTrigger_def matchStatusTrigger_def matchWorkflowRunTrigger_def
  matchForkTrigger_def matchStarTrigger_def matchWatchTrigger_def matchWebhookTrigger_def
  matchKiciEventTrigger_def matchWorkflowCompleteTrigger_def matchWorkflowsFailedBatchTrigger_def
  matchJobCompleteTrigger_def matchGenericWebhookTrigger_def matchScheduleTrigger_def
  matchLifecycleTrigger_def

lemma matchTrigger_truthful: "(\<forall>ty. t \<noteq> OtherTrigger ty) \<Longrightarrow> truthful (matchTrigger env t ev)"
  by (cases t) (simp_all add: trigger_defs failed_batch_type_checks_def run_steps_truthful truthful_checks)


text \<open>A push to a branch that the trigger does not list.\<close>

definition demo_push :: sim_event where
  "demo_push = \<lparr>ev_type = ''push'', ev_action = None,
     ev_payload = [(''before'', JStr ''1''), (''after'', JStr ''2'')], ev_targetBranch = ''main'',
     ev_sourceBranch = None, ev_changedFiles = Some [], ev_changedFilesStatus = Some Unavailable,
     ev_baseBranch = None, ev_defaultBranch = None, ev_commitMessage = None, ev_sourceRepo = None\<rparr>"

definition demo_push_trigger :: "string list \<Rightarrow> string list \<Rightarrow> lock_trigger" where
  "demo_push_trigger branches paths = PushTrigger
     \<lparr>pu_branches = map (\<lambda>b. \<lparr>bp_type = GlobPattern, bp_pattern = b, bp_flags = None\<rparr>) branches,
      pu_paths = paths, pu_repos = None, pu_commitMessage = None\<rparr>"

definition demo_trace :: "trace_entry list" where
  "demo_trace = [createTraceEntry ''event type'' ''push'' (Whole ''push'') True None,
     createTraceEntry ''branch'' ''dev|release'' (Whole ''main'') False None]"

lemmas push_eval = demo_push_trigger_def demo_push_def demo_env_def matchPushTrigger_def
  check_event_type_def check_def check_branches_def check_err_def matchAnyBranch_def
  matchBranchPattern_def apply_matcher_def getGlobMatcher_def no_check_def

lemma demo_push_outcome:
  "matchTrigger demo_env (demo_push_trigger [''dev'', ''release''] []) demo_push = Inr (demo_trace, False, None)"
  by (simp add: push_eval demo_trace_def)


section \<open>The guard of a trigger\<close>

lemma run_steps_first_fails: "run_steps (Inr (ts, False, p) # ss) = Inr (ts, False, p)"
  by simp

lemma check_event_type_fails: "ev_type ev \<noteq> ty \<Longrightarrow>
    check_event_type ty ev = Inr ([createTraceEntry ''event type'' ty (Whole (ev_type ev)) False None], False, None)"
  by (simp add: check_event_type_def check_def)

lemma matchTrigger_guard:
  "ev_type ev \<notin> set (trigger_event_types t) \<Longrightarrow> \<exists>ts p. matchTrigger env t ev = Inr (ts, False, p)"
  by (cases t) (simp_all add: trigger_defs failed_batch_type_checks_def check_event_type_fails check_def)

section \<open>Deciding on a workflow\<close>

definition outright :: "match_env \<Rightarrow> sim_event \<Rightarrow> lock_trigger option \<Rightarrow> bool" where
  "outright env ev t \<longleftrightarrow> (\<exists>tr us. t = Some tr \<and> matchTrigger env tr ev = Inr (us, True, None))"

definition left_to_agent :: "match_env \<Rightarrow> sim_event \<Rightarrow> lock_trigger option \<Rightarrow> string list option" where
  "left_to_agent env ev t =
     (case t of
        None \<Rightarrow> None
      | Some tr \<Rightarrow> (case matchTrigger env tr ev of Inr (us, True, note) \<Rightarrow> note | _ \<Rightarrow> None))"

text \<open>What the loop returns when it meets no outright match.\<close>

lemma match_loop_outright:
  assumes "match_loop env name ev i ts first paths acc = Inr d" and "\<exists>t \<in> set ts. outright env ev t"
  shows "\<exists>k tr us. k < length ts \<and> ts ! k = Some tr \<and> matchTrigger env tr ev = Inr (us, True, None)
      \<and> (\<forall>j < k. \<not> outright env ev (ts ! j))
      \<and> wd_matched d \<and> wd_matchedTrigger d = Some (i + k) \<and> wd_checks d = us \<and> wd_deferredPaths d = None"
  using assms
proof (induction env name ev i ts first paths acc rule: match_loop.induct)
  case (2 env name ev i ts first paths acc)
  then have "\<exists>t \<in> set ts. outright env ev t" by (auto simp: outright_def)
  from "2.IH" [OF _ this] "2.prems"(1) obtain k tr us where
    k: "k < length ts \<and> ts ! k = Some tr \<and> matchTrigger env tr ev = Inr (us, True, None)
      \<and> (\<forall>j < k. \<not> outright env ev (ts ! j))
      \<and> wd_matched d \<and> wd_matchedTrigger d = Some (i + 1 + k) \<and> wd_checks d = us \<and> wd_deferredPaths d = None"
    by auto
  then show ?case
    by (intro exI [of _ "Suc k"] exI [of _ tr] exI [of _ us]) (auto simp: outright_def less_Suc_eq_0_disj)
next
  case (3 env name ev i t ts first paths acc)
  show ?case
  proof (cases "outright env ev (Some t)")
    case True
    then obtain us where "matchTrigger env t ev = Inr (us, True, None)" by (auto simp: outright_def)
    with "3.prems"(1) show ?thesis
      by (intro exI [of _ 0] exI [of _ t] exI [of _ us]) (auto simp: createWorkflowDecision_def)
  next
    case False
    with "3.prems"(2) have later: "\<exists>t \<in> set ts. outright env ev t" by auto
    from "3.prems"(1) obtain first' paths' acc' where
      next_iter: "match_loop env name ev (i + 1) ts first' paths' acc' = Inr d"
      and "\<exists>k tr us. k < length ts \<and> ts ! k = Some tr \<and> matchTrigger env tr ev = Inr (us, True, None)
      \<and> (\<forall>j < k. \<not> outright env ev (ts ! j))
      \<and> wd_matched d \<and> wd_matchedTrigger d = Some (i + 1 + k) \<and> wd_checks d = us \<and> wd_deferredPaths d = None"
      using False "3.IH" later
      by (auto split: sum.splits prod.splits bool.splits option.splits simp: outright_def)
    then obtain k tr us where "k < length ts \<and> ts ! k = Some tr \<and> matchTrigger env tr ev = Inr (us, True, None)
      \<and> (\<forall>j < k. \<not> outright env ev (ts ! j))
      \<and> wd_matched d \<and> wd_matchedTrigger d = Some (i + 1 + k) \<and> wd_checks d = us \<and> wd_deferredPaths d = None"
      by blast
    with False show ?thesis
      by (intro exI [of _ "Suc k"] exI [of _ tr] exI [of _ us]) (auto simp: less_Suc_eq_0_disj)
  qed
qed simp

lemma left_to_agent_null [simp]: "left_to_agent env ev None = None"
  by (simp add: left_to_agent_def)

text \<open>The first trigger that is left to the agent, with its index and trace.\<close>

fun first_deferred ::
  "match_env \<Rightarrow> sim_event \<Rightarrow> nat \<Rightarrow> lock_trigger option list \<Rightarrow> (nat \<times> trace_entry list \<times> string) option" where
  "first_deferred env ev i [] = None"
| "first_deferred env ev i (None # ts) = first_deferred env ev (i + 1) ts"
| "first_deferred env ev i (Some t # ts) =
     (case matchTrigger env t ev of
        Inr (us, True, Some ps) \<Rightarrow> Some (i, us, trigger_type t)
      | _ \<Rightarrow> first_deferred env ev (i + 1) ts)"

lemma match_loop_deferred:
  assumes "match_loop env name ev i ts first paths acc = Inr d" and "\<forall>t \<in> set ts. \<not> outright env ev t"
  shows "(case (if first = None then first_deferred env ev i ts else first) of
            None \<Rightarrow> \<not> wd_matched d \<and> wd_matchedTrigger d = None \<and> wd_deferredPaths d = None
          | Some (j, us, ty) \<Rightarrow> wd_matched d \<and> wd_matchedTrigger d = Some j \<and> wd_checks d = us
              \<and> wd_deferredPaths d = Some (paths @ List.map_filter (left_to_agent env ev) ts))"
  using assms
proof (induction ts arbitrary: i first paths acc)
  case Nil
  then show ?case by (cases first) (auto simp: createWorkflowDecision_def map_filter_simps)
next
  case (Cons x ts)
  show ?case
  proof (cases x)
    case None
    with Cons.IH [of "i + 1" first paths acc] Cons.prems show ?thesis
      by (cases first) (auto split: option.splits)
  next
    case (Some t)
    with Cons.prems(1) obtain us ok p where out: "matchTrigger env t ev = Inr (us, ok, p)"
      by (cases "matchTrigger env t ev") auto
    show ?thesis
    proof (cases ok)
      case False
      with out Some have "left_to_agent env ev x = None" by (simp add: left_to_agent_def)
      with Cons.IH [of "i + 1" first paths "acc @ us"] Cons.prems out Some False show ?thesis
        by (cases first) (auto split: option.splits)
    next
      case True
      with Cons.prems(2) out Some obtain ps where ps: "p = Some ps" by (auto simp: outright_def)
      with out Some True have "left_to_agent env ev x = Some ps" by (simp add: left_to_agent_def)
      with Cons.IH [of "i + 1" "if first = None then Some (i, us, trigger_type t) else first" "paths @ [ps]" acc]
        Cons.prems out Some True ps show ?thesis
        by (cases first) auto
    qed
  qed
qed

lemma first_deferred_None:
  "first_deferred env ev i ts = None \<longleftrightarrow> (\<forall>t \<in> set ts. left_to_agent env ev t = None)"
  by (induction env ev i ts rule: first_deferred.induct)
     (auto simp: left_to_agent_def split: sum.splits prod.splits bool.splits option.splits)

lemma first_deferred_Some:
  "first_deferred env ev i ts = Some (j, us, ty) \<Longrightarrow>
     i \<le> j \<and> j - i < length ts
     \<and> (\<exists>tr ps. ts ! (j - i) = Some tr \<and> matchTrigger env tr ev = Inr (us, True, Some ps))
     \<and> (\<forall>k < j - i. left_to_agent env ev (ts ! k) = None)"
proof (induction env ev i ts rule: first_deferred.induct)
  case (2 env ev i ts)
  then have IH: "i + 1 \<le> j" "j - (i + 1) < length ts"
      "\<exists>tr ps. ts ! (j - (i + 1)) = Some tr \<and> matchTrigger env tr ev = Inr (us, True, Some ps)"
      "\<forall>k < j - (i + 1). left_to_agent env ev (ts ! k) = None" by auto
  from IH(1) have "j - i = Suc (j - (i + 1))" by simp
  with IH show ?case by (auto simp: less_Suc_eq_0_disj left_to_agent_def)
next
  case (3 env ev i t ts)
  show ?case
  proof (cases "left_to_agent env ev (Some t)")
    case (Some ps)
    then obtain us' where out: "matchTrigger env t ev = Inr (us', True, Some ps)"
      by (auto simp: left_to_agent_def split: sum.splits prod.splits bool.splits)
    with "3.prems" show ?thesis by auto
  next
    case None
    with 3 have IH: "i + 1 \<le> j" "j - (i + 1) < length ts"
      "\<exists>tr ps. ts ! (j - (i + 1)) = Some tr \<and> matchTrigger env tr ev = Inr (us, True, Some ps)"
      "\<forall>k < j - (i + 1). left_to_agent env ev (ts ! k) = None"
      by (auto simp: left_to_agent_def split: sum.splits prod.splits bool.splits option.splits)
    from IH(1) have "j - i = Suc (j - (i + 1))" by simp
    with IH None show ?thesis by (auto simp: less_Suc_eq_0_disj)
  qed
qed simp

text \<open>
  C9. How a workflow is decided. If the decision names no trigger, the workflow is not matched
  and none of its triggers matches the event. If it names trigger \<open>i\<close>, the workflow is matched
  and the trace is the one of trigger \<open>i\<close>, which matches; when no paths are left to the agent,
  trigger \<open>i\<close> is the first that matches outright, and otherwise no trigger matches outright,
  trigger \<open>i\<close> is the first left to the agent and the agent gets the path lists of all of them,
  in order.
\<close>

theorem matchWorkflowTriggers_decides:
  assumes "matchWorkflowTriggers env w ev = Inr d"
  shows "case wd_matchedTrigger d of
      None \<Rightarrow> \<not> wd_matched d \<and> wd_deferredPaths d = None
        \<and> (\<forall>t \<in> set (tw_triggers w). \<not> outright env ev t \<and> left_to_agent env ev t = None)
    | Some i \<Rightarrow> wd_matched d \<and> i < length (tw_triggers w)
        \<and> (\<exists>tr p. tw_triggers w ! i = Some tr \<and> matchTrigger env tr ev = Inr (wd_checks d, True, p))
        \<and> (case wd_deferredPaths d of
              None \<Rightarrow> outright env ev (tw_triggers w ! i) \<and> (\<forall>j < i. \<not> outright env ev (tw_triggers w ! j))
            | Some pss \<Rightarrow> (\<forall>t \<in> set (tw_triggers w). \<not> outright env ev t)
                \<and> left_to_agent env ev (tw_triggers w ! i) \<noteq> None
                \<and> (\<forall>j < i. left_to_agent env ev (tw_triggers w ! j) = None)
                \<and> pss = List.map_filter (left_to_agent env ev) (tw_triggers w))"
proof (cases "tw_triggers w = []")
  case True
  with assms show ?thesis by (auto simp: matchWorkflowTriggers_def createWorkflowDecision_def)
next
  case False
  with assms have loop: "match_loop env (tw_name w) ev 0 (tw_triggers w) None [] [] = Inr d"
    by (simp add: matchWorkflowTriggers_def)
  show ?thesis
  proof (cases "\<exists>t \<in> set (tw_triggers w). outright env ev t")
    case True
    from match_loop_outright [OF loop this] show ?thesis by (auto simp: outright_def)
  next
    case False
    then have none: "\<forall>t \<in> set (tw_triggers w). \<not> outright env ev t" by blast
    note loop' = match_loop_deferred [OF loop none]
    show ?thesis
    proof (cases "first_deferred env ev 0 (tw_triggers w)")
      case None
      with loop' none show ?thesis by (auto simp: first_deferred_None)
    next
      case (Some f)
      obtain j us ty where f: "f = (j, us, ty)" by (cases f)
      from first_deferred_Some [OF Some [unfolded f]] loop' Some f none show ?thesis
        by (auto simp: left_to_agent_def)
    qed
  qed
qed

definition demo_workflow :: trigger_workflow where
  "demo_workflow = \<lparr>tw_name = ''ci'', tw_triggers =
     [Some (demo_push_trigger [''dev''] []), None, Some (demo_push_trigger [] [''src/x'']),
      Some (demo_push_trigger [] [''docs''])]\<rparr>"

lemmas match_eval = push_eval demo_workflow_def matchWorkflowTriggers_def checkTriggerPaths_def
  resolveDiffRange_def isZeroSha_def js_get_def opt_list_def splitStringPatterns_def negated_def
  startsWith_def matchPathPatterns_def evaluateCommitMessageFilter_def evaluateRepoFilter_def
  createWorkflowDecision_def

theorem matchWorkflowTriggers_decides_witness:
  "List.map_filter (left_to_agent demo_env demo_push) (tw_triggers demo_workflow) = [[''src/x''], [''docs'']]"
proof -
  have "\<exists>d. matchWorkflowTriggers demo_env demo_workflow demo_push = Inr d
      \<and> wd_matchedTrigger d = Some 2 \<and> wd_deferredPaths d = Some [[''src/x''], [''docs'']]"
    by (simp add: match_eval)
  then obtain d where d: "matchWorkflowTriggers demo_env demo_workflow demo_push = Inr d"
      "wd_matchedTrigger d = Some 2" "wd_deferredPaths d = Some [[''src/x''], [''docs'']]" by blast
  from matchWorkflowTriggers_decides [OF d(1)] d(2,3) show ?thesis by simp
qed

section \<open>Buckets answer as the full walk does\<close>

definition subscribes :: "string \<Rightarrow> trigger_workflow \<Rightarrow> bool" where
  "subscribes ty w \<longleftrightarrow> (\<exists>t. Some t \<in> set (tw_triggers w) \<and> ty \<in> set (trigger_event_types t))"

lemma unsubscribed_unmatched:
  assumes "\<not> subscribes (ev_type ev) w"
  shows "\<exists>d. matchWorkflowTriggers env w ev = Inr d \<and> \<not> wd_matched d"
proof -
  have "\<exists>d. match_loop env name ev i ts None paths acc = Inr d \<and> \<not> wd_matched d"
    if "\<forall>t. Some t \<in> set ts \<longrightarrow> ev_type ev \<notin> set (trigger_event_types t)" for name i ts paths acc
    using that
  proof (induction ts arbitrary: i paths acc)
    case (Cons x ts)
    show ?case
    proof (cases x)
      case (Some t)
      with Cons.prems matchTrigger_guard [of ev t env] obtain us p
        where "matchTrigger env t ev = Inr (us, False, p)" by auto
      with Some Cons show ?thesis by simp
    qed (use Cons in simp)
  qed (simp add: createWorkflowDecision_def)
  with assms show ?thesis
    by (auto simp: matchWorkflowTriggers_def subscribes_def createWorkflowDecision_def)
qed

text \<open>Within one workflow: the buckets of the seen types have gained it at their end, once.\<close>

definition bucket_ok :: "trigger_workflow \<Rightarrow> buckets \<Rightarrow> string list \<times> buckets \<Rightarrow> bool" where
  "bucket_ok w b sb \<longleftrightarrow>
     (\<forall>ty. map_of (snd sb) ty = (if ty \<in> set (fst sb)
        then Some ((case map_of b ty of None \<Rightarrow> [] | Some arr \<Rightarrow> arr) @ [w]) else map_of b ty))"

lemma bucket_add_ok: "bucket_ok w b sb \<Longrightarrow> bucket_ok w b (bucket_add ty w sb)
    \<and> set (fst (bucket_add ty w sb)) = insert ty (set (fst sb))"
  by (cases sb) (auto simp: bucket_ok_def bucket_add_def)

lemma bucket_fold_ok: "bucket_ok w b sb \<Longrightarrow> bucket_ok w b (fold (\<lambda>evt. bucket_add evt w) tys sb)
    \<and> set (fst (fold (\<lambda>evt. bucket_add evt w) tys sb)) = set tys \<union> set (fst sb)"
  by (induction tys arbitrary: sb) (auto simp: bucket_add_ok)

lemma bucket_triggers_ok: "bucket_ok w b sb \<Longrightarrow> bucket_ok w b (fold (bucket_trigger w) ts sb)
    \<and> set (fst (fold (bucket_trigger w) ts sb))
        = (\<Union>t \<in> {t. Some t \<in> set ts}. set (trigger_event_types t)) \<union> set (fst sb)"
proof (induction ts arbitrary: sb)
  case (Cons x ts)
  show ?case
  proof (cases x)
    case None
    with Cons show ?thesis by (simp add: bucket_trigger_def)
  next
    case (Some t)
    from bucket_fold_ok [OF Cons.prems, of "trigger_event_types t"]
    have "bucket_ok w b (bucket_trigger w x sb)"
      "set (fst (bucket_trigger w x sb)) = set (trigger_event_types t) \<union> set (fst sb)"
      using Some by (simp_all add: bucket_trigger_def)
    with Cons.IH [of "bucket_trigger w x sb"] Some show ?thesis by auto
  qed
qed simp

lemma bucket_workflow_lookup:
  "map_of (bucket_workflow w b) ty =
     (if subscribes ty w then Some ((case map_of b ty of None \<Rightarrow> [] | Some arr \<Rightarrow> arr) @ [w]) else map_of b ty)"
proof -
  have "bucket_ok w b ([], b)" by (simp add: bucket_ok_def)
  from bucket_triggers_ok [OF this, of "tw_triggers w"] show ?thesis
    by (auto simp: bucket_workflow_def bucket_ok_def subscribes_def)
qed

lemma prepareEventBuckets_lookup:
  "(case map_of (prepareEventBuckets ws) ty of None \<Rightarrow> [] | Some arr \<Rightarrow> arr) = filter (subscribes ty) ws"
proof -
  have "(case map_of (fold bucket_workflow ws b) ty of None \<Rightarrow> [] | Some arr \<Rightarrow> arr)
      = (case map_of b ty of None \<Rightarrow> [] | Some arr \<Rightarrow> arr) @ filter (subscribes ty) ws" for b
    by (induction ws arbitrary: b) (auto simp: bucket_workflow_lookup)
  from this [of "[]"] show ?thesis by (simp add: prepareEventBuckets_def)
qed

text \<open>
  C10. Matching only the workflows that the buckets list under the type of the event gives the
  matched decisions of matching all workflows, in the same order, and raises exactly when that
  raises, with the same error.
\<close>

theorem matchWorkflowsForEvent_equiv:
  "map_sum id (filter wd_matched) (matchWorkflowsForEvent env ws ev)
     = map_sum id (filter wd_matched) (matchAllWorkflows env ws ev)"
proof -
  have "map_sum id (filter wd_matched) (map_err (\<lambda>w. matchWorkflowTriggers env w ev) (filter (subscribes (ev_type ev)) ws))
      = map_sum id (filter wd_matched) (map_err (\<lambda>w. matchWorkflowTriggers env w ev) ws)"
  proof (induction ws)
    case (Cons w ws)
    show ?case
    proof (cases "subscribes (ev_type ev) w")
      case True
      with Cons show ?thesis by (auto split: sum.splits)
    next
      case False
      with unsubscribed_unmatched [OF False, of env] Cons show ?thesis by (auto split: sum.splits)
    qed
  qed simp
  then show ?thesis
    by (simp add: matchWorkflowsForEvent_def matchAllWorkflows_def prepareEventBuckets_lookup)
qed

section \<open>What path patterns mean\<close>

definition glob_hits :: "match_env \<Rightarrow> string \<Rightarrow> string \<Rightarrow> bool" where
  "glob_hits env pat file \<longleftrightarrow> (case me_glob env pat of None \<Rightarrow> False | Some f \<Rightarrow> f file)"

lemma some_glob_total:
  "\<forall>p \<in> set ps. me_glob env p \<noteq> None \<Longrightarrow> some_glob env ps file = Inr (\<exists>p \<in> set ps. glob_hits env p file)"
  unfolding some_glob_def
  by (rule some_err_total) (auto simp: apply_matcher_def getGlobMatcher_def glob_hits_def)

text \<open>
  Path patterns, when they all compile: an event matches iff there are no patterns, or its
  changed files are unknown, or some changed file is hit by no excluding pattern and, unless
  every pattern excludes, by some including one. In particular a known empty diff matches no
  pattern.
\<close>

theorem matchPathPatterns_spec:
  assumes "\<forall>p \<in> set (fst (splitStringPatterns paths)) \<union> set (snd (splitStringPatterns paths)). me_glob env p \<noteq> None"
  shows "matchPathPatterns env paths files status = Inr
     (paths = [] \<or> status = Some Unavailable
      \<or> (\<exists>f \<in> set files. (\<forall>p \<in> set (snd (splitStringPatterns paths)). \<not> glob_hits env p f)
            \<and> (fst (splitStringPatterns paths) = []
               \<or> (\<exists>p \<in> set (fst (splitStringPatterns paths)). glob_hits env p f))))"
proof -
  obtain incl excl where split: "splitStringPatterns paths = (incl, excl)"
    by (cases "splitStringPatterns paths")
  with assms have globs: "\<forall>p \<in> set incl. me_glob env p \<noteq> None" "\<forall>p \<in> set excl. me_glob env p \<noteq> None"
    by auto
  have kept: "filter_err (\<lambda>file. case some_glob env excl file of Inl e \<Rightarrow> Inl e | Inr b \<Rightarrow> Inr (\<not> b)) files
      = Inr (filter (\<lambda>f. \<forall>p \<in> set excl. \<not> glob_hits env p f) files)"
    by (rule filter_err_total) (simp add: some_glob_total [OF globs(2)])
  have hits: "some_err (some_glob env incl) fs = Inr (\<exists>f \<in> set fs. \<exists>p \<in> set incl. glob_hits env p f)" for fs
    by (rule some_err_total) (simp add: some_glob_total [OF globs(1)])
  show ?thesis
    by (auto simp: matchPathPatterns_def split kept hits filter_empty_conv neq_Nil_conv)
qed

theorem matchPathPatterns_spec_witness:
  "matchPathPatterns demo_env [''a'', ''!b''] [''b'', ''c''] None = Inr False
   \<and> matchPathPatterns demo_env [''!b''] [''b'', ''c''] None = Inr True"
  using matchPathPatterns_spec [of "[''a'', ''!b'']" demo_env "[''b'', ''c'']" None]
    matchPathPatterns_spec [of "[''!b'']" demo_env "[''b'', ''c'']" None]
  by (simp add: splitStringPatterns_def negated_def startsWith_def glob_hits_def demo_env_def)

end
