(* ===== verification/Protection.thy ===== *)
theory Protection
  imports Js_Strings
begin

text \<open>
  The protection of contexts (deployment targets): the gates, their aggregation over several
  bound contexts and the satisfiability check at registration, all in
  \<open>packages/orchestrator/src/contexts/protection/\<close>, with the ordered list of bound contexts of
  \<open>packages/orchestrator/src/pipeline/job-contexts.ts\<close>.

  The glob library is the parameter \<open>glob\<close> (pattern, then text; stored patterns are non-empty
  strings). The clock is the parameter \<open>now\<close> in milliseconds, and a time stamp is its value.
  Reasons are represented by the data they print; counts and limits are integers.
\<close>

section \<open>Contexts\<close>

datatype concurrency_strategy = StrategyQueue | CancelPending
datatype trust_tier = Trusted | Unknown

record context_rules =
  cx_name :: string
  cx_branchRestrictions :: "string list"
  cx_triggerTypeFilters :: "string list"
  cx_repoPatterns :: "string list"
  cx_concurrencyLimit :: "int option"
  cx_concurrencyStrategy :: concurrency_strategy
  cx_requiredReviewers :: "string list option"
  cx_waitTimerSeconds :: "int option"
  cx_holdExpirySeconds :: int
  cx_minimumTrust :: bool
  cx_enabled :: bool

record dispatch_context =
  dc_branch :: string
  dc_triggerType :: string
  dc_repository :: string
  dc_internallyTriggered :: bool

type_synonym globber = "string \<Rightarrow> string \<Rightarrow> bool"

definition DEFAULT_HOLD_EXPIRY_SECONDS :: int where
  "DEFAULT_HOLD_EXPIRY_SECONDS = 3600"

section \<open>Gates\<close>

datatype hold_type = HoldReviewer | HoldTimer | HoldConcurrency | HoldSecurity

datatype gate_reason =
    ContextDisabled string
  | NoBranchToMatch string
  | BranchNotAllowed string string
  | TriggerNotAllowed string string
  | RepositoryNotAllowed string string
  | NeedsTrusted string trust_tier
  | CancelPendingReason
  | LimitReached int int
  | NeedsApproval "string list"
  | WaitTimer int

datatype gate_result =
    GatePass
  | GateReject gate_reason
  | GateHold hold_type "millis option" gate_reason "string list"
  | GateQueue hold_type gate_reason
  | GateWait hold_type millis gate_reason

definition some_match :: "globber \<Rightarrow> string list \<Rightarrow> string \<Rightarrow> bool" where
  "some_match glob pats s \<longleftrightarrow> list_ex (\<lambda>p. glob p s) pats"

definition evaluateBranchGate :: "globber \<Rightarrow> context_rules \<Rightarrow> dispatch_context \<Rightarrow> gate_result" where
  "evaluateBranchGate glob env ctx =
     (if cx_branchRestrictions env \<noteq> [] \<and> dc_internallyTriggered ctx \<and> dc_branch ctx = []
      then GateReject (NoBranchToMatch (cx_name env))
      else if cx_branchRestrictions env \<noteq> [] \<and> \<not> some_match glob (cx_branchRestrictions env) (dc_branch ctx)
      then GateReject (BranchNotAllowed (dc_branch ctx) (cx_name env))
      else if cx_triggerTypeFilters env \<noteq> [] \<and> \<not> some_match glob (cx_triggerTypeFilters env) (dc_triggerType ctx)
      then GateReject (TriggerNotAllowed (dc_triggerType ctx) (cx_name env))
      else if cx_repoPatterns env \<noteq> [] \<and> \<not> some_match glob (cx_repoPatterns env) (dc_repository ctx)
      then GateReject (RepositoryNotAllowed (dc_repository ctx) (cx_name env))
      else GatePass)"

definition evaluateTrustGate :: "context_rules \<Rightarrow> trust_tier option \<Rightarrow> gate_result" where
  "evaluateTrustGate env tier =
     (if \<not> cx_minimumTrust env then GatePass
      else case tier of
             None \<Rightarrow> GatePass
           | Some t \<Rightarrow> if t = Unknown then GateHold HoldSecurity None (NeedsTrusted (cx_name env) t) []
                       else GatePass)"

definition evaluateConcurrencyGate :: "context_rules \<Rightarrow> int \<Rightarrow> gate_result" where
  "evaluateConcurrencyGate env running =
     (case cx_concurrencyLimit env of
        None \<Rightarrow> GatePass
      | Some limit \<Rightarrow>
          if limit \<le> 0 then GatePass
          else if running < limit then GatePass
          else if cx_concurrencyStrategy env = CancelPending then GateQueue HoldConcurrency CancelPendingReason
          else GateQueue HoldConcurrency (LimitReached running limit))"

definition evaluateReviewerGate :: "millis \<Rightarrow> context_rules \<Rightarrow> gate_result" where
  "evaluateReviewerGate now env =
     (case cx_requiredReviewers env of
        None \<Rightarrow> GatePass
      | Some rs \<Rightarrow>
          if rs = [] then GatePass
          else GateHold HoldReviewer (Some (now + cx_holdExpirySeconds env * 1000)) (NeedsApproval rs) rs)"

definition evaluateWaitTimerGate :: "millis \<Rightarrow> context_rules \<Rightarrow> gate_result" where
  "evaluateWaitTimerGate now env =
     (case cx_waitTimerSeconds env of
        None \<Rightarrow> GatePass
      | Some s \<Rightarrow> GateWait HoldTimer (now + s * 1000) (WaitTimer s))"

fun first_gate :: "gate_result list \<Rightarrow> gate_result" where
  "first_gate [] = GatePass"
| "first_gate (g # gs) = (if g \<noteq> GatePass then g else first_gate gs)"

definition evaluateProtectionRules ::
  "globber \<Rightarrow> millis \<Rightarrow> context_rules \<Rightarrow> dispatch_context \<Rightarrow> int \<Rightarrow> trust_tier option \<Rightarrow> gate_result" where
  "evaluateProtectionRules glob now env ctx running tier =
     (if \<not> cx_enabled env then GateReject (ContextDisabled (cx_name env))
      else first_gate
        [evaluateBranchGate glob env ctx, evaluateTrustGate env tier, evaluateConcurrencyGate env running,
         evaluateReviewerGate now env, evaluateWaitTimerGate now env])"

section \<open>Several contexts\<close>

datatype reject_reason =
    branch_restricted | trigger_filtered | repo_unmatched | trust_too_low | context_disabled | context_not_found

datatype reject_detail =
    NotFound string | Disabled string | NoBranchDetail | BranchDetail string | TriggerDetail string | RepoDetail string

record gate_rejection =
  gr_context :: string
  gr_reason :: reject_reason
  gr_detail :: reject_detail

record effective_protection =
  ep_minimumTrust :: bool
  ep_requiredReviewers :: "string list"
  ep_waitTimerSeconds :: "int option"
  ep_holdExpirySeconds :: int
  ep_concurrencyLimit :: "int option"
  ep_concurrencyStrategy :: concurrency_strategy

definition firstFailingRule ::
  "globber \<Rightarrow> context_rules \<Rightarrow> dispatch_context \<Rightarrow> (reject_reason \<times> reject_detail) option" where
  "firstFailingRule glob env ctx =
     (if cx_branchRestrictions env \<noteq> [] \<and> dc_internallyTriggered ctx \<and> dc_branch ctx = []
      then Some (branch_restricted, NoBranchDetail)
      else if cx_branchRestrictions env \<noteq> [] \<and> \<not> some_match glob (cx_branchRestrictions env) (dc_branch ctx)
      then Some (branch_restricted, BranchDetail (dc_branch ctx))
      else if cx_triggerTypeFilters env \<noteq> [] \<and> \<not> some_match glob (cx_triggerTypeFilters env) (dc_triggerType ctx)
      then Some (trigger_filtered, TriggerDetail (dc_triggerType ctx))
      else if cx_repoPatterns env \<noteq> [] \<and> \<not> some_match glob (cx_repoPatterns env) (dc_repository ctx)
      then Some (repo_unmatched, RepoDetail (dc_repository ctx))
      else None)"

fun evaluateMultiContextGates ::
  "globber \<Rightarrow> (string \<times> context_rules option) list \<Rightarrow> dispatch_context \<Rightarrow> gate_rejection list" where
  "evaluateMultiContextGates glob [] ctx = []"
| "evaluateMultiContextGates glob ((name, env) # envs) ctx =
     (case env of
        None \<Rightarrow> [\<lparr>gr_context = name, gr_reason = context_not_found, gr_detail = NotFound name\<rparr>]
      | Some e \<Rightarrow>
          if \<not> cx_enabled e
          then [\<lparr>gr_context = name, gr_reason = context_disabled, gr_detail = Disabled name\<rparr>]
          else case firstFailingRule glob e ctx of
                 None \<Rightarrow> []
               | Some (r, d) \<Rightarrow> [\<lparr>gr_context = name, gr_reason = r, gr_detail = d\<rparr>])
     @ evaluateMultiContextGates glob envs ctx"

text \<open>
  One step of the aggregation loop. The running minimum of the expiries starts at infinity,
  here \<open>None\<close>; the reviewers are a set in insertion order.
\<close>

record aggregate =
  ag_trust :: bool
  ag_reviewers :: "string list"
  ag_wait :: "int option"
  ag_expiry :: "int option"
  ag_limit :: "int option"

definition aggregate_step :: "context_rules \<Rightarrow> aggregate \<Rightarrow> aggregate" where
  "aggregate_step env a =
     \<lparr>ag_trust = (cx_minimumTrust env \<or> ag_trust a),
      ag_reviewers = fold js_add (opt_list (cx_requiredReviewers env)) (ag_reviewers a),
      ag_wait = (case cx_waitTimerSeconds env of
                   None \<Rightarrow> ag_wait a
                 | Some s \<Rightarrow> Some (max (case ag_wait a of None \<Rightarrow> 0 | Some w \<Rightarrow> w) s)),
      ag_expiry = Some (case ag_expiry a of None \<Rightarrow> cx_holdExpirySeconds env
                                          | Some h \<Rightarrow> min h (cx_holdExpirySeconds env)),
      ag_limit = (case cx_concurrencyLimit env of
                    None \<Rightarrow> ag_limit a
                  | Some l \<Rightarrow> Some (case ag_limit a of None \<Rightarrow> l | Some m \<Rightarrow> min m l))\<rparr>"

definition aggregateProtectionParams :: "context_rules list \<Rightarrow> effective_protection" where
  "aggregateProtectionParams envs =
     (let a = fold aggregate_step envs
            \<lparr>ag_trust = False, ag_reviewers = [], ag_wait = None, ag_expiry = None, ag_limit = None\<rparr>
      in \<lparr>ep_minimumTrust = ag_trust a,
          ep_requiredReviewers = sort_by code_unit_le (ag_reviewers a),
          ep_waitTimerSeconds = ag_wait a,
          ep_holdExpirySeconds = (case ag_expiry a of None \<Rightarrow> DEFAULT_HOLD_EXPIRY_SECONDS | Some h \<Rightarrow> h),
          ep_concurrencyLimit = ag_limit a,
          ep_concurrencyStrategy = (case envs of [] \<Rightarrow> StrategyQueue | e # _ \<Rightarrow> cx_concurrencyStrategy e)\<rparr>)"

definition buildEffectiveContext :: "context_rules \<Rightarrow> effective_protection \<Rightarrow> context_rules" where
  "buildEffectiveContext primary eff = primary
     \<lparr>cx_branchRestrictions := [], cx_triggerTypeFilters := [], cx_repoPatterns := [], cx_enabled := True,
      cx_minimumTrust := ep_minimumTrust eff,
      cx_requiredReviewers := (if ep_requiredReviewers eff \<noteq> [] then Some (ep_requiredReviewers eff) else None),
      cx_waitTimerSeconds := ep_waitTimerSeconds eff, cx_holdExpirySeconds := ep_holdExpirySeconds eff,
      cx_concurrencyLimit := ep_concurrencyLimit eff, cx_concurrencyStrategy := ep_concurrencyStrategy eff\<rparr>"

section \<open>The bound contexts of a job\<close>

record context_ref =
  cr_value :: string
  cr_dynamic :: bool

text \<open>\<open>effectiveContextRefs\<close>, on the two lists of a workflow and a job (\<open>None\<close>: not declared).\<close>

definition effectiveContextRefs :: "string list option \<Rightarrow> context_ref list option \<Rightarrow> context_ref list" where
  "effectiveContextRefs flow job =
     (let own = (opt_list job);
          ownStatic = map cr_value (filter (\<lambda>e. \<not> cr_dynamic e) own);
          inherited = map (\<lambda>v. \<lparr>cr_value = v, cr_dynamic = False\<rparr>)
            (filter (\<lambda>name. name \<notin> set ownStatic) (js_set (opt_list flow)))
      in inherited @ own)"

definition resolveJobContextNames :: "string list option \<Rightarrow> context_ref list option \<Rightarrow> string list \<times> bool" where
  "resolveJobContextNames flow job =
     (let refs = effectiveContextRefs flow job
      in (map cr_value (filter (\<lambda>e. \<not> cr_dynamic e) refs), list_ex cr_dynamic refs))"

definition DYNAMIC_ENV_PLACEHOLDER :: string where
  "DYNAMIC_ENV_PLACEHOLDER = ''(dynamic)''"

definition buildJobContextDisplayNames :: "string list option \<Rightarrow> context_ref list option \<Rightarrow> string list" where
  "buildJobContextDisplayNames flow job =
     map (\<lambda>e. if cr_dynamic e then DYNAMIC_ENV_PLACEHOLDER else cr_value e) (effectiveContextRefs flow job)"

section \<open>Satisfiability at registration\<close>

datatype unsatisfiable_rule = RuleEnabled | RuleBranch | RuleTrigger | RuleRepo

record unsatisfiable_binding =
  ub_jobName :: string
  ub_contexts :: "string list"
  ub_rule :: unsatisfiable_rule
  ub_disabled :: "string option"

definition isFixedPattern :: "string \<Rightarrow> bool" where
  "isFixedPattern p \<longleftrightarrow> \<not> list_ex (\<lambda>c. c \<in> set ''*?[]{}!()@+|'') p"

datatype intersection = Ok | Undecidable | Empty

fun intersect_loop :: "string list \<Rightarrow> string list list \<Rightarrow> intersection" where
  "intersect_loop common [] = (if common = [] then Empty else Ok)"
| "intersect_loop common (l # ls) =
     (let common' = filter (\<lambda>v. v \<in> set l) common
      in if common' = [] then Empty else intersect_loop common' ls)"

definition intersectFixedRule :: "string list list \<Rightarrow> intersection" where
  "intersectFixedRule rules =
     (let constraining = filter (\<lambda>l. l \<noteq> []) rules
      in if length constraining < 2 then Ok
         else if list_ex (list_ex (\<lambda>p. \<not> isFixedPattern p)) constraining then Undecidable
         else intersect_loop (js_set (hd constraining)) (tl constraining))"

definition checkBindingSatisfiable ::
  "string \<Rightarrow> context_rules option list \<Rightarrow> string list \<Rightarrow> unsatisfiable_binding option" where
  "checkBindingSatisfiable jobName envs envNames =
     (let present = List.map_filter id envs;
          problem = (\<lambda>r d. Some \<lparr>ub_jobName = jobName, ub_contexts = envNames, ub_rule = r, ub_disabled = d\<rparr>)
      in if present = [] then None
         else case find (\<lambda>e. \<not> cx_enabled e) present of
                Some e \<Rightarrow> problem RuleEnabled (Some (cx_name e))
              | None \<Rightarrow>
                  if intersectFixedRule (map cx_branchRestrictions present) = Empty then problem RuleBranch None
                  else if intersectFixedRule (map cx_triggerTypeFilters present) = Empty then problem RuleTrigger None
                  else if intersectFixedRule (map cx_repoPatterns present) = Empty then problem RuleRepo None
                  else None)"

text \<open>
  A workflow of a lock file as the registration reads it: the values of a list of names are
  unchecked, so only strings count, and a job without a name is skipped.
\<close>

record lock_binding_job =
  bj_name :: js
  bj_contexts :: "(js \<times> bool) list option"

record lock_binding_workflow =
  bw_contexts :: "js list option"
  bw_jobs :: "lock_binding_job list option"

fun js_texts :: "js list \<Rightarrow> string list" where
  "js_texts [] = []"
| "js_texts (JStr s # vs) = s # js_texts vs"
| "js_texts (v # vs) = js_texts vs"

fun static_refs :: "(js \<times> bool) list \<Rightarrow> context_ref list" where
  "static_refs [] = []"
| "static_refs ((JStr s, d) # es) = \<lparr>cr_value = s, cr_dynamic = d\<rparr> # static_refs es"
| "static_refs (e # es) = static_refs es"

definition staticBoundNames :: "lock_binding_workflow \<Rightarrow> lock_binding_job \<Rightarrow> string list" where
  "staticBoundNames flow job =
     map cr_value (filter (\<lambda>e. \<not> cr_dynamic e)
       (effectiveContextRefs (Some (js_texts (opt_list (bw_contexts flow))))
          (Some (static_refs (opt_list (bj_contexts job))))))"

text \<open>The first problem the walk meets, which the code throws; lookups are cached per name.\<close>

fun first_problem_job ::
  "(string \<Rightarrow> context_rules option) \<Rightarrow> lock_binding_workflow \<Rightarrow> lock_binding_job list \<Rightarrow> unsatisfiable_binding option" where
  "first_problem_job resolve flow [] = None"
| "first_problem_job resolve flow (job # jobs) =
     (case bj_name job of
        JStr name \<Rightarrow>
          (let names = staticBoundNames flow job
           in if names = [] then first_problem_job resolve flow jobs
              else case checkBindingSatisfiable name (map resolve names) names of
                     Some p \<Rightarrow> Some p
                   | None \<Rightarrow> first_problem_job resolve flow jobs)
      | _ \<Rightarrow> first_problem_job resolve flow jobs)"

fun assertWorkflowsSatisfiable ::
  "(string \<Rightarrow> context_rules option) \<Rightarrow> lock_binding_workflow list \<Rightarrow> unsatisfiable_binding option" where
  "assertWorkflowsSatisfiable resolve [] = None"
| "assertWorkflowsSatisfiable resolve (flow # flows) =
     (case first_problem_job resolve flow (opt_list (bw_jobs flow)) of
        Some p \<Rightarrow> Some p
      | None \<Rightarrow> assertWorkflowsSatisfiable resolve flows)"

section \<open>What a single context demands\<close>

lemma first_gate_Pass_iff: "first_gate gs = GatePass \<longleftrightarrow> (\<forall>g \<in> set gs. g = GatePass)"
  by (induction gs) auto

lemma branch_gate_iff: "evaluateBranchGate glob env ctx = GatePass \<longleftrightarrow> firstFailingRule glob env ctx = None"
  by (auto simp: evaluateBranchGate_def firstFailingRule_def split: if_splits)

lemma gate_Pass_iffs:
  "evaluateTrustGate env tier = GatePass \<longleftrightarrow> \<not> (cx_minimumTrust env \<and> tier = Some Unknown)"
  "evaluateConcurrencyGate env n = GatePass \<longleftrightarrow> (\<forall>l. cx_concurrencyLimit env = Some l \<longrightarrow> l \<le> 0 \<or> n < l)"
  "evaluateReviewerGate now env = GatePass \<longleftrightarrow> cx_requiredReviewers env \<in> {None, Some []}"
  "evaluateWaitTimerGate now env = GatePass \<longleftrightarrow> cx_waitTimerSeconds env = None"
  by (auto simp: evaluateTrustGate_def evaluateConcurrencyGate_def evaluateReviewerGate_def
      evaluateWaitTimerGate_def split: option.splits)

lemma protection_Pass_iff:
  "evaluateProtectionRules glob now env ctx n tier = GatePass \<longleftrightarrow>
     cx_enabled env \<and> firstFailingRule glob env ctx = None \<and> \<not> (cx_minimumTrust env \<and> tier = Some Unknown)
     \<and> (\<forall>l. cx_concurrencyLimit env = Some l \<longrightarrow> l \<le> 0 \<or> n < l)
     \<and> cx_requiredReviewers env \<in> {None, Some []} \<and> cx_waitTimerSeconds env = None"
  by (simp add: evaluateProtectionRules_def first_gate_Pass_iff branch_gate_iff gate_Pass_iffs
      del: first_gate.simps)

lemma multi_gates_Nil_iff:
  "evaluateMultiContextGates glob envs ctx = [] \<longleftrightarrow>
     (\<forall>(name, env) \<in> set envs. \<exists>e. env = Some e \<and> cx_enabled e \<and> firstFailingRule glob e ctx = None)"
  by (induction glob envs ctx rule: evaluateMultiContextGates.induct)
     (auto split: option.splits if_splits)

section \<open>All bound contexts must pass\<close>

text \<open>The fold of the aggregation, field by field.\<close>

lemma aggregate_fold:
  "ag_trust (fold aggregate_step envs a) \<longleftrightarrow> ag_trust a \<or> (\<exists>e \<in> set envs. cx_minimumTrust e)"
  "set (ag_reviewers (fold aggregate_step envs a))
     = set (ag_reviewers a) \<union> (\<Union>e \<in> set envs. set (opt_list (cx_requiredReviewers e)))"
  "ag_wait (fold aggregate_step envs a) = None \<longleftrightarrow> ag_wait a = None \<and> (\<forall>e \<in> set envs. cx_waitTimerSeconds e = None)"
  by (induction envs arbitrary: a)
     (auto simp: aggregate_step_def set_fold_js_add split: option.splits)

lemma aggregate_limit:
  assumes "\<And>l. ag_limit a = Some l \<Longrightarrow> 0 < l" "\<And>e l. e \<in> set envs \<Longrightarrow> cx_concurrencyLimit e = Some l \<Longrightarrow> 0 < l"
  shows "(\<forall>l. ag_limit (fold aggregate_step envs a) = Some l \<longrightarrow> l \<le> 0 \<or> n < l) \<longleftrightarrow>
     (\<forall>l. ag_limit a = Some l \<longrightarrow> n < l) \<and> (\<forall>e \<in> set envs. \<forall>l. cx_concurrencyLimit e = Some l \<longrightarrow> n < l)"
  using assms
proof (induction envs arbitrary: a)
  case Nil
  then show ?case by force
next
  case (Cons e envs)
  have pos: "\<And>l. ag_limit (aggregate_step e a) = Some l \<Longrightarrow> 0 < l"
    using Cons.prems(1) Cons.prems(2) [of e] by (auto simp: aggregate_step_def min_def split: option.splits if_splits)
  have "(\<forall>l. ag_limit (aggregate_step e a) = Some l \<longrightarrow> n < l) \<longleftrightarrow>
      (\<forall>l. ag_limit a = Some l \<longrightarrow> n < l) \<and> (\<forall>l. cx_concurrencyLimit e = Some l \<longrightarrow> n < l)"
    by (auto simp: aggregate_step_def split: option.splits)
  moreover have "\<And>e' l. e' \<in> set envs \<Longrightarrow> cx_concurrencyLimit e' = Some l \<Longrightarrow> 0 < l"
    using Cons.prems(2) by (meson list.set_intros(2))
  ultimately show ?case using Cons.IH [OF pos] by auto
qed

text \<open>
  C12. Several bound contexts gate a job as each of them alone would: with positive concurrency
  limits, the rejections are empty and the aggregated context passes exactly when every bound
  context passes by itself, for every run, every count of running jobs and every trust tier.
\<close>

theorem aggregated_gates_all_must_pass:
  assumes "envs \<noteq> []" and "\<forall>e \<in> set envs. \<forall>l. cx_concurrencyLimit e = Some l \<longrightarrow> 0 < l"
  shows "evaluateMultiContextGates glob (map (\<lambda>e. (cx_name e, Some e)) envs) ctx = []
       \<and> evaluateProtectionRules glob now (buildEffectiveContext (hd envs) (aggregateProtectionParams envs))
           ctx running tier = GatePass
     \<longleftrightarrow> (\<forall>e \<in> set envs. evaluateProtectionRules glob now e ctx running tier = GatePass)"
proof -
  define a where "a = fold aggregate_step envs
    \<lparr>ag_trust = False, ag_reviewers = [], ag_wait = None, ag_expiry = None, ag_limit = None\<rparr>"
  have trust: "ag_trust a \<longleftrightarrow> (\<exists>e \<in> set envs. cx_minimumTrust e)"
    and reviewers: "set (ag_reviewers a) = {} \<longleftrightarrow> (\<forall>e \<in> set envs. cx_requiredReviewers e \<in> {None, Some []})"
    and wait: "ag_wait a = None \<longleftrightarrow> (\<forall>e \<in> set envs. cx_waitTimerSeconds e = None)"
    by (simp_all add: a_def aggregate_fold opt_list_Nil_iff)
  have limit: "(\<forall>l. ag_limit a = Some l \<longrightarrow> l \<le> 0 \<or> running < l) \<longleftrightarrow>
      (\<forall>e \<in> set envs. \<forall>l. cx_concurrencyLimit e = Some l \<longrightarrow> l \<le> 0 \<or> running < l)"
    unfolding a_def using assms(2) by (subst aggregate_limit) (auto, force+)
  have "evaluateProtectionRules glob now (buildEffectiveContext (hd envs) (aggregateProtectionParams envs))
      ctx running tier = GatePass \<longleftrightarrow>
      \<not> (ag_trust a \<and> tier = Some Unknown) \<and> (\<forall>l. ag_limit a = Some l \<longrightarrow> l \<le> 0 \<or> running < l)
      \<and> set (ag_reviewers a) = {} \<and> ag_wait a = None"
    unfolding protection_Pass_iff
    by (simp add: buildEffectiveContext_def aggregateProtectionParams_def Let_def a_def [symmetric]
        firstFailingRule_def)
  then show ?thesis
    unfolding trust reviewers wait limit multi_gates_Nil_iff protection_Pass_iff by auto
qed

definition demo_context :: "string \<Rightarrow> string list \<Rightarrow> int option \<Rightarrow> context_rules" where
  "demo_context name branches limit =
     \<lparr>cx_name = name, cx_branchRestrictions = branches, cx_triggerTypeFilters = [], cx_repoPatterns = [],
      cx_concurrencyLimit = limit, cx_concurrencyStrategy = StrategyQueue, cx_requiredReviewers = None,
      cx_waitTimerSeconds = None, cx_holdExpirySeconds = 60, cx_minimumTrust = False, cx_enabled = True\<rparr>"

definition demo_run :: "string \<Rightarrow> dispatch_context" where
  "demo_run branch = \<lparr>dc_branch = branch, dc_triggerType = ''push'', dc_repository = ''o/r'', dc_internallyTriggered = False\<rparr>"

lemmas protection_eval = demo_context_def demo_run_def evaluateProtectionRules_def evaluateBranchGate_def
  evaluateTrustGate_def evaluateConcurrencyGate_def evaluateReviewerGate_def evaluateWaitTimerGate_def
  buildEffectiveContext_def aggregateProtectionParams_def aggregate_step_def firstFailingRule_def
  some_match_def opt_list_def

theorem aggregated_gates_all_must_pass_witness:
  "evaluateProtectionRules (\<lambda>p s. p = s) 0
     (buildEffectiveContext (demo_context ''a'' [''main''] (Some 3))
       (aggregateProtectionParams [demo_context ''a'' [''main''] (Some 3), demo_context ''b'' [] (Some 2)]))
     (demo_run ''main'') 2 None \<noteq> GatePass"
  using aggregated_gates_all_must_pass [of "[demo_context ''a'' [''main''] (Some 3), demo_context ''b'' [] (Some 2)]"
      "\<lambda>p s. p = s" "demo_run ''main''" 0 2 None]
  by (simp add: protection_eval)

text \<open>
  A limit of zero means no limit for a single context. Aggregated as the minimum it lifts the
  limit of every other context: two contexts of which one alone would queue the job let it pass
  together.
\<close>

lemma zero_limit_lifts_the_others:
  "evaluateProtectionRules glob now (demo_context ''b'' [] (Some 2)) (demo_run ''main'') 5 None
     = GateQueue HoldConcurrency (LimitReached 5 2)
   \<and> evaluateProtectionRules glob now
     (buildEffectiveContext (demo_context ''a'' [] (Some 0))
       (aggregateProtectionParams [demo_context ''a'' [] (Some 0), demo_context ''b'' [] (Some 2)]))
     (demo_run ''main'') 5 None = GatePass"
  by (simp add: protection_eval)

section \<open>Registration rejects only what can never pass\<close>

lemma intersect_loop_Empty_iff:
  "intersect_loop c ls = Empty \<longleftrightarrow> \<not> (\<exists>v \<in> set c. \<forall>l \<in> set ls. v \<in> set l)"
proof (induction ls arbitrary: c)
  case Nil
  show ?case by (auto simp: neq_Nil_conv)
next
  case (Cons l ls)
  show ?case
  proof (cases "filter (\<lambda>v. v \<in> set l) c = []")
    case True
    then show ?thesis by (auto simp: filter_empty_conv)
  next
    case False
    with Cons.IH [of "filter (\<lambda>v. v \<in> set l) c"] show ?thesis by (auto simp: Let_def)
  qed
qed

lemma intersect_loop_Ok: "intersect_loop c ls \<noteq> Undecidable"
  by (induction c ls rule: intersect_loop.induct) (auto simp: Let_def)

lemma constraining_Empty_iff:
  assumes "cs \<noteq> []"
  shows "intersect_loop (js_set (hd cs)) (tl cs) = Empty \<longleftrightarrow> \<not> (\<exists>v. \<forall>l \<in> set cs. v \<in> set l)"
  using assms by (cases cs) (auto simp: intersect_loop_Empty_iff)

lemma fixed_match:
  assumes "\<And>p s. isFixedPattern p \<Longrightarrow> glob p s \<longleftrightarrow> s = p" "\<forall>p \<in> set l. isFixedPattern p"
  shows "some_match glob l s \<longleftrightarrow> s \<in> set l"
  using assms by (auto simp: some_match_def list_ex_iff)

lemma intersectFixedRule_Empty:
  assumes "\<And>p s. isFixedPattern p \<Longrightarrow> glob p s \<longleftrightarrow> s = p" "intersectFixedRule rules = Empty"
  shows "\<not> (\<forall>l \<in> set rules. l \<noteq> [] \<longrightarrow> some_match glob l s)"
proof
  assume all: "\<forall>l \<in> set rules. l \<noteq> [] \<longrightarrow> some_match glob l s"
  let ?cs = "filter (\<lambda>l. l \<noteq> []) rules"
  from assms(2) have fixed: "\<forall>l \<in> set ?cs. \<forall>p \<in> set l. isFixedPattern p" and "?cs \<noteq> []"
    and "intersect_loop (js_set (hd ?cs)) (tl ?cs) = Empty"
    by (auto simp: intersectFixedRule_def Let_def list_ex_iff split: if_splits)
  then have "\<not> (\<exists>v. \<forall>l \<in> set ?cs. v \<in> set l)" using constraining_Empty_iff by blast
  moreover have "s \<in> set l" if "l \<in> set ?cs" for l
    using fixed_match [OF assms(1)] fixed all that by simp
  ultimately show False by blast
qed

lemma intersectFixedRule_nonempty:
  assumes "\<And>p s. isFixedPattern p \<Longrightarrow> glob p s \<longleftrightarrow> s = p" "intersectFixedRule rules \<noteq> Empty"
    and "\<forall>l \<in> set rules. \<forall>p \<in> set l. isFixedPattern p"
  shows "\<exists>s. \<forall>l \<in> set rules. l \<noteq> [] \<longrightarrow> some_match glob l s"
proof -
  let ?cs = "filter (\<lambda>l. l \<noteq> []) rules"
  have "\<exists>v. \<forall>l \<in> set ?cs. v \<in> set l"
  proof (cases "length ?cs < 2")
    case True
    then have "?cs = [] \<or> (\<exists>l. ?cs = [l])" by (cases ?cs) (auto simp: less_Suc_eq_0_disj numeral_2_eq_2)
    then show ?thesis
    proof
      assume "\<exists>l. ?cs = [l]"
      then obtain l where l: "?cs = [l]" ..
      then have "l \<in> set ?cs" by simp
      then have "l \<noteq> []" by simp
      with l show ?thesis by (metis list.set_sel(1) empty_iff empty_set insert_iff list.set(2))
    qed simp
  next
    case False
    then have ne: "?cs \<noteq> []" by auto
    from False assms(2,3) have "intersect_loop (js_set (hd ?cs)) (tl ?cs) \<noteq> Empty"
      by (auto simp: intersectFixedRule_def Let_def list_ex_iff split: if_splits)
    with constraining_Empty_iff [OF ne] show ?thesis by blast
  qed
  then obtain v where "\<forall>l \<in> set ?cs. v \<in> set l" ..
  then have "\<forall>l \<in> set rules. l \<noteq> [] \<longrightarrow> some_match glob l v"
    using fixed_match [OF assms(1)] assms(3) by simp
  then show ?thesis ..
qed

definition run_passes :: "globber \<Rightarrow> context_rules option list \<Rightarrow> dispatch_context \<Rightarrow> bool" where
  "run_passes glob envs ctx \<longleftrightarrow>
     evaluateMultiContextGates glob (map (\<lambda>e. (cx_name e, Some e)) (List.map_filter id envs)) ctx = []"

definition all_fixed :: "context_rules \<Rightarrow> bool" where
  "all_fixed e \<longleftrightarrow> list_all isFixedPattern
     (cx_branchRestrictions e @ cx_triggerTypeFilters e @ cx_repoPatterns e)"

lemma run_passes_iff:
  "run_passes glob envs ctx \<longleftrightarrow>
     (\<forall>e \<in> set (List.map_filter id envs). cx_enabled e \<and> firstFailingRule glob e ctx = None)"
  by (auto simp: run_passes_def multi_gates_Nil_iff)

lemma firstFailingRule_None_iff:
  "firstFailingRule glob e ctx = None \<longleftrightarrow>
     (cx_branchRestrictions e \<noteq> [] \<longrightarrow> \<not> (dc_internallyTriggered ctx \<and> dc_branch ctx = [])
        \<and> some_match glob (cx_branchRestrictions e) (dc_branch ctx))
     \<and> (cx_triggerTypeFilters e \<noteq> [] \<longrightarrow> some_match glob (cx_triggerTypeFilters e) (dc_triggerType ctx))
     \<and> (cx_repoPatterns e \<noteq> [] \<longrightarrow> some_match glob (cx_repoPatterns e) (dc_repository ctx))"
  by (auto simp: firstFailingRule_def)

text \<open>
  When a pattern without glob characters matches only itself, a binding that registration
  refuses can never dispatch: every run is rejected by one of its contexts. Conversely, when
  every restriction of its contexts is such a pattern, a binding that registration accepts is
  passed by some run.
\<close>

theorem checkBindingSatisfiable_sound:
  assumes fixed: "\<And>p s. isFixedPattern p \<Longrightarrow> glob p s \<longleftrightarrow> s = p"
  shows "(checkBindingSatisfiable jobName envs names \<noteq> None \<longrightarrow> (\<forall>ctx. \<not> run_passes glob envs ctx))
    \<and> (checkBindingSatisfiable jobName envs names = None \<and> (\<forall>e \<in> set (List.map_filter id envs). all_fixed e)
         \<longrightarrow> (\<exists>ctx. run_passes glob envs ctx))"
proof (intro conjI impI allI notI)
  let ?es = "List.map_filter id envs"
  fix ctx
  assume bad: "checkBindingSatisfiable jobName envs names \<noteq> None" and "run_passes glob envs ctx"
  then have pass: "\<forall>e \<in> set ?es. cx_enabled e \<and> firstFailingRule glob e ctx = None"
    by (simp add: run_passes_iff)
  then have "find (\<lambda>e. \<not> cx_enabled e) ?es = None" by (simp add: find_None_iff)
  with bad consider "intersectFixedRule (map cx_branchRestrictions ?es) = Empty"
    | "intersectFixedRule (map cx_triggerTypeFilters ?es) = Empty"
    | "intersectFixedRule (map cx_repoPatterns ?es) = Empty"
    by (auto simp: checkBindingSatisfiable_def Let_def split: if_splits)
  then show False
  proof cases
    case 1
    from intersectFixedRule_Empty [OF fixed this, of "dc_branch ctx"] pass show False
      by (auto simp: firstFailingRule_None_iff)
  next
    case 2
    from intersectFixedRule_Empty [OF fixed this, of "dc_triggerType ctx"] pass show False
      by (auto simp: firstFailingRule_None_iff)
  next
    case 3
    from intersectFixedRule_Empty [OF fixed this, of "dc_repository ctx"] pass show False
      by (auto simp: firstFailingRule_None_iff)
  qed
next
  let ?es = "List.map_filter id envs"
  assume "checkBindingSatisfiable jobName envs names = None \<and> (\<forall>e \<in> set ?es. all_fixed e)"
  then have ok: "checkBindingSatisfiable jobName envs names = None" and fx: "\<forall>e \<in> set ?es. all_fixed e" by auto
  show "\<exists>ctx. run_passes glob envs ctx"
  proof (cases "?es = []")
    case True
    then show ?thesis by (simp add: run_passes_iff)
  next
    case False
    with ok have enabled: "\<forall>e \<in> set ?es. cx_enabled e"
      and ne: "intersectFixedRule (map cx_branchRestrictions ?es) \<noteq> Empty"
        "intersectFixedRule (map cx_triggerTypeFilters ?es) \<noteq> Empty"
        "intersectFixedRule (map cx_repoPatterns ?es) \<noteq> Empty"
      by (auto simp: checkBindingSatisfiable_def Let_def find_None_iff split: if_splits option.splits)
    from intersectFixedRule_nonempty [OF fixed ne(1)] fx obtain b where
      "\<forall>l \<in> set (map cx_branchRestrictions ?es). l \<noteq> [] \<longrightarrow> some_match glob l b"
      by (auto simp: all_fixed_def list_all_iff)
    moreover from intersectFixedRule_nonempty [OF fixed ne(2)] fx obtain t where
      "\<forall>l \<in> set (map cx_triggerTypeFilters ?es). l \<noteq> [] \<longrightarrow> some_match glob l t"
      by (auto simp: all_fixed_def list_all_iff)
    moreover from intersectFixedRule_nonempty [OF fixed ne(3)] fx obtain r where
      "\<forall>l \<in> set (map cx_repoPatterns ?es). l \<noteq> [] \<longrightarrow> some_match glob l r"
      by (auto simp: all_fixed_def list_all_iff)
    ultimately have "run_passes glob envs
        \<lparr>dc_branch = b, dc_triggerType = t, dc_repository = r, dc_internallyTriggered = False\<rparr>"
      using enabled by (simp add: run_passes_iff firstFailingRule_None_iff)
    then show ?thesis ..
  qed
qed

theorem checkBindingSatisfiable_sound_witness:
  "\<not> run_passes (\<lambda>p s. p = s)
      [Some (demo_context ''a'' [''main''] None), None, Some (demo_context ''b'' [''dev'', ''rel''] None)]
      (demo_run ''main'')
   \<and> (\<exists>ctx. run_passes (\<lambda>p s. p = s)
      [Some (demo_context ''a'' [''main'', ''dev''] None), Some (demo_context ''b'' [''dev'', ''rel''] None)] ctx)"
  using checkBindingSatisfiable_sound [of "\<lambda>p s. p = s" "''deploy''"
      "[Some (demo_context ''a'' [''main''] None), None, Some (demo_context ''b'' [''dev'', ''rel''] None)]" "[]"]
    checkBindingSatisfiable_sound [of "\<lambda>p s. p = s" "''deploy''"
      "[Some (demo_context ''a'' [''main'', ''dev''] None), Some (demo_context ''b'' [''dev'', ''rel''] None)]" "[]"]
  by (auto simp: checkBindingSatisfiable_def intersectFixedRule_def demo_context_def isFixedPattern_def
      Let_def js_set_def js_add_def map_filter_simps all_fixed_def)

section \<open>The list of bound contexts\<close>

text \<open>Every static name of the workflow and of the job is gated, those of the workflow once and first.\<close>

lemma effectiveContextRefs_static:
  "set (map cr_value (filter (\<lambda>e. \<not> cr_dynamic e) (effectiveContextRefs flow job)))
     = set (opt_list flow) \<union> {cr_value e |e. e \<in> set (opt_list job) \<and> \<not> cr_dynamic e}"
  by (auto simp: effectiveContextRefs_def Let_def image_iff)

end
