(* ===== verification/Secrets.thy ===== *)
theory Secrets
  imports Labels
begin

text \<open>
  Which secrets a context gives to a job, in \<open>packages/engine/src/context/\<close>: the names of scopes
  and keys (\<open>scope-name.ts\<close>, \<open>secret-key.ts\<close>), host selectors (\<open>host-match.ts\<close>), scope templates
  (\<open>scope-template.ts\<close>), precedence (\<open>scope-resolver.ts\<close>) and the fold over several contexts
  (\<open>multi-context.ts\<close>); the routing of qualified scopes
  (\<open>packages/orchestrator/src/secrets/scope-routing.ts\<close>), the location a ciphertext is bound to
  (\<open>pg-secret-store.ts\<close>) and the roles of the secrets API (\<open>rbac.ts\<close>).

  Encryption itself is outside; the glob library on paths is the parameter \<open>gmatch\<close>, selectors
  are compiled with the parameters of theory \<open>Labels\<close>.
\<close>

section \<open>Names\<close>

definition name_char :: "char \<Rightarrow> bool" where
  "name_char c \<longleftrightarrow>
     (let n = (of_char c :: nat) in
        65 \<le> n \<and> n \<le> 90 \<or> 97 \<le> n \<and> n \<le> 122 \<or> 48 \<le> n \<and> n \<le> 57 \<or> c \<in> set ''_.-'')"

definition SCOPE_NAME_MAX_LENGTH :: nat where "SCOPE_NAME_MAX_LENGTH = 512"
definition SECRET_KEY_MAX_LENGTH :: nat where "SECRET_KEY_MAX_LENGTH = 256"

datatype name_error = NameEmpty | NameTooLong nat | EmptySegment | DotSegment | BadCharacters

fun validate_segments :: "string list \<Rightarrow> name_error option" where
  "validate_segments [] = None"
| "validate_segments (seg # segs) =
     (if seg = [] then Some EmptySegment
      else if seg = ''.'' \<or> seg = ''..'' then Some DotSegment
      else if \<not> list_all name_char seg then Some BadCharacters
      else validate_segments segs)"

definition validateScopeName :: "string \<Rightarrow> name_error option" where
  "validateScopeName path =
     (if path = [] then Some NameEmpty
      else if SCOPE_NAME_MAX_LENGTH < length path then Some (NameTooLong SCOPE_NAME_MAX_LENGTH)
      else validate_segments (js_split CHR ''/'' path))"

definition validateSecretKey :: "string \<Rightarrow> name_error option" where
  "validateSecretKey key =
     (if key = [] then Some NameEmpty
      else if SECRET_KEY_MAX_LENGTH < length key then Some (NameTooLong SECRET_KEY_MAX_LENGTH)
      else if \<not> list_all name_char key then Some BadCharacters
      else None)"

text \<open>The additional data under which \<open>setSecret\<close> encrypts a value.\<close>

definition secret_aad :: "string \<Rightarrow> string \<Rightarrow> string \<Rightarrow> string" where
  "secret_aad orgId scope key = orgId @ '':'' @ scope @ '':'' @ key"

section \<open>Qualified scopes\<close>

text \<open>The parts around the first colon.\<close>

definition split_colon :: "string \<Rightarrow> (string \<times> string) option" where
  "split_colon s =
     (case dropWhile (\<lambda>c. c \<noteq> CHR '':'') s of
        [] \<Rightarrow> None
      | c # rest \<Rightarrow> Some (takeWhile (\<lambda>c. c \<noteq> CHR '':'') s, rest))"

definition stripScopePrefix :: "string \<Rightarrow> string" where
  "stripScopePrefix scope = (case split_colon scope of None \<Rightarrow> scope | Some (pre, path) \<Rightarrow> path)"

definition matchScopePattern :: "(string \<Rightarrow> string \<Rightarrow> bool) \<Rightarrow> string \<Rightarrow> string \<Rightarrow> bool" where
  "matchScopePattern gmatch scope pat \<longleftrightarrow>
     (if scope = pat then True
      else case (split_colon scope, split_colon pat) of
             (Some (sp, spath), Some (pp, ppath)) \<Rightarrow>
               if sp \<noteq> pp then False else if spath = ppath then True else gmatch ppath spath
           | (Some (sp, spath), None) \<Rightarrow> if spath = pat then True else gmatch pat spath
           | (None, _) \<Rightarrow> gmatch pat scope)"

record 's resolved_scope =
  rs_store :: 's
  rs_backendName :: string
  rs_path :: string
  rs_qualified :: bool

definition DEFAULT_BACKEND_NAME :: string where "DEFAULT_BACKEND_NAME = ''pg''"

definition resolveScope :: "string \<Rightarrow> (string \<rightharpoonup> 's) \<Rightarrow> 's \<Rightarrow> string \<Rightarrow> 's resolved_scope" where
  "resolveScope wireScope stores defaultStore defaultBackendName =
     (let whole = \<lparr>rs_store = defaultStore, rs_backendName = defaultBackendName, rs_path = wireScope,
                   rs_qualified = False\<rparr>
      in case split_colon wireScope of
           Some (backendName, path) \<Rightarrow>
             if backendName = [] then whole
             else (case stores backendName of
                     Some store \<Rightarrow> \<lparr>rs_store = store, rs_backendName = backendName, rs_path = path,
                                    rs_qualified = True\<rparr>
                   | None \<Rightarrow> whole)
         | None \<Rightarrow> whole)"

definition loadRoutableStores :: "(string \<rightharpoonup> 's) option \<Rightarrow> 's \<Rightarrow> string \<Rightarrow> (string \<rightharpoonup> 's)" where
  "loadRoutableStores registry defaultStore defaultBackendName =
     (case registry of None \<Rightarrow> Map.empty | Some stores \<Rightarrow> stores)(defaultBackendName \<mapsto> defaultStore)"

definition toWireScope :: "string \<Rightarrow> string \<Rightarrow> string" where
  "toWireScope backendName path = backendName @ '':'' @ path"

section \<open>Hosts\<close>

record host_facts =
  hf_agentId :: string
  hf_host :: string
  hf_labels :: "string list"

definition matchesAllHosts :: "string \<Rightarrow> bool" where
  "matchesAllHosts pat \<longleftrightarrow> pat = [] \<or> pat = ''**''"

text \<open>\<open>lastIndexOf\<close> splits at the last slash, which must not be the first character.\<close>

definition asRegexString :: "string \<Rightarrow> (string \<times> string) option" where
  "asRegexString pat =
     (if length pat < 2 \<or> \<not> startsWith pat ''/'' then None
      else let flags = rev (takeWhile (\<lambda>c. c \<noteq> CHR ''/'') (rev pat));
               lastSlash = length pat - length flags - 1
           in if lastSlash = 0 then None else Some (take (lastSlash - 1) (tl pat), flags))"

text \<open>Labels of errors name the pattern.\<close>

definition compileHostPattern :: "glob_env \<Rightarrow> string \<Rightarrow> compile_error + label_matcher" where
  "compileHostPattern env pat =
     (case asRegexString pat of
        Some (source, flags) \<Rightarrow>
          if safe env source flags then Inr (Regex source flags)
          else Inl (UnsafeRegex source flags (''host_pattern /'' @ source @ ''/'' @ flags))
      | None \<Rightarrow> toLabelMatcher env (SelString pat) (''host_pattern '' @ pat))"

definition matchHostPattern :: "regex_engine \<Rightarrow> glob_env \<Rightarrow> host_facts \<Rightarrow> string \<Rightarrow> compile_error + bool" where
  "matchHostPattern rx env facts pat =
     (if matchesAllHosts pat then Inr True
      else case compileHostPattern env pat of
             Inl e \<Rightarrow> Inl e
           | Inr m \<Rightarrow>
               (let lm = canonicalizeMatcher m in Inr
                 (matcherMatches rx m (hf_agentId facts)
                  \<or> hf_host facts \<noteq> hf_agentId facts \<and> matcherMatches rx lm (canonicalizeLabel (hf_host facts))
                  \<or> list_ex (\<lambda>l. matcherMatches rx lm (canonicalizeLabel l)) (hf_labels facts))))"

definition hostSpecificity :: "glob_env \<Rightarrow> string \<Rightarrow> compile_error + nat" where
  "hostSpecificity env pat =
     (if matchesAllHosts pat then Inr 0
      else if asRegexString pat \<noteq> None then Inr 1
      else case toLabelMatcher env (SelString pat) (''host_pattern '' @ pat) of
             Inl e \<Rightarrow> Inl e
           | Inr m \<Rightarrow> Inr (case m of Regex s f \<Rightarrow> 1 | Exact v \<Rightarrow> 2))"

section \<open>Scope templates\<close>

text \<open>
  A placeholder at the front of a text: its token and what follows. A token contains no closing
  brace, so it ends at the first one.
\<close>

definition placeholder :: "string \<Rightarrow> (string \<times> string) option" where
  "placeholder s =
     (if \<not> startsWith s ''${'' then None
      else let tok = takeWhile (\<lambda>c. c \<noteq> CHR ''}'') (drop 2 s);
               rest = dropWhile (\<lambda>c. c \<noteq> CHR ''}'') (drop 2 s)
           in if rest = [] then None
              else if tok = ''agentId'' \<or> tok = ''host'' \<or> startsWith tok ''label:'' \<and> length tok > 6
              then Some (tok, tl rest)
              else None)"

lemma placeholder_shorter: "placeholder s = Some (tok, rest) \<Longrightarrow> length rest < length s"
proof -
  assume ph: "placeholder s = Some (tok, rest)"
  let ?d = "dropWhile (\<lambda>c. c \<noteq> CHR ''}'') (drop 2 s)"
  from ph have "rest = tl ?d" "?d \<noteq> []" by (auto simp: placeholder_def Let_def split: if_splits)
  then have "length rest < length ?d" by simp
  also have "\<dots> \<le> length s" by (metis length_dropWhile_le length_drop diff_le_self order.trans)
  finally show ?thesis .
qed

definition SAFE_SEGMENT :: "string \<Rightarrow> bool" where
  "SAFE_SEGMENT v \<longleftrightarrow> v \<noteq> [] \<and> list_all name_char v"

definition token_value :: "host_facts \<Rightarrow> string \<Rightarrow> string option" where
  "token_value facts tok =
     (if tok = ''agentId'' then Some (hf_agentId facts)
      else if tok = ''host'' then Some (hf_host facts)
      else let prefix = drop 6 tok @ '':'';
               hits = sort_by code_unit_le
                 (map (drop (length prefix)) (filter (\<lambda>l. startsWith l prefix) (hf_labels facts)))
           in case hits of [] \<Rightarrow> None | v # _ \<Rightarrow> Some v)"

text \<open>The replacement, left to right: the text and whether a token was unresolved.\<close>

function replace_placeholders :: "host_facts \<Rightarrow> string \<Rightarrow> string \<times> bool" where
  "replace_placeholders facts s =
     (case placeholder s of
        Some (tok, rest) \<Rightarrow>
          (let (out, bad) = replace_placeholders facts rest
           in case token_value facts tok of
                Some v \<Rightarrow> if SAFE_SEGMENT v then (v @ out, bad) else (out, True)
              | None \<Rightarrow> (out, True))
      | None \<Rightarrow>
          (case s of
             [] \<Rightarrow> ([], False)
           | c # s' \<Rightarrow> (let (out, bad) = replace_placeholders facts s' in (c # out, bad))))"
  by pat_completeness auto

termination
  by (relation "measure (\<lambda>(facts, s). length s)") (auto dest: placeholder_shorter)

declare replace_placeholders.simps [simp del]

definition substituteScopePattern :: "string \<Rightarrow> host_facts \<Rightarrow> string option" where
  "substituteScopePattern pat facts =
     (if \<not> str_includes pat ''${'' then Some pat
      else let (out, unresolved) = replace_placeholders facts pat
           in if unresolved then None else Some out)"

section \<open>Precedence\<close>

record context_binding =
  cb_scopePattern :: string
  cb_hostPattern :: string

record scoped_secret =
  ss_scope :: string
  ss_key :: string
  ss_value :: string

definition bindingScopeForHost ::
  "regex_engine \<Rightarrow> glob_env \<Rightarrow> context_binding \<Rightarrow> host_facts option \<Rightarrow> compile_error + string option" where
  "bindingScopeForHost rx env b facts =
     (case facts of
        Some hf \<Rightarrow>
          (case matchHostPattern rx env hf (cb_hostPattern b) of
             Inl e \<Rightarrow> Inl e
           | Inr matches \<Rightarrow> Inr (if matches then substituteScopePattern (cb_scopePattern b) hf else None))
      | None \<Rightarrow> Inr (if cb_hostPattern b \<noteq> ''**'' \<and> cb_hostPattern b \<noteq> [] then None
                      else if str_includes (cb_scopePattern b) ''${'' then None
                      else Some (cb_scopePattern b)))"

record secret_candidate =
  sc_secret :: scoped_secret
  sc_scopeDepth :: nat
  sc_hostSpec :: nat

definition candidateWins :: "secret_candidate \<Rightarrow> secret_candidate option \<Rightarrow> bool" where
  "candidateWins c existing \<longleftrightarrow>
     (case existing of
        None \<Rightarrow> True
      | Some x \<Rightarrow> if sc_hostSpec c \<noteq> sc_hostSpec x then sc_hostSpec x < sc_hostSpec c
                  else sc_scopeDepth x < sc_scopeDepth c)"

type_synonym resolved_secrets = "(string \<times> secret_candidate) list"

definition candidate_of :: "nat \<Rightarrow> scoped_secret \<Rightarrow> secret_candidate" where
  "candidate_of spec secret =
     \<lparr>sc_secret = secret, sc_scopeDepth = length (js_split CHR ''/'' (stripScopePrefix (ss_scope secret))),
      sc_hostSpec = spec\<rparr>"

definition consider_candidate :: "secret_candidate \<Rightarrow> resolved_secrets \<Rightarrow> resolved_secrets" where
  "consider_candidate c m =
     (if candidateWins c (map_of m (ss_key (sc_secret c))) then amap_set (ss_key (sc_secret c)) c m else m)"

text \<open>What a binding contributes, in the order of the secrets.\<close>

definition binding_candidates ::
  "regex_engine \<Rightarrow> glob_env \<Rightarrow> (string \<Rightarrow> string \<Rightarrow> bool) \<Rightarrow> scoped_secret list \<Rightarrow> host_facts option
    \<Rightarrow> context_binding \<Rightarrow> compile_error + secret_candidate list" where
  "binding_candidates rx env gmatch secrets facts b =
     (case bindingScopeForHost rx env b facts of
        Inl e \<Rightarrow> Inl e
      | Inr None \<Rightarrow> Inr []
      | Inr (Some scopePattern) \<Rightarrow>
          (case hostSpecificity env (cb_hostPattern b) of
             Inl e \<Rightarrow> Inl e
           | Inr spec \<Rightarrow> Inr (map (candidate_of spec)
               (filter (\<lambda>s. matchScopePattern gmatch (ss_scope s) scopePattern) secrets))))"

fun resolve_loop ::
  "regex_engine \<Rightarrow> glob_env \<Rightarrow> (string \<Rightarrow> string \<Rightarrow> bool) \<Rightarrow> scoped_secret list \<Rightarrow> host_facts option
    \<Rightarrow> context_binding list \<Rightarrow> resolved_secrets \<Rightarrow> compile_error + resolved_secrets" where
  "resolve_loop rx env gmatch secrets facts [] m = Inr m"
| "resolve_loop rx env gmatch secrets facts (b # bs) m =
     (case binding_candidates rx env gmatch secrets facts b of
        Inl e \<Rightarrow> Inl e
      | Inr cs \<Rightarrow> resolve_loop rx env gmatch secrets facts bs (fold consider_candidate cs m))"

definition resolveSecretsWithProvenance ::
  "regex_engine \<Rightarrow> glob_env \<Rightarrow> (string \<Rightarrow> string \<Rightarrow> bool) \<Rightarrow> context_binding list \<Rightarrow> scoped_secret list
    \<Rightarrow> host_facts option \<Rightarrow> compile_error + resolved_secrets" where
  "resolveSecretsWithProvenance rx env gmatch bindings secrets facts =
     resolve_loop rx env gmatch secrets facts bindings []"

definition resolveSecretsForContext ::
  "regex_engine \<Rightarrow> glob_env \<Rightarrow> (string \<Rightarrow> string \<Rightarrow> bool) \<Rightarrow> context_binding list \<Rightarrow> scoped_secret list
    \<Rightarrow> (scoped_secret \<Rightarrow> string) \<Rightarrow> host_facts option \<Rightarrow> compile_error + (string \<times> string) list" where
  "resolveSecretsForContext rx env gmatch bindings secrets decryptFn facts =
     (case resolveSecretsWithProvenance rx env gmatch bindings secrets facts of
        Inl e \<Rightarrow> Inl e
      | Inr m \<Rightarrow> Inr (js_object (map (\<lambda>(k, c). (k, decryptFn (sc_secret c))) m)))"

text \<open>\<open>Object.assign\<close> of the maps in order.\<close>

definition mergeOrderedMaps :: "(string \<times> string) list list \<Rightarrow> (string \<times> string) list" where
  "mergeOrderedMaps ms = js_object (concat ms)"

section \<open>A ciphertext is bound to one location\<close>

lemma name_char_not_colon: "name_char c \<Longrightarrow> c \<noteq> CHR '':''"
  by (auto simp: name_char_def Let_def)

lemma validate_segments_chars: "validate_segments segs = None \<Longrightarrow> seg \<in> set segs \<Longrightarrow> list_all name_char seg"
  by (induction segs rule: validate_segments.induct) (auto split: if_splits)

lemma valid_scope_no_colon: "validateScopeName s = None \<Longrightarrow> CHR '':'' \<notin> set s"
proof
  assume "validateScopeName s = None" and colon: "CHR '':'' \<in> set s"
  then have "validate_segments (js_split CHR ''/'' s) = None" by (simp add: validateScopeName_def split: if_splits)
  from validate_segments_chars [OF this] js_split_chars [of s "CHR ''/''"] colon show False
    by (auto simp: list_all_iff dest!: name_char_not_colon)
qed

lemma valid_key_no_colon: "validateSecretKey k = None \<Longrightarrow> CHR '':'' \<notin> set k"
  by (auto simp: validateSecretKey_def list_all_iff dest: name_char_not_colon split: if_splits)

lemma last_split_unique:
  assumes "xs @ c # ys = xs' @ c # ys'" "c \<notin> set ys" "c \<notin> set ys'"
  shows "xs = xs' \<and> ys = ys'"
  using assms by (auto simp: append_eq_append_conv2 Cons_eq_append_conv append_eq_Cons_conv)

text \<open>
  C13. For valid scope names and keys the data a ciphertext authenticates names one location:
  equal data means equal organization, scope and key, whatever the organization id contains.
\<close>

theorem secret_aad_injective:
  assumes "validateScopeName scope = None" "validateSecretKey key = None"
    and "validateScopeName scope' = None" "validateSecretKey key' = None"
    and "secret_aad org scope key = secret_aad org' scope' key'"
  shows "org = org' \<and> scope = scope' \<and> key = key'"
proof -
  have "(org @ '':'' @ scope) @ CHR '':'' # key = (org' @ '':'' @ scope') @ CHR '':'' # key'"
    using assms(5) by (simp add: secret_aad_def)
  from last_split_unique [OF this valid_key_no_colon [OF assms(2)] valid_key_no_colon [OF assms(4)]]
  have key: "key = key'" and "org @ CHR '':'' # scope = org' @ CHR '':'' # scope'" by simp_all
  from last_split_unique [OF this(2) valid_scope_no_colon [OF assms(1)] valid_scope_no_colon [OF assms(3)]] key
  show ?thesis by simp
qed

theorem secret_aad_injective_witness:
  "validateScopeName ''aws/prod'' = None \<and> secret_aad ''o:1'' ''aws/prod'' ''TOKEN'' = ''o:1:aws/prod:TOKEN''
   \<and> secret_aad ''o:1'' ''aws/prod'' ''TOKEN'' \<noteq> secret_aad ''o'' ''1'' ''TOKEN''"
  using secret_aad_injective [of "''aws/prod''" "''TOKEN''" "''1''" "''TOKEN''" "''o:1''" "''o''"]
  by (auto simp: validateScopeName_def validateSecretKey_def SCOPE_NAME_MAX_LENGTH_def
      SECRET_KEY_MAX_LENGTH_def name_char_def secret_aad_def)

text \<open>A qualified scope of a registered backend comes back as its backend and path.\<close>

lemma split_colon_join: "CHR '':'' \<notin> set b \<Longrightarrow> split_colon (b @ '':'' @ p) = Some (b, p)"
proof -
  assume "CHR '':'' \<notin> set b"
  then have "\<And>x. x \<in> set b \<Longrightarrow> x \<noteq> CHR '':''" by auto
  then show ?thesis by (simp add: split_colon_def dropWhile_append2 takeWhile_append2)
qed

lemma resolveScope_toWireScope:
  assumes "stores b = Some st" "b \<noteq> []" "CHR '':'' \<notin> set b"
  shows "resolveScope (toWireScope b path) stores ds dn
           = \<lparr>rs_store = st, rs_backendName = b, rs_path = path, rs_qualified = True\<rparr>"
  using assms split_colon_join [OF assms(3)] by (simp add: resolveScope_def toWireScope_def)

section \<open>The winning secret\<close>

abbreviation cand_key :: "secret_candidate \<Rightarrow> string" where
  "cand_key c \<equiv> ss_key (sc_secret c)"

lemma wins_trans: "candidateWins a (Some b) \<Longrightarrow> candidateWins b (Some c) \<Longrightarrow> candidateWins a (Some c)"
  by (auto simp: candidateWins_def split: if_splits)

lemma wins_over_loser: "candidateWins a (Some b) \<Longrightarrow> \<not> candidateWins c (Some b) \<Longrightarrow> candidateWins a (Some c)"
  by (auto simp: candidateWins_def split: if_splits)

text \<open>\<open>c\<close> is the first among the strongest candidates of its key.\<close>

definition wins_for :: "string \<Rightarrow> secret_candidate list \<Rightarrow> secret_candidate \<Rightarrow> bool" where
  "wins_for k cs c \<longleftrightarrow> cand_key c = k \<and>
     (\<exists>pre post. cs = pre @ c # post
        \<and> (\<forall>x \<in> set pre. cand_key x = k \<longrightarrow> candidateWins c (Some x))
        \<and> (\<forall>x \<in> set post. cand_key x = k \<longrightarrow> \<not> candidateWins x (Some c)))"

lemma wins_for_beaten:
  assumes "wins_for k cs c" "candidateWins x (Some c)" "y \<in> set cs" "cand_key y = k"
  shows "candidateWins x (Some y)"
  using assms unfolding wins_for_def by (auto; blast intro: wins_trans wins_over_loser)

lemma wins_for_snoc: "wins_for k cs c \<Longrightarrow> (cand_key x = k \<Longrightarrow> \<not> candidateWins x (Some c)) \<Longrightarrow> wins_for k (cs @ [x]) c"
proof -
  assume c: "wins_for k cs c" and x: "cand_key x = k \<Longrightarrow> \<not> candidateWins x (Some c)"
  from c obtain pre post where "cs @ [x] = pre @ c # (post @ [x])" "cand_key c = k"
      "\<forall>x \<in> set pre. cand_key x = k \<longrightarrow> candidateWins c (Some x)"
      "\<forall>y \<in> set (post @ [x]). cand_key y = k \<longrightarrow> \<not> candidateWins y (Some c)"
    unfolding wins_for_def using x by auto
  then show ?thesis unfolding wins_for_def by blast
qed

lemma map_of_consider:
  "map_of (consider_candidate x m) k =
     (if cand_key x = k \<and> candidateWins x (map_of m k) then Some x else map_of m k)"
  by (auto simp: consider_candidate_def map_of_amap_set)

lemma fold_consider:
  "case map_of (fold consider_candidate cs []) k of
     None \<Rightarrow> \<forall>c \<in> set cs. cand_key c \<noteq> k
   | Some c \<Rightarrow> wins_for k cs c"
proof (induction cs rule: rev_induct)
  case (snoc x cs)
  define m where "m = fold consider_candidate cs []"
  have step: "map_of (fold consider_candidate (cs @ [x]) []) k =
      (if cand_key x = k \<and> candidateWins x (map_of m k) then Some x else map_of m k)"
    by (simp add: m_def map_of_consider)
  from snoc [folded m_def] show ?case
  proof (cases "map_of m k")
    case None
    with snoc [folded m_def] have none: "\<forall>c \<in> set cs. cand_key c \<noteq> k" by simp
    then have "cand_key x = k \<Longrightarrow> wins_for k (cs @ [x]) x" unfolding wins_for_def
      by (intro conjI exI [of _ cs] exI [of _ "[]"]) auto
    with none show ?thesis by (simp only: step None) (auto simp: candidateWins_def)
  next
    case (Some c)
    with snoc [folded m_def] have c: "wins_for k cs c" by simp
    have "cand_key x = k \<Longrightarrow> candidateWins x (Some c) \<Longrightarrow> wins_for k (cs @ [x]) x" unfolding wins_for_def
      by (intro conjI exI [of _ cs] exI [of _ "[]"]) (auto dest: wins_for_beaten [OF c])
    then show ?thesis using wins_for_snoc [OF c, of x] by (simp only: step Some) auto
  qed
qed simp

lemma resolve_loop_fold:
  "resolve_loop rx env gm secrets facts bs m =
     (case map_err (binding_candidates rx env gm secrets facts) bs of
        Inl e \<Rightarrow> Inl e | Inr css \<Rightarrow> Inr (fold consider_candidate (concat css) m))"
  by (induction bs arbitrary: m) (auto split: sum.splits)


definition demo_secrets :: "scoped_secret list" where
  "demo_secrets =
     [\<lparr>ss_scope = ''pg:aws/prod/db'', ss_key = ''PW'', ss_value = ''deep''\<rparr>,
      \<lparr>ss_scope = ''pg:h1'', ss_key = ''PW'', ss_value = ''host''\<rparr>,
      \<lparr>ss_scope = ''pg:aws'', ss_key = ''ID'', ss_value = ''any''\<rparr>]"

definition demo_bindings :: "context_binding list" where
  "demo_bindings =
     [\<lparr>cb_scopePattern = ''aws/prod/db'', cb_hostPattern = ''**''\<rparr>,
      \<lparr>cb_scopePattern = ''${host}'', cb_hostPattern = ''/h/''\<rparr>]"

definition demo_env :: glob_env where
  "demo_env = \<lparr>glob = (\<lambda>s. None), safe = (\<lambda>s f. True)\<rparr>"

definition demo_resolved :: resolved_secrets where
  "demo_resolved = [(''PW'', \<lparr>sc_secret = \<lparr>ss_scope = ''pg:h1'', ss_key = ''PW'', ss_value = ''host''\<rparr>,
                       sc_scopeDepth = 1, sc_hostSpec = 1\<rparr>)]"


section \<open>Templates cannot inject\<close>

text \<open>A pattern without its placeholders.\<close>

function pattern_literals :: "string \<Rightarrow> string" where
  "pattern_literals s =
     (case placeholder s of
        Some (tok, rest) \<Rightarrow> pattern_literals rest
      | None \<Rightarrow> (case s of [] \<Rightarrow> [] | c # s' \<Rightarrow> c # pattern_literals s'))"
  by pat_completeness auto

termination
  by (relation "measure length") (auto dest: placeholder_shorter)

declare pattern_literals.simps [simp del]

lemma replace_keeps_specials:
  "replace_placeholders facts s = (out, False) \<Longrightarrow>
     filter (\<lambda>c. \<not> name_char c) out = filter (\<lambda>c. \<not> name_char c) (pattern_literals s)"
proof (induction facts s arbitrary: out rule: replace_placeholders.induct)
  case (1 facts s)
  show ?case
  proof (cases "placeholder s")
    case None
    show ?thesis using 1(1,3) None
      by (auto simp: replace_placeholders.simps [of facts s] pattern_literals.simps [of s]
          split: list.splits prod.splits)
  next
    case (Some tr)
    obtain tok rest where tr: "tr = (tok, rest)" by force
    then show ?thesis using 1(2,3) Some
      by (auto simp: replace_placeholders.simps [of facts s] pattern_literals.simps [of s]
          SAFE_SEGMENT_def list_all_iff filter_empty_conv split: option.splits if_splits prod.splits)
  qed
qed

lemma no_placeholder_literals: "\<not> str_includes s ''${'' \<Longrightarrow> pattern_literals s = s"
proof (induction s)
  case Nil
  then show ?case by (simp add: pattern_literals.simps [of "[]"] placeholder_def)
next
  case (Cons c s)
  then have "placeholder (c # s) = None" by (simp add: placeholder_def)
  with Cons show ?case by (simp add: pattern_literals.simps [of "c # s"])
qed

text \<open>
  The values of a host cannot change the shape of a scope pattern: the text outside
  \<open>[A-Za-z0-9._-]\<close> (the slashes and every wildcard) is that of the template, in its order.
\<close>

theorem substituteScopePattern_no_injection:
  assumes "substituteScopePattern pat facts = Some out"
  shows "filter (\<lambda>c. \<not> name_char c) out = filter (\<lambda>c. \<not> name_char c) (pattern_literals pat)"
  using assms replace_keeps_specials [of facts pat out]
  by (auto simp: substituteScopePattern_def no_placeholder_literals split: if_splits prod.splits)

theorem substituteScopePattern_no_injection_witness:
  "substituteScopePattern ''p/${label:r}/**'' \<lparr>hf_agentId = ''a'', hf_host = ''h'', hf_labels = [''r:w'', ''r:b'']\<rparr>
     = Some ''p/b/**''
   \<and> filter (\<lambda>c. \<not> name_char c) ''p/b/**'' = filter (\<lambda>c. \<not> name_char c) (pattern_literals ''p/${label:r}/**'')
   \<and> substituteScopePattern ''p/${host}'' \<lparr>hf_agentId = ''a'', hf_host = ''*'', hf_labels = []\<rparr> = None"
proof -
  have *: "substituteScopePattern ''p/${label:r}/**''
      \<lparr>hf_agentId = ''a'', hf_host = ''h'', hf_labels = [''r:w'', ''r:b'']\<rparr> = Some ''p/b/**''"
    by code_simp
  have "substituteScopePattern ''p/${host}'' \<lparr>hf_agentId = ''a'', hf_host = ''*'', hf_labels = []\<rparr> = None"
    by code_simp
  with * substituteScopePattern_no_injection [OF *] show ?thesis by blast
qed

section \<open>Roles of the secrets API\<close>

datatype role = Owner | Admin | Auditor

datatype permission =
    Context_create | Context_read | Context_update | Context_delete
  | Secret_read | Secret_write | Secret_delete | Secret_reveal
  | Audit_read | Token_manage | Key_rotate | Run_read | Run_cancel
  | Event_log_read | Event_log_read_payload | Access_log_read | Scheduled_job_trigger
  | Attestation_retry | Event_dlq_read | Event_dlq_manage | Orchestrator_drain
  | Ci_trust_read | Ci_trust_admin | Scaler_read | Scaler_manage | Peer_manage
  | Test_run_trigger | Test_run_read

fun ROLE_PERMISSIONS :: "role \<Rightarrow> permission list" where
  "ROLE_PERMISSIONS Owner =
     [Context_create, Context_read, Context_update, Context_delete, Secret_read, Secret_write,
      Secret_delete, Secret_reveal, Audit_read, Token_manage, Key_rotate, Run_read, Run_cancel,
      Event_log_read, Event_log_read_payload, Access_log_read, Scheduled_job_trigger,
      Attestation_retry, Event_dlq_read, Event_dlq_manage, Orchestrator_drain, Ci_trust_read,
      Ci_trust_admin, Scaler_read, Scaler_manage, Peer_manage, Test_run_trigger, Test_run_read]"
| "ROLE_PERMISSIONS Admin =
     [Context_create, Context_read, Context_update, Context_delete, Secret_read, Secret_write,
      Secret_delete, Secret_reveal, Audit_read, Run_read, Run_cancel,
      Event_log_read, Event_log_read_payload, Access_log_read, Scheduled_job_trigger,
      Attestation_retry, Event_dlq_read, Event_dlq_manage, Orchestrator_drain, Ci_trust_read,
      Ci_trust_admin, Scaler_read, Scaler_manage, Peer_manage, Test_run_trigger, Test_run_read]"
| "ROLE_PERMISSIONS Auditor =
     [Context_read, Audit_read, Run_read, Event_log_read, Access_log_read, Event_dlq_read,
      Scaler_read, Test_run_read]"

definition hasPermission :: "role \<Rightarrow> permission \<Rightarrow> bool" where
  "hasPermission r p \<longleftrightarrow> p \<in> set (ROLE_PERMISSIONS r)"

datatype permission_denied = PermissionDeniedError role permission

definition requirePermission :: "role \<Rightarrow> permission \<Rightarrow> permission_denied + unit" where
  "requirePermission r p = (if hasPermission r p then Inr () else Inl (PermissionDeniedError r p))"

definition canAccessSecretValues :: "role \<Rightarrow> bool" where
  "canAccessSecretValues r \<longleftrightarrow> r = Owner \<or> r = Admin"

lemma owner_has_all: "hasPermission Owner p"
  by (cases p) (simp_all add: hasPermission_def)

lemma admin_lacks: "hasPermission Admin p \<longleftrightarrow> p \<noteq> Token_manage \<and> p \<noteq> Key_rotate"
  by (cases p) (simp_all add: hasPermission_def)

lemma roles_nest: "hasPermission Auditor p \<Longrightarrow> hasPermission Admin p"
  by (cases p) (simp_all add: hasPermission_def)

lemma secret_values_permission: "canAccessSecretValues r \<longleftrightarrow> hasPermission r Secret_read"
  by (cases r) (simp_all add: hasPermission_def canAccessSecretValues_def)

end
