(* ===== verification/RateLimits.thy ===== *)
theory RateLimits
  imports Kici_Prelude
begin

text \<open>
  The limiters: the sliding window of \<open>packages/orchestrator/src/helpers/rate-limiter.ts\<close> and the
  circuit breaker of events over it (\<open>packages/orchestrator/src/events/circuit-breaker.ts\<close>), the
  sampling limiter of the access log (\<open>packages/orchestrator/src/audit/sampling-rate-limiter.ts\<close>),
  the token buckets of a WebSocket (\<open>packages/engine/src/ws/rate-limiter.ts\<close>) and the record of
  recent spawn failures (\<open>packages/orchestrator/src/scaler/failure-tracker.ts\<close>).

  Every reading of the clock is an argument, in milliseconds. The numbers of a token bucket are
  rationals: the rounding of doubles is not modelled.
\<close>

section \<open>Sliding window\<close>

record sliding_window =
  sw_state :: "(string \<times> int list) list"
  sw_lastSweepAt :: int
  sw_maxPerWindow :: int
  sw_windowMs :: int

datatype rate_result = Allowed | RetryAfter int

definition new_SlidingWindowRateLimiter :: "int \<Rightarrow> int \<Rightarrow> sliding_window" where
  "new_SlidingWindowRateLimiter maxPerWindow windowMs =
     \<lparr>sw_state = [], sw_lastSweepAt = 0, sw_maxPerWindow = maxPerWindow, sw_windowMs = windowMs\<rparr>"

definition maybeSweep :: "int \<Rightarrow> int \<Rightarrow> sliding_window \<Rightarrow> sliding_window" where
  "maybeSweep now windowStart s =
     (if now - sw_lastSweepAt s < sw_windowMs s then s
      else s\<lparr>sw_lastSweepAt := now,
             sw_state := filter (\<lambda>(key, ts). \<not> (ts = [] \<or> last ts \<le> windowStart)) (sw_state s)\<rparr>)"

text \<open>The bucket of a key without its expired prefix; a bucket that expired is deleted.\<close>

definition trim_bucket :: "string \<Rightarrow> int \<Rightarrow> (string \<times> int list) list \<Rightarrow> (string \<times> int list) list \<times> int list option" where
  "trim_bucket key windowStart m =
     (case map_of m key of
        None \<Rightarrow> (m, None)
      | Some ts \<Rightarrow>
          (let valid = dropWhile (\<lambda>t. t \<le> windowStart) ts
           in if valid = [] then (amap_delete key m, None) else (amap_set key valid m, Some valid)))"

definition check :: "string \<Rightarrow> int option \<Rightarrow> int \<Rightarrow> sliding_window \<Rightarrow> sliding_window \<times> rate_result" where
  "check key maxOverride now s0 =
     (let mx = (case maxOverride of None \<Rightarrow> sw_maxPerWindow s0 | Some m \<Rightarrow> m);
          windowStart = now - sw_windowMs s0;
          s = maybeSweep now windowStart s0;
          (m, timestamps) = trim_bucket key windowStart (sw_state s);
          ts = opt_list timestamps
      in if mx \<le> int (length ts)
         then (s\<lparr>sw_state := m\<rparr>,
               RetryAfter (max 1 ((case ts of [] \<Rightarrow> now | t # _ \<Rightarrow> t) + sw_windowMs s - now)))
         else (s\<lparr>sw_state := amap_set key (ts @ [now]) m\<rparr>, Allowed))"

definition size_of :: "sliding_window \<Rightarrow> nat" where
  "size_of s = length (sw_state s)"

definition reset :: "sliding_window \<Rightarrow> sliding_window" where
  "reset s = s\<lparr>sw_state := [], sw_lastSweepAt := 0\<rparr>"

section \<open>Event circuit breaker\<close>

record event_router_config =
  er_maxChainDepth :: int
  er_rateLimitPerWorkflowPerMinute :: int

definition new_EventCircuitBreaker :: "event_router_config \<Rightarrow> sliding_window" where
  "new_EventCircuitBreaker cfg = new_SlidingWindowRateLimiter (er_rateLimitPerWorkflowPerMinute cfg) 60000"

definition checkChainDepth :: "event_router_config \<Rightarrow> int \<Rightarrow> bool" where
  "checkChainDepth cfg currentDepth \<longleftrightarrow> \<not> er_maxChainDepth cfg \<le> currentDepth"

text \<open>\<open>setting\<close> is the tunable of the cluster, when a reader of settings is attached.\<close>

definition checkRateLimit ::
  "event_router_config \<Rightarrow> int option \<Rightarrow> string \<Rightarrow> int \<Rightarrow> sliding_window \<Rightarrow> sliding_window \<times> rate_result" where
  "checkRateLimit cfg setting rateKey now s =
     check rateKey
       (Some (case setting of None \<Rightarrow> er_rateLimitPerWorkflowPerMinute cfg | Some m \<Rightarrow> m)) now s"

lemma length_filter_mono: "(\<And>x. P x \<Longrightarrow> Q x) \<Longrightarrow> length (filter P xs) \<le> length (filter Q xs)"
  by (induction xs) auto

section \<open>What the sliding window promises\<close>

text \<open>
  The specification keeps every event it ever allowed and counts those of the key inside the
  window; nothing is trimmed or swept.
\<close>

type_synonym history = "(string \<times> int) list"

definition times_of :: "string \<Rightarrow> history \<Rightarrow> int list" where
  "times_of key h = map snd (filter (\<lambda>e. fst e = key) h)"

definition spec_check :: "int \<Rightarrow> string \<Rightarrow> int \<Rightarrow> int \<Rightarrow> history \<Rightarrow> history \<times> bool" where
  "spec_check w key mx now h =
     (if int (length (filter (\<lambda>t. now - w < t) (times_of key h))) < mx then (h @ [(key, now)], True)
      else (h, False))"

text \<open>A sequence of requests: key, limit of the call, time.\<close>

type_synonym request = "string \<times> int option \<times> int"

fun run_check :: "request list \<Rightarrow> sliding_window \<Rightarrow> bool list" where
  "run_check [] s = []"
| "run_check ((key, mx, now) # rs) s =
     (let (s', r) = check key mx now s in (r = Allowed) # run_check rs s')"

definition limit_of :: "sliding_window \<Rightarrow> int option \<Rightarrow> int" where
  "limit_of s mx = (case mx of None \<Rightarrow> sw_maxPerWindow s | Some m \<Rightarrow> m)"

fun run_spec :: "int \<Rightarrow> int \<Rightarrow> request list \<Rightarrow> history \<Rightarrow> history \<times> bool list" where
  "run_spec w dflt [] h = (h, [])"
| "run_spec w dflt ((key, mx, now) # rs) h =
     (let (h1, ok) = spec_check w key (case mx of None \<Rightarrow> dflt | Some m \<Rightarrow> m) now h;
          (h2, oks) = run_spec w dflt rs h1
      in (h2, ok # oks))"

lemma times_of_snoc: "times_of k (h @ [(k', t)]) = times_of k h @ (if k' = k then [t] else [])"
  by (simp add: times_of_def)

text \<open>
  Until the time \<open>L\<close> of the last request, limiter and history agree on what is inside a window.
\<close>

definition bucket :: "string \<Rightarrow> sliding_window \<Rightarrow> int list" where
  "bucket k s = opt_list (map_of (sw_state s) k)"

definition sw_rel :: "int \<Rightarrow> sliding_window \<Rightarrow> history \<Rightarrow> bool" where
  "sw_rel L s h \<longleftrightarrow> distinct (amap_keys (sw_state s)) \<and>
     (\<forall>k. sorted (bucket k s) \<and> (\<forall>t \<in> set (bucket k s). t \<le> L)
        \<and> filter (\<lambda>t. L - sw_windowMs s < t) (bucket k s) = filter (\<lambda>t. L - sw_windowMs s < t) (times_of k h))"

lemma filter_later:
  assumes "filter (\<lambda>t. a < t) xs = filter (\<lambda>t. a < t) ys" "(a::int) \<le> b"
  shows "filter (\<lambda>t. b < t) xs = filter (\<lambda>t. b < t) ys"
proof -
  have "filter (\<lambda>t. b < t) zs = filter (\<lambda>t. b < t) (filter (\<lambda>t. a < t) zs)" for zs
    using assms(2) by (auto intro: filter_cong)
  with assms(1) show ?thesis by metis
qed

lemma sw_rel_later: "sw_rel L s h \<Longrightarrow> L \<le> L' \<Longrightarrow> sw_rel L' s h"
  by (auto simp: sw_rel_def intro: filter_later [where a = "L - sw_windowMs s"] order.trans)

lemma dropWhile_sorted: "sorted xs \<Longrightarrow> dropWhile (\<lambda>t. t \<le> c) xs = filter (\<lambda>t. c < t) (xs :: int list)"
proof (induction xs)
  case (Cons a xs)
  then have "c < a \<Longrightarrow> filter (\<lambda>t. c < t) xs = xs" by (auto simp: filter_id_conv)
  with Cons show ?case by auto
qed simp

lemma map_of_filter_distinct:
  "distinct (amap_keys m) \<Longrightarrow>
     map_of (filter (\<lambda>(k, v). P k v) m) k = (case map_of m k of Some v \<Rightarrow> if P k v then Some v else None | None \<Rightarrow> None)"
  by (induction m) (auto simp: map_of_eq_None_iff image_iff split: option.splits)

lemma sorted_last_live: "sorted xs \<Longrightarrow> last xs \<le> c \<Longrightarrow> filter (\<lambda>t. c < t) xs = ([] :: int list)"
proof (cases xs rule: rev_cases)
  case (snoc ys y)
  assume "sorted xs" "last xs \<le> c"
  with snoc have "t \<in> set xs \<Longrightarrow> t \<le> c" for t by (auto simp: sorted_append)
  then show ?thesis by (auto simp: filter_empty_conv not_less)
qed simp

lemma sw_rel_sweep:
  assumes "sw_rel now s h"
  shows "sw_rel now (maybeSweep now (now - sw_windowMs s) s) h"
proof (cases "now - sw_lastSweepAt s < sw_windowMs s")
  case False
  let ?s = "maybeSweep now (now - sw_windowMs s) s"
  have st: "sw_state ?s = filter (\<lambda>(k, ts). \<not> (ts = [] \<or> last ts \<le> now - sw_windowMs s)) (sw_state s)"
      and w: "sw_windowMs ?s = sw_windowMs s" using False by (simp_all add: maybeSweep_def)
  have d: "distinct (amap_keys (sw_state s))" using assms by (simp add: sw_rel_def)
  have b: "bucket k ?s = (if bucket k s = [] \<or> last (bucket k s) \<le> now - sw_windowMs s then [] else bucket k s)" for k
    by (auto simp: bucket_def opt_list_def st map_of_filter_distinct [OF d] split: option.splits)
  have "filter (\<lambda>t. now - sw_windowMs s < t) (bucket k s) = []"
    if "last (bucket k s) \<le> now - sw_windowMs s" for k
    using that assms by (intro sorted_last_live) (auto simp: sw_rel_def)
  then show ?thesis using assms d
    by (auto simp: sw_rel_def b w st distinct_map_filter) (metis filter.simps(1))
qed (use assms in \<open>simp add: maybeSweep_def\<close>)

lemma maybeSweep_config [simp]:
  "sw_windowMs (maybeSweep now c s) = sw_windowMs s" "sw_maxPerWindow (maybeSweep now c s) = sw_maxPerWindow s"
  by (simp_all add: maybeSweep_def)

lemma trim_bucket_live:
  assumes "trim_bucket key c m = (m', ts)" "\<And>k. sorted (opt_list (map_of m k))" "distinct (amap_keys m)"
  shows "opt_list ts = filter (\<lambda>t. c < t) (opt_list (map_of m key))"
    and "opt_list (map_of m' k) = (if k = key then opt_list ts else opt_list (map_of m k))"
    and "distinct (amap_keys m')"
  using assms(1,3) assms(2) [of key]
  by (auto simp: trim_bucket_def opt_list_def dropWhile_sorted Let_def simp del: map_of_eq_Some_iff
      split: option.splits if_splits)

text \<open>One call: the limiter allows exactly what the specification allows.\<close>

lemma check_step:
  assumes rel: "sw_rel L s h" and "L \<le> now" and run: "check key mx now s = (s', r)"
  shows "spec_check (sw_windowMs s) key (limit_of s mx) now h
           = (if r = Allowed then h @ [(key, now)] else h, r = Allowed)"
    and "sw_rel now s' (if r = Allowed then h @ [(key, now)] else h)"
    and "sw_windowMs s' = sw_windowMs s \<and> sw_maxPerWindow s' = sw_maxPerWindow s"
    and "r = RetryAfter d \<Longrightarrow> d = max 1
           ((case filter (\<lambda>t. now - sw_windowMs s < t) (times_of key h) of [] \<Rightarrow> now | t # _ \<Rightarrow> t) + sw_windowMs s - now)"
proof -
  let ?c = "now - sw_windowMs s"
  define q where "q = maybeSweep now ?c s"
  have w: "sw_windowMs q = sw_windowMs s" by (simp add: q_def)
  have q: "sw_rel now q h" unfolding q_def by (rule sw_rel_sweep [OF sw_rel_later [OF rel \<open>L \<le> now\<close>]])
  obtain m ts where trim: "trim_bucket key ?c (sw_state q) = (m, ts)" by force
  note live = trim_bucket_live [OF trim, folded bucket_def]
  have sq: "sorted (bucket k q)" "distinct (amap_keys (sw_state q))" "\<forall>t \<in> set (bucket k q). t \<le> now"
    "filter (\<lambda>t. ?c < t) (bucket k q) = filter (\<lambda>t. ?c < t) (times_of k h)" for k
    using q w by (simp_all add: sw_rel_def)
  have ts: "opt_list ts = filter (\<lambda>t. ?c < t) (times_of key h)"
    using live(1) [OF sq(1,2)] sq(4) by simp
  have m: "opt_list (map_of m k) = (if k = key then opt_list ts else bucket k q)" "distinct (amap_keys m)" for k
    using live(2,3) [OF sq(1,2)] by (simp_all add: bucket_def)
  have ts_ok: "sorted (opt_list ts)" "\<forall>t \<in> set (opt_list ts). t \<le> now \<and> ?c < t"
    using live(1) [OF sq(1,2)] sq(1,3) [of key] by (auto simp: sorted_wrt_filter)
  show "r = RetryAfter d \<Longrightarrow> d = max 1
           ((case filter (\<lambda>t. now - sw_windowMs s < t) (times_of key h) of [] \<Rightarrow> now | t # _ \<Rightarrow> t) + sw_windowMs s - now)"
    using run trim w by (auto simp: check_def q_def [symmetric] Let_def ts [symmetric] split: if_splits)
  have r: "r = Allowed \<longleftrightarrow> int (length (opt_list ts)) < limit_of s mx"
    and s': "s' = q\<lparr>sw_state := (if r = Allowed then amap_set key (opt_list ts @ [now]) m else m)\<rparr>"
    using run trim by (auto simp: check_def q_def limit_of_def Let_def split: if_splits prod.splits option.splits)
  show "spec_check (sw_windowMs s) key (limit_of s mx) now h
           = (if r = Allowed then h @ [(key, now)] else h, r = Allowed)"
    using r by (auto simp: spec_check_def ts)
  show "sw_windowMs s' = sw_windowMs s \<and> sw_maxPerWindow s' = sw_maxPerWindow s"
    by (simp add: s' q_def)
  then have w': "sw_windowMs s' = sw_windowMs s" ..
  have b: "bucket k s' = (if k = key then opt_list ts @ (if r = Allowed then [now] else []) else bucket k q)" for k
    using m(1) by (auto simp: s' bucket_def opt_list_def)
  have f: "filter (\<lambda>t. ?c < t) (opt_list ts) = filter (\<lambda>t. ?c < t) (times_of key h)" by (simp add: ts)
  show "sw_rel now s' (if r = Allowed then h @ [(key, now)] else h)"
    unfolding sw_rel_def
  proof (intro conjI allI)
    show "distinct (amap_keys (sw_state s'))" by (simp add: s' m(2))
    fix k
    show "sorted (bucket k s')" using ts_ok sq(1) by (auto simp: b sorted_append)
    show "\<forall>t \<in> set (bucket k s'). t \<le> now" using ts_ok sq(3) by (auto simp: b)
    show "filter (\<lambda>t. now - sw_windowMs s' < t) (bucket k s') =
          filter (\<lambda>t. now - sw_windowMs s' < t) (times_of k (if r = Allowed then h @ [(key, now)] else h))"
      using f sq(4) by (auto simp: b w' times_of_snoc)
  qed
qed

lemma run_check_refines:
  "sw_rel L s h \<Longrightarrow> sorted (map (snd \<circ> snd) rs) \<Longrightarrow> \<forall>r \<in> set rs. L \<le> snd (snd r) \<Longrightarrow>
     run_check rs s = snd (run_spec (sw_windowMs s) (sw_maxPerWindow s) rs h)"
proof (induction rs arbitrary: L s h)
  case (Cons req rs)
  obtain key mx now where req: "req = (key, mx, now)" by (cases req) auto
  obtain s' r where c: "check key mx now s = (s', r)" by force
  from Cons.prems(3) req have "L \<le> now" by simp
  note step = check_step [OF Cons.prems(1) this c]
  have rest: "sorted (map (snd \<circ> snd) rs)" "\<forall>r \<in> set rs. now \<le> snd (snd r)"
    using Cons.prems(2) req by (auto simp: comp_def)
  show ?case using Cons.IH [OF step(2) rest] step(1,3)
    by (auto simp: req c limit_of_def split: prod.splits)
qed simp

lemma run_check_fresh:
  assumes "sorted (map (snd \<circ> snd) requests)"
  shows "run_check requests (new_SlidingWindowRateLimiter mx w) = snd (run_spec w mx requests [])"
proof -
  let ?s = "new_SlidingWindowRateLimiter mx w"
  define L where "L = (case requests of [] \<Rightarrow> 0 | r # _ \<Rightarrow> snd (snd r))"
  have "sw_rel L ?s []" by (simp add: sw_rel_def new_SlidingWindowRateLimiter_def bucket_def opt_list_def times_of_def)
  moreover have "\<forall>r \<in> set requests. L \<le> snd (snd r)"
    using assms by (cases requests) (auto simp: L_def)
  ultimately show ?thesis using run_check_refines [OF _ assms]
    by (simp add: new_SlidingWindowRateLimiter_def)
qed

text \<open>
  C15. The limiter answers every sequence of calls with a clock that never goes back as the plain
  count over its whole history would: trimming, deleting and sweeping buckets are never seen.
\<close>

theorem sliding_window_refines:
  assumes "sorted (map (snd \<circ> snd) requests)"
  shows "run_check requests (new_SlidingWindowRateLimiter mx w) = snd (run_spec w mx requests [])"
  using assms by (rule run_check_fresh)

definition demo_requests :: "request list" where
  "demo_requests = [(''a'', None, 1000), (''b'', None, 1001), (''a'', None, 1002), (''a'', None, 1003),
     (''a'', None, 2000), (''a'', Some 0, 2001), (''a'', None, 9000)]"

theorem sliding_window_refines_witness:
  "run_check demo_requests (new_SlidingWindowRateLimiter 2 1000)
     = snd (run_spec 1000 2 demo_requests [])
   \<and> run_check demo_requests (new_SlidingWindowRateLimiter 2 1000)
     = [True, True, True, False, True, False, True]"
proof
  show "run_check demo_requests (new_SlidingWindowRateLimiter 2 1000) = snd (run_spec 1000 2 demo_requests [])"
    by (rule sliding_window_refines) (simp add: demo_requests_def)
  show "run_check demo_requests (new_SlidingWindowRateLimiter 2 1000)
     = [True, True, True, False, True, False, True]" by code_simp
qed

text \<open>The history of the specification never has more than the limit in any window.\<close>

definition in_window :: "int \<Rightarrow> int \<Rightarrow> int list \<Rightarrow> nat" where
  "in_window w c ts = length (filter (\<lambda>t. c - w < t \<and> t \<le> c) ts)"

lemma run_spec_bound:
  assumes "sorted (map (snd \<circ> snd) rs)" "\<forall>(k, mx, t) \<in> set rs. (case mx of None \<Rightarrow> dflt | Some m \<Rightarrow> m) \<le> M"
    and "\<forall>e \<in> set h. \<forall>r \<in> set rs. snd e \<le> snd (snd r)"
    and "\<And>c. int (in_window w c (times_of k h)) \<le> M"
  shows "int (in_window w c (times_of k (fst (run_spec w dflt rs h)))) \<le> M"
  using assms
proof (induction rs arbitrary: h)
  case (Cons req rs)
  obtain key mx now where req: "req = (key, mx, now)" by (cases req) auto
  let ?mx = "case mx of None \<Rightarrow> dflt | Some m \<Rightarrow> m"
  obtain h1 ok where step: "spec_check w key ?mx now h = (h1, ok)" by force
  have "int (in_window w c (times_of k h1)) \<le> M" for c
  proof (cases "ok \<and> k = key \<and> c - w < now \<and> now \<le> c")
    case True
    then have h1: "h1 = h @ [(key, now)]" and live: "int (length (filter (\<lambda>t. now - w < t) (times_of key h))) < ?mx"
      using step by (auto simp: spec_check_def split: if_splits)
    have "in_window w c (times_of key h) \<le> length (filter (\<lambda>t. now - w < t) (times_of key h))"
      unfolding in_window_def using True by (intro length_filter_mono) auto
    with live True Cons.prems(2) show ?thesis by (auto simp: h1 times_of_snoc in_window_def req)
  next
    case False
    then have "in_window w c (times_of k h1) = in_window w c (times_of k h)"
      using step by (auto simp: spec_check_def times_of_snoc in_window_def split: if_splits)
    with Cons.prems(4) show ?thesis by simp
  qed
  moreover have "\<forall>e \<in> set h1. \<forall>r \<in> set rs. snd e \<le> snd (snd r)"
    using step Cons.prems(1,3) req by (fastforce simp: spec_check_def split: if_splits)
  ultimately show ?case using Cons.IH [of h1] Cons.prems(1,2) step
    by (auto simp: req split: prod.splits)
qed simp

definition allowed_times :: "string \<Rightarrow> request list \<Rightarrow> bool list \<Rightarrow> int list" where
  "allowed_times key rs oks =
     map (\<lambda>(r, ok). snd (snd r)) (filter (\<lambda>(r, ok). ok \<and> fst r = key) (zip rs oks))"

lemma allowed_times_spec:
  "times_of k (fst (run_spec w dflt rs h)) = times_of k h @ allowed_times k rs (snd (run_spec w dflt rs h))"
proof (induction rs arbitrary: h)
  case (Cons req rs)
  obtain key mx now where req: "req = (key, mx, now)" by (cases req) auto
  obtain h1 ok where 1: "spec_check w key (case mx of None \<Rightarrow> dflt | Some m \<Rightarrow> m) now h = (h1, ok)" by force
  then have "h1 = (if ok then h @ [(key, now)] else h)" by (auto simp: spec_check_def split: if_splits)
  with 1 Cons.IH [of h1] show ?case
    by (auto simp: req times_of_snoc allowed_times_def split: prod.splits)
qed (simp add: allowed_times_def)

text \<open>
  C16. However the calls of a key are timed, the limiter never allows more of them in any window
  than the largest limit asked for.
\<close>

theorem sliding_window_bound:
  assumes "sorted (map (snd \<circ> snd) requests)" "0 \<le> M" "mx \<le> M"
    and "\<forall>m \<in> set (List.map_filter (fst \<circ> snd) requests). m \<le> M"
  shows "int (in_window w c (allowed_times k requests (run_check requests (new_SlidingWindowRateLimiter mx w)))) \<le> M"
proof -
  have "\<forall>(k, m, t) \<in> set requests. (case m of None \<Rightarrow> mx | Some m \<Rightarrow> m) \<le> M"
    using assms(3,4) by (force simp: List.map_filter_def split: option.splits)
  from run_spec_bound [OF assms(1) this, where h = "[]" and w = w and c = c and k = k] assms(2)
  show ?thesis
    by (simp add: run_check_fresh [OF assms(1)] allowed_times_spec) (simp add: times_of_def in_window_def)
qed

theorem sliding_window_bound_witness:
  "int (in_window 1000 1999 (allowed_times ''a'' demo_requests
      (run_check demo_requests (new_SlidingWindowRateLimiter 2 1000)))) \<le> 2
   \<and> in_window 1000 1999 (allowed_times ''a'' demo_requests
      (run_check demo_requests (new_SlidingWindowRateLimiter 2 1000))) = 2"
proof
  show "int (in_window 1000 1999 (allowed_times ''a'' demo_requests
      (run_check demo_requests (new_SlidingWindowRateLimiter 2 1000)))) \<le> 2"
    by (rule sliding_window_bound) (simp_all add: demo_requests_def List.map_filter_def)
  show "in_window 1000 1999 (allowed_times ''a'' demo_requests
      (run_check demo_requests (new_SlidingWindowRateLimiter 2 1000))) = 2"
    by code_simp
qed

text \<open>A refused key that waits the advertised time is served, if nobody used the key meanwhile.\<close>

lemma retry_after_suffices:
  assumes "sw_rel L s h" "L \<le> now" "check key mx now s = (s', RetryAfter d)"
    and "0 < limit_of s mx" "int (length (filter (\<lambda>t. now - sw_windowMs s < t) (times_of key h))) \<le> limit_of s mx"
    and "0 < sw_windowMs s"
  shows "snd (check key mx (now + d) s') = Allowed"
proof -
  let ?w = "sw_windowMs s"
  note step = check_step [OF assms(1-3), simplified]
  obtain t ts where live: "filter (\<lambda>t. now - ?w < t) (times_of key h) = t # ts"
    using step(1) assms(4) by (cases "filter (\<lambda>t. now - ?w < t) (times_of key h)") (auto simp: spec_check_def split: if_splits)
  from arg_cong [OF live, of set] have "now - ?w < t" by auto
  with live step(4) have d: "now + d - ?w = t" "1 \<le> d" by auto
  have cfg: "sw_windowMs s' = ?w" "limit_of s' mx = limit_of s mx" using step(3) by (auto simp: limit_of_def split: option.splits)
  have "filter (\<lambda>x. t < x) (times_of key h) = filter (\<lambda>x. t < x) (t # ts)"
    unfolding live [symmetric] using d by (auto intro: filter_cong)
  then have "length (filter (\<lambda>x. t < x) (times_of key h)) \<le> length ts" by simp
  with assms(5) live have fits: "int (length (filter (\<lambda>x. t < x) (times_of key h))) < limit_of s mx" by simp
  obtain s'' r where run: "check key mx (now + d) s' = (s'', r)" by force
  from d(2) have "now \<le> now + d" by simp
  from check_step(1) [OF step(2) this run] fits d(1) cfg run show ?thesis
    by (auto simp: spec_check_def)
qed

section \<open>Token buckets\<close>

record token_bucket =
  tb_capacity :: rat
  tb_refillRate :: rat
  tb_tokens :: rat
  tb_lastRefill :: int

text \<open>A retry time is \<open>Infinity\<close> when the bucket never refills.\<close>

datatype retry_ms = Ms int | InfinityMs

fun max_ms :: "retry_ms \<Rightarrow> retry_ms \<Rightarrow> retry_ms" where
  "max_ms (Ms a) (Ms b) = Ms (max a b)"
| "max_ms _ _ = InfinityMs"

definition new_TokenBucket :: "rat \<Rightarrow> rat \<Rightarrow> int \<Rightarrow> token_bucket" where
  "new_TokenBucket capacity refillRate now =
     \<lparr>tb_capacity = capacity, tb_refillRate = refillRate, tb_tokens = capacity, tb_lastRefill = now\<rparr>"

definition refill :: "int \<Rightarrow> token_bucket \<Rightarrow> token_bucket" where
  "refill now b =
     (let elapsed = of_int (now - tb_lastRefill b) / 1000
      in b\<lparr>tb_tokens := min (tb_capacity b) (tb_tokens b + elapsed * tb_refillRate b), tb_lastRefill := now\<rparr>)"

definition retryAfterMs :: "rat \<Rightarrow> token_bucket \<Rightarrow> retry_ms" where
  "retryAfterMs amount b =
     (let deficit = amount - tb_tokens b
      in if tb_refillRate b = 0 then InfinityMs else Ms \<lceil>deficit / tb_refillRate b * 1000\<rceil>)"

text \<open>The answer is \<open>None\<close> when allowed.\<close>

definition consume :: "rat \<Rightarrow> int \<Rightarrow> token_bucket \<Rightarrow> token_bucket \<times> retry_ms option" where
  "consume amount now b0 =
     (let b = refill now b0
      in if amount \<le> tb_tokens b then (b\<lparr>tb_tokens := tb_tokens b - amount\<rparr>, None)
         else (b, Some (retryAfterMs amount b)))"

definition peek :: "rat \<Rightarrow> int \<Rightarrow> token_bucket \<Rightarrow> token_bucket \<times> retry_ms option" where
  "peek amount now b0 =
     (let b = refill now b0
      in if amount \<le> tb_tokens b then (b, None) else (b, Some (retryAfterMs amount b)))"

section \<open>The limiter of a WebSocket\<close>

record rate_limiter_config =
  rl_messageCapacity :: "rat option"
  rl_messageRefillRate :: "rat option"
  rl_bytesCapacity :: "rat option"
  rl_bytesRefillRate :: "rat option"
  rl_maxMessageSize :: "rat option"
  rl_disconnectAfterMs :: "int option"

datatype limit_reason = MessageTooLarge | ExceedsBurstCapacity | SustainedViolation

datatype limit_action = AllowMessage | Warn retry_ms | Disconnect limit_reason

record ws_limiter =
  ws_messages :: token_bucket
  ws_bytes :: token_bucket
  ws_violationStart :: "int option"
  ws_maxMessageSize :: rat
  ws_bytesCapacity :: rat
  ws_disconnectAfterMs :: int

definition or_default :: "'a option \<Rightarrow> 'a \<Rightarrow> 'a" where
  "or_default v d = (case v of None \<Rightarrow> d | Some x \<Rightarrow> x)"

definition new_WsRateLimiter :: "rate_limiter_config \<Rightarrow> int \<times> int \<Rightarrow> ws_limiter" where
  "new_WsRateLimiter cfg t =
     (let bytesCapacity = or_default (rl_bytesCapacity cfg) (2 * 1024 * 1024)
      in \<lparr>ws_messages = new_TokenBucket (or_default (rl_messageCapacity cfg) 200)
            (or_default (rl_messageRefillRate cfg) 100) (fst t),
          ws_bytes = new_TokenBucket bytesCapacity (or_default (rl_bytesRefillRate cfg) (500 * 1024)) (snd t),
          ws_violationStart = None,
          ws_maxMessageSize = or_default (rl_maxMessageSize cfg) (4 * 1024 * 1024),
          ws_bytesCapacity = bytesCapacity,
          ws_disconnectAfterMs = or_default (rl_disconnectAfterMs cfg) 5000\<rparr>)"

text \<open>
  A message: its size, whether it is exempt, and the readings of the clock its check makes: one per
  bucket when it looks, then one per bucket when it pays, or, when it is refused, one for the start
  of a violation and one for its duration.
\<close>

record ws_message =
  wm_size :: rat
  wm_heartbeat :: bool
  wm_peek1 :: int
  wm_peek2 :: int
  wm_then1 :: int
  wm_then2 :: int

definition check_message :: "ws_message \<Rightarrow> ws_limiter \<Rightarrow> ws_limiter \<times> limit_action" where
  "check_message e s =
     (if wm_heartbeat e then (s, AllowMessage)
      else if ws_maxMessageSize s < wm_size e then (s, Disconnect MessageTooLarge)
      else if ws_bytesCapacity s < wm_size e then (s, Disconnect ExceedsBurstCapacity)
      else
        let (m, msgResult) = peek 1 (wm_peek1 e) (ws_messages s);
            (b, byteResult) = peek (wm_size e) (wm_peek2 e) (ws_bytes s)
        in if msgResult = None \<and> byteResult = None
           then (s\<lparr>ws_messages := fst (consume 1 (wm_then1 e) m),
                   ws_bytes := fst (consume (wm_size e) (wm_then2 e) b),
                   ws_violationStart := None\<rparr>, AllowMessage)
           else
             let start = (case ws_violationStart s of None \<Rightarrow> wm_then1 e | Some t \<Rightarrow> t);
                 s' = s\<lparr>ws_messages := m, ws_bytes := b, ws_violationStart := Some start\<rparr>
             in if ws_disconnectAfterMs s < wm_then2 e - start then (s', Disconnect SustainedViolation)
                else (s', Warn (max_ms (or_default msgResult (Ms 0)) (or_default byteResult (Ms 0)))))"

section \<open>Metered admission\<close>

text \<open>
  A step that admits events against a level which refills with the clock: what a run admits is
  paid by the initial level and the time that passed.
\<close>

fun meter_run :: "('e \<Rightarrow> 's \<Rightarrow> 's \<times> bool) \<Rightarrow> 'e list \<Rightarrow> 's \<Rightarrow> 's \<times> bool list" where
  "meter_run step [] s = (s, [])"
| "meter_run step (e # es) s =
     (let (s1, ok) = step e s; (s2, oks) = meter_run step es s1 in (s2, ok # oks))"

fun timely :: "('e \<Rightarrow> 's \<Rightarrow> bool) \<Rightarrow> ('e \<Rightarrow> 's \<Rightarrow> 's \<times> bool) \<Rightarrow> 'e list \<Rightarrow> 's \<Rightarrow> bool" where
  "timely ready step [] s = True"
| "timely ready step (e # es) s = (ready e s \<and> timely ready step es (fst (step e s)))"

definition admitted :: "('e \<Rightarrow> rat) \<Rightarrow> 'e list \<Rightarrow> bool list \<Rightarrow> rat" where
  "admitted cost es oks = sum_list (map (\<lambda>(e, ok). if ok then cost e else 0) (zip es oks))"

locale metered =
  fixes step :: "'e \<Rightarrow> 's \<Rightarrow> 's \<times> bool" and ready :: "'e \<Rightarrow> 's \<Rightarrow> bool"
    and sound :: "'s \<Rightarrow> bool" and cost :: "'e \<Rightarrow> rat"
    and level :: "'s \<Rightarrow> rat" and rate :: "'s \<Rightarrow> rat" and clock :: "'s \<Rightarrow> int"
  assumes keeps: "sound s \<Longrightarrow> ready e s \<Longrightarrow> step e s = (s', ok) \<Longrightarrow> sound s' \<and> rate s' = rate s"
    and pays: "sound s \<Longrightarrow> ready e s \<Longrightarrow> step e s = (s', ok) \<Longrightarrow>
          level s' + (if ok then cost e else 0) \<le> level s + rate s * of_int (clock s' - clock s) / 1000"
    and level_nonneg: "sound s \<Longrightarrow> 0 \<le> level s"
begin

lemma run_pays:
  "sound s \<Longrightarrow> timely ready step es s \<Longrightarrow> meter_run step es s = (s', oks) \<Longrightarrow>
     sound s' \<and> rate s' = rate s \<and>
     level s' + admitted cost es oks \<le> level s + rate s * of_int (clock s' - clock s) / 1000"
proof (induction es arbitrary: s oks)
  case (Cons e es)
  obtain s1 ok where 1: "step e s = (s1, ok)" by force
  from Cons.prems(3) 1 obtain oks2 where 2: "meter_run step es s1 = (s', oks2)"
      and oks: "oks = ok # oks2" by (auto split: prod.splits)
  have s1: "sound s1" "rate s1 = rate s" using keeps [OF _ _ 1] Cons.prems by simp_all
  from Cons.IH [OF s1(1) _ 2] Cons.prems 1 have IH: "sound s' \<and> rate s' = rate s1 \<and>
      level s' + admitted cost es oks2 \<le> level s1 + rate s1 * of_int (clock s' - clock s1) / 1000" by simp
  have "rate s * of_int (clock s' - clock s1) / 1000 + rate s * of_int (clock s1 - clock s) / 1000
      = rate s * of_int (clock s' - clock s) / 1000"
    by (simp add: field_simps)
  moreover have "level s1 + (if ok then cost e else 0) \<le> level s + rate s * of_int (clock s1 - clock s) / 1000"
    using pays [OF _ _ 1] Cons.prems by simp
  ultimately show ?case using IH s1 by (auto simp: admitted_def oks)
qed (auto simp: admitted_def)

lemma run_bound:
  assumes "sound s" "timely ready step es s" "meter_run step es s = (s', oks)"
  shows "admitted cost es oks \<le> level s + rate s * of_int (clock s' - clock s) / 1000"
  using run_pays [OF assms] level_nonneg [of s'] by simp

end

definition bucket_sound :: "token_bucket \<Rightarrow> bool" where
  "bucket_sound b \<longleftrightarrow> 0 \<le> tb_tokens b \<and> tb_tokens b \<le> tb_capacity b \<and> 0 \<le> tb_refillRate b"

lemma refill_sound:
  assumes "bucket_sound b" "tb_lastRefill b \<le> now"
  shows "bucket_sound (refill now b)" "tb_tokens b \<le> tb_tokens (refill now b)"
    and "tb_tokens (refill now b) \<le> tb_tokens b + tb_refillRate b * of_int (now - tb_lastRefill b) / 1000"
proof -
  have "0 \<le> of_int (now - tb_lastRefill b) / (1000 :: rat) * tb_refillRate b"
    using assms by (intro mult_nonneg_nonneg) (auto simp: bucket_sound_def)
  then show "bucket_sound (refill now b)" "tb_tokens b \<le> tb_tokens (refill now b)"
    "tb_tokens (refill now b) \<le> tb_tokens b + tb_refillRate b * of_int (now - tb_lastRefill b) / 1000"
    using assms(1) by (auto simp: bucket_sound_def refill_def Let_def mult.commute)
qed

lemma refill_fields [simp]:
  "tb_capacity (refill now b) = tb_capacity b" "tb_refillRate (refill now b) = tb_refillRate b"
  "tb_lastRefill (refill now b) = now"
  by (simp_all add: refill_def Let_def)

lemma peek_eq: "peek a now b = (b', r) \<Longrightarrow> b' = refill now b"
  by (auto simp: peek_def Let_def split: if_splits)

lemma consume_pays:
  assumes "bucket_sound b" "tb_lastRefill b \<le> now" "0 \<le> amount" "consume amount now b = (b', r)"
  shows "bucket_sound b' \<and> tb_refillRate b' = tb_refillRate b \<and> tb_lastRefill b' = now \<and>
    tb_tokens b' + (if r = None then amount else 0)
      \<le> tb_tokens b + tb_refillRate b * of_int (now - tb_lastRefill b) / 1000"
  using assms(3,4) refill_sound [OF assms(1,2)]
  by (auto simp: consume_def bucket_sound_def Let_def split: if_splits)

lemma peek_then_consume:
  assumes "bucket_sound b" "tb_lastRefill b \<le> t1" "t1 \<le> t2" "0 \<le> amount" "peek amount t1 b = (b', None)"
    and "consume amount t2 b' = (b'', r)"
  shows "r = None \<and> bucket_sound b'' \<and> tb_refillRate b'' = tb_refillRate b \<and> tb_lastRefill b'' = t2 \<and>
    tb_tokens b'' + amount \<le> tb_tokens b + tb_refillRate b * of_int (t2 - tb_lastRefill b) / 1000"
proof -
  have b': "b' = refill t1 b" "amount \<le> tb_tokens b'"
    using assms(5) by (auto simp: peek_def Let_def split: if_splits)
  note r1 = refill_sound [OF assms(1,2), folded b'(1)]
  have last: "tb_lastRefill b' = t1" "tb_refillRate b' = tb_refillRate b" by (simp_all add: b'(1))
  from r1(1) last(1) assms(3) have "tb_tokens b' \<le> tb_tokens (refill t2 b')" by (intro refill_sound(2)) simp_all
  with b'(2) assms(6) have r: "r = None" by (auto simp: consume_def Let_def split: if_splits)
  have "of_int (t2 - t1) / 1000 * tb_refillRate b + of_int (t1 - tb_lastRefill b) / 1000 * tb_refillRate b
      = tb_refillRate b * of_int (t2 - tb_lastRefill b) / 1000"
    by (simp add: field_simps)
  with consume_pays [OF r1(1) _ assms(4,6)] r1(3) last r assms(3) show ?thesis by (simp add: mult.commute)
qed

text \<open>A refused request fits after the advertised time, when it fits the bucket at all.\<close>

lemma bucket_retry_suffices:
  assumes "bucket_sound b" "consume amount now b = (b', Some (Ms d))" "amount \<le> tb_capacity b" "0 < tb_refillRate b"
  shows "snd (consume amount (now + d) b') = None"
proof -
  let ?b = "refill now b"
  from assms(2,4) have b': "b' = ?b" and lt: "tb_tokens ?b < amount"
    and d: "d = \<lceil>(amount - tb_tokens ?b) / tb_refillRate b * 1000\<rceil>"
    by (auto simp: consume_def Let_def retryAfterMs_def split: if_splits)
  have "(amount - tb_tokens ?b) / tb_refillRate b * 1000 \<le> of_int d" unfolding d by (rule le_of_int_ceiling)
  then have "amount - tb_tokens ?b \<le> of_int d / 1000 * tb_refillRate b"
    using assms(4) by (simp add: field_simps)
  then have "amount \<le> tb_tokens (refill (now + d) ?b)"
    using assms(3) by (simp add: refill_def [of "now + d"] Let_def)
  then show ?thesis by (simp add: b' consume_def Let_def)
qed

interpretation token_buckets: metered
    "\<lambda>e b. map_prod id (\<lambda>r. r = None) (consume (fst e) (snd e) b)"
    "\<lambda>e b. 0 \<le> fst e \<and> tb_lastRefill b \<le> snd e" bucket_sound fst tb_tokens tb_refillRate tb_lastRefill
proof
  fix b b' :: token_bucket and e :: "rat \<times> int" and ok
  assume *: "bucket_sound b" "0 \<le> fst e \<and> tb_lastRefill b \<le> snd e"
    "map_prod id (\<lambda>r. r = None) (consume (fst e) (snd e) b) = (b', ok)"
  then obtain r where c: "consume (fst e) (snd e) b = (b', r)" "ok \<longleftrightarrow> r = None"
    by (cases "consume (fst e) (snd e) b") auto
  from consume_pays [OF *(1) _ _ c(1)] *(2) c(2)
  show "bucket_sound b' \<and> tb_refillRate b' = tb_refillRate b"
    and "tb_tokens b' + (if ok then fst e else 0)
      \<le> tb_tokens b + tb_refillRate b * of_int (tb_lastRefill b' - tb_lastRefill b) / 1000"
    by auto
qed (simp add: bucket_sound_def)

text \<open>The checks of one connection, with clock readings that never go back per bucket.\<close>

definition ws_step :: "ws_message \<Rightarrow> ws_limiter \<Rightarrow> ws_limiter \<times> bool" where
  "ws_step e s = map_prod id (\<lambda>a. a = AllowMessage) (check_message e s)"

definition ws_ready :: "ws_message \<Rightarrow> ws_limiter \<Rightarrow> bool" where
  "ws_ready e s \<longleftrightarrow> 0 \<le> wm_size e
     \<and> tb_lastRefill (ws_messages s) \<le> wm_peek1 e \<and> wm_peek1 e \<le> wm_then1 e
     \<and> tb_lastRefill (ws_bytes s) \<le> wm_peek2 e \<and> wm_peek2 e \<le> wm_then2 e"

definition ws_sound :: "ws_limiter \<Rightarrow> bool" where
  "ws_sound s \<longleftrightarrow> bucket_sound (ws_messages s) \<and> bucket_sound (ws_bytes s)"

definition paid :: "token_bucket \<Rightarrow> token_bucket \<Rightarrow> rat \<Rightarrow> bool" where
  "paid b b' c \<longleftrightarrow> bucket_sound b' \<and> tb_refillRate b' = tb_refillRate b \<and>
     tb_tokens b' + c \<le> tb_tokens b + tb_refillRate b * of_int (tb_lastRefill b' - tb_lastRefill b) / 1000"

lemma paid_refl: "bucket_sound b \<Longrightarrow> paid b b 0"
  by (simp add: paid_def)

lemma paid_peek: "bucket_sound b \<Longrightarrow> tb_lastRefill b \<le> t \<Longrightarrow> peek a t b = (b', r) \<Longrightarrow> paid b b' 0"
  using refill_sound [of b t] by (auto simp: paid_def dest!: peek_eq)

lemma check_message_pays:
  assumes "ws_sound s" "ws_ready e s" "ws_step e s = (s', ok)"
  shows "paid (ws_messages s) (ws_messages s') (if ok \<and> \<not> wm_heartbeat e then 1 else 0)
       \<and> paid (ws_bytes s) (ws_bytes s') (if ok \<and> \<not> wm_heartbeat e then wm_size e else 0)"
proof -
  obtain m mr where m: "peek 1 (wm_peek1 e) (ws_messages s) = (m, mr)" by force
  obtain b br where b: "peek (wm_size e) (wm_peek2 e) (ws_bytes s) = (b, br)" by force
  obtain m2 mr2 where m2: "consume 1 (wm_then1 e) m = (m2, mr2)" by force
  obtain b2 br2 where b2: "consume (wm_size e) (wm_then2 e) b = (b2, br2)" by force
  from assms(1,2) have s: "bucket_sound (ws_messages s)" "bucket_sound (ws_bytes s)"
    and r: "tb_lastRefill (ws_messages s) \<le> wm_peek1 e" "wm_peek1 e \<le> wm_then1 e" "0 \<le> wm_size e"
      "tb_lastRefill (ws_bytes s) \<le> wm_peek2 e" "wm_peek2 e \<le> wm_then2 e"
    by (auto simp: ws_sound_def ws_ready_def)
  note looked = paid_peek [OF s(1) r(1) m] paid_peek [OF s(2) r(4) b]
  have "mr = None \<Longrightarrow> paid (ws_messages s) m2 1"
    using peek_then_consume [OF s(1) r(1,2) _ _ m2] m by (simp add: paid_def)
  moreover have "br = None \<Longrightarrow> paid (ws_bytes s) b2 (wm_size e)"
    using peek_then_consume [OF s(2) r(4,5,3) _ b2] b by (simp add: paid_def)
  ultimately show ?thesis using assms(3) looked paid_refl [OF s(1)] paid_refl [OF s(2)] m b m2 b2
    by (auto simp: ws_step_def check_message_def Let_def split: if_splits)
qed

lemma ws_step_keeps:
  assumes "ws_sound s" "ws_ready e s" "ws_step e s = (s', ok)"
  shows "ws_sound s'" "tb_refillRate (ws_messages s') = tb_refillRate (ws_messages s)"
    and "tb_refillRate (ws_bytes s') = tb_refillRate (ws_bytes s)"
  using check_message_pays [OF assms] by (simp_all add: paid_def ws_sound_def)

abbreviation message_cost :: "ws_message \<Rightarrow> rat" where
  "message_cost e \<equiv> (if wm_heartbeat e then 0 else 1)"

abbreviation byte_cost :: "ws_message \<Rightarrow> rat" where
  "byte_cost e \<equiv> (if wm_heartbeat e then 0 else wm_size e)"

interpretation ws_messages: metered ws_step ws_ready ws_sound message_cost
    "\<lambda>s. tb_tokens (ws_messages s)" "\<lambda>s. tb_refillRate (ws_messages s)" "\<lambda>s. tb_lastRefill (ws_messages s)"
proof
  fix s s' e ok
  assume *: "ws_sound s" "ws_ready e s" "ws_step e s = (s', ok)"
  show "ws_sound s' \<and> tb_refillRate (ws_messages s') = tb_refillRate (ws_messages s)"
    using ws_step_keeps [OF *] by simp
  show "tb_tokens (ws_messages s') + (if ok then message_cost e else 0) \<le> tb_tokens (ws_messages s)
      + tb_refillRate (ws_messages s) * of_int (tb_lastRefill (ws_messages s') - tb_lastRefill (ws_messages s)) / 1000"
    using conjunct1 [OF check_message_pays [OF *]] by (cases ok; cases "wm_heartbeat e") (simp_all add: paid_def)
qed (simp add: ws_sound_def bucket_sound_def)

interpretation ws_bytes: metered ws_step ws_ready ws_sound byte_cost
    "\<lambda>s. tb_tokens (ws_bytes s)" "\<lambda>s. tb_refillRate (ws_bytes s)" "\<lambda>s. tb_lastRefill (ws_bytes s)"
proof
  fix s s' e ok
  assume *: "ws_sound s" "ws_ready e s" "ws_step e s = (s', ok)"
  show "ws_sound s' \<and> tb_refillRate (ws_bytes s') = tb_refillRate (ws_bytes s)"
    using ws_step_keeps [OF *] by simp
  show "tb_tokens (ws_bytes s') + (if ok then byte_cost e else 0) \<le> tb_tokens (ws_bytes s)
      + tb_refillRate (ws_bytes s) * of_int (tb_lastRefill (ws_bytes s') - tb_lastRefill (ws_bytes s)) / 1000"
    using conjunct2 [OF check_message_pays [OF *]] by (cases ok; cases "wm_heartbeat e") (simp_all add: paid_def)
qed (simp add: ws_sound_def bucket_sound_def)

text \<open>
  A connection cannot push more through its limiter than the burst capacity plus the refill of
  the time that passed: messages that count are bounded in number and in bytes.
\<close>

theorem ws_throughput_bound:
  assumes "ws_sound s" "timely ws_ready ws_step es s" "meter_run ws_step es s = (s', oks)"
  shows "admitted message_cost es oks \<le> tb_tokens (ws_messages s)
           + tb_refillRate (ws_messages s) * of_int (tb_lastRefill (ws_messages s') - tb_lastRefill (ws_messages s)) / 1000
       \<and> admitted byte_cost es oks \<le> tb_tokens (ws_bytes s)
           + tb_refillRate (ws_bytes s) * of_int (tb_lastRefill (ws_bytes s') - tb_lastRefill (ws_bytes s)) / 1000"
  using ws_messages.run_bound [OF assms] ws_bytes.run_bound [OF assms] by simp_all

definition demo_message :: "rat \<Rightarrow> int \<Rightarrow> ws_message" where
  "demo_message n t = \<lparr>wm_size = n, wm_heartbeat = False, wm_peek1 = t, wm_peek2 = t, wm_then1 = t, wm_then2 = t\<rparr>"

definition demo_limiter :: ws_limiter where
  "demo_limiter = new_WsRateLimiter
     \<lparr>rl_messageCapacity = Some 2, rl_messageRefillRate = Some 1, rl_bytesCapacity = None,
      rl_bytesRefillRate = None, rl_maxMessageSize = None, rl_disconnectAfterMs = None\<rparr> (0, 0)"

theorem ws_throughput_bound_witness:
  "snd (meter_run ws_step [demo_message 9 0, demo_message 9 1, demo_message 9 2] demo_limiter) = [True, True, False]
   \<and> admitted message_cost [demo_message 9 0, demo_message 9 1, demo_message 9 2] [True, True, False]
       \<le> 2 + 1 * of_int (2 - 0) / 1000"
proof -
  let ?es = "[demo_message 9 0, demo_message 9 1, demo_message 9 2]"
  have 1: "ws_sound demo_limiter" by code_simp
  have 2: "timely ws_ready ws_step ?es demo_limiter" by code_simp
  have 3: "snd (meter_run ws_step ?es demo_limiter) = [True, True, False]" by code_simp
  have 4: "tb_lastRefill (ws_messages (fst (meter_run ws_step ?es demo_limiter))) = 2" by code_simp
  have 5: "tb_tokens (ws_messages demo_limiter) = 2" "tb_refillRate (ws_messages demo_limiter) = 1"
    "tb_lastRefill (ws_messages demo_limiter) = 0" by code_simp+
  obtain s' oks where run: "meter_run ws_step ?es demo_limiter = (s', oks)" by force
  from conjunct1 [OF ws_throughput_bound [OF 1 2 run]] 3 4 5 run show ?thesis by simp
qed

section \<open>Violations\<close>

text \<open>
  A connection is dropped for sustained violation only when no message passed since the violation
  began, and that is longer ago than the limit.
\<close>

lemma sustained_violation_means:
  "check_message e s = (s', Disconnect SustainedViolation) \<Longrightarrow>
     \<exists>start. ws_violationStart s' = Some start \<and> ws_disconnectAfterMs s < wm_then2 e - start
       \<and> (ws_violationStart s = Some start \<or> ws_violationStart s = None \<and> start = wm_then1 e)"
  by (auto simp: check_message_def Let_def split: if_splits prod.splits option.splits)

lemma violation_ends:
  "check_message e s = (s', AllowMessage) \<Longrightarrow> \<not> wm_heartbeat e \<Longrightarrow> ws_violationStart s' = None"
  by (auto simp: check_message_def Let_def split: if_splits prod.splits)

lemma oversized_disconnects:
  "\<not> wm_heartbeat e \<Longrightarrow> ws_maxMessageSize s < wm_size e \<or> ws_bytesCapacity s < wm_size e \<Longrightarrow>
     \<exists>r. check_message e s = (s, Disconnect r) \<and> r \<noteq> SustainedViolation"
  by (auto simp: check_message_def)

section \<open>Sampling of the access log\<close>

record sampling_limiter =
  sl_buckets :: "(string \<times> int) list"
  sl_lastPruneAt :: int

definition PRUNE_TTL_MS :: int where "PRUNE_TTL_MS = 5 * 60000"

definition maybePrune :: "int \<Rightarrow> sampling_limiter \<Rightarrow> sampling_limiter" where
  "maybePrune now s =
     (if now - sl_lastPruneAt s < PRUNE_TTL_MS then s
      else s\<lparr>sl_lastPruneAt := now,
             sl_buckets := filter (\<lambda>(key, ts). \<not> PRUNE_TTL_MS \<le> now - ts) (sl_buckets s)\<rparr>)"

definition permit :: "string \<Rightarrow> string \<Rightarrow> int \<Rightarrow> int \<Rightarrow> sampling_limiter \<Rightarrow> sampling_limiter \<times> bool" where
  "permit action actorKey perMinute now s =
     (if perMinute \<le> 0 then (s, False)
      else
        let key = action @ '':'' @ actorKey;
            intervalMs = 60000 div perMinute
        in case map_of (sl_buckets s) key of
             Some lastAt \<Rightarrow>
               if now - lastAt < intervalMs then (maybePrune now s, False)
               else (maybePrune now (s\<lparr>sl_buckets := amap_set key now (sl_buckets s)\<rparr>), True)
           | None \<Rightarrow> (maybePrune now (s\<lparr>sl_buckets := amap_set key now (sl_buckets s)\<rparr>), True))"

text \<open>
  Pruning is not seen: no interval is longer than a minute, and only entries of five minutes ago
  are dropped. The specification keeps the last permit of every key for ever.
\<close>

definition spec_permit :: "string \<Rightarrow> string \<Rightarrow> int \<Rightarrow> int \<Rightarrow> (string \<rightharpoonup> int) \<Rightarrow> (string \<rightharpoonup> int) \<times> bool" where
  "spec_permit action actorKey perMinute now f =
     (let key = action @ '':'' @ actorKey;
          ok = (0 < perMinute \<and> (case f key of None \<Rightarrow> True | Some t \<Rightarrow> 60000 div perMinute \<le> now - t))
      in (if ok then f(key \<mapsto> now) else f, ok))"

definition permit_rel :: "int \<Rightarrow> sampling_limiter \<Rightarrow> (string \<rightharpoonup> int) \<Rightarrow> bool" where
  "permit_rel L s f \<longleftrightarrow> distinct (amap_keys (sl_buckets s)) \<and>
     (\<forall>k. map_of (sl_buckets s) k = f k
        \<or> map_of (sl_buckets s) k = None \<and> (\<exists>t. f k = Some t \<and> PRUNE_TTL_MS \<le> L - t))"

lemma permit_rel_later: "permit_rel L s f \<Longrightarrow> L \<le> L' \<Longrightarrow> permit_rel L' s f"
  by (force simp: permit_rel_def)

lemma permit_rel_prune:
  assumes "permit_rel now s f"
  shows "permit_rel now (maybePrune now s) f"
proof -
  have d: "distinct (amap_keys (sl_buckets s))" using assms by (simp add: permit_rel_def)
  show ?thesis using assms d
    by (auto simp: permit_rel_def maybePrune_def map_of_filter_distinct [OF d] distinct_map_filter
        simp del: map_of_eq_Some_iff split: option.splits; metis option.distinct(1) option.inject)
qed

lemma permit_rel_set: "permit_rel now s f \<Longrightarrow>
  permit_rel now (s\<lparr>sl_buckets := amap_set k now (sl_buckets s)\<rparr>) (f(k \<mapsto> now))"
  by (simp add: permit_rel_def)

lemma permit_refines:
  assumes "permit_rel L s f" "L \<le> now" "permit action actorKey perMinute now s = (s', ok)"
  shows "\<exists>f'. spec_permit action actorKey perMinute now f = (f', ok) \<and> permit_rel now s' f'"
proof -
  let ?k = "action @ '':'' @ actorKey"
  have rel: "permit_rel now s f" using assms(1,2) by (rule permit_rel_later)
  then have k: "map_of (sl_buckets s) ?k = f ?k \<or>
      map_of (sl_buckets s) ?k = None \<and> (\<exists>t. f ?k = Some t \<and> PRUNE_TTL_MS \<le> now - t)"
    by (simp add: permit_rel_def)
  have short: "60000 div perMinute \<le> 60000" if "0 < perMinute"
    using that by (intro zdiv_mono2 [of 60000 1 perMinute, simplified]) simp
  from k short assms(3) rel show ?thesis
    by (auto simp: permit_def spec_permit_def Let_def PRUNE_TTL_MS_def simp del: map_of_eq_Some_iff
        split: option.splits if_splits intro!: permit_rel_prune permit_rel_set dest: sym)
qed

section \<open>Recent spawn failures\<close>

record failure_record =
  fr_backendName :: string
  fr_backendType :: string
  fr_bound :: bool
  fr_detail :: string
  fr_timestampMs :: int

record failure_summary =
  fs_backendType :: string
  fs_boundCount :: nat
  fs_unboundCount :: nat
  fs_lastError :: string
  fs_lastAtMs :: int

record failure_tracker =
  ft_records :: "failure_record list"
  ft_maxEntries :: nat

definition DEFAULT_MAX_ENTRIES :: nat where "DEFAULT_MAX_ENTRIES = 256"

definition new_ScalerFailureTracker :: "nat option \<Rightarrow> failure_tracker" where
  "new_ScalerFailureTracker maxEntries =
     \<lparr>ft_records = [], ft_maxEntries = or_default maxEntries DEFAULT_MAX_ENTRIES\<rparr>"

definition record_failure :: "failure_record \<Rightarrow> failure_tracker \<Rightarrow> failure_tracker" where
  "record_failure rec t =
     (let records = ft_records t @ [rec]
      in t\<lparr>ft_records := (if ft_maxEntries t < length records then tl records else records)\<rparr>)"

definition summary_of :: "failure_record \<Rightarrow> failure_summary" where
  "summary_of rec =
     \<lparr>fs_backendType = fr_backendType rec, fs_boundCount = (if fr_bound rec then 1 else 0),
      fs_unboundCount = (if fr_bound rec then 0 else 1), fs_lastError = fr_detail rec,
      fs_lastAtMs = fr_timestampMs rec\<rparr>"

definition add_failure :: "failure_record \<Rightarrow> failure_summary \<Rightarrow> failure_summary" where
  "add_failure rec x =
     (let x = (if fr_bound rec then x\<lparr>fs_boundCount := fs_boundCount x + 1\<rparr>
               else x\<lparr>fs_unboundCount := fs_unboundCount x + 1\<rparr>)
      in if fs_lastAtMs x \<le> fr_timestampMs rec
         then x\<lparr>fs_lastError := fr_detail rec, fs_lastAtMs := fr_timestampMs rec, fs_backendType := fr_backendType rec\<rparr>
         else x)"

fun group_failures ::
  "int \<Rightarrow> failure_record list \<Rightarrow> (string \<times> failure_summary) list \<Rightarrow> (string \<times> failure_summary) list" where
  "group_failures cutoff [] out = out"
| "group_failures cutoff (rec # recs) out =
     (if fr_timestampMs rec < cutoff then group_failures cutoff recs out
      else group_failures cutoff recs
        (amap_set (fr_backendName rec)
           (case map_of out (fr_backendName rec) of
              None \<Rightarrow> summary_of rec
            | Some existing \<Rightarrow> add_failure rec existing) out))"

definition recentByBackend :: "int \<Rightarrow> int \<Rightarrow> failure_tracker \<Rightarrow> (string \<times> failure_summary) list" where
  "recentByBackend windowMs nowMs t = group_failures (nowMs - windowMs) (ft_records t) []"

lemma record_failure_bounded:
  "length (ft_records t) \<le> ft_maxEntries t \<Longrightarrow> length (ft_records (record_failure r t)) \<le> ft_maxEntries t"
  by (auto simp: record_failure_def Let_def)

text \<open>The counts of a backend add up to its failures in the window.\<close>

definition counted :: "failure_summary option \<Rightarrow> nat" where
  "counted v = (case v of None \<Rightarrow> 0 | Some x \<Rightarrow> fs_boundCount x + fs_unboundCount x)"

lemma counted_add: "counted (Some (add_failure r x)) = Suc (counted (Some x))"
  by (simp add: counted_def add_failure_def Let_def)

lemma group_failures_counts:
  "counted (map_of (group_failures cutoff recs out) k) =
     counted (map_of out k) + length (filter (\<lambda>r. cutoff \<le> fr_timestampMs r \<and> fr_backendName r = k) recs)"
proof (induction recs arbitrary: out)
  case (Cons rec recs)
  have "counted (Some (case map_of out (fr_backendName rec) of None \<Rightarrow> summary_of rec | Some e \<Rightarrow> add_failure rec e))
      = Suc (counted (map_of out (fr_backendName rec)))"
    by (auto simp: counted_add split: option.splits) (simp_all add: counted_def summary_of_def)
  with Cons.IH show ?case by auto
qed simp

lemma recentByBackend_counts:
  "counted (map_of (recentByBackend windowMs nowMs t) k) =
     length (filter (\<lambda>r. nowMs - windowMs \<le> fr_timestampMs r \<and> fr_backendName r = k) (ft_records t))"
  by (simp add: recentByBackend_def group_failures_counts) (simp add: counted_def)

end
