(* ===== verification/LogMasker.thy ===== *)
theory LogMasker
  imports Js_Strings
begin

text \<open>
  Masking of secrets in the messages of the workflow runner,
  \<open>packages/agent/src/execution/sandbox/log-masker.ts\<close>, and the flat view of the secrets a step
  reads, \<open>secret-merge.ts\<close>. The regular expression the code builds is an alternation of
  escaped literals, so it is modelled as what it matches: the first value, in its order, at the
  leftmost position. Strings hold code units below 256.
\<close>

section \<open>Base64\<close>

text \<open>\<open>Buffer.from(s)\<close> are the bytes of the UTF-8 form.\<close>

definition utf8_bytes :: "string \<Rightarrow> nat list" where
  "utf8_bytes s = concat (map (\<lambda>c. let n = of_char c in
     if n < 128 then [n] else [192 + n div 64, 128 + n mod 64]) s)"

definition base64_digits :: string where
  "base64_digits = ''ABCDEFGHIJKLMNOPQRSTUVWXYZabcdefghijklmnopqrstuvwxyz0123456789+/''"

definition b64 :: "nat \<Rightarrow> char" where
  "b64 n = base64_digits ! n"

fun base64 :: "nat list \<Rightarrow> string" where
  "base64 (a # b # c # bs) =
     [b64 (a div 4), b64 (a mod 4 * 16 + b div 16), b64 (b mod 16 * 4 + c div 64), b64 (c mod 64)] @ base64 bs"
| "base64 [a, b] = [b64 (a div 4), b64 (a mod 4 * 16 + b div 16), b64 (b mod 16 * 4), CHR ''='']"
| "base64 [a] = [b64 (a div 4), b64 (a mod 4 * 16), CHR ''='', CHR ''='']"
| "base64 [] = []"

section \<open>The masker\<close>

definition MIN_MASK_LENGTH :: nat where "MIN_MASK_LENGTH = 3"

text \<open>The pattern is the list of its alternatives; \<open>None\<close> is no pattern.\<close>

record log_masker =
  lm_pattern :: "string list option"
  lm_values :: "string list"

definition new_LogMasker :: log_masker where
  "new_LogMasker = \<lparr>lm_pattern = None, lm_values = []\<rparr>"

definition add_candidate :: "string \<Rightarrow> string list \<Rightarrow> string list" where
  "add_candidate candidate values =
     (if length candidate < MIN_MASK_LENGTH then values
      else let values = js_add candidate values;
               b = base64 (utf8_bytes candidate)
           in if MIN_MASK_LENGTH \<le> length b then js_add b values else values)"

definition strip_cr :: "string \<Rightarrow> string" where
  "strip_cr l = (if endsWith l [CHR 0x0D] then butlast l else l)"

definition add_secret :: "string \<Rightarrow> string list \<Rightarrow> string list" where
  "add_secret v values =
     (let values = add_candidate v values
      in if CHR 0x0A \<in> set v then fold (\<lambda>l. add_candidate (strip_cr l)) (js_split (CHR 0x0A) v) values
         else values)"

text \<open>\<open>secrets\<close> are the entries of an object, in its order.\<close>

definition registerSecrets :: "(string \<times> string) list \<Rightarrow> log_masker \<Rightarrow> log_masker" where
  "registerSecrets secrets m =
     (let values = fold add_secret (map snd secrets) (lm_values m)
      in m\<lparr>lm_values := values,
           lm_pattern := (if values = [] then None
                          else Some (sort_by (\<lambda>a b. length b \<le> length a) values))\<rparr>)"

text \<open>The global replacement, left to right.\<close>

definition match_at :: "string list \<Rightarrow> string \<Rightarrow> string option" where
  "match_at alts s = find (\<lambda>v. v \<noteq> [] \<and> startsWith s v) alts"

lemma match_at_Some: "match_at alts s = Some v \<Longrightarrow> v \<in> set alts \<and> v \<noteq> [] \<and> startsWith s v"
  by (auto simp: match_at_def find_Some_iff)

lemma match_at_shorter: "match_at alts s = Some v \<Longrightarrow> length (drop (length v) s) < length s"
  by (cases s) (auto dest!: match_at_Some simp: startsWith_def)

function replace_all :: "string list \<Rightarrow> string \<Rightarrow> string" where
  "replace_all alts s =
     (case match_at alts s of
        Some v \<Rightarrow> ''***'' @ replace_all alts (drop (length v) s)
      | None \<Rightarrow> (case s of [] \<Rightarrow> [] | c # s' \<Rightarrow> c # replace_all alts s'))"
  by pat_completeness auto

termination
  by (relation "measure (\<lambda>(alts, s). length s)") (auto dest!: match_at_shorter)

declare replace_all.simps [simp del]

definition mask :: "log_masker \<Rightarrow> string \<Rightarrow> string" where
  "mask m line = (case lm_pattern m of None \<Rightarrow> line | Some alts \<Rightarrow> replace_all alts line)"

definition hasSecrets :: "log_masker \<Rightarrow> bool" where
  "hasSecrets m \<longleftrightarrow> lm_pattern m \<noteq> None"

section \<open>The masker of a request\<close>

record job_request =
  jq_secrets :: "(string \<times> string) list option"
  jq_namespacedSecrets :: "(string \<times> (string \<times> string) list) list option"

definition createSecretMasker :: "job_request \<Rightarrow> log_masker" where
  "createSecretMasker request =
     registerSecrets (js_object (opt_list (jq_secrets request)
        @ concat (map snd (opt_list (jq_namespacedSecrets request))))) new_LogMasker"

definition buildMergedFlatSecrets ::
  "(string \<times> string) list \<Rightarrow> (string \<times> (string \<times> string) list) list \<Rightarrow> (string \<times> string) list" where
  "buildMergedFlatSecrets orchestratorSecrets namespacedSecrets =
     js_object (orchestratorSecrets @ concat (map snd namespacedSecrets))"

section \<open>Messages\<close>

record described_error =
  de_message :: string
  de_causeMessage :: "string option"

record dep_restore_report =
  dr_error :: "described_error option"
  dr_attempts :: "described_error option list"

text \<open>
  The texts of a message; the fields no masking touches are \<open>'x\<close>, except the summary of a drift,
  which the dashboard shows.
\<close>

datatype 'x runner_message =
    MsgLogLine string 'x
  | MsgStepComplete "string option" "string option" 'x
  | MsgJobComplete "string option" "string list option" 'x
  | MsgDepRestoreReport "dep_restore_report option"
  | MsgOther 'x

definition mask_error :: "log_masker \<Rightarrow> described_error \<Rightarrow> described_error" where
  "mask_error m e =
     \<lparr>de_message = mask m (de_message e), de_causeMessage = map_option (mask m) (de_causeMessage e)\<rparr>"

fun maskMessageText :: "'x runner_message \<Rightarrow> log_masker \<Rightarrow> 'x runner_message" where
  "maskMessageText msg m =
     (if \<not> hasSecrets m then msg
      else case msg of
             MsgLogLine line x \<Rightarrow> MsgLogLine (mask m line) x
           | MsgStepComplete err driftSummary x \<Rightarrow> MsgStepComplete (map_option (mask m) err) driftSummary x
           | MsgJobComplete err droppedJobs x \<Rightarrow>
               MsgJobComplete (map_option (mask m) err) (map_option (map (mask m)) droppedJobs) x
           | MsgDepRestoreReport report \<Rightarrow>
               MsgDepRestoreReport
                 (map_option (\<lambda>r. r\<lparr>dr_error := map_option (mask_error m) (dr_error r),
                                    dr_attempts := map (map_option (mask_error m)) (dr_attempts r)\<rparr>) report)
           | MsgOther x \<Rightarrow> MsgOther x)"

section \<open>What is registered\<close>

lemma base64_length: "length (base64 bs) = 4 * ((length bs + 2) div 3)"
  by (induction bs rule: base64.induct) (simp_all, presburger)

lemma utf8_bytes_length: "length s \<le> length (utf8_bytes s)"
  by (induction s) (auto simp: utf8_bytes_def Let_def)

text \<open>The values a secret contributes: it, its lines without their carriage return, and their base64.\<close>

definition forms :: "string \<Rightarrow> string set" where
  "forms v = (if length v < MIN_MASK_LENGTH then {} else {v, base64 (utf8_bytes v)})"

definition secret_forms :: "string \<Rightarrow> string set" where
  "secret_forms v = forms v \<union>
     (if CHR 0x0A \<in> set v then \<Union> (forms ` strip_cr ` set (js_split (CHR 0x0A) v)) else {})"

lemma set_add_candidate: "set (add_candidate c values) = set values \<union> forms c"
proof -
  have "4 \<le> length (base64 (utf8_bytes c))" if "\<not> length c < 3"
    using that utf8_bytes_length [of c] by (simp add: base64_length)
  then show ?thesis by (auto simp: add_candidate_def forms_def MIN_MASK_LENGTH_def Let_def)
qed

lemma set_fold_union:
  assumes "\<And>x acc. set (f x acc) = set acc \<union> g x"
  shows "set (fold f xs acc) = set acc \<union> \<Union> (g ` set xs)"
  by (induction xs arbitrary: acc) (auto simp: assms)

lemma set_add_secret: "set (add_secret v values) = set values \<union> secret_forms v"
  by (auto simp: add_secret_def secret_forms_def Let_def set_add_candidate
      set_fold_union [where f = "\<lambda>l. add_candidate (strip_cr l)" and g = "forms \<circ> strip_cr"])

lemma lm_values_register:
  "set (lm_values (registerSecrets secrets m)) = set (lm_values m) \<union> \<Union> (secret_forms ` snd ` set secrets)"
  by (simp add: registerSecrets_def Let_def set_fold_union [OF set_add_secret])

text \<open>Values are never empty, and the pattern lists them, longest first.\<close>

interpretation longest_first: collation "\<lambda>a b. length b \<le> length (a :: string)"
  by unfold_locales auto

definition masker_ok :: "log_masker \<Rightarrow> bool" where
  "masker_ok m \<longleftrightarrow> [] \<notin> set (lm_values m) \<and> set (opt_list (lm_pattern m)) = set (lm_values m)
     \<and> sorted_wrt (\<lambda>a b. length b \<le> length a) (opt_list (lm_pattern m))"

lemma masker_ok_new: "masker_ok new_LogMasker"
  by (simp add: masker_ok_def new_LogMasker_def opt_list_def)

lemma forms_nonempty: "[] \<notin> forms v"
  using utf8_bytes_length [of v] base64_length [of "utf8_bytes v"]
  by (auto simp: forms_def MIN_MASK_LENGTH_def)

lemma masker_ok_register:
  assumes "masker_ok m"
  shows "masker_ok (registerSecrets secrets m)"
proof -
  have "[] \<notin> set (lm_values (registerSecrets secrets m))"
    using assms forms_nonempty by (auto simp: lm_values_register masker_ok_def secret_forms_def split: if_splits)
  then show ?thesis
    using longest_first.sorted_sort_by by (simp add: masker_ok_def registerSecrets_def Let_def opt_list_def)
qed

section \<open>What is masked\<close>

text \<open>Kept pieces and what stands between them.\<close>

fun weave :: "string list \<Rightarrow> string list \<Rightarrow> string" where
  "weave [] vs = []"
| "weave [k] vs = k"
| "weave (k # ks) (v # vs) = k @ v @ weave ks vs"
| "weave (k # k' # ks) [] = k"

definition stars :: "string list \<Rightarrow> string list" where
  "stars vs = map (\<lambda>_. ''***'') vs"

lemma match_at_None: "match_at alts s = None \<Longrightarrow> v \<in> set alts \<Longrightarrow> v \<noteq> [] \<Longrightarrow> \<not> startsWith s v"
  by (auto simp: match_at_def find_None_iff)

lemma str_includes_Nil [simp]: "str_includes [] v \<longleftrightarrow> v = []"
  by simp

lemma weave_prefix: "length ks = length vs \<Longrightarrow> \<exists>r. weave (k # ks) vs = k @ r"
  by (cases ks; cases vs) auto

lemma replace_all_pieces:
  "[] \<notin> set alts \<Longrightarrow> \<exists>k ks vs. length ks = length vs \<and> s = weave (k # ks) vs
     \<and> replace_all alts s = weave (k # ks) (stars vs) \<and> set vs \<subseteq> set alts
     \<and> (\<forall>p \<in> set (k # ks). \<forall>v \<in> set alts. \<not> str_includes p v)"
proof (induction alts s rule: replace_all.induct)
  case (1 alts s)
  show ?case
  proof (cases "match_at alts s")
    case (Some v)
    then have v: "v \<in> set alts" "s = v @ drop (length v) s"
      by (auto dest!: match_at_Some simp: startsWith_def) (metis append_take_drop_id)
    from 1(2) [OF Some 1(3)] obtain k ks vs where IH: "length ks = length vs"
        "drop (length v) s = weave (k # ks) vs" "replace_all alts (drop (length v) s) = weave (k # ks) (stars vs)"
        "set vs \<subseteq> set alts" "\<forall>p \<in> set (k # ks). \<forall>v \<in> set alts. \<not> str_includes p v" by blast
    have "s = weave ([] # k # ks) (v # vs)" using v(2) IH(2) by simp
    moreover have "replace_all alts s = weave ([] # k # ks) (stars (v # vs))"
      using Some IH(3) by (simp add: replace_all.simps [of alts s] stars_def)
    moreover have "\<forall>p \<in> set ([] # k # ks). \<forall>v \<in> set alts. \<not> str_includes p v"
      using IH(5) 1(3) by auto
    ultimately show ?thesis using IH(1,4) v(1)
      by (intro exI [of _ "[]"] exI [of _ "k # ks"] exI [of _ "v # vs"]) auto
  next
    case None
    show ?thesis
    proof (cases s)
      case Nil
      with None 1(3) show ?thesis
        by (intro exI [of _ "[]"]) (auto simp: replace_all.simps [of alts "[]"])
    next
      case (Cons c s')
      from 1(1) [OF None Cons 1(3)] obtain k ks vs where IH: "length ks = length vs" "s' = weave (k # ks) vs"
        "replace_all alts s' = weave (k # ks) (stars vs)" "set vs \<subseteq> set alts"
        "\<forall>p \<in> set (k # ks). \<forall>v \<in> set alts. \<not> str_includes p v" by blast
      have shift: "weave ((c # k) # ks) ws = c # weave (k # ks) ws" for ws by (cases ks; cases ws) auto
      obtain r where r: "s' = k @ r" using weave_prefix [OF IH(1)] IH(2) by metis
      have "\<not> startsWith (c # k) v" if "v \<in> set alts" for v
      proof
        assume "startsWith (c # k) v"
        then have "startsWith s v" unfolding Cons r startsWith_iff by (metis append.assoc append_Cons)
        with match_at_None [OF None that] that 1(3) show False by auto
      qed
      with IH(5) have "\<forall>p \<in> set ((c # k) # ks). \<forall>v \<in> set alts. \<not> str_includes p v" by auto
      moreover have "replace_all alts s = weave ((c # k) # ks) (stars vs)"
        using None Cons IH(3) by (simp add: replace_all.simps [of alts "c # s'"] shift)
      moreover have "s = weave ((c # k) # ks) vs" by (simp add: Cons shift IH(2))
      ultimately show ?thesis using IH(1,4) by blast
    qed
  qed
qed

text \<open>Where two values match, the longest is the one replaced.\<close>

lemma longest_value_masked:
  assumes "masker_ok m" "match_at (opt_list (lm_pattern m)) s = Some v" "w \<in> set (lm_values m)" "startsWith s w"
  shows "length w \<le> length v"
proof -
  from assms(2) obtain i where i: "i < length (opt_list (lm_pattern m))" "opt_list (lm_pattern m) ! i = v"
      "\<forall>j<i. \<not> (opt_list (lm_pattern m) ! j \<noteq> [] \<and> startsWith s (opt_list (lm_pattern m) ! j))"
    by (auto simp: match_at_def find_Some_iff)
  from assms(1,3) obtain j where j: "j < length (opt_list (lm_pattern m))" "opt_list (lm_pattern m) ! j = w" "w \<noteq> []"
    by (auto simp: masker_ok_def in_set_conv_nth) (metis in_set_conv_nth)
  with i(3) assms(4) have "i \<le> j" by (metis not_le)
  with i(1,2) j assms(1) show ?thesis
    by (cases "i = j") (auto simp: masker_ok_def sorted_wrt_iff_nth_less)
qed

lemma createSecretMasker_ok: "masker_ok (createSecretMasker request)"
  by (simp add: createSecretMasker_def masker_ok_register masker_ok_new)

lemma createSecretMasker_values:
  "set (lm_values (createSecretMasker request)) =
     \<Union> (secret_forms ` snd ` set (buildMergedFlatSecrets (opt_list (jq_secrets request))
       (opt_list (jq_namespacedSecrets request))))"
  by (simp add: createSecretMasker_def lm_values_register buildMergedFlatSecrets_def new_LogMasker_def)

lemma mask_pieces:
  assumes "masker_ok m"
  shows "\<exists>ks vs. length ks = Suc (length vs) \<and> line = weave ks vs \<and> mask m line = weave ks (stars vs)
    \<and> set vs \<subseteq> set (lm_values m) \<and> (\<forall>k \<in> set ks. \<forall>v \<in> set (lm_values m). \<not> str_includes k v)"
proof (cases "lm_pattern m")
  case None
  with assms have "lm_values m = []" by (simp add: masker_ok_def opt_list_def)
  with None show ?thesis by (intro exI [of _ "[line]"] exI [of _ "[]"]) (simp add: mask_def stars_def)
next
  case (Some alts)
  with assms have alts: "[] \<notin> set alts" "set alts = set (lm_values m)"
    by (simp_all add: masker_ok_def opt_list_def)
  from replace_all_pieces [OF alts(1), of line] obtain k ks vs where
    "length ks = length vs" "line = weave (k # ks) vs" "replace_all alts line = weave (k # ks) (stars vs)"
    "set vs \<subseteq> set alts" "\<forall>p \<in> set (k # ks). \<forall>v \<in> set alts. \<not> str_includes p v" by blast
  with Some alts(2) show ?thesis
    by (intro exI [of _ "k # ks"] exI [of _ vs]) (simp add: mask_def)
qed

text \<open>
  C17. Whatever line a job prints, masking replaces whole registered values by three stars and
  keeps the rest, and no kept piece contains a form of a secret the steps can read: the secret,
  a line of it, or the base64 of either, when they have three characters.
\<close>

theorem step_secrets_masked:
  assumes "(key, v) \<in> set (buildMergedFlatSecrets (opt_list (jq_secrets request))
       (opt_list (jq_namespacedSecrets request)))"
  shows "\<exists>ks vs. length ks = Suc (length vs) \<and> line = weave ks vs
    \<and> mask (createSecretMasker request) line = weave ks (stars vs)
    \<and> set vs \<subseteq> set (lm_values (createSecretMasker request))
    \<and> (\<forall>k \<in> set ks. \<forall>f \<in> secret_forms v. \<not> str_includes k f)"
proof -
  have "secret_forms v \<subseteq> set (lm_values (createSecretMasker request))"
    using assms unfolding createSecretMasker_values by force
  with mask_pieces [OF createSecretMasker_ok, of line request] show ?thesis by blast
qed

definition demo_request :: job_request where
  "demo_request = \<lparr>jq_secrets = Some [(''T'', ''old''), (''U'', ''sesame'')],
     jq_namespacedSecrets = Some [(''prod'', [(''T'', ''ses'')])]\<rparr>"

theorem step_secrets_masked_witness:
  "mask (createSecretMasker demo_request) ''open sesame c2Vz ses old'' = ''open *** *** *** old''
   \<and> (\<exists>ks vs. ''open sesame c2Vz ses old'' = weave ks vs
        \<and> mask (createSecretMasker demo_request) ''open sesame c2Vz ses old'' = weave ks (stars vs))"
proof
  show "mask (createSecretMasker demo_request) ''open sesame c2Vz ses old'' = ''open *** *** *** old''"
    by code_simp
  have "(''T'', ''ses'') \<in> set (buildMergedFlatSecrets (opt_list (jq_secrets demo_request))
       (opt_list (jq_namespacedSecrets demo_request)))"
    by code_simp
  from step_secrets_masked [OF this, of "''open sesame c2Vz ses old''"]
  show "\<exists>ks vs. ''open sesame c2Vz ses old'' = weave ks vs
        \<and> mask (createSecretMasker demo_request) ''open sesame c2Vz ses old'' = weave ks (stars vs)"
    by blast
qed

text \<open>Registrations accumulate, and a masker of no secret leaves every message as it is.\<close>

lemma register_accumulates: "set (lm_values m) \<subseteq> set (lm_values (registerSecrets secrets m))"
  by (simp add: lm_values_register)

lemma no_secrets_no_change: "\<not> hasSecrets m \<Longrightarrow> maskMessageText msg m = msg"
  by simp

text \<open>The summary of a drift is not masked, whatever it contains.\<close>

lemma drift_summary_unmasked:
  "\<exists>err. maskMessageText (MsgStepComplete e d x) m = MsgStepComplete err d x"
  by auto

end
