(* ===== verification/SpawnBudget.thy ===== *)
theory SpawnBudget
  imports Kici_Prelude
begin

text \<open>
  The spawn-retry budget of a worker, \<open>packages/orchestrator/src/worker/spawn-retry-budget.ts\<close>, and
  the gate over it in \<open>reroute-spawn-control.ts\<close>. The queue is asked through the argument
  \<open>queued\<close>, the clock through \<open>now\<close>; a timer is a pending entry of \<open>sb_timers\<close> that may fire
  at any moment, early or late. Objects have an identity, so that the check of the timer callback
  that its entry is still the one of the map is the check of the code.
\<close>

section \<open>The budget\<close>

datatype attempt_gate = GateUntracked | GateBegun | GateInFlight | GateBackoff | GateNotQueued

datatype failure_verdict = NotTracked | Verdict (final: bool) (failures: nat) (maxAttempts: int) (duplicate: bool)

record spawn_retry =
  sr_maxAttempts :: int
  sr_backoffMs :: int

record budget_entry =
  be_identity :: nat
  be_runId :: string
  be_policy :: spawn_retry
  be_failedAgents :: "string list"
  be_inFlight :: bool
  be_holder :: "string option"
  be_backoffUntil :: int
  be_timer :: "nat option"

record pending_timer =
  pt_id :: nat
  pt_job :: string
  pt_entry :: nat

record spawn_budget =
  sb_entries :: "(string \<times> budget_entry) list"
  sb_timers :: "pending_timer list"
  sb_fresh :: nat

definition new_SpawnRetryBudget :: spawn_budget where
  "new_SpawnRetryBudget = \<lparr>sb_entries = [], sb_timers = [], sb_fresh = 0\<rparr>"

abbreviation entry_of :: "spawn_budget \<Rightarrow> string \<Rightarrow> budget_entry option" where
  "entry_of s jobId \<equiv> map_of (sb_entries s) jobId"

definition put_entry :: "string \<Rightarrow> budget_entry \<Rightarrow> spawn_budget \<Rightarrow> spawn_budget" where
  "put_entry jobId e s = s\<lparr>sb_entries := amap_set jobId e (sb_entries s)\<rparr>"

definition clear_timeout :: "nat option \<Rightarrow> spawn_budget \<Rightarrow> spawn_budget" where
  "clear_timeout t s =
     (case t of None \<Rightarrow> s | Some i \<Rightarrow> s\<lparr>sb_timers := filter (\<lambda>p. pt_id p \<noteq> i) (sb_timers s)\<rparr>)"

definition register :: "string \<Rightarrow> string \<Rightarrow> spawn_retry \<Rightarrow> spawn_budget \<Rightarrow> spawn_budget" where
  "register jobId runId policy s =
     (if entry_of s jobId \<noteq> None then s
      else put_entry jobId
        \<lparr>be_identity = sb_fresh s, be_runId = runId, be_policy = policy, be_failedAgents = [],
         be_inFlight = False, be_holder = None, be_backoffUntil = 0, be_timer = None\<rparr>
        (s\<lparr>sb_fresh := Suc (sb_fresh s)\<rparr>))"

definition beginAttempt :: "bool \<Rightarrow> int \<Rightarrow> string \<Rightarrow> spawn_budget \<Rightarrow> spawn_budget \<times> attempt_gate" where
  "beginAttempt queued now jobId s =
     (case entry_of s jobId of
        None \<Rightarrow> (s, GateUntracked)
      | Some e \<Rightarrow>
          if \<not> queued then (s, GateNotQueued)
          else if be_inFlight e then (s, GateInFlight)
          else if now < be_backoffUntil e then (s, GateBackoff)
          else (put_entry jobId (e\<lparr>be_inFlight := True\<rparr>) s, GateBegun))"

definition setHolder :: "string \<Rightarrow> string \<Rightarrow> spawn_budget \<Rightarrow> spawn_budget" where
  "setHolder jobId agentId s =
     (case entry_of s jobId of
        None \<Rightarrow> s
      | Some e \<Rightarrow>
          if \<not> be_inFlight e \<or> be_holder e \<noteq> None \<or> agentId \<in> set (be_failedAgents e) then s
          else put_entry jobId (e\<lparr>be_holder := Some agentId\<rparr>) s)"

definition abortAttempt :: "string \<Rightarrow> spawn_budget \<Rightarrow> spawn_budget" where
  "abortAttempt jobId s =
     (case entry_of s jobId of
        None \<Rightarrow> s
      | Some e \<Rightarrow> put_entry jobId (e\<lparr>be_inFlight := False, be_holder := None\<rparr>) s)"

text \<open>Clear the timer of the entry, gate new attempts and arm a new timer.\<close>

definition scheduleRedrive :: "int \<Rightarrow> string \<Rightarrow> budget_entry \<Rightarrow> int \<Rightarrow> spawn_budget \<Rightarrow> spawn_budget" where
  "scheduleRedrive now jobId e delayMs s =
     (let s = clear_timeout (be_timer e) s;
          t = sb_fresh s
      in put_entry jobId (e\<lparr>be_backoffUntil := now + delayMs, be_timer := Some t\<rparr>)
           (s\<lparr>sb_timers := sb_timers s @ [\<lparr>pt_id = t, pt_job = jobId, pt_entry = be_identity e\<rparr>],
              sb_fresh := Suc t\<rparr>))"

definition deferAttempt :: "int \<Rightarrow> string \<Rightarrow> int \<Rightarrow> spawn_budget \<Rightarrow> spawn_budget" where
  "deferAttempt now jobId delayMs s =
     (case entry_of s jobId of
        None \<Rightarrow> s
      | Some e \<Rightarrow> scheduleRedrive now jobId (e\<lparr>be_inFlight := False, be_holder := None\<rparr>) delayMs
                   (abortAttempt jobId s))"

definition onDelivered :: "string \<Rightarrow> spawn_budget \<Rightarrow> spawn_budget" where
  "onDelivered jobId s = abortAttempt jobId s"

definition armBackoff :: "int \<Rightarrow> string \<Rightarrow> budget_entry \<Rightarrow> spawn_budget \<Rightarrow> spawn_budget" where
  "armBackoff now jobId e s = scheduleRedrive now jobId e (sr_backoffMs (be_policy e)) s"

definition recordFailure ::
  "bool \<Rightarrow> int \<Rightarrow> string \<Rightarrow> string \<Rightarrow> spawn_budget \<Rightarrow> spawn_budget \<times> failure_verdict" where
  "recordFailure queued now jobId agentId s =
     (case entry_of s jobId of
        None \<Rightarrow> (s, NotTracked)
      | Some e \<Rightarrow>
          if \<not> queued then (s, NotTracked)
          else
            let mx = sr_maxAttempts (be_policy e);
                dup = agentId \<in> set (be_failedAgents e);
                holdsGate = be_inFlight e \<and> (be_holder e = None \<or> be_holder e = Some agentId)
            in if \<not> dup \<and> \<not> holdsGate then (s, NotTracked)
               else
                 let e' = (if dup then e
                           else e\<lparr>be_failedAgents := js_add agentId (be_failedAgents e),
                                  be_inFlight := False, be_holder := None\<rparr>);
                     n = length (be_failedAgents e');
                     fin = (mx \<le> int n);
                     s' = put_entry jobId e' s
                 in (if \<not> fin \<and> \<not> dup then armBackoff now jobId e' s' else s', Verdict fin n mx dup))"

definition release :: "string \<Rightarrow> spawn_budget \<Rightarrow> spawn_budget" where
  "release jobId s =
     (case entry_of s jobId of
        None \<Rightarrow> s
      | Some e \<Rightarrow> (clear_timeout (be_timer e) s)\<lparr>sb_entries := amap_delete jobId (sb_entries s)\<rparr>)"

text \<open>The callback of a timer; the answer is the job offered to the scaler again.\<close>

definition fire_timer :: "pending_timer \<Rightarrow> spawn_budget \<Rightarrow> spawn_budget \<times> string option" where
  "fire_timer p s0 =
     (let s = s0\<lparr>sb_timers := filter (\<lambda>q. pt_id q \<noteq> pt_id p) (sb_timers s0)\<rparr>
      in case entry_of s (pt_job p) of
           None \<Rightarrow> (s, None)
         | Some e \<Rightarrow>
             if be_identity e \<noteq> pt_entry p then (s, None)
             else (put_entry (pt_job p) (e\<lparr>be_timer := None, be_backoffUntil := 0\<rparr>) s, Some (pt_job p)))"

section \<open>The control of rerouted spawns\<close>

datatype scale_result = Spawning string | Skipped "int option" | OtherAction

text \<open>
  \<open>wrapScaleRequest\<close> in two steps: what happens before the scaler is asked, and what happens when
  it has answered (\<open>None\<close>: it threw). In between anything else may run.
\<close>

definition before_scale :: "bool \<Rightarrow> int \<Rightarrow> string \<Rightarrow> spawn_budget \<Rightarrow> spawn_budget \<times> attempt_gate \<times> bool" where
  "before_scale queued now jobId s =
     (let (s', gate) = beginAttempt queued now jobId s
      in (s', gate, gate = GateUntracked \<or> gate = GateBegun))"

definition after_scale :: "int \<Rightarrow> string \<Rightarrow> attempt_gate \<Rightarrow> scale_result option \<Rightarrow> spawn_budget \<Rightarrow> spawn_budget" where
  "after_scale now jobId gate result s =
     (if gate \<noteq> GateBegun then s
      else case result of
             None \<Rightarrow> abortAttempt jobId s
           | Some (Spawning agentId) \<Rightarrow> setHolder jobId agentId s
           | Some (Skipped (Some retryAfterMs)) \<Rightarrow> deferAttempt now jobId retryAfterMs s
           | Some _ \<Rightarrow> abortAttempt jobId s)"

text \<open>
  A failed spawn: the verdict relayed to the coordinator (\<open>None\<close>: the event carries none), and
  whether the job is released from the queue of this worker.
\<close>

definition on_scaler_failed ::
  "bool \<Rightarrow> int \<Rightarrow> string \<Rightarrow> string \<Rightarrow> spawn_budget \<Rightarrow> spawn_budget \<times> bool option \<times> bool" where
  "on_scaler_failed queued now jobId agentId s =
     (let (s', v) = recordFailure queued now jobId agentId s
      in case v of
           NotTracked \<Rightarrow> (s', None, False)
         | Verdict fin n mx dup \<Rightarrow> (s', if dup then None else Some fin, fin \<and> \<not> dup))"

section \<open>All that can happen\<close>

text \<open>
  Reachable states, with the number of attempts begun per job since its registration. The answer
  of the scaler may come at any time after the request, whatever happened meanwhile, so
  \<open>after_scale\<close> may run in any state.
\<close>

inductive reach :: "spawn_budget \<Rightarrow> (string \<Rightarrow> nat) \<Rightarrow> bool" where
  start: "reach new_SpawnRetryBudget (\<lambda>_. 0)"
| do_register: "reach s g \<Longrightarrow> reach (register j run pol s) g"
| do_before: "reach s g \<Longrightarrow> before_scale queued now j s = (s', gate, ask) \<Longrightarrow>
    reach s' (if gate = GateBegun then g(j := Suc (g j)) else g)"
| do_after: "reach s g \<Longrightarrow> reach (after_scale now j gate result s) g"
| do_failed: "reach s g \<Longrightarrow> on_scaler_failed queued now j a s = (s', v, rel) \<Longrightarrow> reach s' g"
| do_delivered: "reach s g \<Longrightarrow> reach (onDelivered j s) g"
| do_release: "reach s g \<Longrightarrow> reach (release j s) (g(j := 0))"
| do_fire: "reach s g \<Longrightarrow> p \<in> set (sb_timers s) \<Longrightarrow> reach (fst (fire_timer p s)) g"

definition entry_ok :: "budget_entry \<Rightarrow> nat \<Rightarrow> bool" where
  "entry_ok e begun \<longleftrightarrow> distinct (be_failedAgents e)
     \<and> (be_holder e \<noteq> None \<longrightarrow> be_inFlight e)
     \<and> (\<forall>a. be_holder e = Some a \<longrightarrow> a \<notin> set (be_failedAgents e))
     \<and> (be_backoffUntil e \<noteq> 0 \<longrightarrow> be_timer e \<noteq> None)
     \<and> length (be_failedAgents e) + (if be_inFlight e then 1 else 0) \<le> begun"

definition timers_ok :: "spawn_budget \<Rightarrow> bool" where
  "timers_ok s \<longleftrightarrow> distinct (map pt_id (sb_timers s))
     \<and> (\<forall>p \<in> set (sb_timers s). pt_id p < sb_fresh s \<and>
          (\<exists>e. entry_of s (pt_job p) = Some e \<and> be_identity e = pt_entry p \<and> be_timer e = Some (pt_id p)))
     \<and> (\<forall>j e t. entry_of s j = Some e \<longrightarrow> be_timer e = Some t \<longrightarrow>
          (\<exists>p \<in> set (sb_timers s). pt_id p = t \<and> pt_job p = j))"

definition budget_ok :: "spawn_budget \<Rightarrow> (string \<Rightarrow> nat) \<Rightarrow> bool" where
  "budget_ok s g \<longleftrightarrow> timers_ok s \<and> (\<forall>j e. entry_of s j = Some e \<longrightarrow> entry_ok e (g j))"

lemma entries_put [simp]: "map_of (sb_entries (put_entry j e s)) = (map_of (sb_entries s))(j \<mapsto> e)"
  "sb_timers (put_entry j e s) = sb_timers s" "sb_fresh (put_entry j e s) = sb_fresh s"
  by (simp_all add: put_entry_def)

text \<open>An update of an entry that keeps its identity and timer keeps the timers in order.\<close>

lemma timers_ok_put:
  assumes "timers_ok s" "entry_of s j = Some e" "be_identity e' = be_identity e" "be_timer e' = be_timer e"
  shows "timers_ok (put_entry j e' s)"
  using assms by (auto simp: timers_ok_def)

lemma budget_ok_put:
  assumes "budget_ok s g" "entry_of s j = Some e" "be_identity e' = be_identity e" "be_timer e' = be_timer e"
    and "entry_ok e' (g j)"
  shows "budget_ok (put_entry j e' s) g"
  using assms timers_ok_put [of s j e e'] by (auto simp: budget_ok_def)

lemma amap_set_twice [simp]: "amap_set k v (amap_set k w m) = amap_set k v m"
  by (induction k v m rule: amap_set.induct) auto

lemma put_twice [simp]: "put_entry j e (put_entry j e' s) = put_entry j e s"
  by (simp add: put_entry_def)

lemma timer_unique: "timers_ok s \<Longrightarrow> p \<in> set (sb_timers s) \<Longrightarrow> q \<in> set (sb_timers s) \<Longrightarrow> pt_id p = pt_id q \<Longrightarrow> p = q"
  by (auto simp: timers_ok_def distinct_map dest: inj_onD)

lemma timer_entry:
  "timers_ok s \<Longrightarrow> p \<in> set (sb_timers s) \<Longrightarrow>
     \<exists>e. entry_of s (pt_job p) = Some e \<and> be_identity e = pt_entry p \<and> be_timer e = Some (pt_id p)"
  by (simp add: timers_ok_def)

lemma entry_timer:
  "timers_ok s \<Longrightarrow> entry_of s j = Some e \<Longrightarrow> be_timer e = Some t \<Longrightarrow>
     \<exists>p \<in> set (sb_timers s). pt_id p = t \<and> pt_job p = j"
  by (simp add: timers_ok_def del: map_of_eq_Some_iff)

lemmas timer_facts = timer_unique timer_entry entry_timer

text \<open>Clearing the timer of an entry leaves the others alone.\<close>

lemma clear_fields [simp]:
  "sb_entries (clear_timeout t s) = sb_entries s" "sb_fresh (clear_timeout t s) = sb_fresh s"
  by (simp_all add: clear_timeout_def split: option.split)

lemma clear_others:
  assumes "timers_ok s" "entry_of s j = Some e" "p \<in> set (sb_timers s)"
  shows "p \<in> set (sb_timers (clear_timeout (be_timer e) s)) \<longleftrightarrow> pt_job p \<noteq> j"
proof
  assume "p \<in> set (sb_timers (clear_timeout (be_timer e) s))"
  then show "pt_job p \<noteq> j" using timer_entry [OF assms(1,3)] assms(2)
    by (auto simp: clear_timeout_def split: option.splits)
next
  assume j: "pt_job p \<noteq> j"
  show "p \<in> set (sb_timers (clear_timeout (be_timer e) s))"
  proof (cases "be_timer e")
    case (Some t)
    from entry_timer [OF assms(1,2) Some] obtain q where "q \<in> set (sb_timers s)" "pt_id q = t" "pt_job q = j" by blast
    with timer_unique [OF assms(1,3)] j have "pt_id p \<noteq> t" by metis
    with assms(3) Some show ?thesis by (simp add: clear_timeout_def)
  qed (use assms(3) in \<open>simp add: clear_timeout_def\<close>)
qed

lemma clear_subset: "set (sb_timers (clear_timeout t s)) \<subseteq> set (sb_timers s)"
  by (auto simp: clear_timeout_def split: option.splits)

lemma clear_distinct: "distinct (map pt_id (sb_timers s)) \<Longrightarrow> distinct (map pt_id (sb_timers (clear_timeout t s)))"
  by (simp add: clear_timeout_def distinct_map_filter split: option.splits)

lemma timers_ok_cleared:
  assumes "timers_ok s" "entry_of s j = Some e" "be_timer e' = None"
  shows "timers_ok (put_entry j e' (clear_timeout (be_timer e) s))"
  unfolding timers_ok_def
proof (intro conjI ballI allI impI)
  let ?c = "clear_timeout (be_timer e) s"
  show "distinct (map pt_id (sb_timers (put_entry j e' ?c)))"
    using assms(1) by (simp add: timers_ok_def clear_distinct)
  fix p
  assume "p \<in> set (sb_timers (put_entry j e' ?c))"
  then have p: "p \<in> set (sb_timers s)" "pt_job p \<noteq> j"
    using clear_subset clear_others [OF assms(1,2)] by auto
  from p(1) assms(1) show "pt_id p < sb_fresh (put_entry j e' ?c)" by (simp add: timers_ok_def)
  from timer_entry [OF assms(1) p(1)] p(2)
  show "\<exists>x. entry_of (put_entry j e' ?c) (pt_job p) = Some x \<and> be_identity x = pt_entry p \<and> be_timer x = Some (pt_id p)"
    by simp
next
  let ?c = "clear_timeout (be_timer e) s"
  fix j' x t
  assume "entry_of (put_entry j e' ?c) j' = Some x" and t: "be_timer x = Some t"
  then have "j' \<noteq> j" "entry_of s j' = Some x" using assms(3) by (auto split: if_splits)
  with entry_timer [OF assms(1) _ t] clear_others [OF assms(1,2)]
  show "\<exists>p \<in> set (sb_timers (put_entry j e' ?c)). pt_id p = t \<and> pt_job p = j'"
    by (simp del: map_of_eq_Some_iff) blast
qed

text \<open>Arming a timer for an entry that has none.\<close>

definition arm :: "string \<Rightarrow> budget_entry \<Rightarrow> spawn_budget \<Rightarrow> spawn_budget" where
  "arm j e s = put_entry j (e\<lparr>be_timer := Some (sb_fresh s)\<rparr>)
     (s\<lparr>sb_timers := sb_timers s @ [\<lparr>pt_id = sb_fresh s, pt_job = j, pt_entry = be_identity e\<rparr>],
        sb_fresh := Suc (sb_fresh s)\<rparr>)"

lemma timers_ok_arm:
  assumes "timers_ok s" "entry_of s j = Some e" "be_timer e = None"
  shows "timers_ok (arm j e s)"
proof -
  have fresh: "\<forall>p \<in> set (sb_timers s). pt_id p < sb_fresh s \<and> pt_job p \<noteq> j"
    using assms by (auto simp: timers_ok_def)
  show ?thesis
    using assms(1) fresh by (auto simp: timers_ok_def arm_def less_Suc_eq simp del: map_of_eq_Some_iff split: if_splits)
qed

lemma scheduleRedrive_arm:
  "scheduleRedrive now j e d s =
     arm j (e\<lparr>be_backoffUntil := now + d, be_timer := None\<rparr>)
       (put_entry j (e\<lparr>be_backoffUntil := now + d, be_timer := None\<rparr>) (clear_timeout (be_timer e) s))"
  by (simp add: scheduleRedrive_def arm_def Let_def put_entry_def)

lemma timers_ok_schedule:
  assumes "timers_ok s" "entry_of s j = Some e0" "be_timer e = be_timer e0"
  shows "timers_ok (scheduleRedrive now j e d s)"
  unfolding scheduleRedrive_arm using timers_ok_cleared [OF assms(1,2)] assms(3)
  by (intro timers_ok_arm) simp_all

lemma budget_ok_schedule:
  assumes "budget_ok s g" "entry_of s j = Some e0" "be_timer e = be_timer e0" "entry_ok e (g j)"
  shows "budget_ok (scheduleRedrive now j e d s) g"
proof -
  have "map_of (sb_entries (scheduleRedrive now j e d s)) =
      (map_of (sb_entries s))(j \<mapsto> e\<lparr>be_backoffUntil := now + d, be_timer := Some (sb_fresh s)\<rparr>)"
    by (simp add: scheduleRedrive_def Let_def put_entry_def)
  then show ?thesis using assms timers_ok_schedule [OF _ assms(2,3)]
    by (auto simp: budget_ok_def entry_ok_def simp del: map_of_eq_Some_iff split: if_splits)
qed

section \<open>Every operation keeps the invariant\<close>

lemma entry_okD: "budget_ok s g \<Longrightarrow> entry_of s j = Some e \<Longrightarrow> entry_ok e (g j)"
  by (simp add: budget_ok_def del: map_of_eq_Some_iff)

lemma register_ok:
  assumes "budget_ok s g"
  shows "budget_ok (register j run pol s) g"
proof (cases "entry_of s j")
  case None
  have "timers_ok (register j run pol s)"
    using assms None unfolding budget_ok_def timers_ok_def register_def
    by (auto simp: put_entry_def simp del: map_of_eq_Some_iff)
  then show ?thesis using assms None
    by (auto simp: budget_ok_def register_def entry_ok_def simp del: map_of_eq_Some_iff)
qed (use assms in \<open>simp add: register_def del: map_of_eq_Some_iff\<close>)

lemma abort_ok: "budget_ok s g \<Longrightarrow> budget_ok (abortAttempt j s) g"
  by (auto simp: abortAttempt_def simp del: map_of_eq_Some_iff split: option.split
      intro!: budget_ok_put dest: entry_okD) (auto simp: entry_ok_def dest!: entry_okD simp del: map_of_eq_Some_iff)

lemma set_holder_ok: "budget_ok s g \<Longrightarrow> budget_ok (setHolder j a s) g"
  by (auto simp: setHolder_def simp del: map_of_eq_Some_iff split: option.split
      intro!: budget_ok_put) (auto simp: entry_ok_def dest!: entry_okD simp del: map_of_eq_Some_iff)

lemma defer_ok: "budget_ok s g \<Longrightarrow> budget_ok (deferAttempt now j d s) g"
proof (cases "entry_of s j")
  case (Some e)
  assume ok: "budget_ok s g"
  let ?e = "e\<lparr>be_inFlight := False, be_holder := None\<rparr>"
  have "entry_of (abortAttempt j s) j = Some ?e" using Some by (simp add: abortAttempt_def del: map_of_eq_Some_iff)
  moreover have "entry_ok ?e (g j)" using entry_okD [OF ok Some] by (auto simp: entry_ok_def)
  ultimately show ?thesis using Some budget_ok_schedule [OF abort_ok [OF ok]]
    by (simp add: deferAttempt_def del: map_of_eq_Some_iff)
qed (simp add: deferAttempt_def del: map_of_eq_Some_iff)

lemma entry_ok_mono: "entry_ok e n \<Longrightarrow> n \<le> m \<Longrightarrow> entry_ok e m"
  unfolding entry_ok_def by auto

lemma before_ok:
  assumes "budget_ok s g" "before_scale queued now j s = (s', gate, ask)"
  shows "budget_ok s' (if gate = GateBegun then g(j := Suc (g j)) else g)"
proof (cases "gate = GateBegun")
  case True
  then obtain e where e: "entry_of s j = Some e" "\<not> be_inFlight e" "s' = put_entry j (e\<lparr>be_inFlight := True\<rparr>) s"
    using assms(2) by (auto simp: before_scale_def beginAttempt_def simp del: map_of_eq_Some_iff
        split: option.splits if_splits)
  have "budget_ok s (g(j := Suc (g j)))" using assms(1)
    by (auto simp: budget_ok_def intro: entry_ok_mono [OF _ le_SucI [OF order_refl]] simp del: map_of_eq_Some_iff)
  from budget_ok_put [OF this e(1), of "e\<lparr>be_inFlight := True\<rparr>"] entry_okD [OF assms(1) e(1)] e(2,3) True
  show ?thesis by (auto simp: entry_ok_def)
next
  case False
  with assms have "s' = s" by (auto simp: before_scale_def beginAttempt_def split: option.splits if_splits)
  with assms(1) False show ?thesis by simp
qed

lemma after_ok: "budget_ok s g \<Longrightarrow> budget_ok (after_scale now j gate result s) g"
  by (auto simp: after_scale_def abort_ok set_holder_ok defer_ok split: option.splits scale_result.splits)

lemma recordFailure_ok:
  assumes "budget_ok s g" "recordFailure queued now j a s = (s', v)"
  shows "budget_ok s' g"
proof (cases "entry_of s j")
  case (Some e)
  note ok = entry_okD [OF assms(1) Some]
  let ?e = "e\<lparr>be_failedAgents := js_add a (be_failedAgents e), be_inFlight := False, be_holder := None\<rparr>"
  show ?thesis
  proof (cases "v = NotTracked \<or> a \<in> set (be_failedAgents e)")
    case True
    then have "s' = s \<or> s' = put_entry j e s" using assms(2) Some
      by (auto simp: recordFailure_def Let_def simp del: map_of_eq_Some_iff split: if_splits)
    then show ?thesis using assms(1) budget_ok_put [OF assms(1) Some _ _ ok] by auto
  next
    case False
    then have charged: "be_inFlight e" and s': "s' = put_entry j ?e s \<or> s' = armBackoff now j ?e (put_entry j ?e s)"
      using assms(2) Some
      by (auto simp: recordFailure_def Let_def simp del: map_of_eq_Some_iff split: if_splits)
    have e: "entry_ok ?e (g j)" using ok charged False by (auto simp: entry_ok_def js_add_def)
    have "budget_ok (put_entry j ?e s) g" using budget_ok_put [OF assms(1) Some _ _ e] by simp
    moreover have "budget_ok (armBackoff now j ?e (put_entry j ?e s)) g"
      unfolding armBackoff_def by (rule budget_ok_schedule [OF calculation, of j ?e]) (use e in simp_all)
    ultimately show ?thesis using s' by auto
  qed
qed (use assms in \<open>simp add: recordFailure_def del: map_of_eq_Some_iff\<close>)

lemma release_ok:
  assumes "budget_ok s g"
  shows "budget_ok (release j s) (g(j := 0))"
proof (cases "entry_of s j")
  case None
  then show ?thesis using assms by (auto simp: release_def budget_ok_def simp del: map_of_eq_Some_iff)
next
  case (Some e)
  have "timers_ok (put_entry j (e\<lparr>be_timer := None\<rparr>) (clear_timeout (be_timer e) s))"
    using assms Some by (intro timers_ok_cleared) (simp_all add: budget_ok_def)
  then have "timers_ok (release j s)" using Some assms clear_others [of s j e] clear_subset [of "be_timer e" s]
    by (fastforce simp: timers_ok_def release_def budget_ok_def simp del: map_of_eq_Some_iff)
  then show ?thesis using Some assms
    by (auto simp: budget_ok_def release_def simp del: map_of_eq_Some_iff)
qed

lemma fire_ok:
  assumes "budget_ok s g" "p \<in> set (sb_timers s)"
  shows "\<exists>e. entry_of s (pt_job p) = Some e \<and>
           fire_timer p s = (put_entry (pt_job p) (e\<lparr>be_timer := None, be_backoffUntil := 0\<rparr>)
             (clear_timeout (be_timer e) s), Some (pt_job p))"
    and "budget_ok (fst (fire_timer p s)) g"
proof -
  have t: "timers_ok s" using assms(1) by (simp add: budget_ok_def)
  from timer_entry [OF t assms(2)] obtain e where e: "entry_of s (pt_job p) = Some e"
      "be_identity e = pt_entry p" "be_timer e = Some (pt_id p)" by blast
  let ?e = "e\<lparr>be_timer := None, be_backoffUntil := 0\<rparr>"
  have fire: "fire_timer p s = (put_entry (pt_job p) ?e (clear_timeout (be_timer e) s), Some (pt_job p))"
    using e by (simp add: fire_timer_def clear_timeout_def del: map_of_eq_Some_iff)
  then show "\<exists>e. entry_of s (pt_job p) = Some e \<and>
           fire_timer p s = (put_entry (pt_job p) (e\<lparr>be_timer := None, be_backoffUntil := 0\<rparr>)
             (clear_timeout (be_timer e) s), Some (pt_job p))"
    using e(1) by blast
  show "budget_ok (fst (fire_timer p s)) g"
    using timers_ok_cleared [OF t e(1), of ?e] assms(1) entry_okD [OF assms(1) e(1)]
    by (auto simp: fire budget_ok_def entry_ok_def simp del: map_of_eq_Some_iff split: if_splits)
qed

lemma reach_ok: "reach s g \<Longrightarrow> budget_ok s g"
proof (induction rule: reach.induct)
  case start
  show ?case by (simp add: budget_ok_def timers_ok_def new_SpawnRetryBudget_def)
next
  case (do_failed s g queued now j a s' v rel)
  then obtain w where "recordFailure queued now j a s = (s', w)"
    by (auto simp: on_scaler_failed_def split: prod.splits failure_verdict.splits)
  with do_failed recordFailure_ok show ?case by blast
next
  case (do_release s g j)
  then show ?case by (intro release_ok)
next
  case (do_before s g queued now j s' gate ask)
  from before_ok [OF do_before.IH do_before.hyps(2)] show ?case .
qed (simp_all add: register_ok after_ok abort_ok onDelivered_def release_ok fire_ok(2))

section \<open>The agreement with the coordinator\<close>

lemma armed_after_schedule: "\<exists>p \<in> set (sb_timers (scheduleRedrive now j e d s)). pt_job p = j"
  by (simp add: scheduleRedrive_def Let_def)

text \<open>
  C18. No retry is lost: whenever the gate answers that a job backs off, a timer of the job is
  pending, and once it fires, whenever that is, the job is offered to the scaler and its next
  attempt begins.
\<close>

theorem backoff_ends:
  assumes "reach s g" "beginAttempt queued now j s = (s', GateBackoff)" "0 \<le> now"
  shows "\<exists>p \<in> set (sb_timers s). pt_job p = j \<and> snd (fire_timer p s) = Some j
    \<and> (\<forall>t \<ge> 0. snd (beginAttempt True t j (fst (fire_timer p s))) = GateBegun)"
proof -
  have ok: "budget_ok s g" using assms(1) by (rule reach_ok)
  from assms(2) obtain e where e: "entry_of s j = Some e" "\<not> be_inFlight e" "now < be_backoffUntil e"
    by (auto simp: beginAttempt_def simp del: map_of_eq_Some_iff split: option.splits if_splits)
  with assms(3) obtain t where "be_timer e = Some t" using entry_okD [OF ok e(1)] by (auto simp: entry_ok_def)
  with ok e(1) obtain p where p: "p \<in> set (sb_timers s)" "pt_job p = j"
    using entry_timer [of s j e t] by (auto simp: budget_ok_def simp del: map_of_eq_Some_iff)
  from fire_ok(1) [OF ok p(1)] p(2) e(1) have fire:
    "fire_timer p s = (put_entry j (e\<lparr>be_timer := None, be_backoffUntil := 0\<rparr>) (clear_timeout (be_timer e) s), Some j)"
    by auto
  have "\<forall>t \<ge> 0. snd (beginAttempt True t j (fst (fire_timer p s))) = GateBegun"
    using e(2) by (simp add: fire beginAttempt_def)
  with p fire show ?thesis by auto
qed

text \<open>A run of one job: registered, begun, failed, and asked again.\<close>

definition demo_registered :: spawn_budget where
  "demo_registered = register ''j'' ''r'' \<lparr>sr_maxAttempts = 2, sr_backoffMs = 500\<rparr> new_SpawnRetryBudget"

definition demo_begun :: spawn_budget where
  "demo_begun = fst (before_scale True 1000 ''j'' demo_registered)"

definition demo_failed :: spawn_budget where
  "demo_failed = fst (on_scaler_failed True 1100 ''j'' ''a1'' demo_begun)"

lemma demo_begun_reach: "reach demo_begun ((\<lambda>_. 0)(''j'' := Suc 0))"
proof -
  have r: "reach demo_registered (\<lambda>_. 0)" unfolding demo_registered_def by (intro reach.intros)
  have "before_scale True 1000 ''j'' demo_registered = (demo_begun, GateBegun, True)" by code_simp
  from do_before [OF r this] show ?thesis by simp
qed

lemma demo_failed_reach: "reach demo_failed ((\<lambda>_. 0)(''j'' := Suc 0))"
proof -
  have "on_scaler_failed True 1100 ''j'' ''a1'' demo_begun = (demo_failed, Some False, False)" by code_simp
  from do_failed [OF demo_begun_reach this] show ?thesis .
qed

theorem backoff_ends_witness:
  "beginAttempt True 1200 ''j'' demo_failed = (demo_failed, GateBackoff)
   \<and> (\<exists>p \<in> set (sb_timers demo_failed). snd (fire_timer p demo_failed) = Some ''j'')"
proof -
  have *: "beginAttempt True 1200 ''j'' demo_failed = (demo_failed, GateBackoff)" by code_simp
  with backoff_ends [OF demo_failed_reach *] show ?thesis by force
qed

text \<open>
  The budget charges honestly: the failures of a job are by different agents and never more
  than the attempts begun for it, and while an attempt is in flight there is one to spare for it.
\<close>

theorem failures_bounded_by_attempts:
  assumes "reach s g" "entry_of s j = Some e"
  shows "distinct (be_failedAgents e)
    \<and> length (be_failedAgents e) + (if be_inFlight e then 1 else 0) \<le> g j"
  using entry_okD [OF reach_ok [OF assms(1)] assms(2)] by (simp add: entry_ok_def)

theorem failures_bounded_by_attempts_witness:
  "\<exists>e. entry_of demo_failed ''j'' = Some e \<and> be_failedAgents e = [''a1'']
     \<and> length (be_failedAgents e) + (if be_inFlight e then 1 else 0) \<le> Suc 0"
proof -
  have "map_option be_failedAgents (entry_of demo_failed ''j'') = Some [''a1'']" by code_simp
  then obtain e where e: "entry_of demo_failed ''j'' = Some e" "be_failedAgents e = [''a1'']" by auto
  from failures_bounded_by_attempts [OF demo_failed_reach e(1)] e show ?thesis by auto
qed

text \<open>
  A failure that counts is final exactly when it is the last the policy allows; otherwise the
  next attempt is armed, and the coordinator reads one verdict per counted failure.
\<close>

lemma counted_failure:
  assumes "on_scaler_failed queued now j a s = (s', Some fin, rel)"
  shows "\<exists>e e'. entry_of s j = Some e \<and> entry_of s' j = Some e'
    \<and> be_failedAgents e' = be_failedAgents e @ [a] \<and> be_inFlight e \<and> \<not> be_inFlight e'
    \<and> fin = (sr_maxAttempts (be_policy e) \<le> int (length (be_failedAgents e'))) \<and> rel = fin
    \<and> (\<not> fin \<longrightarrow> (\<exists>p \<in> set (sb_timers s'). pt_job p = j))"
  using assms armed_after_schedule
  by (auto simp: on_scaler_failed_def recordFailure_def Let_def armBackoff_def js_add_def
      scheduleRedrive_def put_entry_def simp del: map_of_eq_Some_iff split: option.splits if_splits prod.splits)

end
