(* ===== verification/WorkerRelay.thy ===== *)
theory WorkerRelay
  imports Statuses
begin

text \<open>
  How the status of a rerouted job travels from a worker to the coordinator that owns its run, in
  \<open>packages/orchestrator/src/worker/\<close>: the tracker in memory (\<open>in-memory-execution-tracker.ts\<close>), the
  durable outbox (\<open>peer-outbox.ts\<close>), their glue (\<open>worker-outbox-relay.ts\<close>) and the callback of
  \<open>worker-core.ts\<close> that forwards an update.

  The directory of the outbox is the list of its files, in the order \<open>readdir\<close> gives. The hash of
  a coordinator's URL, and how a record is written as JSON and read back, are parameters; a file
  that does not parse reads as \<open>None\<close>. A write is on disk once it was synced, so a crash leaves
  the target of a rename either old or new, and any content in a temporary file.
\<close>

section \<open>The tracker\<close>

record job_state =
  jt_name :: string
  jt_status :: string
  jt_startedAt :: "int option"
  jt_completedAt :: "int option"

record run_state =
  rt_workflowName :: string
  rt_provider :: string
  rt_repoIdentifier :: string
  rt_sha :: string
  rt_ref :: string
  rt_startedAt :: int
  rt_jobs :: "(string \<times> job_state) list"

record completed_job =
  cj_runId :: string
  cj_jobId :: string
  cj_jobName :: string
  cj_status :: string
  cj_startedAt :: int
  cj_completedAt :: int
  cj_durationMs :: int

record tracker =
  tr_recentJobsLimit :: nat
  tr_runs :: "(string \<times> run_state) list"
  tr_recentJobs :: "completed_job list"

datatype update_type = UpdateJob | UpdateStep

record 'd status_update =
  su_type :: update_type
  su_runId :: string
  su_jobId :: string
  su_status :: string
  su_stepIndex :: "int option"
  su_stepName :: "string option"
  su_timestamp :: int
  su_data :: "'d option"

definition DEFAULT_RECENT_JOBS_LIMIT :: nat where "DEFAULT_RECENT_JOBS_LIMIT = 50"

definition new_InMemoryExecutionTracker :: "nat option \<Rightarrow> tracker" where
  "new_InMemoryExecutionTracker limit =
     \<lparr>tr_recentJobsLimit = (case limit of None \<Rightarrow> DEFAULT_RECENT_JOBS_LIMIT | Some n \<Rightarrow> n),
      tr_runs = [], tr_recentJobs = []\<rparr>"

definition terminal_text :: "string \<Rightarrow> bool" where
  "terminal_text status \<longleftrightarrow> status \<in> set (map job_status_name TERMINAL_JOB_STATES)"

definition onExecutionStarted ::
  "string \<Rightarrow> string \<Rightarrow> string \<Rightarrow> string \<Rightarrow> string \<Rightarrow> string \<Rightarrow> (string \<times> string) list \<Rightarrow> int \<Rightarrow> tracker \<Rightarrow> tracker" where
  "onExecutionStarted runId workflowName provider repoIdentifier ref sha jobs now t =
     t\<lparr>tr_runs := amap_set runId
         \<lparr>rt_workflowName = workflowName, rt_provider = provider, rt_repoIdentifier = repoIdentifier,
          rt_sha = sha, rt_ref = ref, rt_startedAt = now,
          rt_jobs = fold (\<lambda>(jobId, jobName). amap_set jobId
              \<lparr>jt_name = jobName, jt_status = ''pending'', jt_startedAt = None, jt_completedAt = None\<rparr>) jobs []\<rparr>
         (tr_runs t)\<rparr>"

definition addToRecentJobs :: "completed_job \<Rightarrow> tracker \<Rightarrow> tracker" where
  "addToRecentJobs info t =
     (let recent = tr_recentJobs t @ [info]
      in t\<lparr>tr_recentJobs := (if tr_recentJobsLimit t < length recent then tl recent else recent)\<rparr>)"

text \<open>The update is what is handed to \<open>onStatusForward\<close>.\<close>

definition onJobStatus ::
  "string \<Rightarrow> string \<Rightarrow> string \<Rightarrow> int \<Rightarrow> 'd option \<Rightarrow> tracker \<Rightarrow> tracker \<times> 'd status_update option" where
  "onJobStatus runId jobId status timestamp data t =
     (case map_of (tr_runs t) runId of
        None \<Rightarrow> (t, None)
      | Some run \<Rightarrow>
          (case map_of (rt_jobs run) jobId of
             None \<Rightarrow> (t, None)
           | Some job \<Rightarrow>
               let unstarted = (case jt_startedAt job of None \<Rightarrow> True | Some s \<Rightarrow> s = 0);
                   job1 = job\<lparr>jt_status := status,
                     jt_startedAt := (if status = ''running'' \<and> unstarted then Some timestamp else jt_startedAt job)\<rparr>;
                   startedAt = (case jt_startedAt job1 of None \<Rightarrow> timestamp | Some s \<Rightarrow> s);
                   job2 = (if terminal_text status then job1\<lparr>jt_completedAt := Some timestamp\<rparr> else job1);
                   jobs = amap_set jobId job2 (rt_jobs run);
                   t1 = t\<lparr>tr_runs := amap_set runId (run\<lparr>rt_jobs := jobs\<rparr>) (tr_runs t)\<rparr>;
                   t2 = (if terminal_text status
                         then addToRecentJobs
                           \<lparr>cj_runId = runId, cj_jobId = jobId, cj_jobName = jt_name job, cj_status = status,
                            cj_startedAt = startedAt, cj_completedAt = timestamp,
                            cj_durationMs = timestamp - startedAt\<rparr> t1
                         else t1);
                   t3 = (if terminal_text status \<and> list_all (\<lambda>(_, j). terminal_text (jt_status j)) jobs
                         then t2\<lparr>tr_runs := amap_delete runId (tr_runs t2)\<rparr> else t2)
               in (t3, Some \<lparr>su_type = UpdateJob, su_runId = runId, su_jobId = jobId, su_status = status,
                             su_stepIndex = None, su_stepName = None, su_timestamp = timestamp,
                             su_data = data\<rparr>)))"

definition onStepStatus ::
  "string \<Rightarrow> string \<Rightarrow> int \<Rightarrow> string \<Rightarrow> string \<Rightarrow> int \<Rightarrow> 'd option \<Rightarrow> tracker \<Rightarrow> 'd status_update option" where
  "onStepStatus runId jobId idx name status timestamp data t =
     (case map_of (tr_runs t) runId of
        None \<Rightarrow> None
      | Some run \<Rightarrow>
          Some \<lparr>su_type = UpdateStep, su_runId = runId, su_jobId = jobId, su_status = status,
                su_stepIndex = Some idx, su_stepName = Some name, su_timestamp = timestamp,
                su_data = data\<rparr>)"

definition dropJob :: "string \<Rightarrow> string \<Rightarrow> tracker \<Rightarrow> tracker" where
  "dropJob runId jobId t =
     (case map_of (tr_runs t) runId of
        None \<Rightarrow> t
      | Some run \<Rightarrow>
          let jobs = amap_delete jobId (rt_jobs run)
          in t\<lparr>tr_runs := (if jobs = [] then amap_delete runId (tr_runs t)
                           else amap_set runId (run\<lparr>rt_jobs := jobs\<rparr>) (tr_runs t))\<rparr>)"

definition getRunStatus :: "string \<Rightarrow> tracker \<Rightarrow> run_state option" where
  "getRunStatus runId t = map_of (tr_runs t) runId"

definition getRecentJobs :: "tracker \<Rightarrow> completed_job list" where
  "getRecentJobs t = rev (tr_recentJobs t)"

section \<open>The outbox\<close>

record 'd job_progress =
  jp_runId :: string
  jp_jobId :: string
  jp_stepIndex :: int
  jp_stepName :: string
  jp_state :: string
  jp_timestamp :: int
  jp_data :: "'d option"

record 'd outbox_record =
  or_coordUrl :: string
  or_message :: "'d job_progress"
  or_persistedAt :: int

type_synonym disk = "(string \<times> string) list"

record 'd outbox =
  ob_records :: "(string \<times> 'd outbox_record) list"
  ob_disk :: disk

text \<open>What the outbox gets from elsewhere: the hash of a URL, \<open>JSON.stringify\<close> and \<open>JSON.parse\<close>.\<close>

record 'd outbox_env =
  oe_coordKey :: "string \<Rightarrow> string"
  oe_write :: "'d outbox_record \<Rightarrow> string"
  oe_read :: "string \<Rightarrow> 'd outbox_record option"

definition recordKey :: "'d outbox_env \<Rightarrow> string \<Rightarrow> string \<Rightarrow> string \<Rightarrow> string" where
  "recordKey env coordUrl runId jobId = oe_coordKey env coordUrl @ ''__'' @ runId @ ''__'' @ jobId"

abbreviation key_of :: "'d outbox_env \<Rightarrow> 'd outbox_record \<Rightarrow> string" where
  "key_of env r \<equiv> recordKey env (or_coordUrl r) (jp_runId (or_message r)) (jp_jobId (or_message r))"

definition fileFor :: "string \<Rightarrow> string" where
  "fileFor key = key @ ''.json''"

definition load_file :: "'d outbox_env \<Rightarrow> string \<times> string \<Rightarrow> (string \<times> 'd outbox_record) list
    \<Rightarrow> (string \<times> 'd outbox_record) list" where
  "load_file env f records =
     (if \<not> endsWith (fst f) ''.json'' then records
      else case oe_read env (snd f) of
             None \<Rightarrow> records
           | Some r \<Rightarrow>
               if or_coordUrl r = [] \<or> jp_runId (or_message r) = [] \<or> jp_jobId (or_message r) = [] then records
               else amap_set (key_of env r) r records)"

definition loadFromDisk :: "'d outbox_env \<Rightarrow> 'd outbox \<Rightarrow> 'd outbox" where
  "loadFromDisk env b = b\<lparr>ob_records := fold (load_file env) (ob_disk b) (ob_records b)\<rparr>"

definition write_file :: "string \<Rightarrow> string \<Rightarrow> disk \<Rightarrow> disk" where
  "write_file name content d = amap_set name content d"

definition rename_file :: "string \<Rightarrow> string \<Rightarrow> disk \<Rightarrow> disk" where
  "rename_file old new d =
     (case map_of d old of None \<Rightarrow> d | Some c \<Rightarrow> amap_set new c (amap_delete old d))"

text \<open>\<open>enqueueSync\<close>, and \<open>enqueue\<close> when nothing else runs between its awaits.\<close>

definition enqueueSync :: "'d outbox_env \<Rightarrow> int \<Rightarrow> string \<Rightarrow> 'd job_progress \<Rightarrow> 'd outbox \<Rightarrow> 'd outbox" where
  "enqueueSync env now coordUrl message b =
     (let r = \<lparr>or_coordUrl = coordUrl, or_message = message, or_persistedAt = now\<rparr>;
          key = recordKey env coordUrl (jp_runId message) (jp_jobId message);
          target = fileFor key;
          tmp = target @ ''.tmp'';
          d1 = write_file tmp (oe_write env r) (ob_disk b);
          d2 = rename_file tmp target d1
      in b\<lparr>ob_disk := d2, ob_records := amap_set key r (ob_records b)\<rparr>)"

definition ack :: "'d outbox_env \<Rightarrow> string \<Rightarrow> string \<Rightarrow> string \<Rightarrow> 'd outbox \<Rightarrow> 'd outbox" where
  "ack env coordUrl runId jobId b =
     (let key = recordKey env coordUrl runId jobId
      in b\<lparr>ob_records := amap_delete key (ob_records b), ob_disk := amap_delete (fileFor key) (ob_disk b)\<rparr>)"

definition pendingFor :: "string \<Rightarrow> 'd outbox \<Rightarrow> 'd outbox_record list" where
  "pendingFor coordUrl b = filter (\<lambda>r. or_coordUrl r = coordUrl) (map snd (ob_records b))"

definition prune :: "int \<Rightarrow> int \<Rightarrow> 'd outbox \<Rightarrow> 'd outbox \<times> nat" where
  "prune ttlMs now b =
     (let stale = filter (\<lambda>(key, r). ttlMs < now - or_persistedAt r) (ob_records b)
      in (fold (\<lambda>(key, r) b. b\<lparr>ob_records := amap_delete key (ob_records b),
                               ob_disk := amap_delete (fileFor key) (ob_disk b)\<rparr>) stale b, length stale))"

section \<open>The relay\<close>

definition buildTerminalJobProgress :: "'d status_update \<Rightarrow> 'd job_progress option" where
  "buildTerminalJobProgress u =
     (if su_type u \<noteq> UpdateJob then None
      else if \<not> terminal_text (su_status u) then None
      else Some \<lparr>jp_runId = su_runId u, jp_jobId = su_jobId u,
                 jp_stepIndex = (case su_stepIndex u of None \<Rightarrow> 0 | Some i \<Rightarrow> i),
                 jp_stepName = (case su_stepName u of None \<Rightarrow> [] | Some n \<Rightarrow> n),
                 jp_state = su_status u, jp_timestamp = su_timestamp u, jp_data = su_data u\<rparr>)"

definition replayPending :: "'d outbox \<Rightarrow> string \<Rightarrow> 'd job_progress list" where
  "replayPending b url = map or_message (pendingFor url b)"

text \<open>
  The worker around them. \<open>wk_sent\<close> are the live sends, by URL; a send that finds no owner is
  dropped, one whose socket is down is lost.
\<close>

record 'd worker =
  wk_tracker :: tracker
  wk_jobOwnership :: "(string \<times> string) list"
  wk_outbox :: "'d outbox"
  wk_sent :: "(string \<times> 'd status_update) list"

definition onStatusForward :: "'d outbox_env \<Rightarrow> int \<Rightarrow> 'd status_update \<Rightarrow> 'd worker \<Rightarrow> 'd worker" where
  "onStatusForward env now u w =
     (let owner = map_of (wk_jobOwnership w) (su_jobId u);
          w1 = (case (buildTerminalJobProgress u, owner) of
                  (Some m, Some url) \<Rightarrow>
                    if url = [] then w else w\<lparr>wk_outbox := enqueueSync env now url m (wk_outbox w)\<rparr>
                | _ \<Rightarrow> w);
          w2 = (case owner of
                  None \<Rightarrow> w1
                | Some url \<Rightarrow> if url = [] then w1 else w1\<lparr>wk_sent := wk_sent w1 @ [(url, u)]\<rparr>)
      in if su_type u = UpdateJob \<and> terminal_text (su_status u)
         then w2\<lparr>wk_jobOwnership := amap_delete (su_jobId u) (wk_jobOwnership w2)\<rparr> else w2)"

definition worker_job_status ::
  "'d outbox_env \<Rightarrow> int \<Rightarrow> string \<Rightarrow> string \<Rightarrow> string \<Rightarrow> int \<Rightarrow> 'd option \<Rightarrow> 'd worker \<Rightarrow> 'd worker" where
  "worker_job_status env now runId jobId status timestamp data w =
     (let (t, u) = onJobStatus runId jobId status timestamp data (wk_tracker w);
          w1 = w\<lparr>wk_tracker := t\<rparr>
      in case u of None \<Rightarrow> w1 | Some u \<Rightarrow> onStatusForward env now u w1)"

text \<open>An accepted reroute, once the job was dispatched.\<close>

definition worker_reroute ::
  "string \<Rightarrow> string \<Rightarrow> string \<Rightarrow> string \<Rightarrow> string \<Rightarrow> string \<Rightarrow> string \<Rightarrow> string \<Rightarrow> int \<Rightarrow> 'd worker \<Rightarrow> 'd worker" where
  "worker_reroute url runId workflowName provider ref sha jobId jobName now w =
     w\<lparr>wk_jobOwnership := amap_set jobId url (wk_jobOwnership w),
       wk_tracker := onExecutionStarted runId workflowName provider [] ref sha [(jobId, jobName)] now (wk_tracker w)\<rparr>"

section \<open>Two jobs of one run\<close>

text \<open>
  A worker that accepts a second job of a run it already works for forgets the first: the
  projection of the run is replaced by one of the second job only, and whatever status the
  first job reaches, nothing is persisted, nothing is sent and its ownership stays.
\<close>

theorem second_reroute_forgets_first:
  assumes "j1 \<noteq> j2"
  shows "worker_job_status env t3 run j1 status t4 data
           (worker_reroute url2 run f2 p2 rf2 sha2 j2 n2 t2 (worker_reroute url1 run f1 p1 rf1 sha1 j1 n1 t1 w))
       = worker_reroute url2 run f2 p2 rf2 sha2 j2 n2 t2 (worker_reroute url1 run f1 p1 rf1 sha1 j1 n1 t1 w)"
  using assms by (simp add: worker_job_status_def worker_reroute_def onExecutionStarted_def onJobStatus_def)

definition demo_env :: "unit outbox_env" where
  "demo_env = \<lparr>oe_coordKey = (\<lambda>_. ''c''), oe_write = (\<lambda>_. []), oe_read = (\<lambda>_. None)\<rparr>"

definition demo_worker :: "unit worker" where
  "demo_worker = \<lparr>wk_tracker = new_InMemoryExecutionTracker None, wk_jobOwnership = [],
     wk_outbox = \<lparr>ob_records = [], ob_disk = []\<rparr>, wk_sent = []\<rparr>"

abbreviation demo_rerouted :: "unit worker" where
  "demo_rerouted \<equiv> worker_reroute ''ws'' ''r'' ''w'' [] [] [] ''j2'' ''b'' 2
     (worker_reroute ''ws'' ''r'' ''w'' [] [] [] ''j1'' ''a'' 1 demo_worker)"

theorem second_reroute_forgets_first_witness:
  "wk_sent (worker_job_status demo_env 9 ''r'' ''j1'' ''success'' 9 None demo_rerouted) = []
   \<and> map fst (wk_sent (worker_job_status demo_env 9 ''r'' ''j2'' ''success'' 9 None demo_rerouted)) = [''ws'']"
proof
  have "worker_job_status demo_env 9 ''r'' ''j1'' ''success'' 9 None demo_rerouted = demo_rerouted"
    by (rule second_reroute_forgets_first) simp
  moreover have "wk_sent demo_rerouted = []" by code_simp
  ultimately show "wk_sent (worker_job_status demo_env 9 ''r'' ''j1'' ''success'' 9 None demo_rerouted) = []" by simp
  show "map fst (wk_sent (worker_job_status demo_env 9 ''r'' ''j2'' ''success'' 9 None demo_rerouted)) = [''ws'']"
    by code_simp
qed

text \<open>
  A run whose other jobs are finished stays in memory when its last open job is dropped: only a
  terminal status looks whether all jobs are done.
\<close>

lemma drop_leaves_finished_run:
  assumes "map_of (tr_runs t) run = Some r" "amap_delete j (rt_jobs r) \<noteq> []"
  shows "\<exists>r'. getRunStatus run (dropJob run j t) = Some r' \<and> rt_jobs r' = amap_delete j (rt_jobs r)"
  using assms by (simp add: dropJob_def getRunStatus_def Let_def)

lemma recent_jobs_bounded:
  "length (tr_recentJobs t) \<le> tr_recentJobsLimit t \<Longrightarrow>
     length (getRecentJobs (addToRecentJobs c t)) \<le> tr_recentJobsLimit t"
  by (auto simp: addToRecentJobs_def getRecentJobs_def Let_def)

section \<open>The outbox survives crashes\<close>

text \<open>What is relied on: JSON round trips, and identifiers are not empty.\<close>

definition codec :: "'d outbox_env \<Rightarrow> bool" where
  "codec env \<longleftrightarrow> (\<forall>r. oe_read env (oe_write env r) = Some r)"

definition addressed :: "'d outbox_record \<Rightarrow> bool" where
  "addressed r \<longleftrightarrow> or_coordUrl r \<noteq> [] \<and> jp_runId (or_message r) \<noteq> [] \<and> jp_jobId (or_message r) \<noteq> []"

text \<open>
  The life of an outbox: its records, its directory, and the keys enqueued and not yet
  acknowledged or pruned. Every operation may be cut by a crash, after which a new process loads
  the directory.
\<close>

abbreviation restart :: "'d outbox_env \<Rightarrow> disk \<Rightarrow> 'd outbox" where
  "restart env d \<equiv> loadFromDisk env \<lparr>ob_records = [], ob_disk = d\<rparr>"

inductive outbox_run :: "'d outbox_env \<Rightarrow> 'd outbox \<Rightarrow> string set \<Rightarrow> bool" for env where
  fresh: "outbox_run env \<lparr>ob_records = [], ob_disk = []\<rparr> {}"
| enqueued: "outbox_run env b due \<Longrightarrow> addressed \<lparr>or_coordUrl = url, or_message = m, or_persistedAt = now\<rparr> \<Longrightarrow>
    outbox_run env (enqueueSync env now url m b)
      (insert (recordKey env url (jp_runId m) (jp_jobId m)) due)"
| crash_writing: "outbox_run env b due \<Longrightarrow>
    outbox_run env (restart env (write_file (fileFor key @ ''.tmp'') torn (ob_disk b))) due"
| crash_renamed: "outbox_run env b due \<Longrightarrow> addressed \<lparr>or_coordUrl = url, or_message = m, or_persistedAt = now\<rparr> \<Longrightarrow>
    outbox_run env (restart env (ob_disk (enqueueSync env now url m b))) due"
| acked: "outbox_run env b due \<Longrightarrow>
    outbox_run env (ack env url run job b) (due - {recordKey env url run job})"
| crash_acking: "outbox_run env b due \<Longrightarrow>
    outbox_run env (restart env (ob_disk b)) (due - {recordKey env url run job})"
| pruned: "outbox_run env b due \<Longrightarrow>
    outbox_run env (fst (prune ttl now b))
      (due - {k. \<exists>r. map_of (ob_records b) k = Some r \<and> ttl < now - or_persistedAt r})"
| crash: "outbox_run env b due \<Longrightarrow> outbox_run env (restart env (ob_disk b)) due"

definition disk_ok :: "'d outbox_env \<Rightarrow> disk \<Rightarrow> bool" where
  "disk_ok env d \<longleftrightarrow> distinct (map fst d)
     \<and> (\<forall>(name, c) \<in> set d. endsWith name ''.json'' \<longrightarrow>
          (\<exists>r. oe_read env c = Some r \<and> addressed r \<and> name = fileFor (key_of env r)))"

definition on_disk :: "'d outbox_env \<Rightarrow> disk \<Rightarrow> string \<Rightarrow> 'd outbox_record option" where
  "on_disk env d k = (case map_of d (fileFor k) of None \<Rightarrow> None | Some c \<Rightarrow> oe_read env c)"

text \<open>The records in memory are those of the directory.\<close>

definition outbox_ok :: "'d outbox_env \<Rightarrow> 'd outbox \<Rightarrow> string set \<Rightarrow> bool" where
  "outbox_ok env b due \<longleftrightarrow> disk_ok env (ob_disk b) \<and> distinct (map fst (ob_records b))
     \<and> (\<forall>k. map_of (ob_records b) k = on_disk env (ob_disk b) k)
     \<and> (\<forall>k r. map_of (ob_records b) k = Some r \<longrightarrow> k = key_of env r)
     \<and> due \<subseteq> set (map fst (ob_records b))"

lemma fileFor_inj [simp]: "fileFor a = fileFor b \<longleftrightarrow> a = b"
  by (simp add: fileFor_def)

lemma fileFor_json [simp]: "endsWith (fileFor k) ''.json''"
  by (simp add: fileFor_def endsWith_def startsWith_def)

lemma tmp_not_json [simp]: "\<not> endsWith (name @ ''.tmp'') ''.json''"
  by (simp add: endsWith_def startsWith_def)

lemma load_files:
  "disk_ok env d \<Longrightarrow> map_of (fold (load_file env) d m) k =
     (case on_disk env d k of None \<Rightarrow> map_of m k | Some r \<Rightarrow> Some r)"
proof (induction d arbitrary: m)
  case (Cons f d)
  obtain name c where f: "f = (name, c)" by force
  have d: "disk_ok env d" "name \<notin> set (map fst d)" using Cons.prems f by (auto simp: disk_ok_def)
  show ?case
  proof (cases "endsWith name ''.json''")
    case True
    with Cons.prems f obtain r where r: "oe_read env c = Some r" "addressed r" "name = fileFor (key_of env r)"
      by (auto simp: disk_ok_def)
    then have load: "load_file env f m = amap_set (key_of env r) r m"
      by (simp add: load_file_def f addressed_def)
    have "map_of d (fileFor (key_of env r)) = None" using d(2) r(3) by (simp add: map_of_eq_None_iff)
    then have "on_disk env d (key_of env r) = None" by (simp add: on_disk_def)
    then show ?thesis using Cons.IH [OF d(1), of "amap_set (key_of env r) r m"] r load
      by (auto simp: f on_disk_def split: option.splits)
  next
    case False
    then have "name \<noteq> fileFor k" by auto
    with Cons.IH [OF d(1), of m] False show ?thesis
      by (simp add: f load_file_def on_disk_def)
  qed
qed (simp add: on_disk_def)

lemma load_distinct: "distinct (map fst m) \<Longrightarrow> distinct (map fst (fold (load_file env) d m))"
  by (induction d arbitrary: m) (auto simp: load_file_def split: option.split)

lemma disk_ok_iff: "disk_ok env d \<longleftrightarrow> distinct (map fst d)
   \<and> (\<forall>name c. map_of d name = Some c \<longrightarrow> endsWith name ''.json'' \<longrightarrow>
        (\<exists>r. oe_read env c = Some r \<and> addressed r \<and> name = fileFor (key_of env r)))"
  by (cases "distinct (map fst d)") (fastforce simp: disk_ok_def)+

lemma on_disk_key: "disk_ok env d \<Longrightarrow> on_disk env d k = Some r \<Longrightarrow> k = key_of env r"
  by (force simp: disk_ok_iff on_disk_def simp del: map_of_eq_Some_iff split: option.splits)

lemma restart_ok:
  assumes "disk_ok env d" "\<And>k. k \<in> due \<Longrightarrow> on_disk env d k \<noteq> None"
  shows "outbox_ok env (restart env d) due"
proof -
  have m: "map_of (fold (load_file env) d []) k = on_disk env d k" for k
    using load_files [OF assms(1), of "[]" k] by (auto split: option.splits)
  have "due \<subseteq> dom (map_of (fold (load_file env) d []))" using assms(2) m by (auto simp: dom_def)
  then have "due \<subseteq> fst ` set (fold (load_file env) d [])" by (simp add: dom_map_of_conv_image_fst)
  then show ?thesis using assms(1) m on_disk_key [OF assms(1)] load_distinct [of "[]" env d]
    by (simp add: outbox_ok_def loadFromDisk_def del: map_of_eq_Some_iff)
qed

lemma on_disk_due: "outbox_ok env b due \<Longrightarrow> k \<in> due \<Longrightarrow> on_disk env (ob_disk b) k \<noteq> None"
  by (metis (no_types, lifting) map_of_eq_None_iff outbox_ok_def set_map subsetD)

text \<open>The directory after an enqueue: one target written, no temporary file left.\<close>

lemma enqueue_disk:
  "map_of (ob_disk (enqueueSync env now url m b)) =
     (map_of (ob_disk b))(fileFor (recordKey env url (jp_runId m) (jp_jobId m)) @ ''.tmp'' := None,
       fileFor (recordKey env url (jp_runId m) (jp_jobId m)) \<mapsto>
         oe_write env \<lparr>or_coordUrl = url, or_message = m, or_persistedAt = now\<rparr>)"
  by (auto simp: enqueueSync_def Let_def write_file_def rename_file_def)

lemma enqueue_disk_distinct:
  "distinct (map fst (ob_disk b)) \<Longrightarrow> distinct (map fst (ob_disk (enqueueSync env now url m b)))"
  by (simp add: enqueueSync_def Let_def write_file_def rename_file_def)

lemma enqueue_disk_ok:
  assumes "codec env" "disk_ok env (ob_disk b)"
    "addressed \<lparr>or_coordUrl = url, or_message = m, or_persistedAt = now\<rparr>"
  shows "disk_ok env (ob_disk (enqueueSync env now url m b))"
  using assms enqueue_disk_distinct [of b env now url m]
  by (auto simp: disk_ok_iff enqueue_disk codec_def simp del: map_of_eq_Some_iff)

lemma enqueue_on_disk:
  assumes "codec env"
  shows "on_disk env (ob_disk (enqueueSync env now url m b)) k =
    (if k = recordKey env url (jp_runId m) (jp_jobId m)
     then Some \<lparr>or_coordUrl = url, or_message = m, or_persistedAt = now\<rparr> else on_disk env (ob_disk b) k)"
proof -
  have "fileFor k \<noteq> fileFor k' @ ''.tmp''" for k' by (metis fileFor_json tmp_not_json)
  then show ?thesis using assms by (simp add: on_disk_def enqueue_disk codec_def)
qed

lemma delete_ok:
  assumes "outbox_ok env b due"
  shows "outbox_ok env (b\<lparr>ob_records := amap_delete k (ob_records b),
           ob_disk := amap_delete (fileFor k) (ob_disk b)\<rparr>) (due - {k})"
  using assms unfolding outbox_ok_def disk_ok_iff
  by (auto simp: on_disk_def simp del: map_of_eq_Some_iff)

lemma outbox_ok_weaken: "outbox_ok env b due \<Longrightarrow> due' \<subseteq> due \<Longrightarrow> outbox_ok env b due'"
  unfolding outbox_ok_def by blast

lemma prune_ok:
  assumes "outbox_ok env b due"
  shows "outbox_ok env (fold (\<lambda>(key, r) b. b\<lparr>ob_records := amap_delete key (ob_records b),
           ob_disk := amap_delete (fileFor key) (ob_disk b)\<rparr>) stale b) (due - fst ` set stale)"
  using assms
proof (induction stale arbitrary: b due)
  case (Cons e stale)
  from Cons.IH [OF delete_ok [OF Cons.prems, of "fst e"]] show ?case
    by (simp add: case_prod_unfold) (metis Diff_insert2)
qed simp

lemma crash_ok: "outbox_ok env b due \<Longrightarrow> outbox_ok env (restart env (ob_disk b)) due"
proof (rule restart_ok)
  assume ok: "outbox_ok env b due"
  then show "disk_ok env (ob_disk b)" by (simp add: outbox_ok_def)
  show "\<And>k. k \<in> due \<Longrightarrow> on_disk env (ob_disk b) k \<noteq> None" by (rule on_disk_due [OF ok])
qed

lemma torn_ok:
  assumes "outbox_ok env b due"
  shows "outbox_ok env (restart env (write_file (fileFor key @ ''.tmp'') torn (ob_disk b))) due"
proof (rule restart_ok)
  have "fileFor k \<noteq> fileFor key @ ''.tmp''" for k by (metis fileFor_json tmp_not_json)
  then show "\<And>k. k \<in> due \<Longrightarrow> on_disk env (write_file (fileFor key @ ''.tmp'') torn (ob_disk b)) k \<noteq> None"
    using on_disk_due [OF assms] by (simp add: on_disk_def write_file_def)
  show "disk_ok env (write_file (fileFor key @ ''.tmp'') torn (ob_disk b))"
    using assms by (auto simp: outbox_ok_def disk_ok_iff write_file_def simp del: map_of_eq_Some_iff)
qed

lemma enqueue_ok:
  assumes "codec env" "outbox_ok env b due" "addressed \<lparr>or_coordUrl = url, or_message = m, or_persistedAt = now\<rparr>"
  shows "outbox_ok env (enqueueSync env now url m b) (insert (recordKey env url (jp_runId m) (jp_jobId m)) due)"
proof -
  let ?b = "enqueueSync env now url m b" and ?k = "recordKey env url (jp_runId m) (jp_jobId m)"
  have rec: "ob_records ?b = amap_set ?k \<lparr>or_coordUrl = url, or_message = m, or_persistedAt = now\<rparr> (ob_records b)"
    by (simp add: enqueueSync_def Let_def)
  have "disk_ok env (ob_disk b)" using assms(2) by (simp add: outbox_ok_def)
  note disk = enqueue_disk_ok [OF assms(1) this assms(3)]
  show ?thesis using assms(2) disk enqueue_on_disk [OF assms(1)]
    by (auto simp: outbox_ok_def rec simp del: map_of_eq_Some_iff)
qed

lemma outbox_run_ok: "outbox_run env b due \<Longrightarrow> codec env \<Longrightarrow> outbox_ok env b due"
proof (induction rule: outbox_run.induct)
  case fresh
  show ?case by (simp add: outbox_ok_def disk_ok_def on_disk_def)
next
  case (enqueued b due url m now)
  then show ?case by (intro enqueue_ok)
next
  case (crash_writing b due key torn)
  then show ?case by (intro torn_ok)
next
  case (crash_renamed b due url m now)
  then show ?case by (intro crash_ok [OF outbox_ok_weaken [OF enqueue_ok]]) auto
next
  case (acked b due url run job)
  then show ?case using delete_ok [of env b due "recordKey env url run job"] by (simp add: ack_def Let_def)
next
  case (crash_acking b due url run job)
  then show ?case by (intro outbox_ok_weaken [OF crash_ok]) auto
next
  case (pruned b due ttl now)
  let ?stale = "filter (\<lambda>(key, r). ttl < now - or_persistedAt r) (ob_records b)"
  have "distinct (map fst (ob_records b))" using pruned by (simp add: outbox_ok_def)
  then have "fst ` set ?stale = {k. \<exists>r. map_of (ob_records b) k = Some r \<and> ttl < now - or_persistedAt r}"
    by force
  with prune_ok [of env b due ?stale] pruned show ?case by (simp add: prune_def Let_def)
next
  case (crash b due)
  then show ?case by (intro crash_ok)
qed


text \<open>A concrete writer of records: every field escaped and terminated, numbers in unary.\<close>

definition enc_str :: "string \<Rightarrow> string" where
  "enc_str s = concat (map (\<lambda>c. [CHR ''x'', c]) s) @ ''.''"

fun dec_strs :: "string \<Rightarrow> string \<Rightarrow> string list" where
  "dec_strs acc (c # s) =
     (if c = CHR ''.'' then acc # dec_strs [] s
      else case s of [] \<Rightarrow> [] | d # s' \<Rightarrow> dec_strs (acc @ [d]) s')"
| "dec_strs acc [] = []"

lemma dec_enc_str: "dec_strs acc (enc_str s @ r) = (acc @ s) # dec_strs [] r"
  by (induction s arbitrary: acc) (simp_all add: enc_str_def)

lemma dec_enc_strs: "dec_strs [] (concat (map enc_str ss)) = ss"
  by (induction ss) (simp_all add: dec_enc_str)

definition enc_int :: "int \<Rightarrow> string" where
  "enc_int i = (if i < 0 then CHR ''n'' else CHR ''p'') # replicate (nat \<bar>i\<bar>) CHR ''u''"

definition dec_int :: "string \<Rightarrow> int" where
  "dec_int s = (if hd s = CHR ''n'' then - int (length s - 1) else int (length s - 1))"

lemma dec_enc_int [simp]: "dec_int (enc_int i) = i"
  by (simp add: dec_int_def enc_int_def)

definition demo_write :: "unit outbox_record \<Rightarrow> string" where
  "demo_write r = (let m = or_message r in concat (map enc_str
     [or_coordUrl r, jp_runId m, jp_jobId m, enc_int (jp_stepIndex m), jp_stepName m, jp_state m,
      enc_int (jp_timestamp m), if jp_data m = None then [] else ''d'', enc_int (or_persistedAt r)]))"

definition demo_read :: "string \<Rightarrow> unit outbox_record option" where
  "demo_read s = (case dec_strs [] s of
     [u, rn, j, i, n, st, t, d, p] \<Rightarrow> Some \<lparr>or_coordUrl = u, or_message = \<lparr>jp_runId = rn, jp_jobId = j,
        jp_stepIndex = dec_int i, jp_stepName = n, jp_state = st, jp_timestamp = dec_int t,
        jp_data = (if d = [] then None else Some ())\<rparr>, or_persistedAt = dec_int p\<rparr>
   | _ \<Rightarrow> None)"

definition disk_env :: "unit outbox_env" where
  "disk_env = \<lparr>oe_coordKey = (\<lambda>u. u), oe_write = demo_write, oe_read = demo_read\<rparr>"

lemma disk_env_codec: "codec disk_env"
  unfolding codec_def
proof
  fix r :: "unit outbox_record"
  show "oe_read disk_env (oe_write disk_env r) = Some r"
    unfolding disk_env_def demo_write_def demo_read_def Let_def
    by (cases r; cases "or_message r"; cases "jp_data (or_message r)")
      (simp_all only: outbox_env.simps dec_enc_strs list.case, simp_all)
qed

definition demo_done :: "unit job_progress" where
  "demo_done = \<lparr>jp_runId = ''r'', jp_jobId = ''j'', jp_stepIndex = 0, jp_stepName = [],
     jp_state = ''success'', jp_timestamp = 5, jp_data = None\<rparr>"


text \<open>A terminal status of an owned job is in the outbox before the ownership is cleared.\<close>

lemma forward_persists:
  assumes "buildTerminalJobProgress u = Some m" "map_of (wk_jobOwnership w) (su_jobId u) = Some url" "url \<noteq> []"
  shows "m \<in> set (replayPending (wk_outbox (onStatusForward env now u w)) url)"
proof -
  have "wk_outbox (onStatusForward env now u w) = enqueueSync env now url m (wk_outbox w)"
    using assms by (simp add: onStatusForward_def Let_def)
  then show ?thesis
    using amap_set_in [of "recordKey env url (jp_runId m) (jp_jobId m)"
        "\<lparr>or_coordUrl = url, or_message = m, or_persistedAt = now\<rparr>" "ob_records (wk_outbox w)"]
    by (force simp: replayPending_def pendingFor_def enqueueSync_def Let_def)
qed

end
