(* ===== verification/ParallelGroup.thy ===== *)
theory ParallelGroup
  imports Kici_Prelude
begin

text \<open>
  The scheduler of \<open>parallel()\<close> step groups,
  \<open>packages/agent/src/execution/sandbox/parallel-scheduler.ts\<close>. Its workers run on one event loop:
  a worker runs without interruption from the end of a child to the start of its next one, so a
  state is what holds while every worker awaits a child, and a step is the end of one of those
  children, in any order and with any outcome. \<open>runStepIteration\<close> is that outcome; it may also
  throw, which rejects the group while the other workers go on.
\<close>

section \<open>Messages\<close>

record ipc_message =
  im_type :: string
  im_stepIndex :: "nat option"
  im_concurrencyKind :: "string option"
  im_groupId :: "string option"

definition stampChildSend :: "nat \<Rightarrow> string \<Rightarrow> ipc_message \<Rightarrow> ipc_message" where
  "stampChildSend childStepIndex groupId msg =
     (if (im_type msg = ''step.start'' \<or> im_type msg = ''step.complete'') \<and> im_stepIndex msg = Some childStepIndex
      then msg\<lparr>im_concurrencyKind := Some ''parallel-child'', im_groupId := Some groupId\<rparr> else msg)"

section \<open>The group\<close>

record pchild =
  pc_stepIndex :: nat
  pc_name :: string

record pnode =
  pn_children :: "pchild list"
  pn_failFast :: bool
  pn_maxParallel :: "int option"
  pn_groupId :: string

datatype child_status = StSuccess | StFailed | StSkipped | StCancelled

record step_result =
  sr_name :: string
  sr_stepIndex :: nat
  sr_status :: child_status
  sr_durationMs :: int

record iteration_outcome =
  io_result :: step_result
  io_shouldBreak :: bool
  io_failedStepName :: "string option"

datatype group_effect =
    EmitPending nat
  | EmitCancelledSkip nat
  | Launch nat
  | AbortStep nat

text \<open>
  \<open>pg_running\<close> are the children being awaited, one per busy worker, by their place in the array;
  \<open>pg_inFlight\<close> is the set of their step indices.
\<close>

record group_state =
  pg_cursor :: nat
  pg_results :: "nat \<Rightarrow> step_result option"
  pg_running :: "nat list"
  pg_inFlight :: "nat list"
  pg_failed :: bool
  pg_failedStepName :: "string option"
  pg_rejected :: bool
  pg_effects :: "group_effect list"

definition window :: "pnode \<Rightarrow> nat" where
  "window node =
     (case pn_maxParallel node of
        None \<Rightarrow> length (pn_children node)
      | Some m \<Rightarrow> if 0 < m then nat m else length (pn_children node))"

definition emitCancelledSkip :: "pnode \<Rightarrow> nat \<Rightarrow> group_state \<Rightarrow> group_state" where
  "emitCancelledSkip node idx s =
     (let child = pn_children node ! idx
      in s\<lparr>pg_results := (pg_results s)(idx \<mapsto> \<lparr>sr_name = pc_name child, sr_stepIndex = pc_stepIndex child,
             sr_status = StCancelled, sr_durationMs = 0\<rparr>),
           pg_effects := pg_effects s @ [EmitCancelledSkip idx]\<rparr>)"

text \<open>The loop of a worker until it awaits a child or returns.\<close>

function worker_loop :: "pnode \<Rightarrow> group_state \<Rightarrow> group_state" where
  "worker_loop node s0 =
     (let idx = pg_cursor s0; s = s0\<lparr>pg_cursor := Suc idx\<rparr>
      in if length (pn_children node) \<le> idx then s
         else if pn_failFast node \<and> pg_failed s then worker_loop node (emitCancelledSkip node idx s)
         else s\<lparr>pg_running := pg_running s @ [idx],
                pg_inFlight := js_add (pc_stepIndex (pn_children node ! idx)) (pg_inFlight s),
                pg_effects := pg_effects s @ [Launch idx]\<rparr>)"
  by pat_completeness auto

termination
  by (relation "measure (\<lambda>(node, s). length (pn_children node) - pg_cursor s)")
    (auto simp: emitCancelledSkip_def Let_def)

declare worker_loop.simps [simp del]

text \<open>What a worker does when its child ends, before it loops.\<close>

definition record_outcome :: "pnode \<Rightarrow> nat \<Rightarrow> iteration_outcome \<Rightarrow> group_state \<Rightarrow> group_state" where
  "record_outcome node idx out s0 =
     (let child = pn_children node ! idx;
          s = s0\<lparr>pg_results := (pg_results s0)(idx \<mapsto> io_result out)\<rparr>
      in if \<not> io_shouldBreak out then s
         else
           let s1 = (if pg_failed s then s
                     else s\<lparr>pg_failed := True,
                            pg_failedStepName := Some (case io_failedStepName out of
                              None \<Rightarrow> pc_name child | Some n \<Rightarrow> n)\<rparr>)
           in if pn_failFast node
              then s1\<lparr>pg_effects := pg_effects s1 @
                        map AbortStep (filter (\<lambda>i. i \<noteq> pc_stepIndex child) (pg_inFlight s1))\<rparr>
              else s1)"

definition leave_flight :: "pnode \<Rightarrow> nat \<Rightarrow> group_state \<Rightarrow> group_state" where
  "leave_flight node idx s =
     s\<lparr>pg_running := remove1 idx (pg_running s),
       pg_inFlight := filter (\<lambda>i. i \<noteq> pc_stepIndex (pn_children node ! idx)) (pg_inFlight s)\<rparr>"

definition child_ends :: "pnode \<Rightarrow> nat \<Rightarrow> iteration_outcome \<Rightarrow> group_state \<Rightarrow> group_state" where
  "child_ends node idx out s = worker_loop node (leave_flight node idx (record_outcome node idx out s))"

definition child_throws :: "pnode \<Rightarrow> nat \<Rightarrow> group_state \<Rightarrow> group_state" where
  "child_throws node idx s = (leave_flight node idx s)\<lparr>pg_rejected := True\<rparr>"

text \<open>Children beyond the window are announced, then the workers start one after the other.\<close>

definition group_start :: "pnode \<Rightarrow> group_state" where
  "group_start node =
     (let n = length (pn_children node);
          s = \<lparr>pg_cursor = 0, pg_results = Map.empty, pg_running = [], pg_inFlight = [], pg_failed = False,
               pg_failedStepName = None, pg_rejected = False,
               pg_effects = map EmitPending [window node ..< n]\<rparr>
      in (worker_loop node ^^ min (window node) n) s)"

record group_outcome =
  go_failed :: bool
  go_failedStepName :: "string option"
  go_results :: "step_result option list"

text \<open>The group is settled when no worker awaits a child.\<close>

definition runParallelGroup_outcome :: "pnode \<Rightarrow> group_state \<Rightarrow> group_outcome" where
  "runParallelGroup_outcome node s =
     \<lparr>go_failed = pg_failed s, go_failedStepName = pg_failedStepName s,
      go_results = map (pg_results s) [0 ..< length (pn_children node)]\<rparr>"

inductive group_step :: "pnode \<Rightarrow> group_state \<Rightarrow> group_state \<Rightarrow> bool" for node where
  ends: "idx \<in> set (pg_running s) \<Longrightarrow> group_step node s (child_ends node idx out s)"
| throws: "idx \<in> set (pg_running s) \<Longrightarrow> group_step node s (child_throws node idx s)"

inductive_cases group_stepE: "group_step node s s'"

section \<open>Invariant\<close>

abbreviation total :: "pnode \<Rightarrow> nat" where
  "total node \<equiv> length (pn_children node)"

fun launched :: "group_effect list \<Rightarrow> nat list" where
  "launched [] = []"
| "launched (Launch i # es) = i # launched es"
| "launched (e # es) = launched es"

lemma launched_append [simp]: "launched (es @ fs) = launched es @ launched fs"
  by (induction es rule: launched.induct) auto

lemma launched_aborts [simp]: "launched (map AbortStep is) = []" "launched (map EmitPending is) = []"
  by (induction "is") auto

abbreviation launches :: "group_state \<Rightarrow> nat list" where
  "launches s \<equiv> launched (pg_effects s)"

text \<open>
  Every child the cursor passed is awaited, has a result or threw (\<open>lost\<close>), and no child is
  launched twice.
\<close>

definition covers :: "pnode \<Rightarrow> nat set \<Rightarrow> group_state \<Rightarrow> bool" where
  "covers node lost s \<longleftrightarrow>
     distinct (pg_running s) \<and> set (pg_running s) \<inter> dom (pg_results s) = {}
     \<and> set (pg_running s) \<union> dom (pg_results s) \<union> lost = {i. i < pg_cursor s \<and> i < total node}
     \<and> distinct (launches s) \<and> set (launches s) \<subseteq> {i. i < pg_cursor s}"

definition unsettled :: "pnode \<Rightarrow> group_state \<Rightarrow> nat" where
  "unsettled node s = (total node - pg_cursor s) + length (pg_running s)"

lemma launches_skip [simp]: "launches (emitCancelledSkip node i s) = launches s"
  by (simp add: emitCancelledSkip_def Let_def)

lemma skip_fields [simp]:
  "pg_cursor (emitCancelledSkip node i s) = pg_cursor s" "pg_running (emitCancelledSkip node i s) = pg_running s"
  "pg_inFlight (emitCancelledSkip node i s) = pg_inFlight s" "pg_failed (emitCancelledSkip node i s) = pg_failed s"
  "pg_rejected (emitCancelledSkip node i s) = pg_rejected s"
  "dom (pg_results (emitCancelledSkip node i s)) = insert i (dom (pg_results s))"
  by (simp_all add: emitCancelledSkip_def Let_def)

lemma covers_new: "covers node lost s \<Longrightarrow> pg_cursor s \<notin> set (pg_running s) \<union> dom (pg_results s) \<union> lost"
  by (auto simp: covers_def)

lemma covers_skip:
  assumes "covers node lost s" "pg_cursor s < total node"
  shows "covers node lost (emitCancelledSkip node (pg_cursor s) (s\<lparr>pg_cursor := Suc (pg_cursor s)\<rparr>))"
proof -
  have "{i. i < Suc (pg_cursor s) \<and> i < total node} = insert (pg_cursor s) {i. i < pg_cursor s \<and> i < total node}"
    using assms(2) by auto
  then show ?thesis using assms covers_new [OF assms(1)] by (auto simp: covers_def)
qed

lemma covers_launch:
  assumes "covers node lost s" "pg_cursor s < total node"
  shows "covers node lost (s\<lparr>pg_cursor := Suc (pg_cursor s), pg_running := pg_running s @ [pg_cursor s],
            pg_inFlight := fl, pg_effects := pg_effects s @ [Launch (pg_cursor s)]\<rparr>)"
proof -
  have "{i. i < Suc (pg_cursor s) \<and> i < total node} = insert (pg_cursor s) {i. i < pg_cursor s \<and> i < total node}"
    using assms(2) by auto
  then show ?thesis using assms covers_new [OF assms(1)]
    by (auto simp: covers_def)
qed

lemma covers_past:
  assumes "covers node lost s" "total node \<le> pg_cursor s"
  shows "covers node lost (s\<lparr>pg_cursor := Suc (pg_cursor s)\<rparr>)"
proof -
  have "{i. i < Suc (pg_cursor s) \<and> i < total node} = {i. i < pg_cursor s \<and> i < total node}"
    using assms(2) by auto
  then show ?thesis using assms by (auto simp: covers_def)
qed

text \<open>
  A worker that loops either awaits one more child, or found none left; with fail-fast tripped it
  launches nothing.
\<close>

lemma worker_loop_spec:
  "covers node lost s \<Longrightarrow>
     covers node lost (worker_loop node s) \<and> pg_rejected (worker_loop node s) = pg_rejected s
     \<and> pg_failed (worker_loop node s) = pg_failed s
     \<and> unsettled node (worker_loop node s) \<le> unsettled node s
     \<and> (pg_running (worker_loop node s) = pg_running s \<and> total node \<le> pg_cursor (worker_loop node s)
        \<or> (\<exists>i. pg_running (worker_loop node s) = pg_running s @ [i]))
     \<and> (pn_failFast node \<and> pg_failed s \<longrightarrow> launches (worker_loop node s) = launches s)"
proof (induction node s rule: worker_loop.induct)
  case (1 node s)
  let ?s = "s\<lparr>pg_cursor := Suc (pg_cursor s)\<rparr>"
  consider (past) "total node \<le> pg_cursor s"
    | (skip) "\<not> total node \<le> pg_cursor s" "pn_failFast node \<and> pg_failed s"
    | (launch) "\<not> total node \<le> pg_cursor s" "\<not> (pn_failFast node \<and> pg_failed s)" by blast
  then show ?case
  proof cases
    case past
    then have "worker_loop node s = ?s" by (simp add: worker_loop.simps [of node s] Let_def)
    with past covers_past [OF 1(2)] show ?thesis by (simp add: unsettled_def)
  next
    case skip
    then have loop: "worker_loop node s = worker_loop node (emitCancelledSkip node (pg_cursor s) ?s)"
      by (simp add: worker_loop.simps [of node s] Let_def)
    have "covers node lost (emitCancelledSkip node (pg_cursor s) ?s)"
      using 1(2) skip(1) by (intro covers_skip) simp_all
    with 1(1) [of "pg_cursor s" ?s] skip have
      "covers node lost (worker_loop node (emitCancelledSkip node (pg_cursor s) ?s)) \<and>
       pg_rejected (worker_loop node (emitCancelledSkip node (pg_cursor s) ?s)) = pg_rejected s \<and>
       pg_failed (worker_loop node (emitCancelledSkip node (pg_cursor s) ?s)) = pg_failed s \<and>
       unsettled node (worker_loop node (emitCancelledSkip node (pg_cursor s) ?s))
         \<le> unsettled node (emitCancelledSkip node (pg_cursor s) ?s) \<and>
       (pg_running (worker_loop node (emitCancelledSkip node (pg_cursor s) ?s)) = pg_running s \<and>
        total node \<le> pg_cursor (worker_loop node (emitCancelledSkip node (pg_cursor s) ?s)) \<or>
        (\<exists>i. pg_running (worker_loop node (emitCancelledSkip node (pg_cursor s) ?s)) = pg_running s @ [i])) \<and>
       launches (worker_loop node (emitCancelledSkip node (pg_cursor s) ?s)) = launches ?s"
      by simp
    with skip show ?thesis unfolding loop by (simp add: unsettled_def) linarith
  next
    case launch
    then have loop: "worker_loop node s = s\<lparr>pg_cursor := Suc (pg_cursor s), pg_running := pg_running s @ [pg_cursor s],
        pg_inFlight := js_add (pc_stepIndex (pn_children node ! pg_cursor s)) (pg_inFlight s),
        pg_effects := pg_effects s @ [Launch (pg_cursor s)]\<rparr>"
      by (subst worker_loop.simps) (auto simp: Let_def)
    show ?thesis unfolding loop using launch covers_launch [OF 1(2)] by (auto simp: unsettled_def)
  qed
qed

definition group_ok :: "pnode \<Rightarrow> nat set \<Rightarrow> group_state \<Rightarrow> bool" where
  "group_ok node lost s \<longleftrightarrow> covers node lost s
     \<and> length (pg_running s) \<le> min (window node) (total node)
     \<and> (\<not> pg_rejected s \<longrightarrow> lost = {})
     \<and> (\<not> pg_rejected s \<and> pg_running s = [] \<longrightarrow> total node \<le> pg_cursor s)"

lemma group_start_ok: "group_ok node {} (group_start node) \<and> unsettled node (group_start node) \<le> total node"
proof -
  let ?n = "total node" and ?k = "min (window node) (total node)"
  define s0 where "s0 = \<lparr>pg_cursor = 0, pg_results = Map.empty, pg_running = [], pg_inFlight = [],
    pg_failed = False, pg_failedStepName = None, pg_rejected = False, pg_effects = map EmitPending [window node ..< ?n]\<rparr>"
  have iter: "covers node {} ((worker_loop node ^^ k) s0) \<and> length (pg_running ((worker_loop node ^^ k) s0)) \<le> k
      \<and> \<not> pg_rejected ((worker_loop node ^^ k) s0) \<and> unsettled node ((worker_loop node ^^ k) s0) \<le> ?n
      \<and> (0 < k \<longrightarrow> pg_running ((worker_loop node ^^ k) s0) = [] \<longrightarrow> ?n \<le> pg_cursor ((worker_loop node ^^ k) s0))" for k
  proof (induction k)
    case 0
    show ?case by (simp add: s0_def covers_def unsettled_def)
  next
    case (Suc k)
    then show ?case using worker_loop_spec [of node "{}" "(worker_loop node ^^ k) s0"] by auto
  qed
  have "?k = 0 \<Longrightarrow> ?n = 0"
    by (auto simp: window_def min_def split: option.splits if_splits)
  moreover have "group_start node = (worker_loop node ^^ ?k) s0"
    by (simp add: group_start_def Let_def s0_def)
  ultimately show ?thesis using iter [of ?k]
    by (cases "?k = 0") (simp_all add: group_ok_def)
qed

lemma leave_fields [simp]:
  "pg_cursor (leave_flight node i s) = pg_cursor s" "pg_results (leave_flight node i s) = pg_results s"
  "pg_running (leave_flight node i s) = remove1 i (pg_running s)" "pg_effects (leave_flight node i s) = pg_effects s"
  "pg_failed (leave_flight node i s) = pg_failed s" "pg_rejected (leave_flight node i s) = pg_rejected s"
  by (simp_all add: leave_flight_def)

lemma outcome_fields [simp]:
  "pg_cursor (record_outcome node i out s) = pg_cursor s" "pg_running (record_outcome node i out s) = pg_running s"
  "pg_results (record_outcome node i out s) = (pg_results s)(i \<mapsto> io_result out)"
  "launches (record_outcome node i out s) = launches s" "pg_rejected (record_outcome node i out s) = pg_rejected s"
  "pg_inFlight (record_outcome node i out s) = pg_inFlight s"
  "pg_failed (record_outcome node i out s) = (pg_failed s \<or> io_shouldBreak out)"
  by (auto simp: record_outcome_def Let_def)

lemma covers_end:
  assumes "covers node lost s" "i \<in> set (pg_running s)"
  shows "covers node lost (leave_flight node i (record_outcome node i out s))"
  using assms by (auto simp: covers_def)

lemma covers_throw:
  assumes "covers node lost s" "i \<in> set (pg_running s)"
  shows "covers node (insert i lost) (child_throws node i s)"
  using assms by (auto simp: covers_def child_throws_def)

lemma child_ends_ok:
  assumes "group_ok node lost s" "i \<in> set (pg_running s)"
  shows "group_ok node lost (child_ends node i out s) \<and> unsettled node (child_ends node i out s) < unsettled node s"
proof -
  let ?s = "leave_flight node i (record_outcome node i out s)"
  have c: "covers node lost ?s" using assms by (intro covers_end) (simp_all add: group_ok_def)
  have len: "length (pg_running ?s) < length (pg_running s)"
    using length_pos_if_in_set [OF assms(2)] assms(2) by (simp add: length_remove1)
  then have "unsettled node ?s < unsettled node s" by (simp add: unsettled_def)
  moreover have rej: "pg_rejected ?s = pg_rejected s" by simp
  define w where "w = worker_loop node ?s"
  from worker_loop_spec [OF c] have w: "covers node lost w" "pg_rejected w = pg_rejected s"
    "unsettled node w \<le> unsettled node ?s"
    "pg_running w = pg_running ?s \<and> total node \<le> pg_cursor w \<or> (\<exists>i. pg_running w = pg_running ?s @ [i])"
    unfolding rej by (auto simp only: w_def)
  have "length (pg_running w) \<le> length (pg_running s)" using w(4) len by auto
  with w assms(1) have "group_ok node lost w" by (auto simp: group_ok_def)
  ultimately show ?thesis using w(3) by (simp add: child_ends_def w_def)
qed

lemma child_throws_ok:
  assumes "group_ok node lost s" "i \<in> set (pg_running s)"
  shows "group_ok node (insert i lost) (child_throws node i s) \<and> unsettled node (child_throws node i s) < unsettled node s"
proof -
  have "covers node (insert i lost) (child_throws node i s)"
    using assms by (intro covers_throw) (simp_all add: group_ok_def)
  then show ?thesis using assms(1) length_pos_if_in_set [OF assms(2)] assms(2)
    by (auto simp: group_ok_def child_throws_def unsettled_def length_remove1)
qed

lemma group_step_ok:
  assumes "group_step node s s'" "group_ok node lost s"
  shows "(\<exists>lost'. group_ok node lost' s') \<and> unsettled node s' < unsettled node s"
  using assms(1) child_ends_ok [OF assms(2)] child_throws_ok [OF assms(2)] by (elim group_stepE) blast+

lemma group_reach_ok: "(group_step node)\<^sup>*\<^sup>* (group_start node) s \<Longrightarrow> \<exists>lost. group_ok node lost s"
  by (induction rule: rtranclp_induct) (use group_start_ok group_step_ok in blast)+

text \<open>
  C20. A group settles: it has at most one step per child, in whatever order its children end, and
  once no child is awaited and none threw, every child has its result, in the order of the array.
\<close>

theorem parallel_group_settles:
  assumes "(group_step node)\<^sup>*\<^sup>* (group_start node) s"
  shows "(\<forall>s'. group_step node s s' \<longrightarrow> unsettled node s' < unsettled node s)
    \<and> unsettled node (group_start node) \<le> total node
    \<and> (pg_running s \<noteq> [] \<or> pg_rejected s \<or> None \<notin> set (go_results (runParallelGroup_outcome node s)))"
proof -
  obtain lost where ok: "group_ok node lost s" using group_reach_ok [OF assms] by blast
  have "None \<notin> set (go_results (runParallelGroup_outcome node s))" if "pg_running s = []" "\<not> pg_rejected s"
  proof
    assume "None \<in> set (go_results (runParallelGroup_outcome node s))"
    then obtain i where i: "i < total node" "pg_results s i = None"
      by (auto simp: runParallelGroup_outcome_def)
    from that ok have "lost = {}" "total node \<le> pg_cursor s" by (simp_all add: group_ok_def)
    with that ok have "dom (pg_results s) = {i. i < pg_cursor s \<and> i < total node}"
      by (simp add: group_ok_def covers_def)
    with i(1) \<open>total node \<le> pg_cursor s\<close> have "i \<in> dom (pg_results s)" by simp
    with i(2) show False by auto
  qed
  with group_step_ok [OF _ ok] group_start_ok show ?thesis by blast
qed

text \<open>
  The window is respected at every moment, and no child is started twice.
\<close>

theorem parallel_window:
  assumes "(group_step node)\<^sup>*\<^sup>* (group_start node) s"
  shows "length (pg_running s) \<le> window node \<and> distinct (launches s)
    \<and> set (launches s) \<subseteq> {i. i < pg_cursor s}"
  using group_reach_ok [OF assms] by (auto simp: group_ok_def covers_def)

text \<open>
  Fail-fast: the child that trips it aborts every sibling in flight, and nothing is launched from
  then on; the children left are reported cancelled.
\<close>

lemma fail_fast_aborts:
  assumes "pn_failFast node" "io_shouldBreak out"
  shows "\<exists>pre. pg_effects (record_outcome node i out s) = pre @
    map AbortStep (filter (\<lambda>j. j \<noteq> pc_stepIndex (pn_children node ! i)) (pg_inFlight s))"
  using assms by (auto simp: record_outcome_def Let_def)

lemma fail_fast_launches_nothing:
  assumes "group_step node s s'" "group_ok node lost s" "pn_failFast node" "pg_failed s"
  shows "pg_failed s' \<and> launches s' = launches s"
  using assms(1)
proof (cases rule: group_step.cases)
  case (ends i out)
  let ?s = "leave_flight node i (record_outcome node i out s)"
  have "covers node lost ?s" using assms(2) ends by (intro covers_end) (simp_all add: group_ok_def)
  from worker_loop_spec [OF this] assms(3,4) ends show ?thesis by (simp add: child_ends_def)
qed (use assms in \<open>simp_all add: child_throws_def\<close>)

text \<open>The group failed exactly when a child that was not forgiven failed.\<close>

lemma failed_step:
  assumes "group_ok node lost s" "i \<in> set (pg_running s)"
  shows "pg_failed (child_ends node i out s) \<longleftrightarrow> pg_failed s \<or> io_shouldBreak out"
proof -
  have "covers node lost (leave_flight node i (record_outcome node i out s))"
    using assms by (intro covers_end) (simp_all add: group_ok_def)
  from worker_loop_spec [OF this] show ?thesis by (simp add: child_ends_def)
qed

section \<open>An example\<close>

definition demo_node :: pnode where
  "demo_node = \<lparr>pn_children = [\<lparr>pc_stepIndex = 4, pc_name = ''a''\<rparr>, \<lparr>pc_stepIndex = 5, pc_name = ''b''\<rparr>,
      \<lparr>pc_stepIndex = 6, pc_name = ''c''\<rparr>], pn_failFast = True, pn_maxParallel = Some 2, pn_groupId = ''g0''\<rparr>"

definition demo_out :: "nat \<Rightarrow> bool \<Rightarrow> iteration_outcome" where
  "demo_out i b = \<lparr>io_result = \<lparr>sr_name = ''x'', sr_stepIndex = i, sr_status = (if b then StFailed else StSuccess),
     sr_durationMs = 1\<rparr>, io_shouldBreak = b, io_failedStepName = None\<rparr>"

definition demo_end :: group_state where
  "demo_end = child_ends demo_node 0 (demo_out 4 False) (child_ends demo_node 1 (demo_out 5 True) (group_start demo_node))"

lemma demo_end_reach: "(group_step demo_node)\<^sup>*\<^sup>* (group_start demo_node) demo_end"
proof -
  let ?m = "child_ends demo_node 1 (demo_out 5 True) (group_start demo_node)"
  have "1 \<in> set (pg_running (group_start demo_node))" by code_simp
  then have "group_step demo_node (group_start demo_node) ?m" by (rule group_step.ends)
  moreover have "0 \<in> set (pg_running ?m)" by code_simp
  then have "group_step demo_node ?m demo_end" unfolding demo_end_def by (rule group_step.ends)
  ultimately show ?thesis by (meson rtranclp.rtrancl_refl rtranclp.rtrancl_into_rtrancl)
qed

theorem parallel_group_settles_witness:
  "pg_running demo_end = [] \<and> pg_effects demo_end =
     [EmitPending 2, Launch 0, Launch 1, AbortStep 4, EmitCancelledSkip 2]
   \<and> None \<notin> set (go_results (runParallelGroup_outcome demo_node demo_end))"
proof -
  have 1: "pg_running demo_end = []" "\<not> pg_rejected demo_end" by code_simp+
  have 2: "pg_effects demo_end = [EmitPending 2, Launch 0, Launch 1, AbortStep 4, EmitCancelledSkip 2]" by code_simp
  from parallel_group_settles [OF demo_end_reach] 1 2 show ?thesis by blast
qed

theorem parallel_window_witness: "length (pg_running demo_end) \<le> 2 \<and> distinct (launches demo_end)"
  using parallel_window [OF demo_end_reach] by (simp add: window_def demo_node_def)

end
