(* ===== verification/HeldRuns.thy ===== *)
theory HeldRuns
  imports Protection Statuses
begin

text \<open>
  Runs held by a protection gate: the tables \<open>held_runs\<close> and \<open>held_run_approvals\<close> with every
  operation of \<open>HeldRunStore\<close> in \<open>packages/orchestrator/src/contexts/held-runs.ts\<close>, the release of
  queued holds in \<open>release-queued-holds.ts\<close> beside it, and the routing of a released hold in
  \<open>packages/orchestrator/src/approvals/resume-router.ts\<close>.

  A table is the list of its rows. A statement of the database is atomic and so is a
  transaction, which leaves the tables alone when it throws; the clock of the database is the
  argument \<open>now\<close>, and the identifier it generates for a row the argument \<open>hid\<close>. Columns that the
  operations only carry (the drift payload) are left out. The step relation at the end is any
  sequence of the operations, by any number of callers.
\<close>

section \<open>Rows\<close>

datatype held_run_status = HPending | HApproved | HRejected | HExpired | HReleased
datatype hold_scope = ScopeWorkflow | ScopeJob | ScopeStep
datatype trigger_source = SourceContext | SourceExplicit
datatype queue_type = QueueContext | QueueSecurity
datatype approval_decision = DecApprove | DecReject
datatype approver_clause = TeamClause string | UserClause string

record approval_requirement =
  aq_clauses :: "approver_clause list"
  aq_expiresAt :: int
  aq_reason :: string

definition HOLD_TYPE_REVIEWER :: string where "HOLD_TYPE_REVIEWER = ''reviewer''"
definition HOLD_TYPE_TIMER :: string where "HOLD_TYPE_TIMER = ''timer''"
definition HOLD_TYPE_CONCURRENCY :: string where "HOLD_TYPE_CONCURRENCY = ''concurrency''"
definition HOLD_TYPE_SECURITY :: string where "HOLD_TYPE_SECURITY = ''security''"

record held_run =
  hr_id :: string
  hr_org_id :: string
  hr_run_id :: run_id
  hr_job_id :: string
  hr_context_id :: "string option"
  hr_hold_type :: string
  hr_queue_type :: queue_type
  hr_reason :: "string option"
  hr_status :: held_run_status
  hr_approved_by :: "string option"
  hr_created_at :: int
  hr_expires_at :: int
  hr_resolved_at :: "int option"
  hr_hold_scope :: hold_scope
  hr_step_index :: "int option"
  hr_trigger_source :: trigger_source
  hr_approval_requirement :: "approval_requirement option"
  hr_posted_pending_check :: "bool option"

record held_run_approval =
  ap_held_run_id :: string
  ap_approver_user_id :: string
  ap_decision :: approval_decision
  ap_clauses_satisfied :: "approver_clause list option"
  ap_created_at :: int

text \<open>The columns of a run and of a job that the queries of these modules read.\<close>

record run_row =
  rn_run_id :: run_id
  rn_customer_id :: "string option"
  rn_repo_identifier :: "string option"
  rn_sha :: "string option"
  rn_routing_key :: "string option"
  rn_pr_number :: "int option"
  rn_context :: "string option"

record job_row =
  jb_run_id :: run_id
  jb_job_id :: string
  jb_job_name :: string
  jb_status :: job_status

record held_db =
  held_runs :: "held_run list"
  held_run_approvals :: "held_run_approval list"
  execution_runs :: "run_row list"
  execution_jobs :: "job_row list"

datatype held_error = NotFoundOrNotPending string | ForeignKeyViolation string

record release_signal =
  rs_holdId :: string
  rs_runId :: run_id
  rs_jobId :: string
  rs_scope :: hold_scope
  rs_stepIndex :: "int option"
  rs_triggerSource :: trigger_source

definition is_pending :: "held_run \<Rightarrow> bool" where
  "is_pending h \<longleftrightarrow> hr_status h = HPending"

section \<open>Creating holds\<close>

record create_data =
  cd_runId :: run_id
  cd_jobId :: string
  cd_contextId :: "string option"
  cd_holdType :: string
  cd_reason :: string
  cd_expiresAt :: int
  cd_queueType :: "queue_type option"
  cd_scope :: "hold_scope option"
  cd_triggerSource :: "trigger_source option"

definition create :: "string \<Rightarrow> int \<Rightarrow> string \<Rightarrow> create_data \<Rightarrow> held_db \<Rightarrow> held_run \<times> held_db" where
  "create hid now orgId d db =
     (let row = \<lparr>hr_id = hid, hr_org_id = orgId, hr_run_id = cd_runId d, hr_job_id = cd_jobId d,
            hr_context_id = cd_contextId d, hr_hold_type = cd_holdType d,
            hr_queue_type = (case cd_queueType d of None \<Rightarrow> QueueContext | Some q \<Rightarrow> q),
            hr_reason = Some (cd_reason d), hr_status = HPending, hr_approved_by = None,
            hr_created_at = now, hr_expires_at = cd_expiresAt d, hr_resolved_at = None,
            hr_hold_scope = (case cd_scope d of None \<Rightarrow> ScopeJob | Some s \<Rightarrow> s),
            hr_step_index = None,
            hr_trigger_source = (case cd_triggerSource d of None \<Rightarrow> SourceContext | Some t \<Rightarrow> t),
            hr_approval_requirement = None, hr_posted_pending_check = Some False\<rparr>
      in (row, db\<lparr>held_runs := held_runs db @ [row]\<rparr>))"

record create_hold_data =
  ch_runId :: run_id
  ch_jobId :: string
  ch_scope :: hold_scope
  ch_stepIndex :: "int option"
  ch_triggerSource :: trigger_source
  ch_requirement :: approval_requirement
  ch_contextId :: "string option"
  ch_queueType :: "queue_type option"
  ch_holdType :: "string option"

definition createHold ::
  "string \<Rightarrow> int \<Rightarrow> string \<Rightarrow> create_hold_data \<Rightarrow> held_db \<Rightarrow> held_run \<times> held_db" where
  "createHold hid now orgId d db =
     (let row = \<lparr>hr_id = hid, hr_org_id = orgId, hr_run_id = ch_runId d, hr_job_id = ch_jobId d,
            hr_context_id = ch_contextId d,
            hr_hold_type = (case ch_holdType d of None \<Rightarrow> HOLD_TYPE_REVIEWER | Some t \<Rightarrow> t),
            hr_queue_type = (case ch_queueType d of None \<Rightarrow> QueueContext | Some q \<Rightarrow> q),
            hr_reason = Some (aq_reason (ch_requirement d)), hr_status = HPending,
            hr_approved_by = None, hr_created_at = now,
            hr_expires_at = aq_expiresAt (ch_requirement d), hr_resolved_at = None,
            hr_hold_scope = ch_scope d, hr_step_index = ch_stepIndex d,
            hr_trigger_source = ch_triggerSource d,
            hr_approval_requirement = Some (ch_requirement d), hr_posted_pending_check = Some False\<rparr>
      in (row, db\<lparr>held_runs := held_runs db @ [row]\<rparr>))"

definition markPendingCheckPosted :: "string \<Rightarrow> string list \<Rightarrow> held_db \<Rightarrow> held_db" where
  "markPendingCheckPosted orgId ids db =
     (if ids = [] then db
      else db\<lparr>held_runs := update_where (\<lambda>h. hr_id h \<in> set ids \<and> hr_org_id h = orgId)
             (\<lambda>h. h\<lparr>hr_posted_pending_check := Some True\<rparr>) (held_runs db)\<rparr>)"

section \<open>Decisions\<close>

record record_decision =
  rd_approverSub :: string
  rd_decision :: approval_decision
  rd_clausesSatisfied :: "approver_clause list option"

definition insertDecisionRow :: "int \<Rightarrow> string \<Rightarrow> record_decision \<Rightarrow> held_db \<Rightarrow> held_error + held_db" where
  "insertDecisionRow now heldRunId d db =
     (if heldRunId \<notin> hr_id ` set (held_runs db) then Inl (ForeignKeyViolation heldRunId)
      else Inr (db\<lparr>held_run_approvals := held_run_approvals db @
        [\<lparr>ap_held_run_id = heldRunId, ap_approver_user_id = rd_approverSub d, ap_decision = rd_decision d,
          ap_clauses_satisfied = rd_clausesSatisfied d, ap_created_at = now\<rparr>]\<rparr>))"

text \<open>An UPDATE with RETURNING, of which the callers take the first row.\<close>

definition update_returning ::
  "(held_run \<Rightarrow> bool) \<Rightarrow> (held_run \<Rightarrow> held_run) \<Rightarrow> held_db \<Rightarrow> held_run option \<times> held_db" where
  "update_returning P f db =
     (map_option f (find P (held_runs db)), db\<lparr>held_runs := update_where P f (held_runs db)\<rparr>)"

definition pending_of :: "string \<Rightarrow> string \<Rightarrow> held_run \<Rightarrow> bool" where
  "pending_of orgId heldRunId h \<longleftrightarrow> hr_id h = heldRunId \<and> hr_org_id h = orgId \<and> hr_status h = HPending"

definition flipToApproved :: "int \<Rightarrow> string \<Rightarrow> string \<Rightarrow> held_db \<Rightarrow> held_run option \<times> held_db" where
  "flipToApproved now orgId heldRunId =
     update_returning (pending_of orgId heldRunId)
       (\<lambda>h. h\<lparr>hr_status := HApproved, hr_resolved_at := Some now\<rparr>)"

definition flipToRejected ::
  "int \<Rightarrow> string \<Rightarrow> string \<Rightarrow> string option \<Rightarrow> held_db \<Rightarrow> held_run option \<times> held_db" where
  "flipToRejected now orgId heldRunId reason =
     update_returning (pending_of orgId heldRunId)
       (\<lambda>h. h\<lparr>hr_status := HRejected, hr_resolved_at := Some now,
               hr_reason := (case reason of None \<Rightarrow> hr_reason h | Some r \<Rightarrow> Some r)\<rparr>)"

definition toReleaseSignal :: "held_run \<Rightarrow> release_signal" where
  "toReleaseSignal h =
     \<lparr>rs_holdId = hr_id h, rs_runId = hr_run_id h, rs_jobId = hr_job_id h, rs_scope = hr_hold_scope h,
      rs_stepIndex = hr_step_index h, rs_triggerSource = hr_trigger_source h\<rparr>"

text \<open>A row, or the error that aborts the statement and its transaction.\<close>

definition or_throw :: "string \<Rightarrow> 'a option \<times> held_db \<Rightarrow> held_error + 'a \<times> held_db" where
  "or_throw heldRunId r =
     (case fst r of None \<Rightarrow> Inl (NotFoundOrNotPending heldRunId) | Some row \<Rightarrow> Inr (row, snd r))"

definition recordDecision :: "int \<Rightarrow> string \<Rightarrow> record_decision \<Rightarrow> held_db \<Rightarrow> held_error + held_db" where
  "recordDecision now heldRunId d db = insertDecisionRow now heldRunId d db"

definition recordAndRelease ::
  "int \<Rightarrow> string \<Rightarrow> string \<Rightarrow> record_decision \<Rightarrow> held_db \<Rightarrow> held_error + release_signal \<times> held_db" where
  "recordAndRelease now orgId heldRunId d db =
     (case insertDecisionRow now heldRunId d db of
        Inl e \<Rightarrow> Inl e
      | Inr db' \<Rightarrow> (case or_throw heldRunId (flipToApproved now orgId heldRunId db') of
            Inl e \<Rightarrow> Inl e | Inr (row, db'') \<Rightarrow> Inr (toReleaseSignal row, db'')))"

definition recordAndReject ::
  "int \<Rightarrow> string \<Rightarrow> string \<Rightarrow> record_decision \<Rightarrow> string option \<Rightarrow> held_db \<Rightarrow> held_error + held_run \<times> held_db" where
  "recordAndReject now orgId heldRunId d reason db =
     (case insertDecisionRow now heldRunId d db of
        Inl e \<Rightarrow> Inl e
      | Inr db' \<Rightarrow> or_throw heldRunId (flipToRejected now orgId heldRunId reason db'))"

definition listDecisions :: "string \<Rightarrow> held_db \<Rightarrow> held_run_approval list" where
  "listDecisions heldRunId db =
     order_by ap_created_at (\<lambda>a. ap_held_run_id a = heldRunId) (held_run_approvals db)"

definition getById :: "string \<Rightarrow> string \<Rightarrow> held_db \<Rightarrow> held_run option" where
  "getById orgId heldRunId db =
     find (\<lambda>h. hr_id h = heldRunId \<and> hr_org_id h = orgId) (held_runs db)"

section \<open>Ending a hold directly\<close>

definition release_hold ::
  "int \<Rightarrow> string \<Rightarrow> string \<Rightarrow> held_db \<Rightarrow> held_error + release_signal \<times> held_db" where
  "release_hold now orgId heldRunId db =
     (case or_throw heldRunId (flipToApproved now orgId heldRunId db) of
        Inl e \<Rightarrow> Inl e | Inr (row, db') \<Rightarrow> Inr (toReleaseSignal row, db'))"

definition approve ::
  "int \<Rightarrow> string \<Rightarrow> string \<Rightarrow> string \<Rightarrow> held_db \<Rightarrow> held_error + held_run \<times> held_db" where
  "approve now orgId heldRunId approvedBy db =
     or_throw heldRunId (update_returning (pending_of orgId heldRunId)
       (\<lambda>h. h\<lparr>hr_status := HApproved, hr_approved_by := Some approvedBy, hr_resolved_at := Some now\<rparr>) db)"

definition reject ::
  "int \<Rightarrow> string \<Rightarrow> string \<Rightarrow> string option \<Rightarrow> held_db \<Rightarrow> held_error + held_run \<times> held_db" where
  "reject now orgId heldRunId reason db =
     or_throw heldRunId (flipToRejected now orgId heldRunId reason db)"

definition approveByQueueType ::
  "int \<Rightarrow> string \<Rightarrow> string \<Rightarrow> string \<Rightarrow> queue_type \<Rightarrow> held_db \<Rightarrow> held_error + held_run \<times> held_db" where
  "approveByQueueType now orgId heldRunId approvedBy q db =
     or_throw heldRunId (update_returning (\<lambda>h. pending_of orgId heldRunId h \<and> hr_queue_type h = q)
       (\<lambda>h. h\<lparr>hr_status := HApproved, hr_approved_by := Some approvedBy, hr_resolved_at := Some now\<rparr>) db)"

section \<open>Queries\<close>

definition listPending :: "string \<Rightarrow> held_db \<Rightarrow> held_run list" where
  "listPending orgId db =
     order_by hr_created_at (\<lambda>h. hr_org_id h = orgId \<and> hr_status h = HPending) (held_runs db)"

definition newest_first :: "(held_run \<Rightarrow> bool) \<Rightarrow> held_db \<Rightarrow> held_run list" where
  "newest_first P db = order_by (\<lambda>h. - hr_created_at h) P (held_runs db)"

text \<open>The options of a listing: a status (\<open>None\<close> for a missing or empty one) and a limit (0 for none).\<close>

definition limited :: "nat \<Rightarrow> 'a list \<Rightarrow> 'a list" where
  "limited n xs = (if n = 0 then xs else take n xs)"

definition listAll :: "string \<Rightarrow> held_run_status option \<Rightarrow> nat \<Rightarrow> held_db \<Rightarrow> held_run list" where
  "listAll orgId st maxRows db =
     limited maxRows (newest_first (\<lambda>h. hr_org_id h = orgId \<and>
       (case st of None \<Rightarrow> True | Some s \<Rightarrow> hr_status h = s)) db)"

definition listByQueueType ::
  "string \<Rightarrow> queue_type \<Rightarrow> held_run_status option \<Rightarrow> nat \<Rightarrow> held_db \<Rightarrow> held_run list" where
  "listByQueueType orgId q st maxRows db =
     limited maxRows (newest_first (\<lambda>h. hr_org_id h = orgId \<and> hr_queue_type h = q \<and>
       (case st of None \<Rightarrow> True | Some s \<Rightarrow> hr_status h = s)) db)"

text \<open>The inner join with the runs; the identifier of a run is unique.\<close>

definition run_of :: "held_db \<Rightarrow> run_id \<Rightarrow> run_row option" where
  "run_of db r = find (\<lambda>x. rn_run_id x = r) (execution_runs db)"

definition joined :: "held_db \<Rightarrow> held_run \<Rightarrow> (run_row \<Rightarrow> bool) \<Rightarrow> bool" where
  "joined db h P = (case run_of db (hr_run_id h) of None \<Rightarrow> False | Some r \<Rightarrow> P r)"

definition listPendingSecurityHoldsForPr :: "string \<Rightarrow> string \<Rightarrow> int \<Rightarrow> held_db \<Rightarrow> held_run list" where
  "listPendingSecurityHoldsForPr orgId repo pr db =
     newest_first (\<lambda>h. hr_org_id h = orgId \<and> hr_queue_type h = QueueSecurity \<and> hr_status h = HPending \<and>
       joined db h (\<lambda>r. rn_repo_identifier r = Some repo \<and> rn_pr_number r = Some pr)) db"

definition getByRunAndJob :: "string \<Rightarrow> run_id \<Rightarrow> string \<Rightarrow> held_db \<Rightarrow> held_run option" where
  "getByRunAndJob orgId r j db =
     find (\<lambda>h. hr_org_id h = orgId \<and> hr_run_id h = r \<and> hr_job_id h = j) (held_runs db)"

definition overdue :: "int \<Rightarrow> held_run \<Rightarrow> bool" where
  "overdue now h \<longleftrightarrow> hr_status h = HPending \<and> hr_expires_at h < now"

definition listOverdue :: "int \<Rightarrow> held_db \<Rightarrow> held_run list" where
  "listOverdue now db = filter (overdue now) (held_runs db)"

definition releaseDueWaitHolds :: "int \<Rightarrow> held_db \<Rightarrow> release_signal list \<times> held_db" where
  "releaseDueWaitHolds now db =
     (let due = \<lambda>h. overdue now h \<and> hr_hold_type h = HOLD_TYPE_TIMER
      in (map toReleaseSignal (filter due (held_runs db)),
          db\<lparr>held_runs := update_where due (\<lambda>h. h\<lparr>hr_status := HReleased, hr_resolved_at := Some now\<rparr>)
               (held_runs db)\<rparr>))"

definition listAllQueuedHolds :: "held_db \<Rightarrow> (string \<times> string option) list" where
  "listAllQueuedHolds db =
     List.map_filter (\<lambda>h. if hr_status h = HPending \<and> hr_hold_type h = HOLD_TYPE_CONCURRENCY
         then map_option (\<lambda>r. (hr_org_id h, rn_context r)) (run_of db (hr_run_id h)) else None)
       (held_runs db)"

definition listQueuedHoldsForContext :: "string \<Rightarrow> string \<Rightarrow> held_db \<Rightarrow> held_run list" where
  "listQueuedHoldsForContext orgId grp db =
     order_by hr_created_at (\<lambda>h. hr_org_id h = orgId \<and> hr_status h = HPending \<and>
       hr_hold_type h = HOLD_TYPE_CONCURRENCY \<and>
       joined db h (\<lambda>r. rn_context r = Some grp \<and> rn_customer_id r = Some orgId)) (held_runs db)"

definition expireOverdue :: "int \<Rightarrow> held_db \<Rightarrow> nat \<times> held_db" where
  "expireOverdue now db =
     (length (filter (overdue now) (held_runs db)),
      db\<lparr>held_runs := update_where (overdue now)
           (\<lambda>h. h\<lparr>hr_status := HExpired, hr_resolved_at := Some now\<rparr>) (held_runs db)\<rparr>)"

section \<open>Routing a released hold\<close>

datatype resume_path = ResumeStep release_signal | ResumeWorkflow release_signal | ResumeJob release_signal

text \<open>\<open>onStep\<close> and \<open>onWorkflow\<close> say whether the optional handlers are there.\<close>

definition routeRelease :: "release_signal \<Rightarrow> bool \<Rightarrow> bool \<Rightarrow> resume_path option" where
  "routeRelease s onStep onWorkflow =
     (if rs_scope s = ScopeStep then (if onStep then Some (ResumeStep s) else None)
      else if rs_scope s = ScopeWorkflow \<and> rs_triggerSource s = SourceContext
      then (if onWorkflow then Some (ResumeWorkflow s) else None)
      else Some (ResumeJob s))"

section \<open>Queued holds\<close>

definition NEEDS_PENDING_JOB_ID_PREFIX :: string where
  "NEEDS_PENDING_JOB_ID_PREFIX = ''needs-pending-''"

record occupying_exclusion =
  ox_runId :: run_id
  ox_jobNames :: "string list"

definition countOccupyingJobs :: "string \<Rightarrow> string \<Rightarrow> occupying_exclusion option \<Rightarrow> held_db \<Rightarrow> nat" where
  "countOccupyingJobs orgId grp ex db =
     length (filter (\<lambda>j. jb_status j \<notin> set TERMINAL_JOB_STATES \<and>
       \<not> startsWith (jb_job_id j) NEEDS_PENDING_JOB_ID_PREFIX \<and>
       (case run_of db (jb_run_id j) of None \<Rightarrow> False
        | Some r \<Rightarrow> rn_context r = Some grp \<and> rn_customer_id r = Some orgId) \<and>
       (case ex of None \<Rightarrow> True
        | Some x \<Rightarrow> ox_jobNames x = [] \<or> \<not> (jb_run_id j = ox_runId x \<and> jb_job_name j \<in> set (ox_jobNames x))))
       (execution_jobs db))"

text \<open>
  The loop over the holds to release. \<open>onJobRelease\<close> says whether the resume of a hold
  succeeds; a failure leaves the row flipped and goes on with the next hold.
\<close>

fun release_each ::
  "int \<Rightarrow> string \<Rightarrow> (release_signal \<Rightarrow> bool) \<Rightarrow> held_run list \<Rightarrow> held_db \<Rightarrow> release_signal list \<times> held_db" where
  "release_each now orgId onJobRelease [] db = ([], db)"
| "release_each now orgId onJobRelease (h # hs) db =
     (case release_hold now orgId (hr_id h) db of
        Inl e \<Rightarrow> release_each now orgId onJobRelease hs db
      | Inr (s, db') \<Rightarrow>
          (let (done, db'') = release_each now orgId onJobRelease hs db'
           in (if onJobRelease s then s # done else done, db'')))"

definition releaseQueuedHolds ::
  "int \<Rightarrow> string \<Rightarrow> string \<Rightarrow> int option \<Rightarrow> (release_signal \<Rightarrow> bool) \<Rightarrow> held_db \<Rightarrow> release_signal list \<times> held_db" where
  "releaseQueuedHolds now orgId grp cap onJobRelease db =
     (case cap of None \<Rightarrow> ([], db)
      | Some l \<Rightarrow>
          (let free = l - int (countOccupyingJobs orgId grp None db)
           in if free \<le> 0 then ([], db)
              else release_each now orgId onJobRelease
                     (take (nat free) (listQueuedHoldsForContext orgId grp db)) db))"

section \<open>The store as a machine\<close>

text \<open>Any caller may run any operation; runs and jobs change as the rest of the program likes.\<close>

inductive held_step :: "held_db \<Rightarrow> held_db \<Rightarrow> bool" where
  st_create: "hid \<notin> hr_id ` set (held_runs db) \<Longrightarrow> held_step db (snd (create hid now orgId d db))"
| st_createHold: "hid \<notin> hr_id ` set (held_runs db) \<Longrightarrow> held_step db (snd (createHold hid now orgId e db))"
| st_mark: "held_step db (markPendingCheckPosted orgId ids db)"
| st_decision: "recordDecision now hid rd db = Inr db' \<Longrightarrow> held_step db db'"
| st_recordRelease: "recordAndRelease now orgId hid rd db = Inr (sig, db') \<Longrightarrow> held_step db db'"
| st_recordReject: "recordAndReject now orgId hid rd reason db = Inr (row, db') \<Longrightarrow> held_step db db'"
| st_release: "release_hold now orgId hid db = Inr (sig, db') \<Longrightarrow> held_step db db'"
| st_approve: "approve now orgId hid who db = Inr (row, db') \<Longrightarrow> held_step db db'"
| st_reject: "reject now orgId hid reason db = Inr (row, db') \<Longrightarrow> held_step db db'"
| st_approveBy: "approveByQueueType now orgId hid who q db = Inr (row, db') \<Longrightarrow> held_step db db'"
| st_releaseDue: "held_step db (snd (releaseDueWaitHolds now db))"
| st_expire: "held_step db (snd (expireOverdue now db))"
| st_runs: "held_step db (db\<lparr>execution_runs := rs, execution_jobs := js\<rparr>)"

text \<open>
  What every operation promises: a hold stays in the table with its identity, an ended hold
  keeps its outcome, and decisions are only ever appended.
\<close>

definition hold_le :: "held_run \<Rightarrow> held_run \<Rightarrow> bool" where
  "hold_le h h' \<longleftrightarrow>
     hr_id h' = hr_id h \<and> hr_org_id h' = hr_org_id h \<and> hr_run_id h' = hr_run_id h \<and>
     hr_job_id h' = hr_job_id h \<and> hr_hold_scope h' = hr_hold_scope h \<and>
     hr_queue_type h' = hr_queue_type h \<and> hr_hold_type h' = hr_hold_type h \<and>
     hr_approval_requirement h' = hr_approval_requirement h \<and>
     (hr_status h \<noteq> HPending \<longrightarrow>
        hr_status h' = hr_status h \<and> hr_resolved_at h' = hr_resolved_at h \<and>
        hr_approved_by h' = hr_approved_by h \<and> hr_reason h' = hr_reason h)"

definition db_le :: "held_db \<Rightarrow> held_db \<Rightarrow> bool" where
  "db_le db db' \<longleftrightarrow>
     (\<exists>ys zs. held_runs db' = ys @ zs \<and> list_all2 hold_le (held_runs db) ys) \<and>
     prefix (held_run_approvals db) (held_run_approvals db')"

definition held_ok :: "held_db \<Rightarrow> bool" where
  "held_ok db \<longleftrightarrow>
     distinct (map hr_id (held_runs db)) \<and>
     (\<forall>h \<in> set (held_runs db). hr_status h = HPending \<longleftrightarrow> hr_resolved_at h = None) \<and>
     ap_held_run_id ` set (held_run_approvals db) \<subseteq> hr_id ` set (held_runs db)"

lemma hold_le_refl [simp]: "hold_le h h"
  by (simp add: hold_le_def)

lemma hold_le_trans: "hold_le a b \<Longrightarrow> hold_le b c \<Longrightarrow> hold_le a c"
  by (auto simp: hold_le_def)

lemma list_all2_hold_le_refl [simp]: "list_all2 hold_le hs hs"
  by (simp add: list.rel_refl)

lemma db_leI:
  assumes "held_runs db' = ys @ zs" "list_all2 hold_le (held_runs db) ys"
    and "held_run_approvals db' = held_run_approvals db @ as"
  shows "db_le db db'"
  using assms unfolding db_le_def by auto

lemma db_le_refl [simp]: "db_le db db"
  by (rule db_leI [where zs = "[]" and as = "[]"]) auto

lemma db_le_trans:
  assumes "db_le a b" "db_le b c"
  shows "db_le a c"
proof -
  obtain ys zs where b: "held_runs b = ys @ zs" "list_all2 hold_le (held_runs a) ys"
    using assms(1) by (auto simp: db_le_def)
  obtain us vs where c: "held_runs c = us @ vs" "list_all2 hold_le (ys @ zs) us"
    using assms(2) b(1) by (auto simp: db_le_def)
  obtain us1 us2 where u: "us = us1 @ us2" "list_all2 hold_le ys us1"
    using c(2) by (auto simp: list_all2_append1)
  have "list_all2 hold_le (held_runs a) us1"
    using list_all2_trans [OF hold_le_trans b(2) u(2)] .
  then show ?thesis
    using assms c(1) u(1) by (auto simp: db_le_def intro: prefix_order.trans)
qed

lemma list_all2_update_where:
  "(\<And>h. P h \<Longrightarrow> hold_le h (f h)) \<Longrightarrow> list_all2 hold_le hs (update_where P f hs)"
  by (induction hs) (auto simp: update_where_def)

lemma db_le_update:
  assumes "\<And>h. P h \<Longrightarrow> hold_le h (f h)"
  shows "db_le db (db\<lparr>held_runs := update_where P f (held_runs db)\<rparr>)"
  using list_all2_update_where [of P f "held_runs db", OF assms]
  by (intro db_leI [where zs = "[]" and as = "[]"]) auto

lemma ok_update:
  assumes "held_ok db" "\<And>h. P h \<Longrightarrow> hr_id (f h) = hr_id h"
    and "\<And>h. P h \<Longrightarrow> h \<in> set (held_runs db) \<Longrightarrow> hr_status (f h) = HPending \<longleftrightarrow> hr_resolved_at (f h) = None"
  shows "held_ok (db\<lparr>held_runs := update_where P f (held_runs db)\<rparr>)"
proof -
  have "map hr_id (update_where P f (held_runs db)) = map hr_id (held_runs db)"
    using assms(2) by (simp add: update_where_def)
  moreover from this have "hr_id ` set (update_where P f (held_runs db)) = hr_id ` set (held_runs db)"
    by (metis set_map)
  ultimately show ?thesis
    using assms(1,3) by (auto simp: held_ok_def set_update_where)
qed

lemma held_ok_resolved:
  "held_ok db \<Longrightarrow> h \<in> set (held_runs db) \<Longrightarrow> (hr_status h = HPending) = (hr_resolved_at h = None)"
  by (simp add: held_ok_def)

lemma or_throw_Inr: "or_throw hid r = Inr (row, db') \<longleftrightarrow> r = (Some row, db')"
  by (cases r) (auto simp: or_throw_def split: option.splits)

lemma update_returning_eq:
  "update_returning P f db = (row, db') \<Longrightarrow> db' = db\<lparr>held_runs := update_where P f (held_runs db)\<rparr>"
  by (simp add: update_returning_def)

lemma insertDecisionRow_le:
  assumes "insertDecisionRow now hid rd db = Inr db'"
  shows "db_le db db'" "held_ok db \<Longrightarrow> held_ok db'" "held_runs db' = held_runs db"
    "\<exists>a. held_run_approvals db' = held_run_approvals db @ [a] \<and> ap_held_run_id a = hid \<and>
      ap_approver_user_id a = rd_approverSub rd \<and> ap_decision a = rd_decision rd"
  using assms
  by (auto simp: insertDecisionRow_def held_ok_def image_subset_iff split: if_splits
      intro!: db_leI [where zs = "[]" and ys = "held_runs db"])

lemma flips_le:
  "db_le db (snd (flipToApproved now orgId hid db))"
  "db_le db (snd (flipToRejected now orgId hid reason db))"
  "held_ok db \<Longrightarrow> held_ok (snd (flipToApproved now orgId hid db))"
  "held_ok db \<Longrightarrow> held_ok (snd (flipToRejected now orgId hid reason db))"
  by (auto simp: flipToApproved_def flipToRejected_def update_returning_def pending_of_def hold_le_def
      intro!: db_le_update ok_update)

lemmas store_defs = recordDecision_def recordAndRelease_def recordAndReject_def release_hold_def
  approve_def reject_def approveByQueueType_def

lemma step_le_ok:
  assumes "held_step db db'"
  shows "db_le db db' \<and> (held_ok db \<longrightarrow> held_ok db')"
  using assms
proof cases
  case (st_create hid now orgId d)
  then show ?thesis
    by (auto simp: create_def held_ok_def Let_def intro!: db_leI [where ys = "held_runs db" and as = "[]"])
next
  case (st_createHold hid now orgId e)
  then show ?thesis
    by (auto simp: createHold_def held_ok_def Let_def intro!: db_leI [where ys = "held_runs db" and as = "[]"])
next
  case (st_mark orgId ids)
  then show ?thesis
    by (auto simp: markPendingCheckPosted_def hold_le_def held_ok_resolved intro!: db_le_update ok_update)
next
  case (st_decision now hid rd)
  then show ?thesis using insertDecisionRow_le [of now hid rd db db'] by (simp add: recordDecision_def)
next
  case (st_recordRelease now orgId hid rd sig)
  then obtain db1 row where 1: "insertDecisionRow now hid rd db = Inr db1"
    "flipToApproved now orgId hid db1 = (Some row, db')"
    by (auto simp: recordAndRelease_def or_throw_Inr split: sum.splits)
  then show ?thesis
    using insertDecisionRow_le [OF 1(1)] flips_le(1,3) [of db1 now orgId hid] db_le_trans by auto
next
  case (st_recordReject now orgId hid rd reason row)
  then obtain db1 where 1: "insertDecisionRow now hid rd db = Inr db1"
    "flipToRejected now orgId hid reason db1 = (Some row, db')"
    by (auto simp: recordAndReject_def or_throw_Inr split: sum.splits)
  then show ?thesis
    using insertDecisionRow_le [OF 1(1)] flips_le(2,4) [of db1 now orgId hid reason] db_le_trans by auto
next
  case (st_release now orgId hid sig)
  then obtain row where "flipToApproved now orgId hid db = (Some row, db')"
    by (auto simp: release_hold_def or_throw_Inr split: sum.splits)
  then show ?thesis using flips_le(1,3) [of db now orgId hid] by simp
next
  case (st_approve now orgId hid who row)
  then show ?thesis
    by (auto simp: approve_def or_throw_Inr pending_of_def hold_le_def
        dest!: update_returning_eq intro!: db_le_update ok_update)
next
  case (st_reject now orgId hid reason row)
  then have "flipToRejected now orgId hid reason db = (Some row, db')"
    by (simp add: reject_def or_throw_Inr)
  then show ?thesis using flips_le(2,4) [of db now orgId hid reason] by simp
next
  case (st_approveBy now orgId hid who q row)
  then show ?thesis
    by (auto simp: approveByQueueType_def or_throw_Inr pending_of_def hold_le_def
        dest!: update_returning_eq intro!: db_le_update ok_update)
next
  case (st_releaseDue now)
  then show ?thesis
    by (auto simp: releaseDueWaitHolds_def overdue_def Let_def hold_le_def intro!: db_le_update ok_update)
next
  case (st_expire now)
  then show ?thesis
    by (auto simp: expireOverdue_def overdue_def hold_le_def intro!: db_le_update ok_update)
next
  case (st_runs rs js)
  then show ?thesis
    by (auto simp: held_ok_def intro: db_leI [where zs = "[]" and as = "[]"])
qed

interpretation held: inductive_invariant "\<lambda>db. held_runs db = [] \<and> held_run_approvals db = []" held_step held_ok
  using step_le_ok by unfold_locales (auto simp: held_ok_def)

lemma steps_le: "held_step\<^sup>*\<^sup>* db db' \<Longrightarrow> db_le db db'"
  by (induction rule: rtranclp_induct) (use step_le_ok db_le_trans in auto)

lemma db_le_hold:
  assumes "db_le db db'" "h \<in> set (held_runs db)"
  shows "\<exists>h' \<in> set (held_runs db'). hold_le h h'"
proof -
  obtain ys zs where y: "held_runs db' = ys @ zs" "list_all2 hold_le (held_runs db) ys"
    using assms(1) by (auto simp: db_le_def)
  obtain i where i: "i < length (held_runs db)" "held_runs db ! i = h"
    using assms(2) by (auto simp: in_set_conv_nth)
  have "hold_le h (ys ! i)" "ys ! i \<in> set ys"
    using y(2) i list_all2_nthD [of hold_le "held_runs db" ys i] by (auto dest: list_all2_lengthD)
  with y(1) show ?thesis by auto
qed

lemma id_unique:
  "held_ok db \<Longrightarrow> h \<in> set (held_runs db) \<Longrightarrow> h' \<in> set (held_runs db) \<Longrightarrow> hr_id h = hr_id h' \<Longrightarrow> h = h'"
  by (auto simp: held_ok_def distinct_map dest: inj_onD)

lemma not_pending_throws:
  assumes "held_ok db" "h \<in> set (held_runs db)" "hr_status h \<noteq> HPending"
  shows "recordAndRelease now orgId (hr_id h) d db = Inl (NotFoundOrNotPending (hr_id h))"
    "recordAndReject now orgId (hr_id h) d reason db = Inl (NotFoundOrNotPending (hr_id h))"
    "approveByQueueType now orgId (hr_id h) who q db = Inl (NotFoundOrNotPending (hr_id h))"
    "release_hold now orgId (hr_id h) db = Inl (NotFoundOrNotPending (hr_id h))"
proof -
  have "\<not> pending_of orgId (hr_id h) x" if "x \<in> set (held_runs db)" for x
    using id_unique [OF assms(1,2) that] assms(3) by (auto simp: pending_of_def)
  then have n: "find (pending_of orgId (hr_id h)) (held_runs db) = None"
    "find (\<lambda>x. pending_of orgId (hr_id h) x \<and> hr_queue_type x = q) (held_runs db) = None"
    by (auto simp: find_None_iff)
  show "recordAndRelease now orgId (hr_id h) d db = Inl (NotFoundOrNotPending (hr_id h))"
    using n assms(2) by (simp add: recordAndRelease_def insertDecisionRow_def or_throw_def flipToApproved_def update_returning_def)
  show "recordAndReject now orgId (hr_id h) d reason db = Inl (NotFoundOrNotPending (hr_id h))"
    using n assms(2) by (simp add: recordAndReject_def insertDecisionRow_def or_throw_def flipToRejected_def update_returning_def)
  show "approveByQueueType now orgId (hr_id h) who q db = Inl (NotFoundOrNotPending (hr_id h))"
    using n by (simp add: approveByQueueType_def or_throw_def update_returning_def)
  show "release_hold now orgId (hr_id h) db = Inl (NotFoundOrNotPending (hr_id h))"
    using n by (simp add: release_hold_def or_throw_def flipToApproved_def update_returning_def)
qed

text \<open>
  C21. The first decision on a hold wins: once it has left \<open>pending\<close>, no sequence of operations
  by any callers changes its outcome, and whoever then tries to release, reject or approve it
  gets the error and leaves the tables as they are.
\<close>

theorem first_decision_wins:
  assumes "reach (\<lambda>db. held_runs db = [] \<and> held_run_approvals db = []) held_step db"
    and "h \<in> set (held_runs db)" "hr_status h \<noteq> HPending" "held_step\<^sup>*\<^sup>* db db'"
  shows "(\<exists>h' \<in> set (held_runs db'). hr_id h' = hr_id h \<and> hr_status h' = hr_status h \<and>
      hr_resolved_at h' = hr_resolved_at h \<and> hr_approved_by h' = hr_approved_by h) \<and>
    recordAndRelease now orgId (hr_id h) d db' = Inl (NotFoundOrNotPending (hr_id h)) \<and>
    recordAndReject now orgId (hr_id h) d reason db' = Inl (NotFoundOrNotPending (hr_id h)) \<and>
    approveByQueueType now orgId (hr_id h) who q db' = Inl (NotFoundOrNotPending (hr_id h))"
proof -
  have ok: "held_ok db'"
    using held.run_inv [OF assms(4) held.reach_inv [OF assms(1)]] .
  obtain h' where h': "h' \<in> set (held_runs db')" "hold_le h h'"
    using db_le_hold [OF steps_le [OF assms(4)] assms(2)] by blast
  then have k: "hr_id h' = hr_id h" "hr_status h' \<noteq> HPending"
    using assms(3) by (auto simp: hold_le_def)
  have "\<exists>h' \<in> set (held_runs db'). hr_id h' = hr_id h \<and> hr_status h' = hr_status h \<and>
      hr_resolved_at h' = hr_resolved_at h \<and> hr_approved_by h' = hr_approved_by h"
    using h' assms(3) by (intro bexI [of _ h']) (auto simp: hold_le_def)
  with not_pending_throws(1,2,3) [OF ok h'(1) k(2)] k(1) show ?thesis by simp
qed

definition sample_create :: create_data where
  "sample_create =
     \<lparr>cd_runId = ''r1'', cd_jobId = ''build'', cd_contextId = None, cd_holdType = ''security'',
      cd_reason = ''fork_pr'', cd_expiresAt = 100, cd_queueType = Some QueueSecurity,
      cd_scope = None, cd_triggerSource = None\<rparr>"

definition sample_db :: held_db where
  "sample_db = \<lparr>held_runs = [], held_run_approvals = [], execution_runs = [], execution_jobs = []\<rparr>"

lemma first_decision_wins_witness:
  "let db1 = snd (create ''h1'' 5 ''acme'' sample_create sample_db);
       db2 = (case reject 7 ''acme'' ''h1'' None db1 of Inr (_, x) \<Rightarrow> x)
   in hr_status (hd (held_runs db2)) = HRejected \<and>
      recordAndRelease 8 ''acme'' ''h1''
        \<lparr>rd_approverSub = ''bob'', rd_decision = DecApprove, rd_clausesSatisfied = None\<rparr> (snd (expireOverdue 200 db2))
      = Inl (NotFoundOrNotPending ''h1'')"
proof -
  define db1 where "db1 = snd (create ''h1'' 5 ''acme'' sample_create sample_db)"
  define db2 where "db2 = (case reject 7 ''acme'' ''h1'' None db1 of Inr (_, x) \<Rightarrow> x)"
  have rows: "reject 7 ''acme'' ''h1'' None db1 = Inr (hd (held_runs db2), db2)"
    "held_runs db2 = [hd (held_runs db2)]" "hr_status (hd (held_runs db2)) = HRejected"
    "hr_id (hd (held_runs db2)) = ''h1''"
    by (simp_all add: db2_def db1_def sample_db_def sample_create_def create_def reject_def or_throw_def
        flipToRejected_def update_returning_def pending_of_def update_where_def Let_def)
  have "reach (\<lambda>db. held_runs db = [] \<and> held_run_approvals db = []) held_step db1"
  proof (rule reach_step)
    show "reach (\<lambda>db. held_runs db = [] \<and> held_run_approvals db = []) held_step sample_db"
      by (rule reach_init) (simp add: sample_db_def)
    show "held_step sample_db db1"
      unfolding db1_def by (rule st_create) (simp add: sample_db_def)
  qed
  then have r: "reach (\<lambda>db. held_runs db = [] \<and> held_run_approvals db = []) held_step db2"
    by (rule reach_step) (rule st_reject [OF rows(1)])
  have in2: "hd (held_runs db2) \<in> set (held_runs db2)" by (subst (2) rows(2)) simp
  have "held_step\<^sup>*\<^sup>* db2 (snd (expireOverdue 200 db2))"
    by (intro r_into_rtranclp st_expire)
  from first_decision_wins [OF r in2 _ this] rows(3,4)
  have "recordAndRelease 8 ''acme'' ''h1''
        \<lparr>rd_approverSub = ''bob'', rd_decision = DecApprove, rd_clausesSatisfied = None\<rparr> (snd (expireOverdue 200 db2))
      = Inl (NotFoundOrNotPending ''h1'')" by simp
  with rows(3) show ?thesis by (simp add: Let_def db1_def db2_def)
qed

end
