(* ===== verification/Approvals.thy ===== *)
theory Approvals
  imports HeldRuns
begin

text \<open>
  Approving and rejecting a held element: the clause evaluator
  (\<open>packages/orchestrator/src/approvals/approval-resolver.ts\<close>), the applier both surfaces share
  (\<open>apply-decision.ts\<close>), the subject of whoever triggered a run (\<open>triggerer-subject.ts\<close>, with
  the text of an actor in \<open>packages/engine/src/protocol/messages/actor.ts\<close>) and the duration of
  an approval window (\<open>packages/engine/src/approval/expiry-duration.ts\<close>).

  The membership of teams is the parameter \<open>lookup\<close>. The applier reads (\<open>decide\<close>) and later
  writes (\<open>commit\<close>): between the two other callers may run, so the two are separate definitions
  and \<open>applyDecision\<close> is their composition. What follows the commit (the check, the resume) is
  the list of calls that the consequence makes, for handlers that succeed or fail as the
  parameters say.
\<close>

section \<open>Clauses\<close>

type_synonym lookup = "string \<Rightarrow> string set"

record recorded_decision =
  rc_approver :: string
  rc_decision :: approval_decision

record per_clause =
  pc_clause :: approver_clause
  pc_satisfied :: bool
  pc_by :: "string option"

record evaluation =
  ev_satisfied :: bool
  ev_rejected :: bool
  ev_perClause :: "per_clause list"

fun isActorEligibleForClause :: "string \<Rightarrow> approver_clause \<Rightarrow> lookup \<Rightarrow> bool" where
  "isActorEligibleForClause actor (TeamClause t) lookup = (actor \<in> lookup t)"
| "isActorEligibleForClause actor (UserClause u) lookup = (u = actor)"

definition satisfies :: "approver_clause \<Rightarrow> lookup \<Rightarrow> recorded_decision \<Rightarrow> bool" where
  "satisfies c lookup d \<longleftrightarrow> rc_decision d = DecApprove \<and> isActorEligibleForClause (rc_approver d) c lookup"

definition isClauseSatisfied :: "approver_clause \<Rightarrow> recorded_decision list \<Rightarrow> lookup \<Rightarrow> bool" where
  "isClauseSatisfied c ds lookup \<longleftrightarrow> list_ex (satisfies c lookup) ds"

definition clauseSatisfiedBy :: "approver_clause \<Rightarrow> recorded_decision list \<Rightarrow> lookup \<Rightarrow> string option" where
  "clauseSatisfiedBy c ds lookup = map_option rc_approver (find (satisfies c lookup) ds)"

definition evaluate :: "approval_requirement \<Rightarrow> recorded_decision list \<Rightarrow> lookup \<Rightarrow> evaluation" where
  "evaluate req ds lookup =
     (let rejected = list_ex (\<lambda>d. rc_decision d = DecReject) ds
      in if aq_clauses req = []
         then \<lparr>ev_satisfied = (\<not> rejected \<and> list_ex (\<lambda>d. rc_decision d = DecApprove) ds),
               ev_rejected = rejected, ev_perClause = []\<rparr>
         else let per = map (\<lambda>c. let by = clauseSatisfiedBy c ds lookup
                     in \<lparr>pc_clause = c, pc_satisfied = (by \<noteq> None), pc_by = by\<rparr>) (aq_clauses req)
           in \<lparr>ev_satisfied = (\<not> rejected \<and> list_all pc_satisfied per), ev_rejected = rejected,
               ev_perClause = per\<rparr>)"

record can_approve_context =
  ca_triggererSub :: string
  ca_allowSelfApproval :: bool

definition canApprove ::
  "string \<Rightarrow> approval_requirement \<Rightarrow> recorded_decision list \<Rightarrow> lookup \<Rightarrow> can_approve_context \<Rightarrow> bool" where
  "canApprove actor req ds lookup ctx \<longleftrightarrow>
     \<not> (\<not> ca_allowSelfApproval ctx \<and> actor = ca_triggererSub ctx) \<and>
     (aq_clauses req = [] \<or>
      list_ex (\<lambda>c. \<not> pc_satisfied c \<and> isActorEligibleForClause actor (pc_clause c) lookup)
        (ev_perClause (evaluate req ds lookup)))"

section \<open>Applying a decision\<close>

record apply_args =
  ag_heldRunId :: string
  ag_actorSub :: string
  ag_decision :: approval_decision
  ag_reason :: "string option"

record apply_deps =
  dp_orgId :: string
  dp_lookup :: lookup
  dp_allowSelfApproval :: bool
  dp_triggererSub :: "run_id \<Rightarrow> string option"

datatype apply_result =
    Released release_signal
  | RejectedHold
  | StillPending nat
  | IneligibleActor
  | HoldNotFound

definition toRecorded :: "held_run_approval list \<Rightarrow> recorded_decision list" where
  "toRecorded rows = map (\<lambda>r. \<lparr>rc_approver = ap_approver_user_id r, rc_decision = ap_decision r\<rparr>) rows"

text \<open>A row without a requirement asks for any single approval; the time it gives is not read.\<close>

definition normalizeRequirement :: "int \<Rightarrow> approval_requirement option \<Rightarrow> approval_requirement" where
  "normalizeRequirement now raw =
     (case raw of Some r \<Rightarrow> r | None \<Rightarrow> \<lparr>aq_clauses = [], aq_expiresAt = now, aq_reason = ''''\<rparr>)"

text \<open>What the reads of one call decide, before its write.\<close>

datatype plan =
    PlanNotFound
  | PlanIneligible
  | PlanReject held_run
  | PlanRecord held_run "approver_clause list" nat
  | PlanRelease held_run "approver_clause list"

definition prospective :: "string \<Rightarrow> recorded_decision list \<Rightarrow> recorded_decision list" where
  "prospective actor ds = ds @ [\<lparr>rc_approver = actor, rc_decision = DecApprove\<rparr>]"

definition decide :: "apply_deps \<Rightarrow> int \<Rightarrow> apply_args \<Rightarrow> held_db \<Rightarrow> plan" where
  "decide deps now a db =
     (case getById (dp_orgId deps) (ag_heldRunId a) db of
        None \<Rightarrow> PlanNotFound
      | Some hold \<Rightarrow>
          if hr_status hold \<noteq> HPending then PlanNotFound
          else let req = normalizeRequirement now (hr_approval_requirement hold)
          in if ag_decision a = DecReject then PlanReject hold
          else let existing = toRecorded (listDecisions (ag_heldRunId a) db);
                   trig = (case dp_triggererSub deps (hr_run_id hold) of None \<Rightarrow> '''' | Some s \<Rightarrow> s)
          in if \<not> canApprove (ag_actorSub a) req existing (dp_lookup deps)
                  \<lparr>ca_triggererSub = trig, ca_allowSelfApproval = dp_allowSelfApproval deps\<rparr>
             then PlanIneligible
             else let mine = filter (\<lambda>c. isActorEligibleForClause (ag_actorSub a) c (dp_lookup deps)) (aq_clauses req);
                      result = evaluate req (prospective (ag_actorSub a) existing) (dp_lookup deps)
             in if ev_satisfied result then PlanRelease hold mine
                else PlanRecord hold mine (length (filter (\<lambda>c. \<not> pc_satisfied c) (ev_perClause result))))"

definition commit ::
  "apply_deps \<Rightarrow> int \<Rightarrow> apply_args \<Rightarrow> plan \<Rightarrow> held_db \<Rightarrow> held_error + apply_result \<times> held_db" where
  "commit deps now a p db =
     (case p of
        PlanNotFound \<Rightarrow> Inr (HoldNotFound, db)
      | PlanIneligible \<Rightarrow> Inr (IneligibleActor, db)
      | PlanReject hold \<Rightarrow>
          (case recordAndReject now (dp_orgId deps) (ag_heldRunId a)
                  \<lparr>rd_approverSub = ag_actorSub a, rd_decision = DecReject, rd_clausesSatisfied = None\<rparr>
                  (ag_reason a) db of
             Inl e \<Rightarrow> Inl e | Inr (row, db') \<Rightarrow> Inr (RejectedHold, db'))
      | PlanRecord hold mine remaining \<Rightarrow>
          (case recordDecision now (ag_heldRunId a)
                  \<lparr>rd_approverSub = ag_actorSub a, rd_decision = DecApprove, rd_clausesSatisfied = Some mine\<rparr> db of
             Inl e \<Rightarrow> Inl e | Inr db' \<Rightarrow> Inr (StillPending remaining, db'))
      | PlanRelease hold mine \<Rightarrow>
          (case recordAndRelease now (dp_orgId deps) (ag_heldRunId a)
                  \<lparr>rd_approverSub = ag_actorSub a, rd_decision = DecApprove, rd_clausesSatisfied = Some mine\<rparr> db of
             Inl e \<Rightarrow> Inl e | Inr (s, db') \<Rightarrow> Inr (Released s, db')))"

definition applyDecision :: "apply_deps \<Rightarrow> int \<Rightarrow> apply_args \<Rightarrow> held_db \<Rightarrow> held_error + apply_result \<times> held_db" where
  "applyDecision deps now a db = commit deps now a (decide deps now a db) db"

datatype audit_action = AuditReject | AuditAutoApprove | AuditApprove

definition heldRunDecisionAction :: "approval_decision \<Rightarrow> bool \<Rightarrow> audit_action" where
  "heldRunDecisionAction d autoApprove =
     (if d = DecReject then AuditReject else if autoApprove then AuditAutoApprove else AuditApprove)"

section \<open>The consequence of a decision\<close>

datatype hold_outcome = OutApproved | OutRejected | OutExpired

datatype consequence_call =
    SettleCheck hold_outcome "string option" "string option"
  | Resume resume_path
  | NotifyStepReject string "string option"
  | WorkflowReject "string option"

text \<open>
  The handlers of a decision: which are there, whether the settler or a resume throws, and what
  \<open>onWorkflowReject\<close> answers (\<open>None\<close> when it throws).
\<close>

record handlers =
  hd_settle :: bool
  hd_step :: bool
  hd_workflow :: bool
  hd_stepReject :: bool
  hd_workflowReject :: bool
  hd_workflowRejectAnswer :: "bool option"
  hd_settleThrows :: bool
  hd_stepRejectThrows :: bool
  hd_resumeThrows :: bool

definition settle_call ::
  "handlers \<Rightarrow> hold_outcome \<Rightarrow> string option \<Rightarrow> string option \<Rightarrow> consequence_call list \<times> bool" where
  "settle_call h out actor reason =
     (if hd_settle h then ([SettleCheck out actor reason], \<not> hd_settleThrows h) else ([], True))"

definition approveConsequence :: "handlers \<Rightarrow> release_signal \<Rightarrow> string \<Rightarrow> consequence_call list \<times> bool" where
  "approveConsequence h sig actor =
     (let (calls, ok) = settle_call h OutApproved (Some actor) None
      in if \<not> ok then (calls, False)
         else case routeRelease sig (hd_step h) (hd_workflow h) of
                None \<Rightarrow> (calls, True)
              | Some path \<Rightarrow> (calls @ [Resume path], \<not> hd_resumeThrows h))"

definition rejectConsequence :: "handlers \<Rightarrow> held_run \<Rightarrow> apply_args \<Rightarrow> consequence_call list \<times> bool" where
  "rejectConsequence h hold a =
     (let delegated = (hr_hold_scope hold = ScopeWorkflow \<and> hd_workflowReject h);
          first = (if hr_hold_scope hold = ScopeStep \<and> hd_stepReject h
                   then [NotifyStepReject (ag_heldRunId a) (ag_reason a)]
                   else if delegated then [WorkflowReject (ag_reason a)] else []);
          stepFailed = (hr_hold_scope hold = ScopeStep \<and> hd_stepReject h \<and> hd_stepRejectThrows h);
          written = (delegated \<and> hd_workflowRejectAnswer h = Some True)
      in if stepFailed then (first, False)
         else if written then (first, True)
         else let (calls, ok) = settle_call h OutRejected (if delegated then None else Some (ag_actorSub a)) (ag_reason a)
           in (first @ calls, ok))"

section \<open>Lemmas on clauses\<close>

lemma clauseSatisfiedBy_iff:
  "(\<exists>y. clauseSatisfiedBy c ds lookup = Some y) \<longleftrightarrow> isClauseSatisfied c ds lookup"
  by (cases "find (satisfies c lookup) ds")
    (auto simp: clauseSatisfiedBy_def isClauseSatisfied_def list_ex_iff find_None_iff find_Some_iff)

lemma perClause_eq:
  "aq_clauses req \<noteq> [] \<Longrightarrow> ev_perClause (evaluate req ds lookup) =
     map (\<lambda>c. \<lparr>pc_clause = c, pc_satisfied = isClauseSatisfied c ds lookup,
                pc_by = clauseSatisfiedBy c ds lookup\<rparr>) (aq_clauses req)"
  by (simp add: evaluate_def Let_def clauseSatisfiedBy_iff)

lemma satisfied_iff:
  "ev_satisfied (evaluate req ds lookup) \<longleftrightarrow>
     \<not> list_ex (\<lambda>d. rc_decision d = DecReject) ds \<and>
     (if aq_clauses req = [] then list_ex (\<lambda>d. rc_decision d = DecApprove) ds
      else list_all (\<lambda>c. isClauseSatisfied c ds lookup) (aq_clauses req))"
  by (auto simp: evaluate_def Let_def clauseSatisfiedBy_iff list_all_iff)

lemma canApprove_iff:
  "canApprove actor req ds lookup ctx \<longleftrightarrow>
     (ca_allowSelfApproval ctx \<or> actor \<noteq> ca_triggererSub ctx) \<and>
     (aq_clauses req = [] \<or> (\<exists>c \<in> set (aq_clauses req). \<not> isClauseSatisfied c ds lookup \<and>
        isActorEligibleForClause actor c lookup))"
  by (cases "aq_clauses req = []") (auto simp: canApprove_def perClause_eq list_ex_iff)

definition unsatisfied :: "approval_requirement \<Rightarrow> recorded_decision list \<Rightarrow> lookup \<Rightarrow> nat" where
  "unsatisfied req ds lookup = length (filter (\<lambda>c. \<not> isClauseSatisfied c ds lookup) (aq_clauses req))"

lemma remaining_eq:
  "aq_clauses req \<noteq> [] \<Longrightarrow>
    length (filter (\<lambda>c. \<not> pc_satisfied c) (ev_perClause (evaluate req ds lookup))) = unsatisfied req ds lookup"
  by (simp add: perClause_eq unsatisfied_def filter_map comp_def)

lemma isClauseSatisfied_mono:
  "isClauseSatisfied c ds lookup \<Longrightarrow> set ds \<subseteq> set ds' \<Longrightarrow> isClauseSatisfied c ds' lookup"
  by (auto simp: isClauseSatisfied_def list_ex_iff)

lemma satisfied_prospective:
  "isClauseSatisfied c (prospective actor ds) lookup \<longleftrightarrow>
     isClauseSatisfied c ds lookup \<or> isActorEligibleForClause actor c lookup"
  by (auto simp: isClauseSatisfied_def prospective_def satisfies_def)

lemma length_filter_less:
  "(\<And>x. x \<in> set xs \<Longrightarrow> P x \<Longrightarrow> Q x) \<Longrightarrow> x \<in> set xs \<Longrightarrow> Q x \<Longrightarrow> \<not> P x \<Longrightarrow>
    length (filter P xs) < length (filter Q xs)"
proof (induction xs)
  case (Cons y ys)
  have "filter P ys = filter P (filter Q ys)"
    using Cons.prems(1) by (auto intro: filter_cong)
  then have le: "length (filter P ys) \<le> length (filter Q ys)"
    by (metis length_filter_le)
  show ?case
  proof (cases "x = y")
    case True
    with Cons.prems(3,4) le show ?thesis by simp
  next
    case False
    with Cons.prems have "length (filter P ys) < length (filter Q ys)"
      by (intro Cons.IH) auto
    with Cons.prems(1) show ?thesis by auto
  qed
qed simp

lemma progress_lemma:
  assumes "canApprove actor req ds lookup ctx" "aq_clauses req \<noteq> []"
  shows "unsatisfied req (prospective actor ds) lookup < unsatisfied req ds lookup"
proof -
  obtain c where "c \<in> set (aq_clauses req)" "\<not> isClauseSatisfied c ds lookup"
    "isActorEligibleForClause actor c lookup"
    using assms by (auto simp: canApprove_iff)
  then show ?thesis
    unfolding unsatisfied_def
    by (intro length_filter_less [of _ _ _ c]) (auto simp: satisfied_prospective)
qed

section \<open>Progress and deadlock\<close>

text \<open>
  Every admitted approve satisfies a clause that was open, so a hold needs at most as many
  approvals as it has clauses; once all are satisfied nobody can approve any more.
\<close>

theorem approve_makes_progress:
  assumes "aq_clauses req \<noteq> []" "canApprove actor req ds lookup ctx"
  shows "unsatisfied req (prospective actor ds) lookup < unsatisfied req ds lookup \<and>
    unsatisfied req ds lookup \<le> length (aq_clauses req) \<and>
    (unsatisfied req (prospective actor ds) lookup = 0 \<longrightarrow>
       (\<forall>b ctx'. \<not> canApprove b req (prospective actor ds) lookup ctx'))"
proof (intro conjI impI allI)
  show "unsatisfied req (prospective actor ds) lookup < unsatisfied req ds lookup"
    by (rule progress_lemma [OF assms(2,1)])
  show "unsatisfied req ds lookup \<le> length (aq_clauses req)"
    by (simp add: unsatisfied_def)
  fix b ctx'
  assume "unsatisfied req (prospective actor ds) lookup = 0"
  then show "\<not> canApprove b req (prospective actor ds) lookup ctx'"
    using assms(1) by (auto simp: unsatisfied_def canApprove_iff filter_empty_conv)
qed

definition two_clauses :: approval_requirement where
  "two_clauses = \<lparr>aq_clauses = [UserClause ''ann'', UserClause ''bob''], aq_expiresAt = 100, aq_reason = ''deploy''\<rparr>"

lemma approve_makes_progress_witness:
  "canApprove ''ann'' two_clauses [] (\<lambda>_. {}) \<lparr>ca_triggererSub = ''cat'', ca_allowSelfApproval = False\<rparr> \<and>
   unsatisfied two_clauses (prospective ''ann'' []) (\<lambda>_. {}) < unsatisfied two_clauses [] (\<lambda>_. {})"
proof -
  have c: "canApprove ''ann'' two_clauses [] (\<lambda>_. {}) \<lparr>ca_triggererSub = ''cat'', ca_allowSelfApproval = False\<rparr>"
    by (simp add: canApprove_iff two_clauses_def isClauseSatisfied_def)
  have "aq_clauses two_clauses \<noteq> []" by (simp add: two_clauses_def)
  from approve_makes_progress [OF this c] c show ?thesis by blast
qed

section \<open>Many deciders at once\<close>

text \<open>
  The tables, and the calls of the applier that have read and not yet written. Reads, writes and
  the other operations of the store interleave freely: holds are created, swept, answered by
  comment (which records who) and queued holds released.
\<close>

inductive other_step :: "held_db \<Rightarrow> held_db \<Rightarrow> bool" where
  ot_create: "hid \<notin> hr_id ` set (held_runs db) \<Longrightarrow> other_step db (snd (create hid now orgId d db))"
| ot_createHold: "hid \<notin> hr_id ` set (held_runs db) \<Longrightarrow> other_step db (snd (createHold hid now orgId e db))"
| ot_mark: "other_step db (markPendingCheckPosted orgId ids db)"
| ot_due: "other_step db (snd (releaseDueWaitHolds now db))"
| ot_expire: "other_step db (snd (expireOverdue now db))"
| ot_runs: "other_step db (db\<lparr>execution_runs := rs, execution_jobs := js\<rparr>)"
| ot_approveBy: "approveByQueueType now orgId hid who q db = Inr (row, db') \<Longrightarrow> other_step db db'"
| ot_reject: "reject now orgId hid reason db = Inr (row, db') \<Longrightarrow> other_step db db'"
| ot_release: "release_hold now orgId hid db = Inr (sig, db') \<Longrightarrow>
     \<forall>h \<in> set (held_runs db). hr_id h = hid \<longrightarrow> hr_hold_type h = HOLD_TYPE_CONCURRENCY \<Longrightarrow> other_step db db'"

type_synonym appliers = "held_db \<times> (apply_args \<times> plan) list"

inductive applier_step :: "apply_deps \<Rightarrow> appliers \<Rightarrow> appliers \<Rightarrow> bool" for deps where
  ap_read: "applier_step deps (db, ps) (db, (a, decide deps now a db) # ps)"
| ap_write: "(a, p) \<in> set ps \<Longrightarrow> commit deps now a p db = Inr (r, db') \<Longrightarrow>
    applier_step deps (db, ps) (db', remove1 (a, p) ps)"
| ap_throw: "(a, p) \<in> set ps \<Longrightarrow> commit deps now a p db = Inl e \<Longrightarrow>
    applier_step deps (db, ps) (db, remove1 (a, p) ps)"
| ap_other: "other_step db db' \<Longrightarrow> applier_step deps (db, ps) (db', ps)"

definition clauses_of :: "held_run \<Rightarrow> approver_clause list" where
  "clauses_of h = aq_clauses (normalizeRequirement 0 (hr_approval_requirement h))"

definition self_ok :: "apply_deps \<Rightarrow> held_run \<Rightarrow> string \<Rightarrow> bool" where
  "self_ok deps h actor \<longleftrightarrow> dp_allowSelfApproval deps \<or>
     actor \<noteq> (case dp_triggererSub deps (hr_run_id h) of None \<Rightarrow> '''' | Some s \<Rightarrow> s)"

text \<open>The users of the approve rows of a hold, and when they cover its requirement.\<close>

definition approvers :: "held_db \<Rightarrow> string \<Rightarrow> string set" where
  "approvers db hid = {ap_approver_user_id r |r. r \<in> set (held_run_approvals db) \<and>
     ap_held_run_id r = hid \<and> ap_decision r = DecApprove}"

definition covered :: "apply_deps \<Rightarrow> held_run \<Rightarrow> string set \<Rightarrow> bool" where
  "covered deps h A \<longleftrightarrow> A \<noteq> {} \<and>
     (\<forall>c \<in> set (clauses_of h). \<exists>x \<in> A. isActorEligibleForClause x c (dp_lookup deps))"

definition rows_ok :: "apply_deps \<Rightarrow> held_db \<Rightarrow> bool" where
  "rows_ok deps db \<longleftrightarrow> (\<forall>r \<in> set (held_run_approvals db). \<forall>h \<in> set (held_runs db).
     ap_held_run_id r = hr_id h \<longrightarrow>
       (ap_decision r = DecApprove \<longrightarrow> self_ok deps h (ap_approver_user_id r)) \<and>
       (ap_decision r = DecReject \<longrightarrow> hr_status h = HRejected))"

definition by_applier :: "held_run \<Rightarrow> bool" where
  "by_applier h \<longleftrightarrow> hr_status h = HApproved \<and> hr_approved_by h = None \<and> hr_hold_type h \<noteq> HOLD_TYPE_CONCURRENCY"

fun plan_ok :: "apply_deps \<Rightarrow> held_db \<Rightarrow> apply_args \<times> plan \<Rightarrow> bool" where
  "plan_ok deps db (a, PlanRelease h0 mine) =
     (ag_heldRunId a \<in> hr_id ` set (held_runs db) \<and>
      (\<forall>h \<in> set (held_runs db). hr_id h = ag_heldRunId a \<longrightarrow>
         self_ok deps h (ag_actorSub a) \<and> covered deps h (insert (ag_actorSub a) (approvers db (hr_id h)))))"
| "plan_ok deps db (a, PlanRecord h0 mine n) =
     (ag_heldRunId a \<in> hr_id ` set (held_runs db) \<and>
      (\<forall>h \<in> set (held_runs db). hr_id h = ag_heldRunId a \<longrightarrow> self_ok deps h (ag_actorSub a)))"
| "plan_ok deps db (a, _) = True"

definition applier_inv :: "apply_deps \<Rightarrow> appliers \<Rightarrow> bool" where
  "applier_inv deps s \<longleftrightarrow> held_ok (fst s) \<and> rows_ok deps (fst s) \<and>
     (\<forall>h \<in> set (held_runs (fst s)). by_applier h \<longrightarrow> covered deps h (approvers (fst s) (hr_id h))) \<and>
     (\<forall>x \<in> set (snd s). plan_ok deps (fst s) x)"

lemma other_step_held: "other_step db db' \<Longrightarrow> held_step db db'"
  by (induction rule: other_step.induct) (auto intro: held_step.intros)

lemma other_step_approvals: "other_step db db' \<Longrightarrow> held_run_approvals db' = held_run_approvals db"
  by (induction rule: other_step.induct)
    (auto simp: create_def createHold_def markPendingCheckPosted_def releaseDueWaitHolds_def expireOverdue_def
      store_defs or_throw_Inr flipToRejected_def flipToApproved_def Let_def
      dest!: update_returning_eq split: sum.splits)

lemma hold_le_stable:
  assumes "hold_le h h'"
  shows "clauses_of h' = clauses_of h" "self_ok deps h' x = self_ok deps h x"
    "covered deps h' A = covered deps h A" "hr_id h' = hr_id h"
  using assms by (simp_all add: hold_le_def clauses_of_def self_ok_def covered_def)

lemma covered_mono: "covered deps h A \<Longrightarrow> A \<subseteq> B \<Longrightarrow> covered deps h B"
  unfolding covered_def by blast

lemma approvers_mono: "db_le db db' \<Longrightarrow> approvers db hid \<subseteq> approvers db' hid"
  by (auto simp: approvers_def db_le_def prefix_def)

lemma db_le_back:
  assumes "db_le db db'" "held_ok db'" "h' \<in> set (held_runs db')"
  shows "(\<exists>h \<in> set (held_runs db). hold_le h h') \<or> hr_id h' \<notin> hr_id ` set (held_runs db)"
proof -
  obtain ys zs where y: "held_runs db' = ys @ zs" "list_all2 hold_le (held_runs db) ys"
    using assms(1) by (auto simp: db_le_def)
  have ids: "hr_id ` set ys = hr_id ` set (held_runs db)"
    using y(2) by (induction rule: list_all2_induct) (auto simp: hold_le_def)
  show ?thesis
  proof (cases "h' \<in> set ys")
    case True
    then obtain i where "i < length ys" "ys ! i = h'" by (auto simp: in_set_conv_nth)
    with y(2) have "hold_le (held_runs db ! i) h'" "held_runs db ! i \<in> set (held_runs db)"
      by (auto simp: list_all2_conv_all_nth)
    then show ?thesis by blast
  next
    case False
    with assms(2,3) y(1) ids show ?thesis by (auto simp: held_ok_def)
  qed
qed

lemma plan_ok_le:
  assumes "plan_ok deps db x" "db_le db db'" "held_ok db'"
  shows "plan_ok deps db' x"
proof -
  have ids: "hr_id ` set (held_runs db) \<subseteq> hr_id ` set (held_runs db')"
  proof
    fix i
    assume "i \<in> hr_id ` set (held_runs db)"
    then obtain h where "h \<in> set (held_runs db)" "i = hr_id h" by blast
    moreover from this obtain h' where "h' \<in> set (held_runs db')" "hold_le h h'"
      using db_le_hold [OF assms(2)] by blast
    ultimately show "i \<in> hr_id ` set (held_runs db')" by (intro image_eqI [of _ _ h']) (simp_all add: hold_le_def)
  qed
  have older: "\<exists>h \<in> set (held_runs db). hold_le h h'"
    if "h' \<in> set (held_runs db')" "hr_id h' \<in> hr_id ` set (held_runs db)" for h'
    using db_le_back [OF assms(2,3) that(1)] that(2) by blast
  obtain a p where x: "x = (a, p)" by (cases x)
  show ?thesis
  proof (cases p)
    case (PlanRelease h0 mine)
    have "self_ok deps h' (ag_actorSub a) \<and> covered deps h' (insert (ag_actorSub a) (approvers db' (hr_id h')))"
      if h': "h' \<in> set (held_runs db')" "hr_id h' = ag_heldRunId a" for h'
    proof -
      obtain h where h: "h \<in> set (held_runs db)" "hold_le h h'"
        using older [OF h'(1)] h'(2) assms(1) x PlanRelease by auto
      with assms(1) x PlanRelease h'(2) have "self_ok deps h (ag_actorSub a)"
        "covered deps h (insert (ag_actorSub a) (approvers db (hr_id h)))"
        by (auto simp: hold_le_stable(4))
      then show ?thesis
        using hold_le_stable [OF h(2)] covered_mono insert_mono [OF approvers_mono [OF assms(2)]] by metis
    qed
    with assms(1) ids x PlanRelease show ?thesis by auto
  next
    case (PlanRecord h0 mine n)
    have "self_ok deps h' (ag_actorSub a)" if h': "h' \<in> set (held_runs db')" "hr_id h' = ag_heldRunId a" for h'
    proof -
      obtain h where h: "h \<in> set (held_runs db)" "hold_le h h'"
        using older [OF h'(1)] h'(2) assms(1) x PlanRecord by auto
      with assms(1) x PlanRecord h'(2) show ?thesis by (auto simp: hold_le_stable)
    qed
    with assms(1) ids x PlanRecord show ?thesis by auto
  qed (simp_all add: x)
qed

lemma update_by_applier:
  assumes "db' = db\<lparr>held_runs := update_where P f (held_runs db)\<rparr>"
    and "h' \<in> set (held_runs db')" "by_applier h'"
    and "\<And>h. h \<in> set (held_runs db) \<Longrightarrow> P h \<Longrightarrow> \<not> by_applier (f h)"
  shows "\<exists>h \<in> set (held_runs db). hold_le h h' \<and> by_applier h"
  using assms by (auto simp: set_update_where intro: hold_le_refl split: if_splits)

lemma not_by_applier:
  "hr_status h \<noteq> HApproved \<Longrightarrow> \<not> by_applier h"
  "hr_approved_by h \<noteq> None \<Longrightarrow> \<not> by_applier h"
  "hr_hold_type h = HOLD_TYPE_CONCURRENCY \<Longrightarrow> \<not> by_applier h"
  by (simp_all add: by_applier_def)

lemma same_hold: "h' \<in> set hs \<Longrightarrow> by_applier h' \<Longrightarrow> \<exists>h \<in> set hs. hold_le h h' \<and> by_applier h"
  by (auto intro: hold_le_refl)

lemma other_step_by_applier:
  assumes "other_step db db'" "h' \<in> set (held_runs db')" "by_applier h'"
  shows "\<exists>h \<in> set (held_runs db). hold_le h h' \<and> by_applier h"
  using assms(1)
proof cases
  case (ot_create hid now orgId d)
  with assms(2,3) have "h' \<in> set (held_runs db)" by (auto simp: create_def Let_def by_applier_def)
  then show ?thesis by (rule same_hold) fact
next
  case (ot_createHold hid now orgId e)
  with assms(2,3) have "h' \<in> set (held_runs db)" by (auto simp: createHold_def Let_def by_applier_def)
  then show ?thesis by (rule same_hold) fact
next
  case (ot_mark orgId ids)
  with assms(2,3) show ?thesis
    by (auto simp: markPendingCheckPosted_def set_update_where by_applier_def hold_le_def split: if_splits)
next
  case (ot_due now)
  note e = ot_due [unfolded releaseDueWaitHolds_def Let_def snd_conv]
  show ?thesis by (rule update_by_applier [OF e assms(2,3)]) (simp add: not_by_applier)
next
  case (ot_expire now)
  note e = ot_expire [unfolded expireOverdue_def snd_conv]
  show ?thesis by (rule update_by_applier [OF e assms(2,3)]) (simp add: not_by_applier)
next
  case (ot_runs rs js)
  with assms(2) have "h' \<in> set (held_runs db)" by simp
  then show ?thesis by (rule same_hold) fact
next
  case (ot_approveBy now orgId hid who q row)
  note e = update_returning_eq [OF ot_approveBy [unfolded approveByQueueType_def or_throw_Inr]]
  show ?thesis by (rule update_by_applier [OF e assms(2,3)]) (simp add: not_by_applier)
next
  case (ot_reject now orgId hid reason row)
  note e = update_returning_eq [OF ot_reject [unfolded reject_def or_throw_Inr flipToRejected_def]]
  show ?thesis by (rule update_by_applier [OF e assms(2,3)]) (simp add: not_by_applier)
next
  case (ot_release now orgId hid sig)
  then obtain row where r: "flipToApproved now orgId hid db = (Some row, db')"
    by (auto simp: release_hold_def or_throw_Inr split: sum.splits)
  note e = update_returning_eq [OF r [unfolded flipToApproved_def]]
  show ?thesis
    by (rule update_by_applier [OF e assms(2,3)]) (use ot_release(2) in \<open>simp add: not_by_applier pending_of_def\<close>)
qed

lemma rows_ok_le:
  assumes "rows_ok deps db" "held_ok db" "db_le db db'" "held_ok db'"
    and "held_run_approvals db' = held_run_approvals db @ as"
    and "\<And>a h. a \<in> set as \<Longrightarrow> h \<in> set (held_runs db') \<Longrightarrow> ap_held_run_id a = hr_id h \<Longrightarrow>
      (ap_decision a = DecApprove \<longrightarrow> self_ok deps h (ap_approver_user_id a)) \<and>
      (ap_decision a = DecReject \<longrightarrow> hr_status h = HRejected)"
  shows "rows_ok deps db'"
  unfolding rows_ok_def
proof (intro ballI impI)
  fix r h'
  assume r: "r \<in> set (held_run_approvals db')" and h': "h' \<in> set (held_runs db')"
    and id: "ap_held_run_id r = hr_id h'"
  show "(ap_decision r = DecApprove \<longrightarrow> self_ok deps h' (ap_approver_user_id r)) \<and>
      (ap_decision r = DecReject \<longrightarrow> hr_status h' = HRejected)"
  proof (cases "r \<in> set as")
    case True
    then show ?thesis using assms(6) h' id by blast
  next
    case False
    then have old: "r \<in> set (held_run_approvals db)" using r assms(5) by auto
    then have "ap_held_run_id r \<in> hr_id ` set (held_runs db)"
      using assms(2) unfolding held_ok_def by blast
    then have "hr_id h' \<in> hr_id ` set (held_runs db)" by (simp only: id)
    then obtain h where h: "h \<in> set (held_runs db)" "hold_le h h'"
      using db_le_back [OF assms(3,4) h'] by blast
    have "ap_held_run_id r = hr_id h" using id hold_le_stable(4) [OF h(2)] by simp
    with assms(1) old h(1) have
      "(ap_decision r = DecApprove \<longrightarrow> self_ok deps h (ap_approver_user_id r)) \<and>
       (ap_decision r = DecReject \<longrightarrow> hr_status h = HRejected)"
      by (simp add: rows_ok_def)
    with hold_le_stable(2) [OF h(2)] h(2) show ?thesis by (auto simp: hold_le_def)
  qed
qed

lemma rows_ok_row:
  assumes "rows_ok deps db" "held_ok db" "db_le db db'" "held_ok db'"
    and "held_run_approvals db' = held_run_approvals db @ [row]"
    and "\<And>h. h \<in> set (held_runs db') \<Longrightarrow> hr_id h = ap_held_run_id row \<Longrightarrow>
      (ap_decision row = DecApprove \<longrightarrow> self_ok deps h (ap_approver_user_id row)) \<and>
      (ap_decision row = DecReject \<longrightarrow> hr_status h = HRejected)"
  shows "rows_ok deps db'"
proof (rule rows_ok_le [OF assms(1-5)])
  fix x h
  assume "x \<in> set [row]" "h \<in> set (held_runs db')" "ap_held_run_id x = hr_id h"
  then show "(ap_decision x = DecApprove \<longrightarrow> self_ok deps h (ap_approver_user_id x)) \<and>
      (ap_decision x = DecReject \<longrightarrow> hr_status h = HRejected)"
    using assms(6) [of h] by simp
qed

definition covered_all :: "apply_deps \<Rightarrow> held_db \<Rightarrow> bool" where
  "covered_all deps db \<longleftrightarrow>
     (\<forall>h \<in> set (held_runs db). by_applier h \<longrightarrow> covered deps h (approvers db (hr_id h)))"

lemma covered_all_le:
  assumes "covered_all deps db" "db_le db db'"
    and "\<And>h'. h' \<in> set (held_runs db') \<Longrightarrow> by_applier h' \<Longrightarrow>
      (\<exists>h \<in> set (held_runs db). hold_le h h' \<and> by_applier h) \<or> covered deps h' (approvers db' (hr_id h'))"
  shows "covered_all deps db'"
  unfolding covered_all_def
proof (intro ballI impI)
  fix h' assume h': "h' \<in> set (held_runs db')" "by_applier h'"
  from assms(3) [OF this] show "covered deps h' (approvers db' (hr_id h'))"
  proof
    assume "\<exists>h \<in> set (held_runs db). hold_le h h' \<and> by_applier h"
    then obtain h where h: "h \<in> set (held_runs db)" "hold_le h h'" "by_applier h" by blast
    then have "covered deps h (approvers db (hr_id h))" using assms(1) by (simp add: covered_all_def)
    then show ?thesis
      using hold_le_stable(3,4) [OF h(2)] covered_mono approvers_mono [OF assms(2)] by metis
  qed
qed

lemma applier_inv_alt:
  "applier_inv deps (db, ps) \<longleftrightarrow> held_ok db \<and> rows_ok deps db \<and> covered_all deps db \<and> (\<forall>x \<in> set ps. plan_ok deps db x)"
  by (simp add: applier_inv_def covered_all_def)

lemma aq_normalize: "aq_clauses (normalizeRequirement now r) = aq_clauses (normalizeRequirement 0 r)"
  by (simp add: normalizeRequirement_def split: option.split)

lemma set_toRecorded:
  "d \<in> set (toRecorded (listDecisions hid db)) \<longleftrightarrow>
    (\<exists>r \<in> set (held_run_approvals db). ap_held_run_id r = hid \<and>
       d = \<lparr>rc_approver = ap_approver_user_id r, rc_decision = ap_decision r\<rparr>)"
  by (auto simp: toRecorded_def listDecisions_def)

lemma decide_Some:
  assumes "decide deps now a db = p" "p \<noteq> PlanNotFound"
  obtains hold where "getById (dp_orgId deps) (ag_heldRunId a) db = Some hold" "hold \<in> set (held_runs db)"
    "hr_id hold = ag_heldRunId a" "hr_org_id hold = dp_orgId deps" "hr_status hold = HPending"
proof -
  obtain hold where "getById (dp_orgId deps) (ag_heldRunId a) db = Some hold" "hr_status hold = HPending"
    using assms by (auto simp: decide_def split: option.splits if_splits)
  moreover from this have "hold \<in> set (held_runs db)" "hr_id hold = ag_heldRunId a" "hr_org_id hold = dp_orgId deps"
    by (auto simp: getById_def find_Some_iff)
  ultimately show thesis using that by blast
qed

lemma plan_ok_decide:
  assumes ok: "held_ok db"
  shows "plan_ok deps db (a, decide deps now a db)"
proof -
  define p where "p = decide deps now a db"
  have main: "(\<forall>h \<in> set (held_runs db). hr_id h = ag_heldRunId a \<longrightarrow> self_ok deps h (ag_actorSub a)) \<and>
      ag_heldRunId a \<in> hr_id ` set (held_runs db)" if ne: "p \<noteq> PlanNotFound" "p \<noteq> PlanIneligible" "\<forall>h. p \<noteq> PlanReject h"
  proof -
    obtain hold where h: "getById (dp_orgId deps) (ag_heldRunId a) db = Some hold" "hold \<in> set (held_runs db)"
      "hr_id hold = ag_heldRunId a" "hr_status hold = HPending"
      using decide_Some [OF p_def [symmetric] ne(1)] by metis
    have "self_ok deps hold (ag_actorSub a)"
    proof (rule ccontr)
      assume "\<not> self_ok deps hold (ag_actorSub a)"
      then have "p = PlanIneligible \<or> p = PlanReject hold"
        by (simp add: p_def decide_def Let_def canApprove_iff self_ok_def h(1,4))
      with ne show False by blast
    qed
    moreover have "h = hold" if "h \<in> set (held_runs db)" "hr_id h = ag_heldRunId a" for h
      using id_unique [OF ok that(1) h(2)] that(2) h(3) by simp
    moreover have "ag_heldRunId a \<in> hr_id ` set (held_runs db)"
      using imageI [OF h(2), of hr_id] h(3) by simp
    ultimately show ?thesis by blast
  qed
  show ?thesis
  proof (cases p)
    case (PlanRelease h0 mine)
    obtain hold where h: "getById (dp_orgId deps) (ag_heldRunId a) db = Some hold" "hold \<in> set (held_runs db)"
      "hr_id hold = ag_heldRunId a" "hr_status hold = HPending"
      using decide_Some [OF p_def [symmetric]] PlanRelease by (metis plan.distinct(7))
    define ds where "ds = toRecorded (listDecisions (ag_heldRunId a) db)"
    have sat: "ev_satisfied (evaluate (normalizeRequirement now (hr_approval_requirement hold))
        (prospective (ag_actorSub a) ds) (dp_lookup deps))"
      using PlanRelease h by (auto simp: p_def decide_def Let_def ds_def split: if_splits)
    have "covered deps hold (insert (ag_actorSub a) (approvers db (hr_id hold)))"
      unfolding covered_def
    proof (intro conjI ballI)
      fix c assume c: "c \<in> set (clauses_of hold)"
      then have "isClauseSatisfied c (prospective (ag_actorSub a) ds) (dp_lookup deps)"
        using sat by (auto simp: satisfied_iff clauses_of_def aq_normalize [of now] list_all_iff split: if_splits)
      then show "\<exists>x \<in> insert (ag_actorSub a) (approvers db (hr_id hold)). isActorEligibleForClause x c (dp_lookup deps)"
        unfolding isClauseSatisfied_def satisfies_def list_ex_iff approvers_def h(3) prospective_def ds_def
        by (fastforce simp: set_toRecorded)
    qed simp
    moreover have "h = hold" if "h \<in> set (held_runs db)" "hr_id h = ag_heldRunId a" for h
      using id_unique [OF ok that(1) h(2)] that(2) h(3) by simp
    ultimately have "\<forall>h \<in> set (held_runs db). hr_id h = ag_heldRunId a \<longrightarrow>
        covered deps h (insert (ag_actorSub a) (approvers db (hr_id h)))" by blast
    with main PlanRelease show ?thesis by (simp add: p_def [symmetric])
  next
    case (PlanRecord h0 mine n)
    with main show ?thesis by (simp add: p_def [symmetric])
  qed (simp_all add: p_def [symmetric])
qed

definition decision_row :: "held_db \<Rightarrow> held_db \<Rightarrow> apply_args \<Rightarrow> approval_decision \<Rightarrow> bool" where
  "decision_row db db' a d \<longleftrightarrow> (\<exists>r. held_run_approvals db' = held_run_approvals db @ [r] \<and>
     ap_held_run_id r = ag_heldRunId a \<and> ap_approver_user_id r = ag_actorSub a \<and> ap_decision r = d)"

text \<open>What a commit writes: nothing, or a row and, for a decisive plan, the outcome of the hold.\<close>

lemma commit_cases:
  assumes "commit deps now a p db = Inr (r, db')"
  obtains (nothing) "db' = db"
  | (reject) h0 where "p = PlanReject h0" "decision_row db db' a DecReject"
      "held_runs db' = update_where (pending_of (dp_orgId deps) (ag_heldRunId a))
         (\<lambda>h. h\<lparr>hr_status := HRejected, hr_resolved_at := Some now,
               hr_reason := (case ag_reason a of None \<Rightarrow> hr_reason h | Some r \<Rightarrow> Some r)\<rparr>) (held_runs db)"
      "\<exists>h \<in> set (held_runs db). pending_of (dp_orgId deps) (ag_heldRunId a) h"
  | (recorded) h0 mine n where "p = PlanRecord h0 mine n" "decision_row db db' a DecApprove" "held_runs db' = held_runs db"
  | (release) h0 mine where "p = PlanRelease h0 mine" "decision_row db db' a DecApprove"
      "held_runs db' = update_where (pending_of (dp_orgId deps) (ag_heldRunId a))
         (\<lambda>h. h\<lparr>hr_status := HApproved, hr_resolved_at := Some now\<rparr>) (held_runs db)"
proof (cases p)
  case (PlanReject h0)
  with assms obtain db1 row where 1: "insertDecisionRow now (ag_heldRunId a)
      \<lparr>rd_approverSub = ag_actorSub a, rd_decision = DecReject, rd_clausesSatisfied = None\<rparr> db = Inr db1"
    "flipToRejected now (dp_orgId deps) (ag_heldRunId a) (ag_reason a) db1 = (Some row, db')"
    by (auto simp: commit_def recordAndReject_def or_throw_Inr split: sum.splits)
  have "held_run_approvals db' = held_run_approvals db1"
    using 1(2) by (auto simp: flipToRejected_def dest!: update_returning_eq)
  with insertDecisionRow_le(4) [OF 1(1)] have "decision_row db db' a DecReject"
    by (auto simp: decision_row_def)
  moreover have "\<exists>h \<in> set (held_runs db). pending_of (dp_orgId deps) (ag_heldRunId a) h"
    using 1(2) insertDecisionRow_le(3) [OF 1(1)]
    by (auto simp: flipToRejected_def update_returning_def find_Some_iff)
  ultimately show ?thesis
    using 1(2) insertDecisionRow_le(3) [OF 1(1)] PlanReject
    by (intro reject) (auto simp: flipToRejected_def dest!: update_returning_eq)
next
  case (PlanRecord h0 mine n)
  with assms have 1: "insertDecisionRow now (ag_heldRunId a)
      \<lparr>rd_approverSub = ag_actorSub a, rd_decision = DecApprove, rd_clausesSatisfied = Some mine\<rparr> db = Inr db'"
    by (auto simp: commit_def recordDecision_def split: sum.splits)
  with insertDecisionRow_le(3,4) [OF 1] PlanRecord show ?thesis
    by (intro recorded) (auto simp: decision_row_def)
next
  case (PlanRelease h0 mine)
  with assms obtain db1 row where 1: "insertDecisionRow now (ag_heldRunId a)
      \<lparr>rd_approverSub = ag_actorSub a, rd_decision = DecApprove, rd_clausesSatisfied = Some mine\<rparr> db = Inr db1"
    "flipToApproved now (dp_orgId deps) (ag_heldRunId a) db1 = (Some row, db')"
    by (auto simp: commit_def recordAndRelease_def or_throw_Inr split: sum.splits)
  have "held_run_approvals db' = held_run_approvals db1"
    using 1(2) by (auto simp: flipToApproved_def dest!: update_returning_eq)
  with insertDecisionRow_le(4) [OF 1(1)] have "decision_row db db' a DecApprove"
    by (auto simp: decision_row_def)
  then show ?thesis
    using 1(2) insertDecisionRow_le(3) [OF 1(1)] PlanRelease
    by (intro release) (auto simp: flipToApproved_def dest!: update_returning_eq)
qed (use assms nothing in \<open>simp_all add: commit_def\<close>)

lemma commit_step: "commit deps now a p db = Inr (r, db') \<Longrightarrow> db' = db \<or> held_step db db'"
  by (cases p) (auto simp: commit_def split: sum.splits intro: held_step.intros)

lemma commit_inv:
  assumes inv: "applier_inv deps (db, ps)" and ap: "(a, p) \<in> set ps"
    and c: "commit deps now a p db = Inr (r, db')"
  shows "applier_inv deps (db', remove1 (a, p) ps)"
proof -
  have ok: "held_ok db" "rows_ok deps db" "covered_all deps db" "\<forall>x \<in> set ps. plan_ok deps db x"
    using inv by (simp_all add: applier_inv_alt)
  have le: "db_le db db'" "held_ok db'"
    using commit_step [OF c] step_le_ok [of db db'] ok(1) by auto
  have plans: "\<forall>x \<in> set (remove1 (a, p) ps). plan_ok deps db' x"
    using plan_ok_le [OF _ le] ok(4) set_remove1_subset [of "(a, p)" ps] by blast
  have p: "plan_ok deps db (a, p)" "plan_ok deps db' (a, p)"
    using ap ok(4) plan_ok_le [OF _ le] by blast+
  have rows: "rows_ok deps db'" and cov: "covered_all deps db'"
  proof -
    show "rows_ok deps db'"
      using c
    proof (cases rule: commit_cases)
      case nothing
      then show ?thesis using ok(2) by simp
    next
      case (reject h0)
      then obtain row where row: "held_run_approvals db' = held_run_approvals db @ [row]"
        "ap_held_run_id row = ag_heldRunId a" "ap_decision row = DecReject"
        by (auto simp: decision_row_def)
      obtain h where h: "h \<in> set (held_runs db)" "pending_of (dp_orgId deps) (ag_heldRunId a) h"
        using reject(4) by blast
      have "hr_status h' = HRejected" if h': "h' \<in> set (held_runs db')" "hr_id h' = ag_heldRunId a" for h'
      proof -
        obtain x where x: "x \<in> set (held_runs db)" "hold_le x h'"
          "h' = (if pending_of (dp_orgId deps) (ag_heldRunId a) x then
              x\<lparr>hr_status := HRejected, hr_resolved_at := Some now,
               hr_reason := (case ag_reason a of None \<Rightarrow> hr_reason x | Some r \<Rightarrow> Some r)\<rparr> else x)"
          using h'(1) unfolding reject(3) set_update_where by (auto simp: hold_le_def pending_of_def)
        have "x = h"
        proof (rule id_unique [OF ok(1) x(1) h(1)])
          show "hr_id x = hr_id h"
            using hold_le_stable(4) [OF x(2)] h'(2) h(2) unfolding pending_of_def by metis
        qed
        show ?thesis unfolding x(3) \<open>x = h\<close> using h(2) by simp
      qed
      note rejected = this
      show ?thesis
        by (rule rows_ok_row [OF ok(2,1) le row(1)]) (simp add: row rejected)
    next
      case (recorded h0 mine n)
      then obtain row where row: "held_run_approvals db' = held_run_approvals db @ [row]"
        "ap_held_run_id row = ag_heldRunId a" "ap_approver_user_id row = ag_actorSub a" "ap_decision row = DecApprove"
        by (auto simp: decision_row_def)
      show ?thesis
        by (rule rows_ok_row [OF ok(2,1) le row(1)]) (use p(2) recorded(1) in \<open>simp add: row\<close>)
    next
      case (release h0 mine)
      then obtain row where row: "held_run_approvals db' = held_run_approvals db @ [row]"
        "ap_held_run_id row = ag_heldRunId a" "ap_approver_user_id row = ag_actorSub a" "ap_decision row = DecApprove"
        by (auto simp: decision_row_def)
      show ?thesis
        by (rule rows_ok_row [OF ok(2,1) le row(1)]) (use p(2) release(1) in \<open>simp add: row\<close>)
    qed
    show "covered_all deps db'"
      using c
    proof (cases rule: commit_cases)
      case nothing
      then show ?thesis using ok(3) by simp
    next
      case (reject h0)
      show ?thesis
      proof (rule covered_all_le [OF ok(3) le(1)], rule disjI1)
        fix h' assume h': "h' \<in> set (held_runs db')" "by_applier h'"
        have "h' \<in> set (held_runs db)"
          using h' unfolding reject(3) set_update_where by (auto simp: by_applier_def split: if_splits)
        then show "\<exists>h \<in> set (held_runs db). hold_le h h' \<and> by_applier h"
          by (rule same_hold) (rule h'(2))
      qed
    next
      case (recorded h0 mine n)
      then show ?thesis
        by (intro covered_all_le [OF ok(3) le(1)] disjI1) (simp add: same_hold)
    next
      case (release h0 mine)
      show ?thesis
      proof (rule covered_all_le [OF ok(3) le(1)])
        fix h' assume h': "h' \<in> set (held_runs db')" "by_applier h'"
        show "(\<exists>h \<in> set (held_runs db). hold_le h h' \<and> by_applier h) \<or> covered deps h' (approvers db' (hr_id h'))"
        proof (cases "h' \<in> set (held_runs db)")
          case True
          from same_hold [OF this h'(2)] show ?thesis by blast
        next
          case False
          then have id: "hr_id h' = ag_heldRunId a"
            using h'(1) unfolding release(3) set_update_where by (auto simp: pending_of_def split: if_splits)
          obtain row where "held_run_approvals db' = held_run_approvals db @ [row]"
            "ap_held_run_id row = ag_heldRunId a" "ap_approver_user_id row = ag_actorSub a" "ap_decision row = DecApprove"
            using release(2) by (auto simp: decision_row_def)
          with id have "ag_actorSub a \<in> approvers db' (hr_id h')"
            unfolding approvers_def by (intro CollectI exI [of _ row]) simp
          moreover have "covered deps h' (insert (ag_actorSub a) (approvers db' (hr_id h')))"
            using p(2) release(1) h'(1) id by simp
          ultimately show ?thesis by (simp add: insert_absorb)
        qed
      qed
    qed
  qed
  with le(2) plans show ?thesis by (simp add: applier_inv_alt)
qed

lemma other_inv:
  assumes "applier_inv deps (db, ps)" "other_step db db'"
  shows "applier_inv deps (db', ps)"
proof -
  have ok: "held_ok db" "rows_ok deps db" "covered_all deps db" "\<forall>x \<in> set ps. plan_ok deps db x"
    using assms(1) by (simp_all add: applier_inv_alt)
  have le: "db_le db db'" "held_ok db'"
    using step_le_ok [OF other_step_held [OF assms(2)]] ok(1) by auto
  have "rows_ok deps db'"
    by (rule rows_ok_le [OF ok(2,1) le, where as = "[]"]) (simp_all add: other_step_approvals [OF assms(2)])
  moreover have "covered_all deps db'"
    using other_step_by_applier [OF assms(2)] by (intro covered_all_le [OF ok(3) le(1)] disjI1)
  moreover have "\<forall>x \<in> set ps. plan_ok deps db' x"
    using ok(4) plan_ok_le [OF _ le] by blast
  ultimately show ?thesis using le(2) by (simp add: applier_inv_alt)
qed

definition no_holds :: "appliers \<Rightarrow> bool" where
  "no_holds s \<longleftrightarrow> held_runs (fst s) = [] \<and> held_run_approvals (fst s) = [] \<and> snd s = []"

interpretation appliers: inductive_invariant no_holds "applier_step deps" "applier_inv deps" for deps
proof
  show "no_holds s \<Longrightarrow> applier_inv deps s" for s
    by (auto simp: no_holds_def applier_inv_def held_ok_def rows_ok_def)
next
  fix s t assume "applier_inv deps s" "applier_step deps s t"
  from this(2,1) show "applier_inv deps t"
  proof cases
    case (ap_read db ps a now)
    with \<open>applier_inv deps s\<close> show ?thesis by (simp add: applier_inv_alt plan_ok_decide)
  next
    case (ap_write a p ps now db r db')
    with \<open>applier_inv deps s\<close> show ?thesis by (simp add: commit_inv)
  next
    case (ap_throw a p ps now db e)
    with \<open>applier_inv deps s\<close> set_remove1_subset [of "(a, p)" ps] show ?thesis
      by (auto simp: applier_inv_alt)
  next
    case (ap_other db db' ps)
    with \<open>applier_inv deps s\<close> show ?thesis by (simp add: other_inv)
  qed
qed

text \<open>
  C22. However reads, writes and sweeps interleave: a hold that the applier approved carries, for
  every clause of its requirement, a recorded approve of somebody eligible for it (at least one
  approve when there is no clause), none of them by whoever triggered the run unless the
  organisation allows that, and nobody's reject.
\<close>

theorem approved_holds_are_covered:
  assumes "reach no_holds (applier_step deps) (db, ps)"
    and "h \<in> set (held_runs db)" "hr_status h = HApproved" "hr_approved_by h = None"
    and "hr_hold_type h \<noteq> HOLD_TYPE_CONCURRENCY"
  shows "approvers db (hr_id h) \<noteq> {} \<and>
    (\<forall>c \<in> set (clauses_of h). \<exists>x \<in> approvers db (hr_id h). isActorEligibleForClause x c (dp_lookup deps)) \<and>
    (\<forall>x \<in> approvers db (hr_id h). self_ok deps h x) \<and>
    (\<forall>r \<in> set (held_run_approvals db). ap_held_run_id r = hr_id h \<longrightarrow> ap_decision r \<noteq> DecReject)"
proof -
  have inv: "held_ok db" "rows_ok deps db" "covered_all deps db"
    using appliers.reach_inv [OF assms(1)] by (simp_all add: applier_inv_alt)
  have "covered deps h (approvers db (hr_id h))"
    using inv(3) assms(2-5) by (simp add: covered_all_def by_applier_def)
  with inv(2) assms(2,3) show ?thesis
    by (auto simp: covered_def approvers_def rows_ok_def)
qed

definition ann_hold :: create_hold_data where
  "ann_hold = \<lparr>ch_runId = ''r1'', ch_jobId = ''deploy'', ch_scope = ScopeJob, ch_stepIndex = None,
     ch_triggerSource = SourceExplicit,
     ch_requirement = \<lparr>aq_clauses = [UserClause ''ann''], aq_expiresAt = 100, aq_reason = ''deploy''\<rparr>,
     ch_contextId = None, ch_queueType = None, ch_holdType = None\<rparr>"

definition cat_deps :: apply_deps where
  "cat_deps = \<lparr>dp_orgId = ''acme'', dp_lookup = (\<lambda>_. {}), dp_allowSelfApproval = False,
     dp_triggererSub = (\<lambda>_. Some ''cat'')\<rparr>"

definition approve_as :: "string \<Rightarrow> string \<Rightarrow> apply_args" where
  "approve_as hid actor = \<lparr>ag_heldRunId = hid, ag_actorSub = actor, ag_decision = DecApprove, ag_reason = None\<rparr>"

lemmas applier_eval = createHold_def sample_db_def cat_deps_def approve_as_def decide_def
  getById_def normalizeRequirement_def toRecorded_def listDecisions_def order_by_def canApprove_iff
  isClauseSatisfied_def satisfies_def satisfied_iff prospective_def commit_def store_defs or_throw_def insertDecisionRow_def
  flipToApproved_def update_returning_def pending_of_def update_where_def Let_def

lemma approved_holds_are_covered_witness:
  "\<exists>db h. h \<in> set (held_runs db) \<and> hr_status h = HApproved \<and> approvers db (hr_id h) \<noteq> {} \<and>
     (\<forall>x \<in> approvers db (hr_id h). self_ok cat_deps h x)"
proof -
  define db1 where "db1 = snd (createHold ''h1'' 5 ''acme'' ann_hold sample_db)"
  define a where "a = approve_as ''h1'' ''ann''"
  define p where "p = decide cat_deps 7 a db1"
  obtain s db2 where c: "commit cat_deps 7 a p db1 = Inr (Released s, db2)"
    and db2: "hr_status (hd (held_runs db2)) = HApproved" "hr_approved_by (hd (held_runs db2)) = None"
      "hr_hold_type (hd (held_runs db2)) = HOLD_TYPE_REVIEWER" "hd (held_runs db2) \<in> set (held_runs db2)"
    by (simp add: p_def a_def db1_def ann_hold_def applier_eval)
  have "reach no_holds (applier_step cat_deps) (sample_db, [])"
    by (rule reach_init) (simp add: no_holds_def sample_db_def)
  moreover have "applier_step cat_deps (sample_db, []) (db1, [])"
    unfolding db1_def by (intro ap_other ot_createHold) (simp add: sample_db_def)
  moreover have "applier_step cat_deps (db1, []) (db1, [(a, p)])"
    unfolding p_def by (rule ap_read)
  moreover have "applier_step cat_deps (db1, [(a, p)]) (db2, remove1 (a, p) [(a, p)])"
    by (rule ap_write [OF _ c]) simp
  ultimately have "reach no_holds (applier_step cat_deps) (db2, remove1 (a, p) [(a, p)])"
    by (meson reach_step)
  from approved_holds_are_covered [OF this db2(4,1,2)] db2(3)
  have "approvers db2 (hr_id (hd (held_runs db2))) \<noteq> {} \<and>
      (\<forall>x \<in> approvers db2 (hr_id (hd (held_runs db2))). self_ok cat_deps (hd (held_runs db2)) x)"
    by (simp add: HOLD_TYPE_REVIEWER_def HOLD_TYPE_CONCURRENCY_def)
  with db2(1,4) show ?thesis by blast
qed

section \<open>Two approvals at the same time\<close>

lemma decide_record:
  assumes "decide deps now a db = PlanRecord h0 mine n" "held_ok db" "h \<in> set (held_runs db)" "hr_id h = ag_heldRunId a"
  shows "hr_status h = HPending" "hr_org_id h = dp_orgId deps" "ag_decision a = DecApprove" "h0 = h"
proof -
  obtain hold where g: "getById (dp_orgId deps) (ag_heldRunId a) db = Some hold" "hold \<in> set (held_runs db)"
    "hr_id hold = ag_heldRunId a" "hr_org_id hold = dp_orgId deps" "hr_status hold = HPending"
    using decide_Some [OF assms(1)] by (metis plan.distinct(5))
  have "hold = h" by (rule id_unique [OF assms(2) g(2) assms(3)]) (simp add: g(3) assms(4))
  with g show "hr_status h = HPending" "hr_org_id h = dp_orgId deps" by simp_all
  show "ag_decision a = DecApprove"
    using assms(1) g(1,5) by (cases "ag_decision a") (auto simp: decide_def Let_def)
  show "h0 = h"
    using assms(1) g(1,5) \<open>hold = h\<close> by (auto simp: decide_def Let_def split: if_splits)
qed

lemma getById_unique:
  assumes "held_ok db" "h \<in> set (held_runs db)" "hr_id h = hid" "hr_org_id h = orgId"
  shows "getById orgId hid db = Some h"
proof (cases "getById orgId hid db")
  case None
  with assms show ?thesis by (auto simp: getById_def find_None_iff)
next
  case (Some x)
  then have "x \<in> set (held_runs db)" "hr_id x = hid" by (auto simp: getById_def find_Some_iff)
  with id_unique [OF assms(1) this(1) assms(2)] assms(3) Some show ?thesis by simp
qed

text \<open>
  C23. Two approvers who read at the same time and each satisfy only part of a requirement that
  they satisfy together both have their approval recorded, and the hold stays pending: every
  clause is satisfied, so from then on the applier turns away everybody who wants to approve.
\<close>

theorem concurrent_approvals_strand:
  assumes "held_ok db" "h \<in> set (held_runs db)" "ag_heldRunId a = hr_id h" "ag_heldRunId b = hr_id h"
    and "decide deps now1 a db = PlanRecord ha ma na" "decide deps now2 b db = PlanRecord hb mb nb"
    and "clauses_of h \<noteq> []"
    and "\<forall>c \<in> set (clauses_of h). isClauseSatisfied c (toRecorded (listDecisions (hr_id h) db)) (dp_lookup deps) \<or>
      isActorEligibleForClause (ag_actorSub a) c (dp_lookup deps) \<or>
      isActorEligibleForClause (ag_actorSub b) c (dp_lookup deps)"
  shows "\<exists>db1 db2. commit deps now1 a (PlanRecord ha ma na) db = Inr (StillPending na, db1) \<and>
    commit deps now2 b (PlanRecord hb mb nb) db1 = Inr (StillPending nb, db2) \<and>
    h \<in> set (held_runs db2) \<and> hr_status h = HPending \<and>
    (\<forall>now x. ag_heldRunId x = hr_id h \<longrightarrow> ag_decision x = DecApprove \<longrightarrow>
       decide deps now x db2 = PlanIneligible)"
proof -
  define row where "row = (\<lambda>n (x :: apply_args) m. \<lparr>ap_held_run_id = hr_id h, ap_approver_user_id = ag_actorSub x,
    ap_decision = DecApprove, ap_clauses_satisfied = Some m, ap_created_at = n\<rparr>)"
  define db1 where "db1 = db\<lparr>held_run_approvals := held_run_approvals db @ [row now1 a ma]\<rparr>"
  define db2 where "db2 = db1\<lparr>held_run_approvals := held_run_approvals db1 @ [row now2 b mb]\<rparr>"
  have id: "hr_id h \<in> hr_id ` set (held_runs db)" using assms(2) by blast
  have c1: "commit deps now1 a (PlanRecord ha ma na) db = Inr (StillPending na, db1)"
    using id by (simp add: commit_def recordDecision_def insertDecisionRow_def assms(3) db1_def row_def)
  have c2: "commit deps now2 b (PlanRecord hb mb nb) db1 = Inr (StillPending nb, db2)"
    using id by (simp add: commit_def recordDecision_def insertDecisionRow_def assms(4) db1_def db2_def row_def)
  note r = decide_record [OF assms(5,1,2) assms(3) [symmetric]]
  have ok: "held_ok db2"
    using commit_step [OF c1] commit_step [OF c2] step_le_ok assms(1) by metis
  have h2: "h \<in> set (held_runs db2)" using assms(2) by (simp add: db2_def db1_def)
  have sat: "isClauseSatisfied c (toRecorded (listDecisions (hr_id h) db2)) (dp_lookup deps)"
    if c: "c \<in> set (clauses_of h)" for c
  proof -
    let ?ds = "toRecorded (listDecisions (hr_id h) db2)"
    have mem: "d \<in> set ?ds" if "d \<in> set (toRecorded (listDecisions (hr_id h) db))" for d
      using that by (auto simp: set_toRecorded db2_def db1_def)
    have "\<lparr>rc_approver = ag_actorSub a, rc_decision = DecApprove\<rparr> \<in> set ?ds"
      "\<lparr>rc_approver = ag_actorSub b, rc_decision = DecApprove\<rparr> \<in> set ?ds"
      by (auto simp: set_toRecorded db2_def db1_def row_def)
    with assms(8) c mem show ?thesis
      unfolding isClauseSatisfied_def list_ex_iff satisfies_def by (metis recorded_decision.select_convs(1,2))
  qed
  have "decide deps now x db2 = PlanIneligible" if x: "ag_heldRunId x = hr_id h" "ag_decision x = DecApprove" for now x
  proof -
    have g: "getById (dp_orgId deps) (ag_heldRunId x) db2 = Some h"
      by (rule getById_unique [OF ok h2]) (simp_all add: x(1) r(2))
    have "\<not> canApprove (ag_actorSub x) (normalizeRequirement now (hr_approval_requirement h))
        (toRecorded (listDecisions (hr_id h) db2)) (dp_lookup deps) ctx" for ctx
      using sat assms(7) by (auto simp: canApprove_iff aq_normalize [of now] clauses_of_def [symmetric])
    with g [unfolded x(1)] show ?thesis
      unfolding decide_def x(1) by (simp add: r(1) x(2))
  qed
  with c1 c2 h2 r(1) show ?thesis by blast
qed

definition pair_hold :: create_hold_data where
  "pair_hold = ann_hold\<lparr>ch_requirement := two_clauses\<rparr>"

lemma concurrent_approvals_strand_witness:
  "let db = snd (createHold ''h1'' 5 ''acme'' pair_hold sample_db); a = approve_as ''h1'' ''ann''; b = approve_as ''h1'' ''bob''
   in \<exists>db1 db2. commit cat_deps 7 a (decide cat_deps 7 a db) db = Inr (StillPending 1, db1) \<and>
        commit cat_deps 8 b (decide cat_deps 8 b db) db1 = Inr (StillPending 1, db2) \<and>
        decide cat_deps 9 (approve_as ''h1'' ''ann'') db2 = PlanIneligible \<and>
        decide cat_deps 9 (approve_as ''h1'' ''eve'') db2 = PlanIneligible"
proof -
  define db where "db = snd (createHold ''h1'' 5 ''acme'' pair_hold sample_db)"
  define h where "h = hd (held_runs db)"
  have db: "held_ok db" "h \<in> set (held_runs db)" "hr_id h = ''h1''" "clauses_of h = [UserClause ''ann'', UserClause ''bob'']"
    by (simp_all add: h_def db_def createHold_def pair_hold_def ann_hold_def two_clauses_def sample_db_def
        held_ok_def clauses_of_def normalizeRequirement_def Let_def)
  have pa: "decide cat_deps 7 (approve_as ''h1'' ''ann'') db = PlanRecord h [UserClause ''ann''] 1"
    and pb: "decide cat_deps 8 (approve_as ''h1'' ''bob'') db = PlanRecord h [UserClause ''bob''] 1"
    by (simp_all add: h_def db_def pair_hold_def ann_hold_def two_clauses_def perClause_eq applier_eval)
  have "\<exists>db1 db2. commit cat_deps 7 (approve_as ''h1'' ''ann'') (PlanRecord h [UserClause ''ann''] 1) db = Inr (StillPending 1, db1) \<and>
      commit cat_deps 8 (approve_as ''h1'' ''bob'') (PlanRecord h [UserClause ''bob''] 1) db1 = Inr (StillPending 1, db2) \<and>
      h \<in> set (held_runs db2) \<and> hr_status h = HPending \<and>
      (\<forall>now x. ag_heldRunId x = hr_id h \<longrightarrow> ag_decision x = DecApprove \<longrightarrow> decide cat_deps now x db2 = PlanIneligible)"
    by (rule concurrent_approvals_strand [OF db(1,2) _ _ pa pb]) (simp_all add: db approve_as_def)
  then show ?thesis
    unfolding Let_def db_def [symmetric] pa pb by (auto simp: approve_as_def db(3))
qed

end
