(* ===== verification/HoldSweep.thy ===== *)
theory HoldSweep
  imports Approvals
begin

text \<open>
  What happens around a hold that ends: its \<open>KiCI Security\<close> check
  (\<open>packages/orchestrator/src/pipeline/security-hold-check.ts\<close>), the \<open>/kici\<close> comment of a pull
  request (\<open>packages/orchestrator/src/security/comment-handler.ts\<close>, with \<open>identity-link.ts\<close>) and
  the periodic sweep over holds (\<open>packages/orchestrator/src/stale-detector/stale-run-detector.ts\<close>).

  The texts that a check shows are represented by the data they print. Whether a poster serves a
  routing key and whether the provider accepts a post are parameters; queries of the database do
  not fail. Handlers that may be missing or throw are parameters too, and their calls are listed
  in the order they are made.
\<close>

section \<open>The security check of a hold\<close>

definition WORKFLOW_MODIFICATION_JOB_ID :: string where
  "WORKFLOW_MODIFICATION_JOB_ID = ''__workflow_modification__''"

definition SECURITY_HOLD_JOB_IDS :: "string list" where
  "SECURITY_HOLD_JOB_IDS = [WORKFLOW_MODIFICATION_JOB_ID, ''__fork_pr__'', ''__unknown_contributor__'']"

definition isSecurityHoldJobId :: "string \<Rightarrow> bool" where
  "isSecurityHoldJobId j \<longleftrightarrow> j \<in> set SECURITY_HOLD_JOB_IDS"

definition INSTALL_JOB_ID_PREFIX :: string where
  "INSTALL_JOB_ID_PREFIX = ''__install__''"

definition installGateJobId :: "string \<Rightarrow> string" where
  "installGateJobId w = INSTALL_JOB_ID_PREFIX @ w"

definition postedPendingSecurityCheck :: "held_run \<Rightarrow> bool" where
  "postedPendingSecurityCheck h =
     (case hr_posted_pending_check h of
        Some b \<Rightarrow> b
      | None \<Rightarrow>
          if hr_hold_scope h = ScopeStep then False
          else if isSecurityHoldJobId (hr_job_id h) then True
          else if startsWith (hr_job_id h) INSTALL_JOB_ID_PREFIX then False
          else if hr_approval_requirement h \<noteq> None then True
          else hr_hold_scope h = ScopeJob \<and> hr_hold_type h = HOLD_TYPE_SECURITY)"

datatype settlement =
  SettlePosted | SettleNotOwned | SettleAlreadySettled | SettleContended | SettleNoCommit | SettleNoPoster | SettleFailed

datatype check_conclusion = ConclSuccess | ConclCancelled | ConclTimedOut

fun HOLD_OUTCOME_CONCLUSION :: "hold_outcome \<Rightarrow> check_conclusion" where
  "HOLD_OUTCOME_CONCLUSION OutApproved = ConclSuccess"
| "HOLD_OUTCOME_CONCLUSION OutRejected = ConclCancelled"
| "HOLD_OUTCOME_CONCLUSION OutExpired = ConclTimedOut"

record settle_env =
  se_hasResolver :: bool
  se_hasDb :: bool
  se_poster :: "string \<Rightarrow> bool"
  se_accepts :: "string \<times> string \<Rightarrow> bool"

record hold_commit =
  hc_repo :: string
  hc_sha :: string
  hc_routingKey :: string

definition loadHoldCommit :: "held_db \<Rightarrow> run_id \<Rightarrow> hold_commit option" where
  "loadHoldCommit db r =
     (case run_of db r of
        None \<Rightarrow> None
      | Some x \<Rightarrow>
          (case (rn_repo_identifier x, rn_sha x, rn_routing_key x) of
             (Some repo, Some sha, Some key) \<Rightarrow>
               if repo = [] \<or> sha = [] \<or> key = [] then None
               else Some \<lparr>hc_repo = repo, hc_sha = sha, hc_routingKey = key\<rparr>
           | _ \<Rightarrow> None))"

definition findPendingCheckOwner :: "held_db \<Rightarrow> string \<Rightarrow> string \<Rightarrow> string \<Rightarrow> string list \<Rightarrow> string option" where
  "findPendingCheckOwner db orgId repo sha excludeIds =
     map_option hr_id (find (\<lambda>h. hr_id h \<notin> set excludeIds \<and> postedPendingSecurityCheck h)
       (filter (\<lambda>h. hr_org_id h = orgId \<and> hr_status h = HPending \<and>
          joined db h (\<lambda>r. rn_repo_identifier r = Some repo \<and> rn_sha r = Some sha)) (held_runs db)))"

record check_post =
  po_repo :: string
  po_sha :: string
  po_conclusion :: check_conclusion

definition settleSecurityHoldCheck ::
  "settle_env \<Rightarrow> held_db \<Rightarrow> held_run \<Rightarrow> check_conclusion \<Rightarrow> string list \<Rightarrow> (string \<times> string) list
     \<Rightarrow> settlement \<times> check_post option" where
  "settleSecurityHoldCheck env db hold concl exclude skip =
     (if \<not> postedPendingSecurityCheck hold then (SettleNotOwned, None)
      else if \<not> se_hasResolver env then (SettleNoPoster, None)
      else if \<not> se_hasDb env then (SettleNoCommit, None)
      else case loadHoldCommit db (hr_run_id hold) of
             None \<Rightarrow> (SettleNoCommit, None)
           | Some c \<Rightarrow>
               if (hc_repo c, hc_sha c) \<in> set skip then (SettleAlreadySettled, None)
               else if findPendingCheckOwner db (hr_org_id hold) (hc_repo c) (hc_sha c) (hr_id hold # exclude) \<noteq> None
               then (SettleContended, None)
               else if \<not> se_poster env (hc_routingKey c) then (SettleNoPoster, None)
               else if \<not> se_accepts env (hc_repo c, hc_sha c) then (SettleFailed, None)
               else (SettlePosted, Some \<lparr>po_repo = hc_repo c, po_sha = hc_sha c, po_conclusion = concl\<rparr>))"

definition settleSecurityCheckForOutcome ::
  "settle_env \<Rightarrow> held_db \<Rightarrow> held_run \<Rightarrow> hold_outcome \<Rightarrow> string list \<Rightarrow> (string \<times> string) list
     \<Rightarrow> settlement \<times> check_post option" where
  "settleSecurityCheckForOutcome env db hold out exclude skip =
     settleSecurityHoldCheck env db hold (HOLD_OUTCOME_CONCLUSION out) exclude skip"

section \<open>Identity links\<close>

record identity_link =
  il_userId :: string
  il_provider :: string
  il_providerUsername :: string
  il_providerUserId :: "string option"

definition resolveLinkedUsername :: "identity_link list \<Rightarrow> string \<Rightarrow> string option" where
  "resolveLinkedUsername links userId =
     (case js_set (map il_providerUsername (filter (\<lambda>l. il_userId l = userId) links)) of
        [n] \<Rightarrow> Some n | _ \<Rightarrow> None)"

datatype refusal = EventMissing | LinkMissing | IdMismatch

definition findIdentityLink ::
  "identity_link list \<Rightarrow> string \<Rightarrow> string \<Rightarrow> string option \<Rightarrow> identity_link option \<times> refusal option" where
  "findIdentityLink links provider username userId =
     (if userId = None \<or> userId = Some [] then (None, Some EventMissing)
      else case find (\<lambda>l. il_provider l = provider \<and> il_providerUserId l \<noteq> None \<and> il_providerUserId l = userId) links of
             Some l \<Rightarrow> (Some l, None)
           | None \<Rightarrow>
               (case find (\<lambda>l. il_provider l = provider \<and> il_providerUsername l = username) links of
                  None \<Rightarrow> (None, None)
                | Some l \<Rightarrow> (None, Some (if il_providerUserId l = None then LinkMissing else IdMismatch))))"

section \<open>The comment\<close>

record comment_command =
  cm_action :: approval_decision
  cm_runId :: "string option"

text \<open>
  \<open>^\/kici\s+(approve|reject)(?:\s+(\S+))?\<close> with the flag \<open>i\<close>, on a trimmed line.
\<close>

definition command_tail :: "approval_decision \<Rightarrow> string \<Rightarrow> comment_command" where
  "command_tail act rest =
     (let run = (if rest \<noteq> [] \<and> is_space (hd rest)
                 then takeWhile (\<lambda>c. \<not> is_space c) (dropWhile is_space rest) else [])
      in \<lparr>cm_action = act, cm_runId = (if run = [] then None else Some run)\<rparr>)"

definition match_line :: "string \<Rightarrow> comment_command option" where
  "match_line line =
     (let t = trim line; r = drop 5 t; w = dropWhile is_space r
      in if toLowerCase (take 5 t) \<noteq> ''/kici'' \<or> r = [] \<or> \<not> is_space (hd r) then None
         else if startsWith (toLowerCase w) ''approve'' then Some (command_tail DecApprove (drop 7 w))
         else if startsWith (toLowerCase w) ''reject'' then Some (command_tail DecReject (drop 6 w))
         else None)"

fun first_some :: "('a \<Rightarrow> 'b option) \<Rightarrow> 'a list \<Rightarrow> 'b option" where
  "first_some f [] = None"
| "first_some f (x # xs) = (case f x of None \<Rightarrow> first_some f xs | Some y \<Rightarrow> Some y)"

definition parseKiciCommand :: "string \<Rightarrow> comment_command option" where
  "parseKiciCommand body = first_some match_line (js_split (CHR 0x0A) body)"

datatype ci_trust = TrustNone | TrustRead | TrustWrite | TrustAdmin

record comment_params =
  cp_commentBody :: string
  cp_commenterUsername :: string
  cp_commenterUserId :: "string option"
  cp_provider :: string
  cp_repoIdentifier :: string
  cp_prNumber :: int
  cp_orgId :: string
  cp_identityLinks :: "identity_link list"
  cp_orgMemberPermissions :: "(string \<times> ci_trust) list"
  cp_hasJobRelease :: bool
  cp_hasWorkflowRelease :: bool
  cp_workflowReject :: "(string \<Rightarrow> bool option) option"

datatype comment_result = NotHandled | NoIdentityLink | InsufficientTrust | Handled

datatype hold_effect =
    EffSettle string settlement "check_post option"
  | EffResume string resume_path
  | EffWorkflowReject string string
  | EffStepExpired string
  | EffFailRun string run_id
  | EffCloseChecks run_id
  | EffDeleteContext run_id
  | EffAudit string
  | EffStrandedJob string

definition settle_effect ::
  "settle_env \<Rightarrow> held_db \<Rightarrow> held_run \<Rightarrow> hold_outcome \<Rightarrow> string list \<Rightarrow> (string \<times> string) list \<Rightarrow> hold_effect" where
  "settle_effect env db hold out exclude skip =
     (let (s, p) = settleSecurityCheckForOutcome env db hold out exclude skip in EffSettle (hr_id hold) s p)"

definition reject_reason_text :: "string \<Rightarrow> string" where
  "reject_reason_text who = ''Rejected by '' @ who @ '' via /kici reject''"

text \<open>
  The treatment of one hold. The write of the row may throw, which ends the treatment of this
  hold alone; \<open>cp_workflowReject\<close> is the optional delegate, whose answer is \<open>None\<close> when it throws.
\<close>

definition comment_approve ::
  "settle_env \<Rightarrow> int \<Rightarrow> comment_params \<Rightarrow> string \<Rightarrow> held_run \<Rightarrow> held_db \<Rightarrow> held_db \<times> hold_effect list" where
  "comment_approve env now p userId hold db =
     (case approveByQueueType now (cp_orgId p) (hr_id hold) userId QueueSecurity db of
        Inl e \<Rightarrow> (db, [])
      | Inr (row, db') \<Rightarrow>
          (db', settle_effect env db' hold OutApproved [] []
             # (if cp_hasJobRelease p
                then (case routeRelease (toReleaseSignal hold) False (cp_hasWorkflowRelease p) of
                        None \<Rightarrow> [] | Some path \<Rightarrow> [EffResume (hr_id hold) path])
                else [])))"

definition comment_reject ::
  "settle_env \<Rightarrow> int \<Rightarrow> comment_params \<Rightarrow> held_run \<Rightarrow> held_db \<Rightarrow> held_db \<times> hold_effect list" where
  "comment_reject env now p hold db =
     (let reason = reject_reason_text (cp_commenterUsername p)
      in case reject now (cp_orgId p) (hr_id hold) (Some reason) db of
           Inl e \<Rightarrow> (db, [])
         | Inr (row, db') \<Rightarrow>
             (let answer = (if hr_hold_scope hold = ScopeWorkflow
                   then map_option (\<lambda>f. f (hr_id hold)) (cp_workflowReject p) else None)
              in (db', (if answer = None then [] else [EffWorkflowReject (hr_id hold) reason])
                   @ (if answer = Some (Some True) then []
                      else [settle_effect env db' hold OutRejected [] []]))))"

fun comment_each ::
  "(held_run \<Rightarrow> held_db \<Rightarrow> held_db \<times> hold_effect list) \<Rightarrow> held_run list \<Rightarrow> held_db \<Rightarrow> held_db \<times> hold_effect list" where
  "comment_each f [] db = (db, [])"
| "comment_each f (h # hs) db = andThen (f h db) (comment_each f hs)"

definition handleApprovalComment ::
  "settle_env \<Rightarrow> int \<Rightarrow> comment_params \<Rightarrow> held_db \<Rightarrow> comment_result \<times> held_db \<times> hold_effect list" where
  "handleApprovalComment env now p db =
     (case parseKiciCommand (cp_commentBody p) of
        None \<Rightarrow> (NotHandled, db, [])
      | Some cmd \<Rightarrow>
          (case fst (findIdentityLink (cp_identityLinks p) (cp_provider p) (cp_commenterUsername p) (cp_commenterUserId p)) of
             None \<Rightarrow> (NoIdentityLink, db, [])
           | Some link \<Rightarrow>
               let level = (case map_of (cp_orgMemberPermissions p) (il_userId link) of None \<Rightarrow> TrustNone | Some l \<Rightarrow> l)
               in if level \<noteq> TrustWrite \<and> level \<noteq> TrustAdmin then (InsufficientTrust, db, [])
                  else let pending = listPendingSecurityHoldsForPr (cp_orgId p) (cp_repoIdentifier p) (cp_prNumber p) db;
                           targets = (case cm_runId cmd of None \<Rightarrow> pending
                             | Some r \<Rightarrow> filter (\<lambda>h. hr_run_id h = r) pending)
                  in (Handled, comment_each (if cm_action cmd = DecApprove
                        then comment_approve env now p (il_userId link) else comment_reject env now p) targets db)))"

section \<open>The sweep\<close>

text \<open>The handlers of the detector and what they answer.\<close>

record detector =
  dt_hasWorkflowRelease :: bool
  dt_hasJobRelease :: bool
  dt_hasStepBridge :: bool
  dt_hasFailRun :: bool
  dt_failRunThrows :: "run_id \<Rightarrow> bool"
  dt_hasMatchContext :: bool
  dt_matchContext :: "string \<Rightarrow> string \<Rightarrow> int option option"
  dt_jobReleaseSucceeds :: "release_signal \<Rightarrow> bool"
  dt_env :: settle_env

definition sweep_route :: "detector \<Rightarrow> release_signal \<Rightarrow> hold_effect list" where
  "sweep_route d s =
     (case routeRelease s False (dt_hasWorkflowRelease d) of
        None \<Rightarrow> []
      | Some (ResumeJob s') \<Rightarrow>
          if dt_hasJobRelease d then [EffResume (rs_holdId s) (ResumeJob s')] else [EffStrandedJob (rs_holdId s)]
      | Some path \<Rightarrow> [EffResume (rs_holdId s) path])"

definition sweep_releaseDueWaitHolds :: "detector \<Rightarrow> int \<Rightarrow> held_db \<Rightarrow> held_db \<times> hold_effect list" where
  "sweep_releaseDueWaitHolds d now db =
     (let (signals, db') = releaseDueWaitHolds now db in (db', concat (map (sweep_route d) signals)))"

fun release_groups ::
  "detector \<Rightarrow> int \<Rightarrow> (string \<times> string) list \<Rightarrow> held_db \<Rightarrow> held_db \<times> hold_effect list" where
  "release_groups d now [] db = (db, [])"
| "release_groups d now ((orgId, grp) # gs) db =
     (case dt_matchContext d orgId grp of
        None \<Rightarrow> release_groups d now gs db
      | Some cap \<Rightarrow>
          (let (done, db') = releaseQueuedHolds now orgId grp cap (dt_jobReleaseSucceeds d) db;
               (db'', es) = release_groups d now gs db'
           in (db'', map (\<lambda>s. EffResume (rs_holdId s) (ResumeJob s)) done @ es)))"

definition releaseFreedConcurrencyHolds :: "detector \<Rightarrow> int \<Rightarrow> held_db \<Rightarrow> held_db \<times> hold_effect list" where
  "releaseFreedConcurrencyHolds d now db =
     (if \<not> dt_hasJobRelease d \<or> \<not> dt_hasMatchContext d then (db, [])
      else release_groups d now
        (js_set (List.map_filter (\<lambda>(orgId, grp). case grp of None \<Rightarrow> None
            | Some g \<Rightarrow> if orgId = [] \<or> g = [] then None else Some (orgId, g)) (listAllQueuedHolds db))) db)"

text \<open>
  One overdue hold: its effects, and whether the check of its commit was written (so that the
  pass does not write it again). A run that fails to fail ends the treatment of this hold.
\<close>

definition expire_one ::
  "detector \<Rightarrow> held_db \<Rightarrow> string list \<Rightarrow> (string \<times> string) list \<Rightarrow> held_run \<Rightarrow> hold_effect list \<times> (string \<times> string) list" where
  "expire_one d db expiring settled h =
     (let step = (hr_hold_scope h = ScopeStep);
          first = (if step then (if dt_hasStepBridge d then [EffStepExpired (hr_id h)] else [])
                   else if dt_hasFailRun d then [EffFailRun (hr_id h) (hr_run_id h)] else [])
      in if \<not> step \<and> dt_hasFailRun d \<and> dt_failRunThrows d (hr_run_id h) then (first, settled)
         else let close = (if hr_hold_scope h = ScopeWorkflow
                     then [EffCloseChecks (hr_run_id h), EffDeleteContext (hr_run_id h)] else []);
                  (s, po) = settleSecurityCheckForOutcome (dt_env d) db h OutExpired expiring settled;
                  settled' = (case po of None \<Rightarrow> settled | Some x \<Rightarrow> js_add (po_repo x, po_sha x) settled)
              in (first @ close @ [EffSettle (hr_id h) s po, EffAudit (hr_id h)], settled'))"

fun expire_each ::
  "detector \<Rightarrow> held_db \<Rightarrow> string list \<Rightarrow> (string \<times> string) list \<Rightarrow> held_run list \<Rightarrow> hold_effect list" where
  "expire_each d db expiring settled [] = []"
| "expire_each d db expiring settled (h # hs) =
     (let (es, settled') = expire_one d db expiring settled h in es @ expire_each d db expiring settled' hs)"

text \<open>The query and the final update read the clock separately.\<close>

definition expireOverdueHolds :: "detector \<Rightarrow> int \<Rightarrow> int \<Rightarrow> held_db \<Rightarrow> held_db \<times> hold_effect list" where
  "expireOverdueHolds d tList tExpire db =
     (let due = listOverdue tList db
      in (snd (expireOverdue tExpire db), expire_each d db (map hr_id due) [] due))"

text \<open>The part of a scan that treats holds.\<close>

definition scan_holds :: "detector \<Rightarrow> int \<Rightarrow> int \<Rightarrow> int \<Rightarrow> held_db \<Rightarrow> held_db \<times> hold_effect list" where
  "scan_holds d tRelease tList tExpire db =
     andThen (andThen (sweep_releaseDueWaitHolds d tRelease db) (releaseFreedConcurrencyHolds d tRelease))
       (expireOverdueHolds d tList tExpire)"

section \<open>Only the last owner closes the check\<close>

lemma findPendingCheckOwner_None:
  "findPendingCheckOwner db orgId repo sha ex = None \<longleftrightarrow>
     (\<forall>h \<in> set (held_runs db). hr_org_id h = orgId \<longrightarrow> hr_status h = HPending \<longrightarrow>
        joined db h (\<lambda>r. rn_repo_identifier r = Some repo \<and> rn_sha r = Some sha) \<longrightarrow>
        postedPendingSecurityCheck h \<longrightarrow> hr_id h \<in> set ex)"
  by (auto simp: findPendingCheckOwner_def find_None_iff)

text \<open>
  A hold that ends writes the check of its commit exactly when it posted a pending check
  itself, the commit is known, served and not already written in this pass, the provider accepts,
  and no other hold of the organisation that is pending on that commit posted the check: it never
  turns green over work that is still held, and the last owner does close it.
\<close>

theorem settle_iff_last_owner:
  "fst (settleSecurityHoldCheck env db hold concl exclude skip) = SettlePosted \<longleftrightarrow>
     postedPendingSecurityCheck hold \<and> se_hasResolver env \<and> se_hasDb env \<and>
     (\<exists>c. loadHoldCommit db (hr_run_id hold) = Some c \<and> (hc_repo c, hc_sha c) \<notin> set skip \<and>
        se_poster env (hc_routingKey c) \<and> se_accepts env (hc_repo c, hc_sha c) \<and>
        (\<forall>h \<in> set (held_runs db). hr_org_id h = hr_org_id hold \<longrightarrow> hr_status h = HPending \<longrightarrow>
           joined db h (\<lambda>r. rn_repo_identifier r = Some (hc_repo c) \<and> rn_sha r = Some (hc_sha c)) \<longrightarrow>
           postedPendingSecurityCheck h \<longrightarrow> hr_id h = hr_id hold \<or> hr_id h \<in> set exclude))"
proof (cases "loadHoldCommit db (hr_run_id hold)")
  case (Some c)
  then show ?thesis
    using findPendingCheckOwner_None [of db "hr_org_id hold" "hc_repo c" "hc_sha c" "hr_id hold # exclude"]
    by (auto simp: settleSecurityHoldCheck_def)
qed (simp add: settleSecurityHoldCheck_def)

section \<open>A comment touches the holds of its pull request only\<close>

lemma approveByQueueType_keeps:
  assumes "approveByQueueType now orgId hid who q db = Inr (row, db')" "h \<in> set (held_runs db)"
    and "\<not> (pending_of orgId hid h \<and> hr_queue_type h = q)"
  shows "h \<in> set (held_runs db')"
  using assms
  by (auto simp: approveByQueueType_def or_throw_Inr set_update_where dest!: update_returning_eq intro!: image_eqI [of h _ h])

lemma reject_keeps:
  assumes "reject now orgId hid reason db = Inr (row, db')" "h \<in> set (held_runs db)" "\<not> pending_of orgId hid h"
  shows "h \<in> set (held_runs db')"
  using assms
  by (auto simp: reject_def flipToRejected_def or_throw_Inr set_update_where
      dest!: update_returning_eq intro!: image_eqI [of h _ h])

lemma comment_step_keeps:
  assumes "h \<in> set (held_runs db)" "hr_id h \<noteq> hr_id hold"
  shows "h \<in> set (held_runs (fst (comment_approve env now p who hold db)))"
    "h \<in> set (held_runs (fst (comment_reject env now p hold db)))"
  using assms
  by (auto simp: comment_approve_def comment_reject_def Let_def pending_of_def
      split: sum.splits intro: approveByQueueType_keeps reject_keeps)

lemma comment_each_keeps:
  assumes "\<And>db hold. hold \<in> set hs \<Longrightarrow> h \<in> set (held_runs db) \<Longrightarrow> h \<in> set (held_runs (fst (f hold db)))"
    and "h \<in> set (held_runs db)"
  shows "h \<in> set (held_runs (fst (comment_each f hs db)))"
  using assms by (induction hs arbitrary: db) auto

definition may_decide :: "comment_params \<Rightarrow> bool" where
  "may_decide p \<longleftrightarrow> (\<exists>l \<in> set (cp_identityLinks p). il_provider l = cp_provider p \<and>
     il_providerUserId l \<noteq> None \<and> il_providerUserId l = cp_commenterUserId p \<and>
     map_of (cp_orgMemberPermissions p) (il_userId l) \<in> {Some TrustWrite, Some TrustAdmin})"

text \<open>
  A comment changes a hold only when it carries a command, its author is linked by the
  provider's numeric id to a member who may write, and the hold is a pending security hold of
  the organisation on exactly this repository and pull request (and on the run that the command
  names); every other hold stays in the table as it is.
\<close>

theorem comment_touches_only_its_pull_request:
  assumes "held_ok db" "handleApprovalComment env now p db = (res, db', es)"
    and "h \<in> set (held_runs db)" "h \<notin> set (held_runs db')"
  shows "(\<exists>cmd. parseKiciCommand (cp_commentBody p) = Some cmd \<and>
      (cm_runId cmd = None \<or> cm_runId cmd = Some (hr_run_id h))) \<and>
    may_decide p \<and> hr_status h = HPending \<and> hr_queue_type h = QueueSecurity \<and> hr_org_id h = cp_orgId p \<and>
    joined db h (\<lambda>r. rn_repo_identifier r = Some (cp_repoIdentifier p) \<and> rn_pr_number r = Some (cp_prNumber p))"
proof -
  obtain cmd where cmd: "parseKiciCommand (cp_commentBody p) = Some cmd"
    using assms(2-4) by (auto simp: handleApprovalComment_def split: option.splits)
  obtain l where l: "fst (findIdentityLink (cp_identityLinks p) (cp_provider p) (cp_commenterUsername p)
      (cp_commenterUserId p)) = Some l"
    using assms(2-4) cmd by (auto simp: handleApprovalComment_def split: option.splits)
  define targets where "targets = (let pending = listPendingSecurityHoldsForPr (cp_orgId p) (cp_repoIdentifier p) (cp_prNumber p) db
    in case cm_runId cmd of None \<Rightarrow> pending | Some r \<Rightarrow> filter (\<lambda>h. hr_run_id h = r) pending)"
  define f where "f = (if cm_action cmd = DecApprove
    then comment_approve env now p (il_userId l) else comment_reject env now p)"
  have lvl: "map_of (cp_orgMemberPermissions p) (il_userId l) \<in> {Some TrustWrite, Some TrustAdmin}"
    and db': "(db', es) = comment_each f targets db"
    using assms(2-4) cmd l
    by (auto simp: handleApprovalComment_def Let_def f_def targets_def split: if_splits option.splits)
  have may: "may_decide p"
  proof -
    from l have "find (\<lambda>l. il_provider l = cp_provider p \<and> il_providerUserId l \<noteq> None \<and>
        il_providerUserId l = cp_commenterUserId p) (cp_identityLinks p) = Some l"
      by (auto simp: findIdentityLink_def split: if_splits option.splits)
    then show ?thesis
      unfolding may_decide_def using lvl by (auto simp: find_Some_iff intro!: bexI [of _ l])
  qed
  have "\<exists>x \<in> set targets. hr_id x = hr_id h"
  proof (rule ccontr)
    assume "\<not> (\<exists>x \<in> set targets. hr_id x = hr_id h)"
    then have "h \<in> set (held_runs (fst (comment_each f targets db)))"
      using assms(3) by (intro comment_each_keeps) (auto simp: f_def intro!: comment_step_keeps)
    with db' assms(4) show False by (metis fst_conv)
  qed
  then obtain x where x: "x \<in> set targets" "hr_id x = hr_id h" by blast
  then have "x \<in> set (listPendingSecurityHoldsForPr (cp_orgId p) (cp_repoIdentifier p) (cp_prNumber p) db)"
    and run: "cm_runId cmd = None \<or> cm_runId cmd = Some (hr_run_id x)"
    by (auto simp: targets_def Let_def split: option.splits)
  then have q: "x \<in> set (held_runs db)" "hr_org_id x = cp_orgId p" "hr_queue_type x = QueueSecurity" "hr_status x = HPending"
    "joined db x (\<lambda>r. rn_repo_identifier r = Some (cp_repoIdentifier p) \<and> rn_pr_number r = Some (cp_prNumber p))"
    by (auto simp: listPendingSecurityHoldsForPr_def newest_first_def)
  have "x = h" by (rule id_unique [OF assms(1) q(1) assms(3) x(2)])
  with q cmd may run show ?thesis by simp
qed

text \<open>Words that merely begin with a command are taken as the command, in any case of the prefix.\<close>

lemma command_is_a_prefix:
  "parseKiciCommand ''/kici approvers please look'' = Some \<lparr>cm_action = DecApprove, cm_runId = None\<rparr>"
  "parseKiciCommand ''/KICI approve'' = Some \<lparr>cm_action = DecApprove, cm_runId = None\<rparr>"
  by code_simp+

section \<open>The sweep expires what it has treated, if the clock stands still\<close>

lemma release_hold_rows:
  assumes "release_hold now orgId hid db = Inr (s, db')"
  shows "x \<in> set (held_runs db') \<Longrightarrow> hr_status x = HApproved \<or> x \<in> set (held_runs db)"
    and "h \<in> set (held_runs db) \<Longrightarrow> hr_id h \<noteq> hid \<Longrightarrow> h \<in> set (held_runs db')"
    and "rs_holdId s = hid"
  using assms
  by (auto simp: release_hold_def or_throw_Inr flipToApproved_def set_update_where update_returning_def pending_of_def
      toReleaseSignal_def find_Some_iff split: sum.splits if_splits intro!: image_eqI [of h _ h])

lemma release_each_Inr:
  "release_hold now orgId (hr_id h) db = Inr (s, db') \<Longrightarrow>
     release_each now orgId f (h # hs) db =
       ((if f s then s # fst (release_each now orgId f hs db') else fst (release_each now orgId f hs db')),
        snd (release_each now orgId f hs db'))"
  by (simp add: split_beta)

lemma release_each_rows:
  "x \<in> set (held_runs (snd (release_each now orgId f hs db))) \<Longrightarrow> hr_status x = HApproved \<or> x \<in> set (held_runs db)"
proof (induction hs arbitrary: db)
  case (Cons h hs)
  show ?case
  proof (cases "release_hold now orgId (hr_id h) db")
    case (Inr r)
    obtain s db' where r: "r = (s, db')" by (cases r)
    have "hr_status x = HApproved \<or> x \<in> set (held_runs db')"
      using Cons.prems Cons.IH [of db'] release_each_Inr [OF Inr [unfolded r]] by simp
    then show ?thesis using release_hold_rows(1) [OF Inr [unfolded r]] by blast
  qed (use Cons in simp)
qed simp

lemma release_each_keeps:
  "h \<in> set (held_runs db) \<Longrightarrow> hr_id h \<notin> hr_id ` set hs \<Longrightarrow> h \<in> set (held_runs (snd (release_each now orgId f hs db)))"
proof (induction hs arbitrary: db)
  case (Cons y hs)
  show ?case
  proof (cases "release_hold now orgId (hr_id y) db")
    case (Inr r)
    obtain s db' where r: "r = (s, db')" by (cases r)
    have "h \<in> set (held_runs db')"
      using release_hold_rows(2) [OF Inr [unfolded r]] Cons.prems by simp
    then show ?thesis using Cons.IH [of db'] Cons.prems(2) release_each_Inr [OF Inr [unfolded r]] by simp
  qed (use Cons in simp)
qed simp

lemma release_each_ids:
  "s \<in> set (fst (release_each now orgId f hs db)) \<Longrightarrow> rs_holdId s \<in> hr_id ` set hs"
proof (induction hs arbitrary: db)
  case (Cons y hs)
  show ?case
  proof (cases "release_hold now orgId (hr_id y) db")
    case (Inr r)
    obtain s' db' where r: "r = (s', db')" by (cases r)
    then show ?thesis
      using Cons release_each_Inr [OF Inr [unfolded r]] release_hold_rows(3) [OF Inr [unfolded r]]
      by (auto split: if_splits)
  qed (use Cons in simp)
qed simp

lemma release_each_steps: "held_step\<^sup>*\<^sup>* db (snd (release_each now orgId f hs db))"
proof (induction now orgId f hs db rule: release_each.induct)
  case (2 now orgId f h hs db)
  then show ?case
    by (auto split: sum.splits prod.splits intro: converse_rtranclp_into_rtranclp st_release)
qed simp

lemma queued_are_concurrency:
  "set (listQueuedHoldsForContext orgId grp db) \<subseteq> {x \<in> set (held_runs db). hr_hold_type x = HOLD_TYPE_CONCURRENCY}"
  by (auto simp: listQueuedHoldsForContext_def)

lemma releaseQueued_cases:
  obtains "releaseQueuedHolds now orgId grp cap f db = ([], db)"
  | hs where "releaseQueuedHolds now orgId grp cap f db = release_each now orgId f hs db"
      "set hs \<subseteq> {x \<in> set (held_runs db). hr_hold_type x = HOLD_TYPE_CONCURRENCY}"
proof (cases "\<exists>l. cap = Some l \<and> \<not> l - int (countOccupyingJobs orgId grp None db) \<le> 0")
  case True
  then obtain l where l: "cap = Some l" "\<not> l - int (countOccupyingJobs orgId grp None db) \<le> 0" by blast
  define hs where "hs = take (nat (l - int (countOccupyingJobs orgId grp None db))) (listQueuedHoldsForContext orgId grp db)"
  have "set hs \<subseteq> {x \<in> set (held_runs db). hr_hold_type x = HOLD_TYPE_CONCURRENCY}"
    using queued_are_concurrency [of orgId grp db] set_take_subset unfolding hs_def by (meson order_trans)
  moreover have "releaseQueuedHolds now orgId grp cap f db = release_each now orgId f hs db"
    using l by (simp add: releaseQueuedHolds_def hs_def Let_def)
  ultimately show thesis using that(2) by blast
next
  case False
  then show thesis using that(1) by (auto simp: releaseQueuedHolds_def Let_def split: option.splits)
qed

fun effect_hold :: "hold_effect \<Rightarrow> string option" where
  "effect_hold (EffSettle i s p) = Some i"
| "effect_hold (EffResume i p) = Some i"
| "effect_hold (EffWorkflowReject i r) = Some i"
| "effect_hold (EffStepExpired i) = Some i"
| "effect_hold (EffFailRun i r) = Some i"
| "effect_hold (EffCloseChecks r) = None"
| "effect_hold (EffDeleteContext r) = None"
| "effect_hold (EffAudit i) = Some i"
| "effect_hold (EffStrandedJob i) = Some i"

text \<open>What the release of queued holds may do to the table and which holds its effects name.\<close>

definition only_queued :: "held_db \<Rightarrow> held_db \<times> hold_effect list \<Rightarrow> bool" where
  "only_queued db r \<longleftrightarrow> held_step\<^sup>*\<^sup>* db (fst r) \<and>
     (\<forall>x \<in> set (held_runs (fst r)). hr_status x = HApproved \<or> x \<in> set (held_runs db)) \<and>
     (held_ok db \<longrightarrow> (\<forall>h \<in> set (held_runs db). hr_hold_type h \<noteq> HOLD_TYPE_CONCURRENCY \<longrightarrow>
        h \<in> set (held_runs (fst r)) \<and> Some (hr_id h) \<notin> effect_hold ` set (snd r)))"

lemma only_queued_refl: "only_queued db (db, [])"
  by (simp add: only_queued_def)

lemma held_ok_steps: "held_step\<^sup>*\<^sup>* db db' \<Longrightarrow> held_ok db \<Longrightarrow> held_ok db'"
  by (rule held.run_inv)

lemma only_queued_seq:
  assumes "only_queued db (db1, es1)" "only_queued db1 (db2, es2)"
  shows "only_queued db (db2, es1 @ es2)"
proof -
  have "held_step\<^sup>*\<^sup>* db db2" using assms by (auto simp: only_queued_def)
  moreover have "\<forall>x \<in> set (held_runs db2). hr_status x = HApproved \<or> x \<in> set (held_runs db)"
    using assms by (auto simp: only_queued_def)
  moreover have "h \<in> set (held_runs db2) \<and> Some (hr_id h) \<notin> effect_hold ` set (es1 @ es2)"
    if "held_ok db" "h \<in> set (held_runs db)" "hr_hold_type h \<noteq> HOLD_TYPE_CONCURRENCY" for h
  proof -
    have "held_ok db1" using assms(1) that(1) held_ok_steps by (auto simp: only_queued_def)
    with assms that show ?thesis by (auto simp: only_queued_def image_Un)
  qed
  ultimately show ?thesis by (simp add: only_queued_def)
qed

lemma only_queued_release:
  "only_queued db (snd (releaseQueuedHolds now orgId grp cap f db),
     map (\<lambda>s. EffResume (rs_holdId s) (ResumeJob s)) (fst (releaseQueuedHolds now orgId grp cap f db)))"
proof (rule releaseQueued_cases [of now orgId grp cap f db])
  assume "releaseQueuedHolds now orgId grp cap f db = ([], db)"
  then show ?thesis by (simp add: only_queued_refl)
next
  fix hs
  assume e: "releaseQueuedHolds now orgId grp cap f db = release_each now orgId f hs db"
    and hs: "set hs \<subseteq> {x \<in> set (held_runs db). hr_hold_type x = HOLD_TYPE_CONCURRENCY}"
  have notin: "hr_id h \<notin> hr_id ` set hs"
    if "held_ok db" "h \<in> set (held_runs db)" "hr_hold_type h \<noteq> HOLD_TYPE_CONCURRENCY" for h
    using id_unique [OF that(1,2)] hs that(3) by fastforce
  show ?thesis
    unfolding e only_queued_def fst_conv snd_conv
  proof (intro conjI impI ballI)
    show "held_step\<^sup>*\<^sup>* db (snd (release_each now orgId f hs db))" by (rule release_each_steps)
    show "hr_status x = HApproved \<or> x \<in> set (held_runs db)"
      if "x \<in> set (held_runs (snd (release_each now orgId f hs db)))" for x
      by (rule release_each_rows [OF that])
    show "h \<in> set (held_runs (snd (release_each now orgId f hs db)))"
      if "held_ok db" "h \<in> set (held_runs db)" "hr_hold_type h \<noteq> HOLD_TYPE_CONCURRENCY" for h
      by (rule release_each_keeps [OF that(2) notin [OF that]])
    show "Some (hr_id h) \<notin> effect_hold ` set (map (\<lambda>s. EffResume (rs_holdId s) (ResumeJob s)) (fst (release_each now orgId f hs db)))"
      if "held_ok db" "h \<in> set (held_runs db)" "hr_hold_type h \<noteq> HOLD_TYPE_CONCURRENCY" for h
    proof
      assume "Some (hr_id h) \<in> effect_hold ` set (map (\<lambda>s. EffResume (rs_holdId s) (ResumeJob s)) (fst (release_each now orgId f hs db)))"
      then obtain s where "s \<in> set (fst (release_each now orgId f hs db))" "hr_id h = rs_holdId s" by auto
      with release_each_ids notin [OF that] show False by metis
    qed
  qed
qed

lemma only_queued_groups: "only_queued db (release_groups d now gs db)"
proof (induction d now gs db rule: release_groups.induct)
  case (1 d now db)
  then show ?case by (simp add: only_queued_refl)
next
  case (2 d now orgId grp gs db)
  show ?case
  proof (cases "dt_matchContext d orgId grp")
    case None
    with 2 show ?thesis by simp
  next
    case (Some cap)
    obtain sigs db1 where r: "releaseQueuedHolds now orgId grp cap (dt_jobReleaseSucceeds d) db = (sigs, db1)"
      by (cases "releaseQueuedHolds now orgId grp cap (dt_jobReleaseSucceeds d) db")
    obtain db2 es where g: "release_groups d now gs db1 = (db2, es)" by (cases "release_groups d now gs db1")
    have "only_queued db1 (db2, es)" using 2(2) [OF Some r [symmetric]] g by simp
    moreover have "only_queued db (db1, map (\<lambda>s. EffResume (rs_holdId s) (ResumeJob s)) sigs)"
      using only_queued_release [of db now orgId grp cap "dt_jobReleaseSucceeds d"] by (simp add: r)
    ultimately show ?thesis using Some r g by (simp add: only_queued_seq)
  qed
qed

lemma only_queued_freed: "only_queued db (releaseFreedConcurrencyHolds d now db)"
  by (simp add: releaseFreedConcurrencyHolds_def only_queued_refl only_queued_groups)

lemma releaseDue_rows:
  assumes "releaseDueWaitHolds now db = (sigs, db')"
  shows "x \<in> set (held_runs db') \<Longrightarrow> hr_status x = HReleased \<or> x \<in> set (held_runs db)"
    and "h \<in> set (held_runs db) \<Longrightarrow> \<not> (overdue now h \<and> hr_hold_type h = HOLD_TYPE_TIMER) \<Longrightarrow> h \<in> set (held_runs db')"
    and "x \<in> set (held_runs db') \<Longrightarrow> \<not> (overdue now x \<and> hr_hold_type x = HOLD_TYPE_TIMER)"
    and "s \<in> set sigs \<Longrightarrow> \<exists>y \<in> set (held_runs db). overdue now y \<and> rs_holdId s = hr_id y"
    and "held_step db db'"
proof -
  have e: "db' = snd (releaseDueWaitHolds now db)" "sigs = fst (releaseDueWaitHolds now db)"
    using assms by simp_all
  show "x \<in> set (held_runs db') \<Longrightarrow> hr_status x = HReleased \<or> x \<in> set (held_runs db)"
    unfolding e releaseDueWaitHolds_def by (auto simp: Let_def set_update_where)
  show "h \<in> set (held_runs db) \<Longrightarrow> \<not> (overdue now h \<and> hr_hold_type h = HOLD_TYPE_TIMER) \<Longrightarrow> h \<in> set (held_runs db')"
    unfolding e releaseDueWaitHolds_def by (auto simp: Let_def set_update_where intro!: image_eqI [of h _ h])
  show "x \<in> set (held_runs db') \<Longrightarrow> \<not> (overdue now x \<and> hr_hold_type x = HOLD_TYPE_TIMER)"
    unfolding e releaseDueWaitHolds_def by (auto simp: Let_def set_update_where overdue_def)
  show "s \<in> set sigs \<Longrightarrow> \<exists>y \<in> set (held_runs db). overdue now y \<and> rs_holdId s = hr_id y"
    unfolding e releaseDueWaitHolds_def by (auto simp: Let_def toReleaseSignal_def)
  show "held_step db db'" unfolding e by (rule st_releaseDue)
qed

lemma sweep_route_ids: "e \<in> set (sweep_route d s) \<Longrightarrow> effect_hold e = Some (rs_holdId s)"
  by (auto simp: sweep_route_def routeRelease_def split: if_splits)

lemma expire_one_ids:
  "e \<in> set (fst (expire_one d db ex settled h)) \<Longrightarrow> effect_hold e = Some (hr_id h) \<or> effect_hold e = None"
  by (auto simp: expire_one_def Let_def split: prod.splits if_splits)

lemma expire_each_ids:
  "e \<in> set (expire_each d db ex settled hs) \<Longrightarrow> effect_hold e = None \<or> (\<exists>h \<in> set hs. effect_hold e = Some (hr_id h))"
proof (induction hs arbitrary: settled)
  case (Cons h hs)
  obtain es s' where o: "expire_one d db ex settled h = (es, s')" by (cases "expire_one d db ex settled h")
  show ?case
    using Cons.prems Cons.IH [of s'] expire_one_ids [of e d db ex settled h] by (auto simp: o)
qed simp

definition treated :: "held_run \<Rightarrow> hold_effect list \<Rightarrow> bool" where
  "treated h es \<longleftrightarrow> EffStepExpired (hr_id h) \<in> set es \<or> EffFailRun (hr_id h) (hr_run_id h) \<in> set es"

lemma expire_each_treats:
  assumes "dt_hasStepBridge d" "dt_hasFailRun d" "h \<in> set hs"
  shows "treated h (expire_each d db ex settled hs)"
  using assms(3)
proof (induction hs arbitrary: settled)
  case (Cons x hs)
  obtain es s' where o: "expire_one d db ex settled x = (es, s')" by (cases "expire_one d db ex settled x")
  show ?case
  proof (cases "h = x")
    case True
    have "treated x es"
      using o assms(1,2) by (auto simp: expire_one_def treated_def Let_def split: prod.splits if_splits)
    with True o show ?thesis by (auto simp: treated_def)
  next
    case False
    with Cons have "treated h (expire_each d db ex s' hs)" by simp
    with o show ?thesis by (auto simp: treated_def)
  qed
qed simp

text \<open>The stages of a scan.\<close>

lemma scan_stages:
  assumes "scan_holds d t1 t2 t3 db = (db', es)"
  obtains sigs db1 db2 es2 where "releaseDueWaitHolds t1 db = (sigs, db1)"
    "releaseFreedConcurrencyHolds d t1 db1 = (db2, es2)" "db' = snd (expireOverdue t3 db2)"
    "es = concat (map (sweep_route d) sigs) @ es2 @ expire_each d db2 (map hr_id (listOverdue t2 db2)) [] (listOverdue t2 db2)"
proof -
  obtain sigs db1 where 1: "releaseDueWaitHolds t1 db = (sigs, db1)" by (cases "releaseDueWaitHolds t1 db")
  obtain db2 es2 where 2: "releaseFreedConcurrencyHolds d t1 db1 = (db2, es2)"
    by (cases "releaseFreedConcurrencyHolds d t1 db1")
  show thesis
    using assms that [OF 1 2]
    by (simp add: scan_holds_def andThen_def sweep_releaseDueWaitHolds_def 1 2 expireOverdueHolds_def Let_def)
qed

text \<open>
  If the clock readings of a scan agree (no later statement reads a later time), the scan
  expires only what it treats: a hold that goes from pending to expired is no wait timer, and its
  waiting step was told or its run was failed.
\<close>

theorem expired_holds_are_treated:
  assumes "held_ok db" "scan_holds d t1 t2 t3 db = (db', es)" "t3 \<le> t1" "t3 \<le> t2"
    and "dt_hasStepBridge d" "dt_hasFailRun d"
    and "h \<in> set (held_runs db)" "hr_status h = HPending"
    and "h' \<in> set (held_runs db')" "hr_id h' = hr_id h" "hr_status h' = HExpired"
  shows "hr_hold_type h \<noteq> HOLD_TYPE_TIMER \<and> treated h es"
proof -
  obtain sigs db1 db2 es2 where s: "releaseDueWaitHolds t1 db = (sigs, db1)"
    "releaseFreedConcurrencyHolds d t1 db1 = (db2, es2)" "db' = snd (expireOverdue t3 db2)"
    and es: "es = concat (map (sweep_route d) sigs) @ es2 @
      expire_each d db2 (map hr_id (listOverdue t2 db2)) [] (listOverdue t2 db2)"
    by (rule scan_stages [OF assms(2)])
  have oq: "\<forall>x \<in> set (held_runs db2). hr_status x = HApproved \<or> x \<in> set (held_runs db1)"
    using only_queued_freed [of db1 d t1] s(2) by (simp add: only_queued_def)
  obtain x where x: "x \<in> set (held_runs db2)"
    "h' = (if overdue t3 x then x\<lparr>hr_status := HExpired, hr_resolved_at := Some t3\<rparr> else x)"
    using assms(9) unfolding s(3) expireOverdue_def by (auto simp: set_update_where)
  have nap: "hr_status x \<noteq> HApproved" "hr_status x \<noteq> HReleased" "hr_id x = hr_id h"
    using x(2) assms(10,11) by (auto simp: overdue_def split: if_splits)
  then have "x \<in> set (held_runs db1)" using oq x(1) by blast
  then have xdb: "x \<in> set (held_runs db)" and nt: "\<not> (overdue t1 x \<and> hr_hold_type x = HOLD_TYPE_TIMER)"
    using releaseDue_rows(1,3) [OF s(1)] nap(2) by blast+
  have xh: "x = h" by (rule id_unique [OF assms(1) xdb assms(7) nap(3)])
  have due: "overdue t3 h"
    using x(2) assms(8,11) unfolding xh by (auto split: if_splits)
  have "hr_hold_type h \<noteq> HOLD_TYPE_TIMER"
    using nt due assms(3) unfolding xh by (auto simp: overdue_def)
  moreover have "h \<in> set (listOverdue t2 db2)"
    using x(1) due assms(4) unfolding xh by (auto simp: listOverdue_def overdue_def)
  then have "treated h es"
    using expire_each_treats [OF assms(5,6)] unfolding es treated_def by fastforce
  ultimately show ?thesis ..
qed

text \<open>
  A hold that falls due between the readings of one scan is expired and nothing else: no
  effect of the scan names it. A wait timer that should have resumed its job is lost that way,
  and the run of any other hold is never failed.
\<close>

theorem due_between_readings_expires_untreated:
  assumes "held_ok db" "scan_holds d t1 t2 t3 db = (db', es)"
    and "h \<in> set (held_runs db)" "hr_status h = HPending" "hr_hold_type h \<noteq> HOLD_TYPE_CONCURRENCY"
    and "t1 \<le> hr_expires_at h" "t2 \<le> hr_expires_at h" "hr_expires_at h < t3"
  shows "h\<lparr>hr_status := HExpired, hr_resolved_at := Some t3\<rparr> \<in> set (held_runs db') \<and>
    Some (hr_id h) \<notin> effect_hold ` set es"
proof -
  obtain sigs db1 db2 es2 where s: "releaseDueWaitHolds t1 db = (sigs, db1)"
    "releaseFreedConcurrencyHolds d t1 db1 = (db2, es2)" "db' = snd (expireOverdue t3 db2)"
    and es: "es = concat (map (sweep_route d) sigs) @ es2 @
      expire_each d db2 (map hr_id (listOverdue t2 db2)) [] (listOverdue t2 db2)"
    by (rule scan_stages [OF assms(2)])
  have ok1: "held_ok db1" using step_le_ok [OF releaseDue_rows(5) [OF s(1)]] assms(1) by simp
  have h1: "h \<in> set (held_runs db1)"
    using releaseDue_rows(2) [OF s(1) assms(3)] assms(6) by (auto simp: overdue_def)
  have oq: "held_step\<^sup>*\<^sup>* db1 db2" "h \<in> set (held_runs db2)" "Some (hr_id h) \<notin> effect_hold ` set es2"
    using only_queued_freed [of db1 d t1] s(2) ok1 h1 assms(5) by (simp_all add: only_queued_def)
  have ok2: "held_ok db2" by (rule held_ok_steps [OF oq(1) ok1])
  have notdue: "hr_id y \<noteq> hr_id h" if "y \<in> set (held_runs dx)" "overdue t y" "held_ok dx" "h \<in> set (held_runs dx)" "t \<le> hr_expires_at h" for y t dx
    using id_unique [OF that(3,1,4)] that(2,5) by (auto simp: overdue_def)
  have "Some (hr_id h) \<notin> effect_hold ` set (concat (map (sweep_route d) sigs))"
  proof
    assume "Some (hr_id h) \<in> effect_hold ` set (concat (map (sweep_route d) sigs))"
    then obtain sg where "sg \<in> set sigs" "rs_holdId sg = hr_id h" using sweep_route_ids by fastforce
    with releaseDue_rows(4) [OF s(1)] notdue [OF _ _ assms(1,3,6)] show False by metis
  qed
  moreover have "Some (hr_id h) \<notin> effect_hold ` set (expire_each d db2 (map hr_id (listOverdue t2 db2)) [] (listOverdue t2 db2))"
  proof
    assume "Some (hr_id h) \<in> effect_hold ` set (expire_each d db2 (map hr_id (listOverdue t2 db2)) [] (listOverdue t2 db2))"
    then obtain y where "y \<in> set (listOverdue t2 db2)" "hr_id y = hr_id h" using expire_each_ids by fastforce
    with notdue [OF _ _ ok2 oq(2) assms(7)] show False by (auto simp: listOverdue_def)
  qed
  moreover have "h\<lparr>hr_status := HExpired, hr_resolved_at := Some t3\<rparr> \<in> set (held_runs db')"
    using oq(2) assms(4,8) unfolding s(3) expireOverdue_def
    by (auto simp: set_update_where overdue_def intro!: image_eqI [of _ _ h])
  ultimately show ?thesis using oq(3) by (simp add: es image_Un)
qed

section \<open>Witnesses\<close>

definition open_env :: settle_env where
  "open_env = \<lparr>se_hasResolver = True, se_hasDb = True, se_poster = (\<lambda>_. True), se_accepts = (\<lambda>_. True)\<rparr>"

definition pr_run :: run_row where
  "pr_run = \<lparr>rn_run_id = ''r1'', rn_customer_id = Some ''acme'', rn_repo_identifier = Some ''o/r'', rn_sha = Some ''abc'',
     rn_routing_key = Some ''k'', rn_pr_number = Some 7, rn_context = None\<rparr>"

definition held_example :: "string \<Rightarrow> held_db" where
  "held_example t = (snd (create ''h1'' 5 ''acme'' (sample_create\<lparr>cd_holdType := t\<rparr>) sample_db))\<lparr>execution_runs := [pr_run]\<rparr>"

definition the_hold :: "string \<Rightarrow> held_run" where
  "the_hold t = hd (held_runs (held_example t))"

lemmas held_eval = held_example_def the_hold_def create_def sample_create_def sample_db_def Let_def

lemma held_example_facts:
  "held_ok (held_example t)" "the_hold t \<in> set (held_runs (held_example t))" "hr_id (the_hold t) = ''h1''"
  "hr_status (the_hold t) = HPending" "hr_hold_type (the_hold t) = t" "hr_expires_at (the_hold t) = 100"
  "hr_run_id (the_hold t) = ''r1''" "hr_org_id (the_hold t) = ''acme''" "hr_hold_scope (the_hold t) = ScopeJob"
  "held_runs (held_example t) = [the_hold t]"
  by (simp_all add: held_eval held_ok_def)

definition marked_example :: held_db where
  "marked_example = markPendingCheckPosted ''acme'' [''h1''] (held_example ''security'')"

lemma settle_iff_last_owner_witness:
  "fst (settleSecurityHoldCheck open_env marked_example (hd (held_runs marked_example)) ConclSuccess [] []) = SettlePosted \<and>
   fst (settleSecurityHoldCheck open_env marked_example ((hd (held_runs marked_example))\<lparr>hr_id := ''h2''\<rparr>) ConclSuccess [] [])
     \<noteq> SettlePosted"
  unfolding settle_iff_last_owner
  by (simp add: marked_example_def markPendingCheckPosted_def update_where_def held_eval open_env_def pr_run_def
      postedPendingSecurityCheck_def loadHoldCommit_def run_of_def joined_def)

definition approve_comment :: comment_params where
  "approve_comment = \<lparr>cp_commentBody = ''/kici approve'', cp_commenterUsername = ''bob'', cp_commenterUserId = Some ''42'',
     cp_provider = ''github'', cp_repoIdentifier = ''o/r'', cp_prNumber = 7, cp_orgId = ''acme'',
     cp_identityLinks = [\<lparr>il_userId = ''u1'', il_provider = ''github'', il_providerUsername = ''bob'', il_providerUserId = Some ''42''\<rparr>],
     cp_orgMemberPermissions = [(''u1'', TrustWrite)], cp_hasJobRelease = True, cp_hasWorkflowRelease = True,
     cp_workflowReject = None\<rparr>"

lemma comment_touches_only_its_pull_request_witness:
  "the_hold ''security'' \<notin> set (held_runs (fst (snd (handleApprovalComment open_env 9 approve_comment (held_example ''security''))))) \<and>
   may_decide approve_comment"
proof -
  have cmd: "parseKiciCommand ''/kici approve'' = Some \<lparr>cm_action = DecApprove, cm_runId = None\<rparr>"
    by code_simp
  have n: "the_hold ''security'' \<notin> set (held_runs (fst (snd (handleApprovalComment open_env 9 approve_comment (held_example ''security'')))))"
    by (simp add: handleApprovalComment_def approve_comment_def cmd findIdentityLink_def comment_approve_def
        listPendingSecurityHoldsForPr_def newest_first_def order_by_def joined_def run_of_def pr_run_def
        approveByQueueType_def or_throw_def update_returning_def pending_of_def update_where_def held_eval)
  obtain res db' es where r: "handleApprovalComment open_env 9 approve_comment (held_example ''security'') = (res, db', es)"
    by (cases "handleApprovalComment open_env 9 approve_comment (held_example ''security'')")
  from comment_touches_only_its_pull_request [OF held_example_facts(1) r held_example_facts(2)] n
  show ?thesis by (simp add: r)
qed

definition full_detector :: detector where
  "full_detector = \<lparr>dt_hasWorkflowRelease = True, dt_hasJobRelease = True, dt_hasStepBridge = True, dt_hasFailRun = True,
     dt_failRunThrows = (\<lambda>_. False), dt_hasMatchContext = False, dt_matchContext = (\<lambda>_ _. None),
     dt_jobReleaseSucceeds = (\<lambda>_. True), dt_env = open_env\<rparr>"

lemma expired_holds_are_treated_witness:
  "treated (the_hold ''security'') (snd (scan_holds full_detector 101 101 101 (held_example ''security'')))"
proof -
  obtain db' es where r: "scan_holds full_detector 101 101 101 (held_example ''security'') = (db', es)"
    by (cases "scan_holds full_detector 101 101 101 (held_example ''security'')")
  have db': "db' = fst (scan_holds full_detector 101 101 101 (held_example ''security''))" using r by simp
  have rows: "held_runs db' = [(the_hold ''security'')\<lparr>hr_status := HExpired, hr_resolved_at := Some 101\<rparr>]"
    unfolding db' by (simp add: scan_holds_def andThen_def sweep_releaseDueWaitHolds_def releaseDueWaitHolds_def overdue_def
        HOLD_TYPE_TIMER_def releaseFreedConcurrencyHolds_def full_detector_def expireOverdueHolds_def expireOverdue_def
        update_where_def held_example_facts Let_def split: prod.splits)
  have "hr_hold_type (the_hold ''security'') \<noteq> HOLD_TYPE_TIMER \<and> treated (the_hold ''security'') es"
    by (rule expired_holds_are_treated [OF held_example_facts(1) r _ _ _ _ held_example_facts(2,4),
        where h' = "(the_hold ''security'')\<lparr>hr_status := HExpired, hr_resolved_at := Some 101\<rparr>"])
      (simp_all add: full_detector_def rows)
  with r show ?thesis by simp
qed

lemma due_between_readings_expires_untreated_witness:
  "(the_hold HOLD_TYPE_TIMER)\<lparr>hr_status := HExpired, hr_resolved_at := Some 101\<rparr>
     \<in> set (held_runs (fst (scan_holds full_detector 100 100 101 (held_example HOLD_TYPE_TIMER)))) \<and>
   Some ''h1'' \<notin> effect_hold ` set (snd (scan_holds full_detector 100 100 101 (held_example HOLD_TYPE_TIMER)))"
proof -
  obtain db' es where r: "scan_holds full_detector 100 100 101 (held_example HOLD_TYPE_TIMER) = (db', es)"
    by (cases "scan_holds full_detector 100 100 101 (held_example HOLD_TYPE_TIMER)")
  have "HOLD_TYPE_TIMER \<noteq> HOLD_TYPE_CONCURRENCY" by (simp add: HOLD_TYPE_TIMER_def HOLD_TYPE_CONCURRENCY_def)
  then have "(the_hold HOLD_TYPE_TIMER)\<lparr>hr_status := HExpired, hr_resolved_at := Some 101\<rparr> \<in> set (held_runs db') \<and>
      Some (hr_id (the_hold HOLD_TYPE_TIMER)) \<notin> effect_hold ` set es"
    by (intro due_between_readings_expires_untreated [OF held_example_facts(1) r held_example_facts(2,4)])
      (simp_all add: held_example_facts)
  then show ?thesis by (simp add: r held_example_facts(3))
qed

end
