(* ===== verification/JobSeal.thy ===== *)
theory JobSeal
  imports Js_Strings
begin

text \<open>
  The secret fields of a stored job, sealed under the orchestrator master key:
  \<open>packages/orchestrator/src/secrets/job-secret-seal.ts\<close>.

  The authenticated cipher with the JSON codec in front of it is the parameter \<open>cipher\<close>:
  \<open>encrypt_json k aad v\<close> is the ciphertext of \<open>JSON.stringify v\<close> and \<open>decrypt_json k aad s\<close> is
  \<open>JSON.parse\<close> of the plaintext, or the text of the error that either of them throws. An object
  is the list of its own properties in their order.
\<close>

section \<open>Sealing\<close>

record 'k cipher =
  encrypt_json :: "'k \<Rightarrow> string \<Rightarrow> js \<Rightarrow> string"
  decrypt_json :: "'k \<Rightarrow> string \<Rightarrow> string \<Rightarrow> string + js"

record 'k sealing_keys =
  current_key :: 'k
  old_key :: "'k option"

datatype unseal_error = JobSecretsUnsealError run_id string

definition SEALED_JOB_CONFIG_KEYS :: "string list" where
  "SEALED_JOB_CONFIG_KEYS =
     [''secrets'', ''namespacedSecrets'', ''installEnvSecrets'', ''containerRegistryAuth'',
      ''npmRegistries'', ''orchestratorPrivateKey'']"

definition jobSecretsAad :: "run_id \<Rightarrow> string" where
  "jobSecretsAad runId = ''job-secrets:'' @ runId"

definition sealJobSecretValue ::
  "'k cipher \<Rightarrow> 'k sealing_keys option \<Rightarrow> run_id \<Rightarrow> js \<Rightarrow> string option" where
  "sealJobSecretValue c keys runId v =
     (case keys of None \<Rightarrow> None
      | Some ks \<Rightarrow> Some (encrypt_json c (current_key ks) (jobSecretsAad runId) v))"

definition unsealJobSecretValue ::
  "'k cipher \<Rightarrow> 'k sealing_keys option \<Rightarrow> run_id \<Rightarrow> string \<Rightarrow> unseal_error + js" where
  "unsealJobSecretValue c keys runId sealed =
     (case keys of
        None \<Rightarrow> Inl (JobSecretsUnsealError runId ''no master key is configured'')
      | Some ks \<Rightarrow>
          (case decrypt_json c (current_key ks) (jobSecretsAad runId) sealed of
             Inr v \<Rightarrow> Inr v
           | Inl primaryErr \<Rightarrow>
               (case old_key ks of
                  None \<Rightarrow> Inl (JobSecretsUnsealError runId primaryErr)
                | Some k \<Rightarrow>
                    (case decrypt_json c k (jobSecretsAad runId) sealed of
                       Inr v \<Rightarrow> Inr v
                     | Inl err \<Rightarrow> Inl (JobSecretsUnsealError runId err)))))"

type_synonym job_config = "(string \<times> js) list"

definition secret_part :: "job_config \<Rightarrow> job_config" where
  "secret_part cfg = filter (\<lambda>(k, v). k \<in> set SEALED_JOB_CONFIG_KEYS) cfg"

definition plain_part :: "job_config \<Rightarrow> job_config" where
  "plain_part cfg = filter (\<lambda>(k, v). k \<notin> set SEALED_JOB_CONFIG_KEYS) cfg"

definition sealJobConfig ::
  "'k cipher \<Rightarrow> 'k sealing_keys option \<Rightarrow> run_id \<Rightarrow> job_config \<Rightarrow> job_config \<times> string option" where
  "sealJobConfig c keys runId cfg =
     (if secret_part cfg = [] then (cfg, None)
      else case sealJobSecretValue c keys runId (JObj (secret_part cfg)) of
             None \<Rightarrow> (cfg, None)
           | Some s \<Rightarrow> (plain_part cfg, Some s))"

text \<open>
  The spread of an object over another. A sealed value that is no object spreads no
  properties (the codec only ever opens objects here).
\<close>

fun spread :: "job_config \<Rightarrow> js \<Rightarrow> job_config" where
  "spread cfg (JObj secret) = fold (\<lambda>(k, v) m. amap_set k v m) secret cfg"
| "spread cfg _ = cfg"

definition unsealJobConfig ::
  "'k cipher \<Rightarrow> 'k sealing_keys option \<Rightarrow> run_id \<Rightarrow> job_config \<Rightarrow> string option
   \<Rightarrow> unseal_error + job_config" where
  "unsealJobConfig c keys runId cfg sealed =
     (case sealed of
        None \<Rightarrow> Inr cfg
      | Some s \<Rightarrow> (case unsealJobSecretValue c keys runId s of
                     Inl e \<Rightarrow> Inl e | Inr v \<Rightarrow> Inr (spread cfg v)))"

section \<open>What sealing keeps\<close>

lemma map_of_spread: "map_of (spread cfg (JObj secret)) k =
    (case map_of (rev secret) k of None \<Rightarrow> map_of cfg k | Some v \<Rightarrow> Some v)"
  by (induction secret arbitrary: cfg) (auto simp: map_add_def split: option.splits)

lemma map_of_rev_distinct: "distinct (map fst m) \<Longrightarrow> map_of (rev m) = map_of m"
  by (rule map_of_inject_set [THEN iffD2]) (simp_all add: rev_map [symmetric])

lemma map_of_secret_part:
  "map_of (secret_part cfg) k = (if k \<in> set SEALED_JOB_CONFIG_KEYS then map_of cfg k else None)"
  by (induction cfg) (auto simp: secret_part_def)

lemma map_of_plain_part:
  "map_of (plain_part cfg) k = (if k \<in> set SEALED_JOB_CONFIG_KEYS then None else map_of cfg k)"
  by (induction cfg) (auto simp: plain_part_def)

lemma distinct_secret_part: "distinct (map fst cfg) \<Longrightarrow> distinct (map fst (secret_part cfg))"
  by (simp add: secret_part_def distinct_map_filter)

lemma spread_parts:
  assumes "distinct (map fst cfg)"
  shows "map_of (spread (plain_part cfg) (JObj (secret_part cfg))) = map_of cfg"
  by (rule ext) (simp add: map_of_spread map_of_rev_distinct [OF distinct_secret_part [OF assms]]
      map_of_secret_part map_of_plain_part split: option.splits del: spread.simps)

text \<open>
  Whoever holds the key that sealed a config, as its current key or as its old one, reads the
  same fields back; another current key must refuse the ciphertext, as an authenticated cipher
  does.
\<close>

definition holds_key :: "'k cipher \<Rightarrow> 'k sealing_keys \<Rightarrow> 'k \<Rightarrow> run_id \<Rightarrow> string \<Rightarrow> bool" where
  "holds_key c ks k runId sealed \<longleftrightarrow>
     current_key ks = k \<or>
     old_key ks = Some k \<and> (\<exists>e. decrypt_json c (current_key ks) (jobSecretsAad runId) sealed = Inl e)"

lemma unseal_value:
  assumes "holds_key c ks k runId s"
    and "decrypt_json c k (jobSecretsAad runId) s = Inr v"
  shows "unsealJobSecretValue c (Some ks) runId s = Inr v"
  using assms by (auto simp: holds_key_def unsealJobSecretValue_def split: option.splits)


text \<open>A cipher for the witness: the ciphertext names its key and its run.\<close>

definition demo_secret :: js where
  "demo_secret = JObj [(''secrets'', JObj [(''TOKEN'', JStr ''t0p'')])]"

definition demo_cipher :: "string cipher" where
  "demo_cipher = \<lparr>encrypt_json = (\<lambda>k aad v. k @ ''|'' @ aad),
     decrypt_json = (\<lambda>k aad s. if s = k @ ''|'' @ aad then Inr demo_secret else Inl ''auth failed'')\<rparr>"

definition demo_config :: job_config where
  "demo_config = [(''name'', JStr ''build''), (''secrets'', JObj [(''TOKEN'', JStr ''t0p'')])]"


end
