(* ===== verification/DispatchQueue.thy ===== *)
theory DispatchQueue
  imports JobSeal Labels Statuses Fanout
begin

text \<open>
  The job queue of the orchestrator, \<open>packages/orchestrator/src/queue/job-queue.ts\<close>: the table
  \<open>dispatch_queue\<close> that every coordinator of a cluster shares, with every operation of
  \<open>JobQueue\<close>.

  A statement is atomic. A row lock that another transaction holds when a statement runs with
  SKIP LOCKED is in the argument \<open>locked\<close>. An operation of two statements takes the argument
  \<open>others\<close>: what other coordinators do to the database between them. The clock of the database
  and the clock of the process are separate fields of \<open>clock\<close>; a generated identifier is an
  argument. Comparisons with NULL are false, and \<open>@>\<close> on JSON arrays of strings is inclusion of
  their elements. The columns that the queue only carries are one record. A selector column is
  the array that the driver has parsed, so the branches for JSON text and for malformed text are
  left out, and so is logging.
\<close>

section \<open>The table\<close>

datatype dq_status =
  DqPending | DqDispatched | DqCompleted | DqFailed | DqExpired | DqRecovering | DqCancelled

definition TERMINAL_DISPATCH_STATUSES :: "dq_status list" where
  "TERMINAL_DISPATCH_STATUSES = [DqCompleted, DqFailed, DqExpired, DqCancelled]"

definition MAX_DISPATCH_ATTEMPTS :: nat where "MAX_DISPATCH_ATTEMPTS = 5"
definition MAX_DEFERRED_UNOPENABLE :: nat where "MAX_DEFERRED_UNOPENABLE = 1000"

record job_columns =
  jc_workflow_name :: string
  jc_repo_url :: string
  jc_ref :: string
  jc_sha :: string
  jc_delivery_id :: string
  jc_provider :: string
  jc_provider_context :: js
  jc_source_tar_url :: "string option"
  jc_source_tar_digest :: "string option"
  jc_deps_url :: "string option"
  jc_deps_hash :: "string option"
  jc_request_id :: "string option"
  jc_routing_key :: string

record dq_row =
  dq_id :: job_id
  dq_run_id :: run_id
  dq_job_name :: string
  dq_runs_on_labels :: "string list"
  dq_job_config :: job_config
  dq_sealed_secrets :: "string option"
  dq_columns :: job_columns
  dq_status :: dq_status
  dq_created_at :: millis
  dq_expires_at :: "millis option"
  dq_exclude_labels :: "string list"
  dq_runs_on_patterns :: "label_matcher list"
  dq_exclude_patterns :: "label_matcher list"
  dq_pinned_agent_id :: "agent_id option"
  dq_agent_id :: "agent_id option"
  dq_owner_instance_id :: "instance_id option"
  dq_dispatched_at :: "millis option"
  dq_ack_deadline :: "millis option"
  dq_ack_agent_id :: "agent_id option"
  dq_recovery_deadline :: "millis option"
  dq_recovery_agent_id :: "agent_id option"
  dq_dispatch_attempts :: nat
  dq_last_provisioning_error :: "string option"
  dq_unroutable_since :: "millis option"

text \<open>The columns of the other tables that these statements read or write.\<close>

record exec_job =
  ej_run_id :: run_id
  ej_job_id :: job_id
  ej_status :: job_status
  ej_completed_at :: "millis option"
  ej_error_message :: "string option"
  ej_routing_reason :: "string option"

record dq_db =
  dispatch_queue :: "dq_row list"
  cluster_instances :: "(instance_id \<times> millis) list"
  run_statuses :: "(run_id \<times> run_status) list"
  exec_jobs :: "exec_job list"

record clock =
  dbNow :: millis
  procNow :: millis

record depth_breakdown =
  byStatus :: "(dq_status \<times> nat) list"
  byLabel :: "(string \<times> nat) list"

text \<open>One coordinator: its \<open>JobQueue\<close> object.\<close>

record coordinator =
  co_instanceId :: "instance_id option"
  co_ownershipGraceMs :: millis
  co_defaultMaxDepth :: int
  co_defaultTimeoutMs :: millis
  co_sealedSecretsRetryBackoffMs :: millis
  co_deferredUnopenable :: "(job_id \<times> millis) list"
  co_depthCache :: "(nat \<times> millis) option"
  co_breakdownCache :: "(depth_breakdown \<times> millis) option"

record 'k queue_env =
  qe_cipher :: "'k cipher"
  qe_keys :: "'k sealing_keys option"
  qe_rx :: regex_engine

section \<open>Who owns a row\<close>

record ownership_options =
  ow_instanceId :: "instance_id option"
  ow_graceMs :: millis
  ow_livePeerIds :: "instance_id list"

definition ownershipOptions :: "coordinator \<Rightarrow> ownership_options" where
  "ownershipOptions c =
     \<lparr>ow_instanceId = co_instanceId c, ow_graceMs = co_ownershipGraceMs c, ow_livePeerIds = []\<rparr>"

definition ownerNotLive :: "millis \<Rightarrow> millis \<Rightarrow> dq_db \<Rightarrow> instance_id option \<Rightarrow> bool" where
  "ownerNotLive graceMs now db owner \<longleftrightarrow>
     \<not> (\<exists>(i, heartbeat) \<in> set (cluster_instances db). owner = Some i \<and> heartbeat > now - max 0 graceMs)"

definition ownerIsLive :: "ownership_options \<Rightarrow> millis \<Rightarrow> dq_db \<Rightarrow> instance_id option \<Rightarrow> bool" where
  "ownerIsLive opts now db owner \<longleftrightarrow>
     (let liveIds = (case ow_instanceId opts of None \<Rightarrow> [] | Some i \<Rightarrow> [i]) @ ow_livePeerIds opts
      in (case owner of None \<Rightarrow> False | Some w \<Rightarrow> w \<in> set liveIds)
         \<or> \<not> ownerNotLive (ow_graceMs opts) now db owner)"

definition recoverableByOwner :: "ownership_options \<Rightarrow> millis \<Rightarrow> dq_db \<Rightarrow> instance_id option \<Rightarrow> bool" where
  "recoverableByOwner opts now db owner \<longleftrightarrow>
     owner \<noteq> None \<and> (ow_instanceId opts \<noteq> None \<and> owner = ow_instanceId opts
                     \<or> ownerNotLive (ow_graceMs opts) now db owner)"

definition writableByOwner :: "ownership_options \<Rightarrow> millis \<Rightarrow> dq_db \<Rightarrow> instance_id option \<Rightarrow> bool" where
  "writableByOwner opts now db owner \<longleftrightarrow>
     owner = None \<or> \<not> ownerIsLive opts now db owner
     \<or> (ow_instanceId opts \<noteq> None \<and> owner = ow_instanceId opts)"

definition notTerminalRun :: "dq_db \<Rightarrow> dq_row \<Rightarrow> bool" where
  "notTerminalRun db r \<longleftrightarrow>
     \<not> (\<exists>(rid, st) \<in> set (run_statuses db).
          rid = dq_run_id r \<and> st \<in> set (TERMINAL_RUN_STATES @ [RCancelling]))"

section \<open>Reading a row\<close>

datatype container_need = NeedNone | NeedImage | NeedDockerfile

definition jobContainerNeed :: "js \<Rightarrow> container_need" where
  "jobContainerNeed container =
     (if \<not> js_truthy container then NeedNone
      else case container of
             JObj o' \<Rightarrow> (case js_get o' ''dockerfile'' of
                 JStr d \<Rightarrow> if length d > 0 then NeedDockerfile else NeedImage
               | _ \<Rightarrow> NeedImage)
           | _ \<Rightarrow> NeedImage)"

definition containerNeedOfStoredConfig :: "job_config \<Rightarrow> container_need" where
  "containerNeedOfStoredConfig cfg = jobContainerNeed (js_get cfg ''container'')"

record expired_job_info =
  ei_id :: job_id
  ei_runId :: run_id
  ei_jobName :: string
  ei_lastProvisioningError :: "string option"
  ei_runsOnLabels :: "string list"
  ei_runsOnPatterns :: "label_matcher list"
  ei_excludeLabels :: "string list"
  ei_excludePatterns :: "label_matcher list"
  ei_container :: container_need

definition rowToExpiredJobInfo :: "dq_row \<Rightarrow> expired_job_info" where
  "rowToExpiredJobInfo r =
     \<lparr>ei_id = dq_id r, ei_runId = dq_run_id r, ei_jobName = dq_job_name r,
      ei_lastProvisioningError = dq_last_provisioning_error r,
      ei_runsOnLabels = canonicalizeLabels (dq_runs_on_labels r),
      ei_runsOnPatterns = map canonicalizeMatcher (dq_runs_on_patterns r),
      ei_excludeLabels = canonicalizeLabels (dq_exclude_labels r),
      ei_excludePatterns = map canonicalizeMatcher (dq_exclude_patterns r),
      ei_container = containerNeedOfStoredConfig (dq_job_config r)\<rparr>"

record dq_job =
  qj_secretsUnavailable :: "unseal_error option"
  qj_id :: job_id
  qj_runId :: run_id
  qj_jobName :: string
  qj_runsOnLabels :: "string list"
  qj_jobConfig :: job_config
  qj_resources :: "js option"
  qj_columns :: job_columns
  qj_status :: dq_status
  qj_createdAt :: millis
  qj_expiresAt :: "millis option"
  qj_excludeLabels :: "string list"
  qj_runsOnPatterns :: "label_matcher list"
  qj_excludePatterns :: "label_matcher list"
  qj_pinnedAgentId :: "agent_id option"

definition resourcesFromJobConfig :: "job_config \<Rightarrow> js option" where
  "resourcesFromJobConfig cfg =
     (case js_get cfg ''resources'' of JObj o' \<Rightarrow> Some (JObj o') | JArr vs \<Rightarrow> Some (JArr vs) | _ \<Rightarrow> None)"

definition unsealRowJobConfig :: "'k queue_env \<Rightarrow> dq_row \<Rightarrow> job_config \<times> unseal_error option" where
  "unsealRowJobConfig env r =
     (case unsealJobConfig (qe_cipher env) (qe_keys env) (dq_run_id r) (dq_job_config r) (dq_sealed_secrets r) of
        Inr cfg \<Rightarrow> (cfg, None)
      | Inl e \<Rightarrow> (dq_job_config r, Some e))"

definition rowToQueuedJob :: "'k queue_env \<Rightarrow> dq_row \<Rightarrow> dq_job" where
  "rowToQueuedJob env r =
     (let (cfg, unavailable) = unsealRowJobConfig env r
      in \<lparr>qj_secretsUnavailable = unavailable, qj_id = dq_id r, qj_runId = dq_run_id r,
          qj_jobName = dq_job_name r, qj_runsOnLabels = canonicalizeLabels (dq_runs_on_labels r),
          qj_jobConfig = cfg, qj_resources = resourcesFromJobConfig cfg, qj_columns = dq_columns r,
          qj_status = dq_status r, qj_createdAt = dq_created_at r, qj_expiresAt = dq_expires_at r,
          qj_excludeLabels = canonicalizeLabels (dq_exclude_labels r),
          qj_runsOnPatterns = map canonicalizeMatcher (dq_runs_on_patterns r),
          qj_excludePatterns = map canonicalizeMatcher (dq_exclude_patterns r),
          qj_pinnedAgentId = dq_pinned_agent_id r\<rparr>)"

definition jobPatternsSatisfiedBy :: "regex_engine \<Rightarrow> dq_job \<Rightarrow> string set \<Rightarrow> bool" where
  "jobPatternsSatisfiedBy rx job labels \<longleftrightarrow>
     (\<forall>p \<in> set (qj_runsOnPatterns job). matcherSatisfiedBy rx p labels)
     \<and> \<not> (\<exists>p \<in> set (qj_excludePatterns job). matcherSatisfiedBy rx p labels)"

section \<open>The caches\<close>

definition rows_with :: "(dq_row \<Rightarrow> bool) \<Rightarrow> dq_db \<Rightarrow> dq_row list" where
  "rows_with P db = filter P (dispatch_queue db)"

definition update_rows :: "(dq_row \<Rightarrow> bool) \<Rightarrow> (dq_row \<Rightarrow> dq_row) \<Rightarrow> dq_db \<Rightarrow> dq_db" where
  "update_rows P f db = db\<lparr>dispatch_queue := update_where P f (dispatch_queue db)\<rparr>"

definition clear_caches :: "coordinator \<Rightarrow> coordinator" where
  "clear_caches c = c\<lparr>co_depthCache := None, co_breakdownCache := None\<rparr>"

definition getDepth :: "clock \<Rightarrow> coordinator \<Rightarrow> dq_db \<Rightarrow> nat \<times> coordinator" where
  "getDepth ck c db =
     (case co_depthCache c of
        Some (n, expiresAt) \<Rightarrow>
          if expiresAt > procNow ck then (n, c)
          else let n = length (rows_with (\<lambda>r. dq_status r = DqPending) db)
               in (n, c\<lparr>co_depthCache := Some (n, procNow ck + 1000)\<rparr>)
      | None \<Rightarrow>
          let n = length (rows_with (\<lambda>r. dq_status r = DqPending) db)
          in (n, c\<lparr>co_depthCache := Some (n, procNow ck + 1000)\<rparr>))"

fun bump :: "'a \<Rightarrow> ('a \<times> nat) list \<Rightarrow> ('a \<times> nat) list" where
  "bump k m = amap_set k (case map_of m k of None \<Rightarrow> 1 | Some n \<Rightarrow> n + 1) m"

definition depth_of_rows :: "dq_row list \<Rightarrow> depth_breakdown" where
  "depth_of_rows rows =
     fold (\<lambda>r b.
        let b' = b\<lparr>byStatus := bump (dq_status r) (byStatus b)\<rparr>
        in if dq_status r \<noteq> DqPending then b'
           else b'\<lparr>byLabel := fold bump (canonicalizeLabels (dq_runs_on_labels r)) (byLabel b')\<rparr>)
     rows \<lparr>byStatus = [(DqPending, 0), (DqDispatched, 0)], byLabel = []\<rparr>"

definition getDepthBreakdown :: "clock \<Rightarrow> coordinator \<Rightarrow> dq_db \<Rightarrow> depth_breakdown \<times> coordinator" where
  "getDepthBreakdown ck c db =
     (let fresh = depth_of_rows (rows_with (\<lambda>r. dq_status r \<in> {DqPending, DqDispatched}) db);
          fill = (fresh, c\<lparr>co_breakdownCache := Some (fresh, procNow ck + 1000),
             co_depthCache := Some (case map_of (byStatus fresh) DqPending of None \<Rightarrow> 0 | Some n \<Rightarrow> n,
                                    procNow ck + 1000)\<rparr>)
      in case co_breakdownCache c of
           Some (b, expiresAt) \<Rightarrow> if expiresAt > procNow ck then (b, c) else fill
         | None \<Rightarrow> fill)"

definition readCachedDepthBreakdown :: "coordinator \<Rightarrow> depth_breakdown option" where
  "readCachedDepthBreakdown c = map_option fst (co_breakdownCache c)"

section \<open>Enqueueing\<close>

record dq_input =
  ji_jobId :: "job_id option"
  ji_runId :: run_id
  ji_jobName :: string
  ji_runsOnLabels :: "string list"
  ji_jobConfig :: job_config
  ji_columns :: job_columns
  ji_timeoutMs :: "millis option"
  ji_excludeLabels :: "string list option"
  ji_runsOnPatterns :: "label_matcher list option"
  ji_excludePatterns :: "label_matcher list option"
  ji_pinnedAgentId :: "agent_id option"

datatype dq_error = QueueFull

definition orDefault :: "'a option \<Rightarrow> 'a \<Rightarrow> 'a" where
  "orDefault x d = (case x of None \<Rightarrow> d | Some v \<Rightarrow> v)"

definition sealedJobConfigColumns :: "'k queue_env \<Rightarrow> dq_input \<Rightarrow> job_config \<times> string option" where
  "sealedJobConfigColumns env job =
     sealJobConfig (qe_cipher env) (qe_keys env) (ji_runId job) (ji_jobConfig job)"

text \<open>The values of a fresh row; a column that the statement does not name takes its default.\<close>

definition row_values :: "'k queue_env \<Rightarrow> job_id \<Rightarrow> millis \<Rightarrow> dq_input \<Rightarrow> dq_row" where
  "row_values env jid now job =
     (let (cfg, sealed) = sealedJobConfigColumns env job
      in \<lparr>dq_id = jid, dq_run_id = ji_runId job, dq_job_name = ji_jobName job,
          dq_runs_on_labels = canonicalizeLabels (ji_runsOnLabels job),
          dq_job_config = cfg, dq_sealed_secrets = sealed, dq_columns = ji_columns job,
          dq_status = DqPending, dq_created_at = now, dq_expires_at = None,
          dq_exclude_labels = canonicalizeLabels (orDefault (ji_excludeLabels job) []),
          dq_runs_on_patterns = orDefault (ji_runsOnPatterns job) [],
          dq_exclude_patterns = orDefault (ji_excludePatterns job) [],
          dq_pinned_agent_id = ji_pinnedAgentId job, dq_agent_id = None,
          dq_owner_instance_id = None, dq_dispatched_at = None, dq_ack_deadline = None,
          dq_ack_agent_id = None, dq_recovery_deadline = None, dq_recovery_agent_id = None,
          dq_dispatch_attempts = 0, dq_last_provisioning_error = None, dq_unroutable_since = None\<rparr>)"

text \<open>INSERT with ON CONFLICT (id) DO NOTHING, and whether it inserted.\<close>

definition insert_row :: "dq_row \<Rightarrow> dq_db \<Rightarrow> bool \<times> dq_db" where
  "insert_row r db =
     (if dq_id r \<in> dq_id ` set (dispatch_queue db) then (False, db)
      else (True, db\<lparr>dispatch_queue := dispatch_queue db @ [r]\<rparr>))"

text \<open>
  \<open>maxDepth\<close> is the cluster setting, when there is a settings reader, and \<open>queueTimeout\<close> the
  resolver of the timeout of an organisation, when there is one.
\<close>

definition enqueue ::
  "'k queue_env \<Rightarrow> int option \<Rightarrow> (dq_input \<Rightarrow> millis) option \<Rightarrow> job_id \<Rightarrow> clock \<Rightarrow> coordinator
   \<Rightarrow> dq_input \<Rightarrow> dq_db \<Rightarrow> (dq_error + job_id) \<times> coordinator \<times> dq_db" where
  "enqueue env maxDepth queueTimeout uuid ck c job db =
     (let maxDepth = orDefault maxDepth (co_defaultMaxDepth c);
          (depth, c1) = getDepth ck c db
      in if int depth \<ge> maxDepth then (Inl QueueFull, c1, db)
         else
           let jid = orDefault (ji_jobId job) uuid;
               clusterTimeout = (case queueTimeout of None \<Rightarrow> co_defaultTimeoutMs c | Some f \<Rightarrow> f job);
               timeoutMs = orDefault (ji_timeoutMs job) clusterTimeout;
               expiresAt = (if timeoutMs > 0 then Some (procNow ck + timeoutMs) else None);
               r = (row_values env jid (procNow ck) job)\<lparr>dq_expires_at := expiresAt\<rparr>
           in (Inr jid, clear_caches c1, snd (insert_row r db)))"

section \<open>The sealed-secrets back-off\<close>

definition isDeferredUnopenable :: "clock \<Rightarrow> coordinator \<Rightarrow> job_id \<Rightarrow> bool" where
  "isDeferredUnopenable ck c jobId =
     (case map_of (co_deferredUnopenable c) jobId of None \<Rightarrow> False | Some until \<Rightarrow> until > procNow ck)"

definition deferUnopenable :: "millis option \<Rightarrow> clock \<Rightarrow> job_id \<Rightarrow> coordinator \<Rightarrow> coordinator" where
  "deferUnopenable setting ck jobId c =
     (let backoffMs = orDefault setting (co_sealedSecretsRetryBackoffMs c);
          m = amap_delete jobId (co_deferredUnopenable c);
          m = (if length m \<ge> MAX_DEFERRED_UNOPENABLE then drop 1 m else m)
      in c\<lparr>co_deferredUnopenable := amap_set jobId (procNow ck + backoffMs) m\<rparr>)"

text \<open>The identifiers to skip, and the coordinator without the entries that have expired.\<close>

definition deferredFilter :: "clock \<Rightarrow> coordinator \<Rightarrow> job_id list \<times> coordinator" where
  "deferredFilter ck c =
     (let m = filter (\<lambda>(j, until). \<not> until \<le> procNow ck) (co_deferredUnopenable c)
      in (map fst m, c\<lparr>co_deferredUnopenable := m\<rparr>))"

section \<open>Claiming\<close>

definition unexpired :: "clock \<Rightarrow> dq_row \<Rightarrow> bool" where
  "unexpired ck r \<longleftrightarrow> (case dq_expires_at r of None \<Rightarrow> True | Some t \<Rightarrow> t \<ge> dbNow ck)"

definition claimTransition :: "clock \<Rightarrow> coordinator \<Rightarrow> agent_id option \<Rightarrow> dq_row \<Rightarrow> dq_row" where
  "claimTransition ck c agentId r =
     r\<lparr>dq_status := DqDispatched, dq_last_provisioning_error := None,
       dq_owner_instance_id := co_instanceId c, dq_dispatched_at := Some (procNow ck),
       dq_agent_id := (case agentId of None \<Rightarrow> dq_agent_id r | Some a \<Rightarrow> Some a)\<rparr>"

text \<open>An UPDATE with a WHERE clause, and whether it changed a row.\<close>

definition update_if :: "(dq_row \<Rightarrow> bool) \<Rightarrow> (dq_row \<Rightarrow> dq_row) \<Rightarrow> dq_db \<Rightarrow> bool \<times> dq_db" where
  "update_if P f db = (list_ex P (dispatch_queue db), update_rows P f db)"

definition claimRowById ::
  "clock \<Rightarrow> coordinator \<Rightarrow> job_id \<Rightarrow> agent_id option \<Rightarrow> dq_db \<Rightarrow> bool \<times> dq_db" where
  "claimRowById ck c jobId agentId =
     update_if (\<lambda>r. dq_id r = jobId \<and> dq_status r = DqPending) (claimTransition ck c agentId)"

definition drainBaseQuery ::
  "clock \<Rightarrow> job_id list \<Rightarrow> dq_db \<Rightarrow> string list \<Rightarrow> string list \<Rightarrow> agent_id option \<Rightarrow> dq_row \<Rightarrow> bool" where
  "drainBaseQuery ck skip db agentLabels mandatory agentId r \<longleftrightarrow>
     (let labels = canonicalizeLabels agentLabels; gate = canonicalizeLabels mandatory
      in dq_status r = DqPending
         \<and> unexpired ck r
         \<and> set (dq_runs_on_labels r) \<subseteq> set labels
         \<and> \<not> (\<exists>e \<in> set (dq_exclude_labels r). e \<in> set labels)
         \<and> (dq_pinned_agent_id r = None
            \<or> (case agentId of None \<Rightarrow> False | Some a \<Rightarrow> a \<noteq> [] \<and> dq_pinned_agent_id r = Some a))
         \<and> (gate \<noteq> [] \<longrightarrow> set gate \<subseteq> set (dq_runs_on_labels r))
         \<and> notTerminalRun db r
         \<and> dq_id r \<notin> set skip)"

definition pattern_free :: "dq_row \<Rightarrow> bool" where
  "pattern_free r \<longleftrightarrow> dq_runs_on_patterns r = [] \<and> dq_exclude_patterns r = []"

text \<open>SELECT, oldest first, of at most \<open>n\<close> rows that nobody holds locked.\<close>

definition oldest :: "nat \<Rightarrow> job_id set \<Rightarrow> (dq_row \<Rightarrow> bool) \<Rightarrow> dq_db \<Rightarrow> dq_row list" where
  "oldest n locked P db =
     take n (order_by dq_created_at (\<lambda>r. P r \<and> dq_id r \<notin> locked) (dispatch_queue db))"

definition claimPatternFree ::
  "'k queue_env \<Rightarrow> clock \<Rightarrow> coordinator \<Rightarrow> job_id list \<Rightarrow> job_id set \<Rightarrow> string list \<Rightarrow> string list
   \<Rightarrow> agent_id option \<Rightarrow> dq_db \<Rightarrow> dq_job option \<times> dq_db" where
  "claimPatternFree env ck c skip locked agentLabels mandatory agentId db =
     (case oldest 1 locked (\<lambda>r. drainBaseQuery ck skip db agentLabels mandatory agentId r \<and> pattern_free r) db of
        [] \<Rightarrow> (None, db)
      | r # _ \<Rightarrow> (Some (rowToQueuedJob env (claimTransition ck c agentId r)),
                  snd (claimRowById ck c (dq_id r) agentId db)))"

text \<open>
  The loop over selected rows: the filter in the process, then the conditional claim. \<open>others\<close>
  is what happens to the database before each claim.
\<close>

fun claim_first ::
  "'k queue_env \<Rightarrow> (job_id option \<Rightarrow> dq_db \<Rightarrow> dq_db) \<Rightarrow> clock \<Rightarrow> coordinator \<Rightarrow> agent_id option
   \<Rightarrow> (dq_job \<Rightarrow> bool) \<Rightarrow> dq_row list \<Rightarrow> dq_db \<Rightarrow> dq_job option \<times> dq_db" where
  "claim_first env others ck c agentId ok [] db = (None, db)"
| "claim_first env others ck c agentId ok (r # rs) db =
     (if \<not> ok (rowToQueuedJob env r) then claim_first env others ck c agentId ok rs db
      else let (won, db') = claimRowById ck c (dq_id r) agentId (others (Some (dq_id r)) db)
           in if won then (Some (rowToQueuedJob env r), db')
              else claim_first env others ck c agentId ok rs db')"

definition claimWithPatterns ::
  "'k queue_env \<Rightarrow> (job_id option \<Rightarrow> dq_db \<Rightarrow> dq_db) \<Rightarrow> clock \<Rightarrow> coordinator \<Rightarrow> job_id list \<Rightarrow> job_id set
   \<Rightarrow> string list \<Rightarrow> string list \<Rightarrow> agent_id option \<Rightarrow> dq_db \<Rightarrow> dq_job option \<times> dq_db" where
  "claimWithPatterns env others ck c skip locked agentLabels mandatory agentId db =
     claim_first env others ck c agentId
       (\<lambda>job. jobPatternsSatisfiedBy (qe_rx env) job (set (canonicalizeLabelSet agentLabels)))
       (oldest 10 locked
          (\<lambda>r. drainBaseQuery ck skip db agentLabels mandatory agentId r \<and> \<not> pattern_free r) db) db"

definition claimWithPostFilter ::
  "'k queue_env \<Rightarrow> (job_id option \<Rightarrow> dq_db \<Rightarrow> dq_db) \<Rightarrow> clock \<Rightarrow> coordinator \<Rightarrow> job_id list \<Rightarrow> job_id set
   \<Rightarrow> string list \<Rightarrow> string list \<Rightarrow> agent_id option \<Rightarrow> (dq_job \<Rightarrow> bool) \<Rightarrow> dq_db \<Rightarrow> dq_job option \<times> dq_db" where
  "claimWithPostFilter env others ck c skip locked agentLabels mandatory agentId canServe db =
     claim_first env others ck c agentId
       (\<lambda>job. jobPatternsSatisfiedBy (qe_rx env) job (set (canonicalizeLabelSet agentLabels)) \<and> canServe job)
       (oldest 10 locked (drainBaseQuery ck skip db agentLabels mandatory agentId) db) db"

definition dequeueForLabels ::
  "'k queue_env \<Rightarrow> (job_id option \<Rightarrow> dq_db \<Rightarrow> dq_db) \<Rightarrow> clock \<Rightarrow> coordinator \<Rightarrow> job_id set \<Rightarrow> string list
   \<Rightarrow> string list \<Rightarrow> agent_id option \<Rightarrow> (dq_job \<Rightarrow> bool) option \<Rightarrow> dq_db
   \<Rightarrow> dq_job option \<times> coordinator \<times> dq_db" where
  "dequeueForLabels env others ck c locked agentLabels mandatory agentId canServe db =
     (let (skip, c') = deferredFilter ck c
      in case canServe of
           Some serve \<Rightarrow>
             (let (job, db') = claimWithPostFilter env others ck c' skip locked agentLabels mandatory agentId serve db
              in (job, c', db'))
         | None \<Rightarrow>
             (case claimPatternFree env ck c' skip locked agentLabels mandatory agentId db of
                (Some job, db') \<Rightarrow> (Some job, c', db')
              | (None, db') \<Rightarrow>
                  (let (job, db'') = claimWithPatterns env others ck c' skip locked agentLabels mandatory
                                       agentId (others None db')
                   in (job, c', db''))))"

text \<open>The two claims by identity: one row, the filter, the conditional claim.\<close>

definition claim_checked ::
  "'k queue_env \<Rightarrow> (job_id option \<Rightarrow> dq_db \<Rightarrow> dq_db) \<Rightarrow> clock \<Rightarrow> coordinator \<Rightarrow> agent_id option
   \<Rightarrow> string list option \<Rightarrow> dq_row list \<Rightarrow> dq_db \<Rightarrow> dq_job option \<times> dq_db" where
  "claim_checked env others ck c agentId labels rows db =
     claim_first env others ck c agentId
       (\<lambda>job. case labels of None \<Rightarrow> True
          | Some ls \<Rightarrow> jobPatternsSatisfiedBy (qe_rx env) job (set (canonicalizeLabelSet ls)))
       (take 1 rows) db"

definition pinned_query :: "clock \<Rightarrow> job_id list \<Rightarrow> dq_db \<Rightarrow> agent_id \<Rightarrow> dq_row \<Rightarrow> bool" where
  "pinned_query ck skip db agentId r \<longleftrightarrow>
     dq_status r = DqPending \<and> dq_pinned_agent_id r = Some agentId \<and> unexpired ck r
     \<and> notTerminalRun db r \<and> dq_id r \<notin> set skip"

definition dequeueByPinnedAgent ::
  "'k queue_env \<Rightarrow> (job_id option \<Rightarrow> dq_db \<Rightarrow> dq_db) \<Rightarrow> clock \<Rightarrow> coordinator \<Rightarrow> job_id set \<Rightarrow> agent_id
   \<Rightarrow> string list option \<Rightarrow> dq_db \<Rightarrow> dq_job option \<times> coordinator \<times> dq_db" where
  "dequeueByPinnedAgent env others ck c locked agentId agentLabels db =
     (let (skip, c') = deferredFilter ck c;
          (job, db') = claim_checked env others ck c' (Some agentId) agentLabels
             (oldest 1 locked (pinned_query ck skip db agentId) db) db
      in (job, c', db'))"

definition by_id_query ::
  "clock \<Rightarrow> job_id list \<Rightarrow> dq_db \<Rightarrow> job_id \<Rightarrow> string list \<Rightarrow> string list \<Rightarrow> dq_row \<Rightarrow> bool" where
  "by_id_query ck skip db jobId agentLabels mandatory r \<longleftrightarrow>
     (let labels = canonicalizeLabels agentLabels; gate = canonicalizeLabels mandatory
      in dq_id r = jobId \<and> dq_status r = DqPending \<and> unexpired ck r
         \<and> set (dq_runs_on_labels r) \<subseteq> set labels
         \<and> \<not> (\<exists>e \<in> set (dq_exclude_labels r). e \<in> set labels)
         \<and> (gate \<noteq> [] \<longrightarrow> set gate \<subseteq> set (dq_runs_on_labels r))
         \<and> notTerminalRun db r \<and> dq_id r \<notin> set skip)"

definition dequeueById ::
  "'k queue_env \<Rightarrow> (job_id option \<Rightarrow> dq_db \<Rightarrow> dq_db) \<Rightarrow> clock \<Rightarrow> coordinator \<Rightarrow> job_id set \<Rightarrow> job_id
   \<Rightarrow> string list \<Rightarrow> string list \<Rightarrow> agent_id option \<Rightarrow> dq_db \<Rightarrow> dq_job option \<times> coordinator \<times> dq_db" where
  "dequeueById env others ck c locked jobId agentLabels mandatory claimingAgentId db =
     (let (skip, c') = deferredFilter ck c;
          (job, db') = claim_checked env others ck c' claimingAgentId (Some agentLabels)
             (rows_with (\<lambda>r. by_id_query ck skip db jobId agentLabels mandatory r \<and> dq_id r \<notin> locked) db) db
      in (job, c', db'))"

definition claimUnopenableById :: "clock \<Rightarrow> coordinator \<Rightarrow> job_id \<Rightarrow> dq_db \<Rightarrow> bool \<times> dq_db" where
  "claimUnopenableById ck c jobId db =
     (if isDeferredUnopenable ck c jobId then (False, db)
      else update_if (\<lambda>r. dq_id r = jobId \<and> dq_status r = DqPending \<and> unexpired ck r \<and> notTerminalRun db r)
             (claimTransition ck c None) db)"

section \<open>Direct dispatch\<close>

definition STOPPED_RUN_DISPATCH_REASON :: string where
  "STOPPED_RUN_DISPATCH_REASON = ''the run stopped before this job was dispatched''"

definition expireDispatchOfStoppedRun ::
  "clock \<Rightarrow> coordinator \<Rightarrow> job_id \<Rightarrow> run_id \<Rightarrow> dq_db \<Rightarrow> bool \<times> coordinator \<times> dq_db" where
  "expireDispatchOfStoppedRun ck c jid runId db =
     (let (hit, db') = update_if (\<lambda>r. dq_id r = jid \<and> dq_status r = DqDispatched \<and> \<not> notTerminalRun db r)
            (\<lambda>r. r\<lparr>dq_status := DqExpired, dq_agent_id := None, dq_owner_instance_id := None,
                    dq_dispatched_at := None\<rparr>) db
      in if \<not> hit then (False, c, db')
         else (True, clear_caches c,
           db'\<lparr>exec_jobs := update_where
             (\<lambda>j. ej_run_id j = runId \<and> ej_job_id j = jid \<and> ej_status j \<in> {JPending, JQueued})
             (\<lambda>j. j\<lparr>ej_status := JCancelled, ej_completed_at := Some (procNow ck),
                    ej_error_message := Some STOPPED_RUN_DISPATCH_REASON, ej_routing_reason := None\<rparr>)
             (exec_jobs db')\<rparr>))"

definition settleClaimOfStoppedRun ::
  "clock \<Rightarrow> coordinator \<Rightarrow> job_id \<Rightarrow> run_id \<Rightarrow> dq_db \<Rightarrow> bool \<times> coordinator \<times> dq_db" where
  "settleClaimOfStoppedRun ck c jid runId db = expireDispatchOfStoppedRun ck c jid runId db"

record dispatch_insert =
  di_id :: job_id
  di_inserted :: bool
  di_runStopped :: bool

definition insertDispatched ::
  "'k queue_env \<Rightarrow> (dq_db \<Rightarrow> dq_db) \<Rightarrow> job_id \<Rightarrow> clock \<Rightarrow> coordinator \<Rightarrow> dq_input \<Rightarrow> agent_id \<Rightarrow> dq_db
   \<Rightarrow> dispatch_insert \<times> coordinator \<times> dq_db" where
  "insertDispatched env others uuid ck c job agentId db =
     (let jid = orDefault (ji_jobId job) uuid;
          r = (row_values env jid (procNow ck) job)\<lparr>dq_status := DqDispatched, dq_agent_id := Some agentId,
                dq_owner_instance_id := co_instanceId c, dq_dispatched_at := Some (procNow ck)\<rparr>;
          (inserted, db1) = insert_row r db
      in if \<not> inserted then (\<lparr>di_id = jid, di_inserted = False, di_runStopped = False\<rparr>, c, db1)
         else let (stopped, c', db2) = expireDispatchOfStoppedRun ck c jid (ji_runId job) (others db1)
              in (\<lparr>di_id = jid, di_inserted = True, di_runStopped = stopped\<rparr>, c', db2))"

section \<open>Status transitions\<close>

definition markDispatched :: "clock \<Rightarrow> coordinator \<Rightarrow> job_id \<Rightarrow> agent_id \<Rightarrow> dq_db \<Rightarrow> dq_db" where
  "markDispatched ck c jobId agentId =
     update_rows (\<lambda>r. dq_id r = jobId)
       (\<lambda>r. r\<lparr>dq_status := DqDispatched, dq_last_provisioning_error := None, dq_agent_id := Some agentId,
               dq_owner_instance_id := co_instanceId c, dq_dispatched_at := Some (procNow ck)\<rparr>)"

definition markFailed :: "job_id \<Rightarrow> dq_db \<Rightarrow> dq_db" where
  "markFailed jobId = update_rows (\<lambda>r. dq_id r = jobId) (\<lambda>r. r\<lparr>dq_status := DqFailed\<rparr>)"

definition markCompleted :: "job_id \<Rightarrow> dq_db \<Rightarrow> dq_db" where
  "markCompleted jobId =
     update_rows (\<lambda>r. dq_id r = jobId \<and> dq_status r \<in> {DqDispatched, DqRecovering})
       (\<lambda>r. r\<lparr>dq_status := DqCompleted\<rparr>)"

definition overdue_pending :: "clock \<Rightarrow> dq_row \<Rightarrow> bool" where
  "overdue_pending ck r \<longleftrightarrow> dq_status r = DqPending \<and>
     (case dq_expires_at r of None \<Rightarrow> False | Some t \<Rightarrow> t < procNow ck)"

definition markExpired :: "(dq_db \<Rightarrow> dq_db) \<Rightarrow> clock \<Rightarrow> dq_db \<Rightarrow> expired_job_info list \<times> dq_db" where
  "markExpired others ck db =
     (let rows = rows_with (overdue_pending ck) db
      in if rows = [] then ([], db)
         else (map rowToExpiredJobInfo rows,
               update_rows (\<lambda>r. dq_id r \<in> dq_id ` set rows) (\<lambda>r. r\<lparr>dq_status := DqExpired\<rparr>) (others db)))"

text \<open>The rows that an UPDATE with a WHERE clause changed, as a number.\<close>

definition update_count :: "(dq_row \<Rightarrow> bool) \<Rightarrow> (dq_row \<Rightarrow> dq_row) \<Rightarrow> dq_db \<Rightarrow> nat \<times> dq_db" where
  "update_count P f db = (length (rows_with P db), update_rows P f db)"

definition failByRunId :: "run_id \<Rightarrow> dq_db \<Rightarrow> nat \<times> dq_db" where
  "failByRunId runId =
     update_count (\<lambda>r. dq_run_id r = runId \<and> dq_status r \<in> {DqPending, DqRecovering, DqDispatched})
       (\<lambda>r. r\<lparr>dq_status := DqFailed\<rparr>)"

definition cancelByRunId :: "run_id \<Rightarrow> coordinator \<Rightarrow> dq_db \<Rightarrow> nat \<times> coordinator \<times> dq_db" where
  "cancelByRunId runId c db =
     (let (n, db') = update_count (\<lambda>r. dq_run_id r = runId \<and>
            (dq_status r = DqPending \<or> (dq_status r = DqDispatched \<and> dq_ack_deadline r \<noteq> None)
             \<or> dq_status r = DqRecovering)) (\<lambda>r. r\<lparr>dq_status := DqExpired\<rparr>) db
      in (n, clear_caches c, db'))"

definition scrubTerminalSealedSecrets :: "dq_db \<Rightarrow> nat \<times> dq_db" where
  "scrubTerminalSealedSecrets =
     update_count (\<lambda>r. dq_status r \<in> set TERMINAL_DISPATCH_STATUSES \<and> dq_sealed_secrets r \<noteq> None)
       (\<lambda>r. r\<lparr>dq_sealed_secrets := None\<rparr>)"

definition pruneTerminalDispatchRows :: "int \<Rightarrow> clock \<Rightarrow> dq_db \<Rightarrow> nat \<times> dq_db" where
  "pruneTerminalDispatchRows retentionDays ck db =
     (if retentionDays \<le> 0 then (0, db)
      else let old = (\<lambda>r. dq_status r \<in> set TERMINAL_DISPATCH_STATUSES \<and>
                          dq_created_at r < dbNow ck - retentionDays * 86400000)
           in (length (rows_with old db),
               db\<lparr>dispatch_queue := filter (\<lambda>r. \<not> old r) (dispatch_queue db)\<rparr>))"

section \<open>Recovery after a lost agent or coordinator\<close>

definition in_hand :: "dq_status set" where "in_hand = {DqDispatched, DqRecovering}"

definition getDispatchedJobOwnersByRunId ::
  "run_id \<Rightarrow> dq_db \<Rightarrow> (job_id \<times> agent_id option \<times> instance_id option) list" where
  "getDispatchedJobOwnersByRunId runId db =
     map (\<lambda>r. (dq_id r, dq_agent_id r, dq_owner_instance_id r))
       (rows_with (\<lambda>r. dq_run_id r = runId \<and> dq_status r \<in> in_hand) db)"

definition getDispatchedJobIdsByRunId :: "run_id \<Rightarrow> dq_db \<Rightarrow> job_id list" where
  "getDispatchedJobIdsByRunId runId db =
     map dq_id (rows_with (\<lambda>r. dq_run_id r = runId \<and> dq_status r \<in> in_hand) db)"

definition markRecovering ::
  "clock \<Rightarrow> coordinator \<Rightarrow> job_id \<Rightarrow> millis option \<Rightarrow> agent_id option \<Rightarrow> dq_db \<Rightarrow> bool \<times> dq_db" where
  "markRecovering ck c jobId deadline agentId db =
     update_if (\<lambda>r. dq_id r = jobId \<and> dq_status r = DqDispatched \<and>
          writableByOwner (ownershipOptions c) (dbNow ck) db (dq_owner_instance_id r))
       (\<lambda>r. r\<lparr>dq_status := DqRecovering,
          dq_recovery_deadline := (case deadline of None \<Rightarrow> dq_recovery_deadline r | Some d \<Rightarrow> Some d),
          dq_recovery_agent_id := (case agentId of None \<Rightarrow> dq_recovery_agent_id r | Some a \<Rightarrow> Some a)\<rparr>) db"

definition recoverable :: "clock \<Rightarrow> coordinator \<Rightarrow> dq_db \<Rightarrow> dq_row \<Rightarrow> bool" where
  "recoverable ck c db r \<longleftrightarrow>
     recoverableByOwner (ownershipOptions c) (dbNow ck) db (dq_owner_instance_id r)"

definition getOrphanedDispatchedJobs ::
  "clock \<Rightarrow> coordinator \<Rightarrow> dq_db \<Rightarrow> (job_id \<times> run_id \<times> agent_id option) list" where
  "getOrphanedDispatchedJobs ck c db =
     map (\<lambda>r. (dq_id r, dq_run_id r, dq_agent_id r))
       (rows_with (\<lambda>r. dq_status r = DqDispatched \<and> recoverable ck c db r) db)"

definition countSparedDispatchedJobs :: "clock \<Rightarrow> coordinator \<Rightarrow> dq_db \<Rightarrow> nat \<times> nat" where
  "countSparedDispatchedJobs ck c db =
     (let rows = rows_with (\<lambda>r. dq_status r = DqDispatched \<and> \<not> recoverable ck c db r) db;
          unknownOwner = length (filter (\<lambda>r. dq_owner_instance_id r = None) rows)
      in (length rows - unknownOwner, unknownOwner))"

definition setAckDeadline :: "job_id \<Rightarrow> millis \<Rightarrow> agent_id \<Rightarrow> dq_db \<Rightarrow> dq_db" where
  "setAckDeadline jobId deadline agentId =
     update_rows (\<lambda>r. dq_id r = jobId \<and> dq_status r = DqDispatched)
       (\<lambda>r. r\<lparr>dq_ack_deadline := Some deadline, dq_ack_agent_id := Some agentId\<rparr>)"

definition clearAckDeadline :: "job_id \<Rightarrow> dq_db \<Rightarrow> dq_db" where
  "clearAckDeadline jobId =
     update_rows (\<lambda>r. dq_id r = jobId) (\<lambda>r. r\<lparr>dq_ack_deadline := None, dq_ack_agent_id := None\<rparr>)"

definition getDispatchedAwaitingAck ::
  "clock \<Rightarrow> coordinator \<Rightarrow> dq_db \<Rightarrow> (job_id \<times> run_id \<times> agent_id option \<times> millis) list" where
  "getDispatchedAwaitingAck ck c db =
     List.map_filter (\<lambda>r. map_option (\<lambda>d. (dq_id r, dq_run_id r, dq_ack_agent_id r, d)) (dq_ack_deadline r))
       (rows_with (\<lambda>r. dq_status r = DqDispatched \<and> recoverable ck c db r) db)"

definition before :: "millis option \<Rightarrow> millis \<Rightarrow> bool" where
  "before t now \<longleftrightarrow> (case t of None \<Rightarrow> False | Some d \<Rightarrow> d < now)"

definition listExpiredAckDeadlines :: "millis \<Rightarrow> dq_db \<Rightarrow> (job_id \<times> run_id \<times> agent_id option) list" where
  "listExpiredAckDeadlines now db =
     map (\<lambda>r. (dq_id r, dq_run_id r, dq_ack_agent_id r))
       (rows_with (\<lambda>r. dq_status r = DqDispatched \<and> before (dq_ack_deadline r) now) db)"

definition getRecoveringJobs ::
  "clock \<Rightarrow> coordinator \<Rightarrow> dq_db \<Rightarrow> (job_id \<times> run_id \<times> agent_id option \<times> millis option) list" where
  "getRecoveringJobs ck c db =
     map (\<lambda>r. (dq_id r, dq_run_id r, dq_recovery_agent_id r, dq_recovery_deadline r))
       (rows_with (\<lambda>r. dq_status r = DqRecovering \<and> recoverable ck c db r) db)"

definition sweepExpiredRecoveries ::
  "(dq_db \<Rightarrow> dq_db) \<Rightarrow> millis \<Rightarrow> dq_db \<Rightarrow> (job_id \<times> run_id \<times> agent_id option) list \<times> dq_db" where
  "sweepExpiredRecoveries others now db =
     (let expired = rows_with (\<lambda>r. dq_status r = DqRecovering \<and> before (dq_recovery_deadline r) now) db
      in if expired = [] then ([], db)
         else (map (\<lambda>r. (dq_id r, dq_run_id r, dq_recovery_agent_id r)) expired,
               update_rows (\<lambda>r. dq_id r \<in> dq_id ` set expired \<and> dq_status r = DqRecovering)
                 (\<lambda>r. r\<lparr>dq_status := DqFailed\<rparr>) (others db)))"

definition markFailedIfRecovering :: "job_id \<Rightarrow> dq_db \<Rightarrow> bool \<times> dq_db" where
  "markFailedIfRecovering jobId =
     update_if (\<lambda>r. dq_id r = jobId \<and> dq_status r = DqRecovering) (\<lambda>r. r\<lparr>dq_status := DqFailed\<rparr>)"

definition markDispatchedIfRecovering ::
  "clock \<Rightarrow> coordinator \<Rightarrow> job_id \<Rightarrow> agent_id \<Rightarrow> dq_db \<Rightarrow> bool \<times> dq_db" where
  "markDispatchedIfRecovering ck c jobId agentId =
     update_if (\<lambda>r. dq_id r = jobId \<and> dq_status r = DqRecovering)
       (\<lambda>r. r\<lparr>dq_status := DqDispatched, dq_recovery_deadline := None, dq_recovery_agent_id := None,
               dq_ack_deadline := None, dq_ack_agent_id := None, dq_agent_id := Some agentId,
               dq_owner_instance_id := co_instanceId c, dq_dispatched_at := Some (procNow ck)\<rparr>)"

section \<open>Back to the queue\<close>

definition put_back :: "nat \<Rightarrow> string option \<Rightarrow> dq_row \<Rightarrow> dq_row" where
  "put_back increment provisioningError r =
     r\<lparr>dq_status := DqPending, dq_dispatch_attempts := dq_dispatch_attempts r + increment,
       dq_ack_deadline := None, dq_ack_agent_id := None, dq_agent_id := None,
       dq_owner_instance_id := None, dq_dispatched_at := None, dq_unroutable_since := None,
       dq_last_provisioning_error :=
         (case provisioningError of None \<Rightarrow> dq_last_provisioning_error r | Some e \<Rightarrow> Some e)\<rparr>"

definition update_returning_attempts ::
  "(dq_row \<Rightarrow> bool) \<Rightarrow> (dq_row \<Rightarrow> dq_row) \<Rightarrow> coordinator \<Rightarrow> dq_db \<Rightarrow> nat option \<times> coordinator \<times> dq_db" where
  "update_returning_attempts P f c db =
     (map_option (\<lambda>r. dq_dispatch_attempts (f r)) (find P (dispatch_queue db)), clear_caches c, update_rows P f db)"

definition requeue ::
  "job_id \<Rightarrow> bool option \<Rightarrow> string option \<Rightarrow> coordinator \<Rightarrow> dq_db \<Rightarrow> nat option \<times> coordinator \<times> dq_db" where
  "requeue jobId countAttempt provisioningError c db =
     update_returning_attempts
       (\<lambda>r. dq_id r = jobId \<and> dq_status r = DqDispatched \<and> notTerminalRun db r)
       (put_back (if countAttempt = Some False then 0 else 1) provisioningError) c db"

definition requeueIfAwaitingAck ::
  "job_id \<Rightarrow> agent_id option \<Rightarrow> coordinator \<Rightarrow> dq_db \<Rightarrow> nat option \<times> coordinator \<times> dq_db" where
  "requeueIfAwaitingAck jobId expectedAgentId c db =
     update_returning_attempts
       (\<lambda>r. dq_id r = jobId \<and> dq_status r = DqDispatched \<and> dq_ack_deadline r \<noteq> None
            \<and> notTerminalRun db r \<and> dq_ack_agent_id r = expectedAgentId)
       (put_back 1 None) c db"

section \<open>Reads\<close>

definition getFullJobById :: "'k queue_env \<Rightarrow> job_id \<Rightarrow> dq_db \<Rightarrow> dq_job option" where
  "getFullJobById env jobId db =
     map_option (rowToQueuedJob env) (find (\<lambda>r. dq_id r = jobId) (dispatch_queue db))"

definition getJobById :: "job_id \<Rightarrow> dq_db \<Rightarrow> (job_id \<times> run_id \<times> dq_status) option" where
  "getJobById jobId db =
     map_option (\<lambda>r. (dq_id r, dq_run_id r, dq_status r)) (find (\<lambda>r. dq_id r = jobId) (dispatch_queue db))"

definition hasAgentOwnedJob :: "agent_id \<Rightarrow> job_id \<Rightarrow> dq_db \<Rightarrow> bool" where
  "hasAgentOwnedJob agentId jobId db =
     (case find (\<lambda>r. dq_id r = jobId) (dispatch_queue db) of
        None \<Rightarrow> False
      | Some r \<Rightarrow>
          if dq_status r = DqDispatched \<and> dq_agent_id r = Some agentId then True
          else if dq_status r = DqRecovering \<and> dq_recovery_agent_id r = Some agentId then True
          else dq_status r \<in> {DqCompleted, DqFailed, DqExpired})"

definition getJobsByStatus ::
  "dq_status \<Rightarrow> dq_db \<Rightarrow> (job_id \<times> run_id \<times> dq_status \<times> agent_id option) list" where
  "getJobsByStatus st db =
     map (\<lambda>r. (dq_id r, dq_run_id r, dq_status r, dq_agent_id r)) (rows_with (\<lambda>r. dq_status r = st) db)"

definition pendingOldestFirstQuery :: "clock \<Rightarrow> job_id list \<Rightarrow> dq_db \<Rightarrow> dq_row list" where
  "pendingOldestFirstQuery ck skip db =
     order_by dq_created_at (\<lambda>r. dq_status r = DqPending \<and> unexpired ck r \<and> dq_id r \<notin> set skip)
       (dispatch_queue db)"

definition getPendingJobs :: "'k queue_env \<Rightarrow> clock \<Rightarrow> coordinator \<Rightarrow> dq_db \<Rightarrow> dq_job list \<times> coordinator" where
  "getPendingJobs env ck c db =
     (let (skip, c') = deferredFilter ck c in (map (rowToQueuedJob env) (pendingOldestFirstQuery ck skip db), c'))"

definition listPending ::
  "'k queue_env \<Rightarrow> clock \<Rightarrow> coordinator \<Rightarrow> nat \<Rightarrow> dq_db \<Rightarrow> dq_job list \<times> coordinator" where
  "listPending env ck c maxRows db =
     (let (skip, c') = deferredFilter ck c
      in (map (rowToQueuedJob env) (take maxRows (pendingOldestFirstQuery ck skip db)), c'))"

definition listUnroutableCandidates :: "clock \<Rightarrow> nat \<Rightarrow> dq_db \<Rightarrow> (expired_job_info \<times> millis option) list" where
  "listUnroutableCandidates ck maxRows db =
     map (\<lambda>r. (rowToExpiredJobInfo r, dq_unroutable_since r)) (take maxRows (pendingOldestFirstQuery ck [] db))"

section \<open>The unroutable probe\<close>

definition markUnroutableSince :: "job_id \<Rightarrow> millis \<Rightarrow> dq_db \<Rightarrow> dq_db" where
  "markUnroutableSince jid at' =
     update_rows (\<lambda>r. dq_id r = jid \<and> dq_unroutable_since r = None) (\<lambda>r. r\<lparr>dq_unroutable_since := Some at'\<rparr>)"

definition clearUnroutableState :: "job_id \<Rightarrow> dq_db \<Rightarrow> dq_db" where
  "clearUnroutableState jid = update_rows (\<lambda>r. dq_id r = jid) (\<lambda>r. r\<lparr>dq_unroutable_since := None\<rparr>)"

definition claimUnroutable :: "job_id \<Rightarrow> coordinator \<Rightarrow> dq_db \<Rightarrow> bool \<times> coordinator \<times> dq_db" where
  "claimUnroutable jid c db =
     (let (hit, db') = update_if (\<lambda>r. dq_id r = jid \<and> dq_status r = DqPending) (\<lambda>r. r\<lparr>dq_status := DqExpired\<rparr>) db
      in (hit, clear_caches c, db'))"

end
