(* ===== verification/DispatchSafety.thy ===== *)
theory DispatchSafety
  imports DispatchQueue
begin

text \<open>
  What the shared queue of \<open>DispatchQueue\<close> promises a cluster. The step relation runs one
  statement of any coordinator at a time, with an event that says whether it handed a job out,
  put it back, deleted it or overwrote its status without looking; a trace is any interleaving of
  such statements. The claims of more than one statement are traces, whatever the other
  coordinators do in between.
\<close>

section \<open>Statements and traces\<close>

datatype dq_event =
  EvClaim job_id | EvReturn job_id | EvPrune "job_id set" | EvForce "job_id set" | EvOther

definition job_ids :: "dq_db \<Rightarrow> job_id set" where
  "job_ids db = dq_id ` set (dispatch_queue db)"

inductive dq_step :: "dq_db \<Rightarrow> dq_event \<Rightarrow> dq_db \<Rightarrow> bool" where
  other_tables: "dispatch_queue db' = dispatch_queue db \<Longrightarrow> dq_step db EvOther db'"
| st_enqueue: "insert_row r db = (ok, db') \<Longrightarrow> dq_status r = DqPending \<Longrightarrow> dq_step db EvOther db'"
| st_claim: "claimRowById ck c j a db = (True, db') \<Longrightarrow> dq_step db (EvClaim j) db'"
| st_claim_lost: "claimRowById ck c j a db = (False, db') \<Longrightarrow> dq_step db EvOther db'"
| st_claim_unopenable: "claimUnopenableById ck c j db = (True, db') \<Longrightarrow> dq_step db (EvClaim j) db'"
| st_claim_unopenable_lost: "claimUnopenableById ck c j db = (False, db') \<Longrightarrow> dq_step db EvOther db'"
| st_insert: "insert_row r db = (True, db') \<Longrightarrow> dq_status r = DqDispatched
    \<Longrightarrow> dq_step db (EvClaim (dq_id r)) db'"
| st_settle: "expireDispatchOfStoppedRun ck c j r db = (hit, c', db') \<Longrightarrow> dq_step db EvOther db'"
| st_markDispatched: "dq_step db (EvForce {j}) (markDispatched ck c j a db)"
| st_markFailed: "dq_step db (EvForce {j}) (markFailed j db)"
| st_markCompleted: "dq_step db EvOther (markCompleted j db)"
| st_markExpired: "dq_step db (EvForce (set js)) (update_rows (\<lambda>r. dq_id r \<in> set js) (\<lambda>r. r\<lparr>dq_status := DqExpired\<rparr>) db)"
| st_failByRunId: "dq_step db EvOther (snd (failByRunId r db))"
| st_cancelByRunId: "dq_step db EvOther (snd (snd (cancelByRunId r c db)))"
| st_scrub: "dq_step db EvOther (snd (scrubTerminalSealedSecrets db))"
| st_prune: "pruneTerminalDispatchRows days ck db = (n, db') \<Longrightarrow> dq_step db (EvPrune (job_ids db - job_ids db')) db'"
| st_markRecovering: "dq_step db EvOther (snd (markRecovering ck c j d a db))"
| st_setAckDeadline: "dq_step db EvOther (setAckDeadline j t a db)"
| st_clearAckDeadline: "dq_step db EvOther (clearAckDeadline j db)"
| st_sweep: "dq_step db EvOther (update_rows (\<lambda>r. dq_id r \<in> set js \<and> dq_status r = DqRecovering)
      (\<lambda>r. r\<lparr>dq_status := DqFailed\<rparr>) db)"
| st_markFailedIfRecovering: "dq_step db EvOther (snd (markFailedIfRecovering j db))"
| st_markDispatchedIfRecovering: "dq_step db EvOther (snd (markDispatchedIfRecovering ck c j a db))"
| st_requeue: "requeue j cnt e c db = (res, c', db') \<Longrightarrow> dq_step db (EvReturn j) db'"
| st_requeueIfAwaitingAck: "requeueIfAwaitingAck j a c db = (res, c', db') \<Longrightarrow> dq_step db (EvReturn j) db'"
| st_markUnroutableSince: "dq_step db EvOther (markUnroutableSince j t db)"
| st_clearUnroutableState: "dq_step db EvOther (clearUnroutableState j db)"
| st_claimUnroutable: "dq_step db EvOther (snd (snd (claimUnroutable j c db)))"

inductive dq_trace :: "dq_db \<Rightarrow> dq_event list \<Rightarrow> dq_db \<Rightarrow> bool" where
  trace_nil: "dq_trace db [] db"
| trace_snoc: "dq_trace db evs db' \<Longrightarrow> dq_step db' ev db'' \<Longrightarrow> dq_trace db (evs @ [ev]) db''"

inductive_cases dq_trace_nilE: "dq_trace db [] db'"

lemma trace_one: "dq_step db ev db' \<Longrightarrow> dq_trace db [ev] db'"
  using trace_snoc [OF trace_nil] by fastforce

lemma trace_append: "dq_trace db' ys db'' \<Longrightarrow> dq_trace db xs db' \<Longrightarrow> dq_trace db (xs @ ys) db''"
  by (induction rule: dq_trace.induct) (auto simp flip: append_assoc intro: trace_snoc)

lemma trace_split: "dq_trace db (xs @ ys) db'' \<Longrightarrow> \<exists>db'. dq_trace db xs db' \<and> dq_trace db' ys db''"
proof (induction ys arbitrary: db'' rule: rev_induct)
  case Nil
  then show ?case by (auto intro: trace_nil)
next
  case (snoc y ys)
  from snoc.prems obtain dbm where "dq_trace db (xs @ ys) dbm" and "dq_step dbm y db''"
    by (auto elim: dq_trace.cases simp flip: append_assoc)
  with snoc.IH show ?case by (blast intro: trace_snoc)
qed

section \<open>The shape of a statement\<close>

text \<open>
  A statement keeps the rows, appends one with a fresh identifier, deletes terminal ones, or is
  an UPDATE that keeps the identifiers. It makes a row pending only when it puts it back, leaves
  a terminal row alone unless it overwrites statuses, and hands out a job only by taking a
  pending row or by inserting one.
\<close>

definition terminal_row :: "dq_row \<Rightarrow> bool" where
  "terminal_row r \<longleftrightarrow> dq_status r \<in> set TERMINAL_DISPATCH_STATUSES"

definition lawful_update :: "dq_event \<Rightarrow> (dq_row \<Rightarrow> bool) \<Rightarrow> (dq_row \<Rightarrow> dq_row) \<Rightarrow> bool" where
  "lawful_update ev P f \<longleftrightarrow>
     (\<forall>r. dq_id (f r) = dq_id r) \<and>
     (\<forall>r. P r \<longrightarrow> dq_status (f r) = DqPending \<longrightarrow> dq_status r \<noteq> DqPending \<longrightarrow> ev = EvReturn (dq_id r)) \<and>
     (\<forall>r. P r \<longrightarrow> terminal_row r \<longrightarrow> dq_status (f r) \<noteq> dq_status r
        \<longrightarrow> (\<exists>js. ev = EvForce js \<and> dq_id r \<in> js))"

inductive row_step :: "dq_event \<Rightarrow> dq_row list \<Rightarrow> dq_row list \<Rightarrow> bool" where
  rs_same: "row_step EvOther rows rows"
| rs_new: "dq_id r \<notin> dq_id ` set rows \<Longrightarrow> dq_status r = DqPending \<Longrightarrow> row_step EvOther rows (rows @ [r])"
| rs_direct: "dq_id r \<notin> dq_id ` set rows \<Longrightarrow> dq_status r = DqDispatched
    \<Longrightarrow> row_step (EvClaim (dq_id r)) rows (rows @ [r])"
| rs_delete: "(\<And>r. \<not> keep r \<Longrightarrow> terminal_row r)
    \<Longrightarrow> row_step (EvPrune (dq_id ` set rows - dq_id ` set (filter keep rows))) rows (filter keep rows)"
| rs_update: "lawful_update ev P f \<Longrightarrow> (\<And>j. ev \<noteq> EvClaim j) \<Longrightarrow> row_step ev rows (update_where P f rows)"
| rs_claim: "lawful_update (EvClaim j) P f \<Longrightarrow> r \<in> set rows \<Longrightarrow> P r
    \<Longrightarrow> (\<And>r. P r \<Longrightarrow> dq_id r = j \<and> dq_status r = DqPending \<and> dq_status (f r) = DqDispatched)
    \<Longrightarrow> row_step (EvClaim j) rows (update_where P f rows)"

lemma rows_update_rows [simp]: "dispatch_queue (update_rows P f db) = update_where P f (dispatch_queue db)"
  by (simp add: update_rows_def)

lemma claim_row_simps [simp]:
  "dq_id (claimTransition ck c a r) = dq_id r"
  "dq_status (claimTransition ck c a r) = DqDispatched"
  by (simp_all add: claimTransition_def)

lemma put_back_simps [simp]:
  "dq_id (put_back n e r) = dq_id r" "dq_status (put_back n e r) = DqPending"
  by (simp_all add: put_back_def)

lemma row_values_id [simp]: "dq_id (row_values env j now job) = j"
  by (simp add: row_values_def split: prod.split)

lemma qj_id_rowToQueuedJob [simp]: "qj_id (rowToQueuedJob env r) = dq_id r"
  by (simp add: rowToQueuedJob_def split: prod.split)

lemma oldest_mem: "r \<in> set (oldest n locked P db) \<Longrightarrow>
    r \<in> set (dispatch_queue db) \<and> P r \<and> dq_id r \<notin> locked"
  by (auto simp: oldest_def dest!: in_set_takeD)

lemmas statements = claimRowById_def claimUnopenableById_def update_if_def update_count_def
  markDispatched_def markFailed_def markCompleted_def failByRunId_def cancelByRunId_def
  scrubTerminalSealedSecrets_def markRecovering_def setAckDeadline_def clearAckDeadline_def
  markFailedIfRecovering_def markDispatchedIfRecovering_def markUnroutableSince_def
  clearUnroutableState_def claimUnroutable_def requeue_def requeueIfAwaitingAck_def
  update_returning_attempts_def expireDispatchOfStoppedRun_def

lemmas lawful = lawful_update_def terminal_row_def TERMINAL_DISPATCH_STATUSES_def

lemma requeue_shape: "requeue j cnt e c db = (res, c', db') \<Longrightarrow>
    row_step (EvReturn j) (dispatch_queue db) (dispatch_queue db')"
  by (auto simp: requeue_def update_returning_attempts_def lawful intro!: rs_update)

lemma requeueIfAwaitingAck_shape: "requeueIfAwaitingAck j a c db = (res, c', db') \<Longrightarrow>
    row_step (EvReturn j) (dispatch_queue db) (dispatch_queue db')"
  by (auto simp: requeueIfAwaitingAck_def update_returning_attempts_def lawful intro!: rs_update)

lemma settle_shape: "expireDispatchOfStoppedRun ck c j r db = (hit, c', db') \<Longrightarrow>
    row_step EvOther (dispatch_queue db) (dispatch_queue db')"
  by (auto simp: expireDispatchOfStoppedRun_def update_if_def lawful split: if_splits intro!: rs_update)

lemma claim_update:
  assumes "list_ex P rows"
    and "\<And>r. P r \<Longrightarrow> dq_id r = j \<and> dq_status r = DqPending"
  shows "row_step (EvClaim j) rows (update_where P (claimTransition ck c a) rows)"
proof -
  from assms(1) obtain r where "r \<in> set rows" and "P r" by (auto simp: list_ex_iff)
  then show ?thesis
    by (rule rs_claim [rotated]) (use assms(2) in \<open>auto simp: lawful\<close>)
qed

lemma claimRowById_shape: "claimRowById ck c j a db = (ok, db') \<Longrightarrow>
    row_step (if ok then EvClaim j else EvOther) (dispatch_queue db) (dispatch_queue db')"
proof (cases ok)
  case True
  assume "claimRowById ck c j a db = (ok, db')"
  with True show ?thesis
    by (auto simp: claimRowById_def update_if_def intro!: claim_update)
qed (auto simp: claimRowById_def update_if_def lawful intro!: rs_update)

lemma claimUnopenable_shape: "claimUnopenableById ck c j db = (ok, db') \<Longrightarrow>
    row_step (if ok then EvClaim j else EvOther) (dispatch_queue db) (dispatch_queue db')"
proof (cases ok)
  case True
  assume "claimUnopenableById ck c j db = (ok, db')"
  with True show ?thesis
    by (auto simp: claimUnopenableById_def update_if_def split: if_splits intro!: claim_update)
next
  case False
  assume "claimUnopenableById ck c j db = (ok, db')"
  with False show ?thesis
    by (cases "isDeferredUnopenable ck c j")
      (auto simp: claimUnopenableById_def update_if_def lawful rs_same intro!: rs_update)
qed

lemma insert_shape:
  "insert_row r db = (True, db') \<Longrightarrow> dq_status r = DqDispatched \<Longrightarrow>
     row_step (EvClaim (dq_id r)) (dispatch_queue db) (dispatch_queue db')"
  "insert_row r db = (ok, db') \<Longrightarrow> dq_status r = DqPending \<Longrightarrow>
     row_step EvOther (dispatch_queue db) (dispatch_queue db')"
  by (auto simp: insert_row_def split: if_splits intro: rs_new rs_direct rs_same)

lemma prune_shape: "pruneTerminalDispatchRows days ck db = (n, db') \<Longrightarrow>
    row_step (EvPrune (job_ids db - job_ids db')) (dispatch_queue db) (dispatch_queue db')"
proof -
  assume prune: "pruneTerminalDispatchRows days ck db = (n, db')"
  obtain keep where "dispatch_queue db' = filter keep (dispatch_queue db)"
    and "\<And>r. \<not> keep r \<Longrightarrow> terminal_row r"
  proof (cases "days \<le> 0")
    case True
    with prune that [of "\<lambda>_. True"] show thesis by (simp add: pruneTerminalDispatchRows_def)
  next
    case False
    from prune False show thesis
      by (intro that [of "\<lambda>r. \<not> (dq_status r \<in> set TERMINAL_DISPATCH_STATUSES \<and>
                          dq_created_at r < dbNow ck - days * 86400000)"])
        (auto simp: pruneTerminalDispatchRows_def Let_def terminal_row_def)
  qed
  then show ?thesis
    using rs_delete [of keep "dispatch_queue db"] by (simp add: job_ids_def)
qed

lemma dq_step_shape: "dq_step db ev db' \<Longrightarrow> row_step ev (dispatch_queue db) (dispatch_queue db')"
proof (induction rule: dq_step.induct)
  case (other_tables db' db)
  then show ?case by (simp add: rs_same)
next
  case (st_claim ck c j a db db')
  then show ?case by (auto dest: claimRowById_shape)
next
  case (st_claim_lost ck c j a db db')
  then show ?case by (auto dest: claimRowById_shape)
next
  case (st_claim_unopenable ck c j db db')
  then show ?case by (auto dest: claimUnopenable_shape)
next
  case (st_claim_unopenable_lost ck c j db db')
  then show ?case by (auto dest: claimUnopenable_shape)
next
  case (st_markCompleted db j)
  then show ?case by (auto simp: markCompleted_def lawful intro!: rs_update)
next
  case (st_failByRunId db r)
  then show ?case by (auto simp: failByRunId_def update_count_def lawful intro!: rs_update)
next
  case (st_cancelByRunId db r c)
  then show ?case by (auto simp: cancelByRunId_def update_count_def lawful intro!: rs_update)
qed (auto intro: requeue_shape requeueIfAwaitingAck_shape settle_shape insert_shape prune_shape rs_update
    simp: statements lawful split: prod.splits)

section \<open>A claimed job stays claimed\<close>

definition keyed :: "dq_row list \<Rightarrow> bool" where
  "keyed rows \<longleftrightarrow> distinct (map dq_id rows)"

definition taken :: "job_id \<Rightarrow> dq_row list \<Rightarrow> bool" where
  "taken j rows \<longleftrightarrow> (\<exists>r \<in> set rows. dq_id r = j \<and> dq_status r \<noteq> DqPending)"

lemma keyed_same: "keyed rows \<Longrightarrow> r \<in> set rows \<Longrightarrow> r' \<in> set rows \<Longrightarrow> dq_id r = dq_id r' \<Longrightarrow> r = r'"
  by (auto simp: keyed_def distinct_map dest: inj_onD)

lemma keyed_step: "row_step ev rows rows' \<Longrightarrow> keyed rows \<Longrightarrow> keyed rows'"
  by (induction rule: row_step.induct)
    (auto simp: keyed_def distinct_map_filter lawful_update_def map_update_same)

lemma taken_step:
  assumes "row_step ev rows rows'" and "taken j rows" and "keyed rows"
    and "ev \<noteq> EvReturn j" and "\<And>js. ev = EvPrune js \<Longrightarrow> j \<notin> js"
  shows "taken j rows'"
  using assms
proof cases
  case (rs_update P f)
  from assms(2) obtain r where r: "r \<in> set rows" "dq_id r = j" "dq_status r \<noteq> DqPending"
    by (auto simp: taken_def)
  then have "dq_id (if P r then f r else r) = j" and "dq_status (if P r then f r else r) \<noteq> DqPending"
    using rs_update(2) assms(4) by (auto simp: lawful_update_def)
  with r(1) rs_update(1) show ?thesis by (auto simp: taken_def bex_update_where)
next
  case (rs_claim i P f r)
  from assms(2) obtain r where r: "r \<in> set rows" "dq_id r = j" "dq_status r \<noteq> DqPending"
    by (auto simp: taken_def)
  then have "dq_id (if P r then f r else r) = j" and "dq_status (if P r then f r else r) \<noteq> DqPending"
    using rs_claim(3,6) by (auto simp: lawful_update_def)
  with r(1) rs_claim(2) show ?thesis by (auto simp: taken_def bex_update_where)
next
  case (rs_delete keep)
  from assms(2) obtain r where r: "r \<in> set rows" "dq_id r = j" "dq_status r \<noteq> DqPending"
    by (auto simp: taken_def)
  with assms(5) rs_delete(1) obtain r' where "r' \<in> set rows" "keep r'" "dq_id r' = j"
    by auto
  moreover with r assms(3) have "r' = r" by (auto dest: keyed_same)
  ultimately show ?thesis using r rs_delete(2) by (auto simp: taken_def)
qed (use assms(2) in \<open>auto simp: taken_def\<close>)

inductive_cases row_claimE: "row_step (EvClaim j) rows rows'"

lemma claim_not_taken: "row_step (EvClaim j) rows rows' \<Longrightarrow> keyed rows \<Longrightarrow> \<not> taken j rows"
proof (erule row_claimE)
  fix P f r
  assume "r \<in> set rows" "P r" "keyed rows"
    and "\<And>r. P r \<Longrightarrow> dq_id r = j \<and> dq_status r = DqPending \<and> dq_status (f r) = DqDispatched"
  then show ?thesis by (auto simp: taken_def dest: keyed_same)
qed (auto simp: taken_def image_iff)

lemma claim_takes: "row_step (EvClaim j) rows rows' \<Longrightarrow> taken j rows'"
proof (erule row_claimE)
  fix P f r
  assume "rows' = update_where P f rows" "r \<in> set rows" "P r" "lawful_update (EvClaim j) P f"
    and "\<And>r. P r \<Longrightarrow> dq_id r = j \<and> dq_status r = DqPending \<and> dq_status (f r) = DqDispatched"
  then show ?thesis by (auto simp: taken_def bex_update_where lawful_update_def)
qed (auto simp: taken_def)

text \<open>The contract: the events of a trace alternate for each job.\<close>

lemma trace_keyed: "dq_trace db evs db' \<Longrightarrow> keyed (dispatch_queue db) \<Longrightarrow> keyed (dispatch_queue db')"
  by (induction rule: dq_trace.induct) (auto intro: keyed_step dq_step_shape)

lemma trace_taken:
  assumes "dq_trace db evs db'" and "taken j (dispatch_queue db)"
    and "EvReturn j \<notin> set evs" and "\<And>js. EvPrune js \<in> set evs \<Longrightarrow> j \<notin> js"
    and "keyed (dispatch_queue db)"
  shows "taken j (dispatch_queue db')"
  using assms
proof (induction rule: dq_trace.induct)
  case (trace_snoc db evs db' ev db'')
  have "taken j (dispatch_queue db')"
    using trace_snoc.IH trace_snoc.prems by auto
  then show ?case
    by (rule taken_step [OF dq_step_shape [OF trace_snoc.hyps(2)]])
      (use trace_snoc.prems trace_keyed [OF trace_snoc.hyps(1)] in auto)
qed

text \<open>
  C25. No job is handed out twice. In every interleaving of the statements of any number of
  coordinators, between two claims of the same job (a claim of a waiting row, or a direct
  dispatch) the job was put back by a requeue, or its terminal row was deleted.
\<close>

theorem no_double_dispatch:
  assumes trace: "dq_trace db (before_ev @ EvClaim j # between @ EvClaim j # after) db'"
    and key: "keyed (dispatch_queue db)"
  shows "EvReturn j \<in> set between \<or> (\<exists>js. EvPrune js \<in> set between \<and> j \<in> js)"
proof (rule ccontr)
  assume free: "\<not> ?thesis"
  from trace_split [of db "before_ev @ [EvClaim j]" "between @ EvClaim j # after"] trace
  obtain db1 where t1: "dq_trace db (before_ev @ [EvClaim j]) db1"
    and t2: "dq_trace db1 (between @ EvClaim j # after) db'" by auto
  from t1 obtain db0 where "dq_step db0 (EvClaim j) db1"
    by (auto elim: dq_trace.cases)
  from claim_takes [OF dq_step_shape [OF this]] have t: "taken j (dispatch_queue db1)" .
  from trace_split [of db1 "between @ [EvClaim j]" after] t2
  obtain db3 where t3: "dq_trace db1 (between @ [EvClaim j]) db3" by auto
  then obtain db2 where t4: "dq_trace db1 between db2" and s: "dq_step db2 (EvClaim j) db3"
    by (auto elim: dq_trace.cases)
  have "taken j (dispatch_queue db2)"
    by (rule trace_taken [OF t4 t]) (use free trace_keyed [OF t1 key] in auto)
  moreover have "keyed (dispatch_queue db2)"
    by (rule trace_keyed [OF t4 trace_keyed [OF t1 key]])
  ultimately show False
    using claim_not_taken [OF dq_step_shape [OF s]] by blast
qed

section \<open>A settled job stays settled\<close>

definition settled :: "job_id \<Rightarrow> dq_status \<Rightarrow> dq_row list \<Rightarrow> bool" where
  "settled j st rows \<longleftrightarrow> (\<exists>r \<in> set rows. dq_id r = j \<and> dq_status r = st \<and> terminal_row r)"

lemma settled_step:
  assumes "row_step ev rows rows'" and "settled j st rows" and "keyed rows"
    and "\<And>js. ev = EvPrune js \<or> ev = EvForce js \<Longrightarrow> j \<notin> js"
  shows "settled j st rows'"
proof -
  from assms(2) obtain r where r: "r \<in> set rows" "dq_id r = j" "dq_status r = st" "terminal_row r"
    by (auto simp: settled_def)
  have upd: "settled j st (update_where P f rows)" if "lawful_update ev P f" for P f
  proof -
    have "dq_id (if P r then f r else r) = j" "dq_status (if P r then f r else r) = st"
      using that r assms(4) by (auto simp: lawful_update_def)
    with r show ?thesis
      unfolding settled_def bex_update_where by (intro bexI [of _ r]) (simp_all add: terminal_row_def)
  qed
  from assms(1) show ?thesis
  proof cases
    case (rs_delete keep)
    with r assms(4) obtain r' where "r' \<in> set rows" "keep r'" "dq_id r' = j" by auto
    moreover with r assms(3) have "r' = r" by (auto dest: keyed_same)
    ultimately show ?thesis using r rs_delete(2) by (auto simp: settled_def)
  qed (use r upd in \<open>auto simp: settled_def\<close>)
qed

text \<open>
  C26. The outcome of a job is final for every guarded statement. Once a row is completed, failed,
  expired or cancelled, no interleaving of statements changes that or hands the job out again,
  until a statement that looks at no status names it (\<open>markDispatched\<close>, \<open>markFailed\<close>, the second
  half of \<open>markExpired\<close>) or the row is deleted.
\<close>

theorem outcomes_are_final:
  assumes "dq_trace db evs db'"
    and "keyed (dispatch_queue db)" and "settled j st (dispatch_queue db)"
    and "\<And>js. EvPrune js \<in> set evs \<or> EvForce js \<in> set evs \<Longrightarrow> j \<notin> js"
  shows "settled j st (dispatch_queue db') \<and> EvClaim j \<notin> set evs"
  using assms
proof (induction rule: dq_trace.induct)
  case (trace_snoc db evs db' ev db'')
  from trace_snoc have IH: "settled j st (dispatch_queue db')" "EvClaim j \<notin> set evs" by auto
  have shape: "row_step ev (dispatch_queue db') (dispatch_queue db'')"
    by (rule dq_step_shape [OF trace_snoc.hyps(2)])
  have key: "keyed (dispatch_queue db')"
    by (rule trace_keyed [OF trace_snoc.hyps(1) trace_snoc.prems(1)])
  have "taken j (dispatch_queue db')"
    using IH(1) by (auto simp: settled_def taken_def terminal_row_def TERMINAL_DISPATCH_STATUSES_def)
  then have "ev \<noteq> EvClaim j"
    using claim_not_taken [OF _ key] shape by auto
  moreover have "settled j st (dispatch_queue db'')"
    by (rule settled_step [OF shape IH(1) key]) (use trace_snoc.prems(3) in auto)
  ultimately show ?case using IH(2) by auto
qed simp

section \<open>The operations are traces\<close>

lemma claim_free_row:
  assumes "claimPatternFree env ck c skip locked ls ms a db = (Some job, db')"
  shows "\<exists>r \<in> set (dispatch_queue db). dq_id r = qj_id job \<and> dq_id r \<notin> locked
           \<and> drainBaseQuery ck skip db ls ms a r \<and> pattern_free r
           \<and> claimRowById ck c (qj_id job) a db = (True, db')"
proof -
  let ?P = "\<lambda>r. drainBaseQuery ck skip db ls ms a r \<and> pattern_free r"
  from assms obtain r rs where o': "oldest 1 locked ?P db = r # rs"
    and job: "job = rowToQueuedJob env (claimTransition ck c a r)"
    and db': "db' = snd (claimRowById ck c (dq_id r) a db)"
    by (auto simp: claimPatternFree_def split: list.splits)
  from o' have "r \<in> set (oldest 1 locked ?P db)" by simp
  from oldest_mem [OF this] have r: "r \<in> set (dispatch_queue db)" "dq_id r \<notin> locked" "?P r"
    by auto
  then have "fst (claimRowById ck c (dq_id r) a db)"
    by (auto simp: claimRowById_def update_if_def list_ex_iff drainBaseQuery_def Let_def)
  with r show ?thesis
    by (intro bexI [of _ r]) (simp_all add: job db' prod_eq_iff)
qed

lemma claim_free_none:
  "claimPatternFree env ck c skip locked ls ms a db = (None, db') \<Longrightarrow> db' = db"
  by (auto simp: claimPatternFree_def split: list.splits)

definition traces :: "(job_id option \<Rightarrow> dq_db \<Rightarrow> dq_db) \<Rightarrow> bool" where
  "traces others \<longleftrightarrow> (\<forall>k d. \<exists>evs. dq_trace d evs (others k d))"

lemma claim_first_trace:
  assumes "traces others" and "claim_first env others ck c a ok rows db = (res, db')"
  shows "\<exists>evs. dq_trace db evs db' \<and> (\<forall>job. res = Some job \<longrightarrow> evs \<noteq> [] \<and> last evs = EvClaim (qj_id job))"
  using assms(2)
proof (induction rows arbitrary: db)
  case Nil
  then show ?case by (auto intro: trace_nil)
next
  case (Cons r rows)
  show ?case
  proof (cases "ok (rowToQueuedJob env r)")
    case False
    with Cons show ?thesis by simp
  next
    case True
    obtain xs where xs: "dq_trace db xs (others (Some (dq_id r)) db)"
      using assms(1) by (auto simp: traces_def)
    obtain won dbc where claim: "claimRowById ck c (dq_id r) a (others (Some (dq_id r)) db) = (won, dbc)"
      by (cases "claimRowById ck c (dq_id r) a (others (Some (dq_id r)) db)")
    show ?thesis
    proof (cases won)
      case True
      with claim \<open>ok _\<close> Cons.prems have "res = Some (rowToQueuedJob env r)" and "db' = dbc"
        by (auto split: prod.splits)
      moreover have "dq_trace db (xs @ [EvClaim (dq_id r)]) dbc"
        by (rule trace_snoc [OF xs]) (rule st_claim, use claim True in simp)
      ultimately show ?thesis by (intro exI [of _ "xs @ [EvClaim (dq_id r)]"]) simp
    next
      case False
      with claim \<open>ok _\<close> Cons.prems have "claim_first env others ck c a ok rows dbc = (res, db')"
        by (auto split: prod.splits)
      then obtain ys where ys: "dq_trace dbc ys db'"
        and last: "\<forall>job. res = Some job \<longrightarrow> ys \<noteq> [] \<and> last ys = EvClaim (qj_id job)"
        using Cons.IH by blast
      have "dq_trace db (xs @ [EvOther]) dbc"
        by (rule trace_snoc [OF xs]) (rule st_claim_lost, use claim False in simp)
      from trace_append [OF ys this] last show ?thesis
        by (intro exI [of _ "(xs @ [EvOther]) @ ys"]) auto
    qed
  qed
qed

lemma claim_free_trace:
  assumes "claimPatternFree env ck c skip locked ls ms a db = (Some job, db')"
  shows "dq_trace db [EvClaim (qj_id job)] db'"
  using claim_free_row [OF assms] by (auto intro: trace_one st_claim)

definition claims :: "dq_db \<Rightarrow> dq_job option \<Rightarrow> dq_db \<Rightarrow> bool" where
  "claims db res db' \<longleftrightarrow>
     (\<exists>evs. dq_trace db evs db' \<and> (\<forall>job. res = Some job \<longrightarrow> evs \<noteq> [] \<and> last evs = EvClaim (qj_id job)))"

lemma claims_after: "dq_trace db xs db0 \<Longrightarrow> claims db0 res db' \<Longrightarrow> claims db res db'"
  unfolding claims_def
proof (elim exE conjE)
  fix ys
  assume "dq_trace db xs db0" "dq_trace db0 ys db'"
    and last: "\<forall>job. res = Some job \<longrightarrow> ys \<noteq> [] \<and> last ys = EvClaim (qj_id job)"
  then have "dq_trace db (xs @ ys) db'" by (blast intro: trace_append)
  with last show "\<exists>evs. dq_trace db evs db' \<and>
      (\<forall>job. res = Some job \<longrightarrow> evs \<noteq> [] \<and> last evs = EvClaim (qj_id job))"
    by (intro exI [of _ "xs @ ys"]) auto
qed

lemma claim_loop_claims:
  assumes "traces others"
  shows "claim_checked env others ck c a ls rows db = (res, db') \<Longrightarrow> claims db res db'"
    and "claimWithPatterns env others ck c skip locked labels ms a db = (res, db') \<Longrightarrow> claims db res db'"
    and "claimWithPostFilter env others ck c skip locked labels ms a serve db = (res, db') \<Longrightarrow> claims db res db'"
  unfolding claim_checked_def claimWithPatterns_def claimWithPostFilter_def claims_def
  by (erule claim_first_trace [OF assms])+

lemma claim_free_claims:
  "claimPatternFree env ck c skip locked ls ms a db = (Some job, db') \<Longrightarrow> claims db (Some job) db'"
  by (drule claim_free_trace) (auto simp: claims_def)

lemma dequeueForLabels_claims:
  assumes "traces others"
    and "dequeueForLabels env others ck c locked ls ms a serve db = (res, c', db')"
  shows "claims db res db'"
proof -
  obtain skip c1 where d: "deferredFilter ck c = (skip, c1)" by (cases "deferredFilter ck c")
  obtain job' dbf where free: "claimPatternFree env ck c1 skip locked ls ms a db = (job', dbf)"
    by (cases "claimPatternFree env ck c1 skip locked ls ms a db")
  show ?thesis
  proof (cases serve)
    case (Some f)
    with assms(2) d show ?thesis
      by (auto simp: dequeueForLabels_def split: prod.splits dest: claim_loop_claims(3) [OF assms(1)])
  next
    case None
    show ?thesis
    proof (cases job')
      case (Some job)
      with free None d assms(2) have "res = Some job" "db' = dbf" by (auto simp: dequeueForLabels_def)
      with claim_free_claims [OF free [unfolded Some]] show ?thesis by simp
    next
      case none: None
      with free have "dbf = db" by (auto dest: claim_free_none)
      with none free None d assms(2) have "claims (others None db) res db'"
        by (auto simp: dequeueForLabels_def split: prod.splits dest: claim_loop_claims(2) [OF assms(1)])
      moreover obtain xs where "dq_trace db xs (others None db)"
        using assms(1) by (auto simp: traces_def)
      ultimately show ?thesis by (rule claims_after [rotated])
    qed
  qed
qed

lemma dequeueById_claims:
  "traces others \<Longrightarrow> dequeueById env others ck c locked j ls ms a db = (res, c', db') \<Longrightarrow> claims db res db'"
  by (auto simp: dequeueById_def split: prod.splits dest: claim_loop_claims(1))

lemma dequeueByPinnedAgent_claims:
  "traces others \<Longrightarrow> dequeueByPinnedAgent env others ck c locked a ls db = (res, c', db') \<Longrightarrow> claims db res db'"
  by (auto simp: dequeueByPinnedAgent_def split: prod.splits dest: claim_loop_claims(1))

lemma row_values_status [simp]: "dq_status (row_values env j now job) = DqPending"
  by (simp add: row_values_def split: prod.split)

lemma enqueue_trace:
  assumes "enqueue env m q u ck c job db = (res, c', db')"
  shows "\<exists>evs. dq_trace db evs db' \<and> set evs \<subseteq> {EvOther}"
proof (cases "db' = db")
  case True
  then show ?thesis by (intro exI [of _ "[]"]) (auto intro: trace_nil)
next
  case False
  with assms have "\<exists>t. db' = snd (insert_row (row_values env (orDefault (ji_jobId job) u) (procNow ck) job
      \<lparr>dq_expires_at := t\<rparr>) db)"
    by (auto simp: enqueue_def Let_def split: prod.splits if_splits)
  then obtain t where "db' = snd (insert_row (row_values env (orDefault (ji_jobId job) u) (procNow ck) job
      \<lparr>dq_expires_at := t\<rparr>) db)" by blast
  then obtain r where "dq_status r = DqPending" "db' = snd (insert_row r db)"
    by (metis dq_row.select_convs(8) dq_row.update_convs(10) dq_row.surjective row_values_status)
  then have "dq_step db EvOther db'"
    by (cases "insert_row r db") (auto intro: st_enqueue)
  then show ?thesis by (intro exI [of _ "[EvOther]"]) (auto intro: trace_one)
qed

lemma insertDispatched_trace:
  assumes "\<And>d. \<exists>evs. dq_trace d evs (others d)"
    and "insertDispatched env others u ck c job a db = (res, c', db')"
  shows "\<exists>evs. dq_trace db evs db' \<and> (di_inserted res \<longrightarrow> EvClaim (di_id res) \<in> set evs)"
proof -
  define j where "j = orDefault (ji_jobId job) u"
  define r where "r = (row_values env j (procNow ck) job)\<lparr>dq_status := DqDispatched, dq_agent_id := Some a,
    dq_owner_instance_id := co_instanceId c, dq_dispatched_at := Some (procNow ck)\<rparr>"
  obtain ok db1 where ins: "insert_row r db = (ok, db1)" by (cases "insert_row r db")
  have r: "dq_id r = j" "dq_status r = DqDispatched" by (simp_all add: r_def)
  show ?thesis
  proof (cases ok)
    case False
    with ins have "db1 = db" by (auto simp: insert_row_def split: if_splits)
    with ins False assms(2) have "db' = db" "\<not> di_inserted res"
      by (auto simp: insertDispatched_def Let_def r_def j_def split: prod.splits)
    then show ?thesis by (intro exI [of _ "[]"]) (auto intro: trace_nil)
  next
    case True
    with ins assms(2) obtain hit c2 where settle:
      "expireDispatchOfStoppedRun ck c j (ji_runId job) (others db1) = (hit, c2, db')"
      and res: "di_inserted res" "di_id res = j"
      by (auto simp: insertDispatched_def Let_def r_def j_def split: prod.splits)
    have t1: "dq_trace db [EvClaim j] db1"
      using ins True r by (auto intro!: trace_one dest: st_insert)
    obtain xs where xs: "dq_trace db1 xs (others db1)" using assms(1) by blast
    have t2: "dq_trace (others db1) [EvOther] db'"
      by (rule trace_one) (rule st_settle [OF settle])
    from trace_append [OF t2 trace_append [OF xs t1]] res show ?thesis
      by (intro exI [of _ "([EvClaim j] @ xs) @ [EvOther]"]) auto
  qed
qed

section \<open>Who gets which job\<close>

lemma oldest_one_Cons:
  assumes "oldest 1 locked P db = r # rs"
  shows "r \<in> set (dispatch_queue db)" "P r" "dq_id r \<notin> locked"
    and "\<And>r'. r' \<in> set (dispatch_queue db) \<Longrightarrow> P r' \<Longrightarrow> dq_id r' \<notin> locked \<Longrightarrow> dq_created_at r \<le> dq_created_at r'"
proof -
  let ?xs = "order_by dq_created_at (\<lambda>r. P r \<and> dq_id r \<notin> locked) (dispatch_queue db)"
  from assms have "r \<in> set (oldest 1 locked P db)" by simp
  from oldest_mem [OF this] show "r \<in> set (dispatch_queue db)" "P r" "dq_id r \<notin> locked" by auto
  from assms obtain ys where xs: "?xs = r # ys" by (cases ?xs) (auto simp: oldest_def)
  have "sorted (map dq_created_at ?xs)" by (simp add: order_by_def)
  with xs have le: "\<forall>r' \<in> set ?xs. dq_created_at r \<le> dq_created_at r'" by auto
  fix r' assume "r' \<in> set (dispatch_queue db)" "P r'" "dq_id r' \<notin> locked"
  then have "r' \<in> set ?xs" by simp
  with le show "dq_created_at r \<le> dq_created_at r'" by blast
qed

lemma oldest_one_Nil:
  assumes "oldest 1 locked P db = []" and "r \<in> set (dispatch_queue db)" "P r"
  shows "dq_id r \<in> locked"
proof (rule ccontr)
  assume "dq_id r \<notin> locked"
  with assms(2,3) have "r \<in> set (order_by dq_created_at (\<lambda>r. P r \<and> dq_id r \<notin> locked) (dispatch_queue db))"
    by simp
  with assms(1) show False by (simp add: oldest_def)
qed

lemma claim_first_some:
  assumes "claim_first env others ck c a ok rows db = (Some job, db')"
  shows "\<exists>r \<in> set rows. job = rowToQueuedJob env r \<and> ok job"
  using assms by (induction rows arbitrary: db) (auto split: if_splits prod.splits)

lemma qj_patterns [simp]:
  "qj_runsOnPatterns (rowToQueuedJob env r) = map canonicalizeMatcher (dq_runs_on_patterns r)"
  "qj_excludePatterns (rowToQueuedJob env r) = map canonicalizeMatcher (dq_exclude_patterns r)"
  by (simp_all add: rowToQueuedJob_def split: prod.split)

lemma pattern_free_satisfied: "pattern_free r \<Longrightarrow> jobPatternsSatisfiedBy rx (rowToQueuedJob env r) labels"
  by (simp add: jobPatternsSatisfiedBy_def pattern_free_def)

definition eligible :: "clock \<Rightarrow> coordinator \<Rightarrow> job_id set \<Rightarrow> dq_db \<Rightarrow> string list \<Rightarrow> string list \<Rightarrow> agent_id option
    \<Rightarrow> dq_row \<Rightarrow> bool" where
  "eligible ck c locked db ls ms a r \<longleftrightarrow>
     drainBaseQuery ck (fst (deferredFilter ck c)) db ls ms a r \<and> dq_id r \<notin> locked"


section \<open>Recovery spares a live sibling\<close>

lemma live_owner:
  assumes "ownerNotLive graceMs now db (Some w) = False"
  shows "\<exists>hb. (w, hb) \<in> set (cluster_instances db) \<and> hb > now - max 0 graceMs"
  using assms by (auto simp: ownerNotLive_def)

text \<open>
  C28. A coordinator leaves the jobs of a live sibling alone. When another instance that owns a
  job has a heartbeat inside the grace window, the recovery of this coordinator does not select
  the job, arms no timer for it and cannot flip it to recovering; a job of a dead instance is
  selected, and a job without an owner is not selected but may be written.
\<close>

theorem recovery_spares_live_siblings:
  assumes key: "keyed (dispatch_queue db)" and r: "r \<in> set (dispatch_queue db)"
    and me: "dq_owner_instance_id r \<noteq> co_instanceId c"
    and owner: "dq_owner_instance_id r = Some w"
  shows "if \<exists>hb. (w, hb) \<in> set (cluster_instances db) \<and> hb > dbNow ck - max 0 (co_ownershipGraceMs c)
    then dq_id r \<notin> fst ` set (getOrphanedDispatchedJobs ck c db)
      \<and> dq_id r \<notin> fst ` set (getRecoveringJobs ck c db)
      \<and> dq_id r \<notin> fst ` set (getDispatchedAwaitingAck ck c db)
      \<and> markRecovering ck c (dq_id r) d a db = (False, db)
    else dq_status r = DqDispatched \<longrightarrow>
      dq_id r \<in> fst ` set (getOrphanedDispatchedJobs ck c db) \<and> fst (markRecovering ck c (dq_id r) d a db)"
proof -
  let ?live = "\<exists>hb. (w, hb) \<in> set (cluster_instances db) \<and> hb > dbNow ck - max 0 (co_ownershipGraceMs c)"
  have same: "r' = r" if "r' \<in> set (dispatch_queue db)" "dq_id r' = dq_id r" for r'
    using keyed_same [OF key that(1) r that(2)] .
  have notlive: "ownerNotLive (co_ownershipGraceMs c) (dbNow ck) db (Some w) \<longleftrightarrow> \<not> ?live"
    by (auto simp: ownerNotLive_def)
  have rec: "recoverable ck c db r \<longleftrightarrow> \<not> ?live"
    using me owner notlive by (auto simp: recoverable_def recoverableByOwner_def ownershipOptions_def)
  have wr: "writableByOwner (ownershipOptions c) (dbNow ck) db (dq_owner_instance_id r) \<longleftrightarrow> \<not> ?live"
    using me owner notlive
    by (auto simp: writableByOwner_def ownerIsLive_def ownershipOptions_def split: option.splits)
  have spared: "dq_id r \<notin> fst ` set (getOrphanedDispatchedJobs ck c db)
      \<and> dq_id r \<notin> fst ` set (getRecoveringJobs ck c db)
      \<and> dq_id r \<notin> fst ` set (getDispatchedAwaitingAck ck c db)
      \<and> markRecovering ck c (dq_id r) d a db = (False, db)" if "?live"
  proof (intro conjI)
    show "dq_id r \<notin> fst ` set (getOrphanedDispatchedJobs ck c db)"
      and "dq_id r \<notin> fst ` set (getRecoveringJobs ck c db)"
      and "dq_id r \<notin> fst ` set (getDispatchedAwaitingAck ck c db)"
      using rec that
      by (auto simp: getOrphanedDispatchedJobs_def getRecoveringJobs_def getDispatchedAwaitingAck_def
          rows_with_def map_filter_def dest!: same)
    have no: "\<not> (dq_id r' = dq_id r \<and> dq_status r' = DqDispatched \<and>
        writableByOwner (ownershipOptions c) (dbNow ck) db (dq_owner_instance_id r'))"
      if "r' \<in> set (dispatch_queue db)" for r'
      using same [OF that] wr \<open>?live\<close> by auto
    then have "update_where (\<lambda>r'. dq_id r' = dq_id r \<and> dq_status r' = DqDispatched \<and>
        writableByOwner (ownershipOptions c) (dbNow ck) db (dq_owner_instance_id r')) f (dispatch_queue db)
        = dispatch_queue db" for f
      unfolding update_where_def by (intro map_idI) auto
    with no show "markRecovering ck c (dq_id r) d a db = (False, db)"
      by (auto simp: markRecovering_def update_if_def update_rows_def list_ex_iff)
  qed
  have taken_over: "dq_id r \<in> fst ` set (getOrphanedDispatchedJobs ck c db)
      \<and> fst (markRecovering ck c (dq_id r) d a db)" if "\<not> ?live" "dq_status r = DqDispatched"
    using that r rec wr
    by (auto simp: getOrphanedDispatchedJobs_def rows_with_def markRecovering_def update_if_def list_ex_iff
        image_iff)
  show ?thesis
  proof (cases "?live")
    case True
    show ?thesis unfolding if_P [OF True] by (rule spared [OF True])
  next
    case False
    show ?thesis unfolding if_not_P [OF False] using taken_over [OF False] by blast
  qed
qed

section \<open>What the statements do not promise\<close>

lemma row_after_update:
  assumes "r \<in> set (dispatch_queue db)"
  shows "(if P r then f r else r) \<in> set (dispatch_queue (update_rows P f db))"
  using assms by (auto simp: set_update_where)

text \<open>
  A job of a failed run is sent all the same. A coordinator claims a job; before it records
  the agent, the run fails and its rows are failed with it. Recording the agent looks at no
  status: the failed row is dispatched again, to the agent, and since the run has stopped no
  requeue takes it back.
\<close>

theorem mark_dispatched_revives_failed_job:
  assumes row: "r \<in> set (dispatch_queue db)" and j: "dq_id r = j" "dq_status r = DqPending"
    and key: "keyed (dispatch_queue db)"
    and stopped: "(dq_run_id r, RFailed) \<in> set (run_statuses db)"
  shows "let db1 = snd (claimRowById ck c j (Some a) db);
             db2 = snd (failByRunId (dq_run_id r) db1);
             db3 = markDispatched ck c j a db2
         in settled j DqFailed (dispatch_queue db2)
            \<and> (\<exists>r3 \<in> set (dispatch_queue db3). dq_id r3 = j \<and> dq_status r3 = DqDispatched \<and> dq_agent_id r3 = Some a)
            \<and> fst (requeue j None None c db3) = None"
proof -
  define db1 where "db1 = snd (claimRowById ck c j (Some a) db)"
  define db2 where "db2 = snd (failByRunId (dq_run_id r) db1)"
  define db3 where "db3 = markDispatched ck c j a db2"
  let ?r1 = "claimTransition ck c (Some a) r"
  let ?r2 = "?r1\<lparr>dq_status := DqFailed\<rparr>"
  have r1: "?r1 \<in> set (dispatch_queue db1)"
    using row_after_update [OF row, of "\<lambda>r. dq_id r = j \<and> dq_status r = DqPending" "claimTransition ck c (Some a)"] j
    by (simp add: db1_def claimRowById_def update_if_def)
  have run1: "dq_run_id ?r1 = dq_run_id r" by (simp add: claimTransition_def)
  have r2: "?r2 \<in> set (dispatch_queue db2)"
    using row_after_update [OF r1, of "\<lambda>x. dq_run_id x = dq_run_id r \<and> dq_status x \<in> {DqPending, DqRecovering, DqDispatched}"
        "\<lambda>r. r\<lparr>dq_status := DqFailed\<rparr>"] run1
    by (simp add: db2_def failByRunId_def update_count_def)
  have "settled j DqFailed (dispatch_queue db2)"
    unfolding settled_def using r2 j by (intro bexI [of _ ?r2]) (simp_all add: terminal_row_def TERMINAL_DISPATCH_STATUSES_def)
  moreover have "\<exists>r3 \<in> set (dispatch_queue db3). dq_id r3 = j \<and> dq_status r3 = DqDispatched \<and> dq_agent_id r3 = Some a"
    unfolding db3_def markDispatched_def rows_update_rows bex_update_where
    by (rule bexI [OF _ r2]) (simp add: j)
  moreover have "fst (requeue j None None c db3) = None"
  proof -
    have keyed3: "keyed (dispatch_queue db3)"
      using key by (simp add: keyed_def db3_def db2_def db1_def markDispatched_def failByRunId_def update_count_def
          claimRowById_def update_if_def map_update_same)
    have runs: "run_statuses db3 = run_statuses db"
      by (simp add: db3_def db2_def db1_def markDispatched_def failByRunId_def update_count_def
          claimRowById_def update_if_def update_rows_def)
    have "\<exists>r3 \<in> set (dispatch_queue db3). dq_id r3 = j \<and> dq_run_id r3 = dq_run_id r"
      unfolding db3_def markDispatched_def rows_update_rows bex_update_where
      by (rule bexI [OF _ r2]) (simp add: j run1)
    then obtain r3 where r3: "r3 \<in> set (dispatch_queue db3)" "dq_id r3 = j" "dq_run_id r3 = dq_run_id r" by blast
    have "\<not> notTerminalRun db3 r3"
      using stopped r3(3) by (force simp: notTerminalRun_def runs TERMINAL_RUN_STATES_def)
    then have "\<not> (dq_id x = j \<and> dq_status x = DqDispatched \<and> notTerminalRun db3 x)"
      if "x \<in> set (dispatch_queue db3)" for x
      using keyed_same [OF keyed3 that r3(1)] r3(2) \<open>\<not> notTerminalRun db3 r3\<close> by auto
    then show ?thesis
      by (auto simp: requeue_def update_returning_attempts_def find_None_iff)
  qed
  ultimately show ?thesis
    unfolding Let_def db3_def [symmetric] db2_def [symmetric] db1_def [symmetric] by blast
qed

text \<open>
  The recovery sweep reports a job that its agent has reclaimed. The sweep returns the rows it
  selected, and the caller fails the job of every one. When the agent reconnects between the two
  statements, the row is dispatched to it and stays so, and the sweep reports the job as failed;
  with nothing in between, every reported job is failed.
\<close>

theorem recovery_sweep_reports_reclaimed_job:
  assumes row: "r \<in> set (dispatch_queue db)" and j: "dq_id r = j" "dq_status r = DqRecovering"
    and key: "keyed (dispatch_queue db)" and late: "before (dq_recovery_deadline r) now"
  shows "(let (reported, db') = sweepExpiredRecoveries (\<lambda>d. snd (markDispatchedIfRecovering ck c j a d)) now db
          in j \<in> fst ` set reported
             \<and> (\<exists>r' \<in> set (dispatch_queue db'). dq_id r' = j \<and> dq_status r' = DqDispatched \<and> dq_agent_id r' = Some a))
       \<and> (let (reported, db') = sweepExpiredRecoveries (\<lambda>d. d) now db
          in \<forall>i \<in> fst ` set reported. settled i DqFailed (dispatch_queue db'))"
proof
  let ?E = "\<lambda>r. dq_status r = DqRecovering \<and> before (dq_recovery_deadline r) now"
  let ?rows = "rows_with ?E db"
  have r: "r \<in> set ?rows" using row j late by (simp add: rows_with_def)
  then have ne: "?rows \<noteq> []" by auto
  let ?f = "\<lambda>r. r\<lparr>dq_status := DqDispatched, dq_recovery_deadline := None, dq_recovery_agent_id := None,
               dq_ack_deadline := None, dq_ack_agent_id := None, dq_agent_id := Some a,
               dq_owner_instance_id := co_instanceId c, dq_dispatched_at := Some (procNow ck)\<rparr>"
  let ?db1 = "snd (markDispatchedIfRecovering ck c j a db)"
  have r1: "?f r \<in> set (dispatch_queue ?db1)"
    using row_after_update [OF row, of "\<lambda>r. dq_id r = j \<and> dq_status r = DqRecovering" ?f] j
    by (simp add: markDispatchedIfRecovering_def update_if_def)
  have "?f r \<in> set (dispatch_queue (snd (sweepExpiredRecoveries (\<lambda>d. snd (markDispatchedIfRecovering ck c j a d)) now db)))"
    using row_after_update [OF r1, of "\<lambda>x. dq_id x \<in> dq_id ` set ?rows \<and> dq_status x = DqRecovering"
        "\<lambda>r. r\<lparr>dq_status := DqFailed\<rparr>"] ne
    by (simp add: sweepExpiredRecoveries_def Let_def)
  then have kept: "\<exists>r' \<in> set (dispatch_queue (snd (sweepExpiredRecoveries
      (\<lambda>d. snd (markDispatchedIfRecovering ck c j a d)) now db))).
      dq_id r' = j \<and> dq_status r' = DqDispatched \<and> dq_agent_id r' = Some a"
    by (rule rev_bexI) (simp add: j)
  have "j \<in> fst ` set (fst (sweepExpiredRecoveries (\<lambda>d. snd (markDispatchedIfRecovering ck c j a d)) now db))"
    using imageI [OF r, of dq_id] ne j by (simp add: sweepExpiredRecoveries_def Let_def image_image)
  with kept show "let (reported, db') = sweepExpiredRecoveries (\<lambda>d. snd (markDispatchedIfRecovering ck c j a d)) now db
          in j \<in> fst ` set reported
             \<and> (\<exists>r' \<in> set (dispatch_queue db'). dq_id r' = j \<and> dq_status r' = DqDispatched \<and> dq_agent_id r' = Some a)"
    by (simp add: case_prod_beta)
  have "settled (dq_id x) DqFailed (dispatch_queue (snd (sweepExpiredRecoveries (\<lambda>d. d) now db)))"
    if "x \<in> set ?rows" for x
  proof -
    from that have x: "x \<in> set (dispatch_queue db)" "dq_status x = DqRecovering" by (auto simp: rows_with_def)
    from row_after_update [OF x(1), of "\<lambda>x. dq_id x \<in> dq_id ` set ?rows \<and> dq_status x = DqRecovering"
        "\<lambda>r. r\<lparr>dq_status := DqFailed\<rparr>"] that x ne
    have "x\<lparr>dq_status := DqFailed\<rparr> \<in> set (dispatch_queue (snd (sweepExpiredRecoveries (\<lambda>d. d) now db)))"
      by (simp add: sweepExpiredRecoveries_def Let_def)
    then show ?thesis
      unfolding settled_def by (rule rev_bexI) (simp add: terminal_row_def TERMINAL_DISPATCH_STATUSES_def)
  qed
  with ne show "let (reported, db') = sweepExpiredRecoveries (\<lambda>d. d) now db
          in \<forall>i \<in> fst ` set reported. settled i DqFailed (dispatch_queue db')"
    by (auto simp: sweepExpiredRecoveries_def Let_def)
qed

text \<open>
  An acknowledged job can be taken from its agent. The deadline is stamped by a statement that
  nobody waits for. When the acknowledgment clears it first and the stamp lands afterwards, a job
  that its agent runs is listed as unacknowledged once the deadline is over, the guarded requeue
  puts it back, and any coordinator claims it for a second agent; in the other order the requeue
  refuses.
\<close>

theorem late_deadline_stamp_requeues_running_job:
  assumes row: "r \<in> set (dispatch_queue db)" and j: "dq_id r = j" "dq_status r = DqDispatched"
    and key: "keyed (dispatch_queue db)" and going: "notTerminalRun db r" and late: "deadline < now"
  shows "(let db1 = setAckDeadline j deadline a (clearAckDeadline j db);
              (attempts, c', db2) = requeueIfAwaitingAck j (Some a) c db1
          in (j, dq_run_id r, Some a) \<in> set (listExpiredAckDeadlines now db1)
             \<and> attempts = Some (Suc (dq_dispatch_attempts r)) \<and> fst (claimRowById ck c2 j (Some b) db2))
       \<and> (let db1 = clearAckDeadline j (setAckDeadline j deadline a db)
          in fst (requeueIfAwaitingAck j (Some a) c db1) = None)"
proof
  let ?clear = "\<lambda>r. r\<lparr>dq_ack_deadline := None, dq_ack_agent_id := None\<rparr>"
  let ?stamp = "\<lambda>r. r\<lparr>dq_ack_deadline := Some deadline, dq_ack_agent_id := Some a\<rparr>"
  define db1 where "db1 = setAckDeadline j deadline a (clearAckDeadline j db)"
  let ?r = "?stamp (?clear r)"
  have r1: "?r \<in> set (dispatch_queue db1)"
    using row_after_update [OF row_after_update [OF row, of "\<lambda>r. dq_id r = j" ?clear],
        of "\<lambda>r. dq_id r = j \<and> dq_status r = DqDispatched" ?stamp] j
    by (simp add: db1_def setAckDeadline_def clearAckDeadline_def)
  have keyed1: "keyed (dispatch_queue db1)"
    using key by (simp add: keyed_def db1_def setAckDeadline_def clearAckDeadline_def map_update_same)
  have runs: "run_statuses db1 = run_statuses db"
    by (simp add: db1_def setAckDeadline_def clearAckDeadline_def update_rows_def)
  let ?P = "\<lambda>x. dq_id x = j \<and> dq_status x = DqDispatched \<and> dq_ack_deadline x \<noteq> None
      \<and> notTerminalRun db1 x \<and> dq_ack_agent_id x = Some a"
  have P: "?P ?r" using j going by (simp add: notTerminalRun_def runs)
  have "\<exists>y. find ?P (dispatch_queue db1) = Some y"
    using r1 P by (auto simp: find_None_iff simp del: not_None_eq simp flip: not_None_eq)
  then obtain y where y: "find ?P (dispatch_queue db1) = Some y" by blast
  then have "y \<in> set (dispatch_queue db1)" "?P y" by (auto simp: find_Some_iff in_set_conv_nth)
  with keyed_same [OF keyed1 _ r1, of y] j have "y = ?r" by simp
  with y have found: "find ?P (dispatch_queue db1) = Some ?r" by simp
  define db2 where "db2 = update_rows ?P (put_back 1 None) db1"
  have putback: "requeueIfAwaitingAck j (Some a) c db1 = (Some (Suc (dq_dispatch_attempts r)), clear_caches c, db2)"
    unfolding requeueIfAwaitingAck_def update_returning_attempts_def found db2_def
    by (simp add: put_back_def)
  have "put_back 1 None ?r \<in> set (dispatch_queue db2)"
    using row_after_update [OF r1, of ?P "put_back 1 None"] P by (simp add: db2_def)
  then have claimable: "fst (claimRowById ck c2 j (Some b) db2)"
    using j by (auto simp: claimRowById_def update_if_def list_ex_iff intro!: bexI [of _ "put_back 1 None ?r"])
  have "(j, dq_run_id r, Some a) \<in> set (listExpiredAckDeadlines now db1)"
    using r1 j late unfolding listExpiredAckDeadlines_def rows_with_def set_map set_filter
    by (intro image_eqI [of _ _ ?r]) (simp_all add: before_def)
  with putback claimable show "let db1 = setAckDeadline j deadline a (clearAckDeadline j db);
              (attempts, c', db2) = requeueIfAwaitingAck j (Some a) c db1
          in (j, dq_run_id r, Some a) \<in> set (listExpiredAckDeadlines now db1)
             \<and> attempts = Some (Suc (dq_dispatch_attempts r)) \<and> fst (claimRowById ck c2 j (Some b) db2)"
    by (simp add: db1_def [symmetric] Let_def)
next
  have "\<not> (dq_id x = j \<and> dq_ack_deadline x \<noteq> None)"
    if "x \<in> set (dispatch_queue (clearAckDeadline j (setAckDeadline j deadline a db)))" for x
    using that unfolding clearAckDeadline_def rows_update_rows set_update_where
    by (elim imageE) (simp split: if_splits)
  then have "find (\<lambda>x. dq_id x = j \<and> dq_status x = DqDispatched \<and> dq_ack_deadline x \<noteq> None
      \<and> notTerminalRun (clearAckDeadline j (setAckDeadline j deadline a db)) x \<and> dq_ack_agent_id x = Some a)
      (dispatch_queue (clearAckDeadline j (setAckDeadline j deadline a db))) = None"
    unfolding find_None_iff by blast
  then show "let db1 = clearAckDeadline j (setAckDeadline j deadline a db)
          in fst (requeueIfAwaitingAck j (Some a) c db1) = None"
    by (simp only: requeueIfAwaitingAck_def update_returning_attempts_def Let_def fst_conv option.map)
qed

lemma claim_first_none: "\<forall>r \<in> set rows. \<not> ok (rowToQueuedJob env r)
    \<Longrightarrow> claim_first env others ck c a ok rows db = (None, db)"
  by (induction rows) auto

text \<open>
  Ten jobs that an agent cannot run hide the eleventh. When no eligible job without patterns
  waits and the patterns of the ten oldest eligible jobs with patterns do not fit the agent, a
  poll returns nothing and changes nothing, whatever jobs follow that would fit.
\<close>

theorem ten_misfits_hide_the_rest:
  assumes none: "\<forall>r \<in> set (dispatch_queue db). \<not> (eligible ck c locked db ls ms a r \<and> pattern_free r)"
    and misfits: "\<forall>r \<in> set (oldest 10 locked (\<lambda>r. eligible ck c locked db ls ms a r \<and> \<not> pattern_free r) db).
        \<not> jobPatternsSatisfiedBy (qe_rx env) (rowToQueuedJob env r) (set (canonicalizeLabelSet ls))"
  shows "\<exists>c'. dequeueForLabels env (\<lambda>_ d. d) ck c locked ls ms a None db = (None, c', db)"
proof -
  obtain skip c1 where d: "deferredFilter ck c = (skip, c1)" by (cases "deferredFilter ck c")
  have "oldest 1 locked (\<lambda>r. drainBaseQuery ck skip db ls ms a r \<and> pattern_free r) db = []"
  proof (cases "oldest 1 locked (\<lambda>r. drainBaseQuery ck skip db ls ms a r \<and> pattern_free r) db")
    case (Cons r rs)
    from oldest_one_Cons [OF this] none d show ?thesis by (auto simp: eligible_def)
  qed
  then have free: "claimPatternFree env ck c1 skip locked ls ms a db = (None, db)"
    by (simp add: claimPatternFree_def)
  have same: "oldest 10 locked (\<lambda>r. eligible ck c locked db ls ms a r \<and> \<not> pattern_free r) db
      = oldest 10 locked (\<lambda>r. drainBaseQuery ck skip db ls ms a r \<and> \<not> pattern_free r) db"
    unfolding oldest_def by (intro arg_cong [of _ _ "take 10"] order_by_cong) (auto simp: eligible_def d)
  have "claimWithPatterns env (\<lambda>_ d. d) ck c1 skip locked ls ms a db = (None, db)"
    unfolding claimWithPatterns_def using misfits unfolding same by (intro claim_first_none) blast
  with d free show ?thesis by (simp add: dequeueForLabels_def)
qed

section \<open>Instances\<close>

definition demo_columns :: job_columns where
  "demo_columns = \<lparr>jc_workflow_name = ''ci'', jc_repo_url = ''u'', jc_ref = ''main'', jc_sha = ''abc'',
     jc_delivery_id = ''d'', jc_provider = ''github'', jc_provider_context = JNull, jc_source_tar_url = None,
     jc_source_tar_digest = None, jc_deps_url = None, jc_deps_hash = None, jc_request_id = None,
     jc_routing_key = ''github:1''\<rparr>"

definition demo_row :: "job_id \<Rightarrow> dq_status \<Rightarrow> dq_row" where
  "demo_row jid st = \<lparr>dq_id = jid, dq_run_id = ''r1'', dq_job_name = ''build'', dq_runs_on_labels = [''linux''],
     dq_job_config = [], dq_sealed_secrets = None, dq_columns = demo_columns, dq_status = st, dq_created_at = 1,
     dq_expires_at = None, dq_exclude_labels = [], dq_runs_on_patterns = [], dq_exclude_patterns = [],
     dq_pinned_agent_id = None, dq_agent_id = None, dq_owner_instance_id = Some ''B'', dq_dispatched_at = None,
     dq_ack_deadline = None, dq_ack_agent_id = None, dq_recovery_deadline = Some 5,
     dq_recovery_agent_id = Some ''a'', dq_dispatch_attempts = 0, dq_last_provisioning_error = None,
     dq_unroutable_since = None\<rparr>"

definition demo_db :: "dq_row list \<Rightarrow> dq_db" where
  "demo_db rows = \<lparr>dispatch_queue = rows, cluster_instances = [(''B'', 90)], run_statuses = [], exec_jobs = []\<rparr>"

definition demo_coord :: coordinator where
  "demo_coord = \<lparr>co_instanceId = Some ''A'', co_ownershipGraceMs = 50, co_defaultMaxDepth = 10,
     co_defaultTimeoutMs = 1000, co_sealedSecretsRetryBackoffMs = 30, co_deferredUnopenable = [],
     co_depthCache = None, co_breakdownCache = None\<rparr>"

definition demo_clock :: clock where "demo_clock = \<lparr>dbNow = 100, procNow = 100\<rparr>"

definition demo_env :: "unit queue_env" where
  "demo_env = \<lparr>qe_cipher = \<lparr>encrypt_json = (\<lambda>_ _ _. []), decrypt_json = (\<lambda>_ _ _. Inl [])\<rparr>, qe_keys = None,
     qe_rx = (\<lambda>source flags label. source = label)\<rparr>"

lemma demo_keyed: "keyed (dispatch_queue (demo_db [demo_row j st]))"
  by (simp add: keyed_def demo_db_def)

text \<open>A claim, a requeue and a second claim: the trace that the theorem allows.\<close>

lemma demo_double_claim:
  "\<exists>db'. dq_trace (demo_db [demo_row ''j'' DqPending]) ([] @ EvClaim ''j'' # [EvReturn ''j''] @ EvClaim ''j'' # []) db'"
proof -
  let ?db0 = "demo_db [demo_row ''j'' DqPending]"
  define db1 where "db1 = snd (claimRowById demo_clock demo_coord ''j'' (Some ''a'') ?db0)"
  define db2 where "db2 = snd (snd (requeue ''j'' None None demo_coord db1))"
  define db3 where "db3 = snd (claimRowById demo_clock demo_coord ''j'' (Some ''b'') db2)"
  have "claimRowById demo_clock demo_coord ''j'' (Some ''a'') ?db0 = (True, db1)"
    unfolding prod_eq_iff db1_def by (rule conjI, simp, code_simp, simp)
  moreover have "requeue ''j'' None None demo_coord db1 = (fst (requeue ''j'' None None demo_coord db1),
      fst (snd (requeue ''j'' None None demo_coord db1)), db2)"
    by (simp add: db2_def prod_eq_iff)
  moreover have "claimRowById demo_clock demo_coord ''j'' (Some ''b'') db2 = (True, db3)"
    unfolding prod_eq_iff db3_def db2_def db1_def by (rule conjI, simp, code_simp, simp)
  ultimately have "dq_step ?db0 (EvClaim ''j'') db1"
    "dq_step db1 (EvReturn ''j'') db2" "dq_step db2 (EvClaim ''j'') db3"
    by (blast intro: st_claim st_requeue)+
  then have "dq_trace ?db0 ([] @ [EvClaim ''j'']) db1" by (blast intro: trace_snoc trace_nil)
  then have "dq_trace ?db0 (([] @ [EvClaim ''j'']) @ [EvReturn ''j'']) db2"
    using \<open>dq_step db1 (EvReturn ''j'') db2\<close> by (rule trace_snoc)
  from trace_snoc [OF this \<open>dq_step db2 (EvClaim ''j'') db3\<close>] show ?thesis by auto
qed

theorem no_double_dispatch_witness:
  "EvReturn ''j'' \<in> set [EvReturn ''j''] \<or> (\<exists>js. EvPrune js \<in> set [EvReturn ''j''] \<and> ''j'' \<in> js)"
proof -
  from demo_double_claim obtain db' where
    "dq_trace (demo_db [demo_row ''j'' DqPending]) ([] @ EvClaim ''j'' # [EvReturn ''j''] @ EvClaim ''j'' # []) db'" by blast
  then show ?thesis by (rule no_double_dispatch [OF _ demo_keyed])
qed

theorem outcomes_are_final_witness:
  "settled ''j'' DqFailed (dispatch_queue (markCompleted ''j'' (demo_db [demo_row ''j'' DqFailed])))
     \<and> EvClaim ''j'' \<notin> set [EvOther]"
proof (rule outcomes_are_final [OF trace_one [OF st_markCompleted] demo_keyed])
  show "settled ''j'' DqFailed (dispatch_queue (demo_db [demo_row ''j'' DqFailed]))"
    by (simp add: settled_def demo_db_def demo_row_def terminal_row_def TERMINAL_DISPATCH_STATUSES_def)
qed simp


theorem recovery_spares_live_siblings_witness:
  "markRecovering demo_clock demo_coord ''j'' (Some 200) (Some ''a'') (demo_db [demo_row ''j'' DqDispatched])
     = (False, demo_db [demo_row ''j'' DqDispatched])"
  using recovery_spares_live_siblings [OF demo_keyed, of "demo_row ''j'' DqDispatched" "''j''" DqDispatched demo_coord "''B''"
      demo_clock "Some 200" "Some ''a''"]
  by (simp add: demo_db_def demo_row_def demo_coord_def demo_clock_def)

theorem mark_dispatched_revives_failed_job_witness:
  "\<exists>r3 \<in> set (dispatch_queue (markDispatched demo_clock demo_coord ''j'' ''a''
      (snd (failByRunId ''r1'' (snd (claimRowById demo_clock demo_coord ''j'' (Some ''a'')
        (demo_db [demo_row ''j'' DqPending]\<lparr>run_statuses := [(''r1'', RFailed)]\<rparr>))))))).
     dq_id r3 = ''j'' \<and> dq_status r3 = DqDispatched \<and> dq_agent_id r3 = Some ''a''"
  using mark_dispatched_revives_failed_job [of "demo_row ''j'' DqPending"
      "demo_db [demo_row ''j'' DqPending]\<lparr>run_statuses := [(''r1'', RFailed)]\<rparr>" "''j''" demo_clock demo_coord "''a''"]
  by (simp add: demo_db_def demo_row_def keyed_def Let_def)

theorem recovery_sweep_reports_reclaimed_job_witness:
  "''j'' \<in> fst ` set (fst (sweepExpiredRecoveries (\<lambda>d. snd (markDispatchedIfRecovering demo_clock demo_coord ''j'' ''a'' d))
      100 (demo_db [demo_row ''j'' DqRecovering])))"
  using recovery_sweep_reports_reclaimed_job [of "demo_row ''j'' DqRecovering" "demo_db [demo_row ''j'' DqRecovering]"
      "''j''" 100 demo_clock demo_coord "''a''", OF _ _ _ demo_keyed]
  by (simp add: demo_db_def demo_row_def before_def case_prod_beta)

theorem late_deadline_stamp_requeues_running_job_witness:
  "fst (requeueIfAwaitingAck ''j'' (Some ''a'') demo_coord
      (clearAckDeadline ''j'' (setAckDeadline ''j'' 50 ''a'' (demo_db [demo_row ''j'' DqDispatched])))) = None"
  using late_deadline_stamp_requeues_running_job [of "demo_row ''j'' DqDispatched" "demo_db [demo_row ''j'' DqDispatched]"
      "''j''" 50 100 "''a''" demo_coord, OF _ _ _ demo_keyed]
  by (simp add: demo_db_def demo_row_def notTerminalRun_def Let_def)

definition misfit_row :: "nat \<Rightarrow> dq_row" where
  "misfit_row n = (demo_row (replicate n CHR ''j'') DqPending)\<lparr>dq_created_at := int n,
     dq_runs_on_patterns := [Regex (if n < 10 then ''gpu'' else ''linux'') []]\<rparr>"

theorem ten_misfits_hide_the_rest_witness:
  "(\<exists>c'. dequeueForLabels demo_env (\<lambda>_ d. d) demo_clock demo_coord {} [''linux''] [] None None
      (demo_db (map misfit_row [0..<11])) = (None, c', demo_db (map misfit_row [0..<11])))
   \<and> map_option qj_id (fst (dequeueForLabels demo_env (\<lambda>_ d. d) demo_clock demo_coord {} [''linux''] [] None None
      (demo_db (map misfit_row [1..<11])))) = Some (replicate 10 CHR ''j'')"
proof
  show "\<exists>c'. dequeueForLabels demo_env (\<lambda>_ d. d) demo_clock demo_coord {} [''linux''] [] None None
      (demo_db (map misfit_row [0..<11])) = (None, c', demo_db (map misfit_row [0..<11]))"
    by (rule ten_misfits_hide_the_rest) code_simp+
  show "map_option qj_id (fst (dequeueForLabels demo_env (\<lambda>_ d. d) demo_clock demo_coord {} [''linux''] [] None None
      (demo_db (map misfit_row [1..<11])))) = Some (replicate 10 CHR ''j'')"
    by code_simp
qed

end
