(* ===== verification/AgentFleet.thy ===== *)
theory AgentFleet
  imports DispatchSafety
begin

text \<open>
  The agents of a coordinator: the registry of connected agents with its indexes
  (\<open>packages/orchestrator/src/agent/registry.ts\<close>), which agent may run which job beyond its labels
  (\<open>scaler/agent-fit.ts\<close>, \<open>agent/agent-version.ts\<close>), and which label set of which scaler takes a
  job (\<open>scaler/label-matcher.ts\<close>).

  A \<open>Map\<close> is an association list and a \<open>Set\<close> a list without duplicates. The clock is the argument
  \<open>now\<close>. What the registry does to the roster store, to sockets and to the dispatcher is the list
  of effects that an operation returns; the store's answers are never read. The state of a socket
  is the argument \<open>isOpen\<close>, an exception of a socket is swallowed by the code. A timer is the time
  at which it fires.
\<close>

section \<open>Agents\<close>

type_synonym socket = string

definition BUSY_HOLD_MAX_MS :: millis where "BUSY_HOLD_MAX_MS = 30000"

datatype busy_hold_outcome = Held | ReheldAfterExpiry | NotRegistered

datatype token_agent_type = TokenStatic | TokenEphemeral

record agent_os =
  os_hostname :: "string option"
  os_osRelease :: "string option"
  os_osVersion :: "string option"
  os_totalMemoryMb :: "int option"
  os_cpuCount :: "int option"
  os_nodeVersion :: "string option"
  os_runningAsUser :: "string option"
  os_runningAsUid :: "int option"

record agent_entry =
  ae_agentId :: agent_id
  ae_ws :: socket
  ae_labels :: "string list"
  ae_mandatoryLabels :: "string list"
  ae_scalerManaged :: bool
  ae_draining :: bool
  ae_drainReported :: bool
  ae_busyHeldUntil :: "millis option"
  ae_activeJobs :: int
  ae_maxConcurrency :: int
  ae_lastHeartbeatAt :: millis
  ae_platform :: string
  ae_arch :: string
  ae_registeredAt :: millis
  ae_version :: "string option"
  ae_compileSchemaVersion :: "int option"
  ae_tokenId :: "string option"
  ae_os :: agent_os
  ae_memoryUsedMb :: "int option"
  ae_memoryAvailableMb :: "int option"
  ae_uptimeSeconds :: "int option"
  ae_tokenAgentType :: "token_agent_type option"

record agent_metadata =
  am_compileSchemaVersion :: "int option"
  am_os :: agent_os
  am_tokenId :: "string option"
  am_mandatoryLabels :: "string list option"
  am_scalerManaged :: "bool option"
  am_tokenAgentType :: "token_agent_type option"
  am_properties :: "js option"

definition agentHasFreeSlot :: "millis \<Rightarrow> agent_entry \<Rightarrow> bool" where
  "agentHasFreeSlot now e \<longleftrightarrow>
     \<not> ae_activeJobs e \<ge> ae_maxConcurrency e \<and>
     (case ae_busyHeldUntil e of None \<Rightarrow> True | Some t \<Rightarrow> now \<ge> t)"

definition satisfiesMandatoryLabels :: "agent_entry \<Rightarrow> string list \<Rightarrow> bool" where
  "satisfiesMandatoryLabels a requiredLabels \<longleftrightarrow>
     ae_mandatoryLabels a = [] \<or>
     (\<forall>l \<in> set (ae_mandatoryLabels a). l \<in> set (canonicalizeLabelSet requiredLabels))"

section \<open>The registry\<close>

type_synonym 'k index = "('k \<times> agent_id list) list"

record registry =
  rg_agents :: "(agent_id \<times> agent_entry) list"
  rg_labelIndex :: "string index"
  rg_wsToAgentId :: "(socket \<times> agent_id) list"
  rg_tokenIdIndex :: "string index"
  rg_tokenExpiryTimers :: "(string \<times> millis) list"
  rg_lastRosterStampAt :: "(agent_id \<times> millis) list"
  rg_registeringSockets :: "(agent_id \<times> (socket \<times> string option) list) list"
  rg_roster :: "instance_id option"
  rg_disconnectTriage :: bool

record roster_upsert =
  ru_agentId :: agent_id
  ru_tokenId :: "string option"
  ru_lifecycleClass :: token_agent_type
  ru_scalerManaged :: bool
  ru_labels :: "string list"
  ru_hostname :: "string option"
  ru_platform :: string
  ru_arch :: string
  ru_instanceId :: instance_id
  ru_properties :: "js option"

datatype fleet_effect =
    RosterUpsert roster_upsert
  | RosterDisconnected agent_id instance_id
  | RosterSeen agent_id instance_id
  | SendAuthFailure socket
  | CloseSocket socket
  | TriageJobs agent_id

text \<open>Adding to and removing from a \<open>Map\<close> of \<open>Set\<close>s; an empty set is not kept.\<close>

definition idx_add :: "'k \<Rightarrow> agent_id \<Rightarrow> 'k index \<Rightarrow> 'k index" where
  "idx_add k a m = amap_set k (js_add a (case map_of m k of None \<Rightarrow> [] | Some s \<Rightarrow> s)) m"

definition idx_remove :: "'k \<Rightarrow> agent_id \<Rightarrow> 'k index \<Rightarrow> 'k index" where
  "idx_remove k a m =
     (case map_of m k of
        None \<Rightarrow> m
      | Some s \<Rightarrow> let s' = filter (\<lambda>x. x \<noteq> a) s in if s' = [] then amap_delete k m else amap_set k s' m)"

definition setDisconnectTriage :: "registry \<Rightarrow> registry" where
  "setDisconnectTriage g = g\<lparr>rg_disconnectTriage := True\<rparr>"

definition beginRegistering :: "agent_id \<Rightarrow> socket \<Rightarrow> string option \<Rightarrow> registry \<Rightarrow> registry" where
  "beginRegistering a ws tokenId g =
     g\<lparr>rg_registeringSockets := amap_set a
        (amap_set ws tokenId (case map_of (rg_registeringSockets g) a of None \<Rightarrow> [] | Some m \<Rightarrow> m))
        (rg_registeringSockets g)\<rparr>"

definition endRegistering :: "agent_id \<Rightarrow> socket \<Rightarrow> registry \<Rightarrow> registry" where
  "endRegistering a ws g =
     (case map_of (rg_registeringSockets g) a of
        None \<Rightarrow> g
      | Some m \<Rightarrow>
          let m' = amap_delete ws m
          in g\<lparr>rg_registeringSockets :=
                 (if m' = [] then amap_delete a (rg_registeringSockets g)
                  else amap_set a m' (rg_registeringSockets g))\<rparr>)"

definition isRegisteringElsewhere :: "agent_id \<Rightarrow> socket \<Rightarrow> registry \<Rightarrow> bool" where
  "isRegisteringElsewhere a ws g =
     (case map_of (rg_registeringSockets g) a of
        None \<Rightarrow> False | Some m \<Rightarrow> \<exists>x \<in> set (map fst m). x \<noteq> ws)"

definition isAgentIdHeldByOtherToken :: "agent_id \<Rightarrow> string \<Rightarrow> socket \<Rightarrow> registry \<Rightarrow> bool" where
  "isAgentIdHeldByOtherToken a tokenId ws g =
     ((case map_of (rg_agents g) a of
         None \<Rightarrow> False | Some live \<Rightarrow> ae_tokenId live \<noteq> None \<and> ae_tokenId live \<noteq> Some tokenId)
      \<or> (\<exists>(x, t) \<in> set (case map_of (rg_registeringSockets g) a of None \<Rightarrow> [] | Some m \<Rightarrow> m).
           x \<noteq> ws \<and> t \<noteq> None \<and> t \<noteq> Some tokenId))"

definition drop_token :: "agent_id \<Rightarrow> string option \<Rightarrow> registry \<Rightarrow> registry" where
  "drop_token a tokenId g =
     (case tokenId of
        None \<Rightarrow> g
      | Some t \<Rightarrow>
          (case map_of (rg_tokenIdIndex g) t of
             None \<Rightarrow> g
           | Some s \<Rightarrow>
               let s' = filter (\<lambda>x. x \<noteq> a) s
               in if s' = []
                  then g\<lparr>rg_tokenIdIndex := amap_delete t (rg_tokenIdIndex g),
                         rg_tokenExpiryTimers := amap_delete t (rg_tokenExpiryTimers g)\<rparr>
                  else g\<lparr>rg_tokenIdIndex := amap_set t s' (rg_tokenIdIndex g)\<rparr>))"

definition removeFromIndexes :: "agent_id \<Rightarrow> agent_entry \<Rightarrow> registry \<Rightarrow> registry" where
  "removeFromIndexes a e g =
     drop_token a (ae_tokenId e)
       (g\<lparr>rg_wsToAgentId := amap_delete (ae_ws e) (rg_wsToAgentId g),
          rg_lastRosterStampAt := amap_delete a (rg_lastRosterStampAt g),
          rg_labelIndex := fold (\<lambda>l. idx_remove l a) (ae_labels e) (rg_labelIndex g)\<rparr>)"

definition opt_or :: "'a option \<Rightarrow> 'a \<Rightarrow> 'a" where
  "opt_or x d = (case x of None \<Rightarrow> d | Some v \<Rightarrow> v)"

definition new_entry ::
  "millis \<Rightarrow> agent_id \<Rightarrow> socket \<Rightarrow> string list \<Rightarrow> string \<Rightarrow> string \<Rightarrow> string option \<Rightarrow> int \<Rightarrow> agent_metadata
   \<Rightarrow> agent_entry" where
  "new_entry now a ws labels platform arch version maxConcurrency md =
     \<lparr>ae_agentId = a, ae_ws = ws, ae_labels = canonicalizeLabelSet labels,
      ae_mandatoryLabels = canonicalizeLabelSet (opt_or (am_mandatoryLabels md) []),
      ae_scalerManaged = opt_or (am_scalerManaged md) False, ae_draining = False,
      ae_drainReported = False, ae_busyHeldUntil = None, ae_activeJobs = 0,
      ae_maxConcurrency = maxConcurrency, ae_lastHeartbeatAt = now, ae_platform = platform,
      ae_arch = arch, ae_registeredAt = now, ae_version = version,
      ae_compileSchemaVersion = am_compileSchemaVersion md, ae_tokenId = am_tokenId md,
      ae_os = am_os md, ae_memoryUsedMb = None, ae_memoryAvailableMb = None, ae_uptimeSeconds = None,
      ae_tokenAgentType = am_tokenAgentType md\<rparr>"

definition register ::
  "millis \<Rightarrow> agent_id \<Rightarrow> socket \<Rightarrow> string list \<Rightarrow> string \<Rightarrow> string \<Rightarrow> string option \<Rightarrow> int \<Rightarrow> agent_metadata
   \<Rightarrow> registry \<Rightarrow> socket option \<times> registry \<times> fleet_effect list" where
  "register now a ws labels platform arch version maxConcurrency md g =
     (let existing = map_of (rg_agents g) a;
          supersededWs = (case existing of None \<Rightarrow> None | Some e \<Rightarrow> if ae_ws e \<noteq> ws then Some (ae_ws e) else None);
          g1 = (case existing of None \<Rightarrow> g | Some e \<Rightarrow> removeFromIndexes a e g);
          entry = new_entry now a ws labels platform arch version maxConcurrency md;
          g2 = g1\<lparr>rg_agents := amap_set a entry (rg_agents g1),
                  rg_wsToAgentId := amap_set ws a (rg_wsToAgentId g1),
                  rg_labelIndex := fold (\<lambda>l. idx_add l a) (canonicalizeLabels labels) (rg_labelIndex g1),
                  rg_tokenIdIndex := (case am_tokenId md of None \<Rightarrow> rg_tokenIdIndex g1
                                      | Some t \<Rightarrow> idx_add t a (rg_tokenIdIndex g1))\<rparr>;
          effs = (case rg_roster g of None \<Rightarrow> [] | Some i \<Rightarrow>
            [RosterUpsert \<lparr>ru_agentId = a, ru_tokenId = am_tokenId md,
               ru_lifecycleClass = opt_or (am_tokenAgentType md) TokenEphemeral,
               ru_scalerManaged = opt_or (am_scalerManaged md) False, ru_labels = canonicalizeLabels labels,
               ru_hostname = os_hostname (am_os md), ru_platform = platform, ru_arch = arch,
               ru_instanceId = i, ru_properties = am_properties md\<rparr>])
      in (supersededWs, g2, effs))"

definition unregister :: "agent_id \<Rightarrow> registry \<Rightarrow> agent_entry option \<times> registry \<times> fleet_effect list" where
  "unregister a g =
     (case map_of (rg_agents g) a of
        None \<Rightarrow> (None, g, [])
      | Some e \<Rightarrow>
          let g1 = removeFromIndexes a e g
          in (Some e, g1\<lparr>rg_agents := amap_delete a (rg_agents g1)\<rparr>,
              (case rg_roster g of None \<Rightarrow> [] | Some i \<Rightarrow> [RosterDisconnected a i])))"

definition unregisterByWs :: "socket \<Rightarrow> registry \<Rightarrow> agent_entry option \<times> registry \<times> fleet_effect list" where
  "unregisterByWs ws g =
     (case map_of (rg_wsToAgentId g) ws of None \<Rightarrow> (None, g, []) | Some a \<Rightarrow> unregister a g)"

definition kick_one :: "(socket \<Rightarrow> bool) \<Rightarrow> agent_id \<Rightarrow> nat \<times> registry \<times> fleet_effect list
    \<Rightarrow> nat \<times> registry \<times> fleet_effect list" where
  "kick_one isOpen a acc =
     (let (kicked, g, effs) = acc
      in case map_of (rg_agents g) a of
           None \<Rightarrow> (kicked, g, effs)
         | Some e \<Rightarrow>
             let (_, g', effs') = unregister a g
             in (kicked + 1, g',
                 effs @ (if isOpen (ae_ws e) then [SendAuthFailure (ae_ws e)] else []) @ [CloseSocket (ae_ws e)]
                 @ (if rg_disconnectTriage g then [TriageJobs a] else []) @ effs'))"

definition disconnectByTokenId ::
  "(socket \<Rightarrow> bool) \<Rightarrow> string \<Rightarrow> registry \<Rightarrow> nat \<times> registry \<times> fleet_effect list" where
  "disconnectByTokenId isOpen tokenId g =
     (let g1 = g\<lparr>rg_tokenExpiryTimers := amap_delete tokenId (rg_tokenExpiryTimers g)\<rparr>
      in case map_of (rg_tokenIdIndex g1) tokenId of
           None \<Rightarrow> (0, g1, [])
         | Some agentIds \<Rightarrow> fold (kick_one isOpen) agentIds (0, g1, []))"

definition scheduleExpiryKick ::
  "(socket \<Rightarrow> bool) \<Rightarrow> millis \<Rightarrow> string \<Rightarrow> millis \<Rightarrow> registry \<Rightarrow> registry \<times> fleet_effect list" where
  "scheduleExpiryKick isOpen now tokenId expiresAt g =
     (if map_of (rg_tokenExpiryTimers g) tokenId \<noteq> None then (g, [])
      else if expiresAt - now \<le> 0 then snd (disconnectByTokenId isOpen tokenId g)
      else (g\<lparr>rg_tokenExpiryTimers := amap_set tokenId expiresAt (rg_tokenExpiryTimers g)\<rparr>, []))"

text \<open>The timer of a token fires.\<close>

definition fire_expiry :: "(socket \<Rightarrow> bool) \<Rightarrow> string \<Rightarrow> registry \<Rightarrow> registry \<times> fleet_effect list" where
  "fire_expiry isOpen tokenId g =
     snd (disconnectByTokenId isOpen tokenId
       (g\<lparr>rg_tokenExpiryTimers := amap_delete tokenId (rg_tokenExpiryTimers g)\<rparr>))"

section \<open>Finding an agent\<close>

fun intersect_rest :: "string index \<Rightarrow> string list \<Rightarrow> agent_id list \<Rightarrow> agent_id list option" where
  "intersect_rest idx [] ids = Some ids"
| "intersect_rest idx (l # ls) ids =
     (case map_of idx l of
        None \<Rightarrow> None
      | Some s \<Rightarrow>
          if s = [] then None
          else let ids' = filter (\<lambda>i. i \<in> set s) ids
               in if ids' = [] then None else intersect_rest idx ls ids')"

fun intersectLabelCandidates :: "string index \<Rightarrow> string list \<Rightarrow> agent_id list option" where
  "intersectLabelCandidates idx [] = Some []"
| "intersectLabelCandidates idx (l # ls) =
     (case map_of idx l of
        None \<Rightarrow> None
      | Some s \<Rightarrow> if s = [] then None else intersect_rest idx ls s)"

text \<open>
  The entries of some identifiers; \<open>None\<close> stands for the exception that reading an entry of an
  unknown agent raises.
\<close>

definition entries_of :: "registry \<Rightarrow> agent_id list \<Rightarrow> agent_entry list option" where
  "entries_of g ids = those (map (map_of (rg_agents g)) ids)"

definition findAvailable ::
  "regex_engine \<Rightarrow> millis \<Rightarrow> string list \<Rightarrow> label_matcher list \<Rightarrow> string list \<Rightarrow> label_matcher list \<Rightarrow> registry
   \<Rightarrow> agent_entry list option" where
  "findAvailable rx now requiredLabels requiredPatterns excludeLabels excludePatterns g =
     (let required = canonicalizeLabels requiredLabels;
          excluded = canonicalizeLabels excludeLabels;
          requiredMatchers = map canonicalizeMatcher requiredPatterns;
          excludeMatchers = map canonicalizeMatcher excludePatterns;
          found = (if required = [] then Some (map snd (rg_agents g))
                   else case intersectLabelCandidates (rg_labelIndex g) required of
                          None \<Rightarrow> Some [] | Some ids \<Rightarrow> entries_of g ids)
      in map_option (\<lambda>es.
           filter (\<lambda>e. satisfiesMandatoryLabels e required)
            (filter (\<lambda>e. \<not> (\<exists>p \<in> set excludeMatchers. matcherSatisfiedBy rx p (set (ae_labels e))))
             (filter (\<lambda>e. \<not> (\<exists>l \<in> set excluded. l \<in> set (ae_labels e)))
              (filter (\<lambda>e. \<forall>p \<in> set requiredMatchers. matcherSatisfiedBy rx p (set (ae_labels e)))
               (filter (\<lambda>e. \<not> ae_draining e \<and> agentHasFreeSlot now e) es))))) found)"

definition agentSatisfies ::
  "regex_engine \<Rightarrow> agent_entry \<Rightarrow> string list \<Rightarrow> label_matcher list \<Rightarrow> string list \<Rightarrow> label_matcher list \<Rightarrow> bool" where
  "agentSatisfies rx e requiredLabels requiredPatterns excludeLabels excludePatterns =
     (let required = canonicalizeLabels requiredLabels
      in if \<exists>l \<in> set required. l \<notin> set (ae_labels e) then False
         else if \<exists>p \<in> set requiredPatterns. \<not> matcherSatisfiedBy rx (canonicalizeMatcher p) (set (ae_labels e)) then False
         else if \<exists>l \<in> set (canonicalizeLabels excludeLabels). l \<in> set (ae_labels e) then False
         else if \<exists>p \<in> set excludePatterns. matcherSatisfiedBy rx (canonicalizeMatcher p) (set (ae_labels e)) then False
         else satisfiesMandatoryLabels e required)"

definition hasMatchingAgent ::
  "regex_engine \<Rightarrow> string list \<Rightarrow> label_matcher list \<Rightarrow> string list \<Rightarrow> label_matcher list
   \<Rightarrow> (agent_entry \<Rightarrow> bool) \<Rightarrow> registry \<Rightarrow> bool option" where
  "hasMatchingAgent rx requiredLabels requiredPatterns excludeLabels excludePatterns canRun g =
     (let required = canonicalizeLabels requiredLabels;
          excluded = canonicalizeLabels excludeLabels;
          requiredMatchers = map canonicalizeMatcher requiredPatterns;
          excludeMatchers = map canonicalizeMatcher excludePatterns;
          ok = (\<lambda>e. if ae_draining e then False
                    else if \<exists>l \<in> set excluded. l \<in> set (ae_labels e) then False
                    else if \<exists>p \<in> set requiredMatchers. \<not> matcherSatisfiedBy rx p (set (ae_labels e)) then False
                    else if \<exists>p \<in> set excludeMatchers. matcherSatisfiedBy rx p (set (ae_labels e)) then False
                    else satisfiesMandatoryLabels e required \<and> canRun e)
      in case intersectLabelCandidates (rg_labelIndex g) required of
           None \<Rightarrow> Some False
         | Some ids \<Rightarrow>
             if required = [] then Some (\<exists>e \<in> set (map snd (rg_agents g)). ok e)
             else map_option (\<lambda>es. \<exists>e \<in> set es. ok e) (entries_of g ids))"

section \<open>The work of an agent\<close>

definition modify_agent :: "agent_id \<Rightarrow> (agent_entry \<Rightarrow> agent_entry) \<Rightarrow> registry \<Rightarrow> bool \<times> registry" where
  "modify_agent a f g =
     (case map_of (rg_agents g) a of
        None \<Rightarrow> (False, g)
      | Some e \<Rightarrow> (True, g\<lparr>rg_agents := amap_set a (f e) (rg_agents g)\<rparr>))"

definition incrementActiveJobs :: "agent_id \<Rightarrow> registry \<Rightarrow> bool \<times> registry" where
  "incrementActiveJobs a = modify_agent a (\<lambda>e. e\<lparr>ae_activeJobs := ae_activeJobs e + 1\<rparr>)"

definition decrementActiveJobs :: "agent_id \<Rightarrow> registry \<Rightarrow> bool \<times> registry" where
  "decrementActiveJobs a = modify_agent a (\<lambda>e. e\<lparr>ae_activeJobs := max 0 (ae_activeJobs e - 1)\<rparr>)"

definition ROSTER_STAMP_THROTTLE_MS :: millis where "ROSTER_STAMP_THROTTLE_MS = 60000"

definition updateHeartbeat :: "millis \<Rightarrow> agent_id \<Rightarrow> registry \<Rightarrow> bool \<times> registry \<times> fleet_effect list" where
  "updateHeartbeat now a g =
     (let (found, g1) = modify_agent a (\<lambda>e. e\<lparr>ae_lastHeartbeatAt := now\<rparr>) g
      in if \<not> found then (False, g, [])
         else case rg_roster g of
                None \<Rightarrow> (True, g1, [])
              | Some i \<Rightarrow>
                  (case map_of (rg_lastRosterStampAt g1) a of
                     None \<Rightarrow> (True, g1\<lparr>rg_lastRosterStampAt := amap_set a now (rg_lastRosterStampAt g1)\<rparr>, [])
                   | Some t \<Rightarrow>
                       if now - t \<ge> ROSTER_STAMP_THROTTLE_MS
                       then (True, g1\<lparr>rg_lastRosterStampAt := amap_set a now (rg_lastRosterStampAt g1)\<rparr>,
                             [RosterSeen a i])
                       else (True, g1, [])))"

definition isRegistered :: "agent_id \<Rightarrow> registry \<Rightarrow> bool" where
  "isRegistered a g \<longleftrightarrow> map_of (rg_agents g) a \<noteq> None"

definition markDraining :: "agent_id \<Rightarrow> registry \<Rightarrow> int option \<times> registry" where
  "markDraining a g =
     (map_option ae_activeJobs (map_of (rg_agents g) a), snd (modify_agent a (\<lambda>e. e\<lparr>ae_draining := True\<rparr>) g))"

definition markBusyHeld :: "millis \<Rightarrow> agent_id \<Rightarrow> registry \<Rightarrow> busy_hold_outcome \<times> registry" where
  "markBusyHeld now a g =
     (case map_of (rg_agents g) a of
        None \<Rightarrow> (NotRegistered, g)
      | Some e \<Rightarrow> (if ae_busyHeldUntil e \<noteq> None then ReheldAfterExpiry else Held,
                  snd (modify_agent a (\<lambda>e. e\<lparr>ae_busyHeldUntil := Some (now + BUSY_HOLD_MAX_MS)\<rparr>) g)))"

definition clearBusyHeld :: "agent_id \<Rightarrow> registry \<Rightarrow> registry" where
  "clearBusyHeld a g = snd (modify_agent a (\<lambda>e. e\<lparr>ae_busyHeldUntil := None\<rparr>) g)"

definition clearExpiredBusyHold :: "millis \<Rightarrow> agent_id \<Rightarrow> registry \<Rightarrow> registry" where
  "clearExpiredBusyHold now a g =
     snd (modify_agent a (\<lambda>e. case ae_busyHeldUntil e of
         None \<Rightarrow> e | Some t \<Rightarrow> if now \<ge> t then e\<lparr>ae_busyHeldUntil := None\<rparr> else e) g)"

definition markDrainReported :: "agent_id \<Rightarrow> registry \<Rightarrow> registry" where
  "markDrainReported a g = snd (modify_agent a (\<lambda>e. e\<lparr>ae_draining := True, ae_drainReported := True\<rparr>) g)"

definition clearDraining :: "agent_id \<Rightarrow> registry \<Rightarrow> registry" where
  "clearDraining a g = snd (modify_agent a (\<lambda>e. e\<lparr>ae_draining := ae_drainReported e\<rparr>) g)"

definition agentSummaries :: "registry \<Rightarrow> (agent_id \<times> string list \<times> string \<times> string \<times> int \<times> int) list" where
  "agentSummaries g =
     map (\<lambda>(a, e). (ae_agentId e, ae_labels e, ae_platform e, ae_arch e, ae_activeJobs e, ae_maxConcurrency e))
       (rg_agents g)"

definition getByWs :: "socket \<Rightarrow> registry \<Rightarrow> agent_entry option" where
  "getByWs ws g = (case map_of (rg_wsToAgentId g) ws of None \<Rightarrow> None | Some a \<Rightarrow> map_of (rg_agents g) a)"

definition getActiveCount :: "registry \<Rightarrow> nat" where
  "getActiveCount g = length (rg_agents g)"

section \<open>Which agent may run which job\<close>

definition runtimeLabel :: "string \<Rightarrow> string" where
  "runtimeLabel name = ''kici:runtime:'' @ name"

definition JOB_IMAGE_RUNTIME_LABEL :: string where
  "JOB_IMAGE_RUNTIME_LABEL = runtimeLabel ''job-image''"

definition CONTAINER_RUNTIME_LABELS :: "string list" where
  "CONTAINER_RUNTIME_LABELS = [runtimeLabel ''docker'', runtimeLabel ''podman'']"

definition hasContainerRuntime :: "string list \<Rightarrow> bool" where
  "hasContainerRuntime labels \<longleftrightarrow> (\<exists>l \<in> set labels. l \<in> set CONTAINER_RUNTIME_LABELS)"

datatype backend_type = BackendContainer | BackendBareMetal | BackendFirecracker | BackendKubernetes | BackendEvent

text \<open>An empty \<open>binaryPath\<close> is falsy.\<close>

definition spawnsInJobImage :: "backend_type \<Rightarrow> string option \<Rightarrow> string option \<Rightarrow> bool" where
  "spawnsInJobImage b img binaryPath =
     (case b of
        BackendContainer \<Rightarrow> True
      | BackendBareMetal \<Rightarrow> img \<noteq> None \<and> (binaryPath = None \<or> binaryPath = Some [])
      | _ \<Rightarrow> False)"

definition parseVersionBase :: "string \<Rightarrow> (nat \<times> nat \<times> nat) option" where
  "parseVersionBase version =
     (let parts = js_split CHR ''.'' (hd (js_split CHR ''-'' (trim version)))
      in case parts of
           [a, b, c] \<Rightarrow>
             if all_digits a \<and> all_digits b \<and> all_digits c then Some (undec a, undec b, undec c) else None
         | _ \<Rightarrow> None)"

definition agentVersionAtLeast :: "string option \<Rightarrow> string \<Rightarrow> bool" where
  "agentVersionAtLeast version minimum =
     (case version of
        None \<Rightarrow> False
      | Some v \<Rightarrow>
          if length v = 0 then False
          else case (parseVersionBase v, parseVersionBase minimum) of
                 (Some (a, b, c), Some (a', b', c')) \<Rightarrow>
                   if a \<noteq> a' then a > a' else if b \<noteq> b' then b > b' else if c \<noteq> c' then c > c' else True
               | _ \<Rightarrow> False)"

definition MIN_RUNTIME_FACTS_AGENT_VERSION :: string where
  "MIN_RUNTIME_FACTS_AGENT_VERSION = ''0.10.0''"

definition reportsRuntimeFacts :: "string list \<Rightarrow> string option \<Rightarrow> bool" where
  "reportsRuntimeFacts labels version \<longleftrightarrow>
     JOB_IMAGE_RUNTIME_LABEL \<in> set labels \<or> agentVersionAtLeast version MIN_RUNTIME_FACTS_AGENT_VERSION"

record scaler_agent_view =
  sv_binding :: "(job_id \<times> bool) option"
  sv_prespawned :: bool
  sv_shapeFits :: "js option \<Rightarrow> bool"

record fit_agent =
  fa_labels :: "string list"
  fa_version :: "string option"
  fa_scalerManaged :: bool
  fa_scaler :: "scaler_agent_view option"

record agent_fit_job =
  fj_jobId :: "job_id option"
  fj_resources :: "js option"
  fj_container :: container_need

definition fitAgentFor :: "agent_entry \<Rightarrow> (agent_id \<Rightarrow> scaler_agent_view option) option \<Rightarrow> fit_agent" where
  "fitAgentFor e view =
     \<lparr>fa_labels = ae_labels e, fa_version = ae_version e, fa_scalerManaged = ae_scalerManaged e,
      fa_scaler = (case view of None \<Rightarrow> None | Some f \<Rightarrow> f (ae_agentId e))\<rparr>"

definition isJobImageAgent :: "fit_agent \<Rightarrow> bool" where
  "isJobImageAgent a \<longleftrightarrow>
     (case fa_scaler a of None \<Rightarrow> False
      | Some s \<Rightarrow> (case sv_binding s of None \<Rightarrow> False | Some (j, jobImage) \<Rightarrow> jobImage))
     \<or> JOB_IMAGE_RUNTIME_LABEL \<in> set (fa_labels a)"

definition runtimeLabelIsProof :: "fit_agent \<Rightarrow> bool" where
  "runtimeLabelIsProof a \<longleftrightarrow>
     fa_scaler a \<noteq> None \<or> fa_scalerManaged a \<or> reportsRuntimeFacts (fa_labels a) (fa_version a)"

definition bound_to :: "fit_agent \<Rightarrow> job_id option \<Rightarrow> bool" where
  "bound_to a jobId \<longleftrightarrow>
     (case fa_scaler a of None \<Rightarrow> False
      | Some s \<Rightarrow> (case sv_binding s of None \<Rightarrow> False | Some (j, jobImage) \<Rightarrow> jobId = Some j))"

definition canAgentRunJob :: "fit_agent \<Rightarrow> agent_fit_job \<Rightarrow> bool" where
  "canAgentRunJob a job =
     (if bound_to a (fj_jobId job) then True
      else if isJobImageAgent a then False
      else if fj_container job \<noteq> NeedNone \<and> \<not> hasContainerRuntime (fa_labels a) \<and> runtimeLabelIsProof a then False
      else case fa_scaler a of None \<Rightarrow> True | Some s \<Rightarrow> sv_shapeFits s (fj_resources job))"

definition agentMayRefuse :: "fit_agent \<Rightarrow> bool" where
  "agentMayRefuse a =
     (if isJobImageAgent a then True
      else if \<not> hasContainerRuntime (fa_labels a) \<and> runtimeLabelIsProof a then True
      else case fa_scaler a of None \<Rightarrow> False | Some s \<Rightarrow> sv_prespawned s)"

section \<open>Which label set of which scaler\<close>

record scaler_labels =
  sl_name :: string
  sl_labelSets :: "string list list"
  sl_labelSetMandatoryLabels :: "string list list option"

definition lower_set :: "string list \<Rightarrow> string list" where
  "lower_set ls = js_set (map toLowerCase ls)"

definition normalizeLabelSet :: "string list \<Rightarrow> string" where
  "normalizeLabelSet labels = join '','' (sort_by code_unit_le (lower_set labels))"

definition labelSetsMatch :: "string list \<Rightarrow> string list \<Rightarrow> bool" where
  "labelSetsMatch a b \<longleftrightarrow> normalizeLabelSet a = normalizeLabelSet b"

definition note_label_set ::
  "string \<Rightarrow> string list \<Rightarrow> (string \<times> string) list \<times> (string \<times> string \<times> string) list
   \<Rightarrow> (string \<times> string) list \<times> (string \<times> string \<times> string) list" where
  "note_label_set name ls acc =
     (let (seen, overlaps) = acc; normalized = normalizeLabelSet ls
      in case map_of seen normalized of
           Some existing \<Rightarrow>
             if existing \<noteq> name then (seen, overlaps @ [(normalized, existing, name)]) else (seen, overlaps)
         | None \<Rightarrow> (amap_set normalized name seen, overlaps))"

definition detectLabelSetOverlaps :: "scaler_labels list \<Rightarrow> (string \<times> string \<times> string) list" where
  "detectLabelSetOverlaps scalers =
     snd (fold (\<lambda>s. fold (note_label_set (sl_name s)) (sl_labelSets s)) scalers ([], []))"

definition gateForLabelSet :: "scaler_labels \<Rightarrow> nat \<Rightarrow> string list option" where
  "gateForLabelSet s i =
     (case sl_labelSetMandatoryLabels s of
        None \<Rightarrow> Some []
      | Some per \<Rightarrow>
          if length per \<noteq> length (sl_labelSets s) then None
          else Some (if i < length per then per ! i else []))"

definition acceptingLabelSet :: "scaler_labels \<Rightarrow> nat \<Rightarrow> string set \<Rightarrow> string list option" where
  "acceptingLabelSet s i target =
     (case gateForLabelSet s i of
        None \<Rightarrow> None
      | Some mandatory \<Rightarrow>
          if \<not> (\<forall>m \<in> set mandatory. toLowerCase m \<in> target) then None
          else let scalerLabels = lower_set (sl_labelSets s ! i)
               in if target \<subseteq> set scalerLabels then Some scalerLabels else None)"

definition slots :: "scaler_labels list \<Rightarrow> (scaler_labels \<times> nat) list" where
  "slots scalers = concat (map (\<lambda>s. map (\<lambda>i. (s, i)) [0..<length (sl_labelSets s)]) scalers)"

definition consider_slot ::
  "string set \<Rightarrow> string list \<Rightarrow> scaler_labels \<times> nat \<Rightarrow> (string \<times> nat \<times> nat) option \<Rightarrow> (string \<times> nat \<times> nat) option" where
  "consider_slot target excludeLabels slot best =
     (let (s, i) = slot
      in case acceptingLabelSet s i target of
           None \<Rightarrow> best
         | Some scalerLabels \<Rightarrow>
             if \<exists>e \<in> set excludeLabels. toLowerCase e \<in> set scalerLabels then best
             else case best of
                    None \<Rightarrow> Some (sl_name s, i, length scalerLabels)
                  | Some (n', i', size') \<Rightarrow>
                      if length scalerLabels < size' then Some (sl_name s, i, length scalerLabels) else best)"

definition findBackendForLabels :: "string list \<Rightarrow> scaler_labels list \<Rightarrow> string list \<Rightarrow> (string \<times> nat) option" where
  "findBackendForLabels labels scalers excludeLabels =
     (let target = set (lower_set labels)
      in if lower_set labels = []
         then map_option (\<lambda>(s, i). (sl_name s, i))
                (find (\<lambda>(s, i). gateForLabelSet s i = Some []) (slots scalers))
         else map_option (\<lambda>(n, i, size). (n, i))
                (fold (consider_slot target excludeLabels) (slots scalers) None))"

definition findEligibleBackendsForLabels :: "string list \<Rightarrow> scaler_labels list \<Rightarrow> (string \<times> nat) list" where
  "findEligibleBackendsForLabels labels scalers =
     map (\<lambda>(s, i). (sl_name s, i))
       (filter (\<lambda>(s, i). acceptingLabelSet s i (set (lower_set labels)) \<noteq> None) (slots scalers))"

section \<open>The indexes agree with the agents\<close>

definition idx_has :: "'k index \<Rightarrow> 'k \<Rightarrow> agent_id \<Rightarrow> bool" where
  "idx_has m k a \<longleftrightarrow> (\<exists>s. map_of m k = Some s \<and> a \<in> set s)"

definition idx_full :: "'k index \<Rightarrow> bool" where
  "idx_full m \<longleftrightarrow> (\<forall>k s. map_of m k = Some s \<longrightarrow> s \<noteq> [])"

lemma idx_has_add [simp]: "idx_has (idx_add k a m) k' a' \<longleftrightarrow> k' = k \<and> a' = a \<or> idx_has m k' a'"
  by (auto simp: idx_has_def idx_add_def split: option.splits)

lemma idx_has_remove [simp]: "idx_has (idx_remove k a m) k' a' \<longleftrightarrow> idx_has m k' a' \<and> \<not> (k' = k \<and> a' = a)"
  by (auto simp: idx_has_def idx_remove_def Let_def filter_empty_conv split: option.splits if_splits)

lemma idx_full_add [intro]: "idx_full m \<Longrightarrow> idx_full (idx_add k a m)"
  by (auto simp: idx_full_def idx_add_def js_add_def split: option.splits)

lemma idx_full_remove [intro]: "idx_full m \<Longrightarrow> idx_full (idx_remove k a m)"
  by (auto simp: idx_full_def idx_remove_def Let_def split: option.splits)

lemma idx_has_fold_add: "idx_has (fold (\<lambda>l. idx_add l a) ls m) k a' \<longleftrightarrow> a' = a \<and> k \<in> set ls \<or> idx_has m k a'"
  by (induction ls arbitrary: m) auto

lemma idx_has_fold_remove:
  "idx_has (fold (\<lambda>l. idx_remove l a) ls m) k a' \<longleftrightarrow> idx_has m k a' \<and> \<not> (a' = a \<and> k \<in> set ls)"
  by (induction ls arbitrary: m) auto

lemma idx_full_fold [intro]:
  "idx_full m \<Longrightarrow> idx_full (fold (\<lambda>l. idx_add l a) ls m)"
  "idx_full m \<Longrightarrow> idx_full (fold (\<lambda>l. idx_remove l a) ls m)"
  by (induction ls arbitrary: m) auto

text \<open>
  What the registry keeps: each index lists an agent under exactly the keys of its entry, no set
  of an index is empty, an entry carries its key, and a socket leads to an entry bound to it.
  \<open>agrees_for P\<close> is the part of it for the agents in \<open>P\<close>, with nothing listed for the others.
\<close>

definition agrees_for :: "(agent_id \<Rightarrow> bool) \<Rightarrow> registry \<Rightarrow> bool" where
  "agrees_for P g \<longleftrightarrow>
     (\<forall>l a. idx_has (rg_labelIndex g) l a \<longleftrightarrow> P a \<and> (\<exists>e. map_of (rg_agents g) a = Some e \<and> l \<in> set (ae_labels e))) \<and>
     (\<forall>t a. idx_has (rg_tokenIdIndex g) t a \<longleftrightarrow> P a \<and> (\<exists>e. map_of (rg_agents g) a = Some e \<and> ae_tokenId e = Some t)) \<and>
     idx_full (rg_labelIndex g) \<and> idx_full (rg_tokenIdIndex g) \<and>
     (\<forall>w a. map_of (rg_wsToAgentId g) w = Some a \<longrightarrow> P a \<and> (\<exists>e. map_of (rg_agents g) a = Some e \<and> ae_ws e = w)) \<and>
     (\<forall>a e. map_of (rg_agents g) a = Some e \<longrightarrow> ae_agentId e = a)"

definition registry_inv :: "registry \<Rightarrow> bool" where
  "registry_inv g \<longleftrightarrow> agrees_for (\<lambda>_. True) g \<and> distinct (map fst (rg_agents g))"

lemma drop_token_simps [simp]:
  "rg_agents (drop_token a t g) = rg_agents g"
  "rg_labelIndex (drop_token a t g) = rg_labelIndex g"
  "rg_wsToAgentId (drop_token a t g) = rg_wsToAgentId g"
  "rg_roster (drop_token a t g) = rg_roster g"
  "rg_disconnectTriage (drop_token a t g) = rg_disconnectTriage g"
  by (simp_all add: drop_token_def Let_def split: option.split)

lemma drop_token_index: "rg_tokenIdIndex (drop_token a t g) =
    (case t of None \<Rightarrow> rg_tokenIdIndex g | Some k \<Rightarrow> idx_remove k a (rg_tokenIdIndex g))"
  by (simp add: drop_token_def idx_remove_def Let_def split: option.split)

lemma remove_simps [simp]:
  "rg_agents (removeFromIndexes a e g) = rg_agents g"
  "rg_roster (removeFromIndexes a e g) = rg_roster g"
  "rg_disconnectTriage (removeFromIndexes a e g) = rg_disconnectTriage g"
  by (simp_all add: removeFromIndexes_def)

lemma agrees_remove:
  assumes inv: "registry_inv g" and e: "map_of (rg_agents g) a = Some e"
  shows "agrees_for (\<lambda>b. b \<noteq> a) (removeFromIndexes a e g)"
proof -
  let ?g = "removeFromIndexes a e g"
  have lbl: "rg_labelIndex ?g = fold (\<lambda>l. idx_remove l a) (ae_labels e) (rg_labelIndex g)"
    and ws: "rg_wsToAgentId ?g = amap_delete (ae_ws e) (rg_wsToAgentId g)"
    and tok: "rg_tokenIdIndex ?g = (case ae_tokenId e of None \<Rightarrow> rg_tokenIdIndex g
        | Some k \<Rightarrow> idx_remove k a (rg_tokenIdIndex g))"
    by (simp_all add: removeFromIndexes_def drop_token_index cong: option.case_cong)
  from inv have
    L: "\<And>l b. idx_has (rg_labelIndex g) l b \<longleftrightarrow> (\<exists>e. map_of (rg_agents g) b = Some e \<and> l \<in> set (ae_labels e))" and
    T: "\<And>t b. idx_has (rg_tokenIdIndex g) t b \<longleftrightarrow> (\<exists>e. map_of (rg_agents g) b = Some e \<and> ae_tokenId e = Some t)" and
    F: "idx_full (rg_labelIndex g)" "idx_full (rg_tokenIdIndex g)" and
    W: "\<And>w b. map_of (rg_wsToAgentId g) w = Some b \<Longrightarrow> \<exists>e. map_of (rg_agents g) b = Some e \<and> ae_ws e = w" and
    K: "\<And>b e. map_of (rg_agents g) b = Some e \<Longrightarrow> ae_agentId e = b"
    by (auto simp: registry_inv_def agrees_for_def)
  have "idx_full (rg_tokenIdIndex ?g)"
    using F by (auto simp: tok split: option.split)
  moreover have "idx_has (rg_tokenIdIndex ?g) t b \<longleftrightarrow>
      b \<noteq> a \<and> (\<exists>e. map_of (rg_agents g) b = Some e \<and> ae_tokenId e = Some t)" for t b
    using e by (auto simp: tok T split: option.splits)
  moreover have "b \<noteq> a \<and> (\<exists>e. map_of (rg_agents g) b = Some e \<and> ae_ws e = w)"
    if "map_of (rg_wsToAgentId ?g) w = Some b" for w b
    using that W [of w b] e by (auto simp: ws split: if_splits)
  ultimately show ?thesis
    using e F K by (auto simp: agrees_for_def lbl idx_has_fold_remove L)
qed

lemma agrees_absent:
  assumes "registry_inv g" and "map_of (rg_agents g) a = None"
  shows "agrees_for (\<lambda>b. b \<noteq> a) g"
  using assms by (fastforce simp: registry_inv_def agrees_for_def)

lemma agrees_add:
  assumes "agrees_for (\<lambda>b. b \<noteq> a) g" "distinct (map fst (rg_agents g))" and "ae_agentId e = a" "ae_ws e = ws" "set (ae_labels e) = set labels"
    and "ae_tokenId e = t"
  shows "registry_inv (g\<lparr>rg_agents := amap_set a e (rg_agents g),
     rg_wsToAgentId := amap_set ws a (rg_wsToAgentId g),
     rg_labelIndex := fold (\<lambda>l. idx_add l a) labels (rg_labelIndex g),
     rg_tokenIdIndex := (case t of None \<Rightarrow> rg_tokenIdIndex g | Some k \<Rightarrow> idx_add k a (rg_tokenIdIndex g))\<rparr>)"
proof -
  have "agrees_for (\<lambda>_. True) (g\<lparr>rg_agents := amap_set a e (rg_agents g),
     rg_wsToAgentId := amap_set ws a (rg_wsToAgentId g),
     rg_labelIndex := fold (\<lambda>l. idx_add l a) labels (rg_labelIndex g),
     rg_tokenIdIndex := (case t of None \<Rightarrow> rg_tokenIdIndex g | Some k \<Rightarrow> idx_add k a (rg_tokenIdIndex g))\<rparr>)"
    using assms(1,3-) unfolding agrees_for_def by (auto simp: idx_has_fold_add split: option.split)
  with assms(2) show ?thesis by (simp add: registry_inv_def)
qed

text \<open>The clauses of \<open>agrees_for\<close>, over the map of the agents.\<close>

lemma upd_ex: "(\<exists>e. (m(a := v)) b = Some e \<and> Q e) \<longleftrightarrow>
    (if b = a then \<exists>e. v = Some e \<and> Q e else \<exists>e. m b = Some e \<and> Q e)"
  by simp

lemma upd_all: "(\<forall>b e. (m(a := v)) b = Some e \<longrightarrow> Q b e) \<longleftrightarrow>
    (\<forall>e. v = Some e \<longrightarrow> Q a e) \<and> (\<forall>b e. b \<noteq> a \<longrightarrow> m b = Some e \<longrightarrow> Q b e)"
  by auto

lemma registry_cong:
  assumes "registry_inv g" and "rg_agents g' = rg_agents g" "rg_labelIndex g' = rg_labelIndex g"
    "rg_wsToAgentId g' = rg_wsToAgentId g" "rg_tokenIdIndex g' = rg_tokenIdIndex g"
  shows "registry_inv g'"
  using assms by (simp add: registry_inv_def agrees_for_def del: map_of_eq_Some_iff)

lemma register_inv:
  assumes "registry_inv g" and "register now a ws labels p ar v m md g = (old, g', effs)"
  shows "registry_inv g'"
proof -
  let ?e = "new_entry now a ws labels p ar v m md"
  let ?g1 = "case map_of (rg_agents g) a of None \<Rightarrow> g | Some e \<Rightarrow> removeFromIndexes a e g"
  have "agrees_for (\<lambda>b. b \<noteq> a) ?g1"
    using assms(1) by (auto split: option.split intro: agrees_absent agrees_remove)
  moreover have "distinct (map fst (rg_agents ?g1))"
    using assms(1) by (simp add: registry_inv_def split: option.split)
  moreover have "g' = ?g1\<lparr>rg_agents := amap_set a ?e (rg_agents ?g1),
     rg_wsToAgentId := amap_set ws a (rg_wsToAgentId ?g1),
     rg_labelIndex := fold (\<lambda>l. idx_add l a) (canonicalizeLabels labels) (rg_labelIndex ?g1),
     rg_tokenIdIndex := (case am_tokenId md of None \<Rightarrow> rg_tokenIdIndex ?g1
        | Some k \<Rightarrow> idx_add k a (rg_tokenIdIndex ?g1))\<rparr>"
    using assms(2) by (simp add: register_def Let_def)
  ultimately show ?thesis
    by (simp only:) (rule agrees_add, auto simp: new_entry_def canonicalizeLabelSet_def canonicalizeLabels_def)
qed

lemma unregister_inv:
  assumes "registry_inv g" and "unregister a g = (old, g', effs)"
  shows "registry_inv g'"
proof (cases "map_of (rg_agents g) a")
  case None
  with assms show ?thesis by (simp add: unregister_def)
next
  case (Some e)
  let ?g1 = "removeFromIndexes a e g"
  have g': "g' = ?g1\<lparr>rg_agents := amap_delete a (rg_agents g)\<rparr>"
    using assms(2) Some by (simp add: unregister_def Let_def)
  have "agrees_for (\<lambda>_. True) g'"
    using agrees_remove [OF assms(1) Some]
    by (simp add: agrees_for_def g' upd_ex upd_all del: fun_upd_apply)
  moreover have "distinct (map fst (rg_agents g'))"
    using assms(1) by (simp add: g' registry_inv_def)
  ultimately show ?thesis by (simp add: registry_inv_def)
qed

lemma modify_inv:
  assumes "registry_inv g"
    and "\<And>e. ae_agentId (f e) = ae_agentId e \<and> ae_labels (f e) = ae_labels e \<and> ae_tokenId (f e) = ae_tokenId e
          \<and> ae_ws (f e) = ae_ws e"
  shows "registry_inv (snd (modify_agent a f g))"
proof (cases "map_of (rg_agents g) a")
  case (Some e)
  have g': "snd (modify_agent a f g) = g\<lparr>rg_agents := amap_set a (f e) (rg_agents g)\<rparr>"
    by (simp add: modify_agent_def Some)
  have "agrees_for (\<lambda>_. True) (snd (modify_agent a f g))"
    using assms(1) [unfolded registry_inv_def, THEN conjunct1] Some assms(2) [of e]
    by (simp add: agrees_for_def g' upd_ex upd_all del: fun_upd_apply) (intro conjI allI impI; fastforce)
  moreover have "distinct (map fst (rg_agents (snd (modify_agent a f g))))"
    using assms(1) by (simp add: g' registry_inv_def)
  ultimately show ?thesis by (simp add: registry_inv_def)
qed (use assms in \<open>simp add: modify_agent_def\<close>)

lemma kick_one_inv:
  "registry_inv (fst (snd acc)) \<Longrightarrow> registry_inv (fst (snd (kick_one isOpen a acc)))"
  using unregister_inv [of "fst (snd acc)" a]
  by (auto simp: kick_one_def case_prod_beta prod_eq_iff split: option.split)

lemma fold_kick_inv:
  "registry_inv (fst (snd acc)) \<Longrightarrow> registry_inv (fst (snd (fold (kick_one isOpen) as acc)))"
  by (induction as arbitrary: acc) (simp_all add: kick_one_inv)

lemma disconnect_inv:
  assumes "registry_inv g" and "disconnectByTokenId isOpen t g = (n, g', effs)"
  shows "registry_inv g'"
proof -
  let ?g1 = "g\<lparr>rg_tokenExpiryTimers := amap_delete t (rg_tokenExpiryTimers g)\<rparr>"
  have g1: "registry_inv ?g1" by (rule registry_cong [OF assms(1)]) simp_all
  show ?thesis
    using assms(2) g1 fold_kick_inv [of "(0, ?g1, [])" isOpen]
    by (auto simp: disconnectByTokenId_def Let_def prod_eq_iff split: option.splits)
qed

text \<open>Any operation of the registry.\<close>

inductive registry_step :: "registry \<Rightarrow> registry \<Rightarrow> bool" where
  rg_register: "register now a ws ls p ar v m md g = (old, g', effs) \<Longrightarrow> registry_step g g'"
| rg_unregister: "unregister a g = (old, g', effs) \<Longrightarrow> registry_step g g'"
| rg_unregisterByWs: "unregisterByWs ws g = (old, g', effs) \<Longrightarrow> registry_step g g'"
| rg_disconnect: "disconnectByTokenId isOpen t g = (n, g', effs) \<Longrightarrow> registry_step g g'"
| rg_schedule: "scheduleExpiryKick isOpen now t ex g = (g', effs) \<Longrightarrow> registry_step g g'"
| rg_fire: "fire_expiry isOpen t g = (g', effs) \<Longrightarrow> registry_step g g'"
| rg_begin: "registry_step g (beginRegistering a ws tok g)"
| rg_end: "registry_step g (endRegistering a ws g)"
| rg_triage: "registry_step g (setDisconnectTriage g)"
| rg_increment: "registry_step g (snd (incrementActiveJobs a g))"
| rg_decrement: "registry_step g (snd (decrementActiveJobs a g))"
| rg_heartbeat: "updateHeartbeat now a g = (ok, g', effs) \<Longrightarrow> registry_step g g'"
| rg_drain: "registry_step g (snd (markDraining a g))"
| rg_busy: "registry_step g (snd (markBusyHeld now a g))"
| rg_clearBusy: "registry_step g (clearBusyHeld a g)"
| rg_clearExpired: "registry_step g (clearExpiredBusyHold now a g)"
| rg_drainReported: "registry_step g (markDrainReported a g)"
| rg_clearDraining: "registry_step g (clearDraining a g)"

lemma heartbeat_inv:
  assumes "registry_inv g" and "updateHeartbeat now a g = (ok, g', effs)"
  shows "registry_inv g'"
proof -
  let ?m = "modify_agent a (\<lambda>e. e\<lparr>ae_lastHeartbeatAt := now\<rparr>) g"
  have "registry_inv (snd ?m)" by (rule modify_inv [OF assms(1)]) simp
  moreover have "g' = g \<or> (\<exists>m. g' = (snd ?m)\<lparr>rg_lastRosterStampAt := m\<rparr>) \<or> g' = snd ?m"
    using assms(2) by (auto simp: updateHeartbeat_def case_prod_beta split: if_splits option.splits)
  ultimately show ?thesis
    using assms(1) by (auto intro: registry_cong)
qed

lemma registry_step_inv: "registry_step g g' \<Longrightarrow> registry_inv g \<Longrightarrow> registry_inv g'"
proof (induction rule: registry_step.induct)
  case (rg_unregisterByWs ws g old g' effs)
  then show ?case by (auto simp: unregisterByWs_def split: option.splits dest: unregister_inv)
next
  case (rg_schedule isOpen now t ex g g' effs)
  obtain n gd ed where d: "disconnectByTokenId isOpen t g = (n, gd, ed)" by (cases "disconnectByTokenId isOpen t g")
  have "registry_inv (g\<lparr>rg_tokenExpiryTimers := x\<rparr>)" for x
    by (rule registry_cong [OF rg_schedule.prems]) simp_all
  with rg_schedule disconnect_inv [OF rg_schedule.prems d] d show ?case
    by (auto simp: scheduleExpiryKick_def split: if_splits)
next
  case (rg_fire isOpen t g g' effs)
  let ?g = "g\<lparr>rg_tokenExpiryTimers := amap_delete t (rg_tokenExpiryTimers g)\<rparr>"
  obtain n gd ed where d: "disconnectByTokenId isOpen t ?g = (n, gd, ed)" by (cases "disconnectByTokenId isOpen t ?g")
  have "registry_inv ?g" by (rule registry_cong [OF rg_fire.prems]) simp_all
  from disconnect_inv [OF this d] rg_fire.hyps d show ?case by (simp add: fire_expiry_def)
next
  case (rg_begin g a ws tok)
  then show ?case by (auto simp: beginRegistering_def intro: registry_cong)
next
  case (rg_end g a ws)
  then show ?case by (auto simp: endRegistering_def Let_def split: option.split intro: registry_cong)
next
  case (rg_triage g)
  then show ?case by (auto simp: setDisconnectTriage_def intro: registry_cong)
next
  case (rg_busy g now a)
  then show ?case by (auto simp: markBusyHeld_def split: option.split intro!: modify_inv)
qed (auto simp: incrementActiveJobs_def decrementActiveJobs_def markDraining_def clearBusyHeld_def
    clearExpiredBusyHold_def markDrainReported_def clearDraining_def split: option.split
    dest: register_inv unregister_inv disconnect_inv heartbeat_inv intro!: modify_inv)

definition registry_init :: "registry \<Rightarrow> bool" where
  "registry_init g \<longleftrightarrow> rg_agents g = [] \<and> rg_labelIndex g = [] \<and> rg_wsToAgentId g = [] \<and> rg_tokenIdIndex g = []"

interpretation fleet: inductive_invariant registry_init registry_step registry_inv
proof unfold_locales
  show "registry_inv g" if "registry_init g" for g
    using that by (simp add: registry_init_def registry_inv_def agrees_for_def idx_has_def idx_full_def)
  show "registry_inv t" if "registry_inv s" "registry_step s t" for s t
    using that by (blast intro: registry_step_inv)
qed

section \<open>The lookup finds exactly the agents that fit\<close>

lemma intersect_rest_Some:
  "intersect_rest idx ls ids = Some out \<Longrightarrow> set out = {i \<in> set ids. \<forall>l \<in> set ls. idx_has idx l i}"
proof (induction ls arbitrary: ids)
  case (Cons l ls)
  then obtain s where s: "map_of idx l = Some s"
    and rest: "intersect_rest idx ls (filter (\<lambda>i. i \<in> set s) ids) = Some out"
    by (auto simp: Let_def split: option.splits if_splits)
  from Cons.IH [OF rest] s show ?case by (auto simp: idx_has_def)
qed simp

lemma intersect_rest_None:
  "idx_full idx \<Longrightarrow> intersect_rest idx ls ids = None \<Longrightarrow> \<not> (\<exists>i \<in> set ids. \<forall>l \<in> set ls. idx_has idx l i)"
proof (induction ls arbitrary: ids)
  case (Cons l ls)
  show ?case
  proof (cases "map_of idx l")
    case None
    then show ?thesis by (auto simp: idx_has_def)
  next
    case (Some s)
    with Cons.prems have s: "s \<noteq> []" by (auto simp: idx_full_def)
    show ?thesis
    proof (cases "filter (\<lambda>i. i \<in> set s) ids = []")
      case True
      with Some show ?thesis by (auto simp: idx_has_def filter_empty_conv)
    next
      case False
      with Some s Cons.prems have "intersect_rest idx ls (filter (\<lambda>i. i \<in> set s) ids) = None"
        by (simp add: Let_def)
      from Cons.IH [OF Cons.prems(1) this] Some show ?thesis by (auto simp: idx_has_def)
    qed
  qed
qed simp

lemma candidates_Some:
  "intersectLabelCandidates idx ls = Some out \<Longrightarrow> ls \<noteq> [] \<Longrightarrow> set out = {i. \<forall>l \<in> set ls. idx_has idx l i}"
  by (cases ls) (auto simp: idx_has_def dest!: intersect_rest_Some split: option.splits if_splits)

lemma candidates_None:
  "idx_full idx \<Longrightarrow> intersectLabelCandidates idx ls = None \<Longrightarrow> \<not> (\<exists>i. \<forall>l \<in> set ls. idx_has idx l i)"
proof (cases ls)
  case (Cons l rest)
  assume full: "idx_full idx" and none: "intersectLabelCandidates idx ls = None"
  show ?thesis
  proof (cases "map_of idx l")
    case None
    with Cons show ?thesis by (auto simp: idx_has_def)
  next
    case (Some s)
    with full have "s \<noteq> []" by (auto simp: idx_full_def)
    with Cons Some none have "intersect_rest idx rest s = None" by simp
    from intersect_rest_None [OF full this] Some Cons show ?thesis by (auto simp: idx_has_def)
  qed
qed simp

lemma those_map_Some: "\<forall>x \<in> set xs. f x \<noteq> None \<Longrightarrow> \<exists>ys. those (map f xs) = Some ys \<and> set ys = {y. \<exists>x \<in> set xs. f x = Some y}"
proof (induction xs)
  case (Cons x xs)
  then obtain y ys where "f x = Some y" "those (map f xs) = Some ys" "set ys = {y. \<exists>x \<in> set xs. f x = Some y}"
    by auto
  then show ?case by auto
qed simp

text \<open>The agents that the candidates lead to: exactly those that carry the labels.\<close>

lemma candidate_entries:
  assumes inv: "registry_inv g" and req: "required \<noteq> []"
  shows "\<exists>es. (case intersectLabelCandidates (rg_labelIndex g) required of
            None \<Rightarrow> Some [] | Some ids \<Rightarrow> entries_of g ids) = Some es
          \<and> set es = {e \<in> set (map snd (rg_agents g)). set required \<subseteq> set (ae_labels e)}"
proof -
  from inv have L: "\<And>l a. idx_has (rg_labelIndex g) l a \<longleftrightarrow> (\<exists>e. map_of (rg_agents g) a = Some e \<and> l \<in> set (ae_labels e))"
    and F: "idx_full (rg_labelIndex g)" and D: "distinct (map fst (rg_agents g))"
    unfolding registry_inv_def agrees_for_def by blast+
  have lists: "(\<forall>l \<in> set required. idx_has (rg_labelIndex g) l a) \<longleftrightarrow>
      (\<exists>e. map_of (rg_agents g) a = Some e \<and> set required \<subseteq> set (ae_labels e))" for a
    using req unfolding L by (cases "map_of (rg_agents g) a") (auto simp del: map_of_eq_Some_iff simp: neq_Nil_conv)
  have vals: "e \<in> set (map snd (rg_agents g)) \<longleftrightarrow> (\<exists>a. map_of (rg_agents g) a = Some e)" for e
    using D by force
  show ?thesis
  proof (cases "intersectLabelCandidates (rg_labelIndex g) required")
    case None
    have "\<not> set required \<subseteq> set (ae_labels e)" if "e \<in> set (map snd (rg_agents g))" for e
      using candidates_None [OF F None] that unfolding lists vals by blast
    then have "{e \<in> set (map snd (rg_agents g)). set required \<subseteq> set (ae_labels e)} = {}" by blast
    with None show ?thesis by simp
  next
    case (Some ids)
    from candidates_Some [OF Some req]
    have ids: "set ids = {a. \<exists>e. map_of (rg_agents g) a = Some e \<and> set required \<subseteq> set (ae_labels e)}"
      unfolding lists .
    then have "\<forall>a \<in> set ids. map_of (rg_agents g) a \<noteq> None" by auto
    from those_map_Some [OF this] obtain es where "entries_of g ids = Some es"
      and "set es = {e. \<exists>a \<in> set ids. map_of (rg_agents g) a = Some e}"
      by (auto simp: entries_of_def)
    with Some ids show ?thesis unfolding vals by (auto simp del: map_of_eq_Some_iff)
  qed
qed

lemma agentSatisfies_iff:
  "agentSatisfies rx e ls ps xs qs \<longleftrightarrow>
     set (canonicalizeLabels ls) \<subseteq> set (ae_labels e)
     \<and> (\<forall>p \<in> set (map canonicalizeMatcher ps). matcherSatisfiedBy rx p (set (ae_labels e)))
     \<and> \<not> (\<exists>l \<in> set (canonicalizeLabels xs). l \<in> set (ae_labels e))
     \<and> \<not> (\<exists>p \<in> set (map canonicalizeMatcher qs). matcherSatisfiedBy rx p (set (ae_labels e)))
     \<and> satisfiesMandatoryLabels e (canonicalizeLabels ls)"
  unfolding agentSatisfies_def Let_def by (simp split: if_split) blast

text \<open>
  C29. The lookup through the index is the check agent by agent. In every reachable registry the
  lookup raises nothing and finds exactly the agents that are not draining, have a free slot and
  pass the gate that the pin of a host fan-out asks of one agent; and some matching agent is
  reported exactly when an agent passes it and can run the job.
\<close>

theorem registry_lookup_exact:
  assumes "reach registry_init registry_step g"
  shows "(\<exists>es. findAvailable rx now ls ps xs qs g = Some es \<and>
            set es = {e \<in> set (map snd (rg_agents g)). \<not> ae_draining e \<and> agentHasFreeSlot now e
                        \<and> agentSatisfies rx e ls ps xs qs})
       \<and> hasMatchingAgent rx ls ps xs qs canRun g =
            Some (\<exists>e \<in> set (map snd (rg_agents g)). \<not> ae_draining e \<and> agentSatisfies rx e ls ps xs qs \<and> canRun e)"
proof
  have inv: "registry_inv g" by (rule fleet.reach_inv [OF assms])
  let ?req = "canonicalizeLabels ls"
  define found where "found = (if ?req = [] then Some (map snd (rg_agents g))
      else case intersectLabelCandidates (rg_labelIndex g) ?req of None \<Rightarrow> Some [] | Some ids \<Rightarrow> entries_of g ids)"
  obtain es where es: "found = Some es"
    and set: "set es = {e \<in> set (map snd (rg_agents g)). set ?req \<subseteq> set (ae_labels e)}"
    using candidate_entries [OF inv, of ?req] by (cases "?req = []") (auto simp: found_def)
  show "\<exists>es. findAvailable rx now ls ps xs qs g = Some es \<and>
            set es = {e \<in> set (map snd (rg_agents g)). \<not> ae_draining e \<and> agentHasFreeSlot now e
                        \<and> agentSatisfies rx e ls ps xs qs}"
    unfolding findAvailable_def Let_def found_def [symmetric] es option.map set_filter set agentSatisfies_iff
    by (intro exI conjI, rule refl, unfold set_filter set) blast
  have ok: "(if ae_draining e then False
       else if \<exists>l \<in> set (canonicalizeLabels xs). l \<in> set (ae_labels e) then False
       else if \<exists>p \<in> set (map canonicalizeMatcher ps). \<not> matcherSatisfiedBy rx p (set (ae_labels e)) then False
       else if \<exists>p \<in> set (map canonicalizeMatcher qs). matcherSatisfiedBy rx p (set (ae_labels e)) then False
       else satisfiesMandatoryLabels e ?req \<and> canRun e) \<longleftrightarrow>
      \<not> ae_draining e \<and> agentSatisfies rx e ls ps xs qs \<and> canRun e" if "set ?req \<subseteq> set (ae_labels e)" for e
    using that unfolding agentSatisfies_iff by (simp only: if_bool_eq_conj) blast
  have none: "\<not> agentSatisfies rx e ls ps xs qs" if "\<not> set ?req \<subseteq> set (ae_labels e)" for e
    using that unfolding agentSatisfies_iff by blast
  show "hasMatchingAgent rx ls ps xs qs canRun g =
            Some (\<exists>e \<in> set (map snd (rg_agents g)). \<not> ae_draining e \<and> agentSatisfies rx e ls ps xs qs \<and> canRun e)"
  proof (cases "intersectLabelCandidates (rg_labelIndex g) ?req")
    case None
    then have "?req \<noteq> []" by (cases ?req) auto
    with None es have "es = []" by (simp add: found_def)
    with set have "\<forall>e \<in> set (map snd (rg_agents g)). \<not> set ?req \<subseteq> set (ae_labels e)" by auto
    with none None show ?thesis by (auto simp: hasMatchingAgent_def Let_def)
  next
    case (Some ids)
    have "hasMatchingAgent rx ls ps xs qs canRun g = Some (\<exists>e \<in> set es. if ae_draining e then False
       else if \<exists>l \<in> set (canonicalizeLabels xs). l \<in> set (ae_labels e) then False
       else if \<exists>p \<in> set (map canonicalizeMatcher ps). \<not> matcherSatisfiedBy rx p (set (ae_labels e)) then False
       else if \<exists>p \<in> set (map canonicalizeMatcher qs). matcherSatisfiedBy rx p (set (ae_labels e)) then False
       else satisfiesMandatoryLabels e ?req \<and> canRun e)"
    proof (cases "?req = []")
      case True
      with es have "es = map snd (rg_agents g)" by (simp add: found_def)
      with True Some show ?thesis unfolding hasMatchingAgent_def Let_def by simp
    next
      case False
      with Some es have "entries_of g ids = Some es" by (simp add: found_def)
      with Some False show ?thesis unfolding hasMatchingAgent_def Let_def by simp
    qed
    also have "\<dots> = Some (\<exists>e \<in> set es. \<not> ae_draining e \<and> agentSatisfies rx e ls ps xs qs \<and> canRun e)"
      using ok set by (intro arg_cong [of _ _ Some] bex_cong) auto
    also have "\<dots> = Some (\<exists>e \<in> set (map snd (rg_agents g)).
        \<not> ae_draining e \<and> agentSatisfies rx e ls ps xs qs \<and> canRun e)"
      using none set by (intro arg_cong [of _ _ Some]) blast
    finally show ?thesis .
  qed
qed

section \<open>A revoked token\<close>

lemma unregister_agents: "map_of (rg_agents (fst (snd (unregister a g)))) = (map_of (rg_agents g))(a := None)"
  by (auto simp: unregister_def Let_def split: option.split)

lemma kick_one_agents:
  "map_of (rg_agents (fst (snd (kick_one isOpen a acc)))) = (map_of (rg_agents (fst (snd acc))))(a := None)"
  by (auto simp: kick_one_def case_prod_beta unregister_agents split: option.split)

lemma fold_kick_agents:
  "map_of (rg_agents (fst (snd (fold (kick_one isOpen) as acc)))) b =
     (if b \<in> set as then None else map_of (rg_agents (fst (snd acc))) b)"
  by (induction as arbitrary: acc) (auto simp: kick_one_agents)

lemma kick_one_effects: "set (snd (snd acc)) \<subseteq> set (snd (snd (kick_one isOpen a acc)))"
  by (auto simp: kick_one_def case_prod_beta split: option.split)

lemma fold_kick_effects: "set (snd (snd acc)) \<subseteq> set (snd (snd (fold (kick_one isOpen) as acc)))"
proof (induction as arbitrary: acc)
  case (Cons a as)
  from Cons.IH [of "kick_one isOpen a acc"] kick_one_effects [of acc isOpen a] show ?case by auto
qed simp

lemma fold_kick_closes:
  "a \<in> set as \<Longrightarrow> map_of (rg_agents (fst (snd acc))) a = Some e
     \<Longrightarrow> CloseSocket (ae_ws e) \<in> set (snd (snd (fold (kick_one isOpen) as acc)))"
proof (induction as arbitrary: acc)
  case (Cons b as)
  show ?case
  proof (cases "b = a")
    case True
    with Cons.prems have "CloseSocket (ae_ws e) \<in> set (snd (snd (kick_one isOpen b acc)))"
      by (simp add: kick_one_def case_prod_beta)
    with fold_kick_effects show ?thesis by fastforce
  next
    case False
    with Cons show ?thesis by (simp add: kick_one_agents)
  qed
qed simp

text \<open>
  A revoked token holds no agent. After the kick of a token, in every reachable registry, no
  agent authenticated with it is registered, the socket of each one was closed, every other agent
  is untouched, and no timer of the token is left.
\<close>

theorem revoked_token_loses_its_agents:
  assumes "reach registry_init registry_step g" and "disconnectByTokenId isOpen t g = (n, g', effs)"
  shows "\<forall>a. (case map_of (rg_agents g) a of
       None \<Rightarrow> map_of (rg_agents g') a = None
     | Some e \<Rightarrow> if ae_tokenId e = Some t
                then map_of (rg_agents g') a = None \<and> CloseSocket (ae_ws e) \<in> set effs
                else map_of (rg_agents g') a = Some e)"
proof
  fix a
  have "registry_inv g" by (rule fleet.reach_inv [OF assms(1)])
  then have T: "\<And>a. idx_has (rg_tokenIdIndex g) t a \<longleftrightarrow> (\<exists>e. map_of (rg_agents g) a = Some e \<and> ae_tokenId e = Some t)"
    unfolding registry_inv_def agrees_for_def by blast
  let ?g1 = "g\<lparr>rg_tokenExpiryTimers := amap_delete t (rg_tokenExpiryTimers g)\<rparr>"
  define ids where "ids = (case map_of (rg_tokenIdIndex g) t of None \<Rightarrow> [] | Some s \<Rightarrow> s)"
  have run: "fold (kick_one isOpen) ids (0, ?g1, []) = (n, g', effs)"
    using assms(2) by (auto simp: disconnectByTokenId_def ids_def split: option.splits)
  have ids: "a \<in> set ids \<longleftrightarrow> (\<exists>e. map_of (rg_agents g) a = Some e \<and> ae_tokenId e = Some t)"
    using T [of a] by (auto simp: ids_def idx_has_def split: option.split)
  have agents: "map_of (rg_agents g') a = (if a \<in> set ids then None else map_of (rg_agents g) a)"
    using fold_kick_agents [of isOpen ids "(0, ?g1, [])" a] by (simp add: run)
  have closes: "CloseSocket (ae_ws e) \<in> set effs" if "a \<in> set ids" "map_of (rg_agents g) a = Some e" for e
    using fold_kick_closes [of a ids "(0, ?g1, [])" e isOpen] that by (simp add: run)
  show "case map_of (rg_agents g) a of
       None \<Rightarrow> map_of (rg_agents g') a = None
     | Some e \<Rightarrow> if ae_tokenId e = Some t
                then map_of (rg_agents g') a = None \<and> CloseSocket (ae_ws e) \<in> set effs
                else map_of (rg_agents g') a = Some e"
    using ids agents closes by (cases "map_of (rg_agents g) a") auto
qed

text \<open>
  Registering again disarms the expiry of a token. When the only agent of a token registers
  again with it, the timer that would kick the token at its expiry is gone, while the agent is
  registered under the token; only scheduling the kick again arms it.
\<close>

theorem reregistration_disarms_token_expiry:
  assumes sole: "map_of (rg_tokenIdIndex g) t = Some [a]"
    and agent: "map_of (rg_agents g) a = Some e" "ae_tokenId e = Some t"
    and again: "am_tokenId md = Some t" and reg: "register now a ws ls p ar v m md g = (old, g', effs)"
  shows "map_of (rg_tokenExpiryTimers g') t = None \<and> idx_has (rg_tokenIdIndex g') t a
    \<and> (now < expiresAt \<longrightarrow>
         map_of (rg_tokenExpiryTimers (fst (scheduleExpiryKick isOpen now t expiresAt g'))) t = Some expiresAt)"
proof -
  let ?g1 = "removeFromIndexes a e g"
  have "map_of (rg_tokenExpiryTimers ?g1) t = None"
    using sole agent(2) by (simp add: removeFromIndexes_def drop_token_def)
  moreover have "rg_tokenExpiryTimers g' = rg_tokenExpiryTimers ?g1"
    and "rg_tokenIdIndex g' = idx_add t a (rg_tokenIdIndex ?g1)"
    using reg agent again by (auto simp: register_def Let_def)
  ultimately show ?thesis by (simp add: scheduleExpiryKick_def)
qed

section \<open>The queue and the registry agree\<close>

lemma canonical_set [simp]: "set (canonicalizeLabelSet (canonicalizeLabelSet ls)) = set (canonicalizeLabelSet ls)"
  by (auto simp: canonicalizeLabelSet_def image_image)

lemma set_canonicalizeLabels: "set (canonicalizeLabels ls) = set (canonicalizeLabelSet ls)"
  by (simp add: canonicalizeLabels_def canonicalizeLabelSet_def)

text \<open>
  C30. The two places that match jobs to agents agree. For an agent as it registers and a job as
  it is queued, the drain of the queue (its SQL conditions and the pattern filter after them)
  admits the job exactly when the registry's gate admits the agent and the row itself may be
  claimed: pending, unexpired, pinned to nobody else, its run going, outside the back-off.
\<close>

theorem queue_and_registry_agree:
  "let e = new_entry now a ws ls p ar v m md;
       r = row_values env j t job\<lparr>dq_status := st, dq_expires_at := ex\<rparr>
   in drainBaseQuery ck skip db (ae_labels e) (ae_mandatoryLabels e) (Some a) r
      \<and> jobPatternsSatisfiedBy rx (rowToQueuedJob env r) (set (canonicalizeLabelSet (ae_labels e)))
    \<longleftrightarrow> (st = DqPending \<and> unexpired ck r \<and> notTerminalRun db r \<and> j \<notin> set skip
         \<and> (dq_pinned_agent_id r = None \<or> a \<noteq> [] \<and> dq_pinned_agent_id r = Some a))
      \<and> agentSatisfies rx e (ji_runsOnLabels job) (orDefault (ji_runsOnPatterns job) [])
          (orDefault (ji_excludeLabels job) []) (orDefault (ji_excludePatterns job) [])"
proof -
  define e where "e = new_entry now a ws ls p ar v m md"
  define r where "r = row_values env j t job\<lparr>dq_status := st, dq_expires_at := ex\<rparr>"
  have e: "set (ae_labels e) = set (canonicalizeLabelSet ls)"
    "ae_mandatoryLabels e = canonicalizeLabelSet (opt_or (am_mandatoryLabels md) [])"
    by (simp_all add: e_def new_entry_def)
  have r: "dq_id r = j" "dq_status r = st" "dq_runs_on_labels r = canonicalizeLabels (ji_runsOnLabels job)"
    "dq_exclude_labels r = canonicalizeLabels (orDefault (ji_excludeLabels job) [])"
    "dq_runs_on_patterns r = orDefault (ji_runsOnPatterns job) []"
    "dq_exclude_patterns r = orDefault (ji_excludePatterns job) []"
    by (simp_all add: r_def row_values_def split: prod.split)
  have labels: "set (canonicalizeLabels (ae_labels e)) = set (ae_labels e)"
    "set (canonicalizeLabelSet (ae_labels e)) = set (ae_labels e)"
    by (simp_all add: e_def new_entry_def set_canonicalizeLabels)
  have gate: "set (canonicalizeLabels (ae_mandatoryLabels e)) = set (ae_mandatoryLabels e)"
    by (simp add: e(2) set_canonicalizeLabels)
  then have empty: "canonicalizeLabels (ae_mandatoryLabels e) = [] \<longleftrightarrow> ae_mandatoryLabels e = []"
    by (metis set_empty)
  have mand: "satisfiesMandatoryLabels e (canonicalizeLabels (ji_runsOnLabels job)) \<longleftrightarrow>
      ae_mandatoryLabels e = [] \<or> set (ae_mandatoryLabels e) \<subseteq> set (canonicalizeLabels (ji_runsOnLabels job))"
    unfolding satisfiesMandatoryLabels_def set_canonicalizeLabels [symmetric] by auto
  show ?thesis
    unfolding e_def [symmetric] r_def [symmetric] Let_def drainBaseQuery_def jobPatternsSatisfiedBy_def
      agentSatisfies_iff mand empty labels r
    by (simp add: r gate labels) blast
qed

section \<open>Who may refuse\<close>

text \<open>
  An agent refuses only when the drain was told that it might. When a scaler's shape check
  passes every agent it did not pre-spawn, an agent that may not run some job is one for which the
  drain carries the predicate into its claim; and an agent inside a job's image runs no other job.
\<close>

theorem refusal_is_announced:
  assumes "\<And>s req. fa_scaler ag = Some s \<Longrightarrow> \<not> sv_prespawned s \<Longrightarrow> sv_shapeFits s req"
  shows "(\<not> canAgentRunJob ag job \<longrightarrow> agentMayRefuse ag)
    \<and> (isJobImageAgent ag \<longrightarrow> canAgentRunJob ag job \<longrightarrow>
         (\<exists>s j. fa_scaler ag = Some s \<and> map_option fst (sv_binding s) = Some j \<and> fj_jobId job = Some j))"
  using assms
  by (auto simp: canAgentRunJob_def agentMayRefuse_def bound_to_def split: if_splits option.splits prod.splits)

section \<open>The smallest label set\<close>

definition takes :: "string set \<Rightarrow> string list \<Rightarrow> scaler_labels \<times> nat \<Rightarrow> nat \<Rightarrow> bool" where
  "takes target excludeLabels slot n \<longleftrightarrow>
     (\<exists>ls. acceptingLabelSet (fst slot) (snd slot) target = Some ls \<and> length ls = n
        \<and> \<not> (\<exists>e \<in> set excludeLabels. toLowerCase e \<in> set ls))"

lemma consider_skip: "\<not> (\<exists>n. takes target ex slot n) \<Longrightarrow> consider_slot target ex slot best = best"
  by (auto simp: consider_slot_def takes_def case_prod_beta split: option.split)

lemma consider_takes: "takes target ex slot n \<Longrightarrow> consider_slot target ex slot best =
    (case best of None \<Rightarrow> Some (sl_name (fst slot), snd slot, n)
     | Some (n', i', size') \<Rightarrow> if n < size' then Some (sl_name (fst slot), snd slot, n) else best)"
  by (auto simp: consider_slot_def takes_def case_prod_beta split: option.split)

definition best_of :: "string set \<Rightarrow> string list \<Rightarrow> (scaler_labels \<times> nat) set \<Rightarrow> (string \<times> nat \<times> nat) option \<Rightarrow> bool" where
  "best_of target ex S best \<longleftrightarrow>
     (case best of
        None \<Rightarrow> \<forall>x \<in> S. \<forall>n. \<not> takes target ex x n
      | Some (nm, i, n) \<Rightarrow> (\<exists>x \<in> S. takes target ex x n \<and> nm = sl_name (fst x) \<and> i = snd x)
          \<and> (\<forall>x \<in> S. \<forall>m. takes target ex x m \<longrightarrow> n \<le> m))"

lemma takes_unique: "takes t ex x n \<Longrightarrow> takes t ex x m \<Longrightarrow> n = m"
  by (auto simp: takes_def)

lemma best_of_consider:
  assumes "best_of t ex S best"
  shows "best_of t ex (insert x S) (consider_slot t ex x best)"
proof (cases "\<exists>n. takes t ex x n")
  case False
  with assms show ?thesis
    by (auto simp: consider_skip best_of_def split: option.splits)
next
  case True
  then obtain n where n: "takes t ex x n" by blast
  then have only: "takes t ex x m \<longleftrightarrow> m = n" for m using takes_unique by blast
  show ?thesis
  proof (cases best)
    case None
    with assms show ?thesis by (auto simp: consider_takes [OF n] best_of_def only)
  next
    case (Some b)
    obtain nm i size where b: "b = (nm, i, size)" by (cases b)
    show ?thesis
    proof (cases "n < size")
      case True
      with assms Some b show ?thesis
        by (fastforce simp: consider_takes [OF n] best_of_def only)
    next
      case False
      with assms Some b show ?thesis
        by (auto simp: consider_takes [OF n] best_of_def only)
    qed
  qed
qed

lemma best_of_fold: "best_of t ex S best \<Longrightarrow> best_of t ex (S \<union> set xs) (fold (consider_slot t ex) xs best)"
proof (induction xs arbitrary: S best)
  case (Cons x xs)
  from Cons.IH [OF best_of_consider [OF Cons.prems, of x]] show ?case by simp
qed simp

text \<open>
  A job is spawned from a smallest label set that takes it. For a job with labels, the chosen
  set carries them all, has its gate among them and none of the excluded labels, and no such set
  has fewer labels; nothing is chosen exactly when no set qualifies; and the choice is among the
  eligible sets.
\<close>

theorem smallest_accepting_label_set:
  assumes "lower_set labels \<noteq> []"
  shows "case findBackendForLabels labels scalers ex of
      None \<Rightarrow> \<forall>x \<in> set (slots scalers). \<forall>n. \<not> takes (set (lower_set labels)) ex x n
    | Some (nm, i) \<Rightarrow> (nm, i) \<in> set (findEligibleBackendsForLabels labels scalers)
        \<and> (\<exists>x n. x \<in> set (slots scalers) \<and> nm = sl_name (fst x) \<and> i = snd x \<and> takes (set (lower_set labels)) ex x n
            \<and> (\<forall>y \<in> set (slots scalers). \<forall>m. takes (set (lower_set labels)) ex y m \<longrightarrow> n \<le> m))"
proof -
  let ?t = "set (lower_set labels)"
  let ?best = "fold (consider_slot ?t ex) (slots scalers) None"
  have best: "best_of ?t ex (set (slots scalers)) ?best"
    using best_of_fold [of ?t ex "{}" None "slots scalers"] by (simp add: best_of_def)
  have eligible: "(sl_name (fst x), snd x) \<in> set (findEligibleBackendsForLabels labels scalers)"
    if "x \<in> set (slots scalers)" "takes ?t ex x n" for x n
    using that unfolding findEligibleBackendsForLabels_def
    by (auto simp: takes_def intro!: image_eqI [of _ _ x] split: prod.split)
  show ?thesis
    using best eligible assms
    by (auto simp: findBackendForLabels_def best_of_def split: option.splits prod.splits) blast+
qed

section \<open>Instances\<close>

definition empty_registry :: registry where
  "empty_registry = \<lparr>rg_agents = [], rg_labelIndex = [], rg_wsToAgentId = [], rg_tokenIdIndex = [],
     rg_tokenExpiryTimers = [], rg_lastRosterStampAt = [], rg_registeringSockets = [], rg_roster = Some ''i1'',
     rg_disconnectTriage = True\<rparr>"

definition demo_metadata :: agent_metadata where
  "demo_metadata = \<lparr>am_compileSchemaVersion = None,
     am_os = \<lparr>os_hostname = None, os_osRelease = None, os_osVersion = None, os_totalMemoryMb = None,
       os_cpuCount = None, os_nodeVersion = None, os_runningAsUser = None, os_runningAsUid = None\<rparr>,
     am_tokenId = Some ''t'', am_mandatoryLabels = None, am_scalerManaged = None, am_tokenAgentType = None,
     am_properties = None\<rparr>"

definition demo_register :: "registry \<Rightarrow> socket option \<times> registry \<times> fleet_effect list" where
  "demo_register = register 5 ''a'' ''w'' [''Linux''] ''linux'' ''x64'' None 1 demo_metadata"

definition demo_fleet :: registry where "demo_fleet = fst (snd (demo_register empty_registry))"

lemma demo_fleet_reach: "reach registry_init registry_step demo_fleet"
proof (rule reach.reach_step)
  show "reach registry_init registry_step empty_registry"
    by (rule reach.reach_init) (simp add: registry_init_def empty_registry_def)
  show "registry_step empty_registry demo_fleet"
    unfolding demo_fleet_def demo_register_def by (rule rg_register) (simp add: prod_eq_iff)
qed

definition no_regex_engine :: regex_engine where "no_regex_engine s f t = False"

theorem registry_lookup_exact_witness:
  "hasMatchingAgent no_regex_engine [''LINUX''] [] [] [] (\<lambda>_. True) demo_fleet
     = Some (\<exists>e \<in> set (map snd (rg_agents demo_fleet)). \<not> ae_draining e
         \<and> agentSatisfies no_regex_engine e [''LINUX''] [] [] [] \<and> True)
   \<and> hasMatchingAgent no_regex_engine [''LINUX''] [] [] [] (\<lambda>_. True) demo_fleet = Some True"
proof
  show "hasMatchingAgent no_regex_engine [''LINUX''] [] [] [] (\<lambda>_. True) demo_fleet
     = Some (\<exists>e \<in> set (map snd (rg_agents demo_fleet)). \<not> ae_draining e
         \<and> agentSatisfies no_regex_engine e [''LINUX''] [] [] [] \<and> True)"
    by (rule registry_lookup_exact [OF demo_fleet_reach, THEN conjunct2])
  show "hasMatchingAgent no_regex_engine [''LINUX''] [] [] [] (\<lambda>_. True) demo_fleet = Some True"
    by code_simp
qed

theorem revoked_token_loses_its_agents_witness:
  "map_of (rg_agents (fst (snd (disconnectByTokenId (\<lambda>_. True) ''t'' demo_fleet)))) ''a'' = None
   \<and> CloseSocket ''w'' \<in> set (snd (snd (disconnectByTokenId (\<lambda>_. True) ''t'' demo_fleet)))"
proof -
  have "disconnectByTokenId (\<lambda>_. True) ''t'' demo_fleet =
      (fst (disconnectByTokenId (\<lambda>_. True) ''t'' demo_fleet),
       fst (snd (disconnectByTokenId (\<lambda>_. True) ''t'' demo_fleet)),
       snd (snd (disconnectByTokenId (\<lambda>_. True) ''t'' demo_fleet)))" by simp
  from revoked_token_loses_its_agents [OF demo_fleet_reach this, THEN spec, of "''a''"]
  have "case map_of (rg_agents demo_fleet) ''a'' of
       None \<Rightarrow> map_of (rg_agents (fst (snd (disconnectByTokenId (\<lambda>_. True) ''t'' demo_fleet)))) ''a'' = None
     | Some e \<Rightarrow> if ae_tokenId e = Some ''t''
                then map_of (rg_agents (fst (snd (disconnectByTokenId (\<lambda>_. True) ''t'' demo_fleet)))) ''a'' = None
                     \<and> CloseSocket (ae_ws e) \<in> set (snd (snd (disconnectByTokenId (\<lambda>_. True) ''t'' demo_fleet)))
                else map_of (rg_agents (fst (snd (disconnectByTokenId (\<lambda>_. True) ''t'' demo_fleet)))) ''a'' = Some e" .
  moreover have "map_option (\<lambda>e. (ae_tokenId e, ae_ws e)) (map_of (rg_agents demo_fleet) ''a'') = Some (Some ''t'', ''w'')"
    by code_simp
  ultimately show ?thesis by (auto simp del: map_of_eq_Some_iff split: option.splits)
qed

theorem reregistration_disarms_token_expiry_witness:
  "map_of (rg_tokenExpiryTimers (fst (scheduleExpiryKick (\<lambda>_. True) 5 ''t'' 100 demo_fleet))) ''t'' = Some 100
   \<and> map_of (rg_tokenExpiryTimers (fst (snd (demo_register
        (fst (scheduleExpiryKick (\<lambda>_. True) 5 ''t'' 100 demo_fleet)))))) ''t'' = None"
proof
  let ?g = "fst (scheduleExpiryKick (\<lambda>_. True) 5 ''t'' 100 demo_fleet)"
  show "map_of (rg_tokenExpiryTimers ?g) ''t'' = Some 100" by code_simp
  have sole: "map_of (rg_tokenIdIndex ?g) ''t'' = Some [''a'']" by code_simp
  have "map_option ae_tokenId (map_of (rg_agents ?g) ''a'') = Some (Some ''t'')" by code_simp
  then obtain e where e: "map_of (rg_agents ?g) ''a'' = Some e" "ae_tokenId e = Some ''t''"
    by (auto simp del: map_of_eq_Some_iff)
  have "demo_register ?g = (fst (demo_register ?g), fst (snd (demo_register ?g)), snd (snd (demo_register ?g)))"
    by simp
  then have "register 5 ''a'' ''w'' [''Linux''] ''linux'' ''x64'' None 1 demo_metadata ?g =
      (fst (demo_register ?g), fst (snd (demo_register ?g)), snd (snd (demo_register ?g)))"
    unfolding demo_register_def .
  from reregistration_disarms_token_expiry [OF sole e _ this]
  show "map_of (rg_tokenExpiryTimers (fst (snd (demo_register ?g)))) ''t'' = None"
    by (simp add: demo_metadata_def)
qed

theorem refusal_is_announced_witness:
  "\<not> canAgentRunJob \<lparr>fa_labels = [], fa_version = Some ''1.2.3'', fa_scalerManaged = False, fa_scaler = None\<rparr>
        \<lparr>fj_jobId = None, fj_resources = None, fj_container = NeedImage\<rparr>
   \<and> agentMayRefuse \<lparr>fa_labels = [], fa_version = Some ''1.2.3'', fa_scalerManaged = False, fa_scaler = None\<rparr>"
proof -
  let ?a = "\<lparr>fa_labels = [], fa_version = Some ''1.2.3'', fa_scalerManaged = False, fa_scaler = None\<rparr>"
  let ?j = "\<lparr>fj_jobId = None, fj_resources = None, fj_container = NeedImage\<rparr>"
  have "\<not> canAgentRunJob ?a ?j" by code_simp
  moreover have "\<not> canAgentRunJob ?a ?j \<longrightarrow> agentMayRefuse ?a"
    by (rule refusal_is_announced [THEN conjunct1]) simp
  ultimately show ?thesis by blast
qed

theorem smallest_accepting_label_set_witness:
  "findBackendForLabels [''GPU''] [\<lparr>sl_name = ''s'', sl_labelSets = [[''gpu'', ''linux''], [''gpu'']],
      sl_labelSetMandatoryLabels = None\<rparr>] [] = Some (''s'', 1)
   \<and> (''s'', 1) \<in> set (findEligibleBackendsForLabels [''GPU'']
        [\<lparr>sl_name = ''s'', sl_labelSets = [[''gpu'', ''linux''], [''gpu'']], sl_labelSetMandatoryLabels = None\<rparr>])"
proof -
  let ?s = "[\<lparr>sl_name = ''s'', sl_labelSets = [[''gpu'', ''linux''], [''gpu'']], sl_labelSetMandatoryLabels = None\<rparr>]"
  have 1: "findBackendForLabels [''GPU''] ?s [] = Some (''s'', 1)" by code_simp
  have "lower_set [''GPU''] \<noteq> []" by code_simp
  from smallest_accepting_label_set [OF this, of ?s "[]"] 1 show ?thesis by auto
qed

end
