(* ===== verification/Dispatcher.thy ===== *)
theory Dispatcher
  imports AgentFleet "HOL-Library.State_Monad"
begin

text \<open>
  The dispatcher of a coordinator, \<open>packages/orchestrator/src/agent/dispatcher.ts\<close>: it routes jobs
  to the agents connected to this coordinator or to the shared queue, and follows a job through
  acknowledgement, rejection, disconnect, recovery and completion. A method is a state
  transformer on \<open>dispatcher\<close>, in the order of its statements.

  At each \<open>await\<close> the rest of the world may run: \<open>de_others\<close>, indexed by the awaited call, is
  what it does, before and after the awaited call takes effect, so a fact that holds for every
  \<open>de_others\<close> that keeps it holds under every interleaving. A promise that is not awaited is put
  in \<open>dp_issued\<close>, and running it is a step of its own; so is a timer that fires. The callback that
  puts a job on the wire, the scaler and the acknowledgement timeout are parameters; their calls
  are the effects \<open>dp_out\<close>. A failing query is modelled where a method reacts to it
  (\<open>de_fails\<close>). The set of jobs of an agent is read from the map again after an \<open>await\<close>, where the code keeps a
  reference to it: the two differ only when the set was emptied and filled again in between.
  Logging, counters and the request context are left out.
\<close>

section \<open>State\<close>

datatype timer = AckTimer agent_id job_id run_id | RecoveryTimer agent_id job_id

record pending_ack =
  pk_agentId :: agent_id
  pk_runId :: run_id
  pk_timer :: nat

record recovery =
  rc_agentId :: agent_id
  rc_runId :: run_id
  rc_timer :: nat
  rc_disconnectedAt :: millis

record grace =
  gr_agentId :: agent_id
  gr_expiresAt :: millis

text \<open>What was started without being awaited.\<close>

datatype issued =
    IssuedClearAck job_id
  | IssuedStampAck job_id millis agent_id
  | IssuedComplete job_id
  | IssuedTriage agent_id "agent_entry option" millis

datatype fail_reason =
    FrRefused string
  | FrUnopenable string
  | FrUnopenableAttempts nat string
  | FrAttempts nat
  | FrScalerAgentLost
  | FrRecoveryTimeout

record scale_request =
  sr_labels :: "string list"
  sr_jobId :: job_id
  sr_runId :: run_id
  sr_excludeLabels :: "string list"
  sr_resources :: "js option"
  sr_orgId :: "string option"
  sr_container :: "(string \<times> js option) option"

datatype dispatch_effect =
    CallOnDispatch agent_id dq_job
  | JobFailedPermanently agent_id job_id run_id fail_reason
  | RecoveryStarted agent_id job_id
  | AckTimeout agent_id job_id run_id
  | AskScaler scale_request
  | ReleaseWaiters "job_id list"
  | FleetEffect fleet_effect

record dispatcher =
  dp_registry :: registry
  dp_queue :: coordinator
  dp_db :: dq_db
  dp_clock :: clock
  dp_agentJobs :: "(agent_id \<times> job_id list) list"
  dp_jobToAgent :: "(job_id \<times> agent_id) list"
  dp_jobRunIds :: "(job_id \<times> run_id) list"
  dp_completedJobs :: "(job_id \<times> grace) list"
  dp_pendingAcks :: "(job_id \<times> pending_ack) list"
  dp_earlyAcks :: "(job_id \<times> agent_id) list"
  dp_startedJobs :: "job_id list"
  dp_recoveringJobs :: "(job_id \<times> recovery) list"
  dp_timers :: "(nat \<times> timer \<times> millis) list"
  dp_nextTimer :: nat
  dp_issued :: "issued list"
  dp_redriveInFlight :: bool
  dp_pendingRedriveInFlight :: bool
  dp_draining :: bool
  dp_peers :: bool
  dp_reboot :: "(agent_id \<times> millis) list option"
  dp_out :: "dispatch_effect list"

datatype await_point =
    AwInsert | AwEnqueue | AwDequeue | AwMark | AwSend | AwAckTimeout | AwRequeue | AwRead | AwRoster
  | AwPeers | AwScale | AwDepth

datatype query = QInsertDispatched | QDequeue | QMarkDispatched | QPutBack

datatype dispatch_answer = AnsSent | AnsRefused string | AnsThrew

datatype scale_action = Spawning | AtCapacity | NoBackend | ScaleFailed | Skipped

record 'k dispatch_env =
  de_queue :: "'k queue_env"
  de_others :: "await_point \<Rightarrow> dispatcher \<Rightarrow> dispatcher"
  de_dbOthers :: "job_id option \<Rightarrow> dq_db \<Rightarrow> dq_db"
  de_locked :: "job_id set"
  de_fails :: "query \<Rightarrow> dispatcher \<Rightarrow> bool"
  de_maxDepth :: "int option"
  de_queueTimeout :: "(dq_input \<Rightarrow> millis) option"
  de_unopenableBackoff :: "millis option"
  de_onDispatch :: "agent_id \<Rightarrow> dq_job \<Rightarrow> dispatcher \<Rightarrow> dispatch_answer"
  de_onNoMatchingAgent :: "(scale_request \<Rightarrow> dispatcher \<Rightarrow> scale_action) option"
  de_scalerAgentView :: "(dispatcher \<Rightarrow> agent_id \<Rightarrow> scaler_agent_view option) option"
  de_ackTimeoutMs :: "dq_job \<Rightarrow> millis"
  de_maxReconnectDelayMs :: millis
  de_errorText :: "unseal_error \<Rightarrow> string"
  de_collate :: "string \<Rightarrow> string \<Rightarrow> bool"

datatype dispatch_error = QueryFailed | SendFailed

type_synonym 'a act = "(dispatcher, 'a) state"

definition gets :: "(dispatcher \<Rightarrow> 'a) \<Rightarrow> 'a act" where "gets f = State (\<lambda>s. (f s, s))"

definition modify :: "(dispatcher \<Rightarrow> dispatcher) \<Rightarrow> unit act" where "modify f = State (\<lambda>s. ((), f s))"

abbreviation ret :: "'a \<Rightarrow> 'a act" where "ret \<equiv> State_Monad.return"

text \<open>A branch without an \<open>else\<close>.\<close>

definition whenever :: "bool \<Rightarrow> unit act \<Rightarrow> unit act" where
  "whenever b m = (if b then m else ret ())"

definition awaiting :: "'k dispatch_env \<Rightarrow> await_point \<Rightarrow> 'a act \<Rightarrow> 'a act" where
  "awaiting env p m = do { modify (de_others env p); x \<leftarrow> m; modify (de_others env p); ret x }"

definition emits :: "dispatch_effect list \<Rightarrow> unit act" where
  "emits es = modify (\<lambda>s. s\<lparr>dp_out := dp_out s @ es\<rparr>)"

definition issue :: "issued \<Rightarrow> unit act" where
  "issue i = modify (\<lambda>s. s\<lparr>dp_issued := dp_issued s @ [i]\<rparr>)"

abbreviation nowMs :: "dispatcher \<Rightarrow> millis" where "nowMs s \<equiv> procNow (dp_clock s)"

text \<open>\<open>setTimeout\<close> and \<open>clearTimeout\<close>.\<close>

definition setTimeout :: "timer \<Rightarrow> millis \<Rightarrow> nat act" where
  "setTimeout t delay = do {
     s \<leftarrow> gets (\<lambda>s. s);
     modify (\<lambda>s. s\<lparr>dp_timers := amap_set (dp_nextTimer s) (t, nowMs s + delay) (dp_timers s),
                   dp_nextTimer := Suc (dp_nextTimer s)\<rparr>);
     ret (dp_nextTimer s) }"

definition clearTimeout :: "nat \<Rightarrow> unit act" where
  "clearTimeout n = modify (\<lambda>s. s\<lparr>dp_timers := amap_delete n (dp_timers s)\<rparr>)"

text \<open>A statement on the shared queue, and an operation of the registry.\<close>

definition on_queue :: "(clock \<Rightarrow> coordinator \<Rightarrow> dq_db \<Rightarrow> 'a \<times> coordinator \<times> dq_db) \<Rightarrow> 'a act" where
  "on_queue f = State (\<lambda>s. let (x, c, db) = f (dp_clock s) (dp_queue s) (dp_db s)
                           in (x, s\<lparr>dp_queue := c, dp_db := db\<rparr>))"

definition on_db :: "(clock \<Rightarrow> coordinator \<Rightarrow> dq_db \<Rightarrow> 'a \<times> dq_db) \<Rightarrow> 'a act" where
  "on_db f = on_queue (\<lambda>ck c db. let (x, db') = f ck c db in (x, c, db'))"

definition on_registry :: "(millis \<Rightarrow> registry \<Rightarrow> 'a \<times> registry) \<Rightarrow> 'a act" where
  "on_registry f = State (\<lambda>s. let (x, g) = f (nowMs s) (dp_registry s) in (x, s\<lparr>dp_registry := g\<rparr>))"

definition agent_of :: "agent_id \<Rightarrow> dispatcher \<Rightarrow> agent_entry option" where
  "agent_of a s = map_of (rg_agents (dp_registry s)) a"

definition take_slot :: "agent_id \<Rightarrow> unit act" where
  "take_slot a = do { _ \<leftarrow> on_registry (\<lambda>now. incrementActiveJobs a); ret () }"

definition free_slot :: "agent_id \<Rightarrow> unit act" where
  "free_slot a = do { _ \<leftarrow> on_registry (\<lambda>now. decrementActiveJobs a); ret () }"

definition drop_agent :: "agent_id \<Rightarrow> unit act" where
  "drop_agent a = do {
     effs \<leftarrow> on_registry (\<lambda>now g. let (_, g', effs) = unregister a g in (effs, g'));
     emits (map FleetEffect effs) }"

definition updateQueueDepthMetric :: "'k dispatch_env \<Rightarrow> unit act" where
  "updateQueueDepthMetric env =
     awaiting env AwDepth (on_queue (\<lambda>ck c db. let (_, c') = getDepth ck c db in ((), c', db)))"

text \<open>
  The entry object that was read before an \<open>await\<close>, read after it. Two entries are the same
  object when socket and registration time agree; an entry that was dropped or replaced
  meanwhile keeps the values it had.
\<close>

definition same_entry :: "agent_entry \<Rightarrow> agent_entry \<Rightarrow> bool" where
  "same_entry e e' \<longleftrightarrow> ae_ws e = ae_ws e' \<and> ae_registeredAt e = ae_registeredAt e'"

definition live_entry :: "agent_id \<Rightarrow> agent_entry \<Rightarrow> dispatcher \<Rightarrow> agent_entry" where
  "live_entry a e0 s = (case agent_of a s of None \<Rightarrow> e0 | Some e \<Rightarrow> if same_entry e e0 then e else e0)"

section \<open>Tracking\<close>

definition jobs_of :: "agent_id \<Rightarrow> dispatcher \<Rightarrow> job_id list" where
  "jobs_of a s = (case map_of (dp_agentJobs s) a of None \<Rightarrow> [] | Some js \<Rightarrow> js)"

definition drop_from_agent :: "agent_id \<Rightarrow> job_id \<Rightarrow> (agent_id \<times> job_id list) list \<Rightarrow> (agent_id \<times> job_id list) list" where
  "drop_from_agent a j m =
     (case map_of m a of
        None \<Rightarrow> m
      | Some js \<Rightarrow> let js' = filter (\<lambda>x. x \<noteq> j) js in if js' = [] then amap_delete a m else amap_set a js' m)"

definition trackJobForAgent :: "agent_id \<Rightarrow> job_id \<Rightarrow> run_id \<Rightarrow> unit act" where
  "trackJobForAgent a j r = modify (\<lambda>s.
     s\<lparr>dp_jobToAgent := amap_set j a (dp_jobToAgent s), dp_jobRunIds := amap_set j r (dp_jobRunIds s),
       dp_agentJobs := amap_set a (js_add j (jobs_of a s)) (dp_agentJobs s)\<rparr>)"

definition forget_job :: "agent_id \<Rightarrow> job_id \<Rightarrow> dispatcher \<Rightarrow> dispatcher" where
  "forget_job a j s =
     s\<lparr>dp_jobToAgent := amap_delete j (dp_jobToAgent s), dp_jobRunIds := amap_delete j (dp_jobRunIds s),
       dp_startedJobs := filter (\<lambda>x. x \<noteq> j) (dp_startedJobs s),
       dp_agentJobs := drop_from_agent a j (dp_agentJobs s)\<rparr>"

text \<open>Clearing an entry with its timer.\<close>

definition drop_pending :: "job_id \<Rightarrow> bool act" where
  "drop_pending j = do {
     e \<leftarrow> gets (\<lambda>s. map_of (dp_pendingAcks s) j);
     (case e of
        None \<Rightarrow> ret False
      | Some k \<Rightarrow> do {
          clearTimeout (pk_timer k);
          modify (\<lambda>s. s\<lparr>dp_pendingAcks := amap_delete j (dp_pendingAcks s)\<rparr>);
          ret True }) }"

definition drop_recovery :: "job_id \<Rightarrow> unit act" where
  "drop_recovery j = do {
     e \<leftarrow> gets (\<lambda>s. map_of (dp_recoveringJobs s) j);
     (case e of
        None \<Rightarrow> ret ()
      | Some r \<Rightarrow> do {
          clearTimeout (rc_timer r);
          modify (\<lambda>s. s\<lparr>dp_recoveringJobs := amap_delete j (dp_recoveringJobs s)\<rparr>) }) }"

definition resolvePendingAck :: "job_id \<Rightarrow> unit act" where
  "resolvePendingAck j = do {
     modify (\<lambda>s. s\<lparr>dp_earlyAcks := amap_delete j (dp_earlyAcks s)\<rparr>);
     found \<leftarrow> drop_pending j;
     whenever found (issue (IssuedClearAck j)) }"

definition untrackJob :: "agent_id \<Rightarrow> job_id \<Rightarrow> unit act" where
  "untrackJob a j = do { resolvePendingAck j; modify (forget_job a j) }"

definition releaseClaimAccounting :: "agent_id option \<Rightarrow> job_id \<Rightarrow> unit act" where
  "releaseClaimAccounting agent j =
     (case agent of
        None \<Rightarrow> ret ()
      | Some a \<Rightarrow> do { e \<leftarrow> gets (agent_of a); whenever (e \<noteq> None) (free_slot a); untrackJob a j })"

definition releaseTrackedClaim :: "agent_id \<Rightarrow> job_id \<Rightarrow> bool act" where
  "releaseTrackedClaim a j = do {
     owner \<leftarrow> gets (\<lambda>s. map_of (dp_jobToAgent s) j);
     if owner \<noteq> Some a then ret False else do { releaseClaimAccounting (Some a) j; ret True } }"

definition noteJobAccepted :: "agent_id \<Rightarrow> job_id \<Rightarrow> unit act" where
  "noteJobAccepted a j = do {
     owner \<leftarrow> gets (\<lambda>s. map_of (dp_jobToAgent s) j);
     if owner \<noteq> Some a then ret () else on_registry (\<lambda>now g. ((), clearExpiredBusyHold now a g)) }"

definition markJobStarted :: "job_id \<Rightarrow> unit act" where
  "markJobStarted j = do {
     resolvePendingAck j;
     owner \<leftarrow> gets (\<lambda>s. map_of (dp_jobToAgent s) j);
     (case owner of
        None \<Rightarrow> ret ()
      | Some a \<Rightarrow> do {
          modify (\<lambda>s. s\<lparr>dp_startedJobs := js_add j (dp_startedJobs s)\<rparr>);
          noteJobAccepted a j }) }"

definition onJobAcked :: "agent_id \<Rightarrow> job_id \<Rightarrow> unit act" where
  "onJobAcked a j = do {
     noteJobAccepted a j;
     e \<leftarrow> gets (\<lambda>s. map_of (dp_pendingAcks s) j);
     (case e of
        None \<Rightarrow> modify (\<lambda>s. s\<lparr>dp_earlyAcks := amap_set j a (dp_earlyAcks s)\<rparr>)
      | Some k \<Rightarrow> if pk_agentId k \<noteq> a then ret () else resolvePendingAck j) }"

definition consumeEarlyAck :: "job_id \<Rightarrow> agent_id \<Rightarrow> bool act" where
  "consumeEarlyAck j a = do {
     e \<leftarrow> gets (\<lambda>s. map_of (dp_earlyAcks s) j);
     if e = Some a then do { modify (\<lambda>s. s\<lparr>dp_earlyAcks := amap_delete j (dp_earlyAcks s)\<rparr>); ret True }
     else ret False }"

definition arm_ack :: "agent_id \<Rightarrow> job_id \<Rightarrow> run_id \<Rightarrow> millis \<Rightarrow> unit act" where
  "arm_ack a j r delay = do {
     t \<leftarrow> setTimeout (AckTimer a j r) delay;
     modify (\<lambda>s. s\<lparr>dp_pendingAcks := amap_set j \<lparr>pk_agentId = a, pk_runId = r, pk_timer = t\<rparr> (dp_pendingAcks s)\<rparr>) }"

definition arm_recovery :: "agent_id \<Rightarrow> job_id \<Rightarrow> run_id \<Rightarrow> millis \<Rightarrow> millis \<Rightarrow> unit act" where
  "arm_recovery a j r delay disconnectedAt = do {
     t \<leftarrow> setTimeout (RecoveryTimer a j) delay;
     modify (\<lambda>s. s\<lparr>dp_recoveringJobs := amap_set j
        \<lparr>rc_agentId = a, rc_runId = r, rc_timer = t, rc_disconnectedAt = disconnectedAt\<rparr> (dp_recoveringJobs s)\<rparr>) }"

definition armAckDeadline :: "'k dispatch_env \<Rightarrow> agent_id \<Rightarrow> dq_job \<Rightarrow> unit act" where
  "armAckDeadline env a job = do {
     early \<leftarrow> consumeEarlyAck (qj_id job) a;
     if early then issue (IssuedClearAck (qj_id job))
     else do {
       timeoutMs \<leftarrow> awaiting env AwAckTimeout (ret (de_ackTimeoutMs env job));
       early \<leftarrow> consumeEarlyAck (qj_id job) a;
       if early then issue (IssuedClearAck (qj_id job))
       else do {
         arm_ack a (qj_id job) (qj_runId job) timeoutMs;
         now \<leftarrow> gets nowMs;
         issue (IssuedStampAck (qj_id job) (now + timeoutMs) a) } } }"

section \<open>Sending a claimed job\<close>

text \<open>The queue's conditional put-back, its failure and its read operations, awaited.\<close>

definition requeue_row :: "'k dispatch_env \<Rightarrow> job_id \<Rightarrow> bool \<Rightarrow> string option \<Rightarrow> nat option act" where
  "requeue_row env j countAttempt err =
     awaiting env AwRequeue (on_queue (\<lambda>ck. requeue j (Some countAttempt) err))"

definition fail_row :: "'k dispatch_env \<Rightarrow> job_id \<Rightarrow> unit act" where
  "fail_row env j = awaiting env AwMark (on_db (\<lambda>ck c db. ((), markFailed j db)))"

definition settle_stopped :: "'k dispatch_env \<Rightarrow> job_id \<Rightarrow> run_id \<Rightarrow> bool act" where
  "settle_stopped env j r = awaiting env AwRequeue (on_queue (\<lambda>ck c. settleClaimOfStoppedRun ck c j r))"

definition failRefusedDispatch ::
  "'k dispatch_env \<Rightarrow> agent_id option \<Rightarrow> dq_job \<Rightarrow> fail_reason \<Rightarrow> unit act" where
  "failRefusedDispatch env agent job reason = do {
     releaseClaimAccounting agent (qj_id job);
     fail_row env (qj_id job);
     emits [JobFailedPermanently (orDefault agent []) (qj_id job) (qj_runId job) reason] }"

definition releaseUnopenableDispatch ::
  "'k dispatch_env \<Rightarrow> agent_id option \<Rightarrow> dq_job \<Rightarrow> string \<Rightarrow> unit act" where
  "releaseUnopenableDispatch env agent job reason = do {
     peers \<leftarrow> awaiting env AwPeers (gets dp_peers);
     if \<not> peers then failRefusedDispatch env agent job (FrUnopenable reason)
     else do {
       releaseClaimAccounting agent (qj_id job);
       awaiting env AwRead (on_queue (\<lambda>ck c db. ((), deferUnopenable (de_unopenableBackoff env) ck (qj_id job) c, db)));
       attempts \<leftarrow> requeue_row env (qj_id job) True (Some reason);
       (case attempts of
          None \<Rightarrow> do { _ \<leftarrow> settle_stopped env (qj_id job) (qj_runId job); ret () }
        | Some n \<Rightarrow>
            if n \<ge> MAX_DISPATCH_ATTEMPTS then do {
              fail_row env (qj_id job);
              emits [JobFailedPermanently (orDefault agent []) (qj_id job) (qj_runId job)
                       (FrUnopenableAttempts n reason)] }
            else updateQueueDepthMetric env) } }"

definition settleUnopenablePending :: "'k dispatch_env \<Rightarrow> dq_job \<Rightarrow> string \<Rightarrow> unit act" where
  "settleUnopenablePending env job reason = do {
     won \<leftarrow> awaiting env AwDequeue (on_db (\<lambda>ck c. claimUnopenableById ck c (qj_id job)));
     if \<not> won then ret () else releaseUnopenableDispatch env None job reason }"

text \<open>Whether the job was sent; the left side is an exception of the callback.\<close>

definition deliver :: "'k dispatch_env \<Rightarrow> agent_id \<Rightarrow> dq_job \<Rightarrow> (dispatch_error + bool) act" where
  "deliver env a job =
     (case qj_secretsUnavailable job of
        Some e \<Rightarrow> do { releaseUnopenableDispatch env (Some a) job (de_errorText env e); ret (Inr False) }
      | None \<Rightarrow> do {
          emits [CallOnDispatch a job];
          answer \<leftarrow> awaiting env AwSend (gets (de_onDispatch env a job));
          (case answer of
             AnsThrew \<Rightarrow> ret (Inl SendFailed)
           | AnsSent \<Rightarrow> ret (Inr True)
           | AnsRefused reason \<Rightarrow> do { failRefusedDispatch env (Some a) job (FrRefused reason); ret (Inr False) }) })"

text \<open>A failure of the put-back itself is logged only.\<close>

definition returnUndeliveredClaim :: "'k dispatch_env \<Rightarrow> agent_id \<Rightarrow> dq_job \<Rightarrow> bool \<Rightarrow> unit act" where
  "returnUndeliveredClaim env a job tracked = do {
     go \<leftarrow> (if tracked then releaseTrackedClaim a (qj_id job)
           else do { e \<leftarrow> gets (agent_of a); whenever (e \<noteq> None) (free_slot a); ret True });
     if \<not> go then ret ()
     else do {
       failed \<leftarrow> gets (de_fails env QPutBack);
       if failed then ret ()
       else do {
         attempts \<leftarrow> requeue_row env (qj_id job) False None;
         if attempts \<noteq> None then ret ()
         else do { _ \<leftarrow> settle_stopped env (qj_id job) (qj_runId job); ret () } } } }"

definition sendClaimedJob :: "'k dispatch_env \<Rightarrow> agent_id \<Rightarrow> dq_job \<Rightarrow> (dispatch_error + bool) act" where
  "sendClaimedJob env a job = do {
     failed \<leftarrow> gets (de_fails env QMarkDispatched);
     if failed then do { returnUndeliveredClaim env a job False; ret (Inl QueryFailed) }
     else do {
       awaiting env AwMark (on_db (\<lambda>ck c db. ((), markDispatched ck c (qj_id job) a db)));
       trackJobForAgent a (qj_id job) (qj_runId job);
       sent \<leftarrow> deliver env a job;
       (case sent of
          Inl e \<Rightarrow> do { returnUndeliveredClaim env a job True; ret (Inl e) }
        | Inr True \<Rightarrow> do { armAckDeadline env a job; ret (Inr True) }
        | Inr False \<Rightarrow> ret (Inr False)) } }"

datatype bound_claim_outcome = Sent | NotSent | NotClaimed

definition claimBoundJob ::
  "'k dispatch_env \<Rightarrow> agent_id \<Rightarrow> job_id \<Rightarrow> (dispatch_error + bound_claim_outcome) act" where
  "claimBoundJob env a j = do {
     agent \<leftarrow> gets (agent_of a);
     now \<leftarrow> gets nowMs;
     draining \<leftarrow> gets dp_draining;
     (case agent of
        None \<Rightarrow> ret (Inr NotClaimed)
      | Some e \<Rightarrow>
          if \<not> agentHasFreeSlot now e then ret (Inr NotClaimed)
          else if draining then ret (Inr NotClaimed)
          else do {
            take_slot a;
            failed \<leftarrow> gets (de_fails env QDequeue);
            if failed then do { free_slot a; ret (Inl QueryFailed) }
            else do {
              job \<leftarrow> awaiting env AwDequeue (on_queue (\<lambda>ck c. dequeueById (de_queue env) (de_dbOthers env) ck c
                       (de_locked env) j (ae_labels e) (ae_mandatoryLabels e) (Some a)));
              (case job of
                 None \<Rightarrow> do { free_slot a; ret (Inr NotClaimed) }
               | Some job \<Rightarrow> do {
                   sent \<leftarrow> sendClaimedJob env a job;
                   (case sent of
                      Inl e \<Rightarrow> ret (Inl e)
                    | Inr sent \<Rightarrow> do {
                        updateQueueDepthMetric env;
                        ret (Inr (if sent then Sent else NotSent)) }) }) } }) }"

definition dispatchBoundJob :: "'k dispatch_env \<Rightarrow> agent_id \<Rightarrow> job_id \<Rightarrow> (dispatch_error + bool) act" where
  "dispatchBoundJob env a j = do {
     outcome \<leftarrow> claimBoundJob env a j;
     ret (map_sum (\<lambda>e. e) (\<lambda>out. out = Sent) outcome) }"

section \<open>Which agents\<close>

definition CONTAINER_BUILD_RUNTIME_LABEL :: string where
  "CONTAINER_BUILD_RUNTIME_LABEL = runtimeLabel ''container-build''"

definition requiredRuntimeLabelsFor :: "js \<Rightarrow> string list" where
  "requiredRuntimeLabelsFor container =
     (case container of
        JObj o' \<Rightarrow> (case js_get o' ''dockerfile'' of
            JStr d \<Rightarrow> if length d > 0 then [CONTAINER_BUILD_RUNTIME_LABEL] else []
          | _ \<Rightarrow> [])
      | _ \<Rightarrow> [])"

definition matchLabelsFor :: "string list \<Rightarrow> job_config \<Rightarrow> string list" where
  "matchLabelsFor runsOnLabels cfg = runsOnLabels @ requiredRuntimeLabelsFor (js_get cfg ''container'')"

definition containerSpawnFor :: "job_config \<Rightarrow> (string \<times> js option) option" where
  "containerSpawnFor cfg =
     (let img = (case js_get cfg ''container'' of
                   JStr i \<Rightarrow> i
                 | JObj o' \<Rightarrow> (case js_get o' ''image'' of JStr i \<Rightarrow> i | _ \<Rightarrow> [])
                 | _ \<Rightarrow> []);
          auth = js_get cfg ''containerRegistryAuth''
      in if img = [] then None else Some (img, if js_truthy auth then Some auth else None))"

definition cacheOrgIdOf :: "job_config \<Rightarrow> string option" where
  "cacheOrgIdOf cfg = (case js_get cfg ''cacheOrgId'' of JStr i \<Rightarrow> Some i | _ \<Rightarrow> None)"

text \<open>The first of \<open>available\<close>, or the one with the lowest identifier; \<open>available\<close> is not empty.\<close>

definition selectAgent :: "(string \<Rightarrow> string \<Rightarrow> bool) \<Rightarrow> agent_entry list \<Rightarrow> job_config \<Rightarrow> agent_entry" where
  "selectAgent le available cfg =
     (if js_get cfg ''runsOnPick'' = JStr ''any'' then hd available
      else hd (sort_by (\<lambda>a b. le (ae_agentId a) (ae_agentId b)) available))"

definition agentFitFor :: "js option \<Rightarrow> job_config \<Rightarrow> job_id option \<Rightarrow> agent_fit_job" where
  "agentFitFor resources cfg jobId =
     \<lparr>fj_jobId = jobId, fj_resources = (case resources of None \<Rightarrow> resourcesFromJobConfig cfg | Some r \<Rightarrow> Some r),
      fj_container = jobContainerNeed (js_get cfg ''container'')\<rparr>"

definition fit_agent_of :: "'k dispatch_env \<Rightarrow> dispatcher \<Rightarrow> agent_entry \<Rightarrow> fit_agent" where
  "fit_agent_of env s e = fitAgentFor e (map_option (\<lambda>view. view s) (de_scalerAgentView env))"

definition filterUnservableAgents ::
  "'k dispatch_env \<Rightarrow> js option \<Rightarrow> job_config \<Rightarrow> job_id option \<Rightarrow> agent_entry list \<Rightarrow> agent_entry list act" where
  "filterUnservableAgents env resources cfg jobId agents =
     gets (\<lambda>s. filter (\<lambda>e. canAgentRunJob (fit_agent_of env s e) (agentFitFor resources cfg jobId)) agents)"

definition agentFitFilterFor :: "'k dispatch_env \<Rightarrow> agent_entry \<Rightarrow> dispatcher \<Rightarrow> (dq_job \<Rightarrow> bool) option" where
  "agentFitFilterFor env e s =
     (let fa = fit_agent_of env s e
      in if \<not> agentMayRefuse fa then None
         else Some (\<lambda>job. canAgentRunJob fa (agentFitFor (qj_resources job) (qj_jobConfig job) (Some (qj_id job)))))"

definition rebootPendingAt :: "agent_id \<Rightarrow> millis \<Rightarrow> dispatcher \<Rightarrow> bool" where
  "rebootPendingAt a now s =
     (case dp_reboot s of
        None \<Rightarrow> False
      | Some roster \<Rightarrow> (case map_of roster a of None \<Rightarrow> False | Some until \<Rightarrow> until > now))"

definition isRebootPending :: "'k dispatch_env \<Rightarrow> agent_id \<Rightarrow> millis \<Rightarrow> bool act" where
  "isRebootPending env a now = awaiting env AwRoster (gets (rebootPendingAt a now))"

fun drop_rebooting :: "'k dispatch_env \<Rightarrow> millis \<Rightarrow> agent_entry list \<Rightarrow> agent_entry list act" where
  "drop_rebooting env now [] = ret []"
| "drop_rebooting env now (e # es) = do {
     p \<leftarrow> isRebootPending env (ae_agentId e) now;
     rest \<leftarrow> drop_rebooting env now es;
     ret (if p then rest else e # rest) }"

definition filterRebootPending :: "'k dispatch_env \<Rightarrow> agent_entry list \<Rightarrow> agent_entry list act" where
  "filterRebootPending env agents = do {
     s \<leftarrow> gets (\<lambda>s. s);
     if dp_reboot s = None \<or> agents = [] then ret agents else drop_rebooting env (nowMs s) agents }"

definition releaseRebootPending :: "'k dispatch_env \<Rightarrow> agent_id \<Rightarrow> unit act" where
  "releaseRebootPending env a = do {
     s \<leftarrow> gets (\<lambda>s. s);
     if dp_reboot s = None then ret ()
     else do {
       p \<leftarrow> isRebootPending env a (nowMs s);
       whenever p (awaiting env AwRoster
         (modify (\<lambda>s. s\<lparr>dp_reboot := map_option (amap_delete a) (dp_reboot s)\<rparr>))) } }"

text \<open>
  \<open>findAvailable\<close> of the registry. Its exception, an index entry for an unknown agent, does not
  happen in a registry that its operations have built (\<open>registry_lookup_exact\<close>).
\<close>

definition available_agents ::
  "'k dispatch_env \<Rightarrow> string list \<Rightarrow> label_matcher list \<Rightarrow> string list \<Rightarrow> label_matcher list
   \<Rightarrow> agent_entry list act" where
  "available_agents env labels patterns exclude excludePatterns =
     gets (\<lambda>s. opt_list (findAvailable (qe_rx (de_queue env)) (nowMs s) labels patterns exclude excludePatterns
                           (dp_registry s)))"

section \<open>Dispatching a new job\<close>

datatype dispatch_result =
    DrDispatched agent_id job_id | DrQueued job_id | DrQueuedNoBackend job_id | DrDuplicate job_id | DrRejected

text \<open>\<open>enqueue\<close> with its answer to a full queue.\<close>

definition enqueue_job :: "'k dispatch_env \<Rightarrow> job_id \<Rightarrow> dq_input \<Rightarrow> (dispatch_result + job_id) act" where
  "enqueue_job env uuid job = do {
     queued \<leftarrow> awaiting env AwEnqueue (on_queue (\<lambda>ck c. enqueue (de_queue env) (de_maxDepth env) (de_queueTimeout env) uuid ck c job));
     (case queued of
        Inl QueueFull \<Rightarrow> ret (Inl DrRejected)
      | Inr j \<Rightarrow> do { updateQueueDepthMetric env; ret (Inr j) }) }"

text \<open>The job as it goes on the wire without a round trip through its row.\<close>

definition direct_job :: "job_id \<Rightarrow> millis \<Rightarrow> js option \<Rightarrow> agent_id option \<Rightarrow> dq_input \<Rightarrow> dq_job" where
  "direct_job j now resources pin job =
     \<lparr>qj_secretsUnavailable = None, qj_id = j, qj_runId = ji_runId job, qj_jobName = ji_jobName job,
      qj_runsOnLabels = canonicalizeLabels (ji_runsOnLabels job), qj_jobConfig = ji_jobConfig job,
      qj_resources = resources, qj_columns = ji_columns job, qj_status = DqDispatched, qj_createdAt = now,
      qj_expiresAt = None, qj_excludeLabels = canonicalizeLabels (orDefault (ji_excludeLabels job) []),
      qj_runsOnPatterns = map canonicalizeMatcher (orDefault (ji_runsOnPatterns job) []),
      qj_excludePatterns = map canonicalizeMatcher (orDefault (ji_excludePatterns job) []),
      qj_pinnedAgentId = pin\<rparr>"

text \<open>
  The dispatch to a chosen agent: the slot, the row, the tracking, the send, the deadline.
  \<open>dispatch\<close> and \<open>dispatchPinned\<close> have the same statements here; only the pin differs.
\<close>

definition send_direct ::
  "'k dispatch_env \<Rightarrow> job_id \<Rightarrow> js option \<Rightarrow> agent_id option \<Rightarrow> dq_input \<Rightarrow> agent_id
   \<Rightarrow> (dispatch_error + dispatch_result) act" where
  "send_direct env uuid resources pin job a = do {
     take_slot a;
     failed \<leftarrow> gets (de_fails env QInsertDispatched);
     if failed then do { free_slot a; ret (Inl QueryFailed) }
     else do {
       ins \<leftarrow> awaiting env AwInsert (on_queue (\<lambda>ck c.
                insertDispatched (de_queue env) (de_dbOthers env None) uuid ck c job a));
       if \<not> di_inserted ins then do { free_slot a; ret (Inr (DrDuplicate (di_id ins))) }
       else if di_runStopped ins then do { free_slot a; ret (Inr (DrQueued (di_id ins))) }
       else do {
         now \<leftarrow> gets nowMs;
         let queuedJob = direct_job (di_id ins) now resources pin job;
         trackJobForAgent a (di_id ins) (qj_runId queuedJob);
         sent \<leftarrow> deliver env a queuedJob;
         (case sent of
            Inl e \<Rightarrow> do { _ \<leftarrow> releaseTrackedClaim a (di_id ins); ret (Inl e) }
          | Inr ok \<Rightarrow> do {
              whenever ok (armAckDeadline env a queuedJob);
              ret (Inr (DrDispatched a (di_id ins))) }) } } }"

definition dispatchPinned ::
  "'k dispatch_env \<Rightarrow> job_id \<Rightarrow> js option \<Rightarrow> dq_input \<Rightarrow> agent_id \<Rightarrow> (dispatch_error + dispatch_result) act" where
  "dispatchPinned env uuid resources job a = do {
     agent \<leftarrow> gets (agent_of a);
     now \<leftarrow> gets nowMs;
     rebootPending \<leftarrow> isRebootPending env a now;
     s \<leftarrow> gets (\<lambda>s. s);
     let dispatchable = (\<not> dp_draining s \<and> \<not> rebootPending \<and>
       (case agent of
          None \<Rightarrow> False
        | Some e0 \<Rightarrow>
            let e = live_entry a e0 s
            in agentSatisfies (qe_rx (de_queue env)) e (ji_runsOnLabels job) (orDefault (ji_runsOnPatterns job) [])
                 (orDefault (ji_excludeLabels job) []) (orDefault (ji_excludePatterns job) [])
               \<and> agentHasFreeSlot (nowMs s) e));
     if dispatchable then send_direct env uuid resources (Some a) job a
     else do {
       queued \<leftarrow> enqueue_job env uuid job;
       (case queued of Inl r \<Rightarrow> ret (Inr r) | Inr j \<Rightarrow> ret (Inr (DrQueued j))) } }"

definition ask_scaler :: "'k dispatch_env \<Rightarrow> scale_request \<Rightarrow> scale_action option act" where
  "ask_scaler env req =
     (case de_onNoMatchingAgent env of
        None \<Rightarrow> ret None
      | Some scaler \<Rightarrow> do {
          emits [AskScaler req];
          r \<leftarrow> awaiting env AwScale (gets (scaler req));
          ret (Some r) })"

definition dispatch ::
  "'k dispatch_env \<Rightarrow> job_id \<Rightarrow> js option \<Rightarrow> dq_input \<Rightarrow> (dispatch_error + dispatch_result) act" where
  "dispatch env uuid resources job = do {
     draining \<leftarrow> gets dp_draining;
     (case ji_pinnedAgentId job of
        Some (c # cs) \<Rightarrow> dispatchPinned env uuid resources job (c # cs)
      | _ \<Rightarrow>
        if draining then do {
          queued \<leftarrow> enqueue_job env uuid job;
          (case queued of Inl r \<Rightarrow> ret (Inr r) | Inr j \<Rightarrow> ret (Inr (DrQueued j))) }
        else do {
          availableRaw \<leftarrow> available_agents env (matchLabelsFor (ji_runsOnLabels job) (ji_jobConfig job))
             (orDefault (ji_runsOnPatterns job) []) (orDefault (ji_excludeLabels job) [])
             (orDefault (ji_excludePatterns job) []);
          notRebooting \<leftarrow> filterRebootPending env availableRaw;
          available \<leftarrow> filterUnservableAgents env resources (ji_jobConfig job) (ji_jobId job) notRebooting;
          if available \<noteq> [] then
            send_direct env uuid resources None job (ae_agentId (selectAgent (de_collate env) available (ji_jobConfig job)))
          else do {
            queued \<leftarrow> enqueue_job env uuid job;
            (case queued of
               Inl r \<Rightarrow> ret (Inr r)
             | Inr j \<Rightarrow> do {
                 action \<leftarrow> ask_scaler env
                   \<lparr>sr_labels = ji_runsOnLabels job, sr_jobId = j, sr_runId = ji_runId job,
                    sr_excludeLabels = orDefault (ji_excludeLabels job) [],
                    sr_resources = (case resources of None \<Rightarrow> resourcesFromJobConfig (ji_jobConfig job) | Some r \<Rightarrow> Some r),
                    sr_orgId = cacheOrgIdOf (ji_jobConfig job), sr_container = containerSpawnFor (ji_jobConfig job)\<rparr>;
                 s \<leftarrow> gets (\<lambda>s. s);
                 ret (Inr (if action = Some NoBackend \<and>
                   hasMatchingAgent (qe_rx (de_queue env)) (ji_runsOnLabels job) (orDefault (ji_runsOnPatterns job) [])
                     (orDefault (ji_excludeLabels job) []) (orDefault (ji_excludePatterns job) [])
                     (\<lambda>e. canAgentRunJob (fit_agent_of env s e) (agentFitFor resources (ji_jobConfig job) (ji_jobId job)))
                     (dp_registry s) = Some False
                   then DrQueuedNoBackend j else DrQueued j)) }) } }) }"

section \<open>Draining the queue onto an agent\<close>

datatype agent_drain_decline = DdNotRegistered | DdCoordinatorDraining | DdNoCapacity | DdRebootPending | DdNoMatchingJob

definition drainForAgent :: "'k dispatch_env \<Rightarrow> agent_id \<Rightarrow> (dispatch_error + agent_drain_decline option) act" where
  "drainForAgent env a = do {
     agent \<leftarrow> gets (agent_of a);
     draining \<leftarrow> gets dp_draining;
     now \<leftarrow> gets nowMs;
     (case agent of
        None \<Rightarrow> ret (Inr (Some DdNotRegistered))
      | Some e0 \<Rightarrow>
          if draining then ret (Inr (Some DdCoordinatorDraining))
          else do {
            rebootPending \<leftarrow> isRebootPending env a now;
            s \<leftarrow> gets (\<lambda>s. s);
            let e = live_entry a e0 s;
            if \<not> agentHasFreeSlot (nowMs s) e then ret (Inr (Some DdNoCapacity))
            else if rebootPending then ret (Inr (Some DdRebootPending))
            else do {
              take_slot a;
              failed \<leftarrow> gets (de_fails env QDequeue);
              if failed then do { free_slot a; ret (Inl QueryFailed) }
              else do {
                pinned \<leftarrow> awaiting env AwDequeue (on_queue (\<lambda>ck c.
                  dequeueByPinnedAgent (de_queue env) (de_dbOthers env) ck c (de_locked env) a (Some (ae_labels e0))));
                job \<leftarrow> (case pinned of
                   Some job \<Rightarrow> ret (Some job)
                 | None \<Rightarrow> do {
                     serve \<leftarrow> gets (agentFitFilterFor env e);
                     awaiting env AwDequeue (on_queue (\<lambda>ck c.
                       dequeueForLabels (de_queue env) (de_dbOthers env) ck c (de_locked env) (ae_labels e0)
                         (ae_mandatoryLabels e0) (Some a) serve)) });
                (case job of
                   None \<Rightarrow> do { free_slot a; ret (Inr (Some DdNoMatchingJob)) }
                 | Some job \<Rightarrow> do {
                     sent \<leftarrow> sendClaimedJob env a job;
                     ret (map_sum (\<lambda>e. e) (\<lambda>_. None) sent) }) } } }) }"

definition onAgentAvailable :: "'k dispatch_env \<Rightarrow> agent_id \<Rightarrow> (dispatch_error + unit) act" where
  "onAgentAvailable env a = do {
     agent \<leftarrow> gets (agent_of a);
     if (case agent of None \<Rightarrow> False | Some e \<Rightarrow> ae_draining e) then ret (Inr ())
     else do {
       declined \<leftarrow> drainForAgent env a;
       (case declined of
          Inl e \<Rightarrow> ret (Inl e)
        | Inr _ \<Rightarrow> do { updateQueueDepthMetric env; ret (Inr ()) }) } }"

section \<open>Back to the queue\<close>

text \<open>
  Delivering a requeued job: an idle matching agent, else the scaler. An exception of the claim
  is the left side.
\<close>

definition redispatch :: "'k dispatch_env \<Rightarrow> job_id \<Rightarrow> (dispatch_error + unit) act" where
  "redispatch env j = do {
     found \<leftarrow> awaiting env AwRead (gets (\<lambda>s. getFullJobById (de_queue env) j (dp_db s)));
     s \<leftarrow> gets (\<lambda>s. s);
     (case found of
        None \<Rightarrow> ret (Inr ())
      | Some job \<Rightarrow>
          if qj_status job \<noteq> DqPending then ret (Inr ())
          else if isDeferredUnopenable (dp_clock s) (dp_queue s) (qj_id job) then ret (Inr ())
          else case qj_secretsUnavailable job of
            Some e \<Rightarrow> do { settleUnopenablePending env job (de_errorText env e); ret (Inr ()) }
          | None \<Rightarrow> do {
              candidates \<leftarrow> available_agents env (matchLabelsFor (qj_runsOnLabels job) (qj_jobConfig job))
                 (qj_runsOnPatterns job) (qj_excludeLabels job) (qj_excludePatterns job);
              available \<leftarrow> filterUnservableAgents env (qj_resources job) (qj_jobConfig job) (Some (qj_id job)) candidates;
              outcome \<leftarrow> (if available = [] then ret (Inr NotClaimed)
                 else claimBoundJob env (ae_agentId (selectAgent (de_collate env) available (qj_jobConfig job))) j);
              (case outcome of
                 Inl e \<Rightarrow> ret (Inl e)
               | Inr Sent \<Rightarrow> ret (Inr ())
               | Inr NotSent \<Rightarrow> ret (Inr ())
               | Inr NotClaimed \<Rightarrow> do {
                   _ \<leftarrow> ask_scaler env
                     \<lparr>sr_labels = qj_runsOnLabels job, sr_jobId = j, sr_runId = qj_runId job,
                      sr_excludeLabels = qj_excludeLabels job, sr_resources = qj_resources job,
                      sr_orgId = cacheOrgIdOf (qj_jobConfig job), sr_container = containerSpawnFor (qj_jobConfig job)\<rparr>;
                   ret (Inr ()) }) }) }"

datatype requeue_outcome = RqRequeued | RqFailed | RqGone

definition run_id_of :: "job_id \<Rightarrow> dispatcher \<Rightarrow> run_id" where
  "run_id_of j s = (case getJobById j (dp_db s) of None \<Rightarrow> [] | Some (_, r, _) \<Rightarrow> r)"

definition finishRequeue ::
  "'k dispatch_env \<Rightarrow> agent_id \<Rightarrow> job_id \<Rightarrow> nat option \<Rightarrow> (dispatch_error + requeue_outcome) act" where
  "finishRequeue env a j attempts =
     (case attempts of
        None \<Rightarrow> ret (Inr RqGone)
      | Some n \<Rightarrow>
          if n \<ge> MAX_DISPATCH_ATTEMPTS then do {
            fail_row env j;
            r \<leftarrow> awaiting env AwRead (gets (run_id_of j));
            emits [JobFailedPermanently a j r (FrAttempts n)];
            ret (Inr RqFailed) }
          else do {
            out \<leftarrow> redispatch env j;
            ret (map_sum (\<lambda>e. e) (\<lambda>_. RqRequeued) out) })"

definition requeueOrFail ::
  "'k dispatch_env \<Rightarrow> agent_id \<Rightarrow> job_id \<Rightarrow> bool \<Rightarrow> (dispatch_error + requeue_outcome) act" where
  "requeueOrFail env a j countAttempt = do {
     attempts \<leftarrow> requeue_row env j countAttempt None;
     finishRequeue env a j attempts }"

definition onJobRejected ::
  "'k dispatch_env \<Rightarrow> agent_id \<Rightarrow> job_id \<Rightarrow> bool \<Rightarrow> (dispatch_error + unit) act" where
  "onJobRejected env a j busy = do {
     owned \<leftarrow> gets (\<lambda>s. j \<in> set (jobs_of a s));
     if \<not> owned then ret (Inr ())
     else do {
       hold \<leftarrow> (if busy then do { h \<leftarrow> on_registry (\<lambda>now. markBusyHeld now a); ret (Some h) } else ret None);
       let countAttempt = (\<not> busy \<or> hold = Some ReheldAfterExpiry);
       free_slot a;
       untrackJob a j;
       out \<leftarrow> requeueOrFail env a j countAttempt;
       (case out of
          Inl e \<Rightarrow> ret (Inl e)
        | Inr _ \<Rightarrow> do { updateQueueDepthMetric env; ret (Inr ()) }) } }"

section \<open>An agent disconnects\<close>

definition cleanupGraceEntriesForAgent :: "agent_id \<Rightarrow> unit act" where
  "cleanupGraceEntriesForAgent a =
     modify (\<lambda>s. s\<lparr>dp_completedJobs := filter (\<lambda>(j, g). gr_agentId g \<noteq> a) (dp_completedJobs s)\<rparr>)"

fun complete_loop :: "'k dispatch_env \<Rightarrow> agent_id \<Rightarrow> job_id list \<Rightarrow> unit act" where
  "complete_loop env a [] = ret ()"
| "complete_loop env a (j # js) = do {
     resolvePendingAck j;
     started \<leftarrow> gets (\<lambda>s. j \<in> set (dp_startedJobs s));
     untrackJob a j;
     whenever started (awaiting env AwMark (on_db (\<lambda>ck c db. ((), markCompleted j db))));
     complete_loop env a js }"

text \<open>A failed put-back of one job ends the loop with the exception.\<close>

fun triage_loop ::
  "'k dispatch_env \<Rightarrow> agent_id \<Rightarrow> job_id list \<Rightarrow> job_id list \<Rightarrow> (dispatch_error + job_id list) act" where
  "triage_loop env a [] failed = ret (Inr failed)"
| "triage_loop env a (j # js) failed = do {
     r \<leftarrow> awaiting env AwRead (gets (run_id_of j));
     started \<leftarrow> gets (\<lambda>s. j \<in> set (dp_startedJobs s));
     untrackJob a j;
     if started then do {
       fail_row env j;
       emits [JobFailedPermanently a j r FrScalerAgentLost];
       triage_loop env a js (failed @ [j]) }
     else do {
       out \<leftarrow> requeueOrFail env a j True;
       (case out of
          Inl e \<Rightarrow> ret (Inl e)
        | Inr RqFailed \<Rightarrow> triage_loop env a js (failed @ [j])
        | Inr RqRequeued \<Rightarrow> triage_loop env a js failed
        | Inr RqGone \<Rightarrow> triage_loop env a js failed) } }"

definition gracePeriodMs :: "'k dispatch_env \<Rightarrow> millis" where
  "gracePeriodMs env = de_maxReconnectDelayMs env * 2"

definition begin_recovery :: "'k dispatch_env \<Rightarrow> agent_id \<Rightarrow> job_id \<Rightarrow> run_id \<Rightarrow> millis \<Rightarrow> unit act" where
  "begin_recovery env a j r disconnectedAt = do {
     _ \<leftarrow> awaiting env AwMark (on_db (\<lambda>ck c. markRecovering ck c j (Some (disconnectedAt + gracePeriodMs env)) (Some a)));
     arm_recovery a j r (gracePeriodMs env) disconnectedAt;
     emits [RecoveryStarted a j] }"

text \<open>A job that left the set before its turn is not visited.\<close>

fun recovery_loop :: "'k dispatch_env \<Rightarrow> agent_id \<Rightarrow> millis \<Rightarrow> job_id list \<Rightarrow> unit act" where
  "recovery_loop env a disconnectedAt [] = ret ()"
| "recovery_loop env a disconnectedAt (j # js) = do {
     present \<leftarrow> gets (\<lambda>s. j \<in> set (jobs_of a s));
     whenever present (do {
       resolvePendingAck j;
       r \<leftarrow> awaiting env AwRead (gets (run_id_of j));
       begin_recovery env a j r disconnectedAt });
     recovery_loop env a disconnectedAt js }"

definition unregisterIfUnchanged :: "agent_id \<Rightarrow> agent_entry option \<Rightarrow> unit act" where
  "unregisterIfUnchanged a entry = do {
     e \<leftarrow> gets (agent_of a);
     whenever (case (e, entry) of (None, None) \<Rightarrow> True | (Some x, Some y) \<Rightarrow> same_entry x y | _ \<Rightarrow> False) (drop_agent a) }"

text \<open>The part of \<open>onAgentDisconnect\<close> from its first \<open>await\<close> on, for an agent with jobs.\<close>

definition triage_rest ::
  "'k dispatch_env \<Rightarrow> agent_id \<Rightarrow> agent_entry option \<Rightarrow> millis \<Rightarrow> (dispatch_error + job_id list) act" where
  "triage_rest env a entry now = do {
     let scalerManaged = (case entry of None \<Rightarrow> False | Some e \<Rightarrow> ae_scalerManaged e);
     rebootPending \<leftarrow> isRebootPending env a now;
     s \<leftarrow> gets (\<lambda>s. s);
     if rebootPending \<and> \<not> scalerManaged then do {
       complete_loop env a (jobs_of a s);
       cleanupGraceEntriesForAgent a;
       unregisterIfUnchanged a entry;
       updateQueueDepthMetric env;
       ret (Inr []) }
     else do {
       failed \<leftarrow> (if scalerManaged then triage_loop env a (jobs_of a s) []
                 else do { recovery_loop env a (nowMs s) (jobs_of a s); ret (Inr []) });
       (case failed of
          Inl e \<Rightarrow> ret (Inl e)
        | Inr js \<Rightarrow> do {
            cleanupGraceEntriesForAgent a;
            unregisterIfUnchanged a entry;
            whenever (js \<noteq> []) (emits [ReleaseWaiters js]);
            updateQueueDepthMetric env;
            ret (Inr js) }) } }"

definition onAgentDisconnect :: "'k dispatch_env \<Rightarrow> agent_id \<Rightarrow> (dispatch_error + job_id list) act" where
  "onAgentDisconnect env a = do {
     s \<leftarrow> gets (\<lambda>s. s);
     if jobs_of a s = [] then do {
       drop_agent a;
       cleanupGraceEntriesForAgent a;
       updateQueueDepthMetric env;
       ret (Inr []) }
     else triage_rest env a (agent_of a s) (nowMs s) }"

text \<open>
  The triage of an agent that the caller drops at once: it runs up to its first \<open>await\<close>, the
  agent is unregistered, and the rest is left to run.
\<close>

definition dropUnacknowledgingAgent :: "agent_id \<Rightarrow> unit act" where
  "dropUnacknowledgingAgent a = do {
     s \<leftarrow> gets (\<lambda>s. s);
     (if jobs_of a s = [] then do { drop_agent a; cleanupGraceEntriesForAgent a }
      else issue (IssuedTriage a (agent_of a s) (nowMs s)));
     drop_agent a }"

definition ack_expired :: "'k dispatch_env \<Rightarrow> agent_id \<Rightarrow> job_id \<Rightarrow> run_id \<Rightarrow> (dispatch_error + unit) act" where
  "ack_expired env a j r = do {
       attempts \<leftarrow> awaiting env AwRequeue (on_queue (\<lambda>ck. requeueIfAwaitingAck j (if a = [] then None else Some a)));
       if attempts = None then ret (Inr ())
       else do {
         entry \<leftarrow> gets (agent_of a);
         whenever (entry \<noteq> None) (free_slot a);
         untrackJob a j;
         emits [AckTimeout a j r];
         dropUnacknowledgingAgent a;
         out \<leftarrow> finishRequeue env a j attempts;
         (case out of
            Inl e \<Rightarrow> ret (Inl e)
          | Inr _ \<Rightarrow> do { updateQueueDepthMetric env; ret (Inr ()) }) } }"

definition handleAckExpiry ::
  "'k dispatch_env \<Rightarrow> agent_id \<Rightarrow> job_id \<Rightarrow> run_id \<Rightarrow> (dispatch_error + unit) act" where
  "handleAckExpiry env a j r = do {
     e \<leftarrow> gets (\<lambda>s. map_of (dp_pendingAcks s) j);
     if (case e of None \<Rightarrow> True | Some k \<Rightarrow> pk_agentId k \<noteq> a) then ret (Inr ())
     else do {
       modify (\<lambda>s. s\<lparr>dp_pendingAcks := amap_delete j (dp_pendingAcks s)\<rparr>);
       ack_expired env a j r } }"

section \<open>Completion and ownership\<close>

definition COMPLETED_JOBS_CAP :: nat where "COMPLETED_JOBS_CAP = 10000"
definition GRACE_WINDOW_MS :: millis where "GRACE_WINDOW_MS = 30000"

definition remember_completed :: "job_id \<Rightarrow> grace \<Rightarrow> (job_id \<times> grace) list \<Rightarrow> (job_id \<times> grace) list" where
  "remember_completed j g m =
     (let m' = amap_set j g m in if length m' > COMPLETED_JOBS_CAP then drop 1 m' else m')"

definition onJobComplete :: "agent_id \<Rightarrow> job_id \<Rightarrow> unit act" where
  "onJobComplete a j = do {
     resolvePendingAck j;
     tracked \<leftarrow> gets (\<lambda>s. j \<in> set (jobs_of a s));
     whenever tracked (on_registry (\<lambda>now g. ((), clearBusyHeld a g)));
     free_slot a;
     modify (forget_job a j);
     issue (IssuedComplete j);
     modify (\<lambda>s. s\<lparr>dp_completedJobs := remember_completed j
        \<lparr>gr_agentId = a, gr_expiresAt = nowMs s + GRACE_WINDOW_MS\<rparr> (dp_completedJobs s)\<rparr>) }"

definition isJobOwnedByAgent :: "agent_id \<Rightarrow> job_id \<Rightarrow> dispatcher \<Rightarrow> bool" where
  "isJobOwnedByAgent a j s =
     (if j \<in> set (jobs_of a s) then True
      else if (case map_of (dp_recoveringJobs s) j of None \<Rightarrow> False | Some r \<Rightarrow> rc_agentId r = a) then True
      else case map_of (dp_completedJobs s) j of
             None \<Rightarrow> False
           | Some g \<Rightarrow> gr_agentId g = a \<and> gr_expiresAt g > nowMs s)"

definition getAgentIdForJob :: "job_id \<Rightarrow> dispatcher \<Rightarrow> agent_id option" where
  "getAgentIdForJob j s = map_of (dp_jobToAgent s) j"

definition getTrackedJobIdsForRun :: "run_id \<Rightarrow> dispatcher \<Rightarrow> job_id list" where
  "getTrackedJobIdsForRun r s = map fst (filter (\<lambda>(j, r'). r' = r) (dp_jobRunIds s))"

text \<open>An empty run id is falsy.\<close>

definition resolveOwnedJob :: "agent_id \<Rightarrow> job_id \<Rightarrow> dispatcher \<Rightarrow> run_id option" where
  "resolveOwnedJob a j s =
     (if j \<notin> set (jobs_of a s) then None
      else case map_of (dp_jobRunIds s) j of None \<Rightarrow> None | Some r \<Rightarrow> if r = [] then None else Some r)"

definition cleanupExpiredGraceEntries :: "unit act" where
  "cleanupExpiredGraceEntries =
     modify (\<lambda>s. s\<lparr>dp_completedJobs := filter (\<lambda>(j, g). \<not> gr_expiresAt g \<le> nowMs s) (dp_completedJobs s)\<rparr>)"

section \<open>Recovery\<close>

definition claimRecovery :: "job_id \<Rightarrow> agent_id \<Rightarrow> bool act" where
  "claimRecovery j a = do {
     e \<leftarrow> gets (\<lambda>s. map_of (dp_recoveringJobs s) j);
     (case e of
        None \<Rightarrow> ret False
      | Some r \<Rightarrow>
          if rc_agentId r \<noteq> a then ret False
          else do { drop_recovery j; ret True }) }"

definition restoreJobForAgent :: "agent_id \<Rightarrow> job_id \<Rightarrow> run_id option \<Rightarrow> unit act" where
  "restoreJobForAgent a j r = do {
     known \<leftarrow> gets (\<lambda>s. map_of (dp_jobRunIds s) j);
     trackJobForAgent a j (orDefault r (orDefault known []));
     modify (\<lambda>s. s\<lparr>dp_startedJobs := js_add j (dp_startedJobs s)\<rparr>) }"

definition reconcileRecovery :: "'k dispatch_env \<Rightarrow> job_id \<Rightarrow> agent_id \<Rightarrow> bool act" where
  "reconcileRecovery env j a = do {
     r \<leftarrow> gets (\<lambda>s. map_option rc_runId (map_of (dp_recoveringJobs s) j));
     claimed \<leftarrow> claimRecovery j a;
     if \<not> claimed then ret False
     else do {
       _ \<leftarrow> awaiting env AwMark (on_db (\<lambda>ck c. markDispatchedIfRecovering ck c j a));
       restoreJobForAgent a j r;
       ret True } }"

definition getRecoveryInfo :: "job_id \<Rightarrow> dispatcher \<Rightarrow> (millis \<times> agent_id) option" where
  "getRecoveryInfo j s = map_option (\<lambda>r. (rc_disconnectedAt r, rc_agentId r)) (map_of (dp_recoveringJobs s) j)"

definition getRecoveringJobsForAgent :: "agent_id \<Rightarrow> dispatcher \<Rightarrow> job_id list" where
  "getRecoveringJobsForAgent a s = map fst (filter (\<lambda>(j, r). rc_agentId r = a) (dp_recoveringJobs s))"

definition startRecoveryTimer :: "'k dispatch_env \<Rightarrow> job_id \<Rightarrow> agent_id \<Rightarrow> run_id \<Rightarrow> unit act" where
  "startRecoveryTimer env j a r = do { now \<leftarrow> gets nowMs; begin_recovery env a j r now }"

definition recovery_expired :: "'k dispatch_env \<Rightarrow> agent_id \<Rightarrow> job_id \<Rightarrow> run_id \<Rightarrow> unit act" where
  "recovery_expired env a j r = do {
     failed \<leftarrow> awaiting env AwMark (on_db (\<lambda>ck c. markFailedIfRecovering j));
     whenever failed (emits [JobFailedPermanently a j r FrRecoveryTimeout]) }"

definition handleRecoveryExpiry :: "'k dispatch_env \<Rightarrow> agent_id \<Rightarrow> job_id \<Rightarrow> unit act" where
  "handleRecoveryExpiry env a j = do {
     e \<leftarrow> gets (\<lambda>s. map_of (dp_recoveringJobs s) j);
     modify (\<lambda>s. forget_job a j (s\<lparr>dp_recoveringJobs := amap_delete j (dp_recoveringJobs s)\<rparr>));
     recovery_expired env a j (case e of None \<Rightarrow> [] | Some r \<Rightarrow> rc_runId r) }"

fun hydrate_recoveries ::
  "'k dispatch_env \<Rightarrow> millis \<Rightarrow> (job_id \<times> run_id \<times> agent_id option \<times> millis option) list \<Rightarrow> unit act" where
  "hydrate_recoveries env now [] = ret ()"
| "hydrate_recoveries env now ((j, r, agent, deadline) # rows) = do {
     present \<leftarrow> gets (\<lambda>s. map_of (dp_recoveringJobs s) j \<noteq> None);
     (case (agent, deadline) of
        (Some (c # cs), Some d) \<Rightarrow>
          if d - now \<le> 0 \<or> present then ret ()
          else arm_recovery (c # cs) j r (d - now) (d - gracePeriodMs env)
      | _ \<Rightarrow> ret ());
     hydrate_recoveries env now rows }"

fun hydrate_acks :: "millis \<Rightarrow> (job_id \<times> run_id \<times> agent_id option \<times> millis) list \<Rightarrow> unit act" where
  "hydrate_acks now [] = ret ()"
| "hydrate_acks now ((j, r, agent, deadline) # rows) = do {
     present \<leftarrow> gets (\<lambda>s. map_of (dp_pendingAcks s) j \<noteq> None);
     (if present \<or> deadline - now \<le> 0 then ret ()
      else arm_ack (orDefault agent []) j r (deadline - now));
     hydrate_acks now rows }"

definition recoverState :: "'k dispatch_env \<Rightarrow> unit act" where
  "recoverState env = do {
     rows \<leftarrow> awaiting env AwRead (gets (\<lambda>s. getRecoveringJobs (dp_clock s) (dp_queue s) (dp_db s)));
     now \<leftarrow> gets nowMs;
     hydrate_recoveries env now rows;
     ackRows \<leftarrow> awaiting env AwRead (gets (\<lambda>s. getDispatchedAwaitingAck (dp_clock s) (dp_queue s) (dp_db s)));
     hydrate_acks now ackRows }"

section \<open>Sweeps\<close>

fun ack_sweep_loop ::
  "'k dispatch_env \<Rightarrow> (job_id \<times> run_id \<times> agent_id option) list \<Rightarrow> nat \<Rightarrow> (dispatch_error + nat) act" where
  "ack_sweep_loop env [] n = ret (Inr n)"
| "ack_sweep_loop env ((j, r, agent) # rows) n = do {
     attempts \<leftarrow> awaiting env AwRequeue (on_queue (\<lambda>ck. requeueIfAwaitingAck j agent));
     if attempts = None then ack_sweep_loop env rows n
     else do {
       _ \<leftarrow> drop_pending j;
       (case agent of
          Some (c # cs) \<Rightarrow> do {
            entry \<leftarrow> gets (agent_of (c # cs));
            whenever (entry \<noteq> None) (do {
              free_slot (c # cs);
              untrackJob (c # cs) j;
              emits [AckTimeout (c # cs) j r];
              dropUnacknowledgingAgent (c # cs) }) }
        | _ \<Rightarrow> ret ());
       out \<leftarrow> finishRequeue env (orDefault agent []) j attempts;
       (case out of Inl e \<Rightarrow> ret (Inl e) | Inr _ \<Rightarrow> ack_sweep_loop env rows (Suc n)) } }"

definition sweepExpiredAckDeadlines :: "'k dispatch_env \<Rightarrow> (dispatch_error + nat) act" where
  "sweepExpiredAckDeadlines env = do {
     now \<leftarrow> gets nowMs;
     expired \<leftarrow> awaiting env AwRead (gets (\<lambda>s. listExpiredAckDeadlines now (dp_db s)));
     ack_sweep_loop env expired 0 }"

fun recovery_sweep_loop :: "(job_id \<times> run_id \<times> agent_id option) list \<Rightarrow> unit act" where
  "recovery_sweep_loop [] = ret ()"
| "recovery_sweep_loop ((j, r, agent) # rows) = do {
     drop_recovery j;
     emits [JobFailedPermanently (orDefault agent []) j r FrRecoveryTimeout];
     recovery_sweep_loop rows }"

text \<open>The sweep of the dispatcher, around the sweep of the queue.\<close>

definition sweep_recoveries :: "'k dispatch_env \<Rightarrow> nat act" where
  "sweep_recoveries env = do {
     now \<leftarrow> gets nowMs;
     expired \<leftarrow> awaiting env AwMark (on_db (\<lambda>ck c. sweepExpiredRecoveries (de_dbOthers env None) now));
     recovery_sweep_loop expired;
     ret (length expired) }"

definition stopRecoveryTimers :: "unit act" where
  "stopRecoveryTimers = modify (\<lambda>s.
     s\<lparr>dp_timers := filter (\<lambda>(n, t). n \<notin> set (map (\<lambda>(j, r). rc_timer r) (dp_recoveringJobs s))
                                      \<and> n \<notin> set (map (\<lambda>(j, k). pk_timer k) (dp_pendingAcks s))) (dp_timers s),
       dp_recoveringJobs := [], dp_pendingAcks := [], dp_earlyAcks := []\<rparr>)"

definition cancelQueuedJob :: "'k dispatch_env \<Rightarrow> job_id \<Rightarrow> unit act" where
  "cancelQueuedJob env j = do { fail_row env j; updateQueueDepthMetric env }"

section \<open>Re-driving pending jobs\<close>

definition DEFAULT_REDRIVE_BATCH :: nat where "DEFAULT_REDRIVE_BATCH = 10"

text \<open>The action of the scaler, or \<open>None\<close> for \<open>settled\<close>.\<close>

definition offerPendingToScaler :: "'k dispatch_env \<Rightarrow> dq_job \<Rightarrow> scale_action option act" where
  "offerPendingToScaler env job =
     (case qj_secretsUnavailable job of
        Some e \<Rightarrow> do { settleUnopenablePending env job (de_errorText env e); ret None }
      | None \<Rightarrow> ask_scaler env
          \<lparr>sr_labels = qj_runsOnLabels job, sr_jobId = qj_id job, sr_runId = qj_runId job,
           sr_excludeLabels = qj_excludeLabels job, sr_resources = qj_resources job,
           sr_orgId = cacheOrgIdOf (qj_jobConfig job), sr_container = containerSpawnFor (qj_jobConfig job)\<rparr>)"

fun offer_loop :: "'k dispatch_env \<Rightarrow> dq_job list \<Rightarrow> nat \<Rightarrow> nat act" where
  "offer_loop env [] n = ret n"
| "offer_loop env (job # jobs) n = do {
     r \<leftarrow> offerPendingToScaler env job;
     offer_loop env jobs (if r = Some Spawning then Suc n else n) }"

definition list_pending :: "'k dispatch_env \<Rightarrow> nat \<Rightarrow> dq_job list act" where
  "list_pending env maxJobs =
     awaiting env AwRead (on_queue (\<lambda>ck c db. let (js, c') = listPending (de_queue env) ck c maxJobs db in (js, c', db)))"

definition retryPendingScaleRequests :: "'k dispatch_env \<Rightarrow> nat \<Rightarrow> nat act" where
  "retryPendingScaleRequests env maxJobs = do {
     busy \<leftarrow> gets dp_redriveInFlight;
     if de_onNoMatchingAgent env = None \<or> busy then ret 0
     else do {
       modify (\<lambda>s. s\<lparr>dp_redriveInFlight := True\<rparr>);
       pending \<leftarrow> list_pending env maxJobs;
       n \<leftarrow> offer_loop env pending 0;
       modify (\<lambda>s. s\<lparr>dp_redriveInFlight := False\<rparr>);
       ret n } }"

definition redrivePendingJob :: "'k dispatch_env \<Rightarrow> job_id \<Rightarrow> bool act" where
  "redrivePendingJob env j =
     (if de_onNoMatchingAgent env = None then ret False
      else do {
        found \<leftarrow> awaiting env AwRead (gets (\<lambda>s. getFullJobById (de_queue env) j (dp_db s)));
        (case found of
           None \<Rightarrow> ret False
         | Some job \<Rightarrow>
             if qj_status job \<noteq> DqPending then ret False
             else do { r \<leftarrow> offerPendingToScaler env job; ret (r = Some Spawning) }) })"

definition selectConnectedTargetForPending :: "'k dispatch_env \<Rightarrow> dq_job \<Rightarrow> agent_id option act" where
  "selectConnectedTargetForPending env job =
     (case qj_pinnedAgentId job of
        Some (c # cs) \<Rightarrow> do {
          e \<leftarrow> gets (agent_of (c # cs));
          now \<leftarrow> gets nowMs;
          if (case e of None \<Rightarrow> True | Some e \<Rightarrow> \<not> agentHasFreeSlot now e) then ret None
          else do {
            rebooting \<leftarrow> isRebootPending env (c # cs) now;
            ret (if rebooting then None else Some (c # cs)) } }
      | _ \<Rightarrow> do {
          availableRaw \<leftarrow> available_agents env (matchLabelsFor (qj_runsOnLabels job) (qj_jobConfig job))
             (qj_runsOnPatterns job) (qj_excludeLabels job) (qj_excludePatterns job);
          notRebooting \<leftarrow> filterRebootPending env availableRaw;
          available \<leftarrow> filterUnservableAgents env (qj_resources job) (qj_jobConfig job) (Some (qj_id job)) notRebooting;
          ret (if available = [] then None
               else Some (ae_agentId (selectAgent (de_collate env) available (qj_jobConfig job)))) })"

fun redrive_loop :: "'k dispatch_env \<Rightarrow> dq_job list \<Rightarrow> nat \<Rightarrow> (dispatch_error + nat) act" where
  "redrive_loop env [] n = ret (Inr n)"
| "redrive_loop env (job # jobs) n = do {
     target \<leftarrow> selectConnectedTargetForPending env job;
     (case target of
        None \<Rightarrow> redrive_loop env jobs n
      | Some a \<Rightarrow> do {
          outcome \<leftarrow> claimBoundJob env a (qj_id job);
          (case outcome of
             Inl e \<Rightarrow> ret (Inl e)
           | Inr out \<Rightarrow> redrive_loop env jobs (if out = Sent then Suc n else n)) }) }"

definition redrivePendingToConnectedAgents :: "'k dispatch_env \<Rightarrow> nat \<Rightarrow> (dispatch_error + nat) act" where
  "redrivePendingToConnectedAgents env maxJobs = do {
     s \<leftarrow> gets (\<lambda>s. s);
     if dp_pendingRedriveInFlight s \<or> dp_draining s then ret (Inr 0)
     else do {
       modify (\<lambda>s. s\<lparr>dp_pendingRedriveInFlight := True\<rparr>);
       depth \<leftarrow> awaiting env AwDepth (on_queue (\<lambda>ck c db. let (n, c') = getDepth ck c db in (n, c', db)));
       r \<leftarrow> (if depth = 0 then ret (Inr 0)
            else do { pending \<leftarrow> list_pending env maxJobs; redrive_loop env pending 0 });
       modify (\<lambda>s. s\<lparr>dp_pendingRedriveInFlight := False\<rparr>);
       ret r } }"

section \<open>Timers and what was not awaited\<close>

text \<open>A timer fires: it is gone from the timers when its callback runs.\<close>

definition fire_timer :: "'k dispatch_env \<Rightarrow> nat \<Rightarrow> unit act" where
  "fire_timer env n = do {
     t \<leftarrow> gets (\<lambda>s. map_of (dp_timers s) n);
     (case t of
        None \<Rightarrow> ret ()
      | Some (t, _) \<Rightarrow> do {
          clearTimeout n;
          (case t of
             AckTimer a j r \<Rightarrow> do { _ \<leftarrow> handleAckExpiry env a j r; ret () }
           | RecoveryTimer a j \<Rightarrow> handleRecoveryExpiry env a j) }) }"

definition run_issued :: "'k dispatch_env \<Rightarrow> nat \<Rightarrow> unit act" where
  "run_issued env n = do {
     s \<leftarrow> gets (\<lambda>s. s);
     if n \<ge> length (dp_issued s) then ret ()
     else do {
       modify (\<lambda>s. s\<lparr>dp_issued := take n (dp_issued s) @ drop (Suc n) (dp_issued s)\<rparr>);
       (case dp_issued s ! n of
          IssuedClearAck j \<Rightarrow> on_db (\<lambda>ck c db. ((), clearAckDeadline j db))
        | IssuedStampAck j deadline a \<Rightarrow> on_db (\<lambda>ck c db. ((), setAckDeadline j deadline a db))
        | IssuedComplete j \<Rightarrow> on_db (\<lambda>ck c db. ((), markCompleted j db))
        | IssuedTriage a entry now \<Rightarrow> do { _ \<leftarrow> triage_rest env a entry now; ret () }) } }"

end
