(* ===== verification/DispatchRules.thy ===== *)
theory DispatchRules
  imports Dispatcher
begin

text \<open>
  What the methods of the dispatcher keep, whatever runs at their \<open>await\<close>s. \<open>keeps P m\<close> is the
  invariance rule of an act; the locale \<open>dispatcher_rules\<close> asks of a predicate that it survives
  the elementary effects (a protocol step of the queue, a step of the registry, an effect, a
  change of the tracking maps), and gives back that it survives every method, timer and
  statement in flight.
\<close>

section \<open>Invariance of an act\<close>

definition keeps :: "(dispatcher \<Rightarrow> bool) \<Rightarrow> 'a act \<Rightarrow> bool" where
  "keeps P m \<longleftrightarrow> (\<forall>s. P s \<longrightarrow> P (snd (run_state m s)))"

named_theorems keeps_intro "invariance of compound acts"

lemma run_simps [simp]:
  "run_state (gets f) s = (f s, s)"
  "run_state (modify g) s = ((), g s)"
  "run_state (emits es) s = ((), s\<lparr>dp_out := dp_out s @ es\<rparr>)"
  "run_state (issue i) s = ((), s\<lparr>dp_issued := dp_issued s @ [i]\<rparr>)"
  "run_state (clearTimeout n) s = ((), s\<lparr>dp_timers := amap_delete n (dp_timers s)\<rparr>)"
  by (simp_all add: gets_def modify_def emits_def issue_def clearTimeout_def)

lemma run_whenever: "run_state (whenever b m) s = (if b then run_state m s else ((), s))"
  by (simp add: whenever_def)

lemma keepsI: "(\<And>s. P s \<Longrightarrow> P (snd (run_state m s))) \<Longrightarrow> keeps P m"
  by (simp add: keeps_def)

lemma keepsD: "keeps P m \<Longrightarrow> P s \<Longrightarrow> run_state m s = (x, s') \<Longrightarrow> P s'"
  by (force simp: keeps_def)

lemma keeps_bind [keeps_intro]: "keeps P m \<Longrightarrow> (\<And>x. keeps P (f x)) \<Longrightarrow> keeps P (State_Monad.bind m f)"
  by (auto simp: keeps_def case_prod_beta)

text \<open>The value that was read is a value of some state with the invariant.\<close>

lemma keeps_gets_bind: "(\<And>s. P s \<Longrightarrow> keeps P (f (g s))) \<Longrightarrow> keeps P (State_Monad.bind (gets g) f)"
  by (auto simp: keeps_def)

lemma keeps_ret [keeps_intro]: "keeps P (State_Monad.return x)"
  by (simp add: keeps_def)

lemma keeps_gets [keeps_intro]: "keeps P (gets f)"
  by (simp add: keeps_def)

lemma keeps_if [keeps_intro]: "(b \<Longrightarrow> keeps P m) \<Longrightarrow> (\<not> b \<Longrightarrow> keeps P n) \<Longrightarrow> keeps P (if b then m else n)"
  by simp

lemma keeps_whenever [keeps_intro]: "(b \<Longrightarrow> keeps P m) \<Longrightarrow> keeps P (whenever b m)"
  by (simp add: whenever_def keeps_ret)

lemma keeps_Let [keeps_intro]: "(\<And>x. x = v \<Longrightarrow> keeps P (f x)) \<Longrightarrow> keeps P (Let v f)"
  by (simp add: Let_def)

lemma keeps_option [keeps_intro]:
  "(x = None \<Longrightarrow> keeps P m) \<Longrightarrow> (\<And>y. x = Some y \<Longrightarrow> keeps P (f y)) \<Longrightarrow> keeps P (case x of None \<Rightarrow> m | Some y \<Rightarrow> f y)"
  by (cases x) simp_all

lemma keeps_sum [keeps_intro]:
  "(\<And>e. keeps P (f e)) \<Longrightarrow> (\<And>y. x = Inr y \<Longrightarrow> keeps P (g y)) \<Longrightarrow> keeps P (case x of Inl e \<Rightarrow> f e | Inr y \<Rightarrow> g y)"
  by (cases x) simp_all

lemma keeps_list [keeps_intro]:
  "(x = [] \<Longrightarrow> keeps P m) \<Longrightarrow> (\<And>y ys. x = y # ys \<Longrightarrow> keeps P (f y ys))
   \<Longrightarrow> keeps P (case x of [] \<Rightarrow> m | y # ys \<Rightarrow> f y ys)"
  by (cases x) simp_all

lemma keeps_prod [keeps_intro]: "(\<And>y z. x = (y, z) \<Longrightarrow> keeps P (f y z)) \<Longrightarrow> keeps P (case x of (y, z) \<Rightarrow> f y z)"
  by (cases x) simp

lemma keeps_cases [keeps_intro]:
  "keeps P m \<Longrightarrow> keeps P n \<Longrightarrow> keeps P (case b of True \<Rightarrow> m | False \<Rightarrow> n)"
  "keeps P m \<Longrightarrow> keeps P (case e of QueueFull \<Rightarrow> m)"
  "(\<And>x. keeps P (g x)) \<Longrightarrow> keeps P m \<Longrightarrow> keeps P n \<Longrightarrow> keeps P (case answer of AnsSent \<Rightarrow> m | AnsRefused x \<Rightarrow> g x | AnsThrew \<Rightarrow> n)"
  "keeps P m \<Longrightarrow> keeps P n \<Longrightarrow> keeps P k \<Longrightarrow> keeps P (case out of Sent \<Rightarrow> m | NotSent \<Rightarrow> n | NotClaimed \<Rightarrow> k)"
  "keeps P m \<Longrightarrow> keeps P n \<Longrightarrow> keeps P k \<Longrightarrow> keeps P (case rq of RqRequeued \<Rightarrow> m | RqFailed \<Rightarrow> n | RqGone \<Rightarrow> k)"
  by (cases b, simp, simp, cases e, simp, cases answer, simp, simp, simp, cases out, simp, simp, simp,
      cases rq, simp_all)

text \<open>What a method relies on: the rest of the world keeps the invariant and the queue's protocol.\<close>

definition rely :: "(dispatcher \<Rightarrow> bool) \<Rightarrow> 'k dispatch_env \<Rightarrow> bool" where
  "rely P env \<longleftrightarrow> (\<forall>p s. P s \<longrightarrow> P (de_others env p s)) \<and> traces (de_dbOthers env)"

lemma keeps_awaiting [keeps_intro]: "rely P env \<Longrightarrow> keeps P m \<Longrightarrow> keeps P (awaiting env p m)"
  by (auto simp: awaiting_def keeps_def rely_def case_prod_beta)

section \<open>The statements follow the protocol of the queue\<close>

definition lawful_query :: "(clock \<Rightarrow> coordinator \<Rightarrow> dq_db \<Rightarrow> 'a \<times> coordinator \<times> dq_db) \<Rightarrow> bool" where
  "lawful_query f \<longleftrightarrow> (\<forall>ck c db x c' db'. f ck c db = (x, c', db') \<longrightarrow> (\<exists>evs. dq_trace db evs db'))"

named_theorems lawful_queries

lemma one_event: "dq_step db ev db' \<Longrightarrow> \<exists>evs. dq_trace db evs db'"
  by (blast intro: trace_one)

lemma no_event: "db' = db \<Longrightarrow> \<exists>evs. dq_trace db evs db'"
  by (auto intro: trace_nil)

lemma lawful_db: "(\<And>ck c db x db'. f ck c db = (x, db') \<Longrightarrow> \<exists>evs. dq_trace db evs db')
    \<Longrightarrow> lawful_query (\<lambda>ck c db. let (x, db') = f ck c db in (x, c, db'))"
  by (fastforce simp: lawful_query_def case_prod_beta prod_eq_iff)

lemma lawful_reads [lawful_queries]:
  "lawful_query (\<lambda>ck c db. let (n, c') = getDepth ck c db in (n, c', db))"
  "lawful_query (\<lambda>ck c db. let (n, c') = getDepth ck c db in ((), c', db))"
  "lawful_query (\<lambda>ck c db. let (js, c') = listPending q ck c m db in (js, c', db))"
  "lawful_query (\<lambda>ck c db. ((), deferUnopenable b ck j c, db))"
  by (auto simp: lawful_query_def case_prod_beta intro: no_event)

lemma lawful_requeue [lawful_queries]: "lawful_query (\<lambda>ck. requeue j cnt e)"
  "lawful_query (\<lambda>ck. requeueIfAwaitingAck j a)"
  by (auto simp: lawful_query_def intro: one_event st_requeue st_requeueIfAwaitingAck)

lemma lawful_settle [lawful_queries]: "lawful_query (\<lambda>ck c. settleClaimOfStoppedRun ck c j r)"
  by (auto simp: lawful_query_def settleClaimOfStoppedRun_def intro: one_event st_settle)

lemma lawful_enqueue [lawful_queries]: "lawful_query (\<lambda>ck c. enqueue q m t u ck c job)"
  by (auto simp: lawful_query_def dest!: enqueue_trace)

lemma lawful_insert [lawful_queries]:
  "traces others \<Longrightarrow> lawful_query (\<lambda>ck c. insertDispatched q (others None) u ck c job a)"
  unfolding lawful_query_def
  by (intro allI impI, drule insertDispatched_trace [rotated]) (auto simp: traces_def)

lemma claims_trace: "claims db res db' \<Longrightarrow> \<exists>evs. dq_trace db evs db'"
  by (auto simp: claims_def)

lemma lawful_dequeues [lawful_queries]:
  assumes "traces others"
  shows "lawful_query (\<lambda>ck c. dequeueById q others ck c locked j ls ms a)"
    and "lawful_query (\<lambda>ck c. dequeueByPinnedAgent q others ck c locked b ls')"
    and "lawful_query (\<lambda>ck c. dequeueForLabels q others ck c locked ls ms a serve)"
  using assms unfolding lawful_query_def
  by (blast dest: dequeueById_claims dequeueByPinnedAgent_claims dequeueForLabels_claims claims_trace)+

definition lawful_statement :: "(clock \<Rightarrow> coordinator \<Rightarrow> dq_db \<Rightarrow> 'a \<times> dq_db) \<Rightarrow> bool" where
  "lawful_statement f \<longleftrightarrow> (\<forall>ck c db. \<exists>evs. dq_trace db evs (snd (f ck c db)))"

lemma lawful_statements [lawful_queries]:
  "lawful_statement (\<lambda>ck c db. ((), markFailed j db))"
  "lawful_statement (\<lambda>ck c db. ((), markCompleted j db))"
  "lawful_statement (\<lambda>ck c db. ((), markDispatched ck c j a db))"
  "lawful_statement (\<lambda>ck c db. ((), clearAckDeadline j db))"
  "lawful_statement (\<lambda>ck c db. ((), setAckDeadline j t a db))"
  "lawful_statement (\<lambda>ck c. markRecovering ck c j d b)"
  "lawful_statement (\<lambda>ck c. markFailedIfRecovering j)"
  "lawful_statement (\<lambda>ck c. markDispatchedIfRecovering ck c j a)"
  unfolding lawful_statement_def snd_conv
  by (blast intro: one_event st_markFailed st_markCompleted st_markDispatched st_clearAckDeadline st_setAckDeadline
      st_markRecovering st_markFailedIfRecovering st_markDispatchedIfRecovering)+

lemma lawful_claim_unopenable [lawful_queries]: "lawful_statement (\<lambda>ck c. claimUnopenableById ck c j)"
  unfolding lawful_statement_def
proof (intro allI)
  fix ck c db
  obtain ok db' where d: "claimUnopenableById ck c j db = (ok, db')" by (cases "claimUnopenableById ck c j db")
  then show "\<exists>evs. dq_trace db evs (snd (claimUnopenableById ck c j db))"
    by (cases ok) (auto intro: one_event st_claim_unopenable st_claim_unopenable_lost)
qed

lemma lawful_recovery_sweep [lawful_queries]:
  assumes "traces others"
  shows "lawful_statement (\<lambda>ck c. sweepExpiredRecoveries (others None) now)"
  unfolding lawful_statement_def
proof (intro allI)
  fix db
  from assms obtain evs where e: "dq_trace db evs (others None db)" by (auto simp: traces_def)
  show "\<exists>evs. dq_trace db evs (snd (sweepExpiredRecoveries (others None) now db))"
  proof (cases "rows_with (\<lambda>r. dq_status r = DqRecovering \<and> before (dq_recovery_deadline r) now) db = []")
    case True
    then show ?thesis by (auto simp: sweepExpiredRecoveries_def intro: trace_nil)
  next
    case False
    let ?rows = "rows_with (\<lambda>r. dq_status r = DqRecovering \<and> before (dq_recovery_deadline r) now) db"
    have "dq_step (others None db) EvOther (update_rows (\<lambda>r. dq_id r \<in> set (map dq_id ?rows) \<and> dq_status r = DqRecovering)
        (\<lambda>r. r\<lparr>dq_status := DqFailed\<rparr>) (others None db))" by (rule st_sweep)
    with e have "dq_trace db (evs @ [EvOther]) (update_rows (\<lambda>r. dq_id r \<in> set (map dq_id ?rows) \<and> dq_status r = DqRecovering)
        (\<lambda>r. r\<lparr>dq_status := DqFailed\<rparr>) (others None db))" by (rule trace_snoc)
    with False show ?thesis unfolding sweepExpiredRecoveries_def Let_def by auto
  qed
qed

lemma unregister_step: "registry_step g (fst (snd (unregister a g)))"
  by (cases "unregister a g") (auto intro: rg_unregister)

section \<open>The contract of an invariant of the dispatcher\<close>

text \<open>
  \<open>ok a job\<close> says which sends the invariant admits. A method sends only after it read that the
  coordinator is not draining, in a state with the invariant.
\<close>

locale dispatcher_rules =
  fixes P :: "dispatcher \<Rightarrow> bool" and ok :: "agent_id \<Rightarrow> dq_job \<Rightarrow> bool"
  assumes queue_step: "P s \<Longrightarrow> dq_trace (dp_db s) evs db' \<Longrightarrow> P (s\<lparr>dp_queue := c', dp_db := db'\<rparr>)"
    and fleet_step: "P s \<Longrightarrow> registry_step (dp_registry s) g' \<Longrightarrow> P (s\<lparr>dp_registry := g'\<rparr>)"
    and send: "ok a job \<Longrightarrow> P s0 \<Longrightarrow> \<not> dp_draining s0 \<Longrightarrow> P s \<Longrightarrow> P (s\<lparr>dp_out := dp_out s @ [CallOnDispatch a job]\<rparr>)"
    and effect: "P s \<Longrightarrow> \<forall>a job. CallOnDispatch a job \<notin> set es \<Longrightarrow> P (s\<lparr>dp_out := dp_out s @ es\<rparr>)"
    and issues: "P s \<Longrightarrow> P (s\<lparr>dp_issued := is\<rparr>)"
    and track: "P s \<Longrightarrow> P (snd (run_state (trackJobForAgent a j r) s))"
    and forget: "P s \<Longrightarrow> P (forget_job a j s)"
    and early: "P s \<Longrightarrow> P (s\<lparr>dp_earlyAcks := m\<rparr>)"
    and start: "P s \<Longrightarrow> map_of (dp_jobToAgent s) j \<noteq> None \<Longrightarrow> P (s\<lparr>dp_startedJobs := js_add j (dp_startedJobs s)\<rparr>)"
    and arm_ack: "P s \<Longrightarrow> P (snd (run_state (arm_ack a j r delay) s))"
    and arm_recovery: "P s \<Longrightarrow> P (snd (run_state (arm_recovery a j r delay t) s))"
    and drop_pending: "P s \<Longrightarrow> P (snd (run_state (drop_pending j) s))"
    and drop_recovery: "P s \<Longrightarrow> P (snd (run_state (drop_recovery j) s))"
    and unpend: "P s \<Longrightarrow> P (s\<lparr>dp_pendingAcks := amap_delete j (dp_pendingAcks s)\<rparr>)"
    and unrecover: "P s \<Longrightarrow> P (s\<lparr>dp_recoveringJobs := amap_delete j (dp_recoveringJobs s)\<rparr>)"
    and ack_fires: "P s \<Longrightarrow> map_of (dp_timers s) n = Some (AckTimer a j r, t) \<Longrightarrow>
      (if (case map_of (dp_pendingAcks s) j of None \<Rightarrow> True | Some k \<Rightarrow> pk_agentId k \<noteq> a)
       then P (s\<lparr>dp_timers := amap_delete n (dp_timers s)\<rparr>)
       else P (s\<lparr>dp_timers := amap_delete n (dp_timers s), dp_pendingAcks := amap_delete j (dp_pendingAcks s)\<rparr>))"
    and recovery_fires: "P s \<Longrightarrow> map_of (dp_timers s) n = Some (RecoveryTimer a j, t) \<Longrightarrow>
      P (s\<lparr>dp_timers := amap_delete n (dp_timers s), dp_recoveringJobs := amap_delete j (dp_recoveringJobs s)\<rparr>)"
    and completed: "P s \<Longrightarrow> P (s\<lparr>dp_completedJobs := remember_completed j g (dp_completedJobs s)\<rparr>)"
    and grace: "P s \<Longrightarrow> P (s\<lparr>dp_completedJobs := filter q (dp_completedJobs s)\<rparr>)"
    and stop: "P s \<Longrightarrow> P (snd (run_state stopRecoveryTimers s))"
    and flags: "P s \<Longrightarrow> P (s\<lparr>dp_redriveInFlight := b\<rparr>)" "P s \<Longrightarrow> P (s\<lparr>dp_pendingRedriveInFlight := b\<rparr>)"
    and reboot: "P s \<Longrightarrow> P (s\<lparr>dp_reboot := m'\<rparr>)"
begin

lemma keeps_query: "lawful_query f \<Longrightarrow> keeps P (on_queue f)"
proof (rule keepsI)
  fix s assume f: "lawful_query f" and P: "P s"
  obtain x c db where d: "f (dp_clock s) (dp_queue s) (dp_db s) = (x, c, db)"
    by (cases "f (dp_clock s) (dp_queue s) (dp_db s)")
  with f obtain evs where "dq_trace (dp_db s) evs db" unfolding lawful_query_def by blast
  with P d show "P (snd (run_state (on_queue f) s))" by (simp add: on_queue_def queue_step)
qed

lemma keeps_statement: "lawful_statement f \<Longrightarrow> keeps P (on_db f)"
  unfolding on_db_def
  by (rule keeps_query) (auto simp: lawful_query_def lawful_statement_def case_prod_beta)

lemma keeps_fleet: "(\<And>now g. registry_step g (snd (f now g))) \<Longrightarrow> keeps P (on_registry f)"
  by (auto simp: keeps_def on_registry_def case_prod_beta intro!: fleet_step)

lemma keeps_effect [keeps_intro]: "\<forall>a job. CallOnDispatch a job \<notin> set es \<Longrightarrow> keeps P (emits es)"
  by (auto simp: keeps_def intro: effect)

lemma keeps_fleet_ops [keeps_intro]:
  "keeps P (take_slot a)" "keeps P (free_slot a)"
  "keeps P (on_registry (\<lambda>now g. ((), clearExpiredBusyHold now a g)))"
  "keeps P (on_registry (\<lambda>now g. ((), clearBusyHeld a g)))"
  "keeps P (on_registry (\<lambda>now. markBusyHeld now a))"
  unfolding take_slot_def free_slot_def
  by (intro keeps_intro keeps_fleet; simp add: rg_increment rg_decrement rg_clearExpired rg_clearBusy rg_busy)+

lemma keeps_drop_agent [keeps_intro]: "keeps P (drop_agent a)"
proof -
  have "keeps P (on_registry (\<lambda>now g. let (_, g', effs) = unregister a g in (effs, g')))"
    by (rule keeps_fleet) (simp add: case_prod_beta unregister_step)
  then show ?thesis unfolding drop_agent_def by (intro keeps_intro) auto
qed

lemma keeps_tracking [keeps_intro]:
  "keeps P (trackJobForAgent a j r)" "keeps P (modify (forget_job a j))" "keeps P (issue i)"
  "keeps P (arm_ack a j r d)" "keeps P (arm_recovery a j r d t)" "keeps P (drop_pending j)" "keeps P (drop_recovery j)"
  by (auto simp: keeps_def intro: track forget issues arm_ack arm_recovery drop_pending drop_recovery)

lemma keeps_maps [keeps_intro]:
  "keeps P (modify (\<lambda>s. s\<lparr>dp_earlyAcks := f s\<rparr>))"
  "keeps P (modify (\<lambda>s. s\<lparr>dp_pendingAcks := amap_delete j (dp_pendingAcks s)\<rparr>))"
  "keeps P (modify (\<lambda>s. s\<lparr>dp_completedJobs := filter q (dp_completedJobs s)\<rparr>))"
  "keeps P (modify (\<lambda>s. s\<lparr>dp_completedJobs := filter (q' s) (dp_completedJobs s)\<rparr>))"
  "keeps P (modify (\<lambda>s. s\<lparr>dp_completedJobs := remember_completed j (g s) (dp_completedJobs s)\<rparr>))"
  "keeps P (modify (\<lambda>s. s\<lparr>dp_redriveInFlight := b\<rparr>))"
  "keeps P (modify (\<lambda>s. s\<lparr>dp_pendingRedriveInFlight := b\<rparr>))"
  "keeps P (modify (\<lambda>s. s\<lparr>dp_reboot := m s\<rparr>))"
  by (auto simp: keeps_def intro: early unpend grace completed flags reboot)

lemma keeps_resolve [keeps_intro]: "keeps P (resolvePendingAck j)" "keeps P (untrackJob a j)"
  "keeps P (releaseClaimAccounting agent j)" "keeps P (releaseTrackedClaim a j)" "keeps P (noteJobAccepted a j)"
  "keeps P (onJobAcked a j)" "keeps P (consumeEarlyAck j a)" "keeps P (cleanupGraceEntriesForAgent a)"
  "keeps P cleanupExpiredGraceEntries"
  unfolding resolvePendingAck_def untrackJob_def releaseClaimAccounting_def releaseTrackedClaim_def noteJobAccepted_def
    onJobAcked_def consumeEarlyAck_def cleanupGraceEntriesForAgent_def cleanupExpiredGraceEntries_def
  by (intro keeps_intro)+

lemma keeps_depth [keeps_intro]: "rely P env \<Longrightarrow> keeps P (updateQueueDepthMetric env)"
  unfolding updateQueueDepthMetric_def by (intro keeps_intro keeps_query lawful_queries)

lemma keeps_arm [keeps_intro]: "rely P env \<Longrightarrow> keeps P (armAckDeadline env a job)"
  unfolding armAckDeadline_def by (intro keeps_intro)

lemma keeps_settlement [keeps_intro]:
  assumes "rely P env"
  shows "keeps P (requeue_row env j cnt e)" "keeps P (fail_row env j)" "keeps P (settle_stopped env j r)"
    "keeps P (failRefusedDispatch env agent job reason)" "keeps P (releaseUnopenableDispatch env agent job msg)"
    "keeps P (settleUnopenablePending env job msg)" "keeps P (returnUndeliveredClaim env a job tracked)"
  using assms
  unfolding requeue_row_def fail_row_def settle_stopped_def failRefusedDispatch_def releaseUnopenableDispatch_def
    settleUnopenablePending_def returnUndeliveredClaim_def
  by ((intro keeps_intro keeps_query keeps_statement lawful_queries; simp)+)

lemma keeps_deliver [keeps_intro]:
  assumes "rely P env" and "ok a job" and "P s0" and "\<not> dp_draining s0"
  shows "keeps P (deliver env a job)"
proof -
  have "keeps P (emits [CallOnDispatch a job])"
    using send [OF assms(2-4)] by (simp add: keeps_def)
  with assms(1) show ?thesis unfolding deliver_def by - ((assumption | rule keeps_intro)+)
qed

lemma keeps_sendClaimedJob:
  assumes "rely P env" and "ok a job" and "P s0" and "\<not> dp_draining s0"
  shows "keeps P (sendClaimedJob env a job)"
  using assms unfolding sendClaimedJob_def
  by (intro keeps_intro keeps_statement lawful_queries; assumption?)

lemma keeps_send_direct:
  assumes "rely P env" and "\<And>j now. ok a (direct_job j now resources pin job)" and "P s0" and "\<not> dp_draining s0"
  shows "keeps P (send_direct env uuid resources pin job a)"
  using assms unfolding send_direct_def
  by (intro keeps_intro keeps_query lawful_queries; (assumption | simp add: rely_def)?)

lemma keeps_enqueue [keeps_intro]: "rely P env \<Longrightarrow> keeps P (enqueue_job env uuid job)"
  unfolding enqueue_job_def by (intro keeps_intro keeps_query lawful_queries)

lemma keeps_ask_scaler [keeps_intro]: "rely P env \<Longrightarrow> keeps P (ask_scaler env req)"
  unfolding ask_scaler_def by (intro keeps_intro) simp_all

text \<open>A value that an awaited query returned.\<close>

lemma keeps_query_bind:
  assumes "rely P env" and "lawful_query f" and "\<And>ck c db. keeps P (g (fst (f ck c db)))"
  shows "keeps P (State_Monad.bind (awaiting env p (on_queue f)) g)"
proof (rule keepsI)
  fix s assume P: "P s"
  have q: "P (snd (run_state (awaiting env p (on_queue f)) s))"
    using keeps_awaiting [OF assms(1) keeps_query [OF assms(2)]] P by (simp add: keeps_def)
  have "\<exists>ck c db. fst (run_state (awaiting env p (on_queue f)) s) = fst (f ck c db)"
    by (auto simp: awaiting_def on_queue_def case_prod_beta)
  with q assms(3) show "P (snd (run_state (State_Monad.bind (awaiting env p (on_queue f)) g) s))"
    by (auto simp: case_prod_beta keeps_def)
qed

lemma keeps_claimBoundJob:
  assumes r: "rely P env"
    and ok: "\<And>ck c db ls ms job. fst (dequeueById (de_queue env) (de_dbOthers env) ck c (de_locked env) j ls ms (Some a) db)
       = Some job \<Longrightarrow> ok a job"
  shows "keeps P (claimBoundJob env a j)"
proof -
  from r have t: "traces (de_dbOthers env)" by (simp add: rely_def)
  show ?thesis
    unfolding claimBoundJob_def
    by (rule keeps_bind [OF keeps_gets], rule keeps_bind [OF keeps_gets], rule keeps_gets_bind)
       (intro keeps_intro keeps_query_bind lawful_dequeues t r keeps_sendClaimedJob; (assumption | erule ok)?)
qed

lemma keeps_drain:
  assumes r: "rely P env"
    and pinned: "\<And>ck c db ls job. fst (dequeueByPinnedAgent (de_queue env) (de_dbOthers env) ck c (de_locked env) a ls db)
       = Some job \<Longrightarrow> ok a job"
    and labels: "\<And>ck c db ls ms serve job. fst (dequeueForLabels (de_queue env) (de_dbOthers env) ck c (de_locked env) ls ms
       (Some a) serve db) = Some job \<Longrightarrow> ok a job"
  shows "keeps P (drainForAgent env a)" and "keeps P (onAgentAvailable env a)"
proof -
  from r have t: "traces (de_dbOthers env)" by (simp add: rely_def)
  have send: "keeps P (do { sent \<leftarrow> sendClaimedJob env a job; ret (map_sum (\<lambda>e. e) (\<lambda>_. None) sent) })"
    if "ok a job" "P s0" "\<not> dp_draining s0" for job s0
    using that r by (intro keeps_intro keeps_sendClaimedJob)
  have none: "keeps P (do { free_slot a; ret (Inr (Some DdNoMatchingJob)) })" by (intro keeps_intro)
  let ?finish = "\<lambda>job. case job of None \<Rightarrow> do { free_slot a; ret (Inr (Some DdNoMatchingJob)) }
      | Some job \<Rightarrow> do { sent \<leftarrow> sendClaimedJob env a job; ret (map_sum (\<lambda>e. e) (\<lambda>_. None) sent) }"
  have claim: "keeps P (do {
       pinned \<leftarrow> awaiting env AwDequeue (on_queue (\<lambda>ck c.
         dequeueByPinnedAgent (de_queue env) (de_dbOthers env) ck c (de_locked env) a (Some ls)));
       job \<leftarrow> (case pinned of Some job \<Rightarrow> ret (Some job)
         | None \<Rightarrow> do { serve \<leftarrow> gets fit;
             awaiting env AwDequeue (on_queue (\<lambda>ck c.
               dequeueForLabels (de_queue env) (de_dbOthers env) ck c (de_locked env) ls ms (Some a) serve)) });
       ?finish job })" if s0: "P s0" "\<not> dp_draining s0" for ls ms fit s0
  proof (rule keeps_query_bind [OF r lawful_dequeues(2) [OF t]])
    fix ck c db
    let ?p = "fst (dequeueByPinnedAgent (de_queue env) (de_dbOthers env) ck c (de_locked env) a (Some ls) db)"
    show "keeps P (do { job \<leftarrow> (case ?p of Some job \<Rightarrow> ret (Some job)
         | None \<Rightarrow> do { serve \<leftarrow> gets fit;
             awaiting env AwDequeue (on_queue (\<lambda>ck c.
               dequeueForLabels (de_queue env) (de_dbOthers env) ck c (de_locked env) ls ms (Some a) serve)) });
       ?finish job })"
    proof (cases ?p)
      case None
      then show ?thesis
        by simp (intro keeps_gets_bind keeps_query_bind [OF r lawful_dequeues(3) [OF t]] keeps_option none
                   send [OF _ s0]; erule labels)
    next
      case (Some job)
      then show ?thesis using send [OF pinned [OF Some] s0] by simp
    qed
  qed
  show d: "keeps P (drainForAgent env a)"
    unfolding drainForAgent_def isRebootPending_def
    by (rule keeps_bind [OF keeps_gets], rule keeps_gets_bind)
       (intro keeps_intro r claim; assumption?)
  show "keeps P (onAgentAvailable env a)"
    unfolding onAgentAvailable_def by (intro keeps_intro d r)
qed

lemma keeps_reboot [keeps_intro]:
  assumes "rely P env"
  shows "keeps P (isRebootPending env a now)" "keeps P (drop_rebooting env now es)" "keeps P (filterRebootPending env es)"
    "keeps P (releaseRebootPending env a)"
proof -
  show 1: "keeps P (isRebootPending env a now)" for a now
    using assms unfolding isRebootPending_def by (intro keeps_intro)
  show 2: "keeps P (drop_rebooting env now es)" for now es
    by (induction es) (auto intro!: keeps_intro 1)
  show "keeps P (filterRebootPending env es)"
    unfolding filterRebootPending_def by (intro keeps_intro 2)
  show "keeps P (releaseRebootPending env a)"
    using assms unfolding releaseRebootPending_def by (intro keeps_intro 1)
qed

lemma keeps_select [keeps_intro]:
  "keeps P (available_agents env ls ps ex eps)" "keeps P (filterUnservableAgents env res cfg jid es)"
  by (simp_all add: available_agents_def filterUnservableAgents_def keeps_gets)

lemma keeps_dispatchPinned:
  assumes "rely P env" and "\<And>j now. ok a (direct_job j now resources (Some a) job)"
  shows "keeps P (dispatchPinned env uuid resources job a)"
proof -
  have send: "keeps P (send_direct env uuid resources (Some a) job a)" if "P s" "\<not> dp_draining s" for s
    using assms that by (intro keeps_send_direct)
  show ?thesis
    unfolding dispatchPinned_def
    by (rule keeps_bind [OF keeps_gets], rule keeps_bind [OF keeps_gets], rule keeps_bind [OF keeps_reboot(1) [OF assms(1)]],
        rule keeps_gets_bind)
       (intro keeps_intro assms(1) send; blast)
qed

lemma keeps_dispatch:
  assumes r: "rely P env" and "\<And>a j now. ok a (direct_job j now resources (Some a) job)"
    and "\<And>a j now. ji_pinnedAgentId job \<in> {None, Some []} \<Longrightarrow> ok a (direct_job j now resources None job)"
  shows "keeps P (dispatch env uuid resources job)"
proof -
  have send: "keeps P (send_direct env uuid resources None job a)"
    if "P s" "\<not> dp_draining s" "ji_pinnedAgentId job \<in> {None, Some []}" for s a
    using r assms(3) that by (intro keeps_send_direct)
  have free: "keeps P (do {
      availableRaw \<leftarrow> available_agents env ls ps ex eps;
      notRebooting \<leftarrow> filterRebootPending env availableRaw;
      available \<leftarrow> filterUnservableAgents env resources cfg jid notRebooting;
      if available \<noteq> [] then
        send_direct env uuid resources None job (ae_agentId (selectAgent (de_collate env) available cfg))
      else do { queued \<leftarrow> enqueue_job env uuid job;
                (case queued of Inl r \<Rightarrow> ret (Inr r)
                 | Inr j \<Rightarrow> do { action \<leftarrow> ask_scaler env (req j); s \<leftarrow> gets (\<lambda>s. s); ret (res j action s) }) } })"
    if "P s" "\<not> dp_draining s" "ji_pinnedAgentId job \<in> {None, Some []}" for ls ps ex eps cfg jid req res s
    by (intro keeps_intro r send [OF that])
  show ?thesis
    unfolding dispatch_def
    by (rule keeps_gets_bind) (intro keeps_intro keeps_dispatchPinned assms(1,2) free; (assumption | simp)?)
qed

lemma keeps_redrive_select [keeps_intro]:
  "rely P env \<Longrightarrow> keeps P (selectConnectedTargetForPending env job)"
  unfolding selectConnectedTargetForPending_def by (intro keeps_intro)

lemma keeps_started [keeps_intro]: "keeps P (markJobStarted j)" "keeps P (restoreJobForAgent a j r)"
proof -
  show "keeps P (markJobStarted j)"
  proof (rule keepsI)
    fix s assume "P s"
    with keeps_resolve(1) [of j] have P: "P (snd (run_state (resolvePendingAck j) s))" by (simp add: keeps_def)
    have accepted: "keeps P (noteJobAccepted a j)" for a by (rule keeps_resolve)
    let ?s = "snd (run_state (resolvePendingAck j) s)"
    show "P (snd (run_state (markJobStarted j) s))"
    proof (cases "map_of (dp_jobToAgent ?s) j")
      case None
      with P show ?thesis by (simp add: markJobStarted_def case_prod_beta)
    next
      case (Some a)
      with start [OF P] accepted [of a] show ?thesis
        by (auto simp: markJobStarted_def case_prod_beta keeps_def)
    qed
  qed
  show "keeps P (restoreJobForAgent a j r)"
  proof (rule keepsI)
    fix s assume P: "P s"
    let ?r = "orDefault r (orDefault (map_of (dp_jobRunIds s) j) [])"
    let ?s = "snd (run_state (trackJobForAgent a j ?r) s)"
    have "map_of (dp_jobToAgent ?s) j \<noteq> None" by (simp add: trackJobForAgent_def)
    with start [OF track [OF P]] show "P (snd (run_state (restoreJobForAgent a j r) s))"
      by (simp add: restoreJobForAgent_def case_prod_beta)
  qed
qed

lemma keeps_complete [keeps_intro]: "keeps P (onJobComplete a j)"
  unfolding onJobComplete_def by (intro keeps_intro)

lemma keeps_recovery [keeps_intro]:
  assumes "rely P env"
  shows "keeps P (claimRecovery j a)" "keeps P (reconcileRecovery env j a)" "keeps P (begin_recovery env a j r t)"
    "keeps P (startRecoveryTimer env j a r)" "keeps P (recovery_expired env a j r)" "keeps P (cancelQueuedJob env j)"
  using assms unfolding claimRecovery_def reconcileRecovery_def begin_recovery_def startRecoveryTimer_def
    recovery_expired_def cancelQueuedJob_def
  by ((intro keeps_intro keeps_statement lawful_queries; simp)+)

lemma keeps_hydrate [keeps_intro]: "keeps P (hydrate_recoveries env now rows)" "keeps P (hydrate_acks now acks)"
proof -
  show "keeps P (hydrate_recoveries env now rows)"
    by (induction env now rows rule: hydrate_recoveries.induct) (auto intro!: keeps_intro)
  show "keeps P (hydrate_acks now acks)"
    by (induction now acks rule: hydrate_acks.induct) (auto intro!: keeps_intro)
qed

end

text \<open>An invariant that admits every send survives every method.\<close>

locale dispatcher_invariant = dispatcher_rules +
  assumes every: "ok a job"
begin

lemma keeps_claims [keeps_intro]:
  assumes "rely P env"
  shows "keeps P (claimBoundJob env a j)" "keeps P (dispatchBoundJob env a j)" "keeps P (drainForAgent env a)"
    "keeps P (onAgentAvailable env a)" "keeps P (dispatch env uuid resources job)"
  using assms unfolding dispatchBoundJob_def
  by (intro keeps_intro keeps_claimBoundJob keeps_drain keeps_dispatch every; assumption)+

lemma keeps_redispatch [keeps_intro]:
  assumes "rely P env"
  shows "keeps P (redispatch env j)" "keeps P (finishRequeue env a j n)" "keeps P (requeueOrFail env a j b)"
    "keeps P (onJobRejected env a j b)"
  using assms unfolding redispatch_def finishRequeue_def requeueOrFail_def onJobRejected_def
  by ((intro keeps_intro; simp)+)

lemma keeps_loops [keeps_intro]:
  assumes "rely P env"
  shows "keeps P (complete_loop env a js)" "keeps P (triage_loop env a js failed)" "keeps P (recovery_loop env a t js)"
proof -
  show "keeps P (complete_loop env a js)"
    using assms by (induction js) (auto intro!: keeps_intro keeps_statement lawful_queries)
  show "keeps P (triage_loop env a js failed)"
  proof (induction js arbitrary: failed)
    case (Cons j js)
    show ?case unfolding triage_loop.simps by (intro keeps_intro Cons.IH assms) simp
  qed (simp add: keeps_ret)
  show "keeps P (recovery_loop env a t js)"
    using assms by (induction js) (auto intro!: keeps_intro)
qed

lemma keeps_drops [keeps_intro]: "keeps P (unregisterIfUnchanged a entry)" "keeps P (dropUnacknowledgingAgent a)"
  unfolding unregisterIfUnchanged_def dropUnacknowledgingAgent_def by (intro keeps_intro)+

lemma keeps_disconnect [keeps_intro]:
  assumes "rely P env"
  shows "keeps P (triage_rest env a entry now)" "keeps P (onAgentDisconnect env a)"
    "keeps P (ack_expired env a j r)" "keeps P (handleAckExpiry env a j r)"
proof -
  show 2: "keeps P (triage_rest env a entry now)" for a entry now
    unfolding triage_rest_def by (intro keeps_intro assms) simp
  show "keeps P (onAgentDisconnect env a)"
    unfolding onAgentDisconnect_def by (intro keeps_intro 2 assms)
  show 4: "keeps P (ack_expired env a j r)" for a j r
    unfolding ack_expired_def by (intro keeps_intro assms keeps_query lawful_queries) simp
  show "keeps P (handleAckExpiry env a j r)"
    unfolding handleAckExpiry_def by (intro keeps_intro 4)
qed

lemma keeps_sweeps [keeps_intro]:
  assumes "rely P env"
  shows "keeps P (sweepExpiredAckDeadlines env)" "keeps P (sweep_recoveries env)" "keeps P (recoverState env)"
proof -
  have 1: "keeps P (ack_sweep_loop env rows n)" for rows n
  proof (induction rows arbitrary: n)
    case (Cons row rows)
    obtain j r agent where row: "row = (j, r, agent)" by (cases row)
    show ?case
      unfolding row ack_sweep_loop.simps
      by (intro keeps_intro keeps_query lawful_queries Cons.IH assms) simp
  qed (simp add: keeps_ret)
  show "keeps P (sweepExpiredAckDeadlines env)"
    unfolding sweepExpiredAckDeadlines_def by (intro keeps_intro 1 assms)
  have 2: "keeps P (recovery_sweep_loop rows)" for rows
    by (induction rows rule: recovery_sweep_loop.induct) (auto intro!: keeps_intro)
  show "keeps P (sweep_recoveries env)"
    unfolding sweep_recoveries_def
    using assms by (intro keeps_intro 2 keeps_statement lawful_queries) (auto simp: rely_def)
  show "keeps P (recoverState env)"
    unfolding recoverState_def by (intro keeps_intro assms)
qed

lemma keeps_redrives [keeps_intro]:
  assumes "rely P env"
  shows "keeps P (retryPendingScaleRequests env m)" "keeps P (redrivePendingJob env j)"
    "keeps P (redrivePendingToConnectedAgents env m)"
proof -
  have offer: "keeps P (offerPendingToScaler env job)" for job
    unfolding offerPendingToScaler_def by (intro keeps_intro assms)
  have 1: "keeps P (offer_loop env jobs n)" for jobs n
    by (induction jobs arbitrary: n) (auto intro!: keeps_intro offer)
  have l: "keeps P (list_pending env m)" for m
    unfolding list_pending_def by (intro keeps_intro assms keeps_query lawful_queries)
  have 2: "keeps P (redrive_loop env jobs n)" for jobs n
  proof (induction jobs arbitrary: n)
    case (Cons job jobs)
    show ?case unfolding redrive_loop.simps by (intro keeps_intro Cons.IH assms)
  qed (simp add: keeps_ret)
  show "keeps P (retryPendingScaleRequests env m)"
    unfolding retryPendingScaleRequests_def by (intro keeps_intro 1 l)
  show "keeps P (redrivePendingJob env j)"
    unfolding redrivePendingJob_def by (intro keeps_intro offer assms)
  show "keeps P (redrivePendingToConnectedAgents env m)"
    unfolding redrivePendingToConnectedAgents_def by (intro keeps_intro 2 l assms keeps_query lawful_queries)
qed

text \<open>A timer that fires, and a statement or triage in flight.\<close>

lemma keeps_fire [keeps_intro]:
  assumes "rely P env"
  shows "keeps P (fire_timer env n)"
proof (rule keepsI)
  fix s assume P: "P s"
  show "P (snd (run_state (fire_timer env n) s))"
  proof (cases "map_of (dp_timers s) n")
    case None
    with P show ?thesis by (simp add: fire_timer_def)
  next
    case (Some e)
    then obtain t u where t: "map_of (dp_timers s) n = Some (t, u)" by (cases e) auto
    show ?thesis
    proof (cases t)
      case (AckTimer a j r)
      note fires = ack_fires [OF P t [unfolded AckTimer]]
      show ?thesis
      proof (cases "case map_of (dp_pendingAcks s) j of None \<Rightarrow> True | Some k \<Rightarrow> pk_agentId k \<noteq> a")
        case True
        with fires t AckTimer show ?thesis
          by (simp add: fire_timer_def handleAckExpiry_def case_prod_beta)
      next
        case False
        let ?s = "s\<lparr>dp_timers := amap_delete n (dp_timers s), dp_pendingAcks := amap_delete j (dp_pendingAcks s)\<rparr>"
        from False fires have "P ?s" by simp
        with keeps_disconnect(3) [OF assms, of a j r] have "P (snd (run_state (ack_expired env a j r) ?s))"
          by (simp add: keeps_def)
        with False t AckTimer show ?thesis
          by (simp add: fire_timer_def handleAckExpiry_def case_prod_beta)
      qed
    next
      case (RecoveryTimer a j)
      let ?s = "s\<lparr>dp_timers := amap_delete n (dp_timers s), dp_recoveringJobs := amap_delete j (dp_recoveringJobs s)\<rparr>"
      let ?r = "case map_of (dp_recoveringJobs s) j of None \<Rightarrow> [] | Some r \<Rightarrow> rc_runId r"
      have "P (forget_job a j ?s)"
        by (rule forget) (rule recovery_fires [OF P t [unfolded RecoveryTimer]])
      with keeps_recovery(5) [OF assms, of a j ?r] have "P (snd (run_state (recovery_expired env a j ?r) (forget_job a j ?s)))"
        by (simp add: keeps_def)
      with t RecoveryTimer show ?thesis
        by (simp add: fire_timer_def handleRecoveryExpiry_def case_prod_beta)
    qed
  qed
qed

lemma keeps_issued [keeps_intro]:
  assumes "rely P env"
  shows "keeps P (run_issued env n)"
proof -
  have 1: "keeps P (modify (\<lambda>s. s\<lparr>dp_issued := f s\<rparr>))" for f by (simp add: keeps_def issues)
  have 2: "keeps P (case i of
          IssuedClearAck j \<Rightarrow> on_db (\<lambda>ck c db. ((), clearAckDeadline j db))
        | IssuedStampAck j deadline a \<Rightarrow> on_db (\<lambda>ck c db. ((), setAckDeadline j deadline a db))
        | IssuedComplete j \<Rightarrow> on_db (\<lambda>ck c db. ((), markCompleted j db))
        | IssuedTriage a entry now \<Rightarrow> do { _ \<leftarrow> triage_rest env a entry now; ret () })" for i
    by (cases i) (auto intro!: keeps_intro keeps_statement lawful_queries assms)
  show ?thesis unfolding run_issued_def by (intro keeps_intro 1 2)
qed

lemma keeps_stop [keeps_intro]: "keeps P stopRecoveryTimers"
  by (simp add: keeps_def stop)

end

end
