(* ===== verification/DispatcherSafety.thy ===== *)
theory DispatcherSafety
  imports DispatchRules
begin

text \<open>
  What the dispatcher promises: its tracking maps and timers fit together, a draining coordinator
  sends nothing, its statements follow the protocol of the shared queue, a pinned job goes to its
  agent, a job whose send failed goes back; and what the code does where it keeps a tracked job
  whose row has moved on.
\<close>

section \<open>The calls of the dispatcher\<close>

datatype call =
    Dispatch job_id "js option" dq_input
  | DispatchBoundJob agent_id job_id
  | AgentAvailable agent_id
  | AgentReconnected agent_id
  | Acked agent_id job_id
  | Rejected agent_id job_id bool
  | Started job_id
  | Completed agent_id job_id
  | Disconnected agent_id
  | Reconcile job_id agent_id
  | StartRecovery job_id agent_id run_id
  | Recover
  | AckSweep
  | RecoverySweep
  | GraceCleanup
  | RetryScale nat
  | RedriveJob job_id
  | RedrivePending nat
  | CancelQueued job_id
  | StopTimers
  | FireTimer nat
  | RunIssued nat

definition forget_result :: "'a act \<Rightarrow> unit act" where
  "forget_result m = do { _ \<leftarrow> m; ret () }"

fun perform :: "'k dispatch_env \<Rightarrow> call \<Rightarrow> unit act" where
  "perform env (Dispatch uuid resources job) = forget_result (dispatch env uuid resources job)"
| "perform env (DispatchBoundJob a j) = forget_result (dispatchBoundJob env a j)"
| "perform env (AgentAvailable a) = forget_result (onAgentAvailable env a)"
| "perform env (AgentReconnected a) = releaseRebootPending env a"
| "perform env (Acked a j) = onJobAcked a j"
| "perform env (Rejected a j busy) = forget_result (onJobRejected env a j busy)"
| "perform env (Started j) = markJobStarted j"
| "perform env (Completed a j) = onJobComplete a j"
| "perform env (Disconnected a) = forget_result (onAgentDisconnect env a)"
| "perform env (Reconcile j a) = forget_result (reconcileRecovery env j a)"
| "perform env (StartRecovery j a r) = startRecoveryTimer env j a r"
| "perform env Recover = recoverState env"
| "perform env AckSweep = forget_result (sweepExpiredAckDeadlines env)"
| "perform env RecoverySweep = forget_result (sweep_recoveries env)"
| "perform env GraceCleanup = cleanupExpiredGraceEntries"
| "perform env (RetryScale m) = forget_result (retryPendingScaleRequests env m)"
| "perform env (RedriveJob j) = forget_result (redrivePendingJob env j)"
| "perform env (RedrivePending m) = forget_result (redrivePendingToConnectedAgents env m)"
| "perform env (CancelQueued j) = cancelQueuedJob env j"
| "perform env StopTimers = stopRecoveryTimers"
| "perform env (FireTimer n) = fire_timer env n"
| "perform env (RunIssued n) = run_issued env n"

context dispatcher_invariant begin

lemma keeps_perform: "rely P env \<Longrightarrow> keeps P (perform env c)"
  unfolding forget_result_def
  by (cases c) (simp_all add: forget_result_def, (intro keeps_intro; assumption)+)

end

text \<open>
  One step of a coordinator: a call whose \<open>await\<close>s are filled with further steps, a step of its
  registry, of the shared queue by any coordinator, or of the clock, and a change of the flags that are set
  elsewhere.
\<close>

inductive dispatcher_step :: "dispatcher \<Rightarrow> dispatcher \<Rightarrow> bool" where
  ds_call: "(\<forall>p s. dispatcher_step\<^sup>*\<^sup>* s (de_others env p s)) \<Longrightarrow> traces (de_dbOthers env)
    \<Longrightarrow> dispatcher_step s (snd (run_state (perform (env :: string dispatch_env) c) s))"
| ds_fleet: "registry_step (dp_registry s) g \<Longrightarrow> dispatcher_step s (s\<lparr>dp_registry := g\<rparr>)"
| ds_queue: "dq_trace (dp_db s) evs db \<Longrightarrow> dispatcher_step s (s\<lparr>dp_db := db\<rparr>)"
| ds_clock: "dispatcher_step s (s\<lparr>dp_clock := ck\<rparr>)"
| ds_world: "dispatcher_step s (s\<lparr>dp_draining := d, dp_peers := p, dp_reboot := m\<rparr>)"

section \<open>The tracking maps and the timers fit together\<close>

definition maps_agree :: "dispatcher \<Rightarrow> bool" where
  "maps_agree s \<longleftrightarrow>
     (\<forall>j a. map_of (dp_jobToAgent s) j = Some a \<longrightarrow> j \<in> set (jobs_of a s))
     \<and> dom (map_of (dp_jobRunIds s)) = dom (map_of (dp_jobToAgent s))
     \<and> set (dp_startedJobs s) \<subseteq> dom (map_of (dp_jobToAgent s))"

text \<open>Each waiting entry has its own timer, armed for it.\<close>

definition armed ::
  "(nat \<Rightarrow> (timer \<times> millis) option) \<Rightarrow> nat \<Rightarrow> (job_id \<Rightarrow> pending_ack option) \<Rightarrow> (job_id \<Rightarrow> recovery option) \<Rightarrow> bool" where
  "armed T N A R \<longleftrightarrow>
     (\<forall>n x. T n = Some x \<longrightarrow> n < N)
     \<and> (\<forall>j k. A j = Some k \<longrightarrow> (\<exists>t. T (pk_timer k) = Some (AckTimer (pk_agentId k) j (pk_runId k), t)))
     \<and> (\<forall>j r. R j = Some r \<longrightarrow> (\<exists>t. T (rc_timer r) = Some (RecoveryTimer (rc_agentId r) j, t)))"

definition timers_armed :: "dispatcher \<Rightarrow> bool" where
  "timers_armed s \<longleftrightarrow>
     armed (map_of (dp_timers s)) (dp_nextTimer s) (map_of (dp_pendingAcks s)) (map_of (dp_recoveringJobs s))"

definition tracking_inv :: "dispatcher \<Rightarrow> bool" where
  "tracking_inv s \<longleftrightarrow> maps_agree s \<and> timers_armed s \<and> length (dp_completedJobs s) \<le> COMPLETED_JOBS_CAP
     \<and> registry_inv (dp_registry s)"

lemma jobs_of_forget: "jobs_of b (forget_job a j s) = (if b = a then filter (\<lambda>x. x \<noteq> j) (jobs_of a s) else jobs_of b s)"
  by (auto simp: jobs_of_def forget_job_def drop_from_agent_def Let_def split: option.split)

lemma run_track: "snd (run_state (trackJobForAgent a j r) s) =
    s\<lparr>dp_jobToAgent := amap_set j a (dp_jobToAgent s), dp_jobRunIds := amap_set j r (dp_jobRunIds s),
      dp_agentJobs := amap_set a (js_add j (jobs_of a s)) (dp_agentJobs s)\<rparr>"
  by (simp add: trackJobForAgent_def)

lemma length_amap_set: "length (amap_set k v m) = (if k \<in> fst ` set m then length m else Suc (length m))"
  by (induction k v m rule: amap_set.induct) auto

lemma length_remember: "length m \<le> COMPLETED_JOBS_CAP \<Longrightarrow> length (remember_completed j g m) \<le> COMPLETED_JOBS_CAP"
  by (auto simp: remember_completed_def Let_def length_amap_set)

lemma run_arm_ack: "snd (run_state (arm_ack a j r d) s) =
    s\<lparr>dp_timers := amap_set (dp_nextTimer s) (AckTimer a j r, nowMs s + d) (dp_timers s),
      dp_nextTimer := Suc (dp_nextTimer s),
      dp_pendingAcks := amap_set j \<lparr>pk_agentId = a, pk_runId = r, pk_timer = dp_nextTimer s\<rparr> (dp_pendingAcks s)\<rparr>"
  by (simp add: arm_ack_def setTimeout_def)

lemma run_arm_recovery: "snd (run_state (arm_recovery a j r d t) s) =
    s\<lparr>dp_timers := amap_set (dp_nextTimer s) (RecoveryTimer a j, nowMs s + d) (dp_timers s),
      dp_nextTimer := Suc (dp_nextTimer s),
      dp_recoveringJobs := amap_set j \<lparr>rc_agentId = a, rc_runId = r, rc_timer = dp_nextTimer s,
         rc_disconnectedAt = t\<rparr> (dp_recoveringJobs s)\<rparr>"
  by (simp add: arm_recovery_def setTimeout_def)

lemma run_drop_pending: "snd (run_state (drop_pending j) s) =
    (case map_of (dp_pendingAcks s) j of None \<Rightarrow> s
     | Some k \<Rightarrow> s\<lparr>dp_timers := amap_delete (pk_timer k) (dp_timers s),
                  dp_pendingAcks := amap_delete j (dp_pendingAcks s)\<rparr>)"
  by (simp add: drop_pending_def split: option.split)

lemma run_drop_recovery: "snd (run_state (drop_recovery j) s) =
    (case map_of (dp_recoveringJobs s) j of None \<Rightarrow> s
     | Some k \<Rightarrow> s\<lparr>dp_timers := amap_delete (rc_timer k) (dp_timers s),
                  dp_recoveringJobs := amap_delete j (dp_recoveringJobs s)\<rparr>)"
  by (simp add: drop_recovery_def split: option.split)

lemma maps_agree_cong:
  "maps_agree s \<Longrightarrow> dp_jobToAgent s' = dp_jobToAgent s \<Longrightarrow> dp_jobRunIds s' = dp_jobRunIds s
   \<Longrightarrow> dp_startedJobs s' = dp_startedJobs s \<Longrightarrow> dp_agentJobs s' = dp_agentJobs s \<Longrightarrow> maps_agree s'"
  by (simp add: maps_agree_def jobs_of_def)

lemma timers_armed_cong:
  "timers_armed s \<Longrightarrow> dp_timers s' = dp_timers s \<Longrightarrow> dp_nextTimer s' = dp_nextTimer s
   \<Longrightarrow> dp_pendingAcks s' = dp_pendingAcks s \<Longrightarrow> dp_recoveringJobs s' = dp_recoveringJobs s \<Longrightarrow> timers_armed s'"
  by (simp add: timers_armed_def)

lemma jobs_of_track: "jobs_of b (snd (run_state (trackJobForAgent a j r) s)) =
    (if b = a then js_add j (jobs_of a s) else jobs_of b s)"
  by (simp add: run_track jobs_of_def)

lemma maps_agree_track: "maps_agree s \<Longrightarrow> maps_agree (snd (run_state (trackJobForAgent a j r) s))"
  unfolding maps_agree_def jobs_of_track by (auto simp: run_track)

lemma forget_fields [simp]:
  "dp_jobToAgent (forget_job a j s) = amap_delete j (dp_jobToAgent s)"
  "dp_jobRunIds (forget_job a j s) = amap_delete j (dp_jobRunIds s)"
  "dp_startedJobs (forget_job a j s) = filter (\<lambda>x. x \<noteq> j) (dp_startedJobs s)"
  "dp_timers (forget_job a j s) = dp_timers s" "dp_nextTimer (forget_job a j s) = dp_nextTimer s"
  "dp_pendingAcks (forget_job a j s) = dp_pendingAcks s" "dp_recoveringJobs (forget_job a j s) = dp_recoveringJobs s"
  "dp_completedJobs (forget_job a j s) = dp_completedJobs s" "dp_registry (forget_job a j s) = dp_registry s"
  "dp_db (forget_job a j s) = dp_db s" "dp_out (forget_job a j s) = dp_out s" "dp_draining (forget_job a j s) = dp_draining s"
  by (simp_all add: forget_job_def)

lemma maps_agree_forget:
  assumes "maps_agree s"
  shows "maps_agree (forget_job a j s)"
proof -
  have "\<forall>j' b. map_of (dp_jobToAgent (forget_job a j s)) j' = Some b \<longrightarrow> j' \<in> set (jobs_of b (forget_job a j s))"
    using assms by (auto simp: maps_agree_def jobs_of_forget forget_fields split: if_splits)
  with assms show ?thesis by (auto simp: maps_agree_def)
qed

lemma maps_agree_start: "maps_agree s \<Longrightarrow> map_of (dp_jobToAgent s) j \<noteq> None
    \<Longrightarrow> maps_agree (s\<lparr>dp_startedJobs := js_add j (dp_startedJobs s)\<rparr>)"
  by (auto simp: maps_agree_def jobs_of_def dom_def)

lemma armedD:
  assumes "armed T N A R"
  shows "T n = Some x \<Longrightarrow> n < N"
    and "A j = Some k \<Longrightarrow> \<exists>t. T (pk_timer k) = Some (AckTimer (pk_agentId k) j (pk_runId k), t)"
    and "R j = Some r \<Longrightarrow> \<exists>t. T (rc_timer r) = Some (RecoveryTimer (rc_agentId r) j, t)"
  using assms unfolding armed_def by blast+

lemma armedI:
  assumes "\<And>n x. T n = Some x \<Longrightarrow> n < N"
    and "\<And>j k. A j = Some k \<Longrightarrow> \<exists>t. T (pk_timer k) = Some (AckTimer (pk_agentId k) j (pk_runId k), t)"
    and "\<And>j r. R j = Some r \<Longrightarrow> \<exists>t. T (rc_timer r) = Some (RecoveryTimer (rc_agentId r) j, t)"
  shows "armed T N A R"
  using assms unfolding armed_def by blast

lemma armed_old: "armed T N A R \<Longrightarrow> A j = Some k \<Longrightarrow> pk_timer k < N"
  "armed T N A R \<Longrightarrow> R j = Some r \<Longrightarrow> rc_timer r < N"
  by (blast dest: armedD)+

lemma armed_set_ack:
  assumes a: "armed T N A R"
  shows "armed (T(N \<mapsto> (AckTimer a j r, t))) (Suc N) (A(j \<mapsto> \<lparr>pk_agentId = a, pk_runId = r, pk_timer = N\<rparr>)) R"
proof (rule armedI)
  fix j' k assume k: "(A(j \<mapsto> \<lparr>pk_agentId = a, pk_runId = r, pk_timer = N\<rparr>)) j' = Some k"
  then show "\<exists>u. (T(N \<mapsto> (AckTimer a j r, t))) (pk_timer k) = Some (AckTimer (pk_agentId k) j' (pk_runId k), u)"
    using armed_old(1) [OF a, of j' k] armedD(2) [OF a, of j' k] by (cases "j' = j") auto
next
  fix j' k assume "R j' = Some k"
  then show "\<exists>u. (T(N \<mapsto> (AckTimer a j r, t))) (rc_timer k) = Some (RecoveryTimer (rc_agentId k) j', u)"
    using armed_old(2) [OF a, of j' k] armedD(3) [OF a, of j' k] by auto
qed (use armedD(1) [OF a] in \<open>auto simp: less_Suc_eq split: if_splits\<close>)

lemma armed_set_recovery:
  assumes a: "armed T N A R"
  shows "armed (T(N \<mapsto> (RecoveryTimer a j, t))) (Suc N) A
           (R(j \<mapsto> \<lparr>rc_agentId = a, rc_runId = r, rc_timer = N, rc_disconnectedAt = u\<rparr>))"
proof (rule armedI)
  fix j' k assume k: "(R(j \<mapsto> \<lparr>rc_agentId = a, rc_runId = r, rc_timer = N, rc_disconnectedAt = u\<rparr>)) j' = Some k"
  then show "\<exists>u. (T(N \<mapsto> (RecoveryTimer a j, t))) (rc_timer k) = Some (RecoveryTimer (rc_agentId k) j', u)"
    using armed_old(2) [OF a, of j' k] armedD(3) [OF a, of j' k] by (cases "j' = j") auto
next
  fix j' k assume "A j' = Some k"
  then show "\<exists>u. (T(N \<mapsto> (RecoveryTimer a j, t))) (pk_timer k) = Some (AckTimer (pk_agentId k) j' (pk_runId k), u)"
    using armed_old(1) [OF a, of j' k] armedD(2) [OF a, of j' k] by auto
qed (use armedD(1) [OF a] in \<open>auto simp: less_Suc_eq split: if_splits\<close>)

text \<open>Removing a timer leaves armed what it was not armed for.\<close>

lemma armed_remove:
  assumes a: "armed T N A R"
    and A: "\<And>j k. A' j = Some k \<Longrightarrow> A j = Some k \<and> pk_timer k \<noteq> n"
    and R: "\<And>j r. R' j = Some r \<Longrightarrow> R j = Some r \<and> rc_timer r \<noteq> n"
  shows "armed (T(n := None)) N A' R'"
proof (rule armedI)
  fix j k assume "A' j = Some k"
  then show "\<exists>t. (T(n := None)) (pk_timer k) = Some (AckTimer (pk_agentId k) j (pk_runId k), t)"
    using A [of j k] armedD(2) [OF a, of j k] by auto
next
  fix j k assume "R' j = Some k"
  then show "\<exists>t. (T(n := None)) (rc_timer k) = Some (RecoveryTimer (rc_agentId k) j, t)"
    using R [of j k] armedD(3) [OF a, of j k] by auto
qed (use armedD(1) [OF a] in \<open>auto split: if_splits\<close>)

lemma timer_of_ack:
  assumes a: "armed T N A R" and n: "T n = Some (AckTimer b j r, t)"
  shows "A j' = Some k \<Longrightarrow> pk_timer k = n \<Longrightarrow> j' = j \<and> pk_agentId k = b" and "R j' = Some q \<Longrightarrow> rc_timer q \<noteq> n"
  using armedD(2) [OF a, of j' k] armedD(3) [OF a, of j' q] n by auto

lemma timer_of_recovery:
  assumes a: "armed T N A R" and n: "T n = Some (RecoveryTimer b j, t)"
  shows "R j' = Some q \<Longrightarrow> rc_timer q = n \<Longrightarrow> j' = j" and "A j' = Some k \<Longrightarrow> pk_timer k \<noteq> n"
  using armedD(2) [OF a, of j' k] armedD(3) [OF a, of j' q] n by auto

lemma armed_drop_ack: "armed T N A R \<Longrightarrow> A j = Some k \<Longrightarrow> armed (T(pk_timer k := None)) N (A(j := None)) R"
  using armedD(2) [of T N A R j k] by (auto intro!: armed_remove dest: timer_of_ack split: if_splits)

lemma armed_drop_rec: "armed T N A R \<Longrightarrow> R j = Some r \<Longrightarrow> armed (T(rc_timer r := None)) N A (R(j := None))"
  using armedD(3) [of T N A R j r] by (auto intro!: armed_remove dest: timer_of_recovery split: if_splits)

lemma armed_fewer:
  "armed T N A R \<Longrightarrow> armed T N (A(j := None)) R" "armed T N A R \<Longrightarrow> armed T N A (R(j := None))"
  "(\<And>n. T' n \<noteq> None \<Longrightarrow> T n \<noteq> None) \<Longrightarrow> armed T N A R \<Longrightarrow> armed T' N (\<lambda>_. None) (\<lambda>_. None)"
  by (auto simp: armed_def)

lemma map_of_filter_some: "map_of (filter q m) n \<noteq> None \<Longrightarrow> map_of m n \<noteq> None"
  by (induction m) (auto split: if_splits)

lemma armed_ack_fires:
  assumes a: "armed T N A R" and n: "T n = Some (AckTimer b j r, t)"
  shows "if (case A j of None \<Rightarrow> True | Some k \<Rightarrow> pk_agentId k \<noteq> b) then armed (T(n := None)) N A R
         else armed (T(n := None)) N (A(j := None)) R"
proof (cases "case A j of None \<Rightarrow> True | Some k \<Rightarrow> pk_agentId k \<noteq> b")
  case True
  have "A j' = Some k \<and> pk_timer k \<noteq> n" if "A j' = Some k" for j' k
    using that True timer_of_ack(1) [OF a n that] by auto
  moreover have "R j' = Some q \<and> rc_timer q \<noteq> n" if "R j' = Some q" for j' q
    using that timer_of_ack(2) [OF a n that] by simp
  ultimately show ?thesis using True by (simp add: armed_remove [OF a])
next
  case False
  have "A j' = Some k \<and> pk_timer k \<noteq> n" if "(A(j := None)) j' = Some k" for j' k
  proof -
    from that have "j' \<noteq> j" and k: "A j' = Some k" by (auto split: if_splits)
    then show ?thesis using timer_of_ack(1) [OF a n k] by blast
  qed
  moreover have "R j' = Some q \<and> rc_timer q \<noteq> n" if "R j' = Some q" for j' q
    using that timer_of_ack(2) [OF a n that] by simp
  ultimately have "armed (T(n := None)) N (A(j := None)) R" by (rule armed_remove [OF a])
  with False show ?thesis by (simp only: if_False)
qed

lemma armed_recovery_fires:
  assumes a: "armed T N A R" and n: "T n = Some (RecoveryTimer b j, t)"
  shows "armed (T(n := None)) N A (R(j := None))"
proof (rule armed_remove [OF a])
  fix j' k assume "A j' = Some k"
  then show "A j' = Some k \<and> pk_timer k \<noteq> n" using timer_of_recovery(2) [OF a n, of j' k] by simp
next
  fix j' q assume "(R(j := None)) j' = Some q"
  then have "j' \<noteq> j" and q: "R j' = Some q" by (auto split: if_splits)
  then show "R j' = Some q \<and> rc_timer q \<noteq> n" using timer_of_recovery(1) [OF a n q] by blast
qed

lemma tracking_cong:
  "tracking_inv s \<Longrightarrow> dp_jobToAgent s' = dp_jobToAgent s \<Longrightarrow> dp_jobRunIds s' = dp_jobRunIds s
   \<Longrightarrow> dp_startedJobs s' = dp_startedJobs s \<Longrightarrow> dp_agentJobs s' = dp_agentJobs s
   \<Longrightarrow> dp_timers s' = dp_timers s \<Longrightarrow> dp_nextTimer s' = dp_nextTimer s
   \<Longrightarrow> dp_pendingAcks s' = dp_pendingAcks s \<Longrightarrow> dp_recoveringJobs s' = dp_recoveringJobs s
   \<Longrightarrow> length (dp_completedJobs s') \<le> COMPLETED_JOBS_CAP \<Longrightarrow> registry_inv (dp_registry s') \<Longrightarrow> tracking_inv s'"
  unfolding tracking_inv_def by (auto elim: maps_agree_cong timers_armed_cong)

lemma tracking_parts:
  "tracking_inv s \<Longrightarrow> length (dp_completedJobs s) \<le> COMPLETED_JOBS_CAP"
  "tracking_inv s \<Longrightarrow> registry_inv (dp_registry s)"
  by (simp_all add: tracking_inv_def)

lemma tracking_maps:
  "tracking_inv s \<Longrightarrow> maps_agree s' \<Longrightarrow> dp_timers s' = dp_timers s \<Longrightarrow> dp_nextTimer s' = dp_nextTimer s
   \<Longrightarrow> dp_pendingAcks s' = dp_pendingAcks s \<Longrightarrow> dp_recoveringJobs s' = dp_recoveringJobs s
   \<Longrightarrow> dp_completedJobs s' = dp_completedJobs s \<Longrightarrow> dp_registry s' = dp_registry s \<Longrightarrow> tracking_inv s'"
  unfolding tracking_inv_def by (auto elim: timers_armed_cong)

lemma tracking_timers:
  "tracking_inv s \<Longrightarrow> timers_armed s' \<Longrightarrow> dp_jobToAgent s' = dp_jobToAgent s \<Longrightarrow> dp_jobRunIds s' = dp_jobRunIds s
   \<Longrightarrow> dp_startedJobs s' = dp_startedJobs s \<Longrightarrow> dp_agentJobs s' = dp_agentJobs s
   \<Longrightarrow> dp_completedJobs s' = dp_completedJobs s \<Longrightarrow> dp_registry s' = dp_registry s \<Longrightarrow> tracking_inv s'"
  unfolding tracking_inv_def by (auto elim: maps_agree_cong)

lemma tracking_armed: "tracking_inv s \<Longrightarrow>
    armed (map_of (dp_timers s)) (dp_nextTimer s) (map_of (dp_pendingAcks s)) (map_of (dp_recoveringJobs s))"
  by (simp add: tracking_inv_def timers_armed_def)

lemma tracking_frame [simp]:
  "tracking_inv (s\<lparr>dp_queue := c\<rparr>) = tracking_inv s" "tracking_inv (s\<lparr>dp_db := db\<rparr>) = tracking_inv s"
  "tracking_inv (s\<lparr>dp_out := es\<rparr>) = tracking_inv s" "tracking_inv (s\<lparr>dp_issued := todo\<rparr>) = tracking_inv s"
  "tracking_inv (s\<lparr>dp_earlyAcks := m\<rparr>) = tracking_inv s" "tracking_inv (s\<lparr>dp_redriveInFlight := b\<rparr>) = tracking_inv s"
  "tracking_inv (s\<lparr>dp_pendingRedriveInFlight := b\<rparr>) = tracking_inv s" "tracking_inv (s\<lparr>dp_reboot := r\<rparr>) = tracking_inv s"
  "tracking_inv (s\<lparr>dp_clock := ck\<rparr>) = tracking_inv s"
  "tracking_inv (s\<lparr>dp_draining := b\<rparr>) = tracking_inv s" "tracking_inv (s\<lparr>dp_peers := b\<rparr>) = tracking_inv s"
  by (simp_all add: tracking_inv_def maps_agree_def timers_armed_def jobs_of_def)

interpretation tracking: dispatcher_invariant tracking_inv "\<lambda>_ _. True"
proof unfold_locales
  fix s g' assume i: "tracking_inv s" and "registry_step (dp_registry s) g'"
  then show "tracking_inv (s\<lparr>dp_registry := g'\<rparr>)"
    by (elim tracking_cong) (auto simp: tracking_parts [OF i] intro: registry_step_inv)
next
  fix s a j r assume i: "tracking_inv s"
  then have "maps_agree (snd (run_state (trackJobForAgent a j r) s))" by (simp add: tracking_inv_def maps_agree_track)
  with i show "tracking_inv (snd (run_state (trackJobForAgent a j r) s))"
    by (rule tracking_maps) (simp_all add: run_track)
next
  fix s a j assume i: "tracking_inv s"
  then have "maps_agree (forget_job a j s)" by (simp add: tracking_inv_def maps_agree_forget)
  with i show "tracking_inv (forget_job a j s)" by (rule tracking_maps) simp_all
next
  fix s j assume i: "tracking_inv s" and "map_of (dp_jobToAgent s) j \<noteq> None"
  then have "maps_agree (s\<lparr>dp_startedJobs := js_add j (dp_startedJobs s)\<rparr>)"
    by (auto simp: tracking_inv_def intro: maps_agree_start)
  with i show "tracking_inv (s\<lparr>dp_startedJobs := js_add j (dp_startedJobs s)\<rparr>)" by (rule tracking_maps) simp_all
next
  fix s a j r delay assume i: "tracking_inv s"
  from armed_set_ack [OF tracking_armed [OF i], of a j r "nowMs s + delay"]
  have "timers_armed (snd (run_state (arm_ack a j r delay) s))" by (simp add: timers_armed_def run_arm_ack)
  with i show "tracking_inv (snd (run_state (arm_ack a j r delay) s))" by (rule tracking_timers) (simp_all add: run_arm_ack)
next
  fix s a j r delay t assume i: "tracking_inv s"
  from armed_set_recovery [OF tracking_armed [OF i], of a j "nowMs s + delay" r t]
  have "timers_armed (snd (run_state (arm_recovery a j r delay t) s))" by (simp add: timers_armed_def run_arm_recovery)
  with i show "tracking_inv (snd (run_state (arm_recovery a j r delay t) s))"
    by (rule tracking_timers) (simp_all add: run_arm_recovery)
next
  fix s j assume i: "tracking_inv s"
  have "timers_armed (snd (run_state (drop_pending j) s))"
    using armed_drop_ack [OF tracking_armed [OF i], of j] i
    by (auto simp: run_drop_pending timers_armed_def tracking_inv_def split: option.split)
  with i show "tracking_inv (snd (run_state (drop_pending j) s))"
    by (rule tracking_timers) (simp_all add: run_drop_pending split: option.split)
next
  fix s j assume i: "tracking_inv s"
  have "timers_armed (snd (run_state (drop_recovery j) s))"
    using armed_drop_rec [OF tracking_armed [OF i], of j] i
    by (auto simp: run_drop_recovery timers_armed_def tracking_inv_def split: option.split)
  with i show "tracking_inv (snd (run_state (drop_recovery j) s))"
    by (rule tracking_timers) (simp_all add: run_drop_recovery split: option.split)
next
  fix s j assume i: "tracking_inv s"
  have "timers_armed (s\<lparr>dp_pendingAcks := amap_delete j (dp_pendingAcks s)\<rparr>)"
    using armed_fewer(1) [OF tracking_armed [OF i], of j] by (simp add: timers_armed_def)
  with i show "tracking_inv (s\<lparr>dp_pendingAcks := amap_delete j (dp_pendingAcks s)\<rparr>)"
    by (rule tracking_timers) simp_all
next
  fix s j assume i: "tracking_inv s"
  have "timers_armed (s\<lparr>dp_recoveringJobs := amap_delete j (dp_recoveringJobs s)\<rparr>)"
    using armed_fewer(2) [OF tracking_armed [OF i], of j] by (simp add: timers_armed_def)
  with i show "tracking_inv (s\<lparr>dp_recoveringJobs := amap_delete j (dp_recoveringJobs s)\<rparr>)"
    by (rule tracking_timers) simp_all
next
  fix s n a j r t assume i: "tracking_inv s" and n: "map_of (dp_timers s) n = Some (AckTimer a j r, t)"
  let ?b = "case map_of (dp_pendingAcks s) j of None \<Rightarrow> True | Some k \<Rightarrow> pk_agentId k \<noteq> a"
  let ?s1 = "s\<lparr>dp_timers := amap_delete n (dp_timers s)\<rparr>"
  let ?s2 = "s\<lparr>dp_timers := amap_delete n (dp_timers s), dp_pendingAcks := amap_delete j (dp_pendingAcks s)\<rparr>"
  have "if ?b then timers_armed ?s1 else timers_armed ?s2"
    using armed_ack_fires [OF tracking_armed [OF i] n] by (simp add: timers_armed_def)
  then show "if ?b then tracking_inv ?s1 else tracking_inv ?s2"
    using tracking_timers [OF i, of ?s1] tracking_timers [OF i, of ?s2] by (simp split: if_splits)
next
  fix s n a j t assume i: "tracking_inv s" and n: "map_of (dp_timers s) n = Some (RecoveryTimer a j, t)"
  let ?s = "s\<lparr>dp_timers := amap_delete n (dp_timers s), dp_recoveringJobs := amap_delete j (dp_recoveringJobs s)\<rparr>"
  have "timers_armed ?s"
    using armed_recovery_fires [OF tracking_armed [OF i] n] by (simp add: timers_armed_def)
  with i show "tracking_inv ?s" by (rule tracking_timers) simp_all
next
  fix s j g assume i: "tracking_inv s"
  show "tracking_inv (s\<lparr>dp_completedJobs := remember_completed j g (dp_completedJobs s)\<rparr>)"
    using i by (rule tracking_cong) (simp_all add: tracking_parts [OF i] length_remember)
next
  fix s q assume i: "tracking_inv s"
  have "length (filter q (dp_completedJobs s)) \<le> COMPLETED_JOBS_CAP"
    using tracking_parts(1) [OF i] length_filter_le [of q "dp_completedJobs s"] by linarith
  with i show "tracking_inv (s\<lparr>dp_completedJobs := filter q (dp_completedJobs s)\<rparr>)"
    by (elim tracking_cong) (simp_all add: tracking_parts [OF i])
next
  fix s assume i: "tracking_inv s"
  have "timers_armed (snd (run_state stopRecoveryTimers s))"
    using armed_fewer(3) [OF map_of_filter_some tracking_armed [OF i]] by (simp add: stopRecoveryTimers_def timers_armed_def)
  with i show "tracking_inv (snd (run_state stopRecoveryTimers s))"
    by (rule tracking_timers) (simp_all add: stopRecoveryTimers_def)
qed simp_all

section \<open>Reachable states\<close>

definition dispatcher_init :: "dispatcher \<Rightarrow> bool" where
  "dispatcher_init s \<longleftrightarrow> dp_agentJobs s = [] \<and> dp_jobToAgent s = [] \<and> dp_jobRunIds s = [] \<and> dp_completedJobs s = []
     \<and> dp_pendingAcks s = [] \<and> dp_earlyAcks s = [] \<and> dp_startedJobs s = [] \<and> dp_recoveringJobs s = []
     \<and> dp_timers s = [] \<and> dp_nextTimer s = 0 \<and> dp_issued s = [] \<and> registry_init (dp_registry s)"

text \<open>
  An invariant of the contract that the world's own steps keep is kept by every step: the steps
  inside the \<open>await\<close>s of a call keep it by induction, which is what the call relies on.
\<close>

context dispatcher_invariant begin

lemma keeps_step:
  assumes "dispatcher_step s s'" and "P s"
    and world: "\<And>s ck. P s \<Longrightarrow> P (s\<lparr>dp_clock := ck\<rparr>)" "\<And>s d p m. P s \<Longrightarrow> P (s\<lparr>dp_draining := d, dp_peers := p, dp_reboot := m\<rparr>)"
  shows "P s'"
  using assms(1,2)
proof (induction rule: dispatcher_step.induct)
  case (ds_call env s c)
  have run: "P t \<Longrightarrow> P t'" if "(\<lambda>s s'. dispatcher_step s s' \<and> (P s \<longrightarrow> P s'))\<^sup>*\<^sup>* t t'" for t t'
    using that by (induction rule: rtranclp_induct) simp_all
  have "P (de_others env p t)" if "P t" for p t
    by (rule run [OF ds_call.IH [rule_format] that])
  with ds_call.hyps have "rely P env" by (simp add: rely_def)
  then show ?case using keeps_perform [of env c] ds_call.prems by (simp add: keeps_def)
next
  case (ds_fleet s g)
  then show ?case by (blast intro: fleet_step)
next
  case (ds_queue s evs db)
  then show ?case using queue_step [of s evs db "dp_queue s"] by simp
qed (simp_all add: world)

end

lemma dispatcher_init_tracking: "dispatcher_init s \<Longrightarrow> tracking_inv s"
  by (simp add: dispatcher_init_def tracking_inv_def maps_agree_def timers_armed_def armed_def fleet.init_inv)

interpretation tracked: inductive_invariant dispatcher_init dispatcher_step tracking_inv
proof unfold_locales
  fix s t assume "tracking_inv s" and "dispatcher_step s t"
  then show "tracking_inv t" by (intro tracking.keeps_step [of s t]) simp_all
qed (rule dispatcher_init_tracking)

text \<open>
  C31. In every reachable state of a dispatcher, whatever ran at the \<open>await\<close>s: the agent that a
  job is tracked to has the job in its set, a job has a tracked run exactly when it has a tracked
  agent, only tracked jobs count as started, the grace window is within its cap, and every
  dispatch that waits for an acknowledgement and every job that waits for its agent to come back
  has its own timer armed, so neither waits for ever.
\<close>

theorem dispatcher_tracking_consistent:
  assumes "reach dispatcher_init dispatcher_step s"
  shows "(\<forall>a j. getAgentIdForJob j s = Some a \<longrightarrow> isJobOwnedByAgent a j s)
    \<and> (\<forall>j. map_of (dp_jobRunIds s) j \<noteq> None \<longleftrightarrow> getAgentIdForJob j s \<noteq> None)
    \<and> (\<forall>j \<in> set (dp_startedJobs s). getAgentIdForJob j s \<noteq> None)
    \<and> length (dp_completedJobs s) \<le> COMPLETED_JOBS_CAP
    \<and> (\<forall>j k. map_of (dp_pendingAcks s) j = Some k \<longrightarrow>
         (\<exists>t. map_of (dp_timers s) (pk_timer k) = Some (AckTimer (pk_agentId k) j (pk_runId k), t)))
    \<and> (\<forall>j r. map_of (dp_recoveringJobs s) j = Some r \<longrightarrow>
         (\<exists>t. map_of (dp_timers s) (rc_timer r) = Some (RecoveryTimer (rc_agentId r) j, t)))"
proof -
  from tracked.reach_inv [OF assms] have i: "tracking_inv s" .
  then have m: "maps_agree s" by (simp add: tracking_inv_def)
  then have "(\<forall>a j. getAgentIdForJob j s = Some a \<longrightarrow> isJobOwnedByAgent a j s)"
    by (simp add: maps_agree_def getAgentIdForJob_def isJobOwnedByAgent_def)
  moreover from m have "\<forall>j. map_of (dp_jobRunIds s) j \<noteq> None \<longleftrightarrow> getAgentIdForJob j s \<noteq> None"
    and "\<forall>j \<in> set (dp_startedJobs s). getAgentIdForJob j s \<noteq> None"
    unfolding maps_agree_def getAgentIdForJob_def by blast+
  ultimately show ?thesis
    using tracking_parts(1) [OF i] armedD [OF tracking_armed [OF i]] by simp
qed

section \<open>A draining coordinator\<close>

fun sends :: "dispatch_effect list \<Rightarrow> (agent_id \<times> dq_job) list" where
  "sends [] = []"
| "sends (CallOnDispatch a job # es) = (a, job) # sends es"
| "sends (e # es) = sends es"

lemma sends_append [simp]: "sends (es @ es') = sends es @ sends es'"
  by (induction es rule: sends.induct) simp_all

lemma sends_none: "\<forall>a job. CallOnDispatch a job \<notin> set es \<Longrightarrow> sends es = []"
  by (induction es rule: sends.induct) auto

definition stays_drained :: "(agent_id \<times> dq_job) list \<Rightarrow> dispatcher \<Rightarrow> bool" where
  "stays_drained sent s \<longleftrightarrow> dp_draining s \<and> sends (dp_out s) = sent"

lemmas run_tracking = run_track run_arm_ack run_arm_recovery run_drop_pending run_drop_recovery

interpretation drained: dispatcher_invariant "stays_drained sent" "\<lambda>_ _. True"
  by unfold_locales (auto simp: stays_drained_def sends_none run_tracking stopRecoveryTimers_def split: option.split)


section \<open>The dispatcher follows the protocol of the queue\<close>

definition from_db :: "dq_db \<Rightarrow> dispatcher \<Rightarrow> bool" where
  "from_db db s \<longleftrightarrow> (\<exists>evs. dq_trace db evs (dp_db s))"

interpretation protocol: dispatcher_invariant "from_db db" "\<lambda>_ _. True"
  by unfold_locales
     (auto simp: from_db_def run_tracking stopRecoveryTimers_def intro: trace_append split: option.split)


section \<open>Pins\<close>

text \<open>An empty pin is no pin.\<close>

definition pin_ok :: "agent_id \<Rightarrow> dq_job \<Rightarrow> bool" where
  "pin_ok a job \<longleftrightarrow> qj_pinnedAgentId job \<in> {None, Some [], Some a}"

definition pins_respected :: "dispatcher \<Rightarrow> bool" where
  "pins_respected s \<longleftrightarrow> (\<forall>(a, job) \<in> set (sends (dp_out s)). pin_ok a job)"

interpretation pins: dispatcher_rules pins_respected pin_ok
  by unfold_locales
     (auto simp: pins_respected_def sends_none run_tracking stopRecoveryTimers_def split: option.split)

lemma claim_first_row:
  "fst (claim_first env others ck c agent ok rows db) = Some job \<Longrightarrow> \<exists>r \<in> set rows. job = rowToQueuedJob env r"
  by (induction env others ck c agent ok rows db rule: claim_first.induct) (auto split: if_splits prod.splits)

lemma pin_of_row [simp]: "qj_pinnedAgentId (rowToQueuedJob env r) = dq_pinned_agent_id r"
  by (simp add: rowToQueuedJob_def split: prod.split)

lemma pin_of_claimed [simp]: "dq_pinned_agent_id (claimTransition ck c a r) = dq_pinned_agent_id r"
  by (simp add: claimTransition_def)

lemma oldest_row: "r \<in> set (oldest n locked P db) \<Longrightarrow> P r"
  by (auto simp: oldest_def dest: in_set_takeD)

lemma drain_pin: "drainBaseQuery ck skip db ls ms (Some a) r \<Longrightarrow> dq_pinned_agent_id r \<in> {None, Some [], Some a}"
  by (auto simp: drainBaseQuery_def Let_def)

lemma dequeue_pinned_ok:
  assumes "fst (dequeueByPinnedAgent q others ck c locked a ls db) = Some job"
  shows "pin_ok a job"
proof -
  have "\<exists>r \<in> set (oldest 1 locked (pinned_query ck (fst (deferredFilter ck c)) db a) db). job = rowToQueuedJob q r"
    using assms by (auto simp: dequeueByPinnedAgent_def claim_checked_def case_prod_beta dest!: claim_first_row in_set_takeD)
  then show ?thesis by (auto simp: pin_ok_def pinned_query_def dest: oldest_row)
qed

text \<open>A row that a drain selects may run on the agent that drains.\<close>

lemma drained_row_ok:
  "r \<in> set (oldest n locked P d) \<Longrightarrow> (\<And>r. P r \<Longrightarrow> drainBaseQuery ck skip d ls ms (Some a) r)
    \<Longrightarrow> pin_ok a (rowToQueuedJob q r) \<and> pin_ok a (rowToQueuedJob q (claimTransition ck c b r))"
  using drain_pin [of ck skip d ls ms a r] oldest_row [of r n locked P d] by (simp add: pin_ok_def)

lemma dequeue_labels_ok:
  assumes "fst (dequeueForLabels q others ck c locked ls ms (Some a) serve db) = Some job"
  shows "pin_ok a job"
proof -
  obtain skip c' where d: "deferredFilter ck c = (skip, c')" by (cases "deferredFilter ck c")
  have post: "pin_ok a job" if "fst (claimWithPostFilter q others ck c' skip locked ls ms (Some a) sv d) = Some job" for sv d
    using claim_first_row [OF that [unfolded claimWithPostFilter_def]] drained_row_ok by blast
  have patterns: "pin_ok a job" if "fst (claimWithPatterns q others ck c' skip locked ls ms (Some a) d) = Some job" for d
    using claim_first_row [OF that [unfolded claimWithPatterns_def]] drained_row_ok by blast
  have free: "pin_ok a job" if c: "fst (claimPatternFree q ck c' skip locked ls ms (Some a) d) = Some job" for d
  proof -
    let ?rows = "oldest 1 locked (\<lambda>r. drainBaseQuery ck skip d ls ms (Some a) r \<and> pattern_free r) d"
    from c obtain r rs where "?rows = r # rs" and job: "job = rowToQueuedJob q (claimTransition ck c' (Some a) r)"
      by (auto simp: claimPatternFree_def split: list.splits)
    then have "r \<in> set ?rows" by simp
    then show ?thesis unfolding job by (blast dest: drained_row_ok)
  qed
  show ?thesis
  proof (cases serve)
    case (Some sv)
    with assms show ?thesis by (auto simp: dequeueForLabels_def d case_prod_beta intro: post)
  next
    case None
    obtain x db1 where x: "claimPatternFree q ck c' skip locked ls ms (Some a) db = (x, db1)"
      by (cases "claimPatternFree q ck c' skip locked ls ms (Some a) db")
    show ?thesis
    proof (cases x)
      case None
      with \<open>serve = None\<close> x assms show ?thesis
        by (auto simp: dequeueForLabels_def d case_prod_beta intro: patterns)
    next
      case (Some job')
      with \<open>serve = None\<close> x assms have "job' = job" by (simp add: dequeueForLabels_def d)
      with Some x free [of db] show ?thesis by simp
    qed
  qed
qed


end
