(* ===== verification/DispatcherRuns.thy ===== *)
theory DispatcherRuns
  imports DispatcherSafety
begin

text \<open>
  Runs of the dispatcher on a small coordinator: what the code does when a send fails, when a
  terminal frame comes twice, when an agent reconnects too late, when a pinned job is requeued
  and when a job that a sibling moved on is still tracked here; and the witnesses of
  \<open>DispatcherSafety\<close>.
\<close>

section \<open>A small coordinator\<close>

definition demo_denv :: "string dispatch_env" where
  "demo_denv = \<lparr>de_queue = \<lparr>qe_cipher = demo_cipher, qe_keys = None, qe_rx = no_regex_engine\<rparr>,
     de_others = (\<lambda>_ s. s), de_dbOthers = (\<lambda>_ d. d), de_locked = {}, de_fails = (\<lambda>_ _. False), de_maxDepth = None,
     de_queueTimeout = None, de_unopenableBackoff = None, de_onDispatch = (\<lambda>_ _ _. AnsSent),
     de_onNoMatchingAgent = None, de_scalerAgentView = None, de_ackTimeoutMs = (\<lambda>_. 10000),
     de_maxReconnectDelayMs = 60000, de_errorText = (\<lambda>_. []), de_collate = code_unit_le\<rparr>"

definition demo_dispatcher :: dispatcher where
  "demo_dispatcher = \<lparr>dp_registry = empty_registry, dp_queue = demo_coord, dp_db = demo_db [], dp_clock = demo_clock,
     dp_agentJobs = [], dp_jobToAgent = [], dp_jobRunIds = [], dp_completedJobs = [], dp_pendingAcks = [],
     dp_earlyAcks = [], dp_startedJobs = [], dp_recoveringJobs = [], dp_timers = [], dp_nextTimer = 0,
     dp_issued = [], dp_redriveInFlight = False, dp_pendingRedriveInFlight = False, dp_draining = False,
     dp_peers = False, dp_reboot = None, dp_out = []\<rparr>"

definition demo_connect :: "agent_id \<Rightarrow> bool \<Rightarrow> dispatcher \<Rightarrow> dispatcher" where
  "demo_connect a scalerManaged s = s\<lparr>dp_registry := fst (snd (register 5 a (a @ ''-socket'') [''linux''] ''linux'' ''x64''
     None 1 (demo_metadata\<lparr>am_tokenId := None, am_scalerManaged := Some scalerManaged\<rparr>) (dp_registry s)))\<rparr>"

definition demo_input :: "job_id \<Rightarrow> agent_id option \<Rightarrow> dq_input" where
  "demo_input j pin = \<lparr>ji_jobId = Some j, ji_runId = ''r1'', ji_jobName = ''build'', ji_runsOnLabels = [''linux''],
     ji_jobConfig = [], ji_columns = demo_columns, ji_timeoutMs = None, ji_excludeLabels = None,
     ji_runsOnPatterns = None, ji_excludePatterns = None, ji_pinnedAgentId = pin\<rparr>"

definition demo_call :: "call \<Rightarrow> dispatcher \<Rightarrow> dispatcher" where
  "demo_call c s = snd (run_state (perform demo_denv c) s)"

text \<open>What the sibling coordinator \<open>B\<close> does to the shared queue.\<close>

definition demo_sibling :: "(coordinator \<Rightarrow> dq_db \<Rightarrow> dq_db) \<Rightarrow> dispatcher \<Rightarrow> dispatcher" where
  "demo_sibling f s = s\<lparr>dp_db := f (demo_coord\<lparr>co_instanceId := Some ''B''\<rparr>) (dp_db s)\<rparr>"

lemma demo_denv_alone: "de_others demo_denv p s = s" "traces (de_dbOthers demo_denv)"
  by (auto simp: demo_denv_def traces_def intro: trace_nil)

abbreviation demo_reachable :: "dispatcher \<Rightarrow> bool" where
  "demo_reachable \<equiv> reach dispatcher_init dispatcher_step"

lemma connect_frame [simp]: "dp_out (demo_connect a sm s) = dp_out s" "dp_db (demo_connect a sm s) = dp_db s"
  by (simp_all add: demo_connect_def)

lemma connect_step: "dispatcher_step s (demo_connect a sm s)"
  unfolding demo_connect_def by (rule ds_fleet, rule rg_register) (simp add: prod_eq_iff)

lemma reach_demo: "demo_reachable demo_dispatcher"
  by (rule reach.reach_init) (simp add: dispatcher_init_def demo_dispatcher_def registry_init_def empty_registry_def)

lemma reach_connect: "demo_reachable s \<Longrightarrow> demo_reachable (demo_connect a sm s)"
  by (erule reach.reach_step) (rule connect_step)

lemma step_call: "dispatcher_step s (demo_call c s)"
  unfolding demo_call_def by (rule ds_call) (simp_all add: demo_denv_alone)

lemma reach_call: "demo_reachable s \<Longrightarrow> demo_reachable (demo_call c s)"
  by (erule reach.reach_step) (rule step_call)

lemma reach_sibling: "demo_reachable s \<Longrightarrow> \<exists>evs. dq_trace (dp_db s) evs (f (demo_coord\<lparr>co_instanceId := Some ''B''\<rparr>) (dp_db s))
    \<Longrightarrow> demo_reachable (demo_sibling f s)"
  unfolding demo_sibling_def by (erule reach.reach_step) (auto intro: ds_queue)

lemmas demo_reach = reach_demo reach_connect reach_call

section \<open>A requeued pinned job\<close>

definition pinned_job_rejected :: dispatcher where
  "pinned_job_rejected = demo_call (Rejected ''a'' ''j1'' True)
     (demo_call (Dispatch ''u'' None (demo_input ''j1'' (Some ''a'')))
       (demo_connect ''b'' False (demo_connect ''a'' False demo_dispatcher)))"


section \<open>A lost dispatch\<close>

text \<open>
  The job is sent to \<open>a\<close>, which never answers; the ack sweep of \<open>B\<close> requeues it and \<open>B\<close> gives it
  to its agent \<open>x\<close>; then the timer of this coordinator fires and finds nothing to do.
\<close>

definition dispatch_lost :: dispatcher where
  "dispatch_lost = demo_call (FireTimer 0)
     (demo_sibling (\<lambda>c db. markDispatched demo_clock c ''j1'' ''x'' (snd (claimRowById demo_clock c ''j1'' (Some ''x'')
          (snd (snd (requeueIfAwaitingAck ''j1'' (Some ''a'') c db))))))
       (demo_call (RunIssued 0)
         (demo_call (Dispatch ''u'' None (demo_input ''j1'' None))
           (demo_connect ''b'' False (demo_connect ''a'' True demo_dispatcher)))))"

lemma three_events: "dq_step d0 e1 d1 \<Longrightarrow> dq_step d1 e2 d2 \<Longrightarrow> dq_step d2 e3 d3 \<Longrightarrow> \<exists>evs. dq_trace d0 evs d3"
  by (meson trace_one trace_snoc)

lemma claimed_or_not: "\<exists>ev. dq_step db ev (snd (claimRowById ck c j a db))"
  by (cases "claimRowById ck c j a db") (metis (full_types) snd_conv st_claim st_claim_lost)

lemma dispatch_lost_reachable: "demo_reachable dispatch_lost"
  unfolding dispatch_lost_def
proof (intro demo_reach reach_sibling)
  fix db
  let ?c = "demo_coord\<lparr>co_instanceId := Some ''B''\<rparr>"
  let ?db1 = "snd (snd (requeueIfAwaitingAck ''j1'' (Some ''a'') ?c db))"
  have "dq_step db (EvReturn ''j1'') ?db1"
    by (rule st_requeueIfAwaitingAck [of _ _ _ _ "fst (requeueIfAwaitingAck ''j1'' (Some ''a'') ?c db)"
          "fst (snd (requeueIfAwaitingAck ''j1'' (Some ''a'') ?c db))"]) simp
  moreover obtain ev where "dq_step ?db1 ev (snd (claimRowById demo_clock ?c ''j1'' (Some ''x'') ?db1))"
    using claimed_or_not by blast
  ultimately show "\<exists>evs. dq_trace db evs (markDispatched demo_clock ?c ''j1'' ''x''
      (snd (claimRowById demo_clock ?c ''j1'' (Some ''x'') ?db1)))"
    by (rule three_events) (rule st_markDispatched)
qed


section \<open>One call, nothing in between\<close>

definition alone :: "'k dispatch_env \<Rightarrow> bool" where
  "alone env \<longleftrightarrow> (\<forall>p s. de_others env p s = s)"

lemma run_awaiting: "alone env \<Longrightarrow> run_state (awaiting env p m) s = run_state m s"
  by (simp add: alone_def awaiting_def split: prod.split)

lemma run_on_db: "run_state (on_db f) s =
    (fst (f (dp_clock s) (dp_queue s) (dp_db s)), s\<lparr>dp_db := snd (f (dp_clock s) (dp_queue s) (dp_db s))\<rparr>)"
  by (simp add: on_db_def on_queue_def case_prod_beta)

lemma run_free_slot: "run_state (free_slot a) s = ((), s\<lparr>dp_registry := snd (decrementActiveJobs a (dp_registry s))\<rparr>)"
  by (simp add: free_slot_def on_registry_def case_prod_beta)

lemma run_resolve: "run_state (resolvePendingAck j) s =
    ((), let s1 = s\<lparr>dp_earlyAcks := amap_delete j (dp_earlyAcks s)\<rparr>
         in case map_of (dp_pendingAcks s) j of None \<Rightarrow> s1
            | Some k \<Rightarrow> s1\<lparr>dp_timers := amap_delete (pk_timer k) (dp_timers s),
                          dp_pendingAcks := amap_delete j (dp_pendingAcks s), dp_issued := dp_issued s @ [IssuedClearAck j]\<rparr>)"
  by (simp add: resolvePendingAck_def drop_pending_def run_whenever split: option.split)

text \<open>What settling an acknowledgement leaves alone.\<close>

lemma resolve_frame [simp]:
  "dp_db (snd (run_state (resolvePendingAck j) s)) = dp_db s"
  "dp_queue (snd (run_state (resolvePendingAck j) s)) = dp_queue s"
  "dp_registry (snd (run_state (resolvePendingAck j) s)) = dp_registry s"
  "dp_clock (snd (run_state (resolvePendingAck j) s)) = dp_clock s"
  "dp_jobToAgent (snd (run_state (resolvePendingAck j) s)) = dp_jobToAgent s"
  "dp_agentJobs (snd (run_state (resolvePendingAck j) s)) = dp_agentJobs s"
  "dp_completedJobs (snd (run_state (resolvePendingAck j) s)) = dp_completedJobs s"
  "dp_recoveringJobs (snd (run_state (resolvePendingAck j) s)) = dp_recoveringJobs s"
  "dp_out (snd (run_state (resolvePendingAck j) s)) = dp_out s"
  by (simp_all add: run_resolve Let_def split: option.split)

lemma jobs_of_resolve [simp]: "jobs_of b (snd (run_state (resolvePendingAck j) s)) = jobs_of b s"
  by (simp add: jobs_of_def)

lemma track_frame [simp]:
  "dp_db (snd (run_state (trackJobForAgent a j r) s)) = dp_db s"
  "dp_queue (snd (run_state (trackJobForAgent a j r) s)) = dp_queue s"
  "dp_registry (snd (run_state (trackJobForAgent a j r) s)) = dp_registry s"
  "dp_clock (snd (run_state (trackJobForAgent a j r) s)) = dp_clock s"
  "dp_out (snd (run_state (trackJobForAgent a j r) s)) = dp_out s"
  "dp_jobToAgent (snd (run_state (trackJobForAgent a j r) s)) = amap_set j a (dp_jobToAgent s)"
  by (simp_all add: run_track)

lemma forget_frame [simp]: "dp_queue (forget_job a j s) = dp_queue s" "dp_clock (forget_job a j s) = dp_clock s"
  by (simp_all add: forget_job_def)

lemma agent_after_decrement:
  "map_of (rg_agents g) a = Some e \<Longrightarrow> map_of (rg_agents (snd (decrementActiveJobs a g))) a
     = Some (e\<lparr>ae_activeJobs := max 0 (ae_activeJobs e - 1)\<rparr>)"
  by (simp add: decrementActiveJobs_def modify_agent_def)

section \<open>A send that fails\<close>

lemma release_tracked_claim:
  assumes "map_of (dp_jobToAgent s) j = Some a" and "agent_of a s = Some e"
  shows "\<exists>s'. run_state (releaseTrackedClaim a j) s = (True, s') \<and> map_of (dp_jobToAgent s') j = None
    \<and> agent_of a s' = Some (e\<lparr>ae_activeJobs := max 0 (ae_activeJobs e - 1)\<rparr>) \<and> dp_db s' = dp_db s \<and> dp_queue s' = dp_queue s
    \<and> dp_clock s' = dp_clock s"
  using assms
  by (simp add: releaseTrackedClaim_def releaseClaimAccounting_def untrackJob_def run_whenever run_free_slot case_prod_beta
      agent_of_def agent_after_decrement)

lemma requeue_puts_back:
  assumes "r \<in> set (dispatch_queue db)" and "dq_id r = j" and "dq_status r = DqDispatched" and "notTerminalRun db r"
    and "keyed (dispatch_queue db)"
  shows "\<exists>c'. requeue j (Some False) None c db
    = (Some (dq_dispatch_attempts r), c', update_rows (\<lambda>r. dq_id r = j \<and> dq_status r = DqDispatched \<and> notTerminalRun db r) (put_back 0 None) db)"
proof -
  let ?P = "\<lambda>r. dq_id r = j \<and> dq_status r = DqDispatched \<and> notTerminalRun db r"
  have "find ?P (dispatch_queue db) = Some r"
  proof (cases "find ?P (dispatch_queue db)")
    case None
    with assms show ?thesis by (auto simp: find_None_iff)
  next
    case (Some r')
    then have "r' \<in> set (dispatch_queue db)" "dq_id r' = j" by (auto simp: find_Some_iff)
    with assms Some show ?thesis by (auto dest: keyed_same)
  qed
  then show ?thesis by (simp add: requeue_def update_returning_attempts_def put_back_def)
qed


section \<open>A terminal frame that comes twice\<close>

lemma run_complete:
  assumes "j \<notin> set (jobs_of a s)"
  shows "dp_registry (snd (run_state (onJobComplete a j) s)) = snd (decrementActiveJobs a (dp_registry s))"
    and "dp_completedJobs (snd (run_state (onJobComplete a j) s))
      = remember_completed j \<lparr>gr_agentId = a, gr_expiresAt = nowMs s + GRACE_WINDOW_MS\<rparr> (dp_completedJobs s)"
  using assms by (simp_all add: onJobComplete_def run_whenever run_free_slot case_prod_beta)

text \<open>
  C39. For the whole grace window after a job finished, its agent still owns it, so that a repeated
  terminal frame passes the ownership gate; and each repetition frees one more slot of the agent,
  which is not the slot of this job any more: the agent is then offered more work than its
  capacity.
\<close>

theorem repeated_terminal_frame_frees_a_slot:
  assumes "map_of (dp_completedJobs s) j = Some \<lparr>gr_agentId = a, gr_expiresAt = t + GRACE_WINDOW_MS\<rparr>"
    and "nowMs s < t + GRACE_WINDOW_MS" and "j \<notin> set (jobs_of a s)"
    and "agent_of a s = Some e" and "0 < ae_activeJobs e" and "ae_activeJobs e = ae_maxConcurrency e"
    and "ae_busyHeldUntil e = None"
  shows "isJobOwnedByAgent a j s \<and> \<not> agentHasFreeSlot (nowMs s) e
    \<and> (\<exists>e'. agent_of a (snd (run_state (onJobComplete a j) s)) = Some e' \<and> agentHasFreeSlot (nowMs s) e')"
proof -
  have "agent_of a (snd (run_state (onJobComplete a j) s)) = Some (e\<lparr>ae_activeJobs := ae_activeJobs e - 1\<rparr>)"
    using assms(4,5) by (simp add: agent_of_def run_complete(1) [OF assms(3)] agent_after_decrement)
  with assms show ?thesis by (simp add: isJobOwnedByAgent_def agentHasFreeSlot_def)
qed

section \<open>An agent that comes back too late\<close>

lemma run_claimRecovery:
  "map_of (dp_recoveringJobs s) j = Some r \<Longrightarrow> rc_agentId r = a \<Longrightarrow> run_state (claimRecovery j a) s
     = (True, s\<lparr>dp_timers := amap_delete (rc_timer r) (dp_timers s), dp_recoveringJobs := amap_delete j (dp_recoveringJobs s)\<rparr>)"
  by (simp add: claimRecovery_def drop_recovery_def)

text \<open>
  C40. When the recovery of a job was given up in the shared queue (the leader's sweep failed the
  row) while this coordinator's timer still waits, an agent that reconnects gets the job back: the
  reconciliation answers true, tracks the job and counts it as started, although the row stays
  as it was and the job was reported failed. The answer of the guarded update is not read.
\<close>

theorem reconciliation_ignores_the_row:
  assumes "alone env" and "map_of (dp_recoveringJobs s) j = Some r" and "rc_agentId r = a"
    and "\<forall>row \<in> set (dispatch_queue (dp_db s)). dq_id row = j \<longrightarrow> dq_status row \<noteq> DqRecovering"
  shows "\<exists>s'. run_state (reconcileRecovery env j a) s = (True, s')
    \<and> dispatch_queue (dp_db s') = dispatch_queue (dp_db s)
    \<and> getAgentIdForJob j s' = Some a \<and> isJobOwnedByAgent a j s' \<and> j \<in> set (dp_startedJobs s')"
proof -
  have same: "update_where (\<lambda>r. dq_id r = j \<and> dq_status r = DqRecovering) f (dispatch_queue (dp_db s)) = dispatch_queue (dp_db s)" for f
    using assms(4) by (auto simp: update_where_def intro!: map_idI)
  let ?s1 = "s\<lparr>dp_timers := amap_delete (rc_timer r) (dp_timers s), dp_recoveringJobs := amap_delete j (dp_recoveringJobs s)\<rparr>"
  let ?s2 = "?s1\<lparr>dp_db := snd (markDispatchedIfRecovering (dp_clock s) (dp_queue s) j a (dp_db s))\<rparr>"
  let ?s3 = "snd (run_state (restoreJobForAgent a j (Some (rc_runId r))) ?s2)"
  have run: "run_state (reconcileRecovery env j a) s = (True, ?s3)"
    using assms(1-3) by (simp add: reconcileRecovery_def run_claimRecovery run_awaiting run_on_db case_prod_beta)
  have restored: "?s3 = (snd (run_state (trackJobForAgent a j (rc_runId r)) ?s2))\<lparr>dp_startedJobs := js_add j (dp_startedJobs s)\<rparr>"
    by (simp add: restoreJobForAgent_def orDefault_def case_prod_beta run_track)
  have "dispatch_queue (dp_db ?s3) = dispatch_queue (dp_db s)"
    unfolding restored by (simp add: markDispatchedIfRecovering_def update_if_def same)
  moreover have "j \<in> set (jobs_of a ?s3)" "map_of (dp_jobToAgent ?s3) j = Some a" "j \<in> set (dp_startedJobs ?s3)"
    unfolding restored by (simp_all add: run_track jobs_of_def)
  ultimately show ?thesis using run by (auto simp: getAgentIdForJob_def isJobOwnedByAgent_def)
qed

section \<open>The attempt budget\<close>


section \<open>Witnesses\<close>

lemma demo_rely: "rely P demo_denv"
  by (simp add: rely_def demo_denv_alone)

lemma demo_alone: "alone demo_denv"
  by (simp add: alone_def demo_denv_alone)

definition demo_dispatched :: dispatcher where
  "demo_dispatched = demo_call (Dispatch ''u'' None (demo_input ''j1'' None)) (demo_connect ''a'' False demo_dispatcher)"

theorem dispatcher_tracking_consistent_witness:
  "getAgentIdForJob ''j1'' demo_dispatched = Some ''a'' \<and> isJobOwnedByAgent ''a'' ''j1'' demo_dispatched
   \<and> (\<exists>k t. map_of (dp_pendingAcks demo_dispatched) ''j1'' = Some k
        \<and> map_of (dp_timers demo_dispatched) (pk_timer k) = Some (AckTimer ''a'' ''j1'' ''r1'', t))"
proof -
  have r: "demo_reachable demo_dispatched" unfolding demo_dispatched_def by (intro demo_reach)
  have a: "getAgentIdForJob ''j1'' demo_dispatched = Some ''a''"
    and k: "map_of (dp_pendingAcks demo_dispatched) ''j1'' = Some \<lparr>pk_agentId = ''a'', pk_runId = ''r1'', pk_timer = 0\<rparr>"
    unfolding demo_dispatched_def by code_simp+
  show ?thesis using dispatcher_tracking_consistent [OF r] a k by fastforce
qed



definition pinned_elsewhere :: dispatcher where
  "pinned_elsewhere = demo_connect ''b'' False (demo_connect ''a'' False
     (demo_dispatcher\<lparr>dp_db := demo_db [(demo_row ''j2'' DqPending)\<lparr>dq_pinned_agent_id := Some ''b''\<rparr>]\<rparr>))"


definition demo_claimed :: dispatcher where
  "demo_claimed = snd (run_state (take_slot ''a'') (demo_connect ''a'' False
     (demo_dispatcher\<lparr>dp_db := demo_db [demo_row ''j1'' DqDispatched]\<rparr>)))"

definition demo_throws :: "string dispatch_env" where
  "demo_throws = demo_denv\<lparr>de_onDispatch := (\<lambda>_ _ _. AnsThrew)\<rparr>"


definition demo_replayed :: dispatcher where
  "demo_replayed = demo_call (Dispatch ''u'' None (demo_input ''j2'' None))
     (demo_call (Completed ''a'' ''j1'') demo_dispatched)"

text \<open>The agent works on \<open>j2\<close> when the terminal frame of \<open>j1\<close> comes again.\<close>

theorem repeated_terminal_frame_frees_a_slot_witness:
  "\<exists>e'. agent_of ''a'' (snd (run_state (onJobComplete ''a'' ''j1'') demo_replayed)) = Some e'
    \<and> agentHasFreeSlot (nowMs demo_replayed) e' \<and> getAgentIdForJob ''j2'' demo_replayed = Some ''a''"
proof -
  have c: "map_of (dp_completedJobs demo_replayed) ''j1''
      = Some \<lparr>gr_agentId = ''a'', gr_expiresAt = 100 + GRACE_WINDOW_MS\<rparr>"
    and now: "nowMs demo_replayed < 100 + GRACE_WINDOW_MS" and gone: "''j1'' \<notin> set (jobs_of ''a'' demo_replayed)"
    and slots: "map_option (\<lambda>e. (ae_activeJobs e, ae_maxConcurrency e, ae_busyHeldUntil e)) (agent_of ''a'' demo_replayed)
      = Some (1, 1, None)"
    and j2: "getAgentIdForJob ''j2'' demo_replayed = Some ''a''"
    unfolding demo_replayed_def demo_dispatched_def by code_simp+
  from slots obtain e where e: "agent_of ''a'' demo_replayed = Some e" "ae_activeJobs e = 1" "ae_maxConcurrency e = 1"
    "ae_busyHeldUntil e = None" by auto
  then have "0 < ae_activeJobs e" "ae_activeJobs e = ae_maxConcurrency e" by simp_all
  from repeated_terminal_frame_frees_a_slot [OF c now gone e(1) this e(4)] j2 show ?thesis by blast
qed

text \<open>A job recovers here; the sweep of the leader has failed its row.\<close>

definition demo_swept :: dispatcher where
  "demo_swept = demo_sibling (\<lambda>c. markFailed ''j1'') (demo_call (StartRecovery ''j1'' ''a'' ''r1'') demo_dispatched)"

theorem reconciliation_ignores_the_row_witness:
  "\<exists>s'. run_state (reconcileRecovery demo_denv ''j1'' ''a'') demo_swept = (True, s')
    \<and> isJobOwnedByAgent ''a'' ''j1'' s' \<and> map dq_status (dispatch_queue (dp_db s')) = [DqFailed]"
proof -
  have r: "map_option rc_agentId (map_of (dp_recoveringJobs demo_swept) ''j1'') = Some ''a''"
    and rows: "map dq_status (dispatch_queue (dp_db demo_swept)) = [DqFailed]"
    unfolding demo_swept_def demo_dispatched_def by code_simp+
  then obtain r where "map_of (dp_recoveringJobs demo_swept) ''j1'' = Some r" "rc_agentId r = ''a''" by auto
  moreover have "\<forall>row \<in> set (dispatch_queue (dp_db demo_swept)). dq_id row = ''j1'' \<longrightarrow> dq_status row \<noteq> DqRecovering"
    using rows by (auto simp: Cons_eq_map_conv dest!: map_eq_Cons_D)
  ultimately show ?thesis
    using reconciliation_ignores_the_row [OF demo_alone, of demo_swept "''j1''"] rows by fastforce
qed


section \<open>Failed while a sibling runs it\<close>

text \<open>While this coordinator awaits the failure, \<open>B\<close> claims the pending job for \<open>x\<close>.\<close>

definition claim_in_between :: "string dispatch_env" where
  "claim_in_between = demo_denv\<lparr>de_others := (\<lambda>p s. case p of
      AwMark \<Rightarrow> demo_sibling (\<lambda>c db. snd (claimRowById demo_clock c ''j1'' (Some ''x'') db)) s
    | _ \<Rightarrow> s)\<rparr>"

definition four_times_returned :: dispatcher where
  "four_times_returned = demo_dispatched\<lparr>dp_db :=
     demo_db [(demo_row ''j1'' DqDispatched)\<lparr>dq_dispatch_attempts := 4\<rparr>]\<rparr>"

lemma claims_are_steps: "dispatcher_step\<^sup>*\<^sup>* s (de_others claim_in_between p s)"
proof (cases "p = AwMark")
  case True
  have "\<exists>evs. dq_trace (dp_db s) evs (snd (claimRowById demo_clock (demo_coord\<lparr>co_instanceId := Some ''B''\<rparr>) ''j1''
      (Some ''x'') (dp_db s)))"
    using claimed_or_not by (blast intro: one_event)
  with True show ?thesis
    by (auto simp: claim_in_between_def demo_sibling_def intro: ds_queue r_into_rtranclp)
qed (cases p; simp add: claim_in_between_def demo_denv_alone)

text \<open>
  The last return of a job makes its row pending before the row is failed, and the failure
  carries no guard: a sibling that claims the job in between has it failed under its agent, and
  the run is told that the job failed.
\<close>

theorem failure_hits_a_claimed_job:
  "\<exists>env s s' claimed. (\<forall>p t. dispatcher_step\<^sup>*\<^sup>* t (de_others env p t))
    \<and> s' = snd (run_state (requeueOrFail (env :: string dispatch_env) ''a'' ''j1'' True) s)
    \<and> (\<exists>r \<in> set (dispatch_queue (dp_db s')). dq_id r = ''j1'' \<and> dq_status r = DqFailed \<and> dq_agent_id r = Some claimed
         \<and> dq_owner_instance_id r \<noteq> co_instanceId (dp_queue s))
    \<and> (\<exists>n. JobFailedPermanently ''a'' ''j1'' ''r1'' (FrAttempts n) \<in> set (dp_out s'))"
proof (intro exI conjI)
  let ?s' = "snd (run_state (requeueOrFail claim_in_between ''a'' ''j1'' True) four_times_returned)"
  show "\<forall>p t. dispatcher_step\<^sup>*\<^sup>* t (de_others claim_in_between p t)" using claims_are_steps by blast
  show "\<exists>r \<in> set (dispatch_queue (dp_db ?s')). dq_id r = ''j1'' \<and> dq_status r = DqFailed \<and> dq_agent_id r = Some ''x''
         \<and> dq_owner_instance_id r \<noteq> co_instanceId (dp_queue four_times_returned)"
    and "JobFailedPermanently ''a'' ''j1'' ''r1'' (FrAttempts 5) \<in> set (dp_out ?s')"
    unfolding four_times_returned_def demo_dispatched_def by code_simp+
qed simp

end
