(* ===== verification/Ownership.thy ===== *)
theory Ownership
  imports Kici_Prelude
begin

text \<open>
  Which frames of an agent a coordinator handles: the tracker of
  \<open>packages/orchestrator/src/agent/ownership-tracker.ts\<close> with the gate of \<open>ws/ownership-gate.ts\<close>.
  What the dispatcher and the database answer is an argument here; \<open>OwnershipRuns\<close> connects the
  tracker to the models of both.

  A lookup in the database is awaited, so a frame is two events, the check and the answer, and
  anything may happen between them; a trace is a list of timed events. How a promise settles
  before a deadline is a value: it resolves, it rejects, or the deadline comes first.
\<close>

section \<open>The tracker\<close>

datatype ownership_db_result = Owned | NotOwned | Unknown

record violation_entry =
  ve_count :: nat
  ve_windowStart :: millis

record ownership_tracker =
  ot_violations :: "(agent_id \<times> violation_entry) list"
  ot_dbAccepted :: "(agent_id \<times> job_id list) list"

record ownership_opts =
  oo_violationThreshold :: nat
  oo_violationWindowMs :: millis

definition DEFAULT_OWNERSHIP_DB_CHECK_TIMEOUT_MS :: rat where
  "DEFAULT_OWNERSHIP_DB_CHECK_TIMEOUT_MS = 5000"

definition MAX_TIMER_DELAY_MS :: rat where "MAX_TIMER_DELAY_MS = 2147483647"

definition ownership_defaults :: ownership_opts where
  "ownership_defaults = \<lparr>oo_violationThreshold = 5, oo_violationWindowMs = 60000\<rparr>"

definition empty_tracker :: ownership_tracker where
  "empty_tracker = \<lparr>ot_violations = [], ot_dbAccepted = []\<rparr>"

text \<open>The entry after one more violation, and whether the agent is disconnected for it.\<close>

definition count_violation ::
  "ownership_opts \<Rightarrow> millis \<Rightarrow> violation_entry option \<Rightarrow> violation_entry option \<times> bool" where
  "count_violation opts now entry =
     (let e = (case entry of None \<Rightarrow> \<lparr>ve_count = 0, ve_windowStart = now\<rparr> | Some e \<Rightarrow> e);
          e = (if ve_windowStart e + oo_violationWindowMs opts < now then \<lparr>ve_count = 0, ve_windowStart = now\<rparr> else e);
          e = e\<lparr>ve_count := Suc (ve_count e)\<rparr>
      in if ve_count e \<ge> oo_violationThreshold opts then (None, True) else (Some e, False))"

definition recordViolation ::
  "ownership_opts \<Rightarrow> millis \<Rightarrow> agent_id \<Rightarrow> ownership_tracker \<Rightarrow> ownership_tracker \<times> bool" where
  "recordViolation opts now a t =
     (case count_violation opts now (map_of (ot_violations t) a) of
        (None, gone) \<Rightarrow> (t\<lparr>ot_violations := amap_delete a (ot_violations t)\<rparr>, gone)
      | (Some e, gone) \<Rightarrow> (t\<lparr>ot_violations := amap_set a e (ot_violations t)\<rparr>, gone))"

definition accepted_jobs :: "agent_id \<Rightarrow> ownership_tracker \<Rightarrow> job_id list" where
  "accepted_jobs a t = opt_list (map_of (ot_dbAccepted t) a)"

definition rememberDbAccepted :: "agent_id \<Rightarrow> job_id \<Rightarrow> ownership_tracker \<Rightarrow> ownership_tracker" where
  "rememberDbAccepted a j t =
     (let js = js_add j (accepted_jobs a t)
      in t\<lparr>ot_dbAccepted := amap_set a (if length js > 1024 then tl js else js) (ot_dbAccepted t)\<rparr>)"

definition cleanup :: "agent_id \<Rightarrow> ownership_tracker \<Rightarrow> ownership_tracker" where
  "cleanup a t = t\<lparr>ot_violations := amap_delete a (ot_violations t), ot_dbAccepted := amap_delete a (ot_dbAccepted t)\<rparr>"

text \<open>
  \<open>own\<close> is the answer of the dispatcher, \<open>hasDb\<close> whether a lookup is configured. The result is
  the answer, the tracker and whether the agent is disconnected.
\<close>

definition checkOwnership ::
  "ownership_opts \<Rightarrow> bool \<Rightarrow> bool \<Rightarrow> millis \<Rightarrow> agent_id \<Rightarrow> job_id \<Rightarrow> ownership_tracker \<Rightarrow> bool \<times> ownership_tracker \<times> bool" where
  "checkOwnership opts hasDb own now a j t =
     (if own then (True, t, False)
      else if j \<in> set (accepted_jobs a t) then (True, t, False)
      else if hasDb then (False, t, False)
      else (False, recordViolation opts now a t))"

text \<open>A promise that is raced against a deadline.\<close>

datatype 'a settles = Resolves 'a | Rejects | TooLate

text \<open>The deadline; \<open>None\<close> inside stands for a number that is not finite.\<close>

definition resolveTimeoutMs :: "rat option settles option \<Rightarrow> rat" where
  "resolveTimeoutMs read =
     (case read of
        Some (Resolves (Some v)) \<Rightarrow>
          if v < 1 \<or> v > MAX_TIMER_DELAY_MS then DEFAULT_OWNERSHIP_DB_CHECK_TIMEOUT_MS else v
      | _ \<Rightarrow> DEFAULT_OWNERSHIP_DB_CHECK_TIMEOUT_MS)"

text \<open>\<open>lookup ms\<close> is how the query settles within \<open>ms\<close> milliseconds.\<close>

definition resolveFromDb ::
  "(rat \<Rightarrow> ownership_db_result settles) option \<Rightarrow> rat option settles option \<Rightarrow> ownership_db_result" where
  "resolveFromDb query read =
     (case query of
        None \<Rightarrow> Unknown
      | Some q \<Rightarrow> (case q (resolveTimeoutMs read) of Resolves r \<Rightarrow> r | Rejects \<Rightarrow> Unknown | TooLate \<Rightarrow> Unknown))"

text \<open>
  \<open>validateAsync\<close>: the part before its \<open>await\<close>, with the answer when there is one already, and
  the part after it.
\<close>

definition validate_start :: "bool \<Rightarrow> bool \<Rightarrow> agent_id \<Rightarrow> job_id \<Rightarrow> ownership_tracker \<Rightarrow> bool option" where
  "validate_start hasDb own a j t =
     (if own then Some True
      else if j \<in> set (accepted_jobs a t) then Some True
      else if \<not> hasDb then Some False
      else None)"

definition validate_answer ::
  "ownership_opts \<Rightarrow> millis \<Rightarrow> agent_id \<Rightarrow> job_id \<Rightarrow> ownership_db_result \<Rightarrow> ownership_tracker
   \<Rightarrow> bool \<times> ownership_tracker \<times> bool" where
  "validate_answer opts now a j r t =
     (case r of
        Owned \<Rightarrow> (True, rememberDbAccepted a j t, False)
      | Unknown \<Rightarrow> (False, t, False)
      | NotOwned \<Rightarrow> (False, recordViolation opts now a t))"

text \<open>
  \<open>gateOwnership\<close> up to its \<open>await\<close>: the verdict, or \<open>None\<close> while the database is asked. The
  two calls run in one turn, so \<open>own\<close> does not change between them.
\<close>

definition gate_start ::
  "ownership_opts \<Rightarrow> bool \<Rightarrow> bool \<Rightarrow> millis \<Rightarrow> agent_id \<Rightarrow> job_id \<Rightarrow> ownership_tracker
   \<Rightarrow> bool option \<times> ownership_tracker \<times> bool" where
  "gate_start opts hasDb own now a j t =
     (case checkOwnership opts hasDb own now a j t of
        (True, t', gone) \<Rightarrow> (Some True, t', gone)
      | (False, t', gone) \<Rightarrow> (validate_start hasDb own a j t', t', gone))"

section \<open>Traces\<close>

datatype own_event =
    Frame agent_id job_id bool
  | Answer agent_id job_id ownership_db_result
  | Closed agent_id

text \<open>What an event does, with a lookup configured: the verdict on a frame, the tracker, the disconnect.\<close>

fun own_step :: "ownership_opts \<Rightarrow> millis \<Rightarrow> own_event \<Rightarrow> ownership_tracker \<Rightarrow> bool option \<times> ownership_tracker \<times> bool" where
  "own_step opts now (Frame a j own) t = gate_start opts True own now a j t"
| "own_step opts now (Answer a j r) t = (case validate_answer opts now a j r t of (ok, t', gone) \<Rightarrow> (Some ok, t', gone))"
| "own_step opts now (Closed a) t = (None, cleanup a t, False)"

fun own_run :: "ownership_opts \<Rightarrow> (millis \<times> own_event) list \<Rightarrow> ownership_tracker \<Rightarrow> ownership_tracker" where
  "own_run opts [] t = t"
| "own_run opts ((now, ev) # evs) t = own_run opts evs (fst (snd (own_step opts now ev t)))"


section \<open>Accusations and approvals\<close>

text \<open>
  What the database said of an agent since its last disconnect, oldest first: when it denied an
  ownership, and which jobs it granted.
\<close>

fun accused :: "agent_id \<Rightarrow> (millis \<times> own_event) list \<Rightarrow> millis list \<Rightarrow> millis list" where
  "accused a [] acc = acc"
| "accused a ((now, Answer b j NotOwned) # evs) acc = accused a evs (if b = a then acc @ [now] else acc)"
| "accused a ((now, Closed b) # evs) acc = accused a evs (if b = a then [] else acc)"
| "accused a ((now, _) # evs) acc = accused a evs acc"

fun granted :: "agent_id \<Rightarrow> (millis \<times> own_event) list \<Rightarrow> job_id set \<Rightarrow> job_id set" where
  "granted a [] acc = acc"
| "granted a ((now, Answer b j Owned) # evs) acc = granted a evs (if b = a then insert j acc else acc)"
| "granted a ((now, Closed b) # evs) acc = granted a evs (if b = a then {} else acc)"
| "granted a ((now, _) # evs) acc = granted a evs acc"

lemma own_run_append: "own_run opts (es @ fs) t = own_run opts fs (own_run opts es t)"
  by (induction es arbitrary: t) auto

lemma accused_append: "accused a (es @ fs) acc = accused a fs (accused a es acc)"
  by (induction a es acc rule: accused.induct) auto

lemma granted_append: "granted a (es @ fs) acc = granted a fs (granted a es acc)"
  by (induction a es acc rule: granted.induct) auto

lemma accused_one: "accused a [(now, ev)] acc =
    (case ev of Answer b j r \<Rightarrow> if r = NotOwned \<and> b = a then acc @ [now] else acc
     | Closed b \<Rightarrow> if b = a then [] else acc | Frame b j own \<Rightarrow> acc)"
proof (cases ev)
  case (Answer b j r)
  then show ?thesis by (cases r) auto
qed auto

lemma granted_one: "granted a [(now, ev)] acc =
    (case ev of Answer b j r \<Rightarrow> if r = Owned \<and> b = a then insert j acc else acc
     | Closed b \<Rightarrow> if b = a then {} else acc | Frame b j own \<Rightarrow> acc)"
proof (cases ev)
  case (Answer b j r)
  then show ?thesis by (cases r) auto
qed auto

lemma own_step_Frame:
  "own_step opts now (Frame a j own) t = (if own \<or> j \<in> set (accepted_jobs a t) then Some True else None, t, False)"
  by (simp add: gate_start_def checkOwnership_def validate_start_def)

lemmas own_step_rules = own_step_Frame own_step.simps(2,3) validate_answer_def recordViolation_def rememberDbAccepted_def
  cleanup_def

declare own_step.simps(1) [simp del]

text \<open>What an event does to the entry of one agent, to its accepted jobs, and when it disconnects one.\<close>

lemma violations_after:
  "map_of (ot_violations (fst (snd (own_step opts now ev t)))) a =
     (case ev of Answer b j r \<Rightarrow>
        if r = NotOwned \<and> b = a then fst (count_violation opts now (map_of (ot_violations t) a)) else map_of (ot_violations t) a
      | Closed b \<Rightarrow> if b = a then None else map_of (ot_violations t) a
      | Frame b j own \<Rightarrow> map_of (ot_violations t) a)"
  by (auto simp: own_step_rules Let_def split: own_event.split ownership_db_result.split prod.split option.split)

lemma gone_iff:
  "snd (snd (own_step opts now ev t)) \<longleftrightarrow>
     (\<exists>a j. ev = Answer a j NotOwned \<and> snd (count_violation opts now (map_of (ot_violations t) a)))"
proof (cases ev)
  case (Answer b j r)
  then show ?thesis by (cases r) (auto simp: own_step_rules split: prod.split option.split)
qed (auto simp: own_step_rules)

lemma accepted_after:
  "set (accepted_jobs a (fst (snd (own_step opts now ev t)))) \<subseteq>
     (case ev of Answer b j r \<Rightarrow> if r = Owned \<and> b = a then insert j (set (accepted_jobs a t)) else set (accepted_jobs a t)
      | Closed b \<Rightarrow> if b = a then {} else set (accepted_jobs a t)
      | Frame b j own \<Rightarrow> set (accepted_jobs a t))"
proof (cases ev)
  case (Answer b j r)
  have tl: "set (tl js) \<subseteq> set js" for js :: "job_id list" by (cases js) auto
  show ?thesis
  proof (cases r)
    case Owned
    have "set (accepted_jobs a (rememberDbAccepted b j t)) \<subseteq> (if b = a then insert j (set (accepted_jobs a t)) else set (accepted_jobs a t))"
      using tl [of "js_add j (accepted_jobs b t)"] by (auto simp: rememberDbAccepted_def accepted_jobs_def opt_list_def Let_def)
    then show ?thesis by (auto simp: Answer Owned validate_answer_def)
  qed (auto simp: Answer own_step_rules accepted_jobs_def split: prod.split option.split)
qed (auto simp: own_step_rules accepted_jobs_def opt_list_def)

lemma accepted_granted: "set (accepted_jobs a (own_run opts evs empty_tracker)) \<subseteq> granted a evs {}"
proof (induction evs rule: rev_induct)
  case Nil
  show ?case by (simp add: accepted_jobs_def empty_tracker_def opt_list_def)
next
  case (snoc e evs)
  obtain now ev where e: "e = (now, ev)" by (cases e)
  show ?case
    using accepted_after [of a opts now ev "own_run opts evs empty_tracker"] snoc.IH
    by (auto simp: e own_run_append granted_append granted_one split: own_event.splits if_splits)
qed


section \<open>No disconnect without evidence\<close>

abbreviation entry_of :: "agent_id \<Rightarrow> ownership_tracker \<Rightarrow> violation_entry option" where
  "entry_of a t \<equiv> map_of (ot_violations t) a"

text \<open>The entry counts accusations of its window only.\<close>

definition entry_backed :: "millis list \<Rightarrow> millis \<Rightarrow> violation_entry option \<Rightarrow> bool" where
  "entry_backed ts now entry \<longleftrightarrow>
     (\<forall>e. entry = Some e \<longrightarrow> ve_windowStart e \<le> now \<and> ve_count e \<le> length (filter (\<lambda>t. ve_windowStart e \<le> t) ts))"

lemma entry_backed_later: "entry_backed ts now e \<Longrightarrow> now \<le> now' \<Longrightarrow> entry_backed ts now' e"
  by (auto simp: entry_backed_def)

lemma entry_backed_count:
  assumes "entry_backed ts now entry"
  shows "entry_backed (ts @ [now]) now (fst (count_violation opts now entry))"
    and "snd (count_violation opts now entry) \<Longrightarrow> 0 \<le> oo_violationWindowMs opts \<Longrightarrow>
      oo_violationThreshold opts \<le> length (filter (\<lambda>t. now - oo_violationWindowMs opts \<le> t) (ts @ [now]))"
proof -
  show "entry_backed (ts @ [now]) now (fst (count_violation opts now entry))"
    using assms by (auto simp: entry_backed_def count_violation_def Let_def split: option.splits if_splits)
  assume g: "snd (count_violation opts now entry)" and W: "0 \<le> oo_violationWindowMs opts"
  show "oo_violationThreshold opts \<le> length (filter (\<lambda>t. now - oo_violationWindowMs opts \<le> t) (ts @ [now]))"
  proof (cases "\<exists>e. entry = Some e \<and> now \<le> ve_windowStart e + oo_violationWindowMs opts")
    case True
    then obtain e where e: "entry = Some e" "now \<le> ve_windowStart e + oo_violationWindowMs opts" by blast
    then have "oo_violationThreshold opts \<le> Suc (ve_count e)"
      using g by (auto simp: count_violation_def Let_def split: if_splits)
    moreover have "length (filter (\<lambda>t. ve_windowStart e \<le> t) ts) \<le> length (filter (\<lambda>t. now - oo_violationWindowMs opts \<le> t) ts)"
      using e(2) by (induction ts) auto
    ultimately show ?thesis using assms e(1) W by (auto simp: entry_backed_def)
  next
    case False
    then have "oo_violationThreshold opts \<le> 1"
      using g W by (auto simp: count_violation_def Let_def split: option.splits if_splits)
    then show ?thesis using W by simp
  qed
qed

lemma run_backed:
  assumes "sorted (map fst evs)" and "\<forall>x \<in> set evs. fst x \<le> now"
  shows "entry_backed (accused a evs []) now (entry_of a (own_run opts evs empty_tracker))"
  using assms
proof (induction evs arbitrary: now rule: rev_induct)
  case Nil
  show ?case by (simp add: entry_backed_def empty_tracker_def)
next
  case (snoc x evs)
  obtain t ev where x: "x = (t, ev)" by (cases x)
  let ?e = "entry_of a (own_run opts evs empty_tracker)"
  have s: "sorted (map fst evs)" "\<forall>y \<in> set evs. fst y \<le> t" "t \<le> now"
    using snoc.prems by (auto simp: x sorted_append)
  have b: "entry_backed (accused a evs []) t ?e" using s(1,2) by (rule snoc.IH)
  have "entry_backed (accused a (evs @ [x]) []) t (entry_of a (own_run opts (evs @ [x]) empty_tracker))"
    using b entry_backed_count(1) [OF b, of opts]
    by (auto simp: x own_run_append violations_after accused_append accused_one entry_backed_def split: own_event.split)
  then show ?case using s(3) by (rule entry_backed_later)
qed

text \<open>
  C0. An agent is disconnected only on evidence: the event is a denial by the database, and with
  it the database denied an ownership of this agent at least as often as the threshold says
  within the window and since the agent connected. A lookup that failed or came too late is no
  evidence, so a sick database disconnects nobody.
\<close>

theorem disconnects_have_evidence:
  assumes "sorted (map fst (evs @ [(now, ev)]))" and "0 \<le> oo_violationWindowMs opts"
    and "snd (snd (own_step opts now ev (own_run opts evs empty_tracker)))"
  shows "\<exists>a j. ev = Answer a j NotOwned
    \<and> oo_violationThreshold opts
        \<le> length (filter (\<lambda>t. now - oo_violationWindowMs opts \<le> t) (accused a (evs @ [(now, ev)]) []))"
proof -
  obtain a j where ev: "ev = Answer a j NotOwned"
    and g: "snd (count_violation opts now (entry_of a (own_run opts evs empty_tracker)))"
    using assms(3) gone_iff by blast
  have "entry_backed (accused a evs []) now (entry_of a (own_run opts evs empty_tracker))"
    using assms(1) by (intro run_backed) (auto simp: sorted_append)
  from entry_backed_count(2) [OF this g assms(2)] show ?thesis
    by (auto simp: ev accused_append accused_one)
qed

section \<open>No burst without a disconnect\<close>

text \<open>
  Within one stretch of the window's length the window is reset at most once, so the entry
  forgets less than a threshold.
\<close>

definition burst_left :: "ownership_opts \<Rightarrow> millis \<Rightarrow> nat \<Rightarrow> violation_entry option \<Rightarrow> bool" where
  "burst_left opts t0 k entry \<longleftrightarrow>
     (case entry of
        None \<Rightarrow> k = 0
      | Some e \<Rightarrow> ve_count e < oo_violationThreshold opts
          \<and> k \<le> (if ve_windowStart e < t0 then ve_count e else ve_count e + (oo_violationThreshold opts - 1)))"

lemma burst_left_count:
  assumes "burst_left opts t0 k entry" and "t0 \<le> now" "now \<le> t0 + oo_violationWindowMs opts"
    and "\<not> snd (count_violation opts now entry)"
  shows "burst_left opts t0 (Suc k) (fst (count_violation opts now entry))"
  using assms by (auto simp: burst_left_def count_violation_def Let_def split: option.splits if_splits)

lemma entry_below: "0 < oo_violationThreshold opts \<Longrightarrow> entry_of a (own_run opts evs empty_tracker) = Some e
    \<Longrightarrow> ve_count e < oo_violationThreshold opts"
proof (induction evs arbitrary: e rule: rev_induct)
  case (snoc x evs)
  then show ?case
    by (cases x) (auto simp: own_run_append violations_after count_violation_def Let_def split: own_event.splits if_splits)
qed (simp add: empty_tracker_def)

fun event_agent :: "own_event \<Rightarrow> agent_id" where
  "event_agent (Frame a j own) = a"
| "event_agent (Answer a j r) = a"
| "event_agent (Closed a) = a"

text \<open>Whether a trace disconnects the agent.\<close>

fun disconnects :: "ownership_opts \<Rightarrow> agent_id \<Rightarrow> (millis \<times> own_event) list \<Rightarrow> ownership_tracker \<Rightarrow> bool" where
  "disconnects opts a [] t = False"
| "disconnects opts a ((now, ev) # evs) t =
     (event_agent ev = a \<and> snd (snd (own_step opts now ev t))
      \<or> disconnects opts a evs (fst (snd (own_step opts now ev t))))"

lemma disconnects_append: "disconnects opts a (es @ fs) t \<longleftrightarrow> disconnects opts a es t \<or> disconnects opts a fs (own_run opts es t)"
  by (induction es arbitrary: t) auto

lemma burst_left_run:
  assumes "\<forall>x \<in> set evs. t0 \<le> fst x \<and> fst x \<le> t0 + oo_violationWindowMs opts"
    and "Closed a \<notin> snd ` set evs" and "\<not> disconnects opts a evs t" and "burst_left opts t0 k (entry_of a t)"
  shows "burst_left opts t0 (k + length (accused a evs [])) (entry_of a (own_run opts evs t))"
  using assms(1-3)
proof (induction evs rule: rev_induct)
  case (snoc x evs)
  obtain now ev where x: "x = (now, ev)" by (cases x)
  let ?t = "own_run opts evs t"
  have "burst_left opts t0 (k + length (accused a evs [])) (entry_of a ?t)"
    using snoc by (simp add: disconnects_append)
  then show ?case
    using burst_left_count [of opts t0 "k + length (accused a evs [])" "entry_of a ?t" now] snoc.prems
    by (auto simp: x own_run_append violations_after accused_append accused_one gone_iff disconnects_append split: own_event.splits)
qed (use assms(4) in simp)

text \<open>
  C0. Fewer than twice the threshold of denials within the window's length go unpunished: at the
  latest the one that makes it \<open>2 * threshold - 1\<close> disconnects the agent, whatever happened
  before. (One threshold alone is not enough, because the window does not slide.)
\<close>

theorem burst_is_disconnected:
  assumes "0 < oo_violationThreshold opts"
    and "\<forall>x \<in> set evs. t0 \<le> fst x \<and> fst x \<le> t0 + oo_violationWindowMs opts" and "Closed a \<notin> snd ` set evs"
    and "2 * oo_violationThreshold opts - 1 \<le> length (accused a evs [])"
  shows "disconnects opts a evs (own_run opts before empty_tracker)"
proof (rule ccontr)
  assume n: "\<not> ?thesis"
  have "burst_left opts t0 0 (entry_of a (own_run opts before empty_tracker))"
    using entry_below [OF assms(1)] by (auto simp: burst_left_def split: option.split)
  from burst_left_run [OF assms(2,3) n this] show False
    using assms(1,4) by (auto simp: burst_left_def split: option.splits if_splits)
qed

text \<open>
  The bound is sharp: four denials at the end of one window and four at the start of the next
  disconnect nobody.
\<close>

lemma burst_bound_is_sharp:
  "\<not> disconnects ownership_defaults ''a''
      ([(0, Answer ''a'' ''j'' NotOwned)] @ replicate 3 (59999, Answer ''a'' ''j'' NotOwned)
        @ replicate 4 (60001, Answer ''a'' ''j'' NotOwned)) empty_tracker"
  by code_simp

section \<open>What is accepted\<close>

text \<open>
  C0. A frame is handled only if the dispatcher owns the job for the agent, or the database has
  granted this very pair of agent and job since the agent connected; and what the database
  granted is remembered for at most 1024 jobs of an agent.
\<close>

theorem accepted_frames_are_granted:
  assumes "fst (own_step opts now ev (own_run opts evs empty_tracker)) = Some True"
  shows "\<exists>a j. (ev = Frame a j True \<or> j \<in> granted a (evs @ [(now, ev)]) {})
    \<and> event_agent ev = a \<and> length (accepted_jobs a (own_run opts evs empty_tracker)) \<le> 1024"
proof -
  have cap: "length (accepted_jobs a (own_run opts evs empty_tracker)) \<le> 1024" for a
  proof (induction evs rule: rev_induct)
    case (snoc x evs)
    obtain t ev where x: "x = (t, ev)" by (cases x)
    show ?case
    proof (cases ev)
      case (Answer b j r)
      then show ?thesis using snoc
        by (cases r) (auto simp: x own_run_append own_step_rules accepted_jobs_def opt_list_def Let_def length_js_add
            split: prod.split option.splits)
    qed (use snoc in \<open>auto simp: x own_run_append own_step_rules accepted_jobs_def opt_list_def\<close>)
  qed (simp add: accepted_jobs_def empty_tracker_def opt_list_def)
  show ?thesis
  proof (cases ev)
    case (Frame a j own)
    then show ?thesis using assms accepted_granted [of a opts evs] cap [of a]
      by (fastforce simp: own_step_Frame granted_append granted_one split: if_splits)
  next
    case (Answer a j r)
    then show ?thesis using assms cap [of a]
      by (cases r) (auto simp: validate_answer_def granted_append granted_one split: prod.splits)
  qed (use assms in simp)
qed

text \<open>A lookup that does not answer in time, or fails, is undecided, whatever deadline is configured.\<close>

lemma undecided_without_answer:
  "resolveFromDb (Some (\<lambda>_. TooLate)) read = Unknown" "resolveFromDb (Some (\<lambda>_. Rejects)) read = Unknown"
  by (simp_all add: resolveFromDb_def)

lemma deadline_honoured: "1 \<le> resolveTimeoutMs read \<and> resolveTimeoutMs read \<le> MAX_TIMER_DELAY_MS"
  by (auto simp: resolveTimeoutMs_def DEFAULT_OWNERSHIP_DB_CHECK_TIMEOUT_MS_def MAX_TIMER_DELAY_MS_def
      split: option.split settles.split)

section \<open>Witnesses\<close>

abbreviation denials :: "millis list \<Rightarrow> (millis \<times> own_event) list" where
  "denials \<equiv> map (\<lambda>t. (t, Answer ''a'' ''j'' NotOwned))"

theorem disconnects_have_evidence_witness:
  "5 \<le> length (filter (\<lambda>t. 40 - 60000 \<le> t) (accused ''a'' (denials [0, 10, 20, 30] @ [(40, Answer ''a'' ''j'' NotOwned)]) []))"
proof -
  have "sorted (map fst (denials [0, 10, 20, 30] @ [(40, Answer ''a'' ''j'' NotOwned)]))" by simp
  moreover have "snd (snd (own_step ownership_defaults 40 (Answer ''a'' ''j'' NotOwned)
      (own_run ownership_defaults (denials [0, 10, 20, 30]) empty_tracker)))" by code_simp
  ultimately show ?thesis
    using disconnects_have_evidence [of "denials [0, 10, 20, 30]" 40 "Answer ''a'' ''j'' NotOwned" ownership_defaults]
    by (auto simp: ownership_defaults_def)
qed

theorem burst_is_disconnected_witness:
  "disconnects ownership_defaults ''a'' (denials [0, 1, 2, 3, 4, 5, 6, 7, 8])
     (own_run ownership_defaults [(-9, Answer ''a'' ''j'' NotOwned)] empty_tracker)"
  by (rule burst_is_disconnected [of _ _ 0]) (simp_all add: ownership_defaults_def)

theorem accepted_frames_are_granted_witness:
  "\<exists>a j. (Frame ''a'' ''j'' False = Frame a j True \<or> j \<in> granted a ([(0, Answer ''a'' ''j'' Owned)] @ [(1, Frame ''a'' ''j'' False)]) {})
    \<and> event_agent (Frame ''a'' ''j'' False) = a
    \<and> length (accepted_jobs a (own_run ownership_defaults [(0, Answer ''a'' ''j'' Owned)] empty_tracker)) \<le> 1024"
  by (rule accepted_frames_are_granted) code_simp

end
