(* ===== verification/OwnershipRuns.thy ===== *)
theory OwnershipRuns
  imports Ownership DispatcherRuns
begin

text \<open>
  The ownership tracker connected to the dispatcher and to the shared queue, as
  \<open>packages/orchestrator/src/orchestrator-core.ts\<close> connects them, and what a frame of an agent can
  do to a job that another agent runs.
\<close>

text \<open>The lookup that the tracker is given, when its query succeeds.\<close>

definition db_verdict :: "agent_id \<Rightarrow> job_id \<Rightarrow> dispatcher \<Rightarrow> ownership_db_result" where
  "db_verdict a j s = (if hasAgentOwnedJob a j (dp_db s) then Owned else NotOwned)"

text \<open>The verdict on a frame when it arrives, and the tracker after the database was asked for it.\<close>

definition frame_verdict :: "agent_id \<Rightarrow> job_id \<Rightarrow> dispatcher \<Rightarrow> ownership_tracker \<Rightarrow> bool option" where
  "frame_verdict a j s t = fst (own_step ownership_defaults (nowMs s) (Frame a j (isJobOwnedByAgent a j s)) t)"

definition asked :: "agent_id \<Rightarrow> job_id \<Rightarrow> dispatcher \<Rightarrow> ownership_tracker \<Rightarrow> ownership_tracker" where
  "asked a j s t = fst (snd (own_step ownership_defaults (nowMs s) (Answer a j (db_verdict a j s)) t))"

section \<open>A grant outlives the ownership\<close>

text \<open>
  Agent \<open>a\<close> runs a job for the sibling \<open>B\<close>, loses its connection and reconnects to this
  coordinator, which grants its first frame from the database. Then \<open>B\<close> sees the disconnect, puts
  the job back and its agent \<open>x\<close> takes it.
\<close>

definition reconnected_agent :: dispatcher where
  "reconnected_agent = demo_connect ''a'' False
     (demo_dispatcher\<lparr>dp_db := demo_db [(demo_row ''j1'' DqDispatched)\<lparr>dq_agent_id := Some ''a''\<rparr>]\<rparr>)"

definition job_moved_on :: dispatcher where
  "job_moved_on = demo_sibling (\<lambda>c db. markDispatched demo_clock c ''j1'' ''x'' (snd (claimRowById demo_clock c ''j1'' (Some ''x'')
          (snd (snd (requeue ''j1'' (Some True) None c db)))))) reconnected_agent"

lemma reconnected_reachable: "demo_reachable reconnected_agent"
  unfolding reconnected_agent_def
  by (rule reach_connect, rule reach.reach_init)
     (simp add: dispatcher_init_def demo_dispatcher_def registry_init_def empty_registry_def)

lemma job_moves_on: "dispatcher_step reconnected_agent job_moved_on"
proof -
  let ?c = "demo_coord\<lparr>co_instanceId := Some ''B''\<rparr>" and ?db = "dp_db reconnected_agent"
  let ?db1 = "snd (snd (requeue ''j1'' (Some True) None ?c ?db))"
  have "dq_step ?db (EvReturn ''j1'') ?db1"
    by (rule st_requeue [of _ _ _ _ _ "fst (requeue ''j1'' (Some True) None ?c ?db)"
          "fst (snd (requeue ''j1'' (Some True) None ?c ?db))"]) simp
  moreover obtain ev where "dq_step ?db1 ev (snd (claimRowById demo_clock ?c ''j1'' (Some ''x'') ?db1))"
    using claimed_or_not by blast
  ultimately have "\<exists>evs. dq_trace ?db evs (markDispatched demo_clock ?c ''j1'' ''x''
      (snd (claimRowById demo_clock ?c ''j1'' (Some ''x'') ?db1)))"
    by (rule three_events) (rule st_markDispatched)
  then show ?thesis unfolding job_moved_on_def demo_sibling_def by (auto intro: ds_queue)
qed

text \<open>
  C0. A grant of the database outlives the ownership: once granted, the frames of an agent for a
  job are handled until it disconnects, although the job was requeued and runs on another agent
  meanwhile and the database would refuse; a terminal frame then completes the job under the
  agent that runs it.
\<close>

theorem stale_grant_completes_another_agents_job:
  "\<exists>s s' t a b j. demo_reachable s \<and> dispatcher_step s s' \<and> t = asked a j s empty_tracker
    \<and> (\<exists>r \<in> set (dispatch_queue (dp_db s')). dq_id r = j \<and> dq_status r = DqDispatched \<and> dq_agent_id r = Some b)
    \<and> b \<noteq> a \<and> db_verdict a j s' = NotOwned \<and> frame_verdict a j s' t = Some True
    \<and> (\<exists>r \<in> set (dispatch_queue (dp_db (demo_call (RunIssued 0) (demo_call (Completed a j) s')))).
         dq_id r = j \<and> dq_status r = DqCompleted \<and> dq_agent_id r = Some b)"
proof (intro exI conjI)
  show "demo_reachable reconnected_agent" by (rule reconnected_reachable)
  show "dispatcher_step reconnected_agent job_moved_on" by (rule job_moves_on)
  let ?t = "asked ''a'' ''j1'' reconnected_agent empty_tracker"
  show "\<exists>r \<in> set (dispatch_queue (dp_db job_moved_on)). dq_id r = ''j1'' \<and> dq_status r = DqDispatched \<and> dq_agent_id r = Some ''x''"
    and "db_verdict ''a'' ''j1'' job_moved_on = NotOwned"
    and "frame_verdict ''a'' ''j1'' job_moved_on ?t = Some True"
    and "\<exists>r \<in> set (dispatch_queue (dp_db (demo_call (RunIssued 0) (demo_call (Completed ''a'' ''j1'') job_moved_on)))).
      dq_id r = ''j1'' \<and> dq_status r = DqCompleted \<and> dq_agent_id r = Some ''x''"
    unfolding job_moved_on_def reconnected_agent_def by code_simp+
qed simp_all

text \<open>
  A finished job belongs to every agent: the database grants it to whoever asks, not only to an
  agent that once ran it.
\<close>

lemma finished_job_is_anyones:
  assumes "find (\<lambda>r. dq_id r = j) (dispatch_queue (dp_db s)) = Some r" and "dq_status r \<in> {DqCompleted, DqFailed, DqExpired}"
  shows "db_verdict a j s = Owned"
  using assms by (auto simp: db_verdict_def hasAgentOwnedJob_def)

text \<open>
  Forgetting an agent does not cancel the lookup of a frame that waits: an answer that comes
  after the disconnect is remembered for the next connection under the same name.
\<close>

lemma late_answer_survives_disconnect:
  "j \<in> set (accepted_jobs a (fst (snd (own_step opts now (Answer a j Owned) (cleanup a t)))))"
  by (simp add: validate_answer_def rememberDbAccepted_def cleanup_def accepted_jobs_def opt_list_def js_add_def)

end
