(* ===== verification/Spec2Isabelle.thy ===== *)
theory Spec2Isabelle
  imports RaftCluster Concurrency Needs Dag JobQueue Triggers Protection Secrets RateLimits LogMasker
    SpawnBudget WorkerRelay ParallelGroup HeldRuns Approvals HoldSweep JobSeal DispatchQueue DispatchSafety AgentFleet Dispatcher DispatchRules DispatcherSafety DispatcherRuns Ownership OwnershipRuns
begin

text \<open>KiCI.\<close>

end
